(* ===== verification/VPN_Prelude.thy ===== *)
theory VPN_Prelude
  imports Main "HOL-Library.Word"
begin

section \<open>Shared types, wire integers and generic lemmas\<close>

text \<open>
  This theory holds what every component of the development shares: the names of the Go types
  (\<open>byte\<close>, \<open>uint16\<close>, \<open>uint32\<close>, \<open>uint64\<close>) as fixed-width words, the big-endian encoders and
  decoders of \<^verbatim>\<open>encoding/binary\<close>, the result type in which an \<open>Inl\<close> is a Go error (or a
  run-time panic), and the generic lemmas on lists and words the component proofs use.

  A Go slice expression that is out of range panics.  The decoders therefore return an option:
  \<open>None\<close> is the panic, and the callers carry it on as a value of their own error type.
\<close>

unbundle bit_operations_syntax

type_synonym byte = "8 word"
type_synonym bytes = "byte list"
type_synonym u16 = "16 word"
type_synonym u32 = "32 word"
type_synonym u64 = "64 word"
type_synonym ('e, 'a) result = "'e + 'a"

named_theorems wire_simps \<open>encoding and decoding of wire integers\<close>
named_theorems model_defs \<open>definitions of the model that proofs unfold\<close>

subsection \<open>encoding/binary, big endian\<close>

definition be16 :: "u16 \<Rightarrow> bytes" where
  "be16 w = [ucast (drop_bit 8 w), ucast w]"

definition be32 :: "u32 \<Rightarrow> bytes" where
  "be32 w = [ucast (drop_bit 24 w), ucast (drop_bit 16 w), ucast (drop_bit 8 w), ucast w]"

definition u16_of :: "byte \<Rightarrow> byte \<Rightarrow> u16" where
  "u16_of a b = push_bit 8 (ucast a) OR ucast b"

definition u32_of :: "byte \<Rightarrow> byte \<Rightarrow> byte \<Rightarrow> byte \<Rightarrow> u32" where
  "u32_of a b c d =
     push_bit 24 (ucast a) OR push_bit 16 (ucast b) OR push_bit 8 (ucast c) OR ucast d"

fun Uint16 :: "bytes \<Rightarrow> u16 option" where
  "Uint16 (a # b # _) = Some (u16_of a b)"
| "Uint16 _ = None"

fun Uint32 :: "bytes \<Rightarrow> u32 option" where
  "Uint32 (a # b # c # d # _) = Some (u32_of a b c d)"
| "Uint32 _ = None"

definition slice :: "'a list \<Rightarrow> nat \<Rightarrow> nat \<Rightarrow> 'a list" where
  "slice xs i j = take (j - i) (drop i xs)"

definition splice :: "'a list \<Rightarrow> nat \<Rightarrow> 'a list \<Rightarrow> 'a list" where
  \<comment> \<open>Go's \<open>copy(xs[i:], ys)\<close> for a source that fits: overwrite from position \<open>i\<close>\<close>
  "splice xs i ys = take i xs @ ys @ drop (i + length ys) xs"

subsection \<open>Results\<close>

primrec rbind :: "('e, 'a) result \<Rightarrow> ('a \<Rightarrow> ('e, 'b) result) \<Rightarrow> ('e, 'b) result" where
  "rbind (Inl e) f = Inl e"
| "rbind (Inr x) f = f x"

primrec of_opt :: "'e \<Rightarrow> 'a option \<Rightarrow> ('e, 'a) result" where
  "of_opt e None = Inl e"
| "of_opt e (Some x) = Inr x"

primrec is_ok :: "('e, 'a) result \<Rightarrow> bool" where
  "is_ok (Inl e) = False"
| "is_ok (Inr x) = True"

text \<open>Go's conversion \<^verbatim>\<open>[]byte(s)\<close> and back; a Go string is a sequence of bytes.\<close>

definition bytes_of_string :: "string \<Rightarrow> bytes" where
  "bytes_of_string s = map of_char s"

definition string_of_bytes :: "bytes \<Rightarrow> string" where
  "string_of_bytes bs = map (\<lambda>b. char_of (unat b)) bs"

subsection \<open>Lemmas\<close>

lemma bit_byte_out [simp]: "8 \<le> n \<Longrightarrow> \<not> bit (w :: byte) n"
  using bit_imp_le_length [of w n] by auto

lemma unat_inject [simp]: "unat (a :: 'a :: len word) = unat b \<longleftrightarrow> a = b"
  by (simp add: word_unat_eq_iff)

lemma unat_byte [simp]: "unat (b :: byte) < 256"
  using unsigned_less [of b, where ?'a = nat] by simp

lemma unat_byte_le [simp]: "unat (b :: byte) \<le> 255"
  using unat_byte [of b] by linarith

lemma unat_u16 [simp]: "unat (w :: u16) < 65536"
  using unsigned_less [of w, where ?'a = nat] by simp

lemma unat_u32 [simp]: "unat (w :: u32) < 4294967296"
  using unsigned_less [of w, where ?'a = nat] by simp

lemma u16_of_be16 [simp, wire_simps]:
  "u16_of (ucast (drop_bit 8 w)) (ucast w) = w"
  unfolding u16_of_def
  by (rule bit_word_eqI) (auto simp: bit_simps)

lemma u32_of_be32 [simp, wire_simps]:
  "u32_of (ucast (drop_bit 24 w)) (ucast (drop_bit 16 w)) (ucast (drop_bit 8 w)) (ucast w) = w"
  unfolding u32_of_def
  by (rule bit_word_eqI)
    (auto simp: bit_simps not_less less_diff_conv2; metis le_add_diff_inverse not_less)

lemma be16_u16_of [simp, wire_simps]: "be16 (u16_of a b) = [a, b]"
  unfolding u16_of_def be16_def list.inject
  by (intro conjI; (rule bit_word_eqI)?) (auto simp: bit_simps)

lemma be32_u32_of [simp, wire_simps]: "be32 (u32_of a b c d) = [a, b, c, d]"
  unfolding u32_of_def be32_def list.inject
  by (intro conjI; (rule bit_word_eqI)?) (auto simp: bit_simps)

lemma length_be16 [simp, wire_simps]: "length (be16 w) = 2"
  by (simp add: be16_def)

lemma length_be32 [simp, wire_simps]: "length (be32 w) = 4"
  by (simp add: be32_def)

lemma Uint16_be16 [simp, wire_simps]: "Uint16 (be16 w @ xs) = Some w"
  by (simp add: be16_def)

lemma Uint32_be32 [simp, wire_simps]: "Uint32 (be32 w @ xs) = Some w"
  by (simp add: be32_def)

lemma Uint16_be16_only [simp, wire_simps]: "Uint16 (be16 w) = Some w"
  by (simp add: be16_def)

lemma Uint32_be32_only [simp, wire_simps]: "Uint32 (be32 w) = Some w"
  by (simp add: be32_def)

lemma Uint16_None_iff [simp]: "Uint16 xs = None \<longleftrightarrow> length xs < 2"
  by (cases xs rule: Uint16.cases) auto

lemma Uint32_None_iff [simp]: "Uint32 xs = None \<longleftrightarrow> length xs < 4"
  by (cases xs rule: Uint32.cases) auto

lemma Uint16_cong_take: "Uint16 (take n xs) = Uint16 xs" if "2 \<le> n"
  using that
  by (cases xs rule: Uint16.cases)
     (auto simp: take_Cons' numeral_2_eq_2)

lemma Uint32_take_4 [simp]: "Uint32 (take 4 xs) = Uint32 xs"
  by (cases xs rule: Uint32.cases) (auto simp: numeral_eq_Suc)

lemma be32_inj [simp]: "be32 v = be32 w \<longleftrightarrow> v = w"
  by (metis Uint32_be32_only option.inject)

lemma unat_u16_of: "unat (u16_of a b) = 256 * unat a + unat b"
proof -
  have "u16_of a b = push_bit 8 (ucast a) + ucast b"
    unfolding u16_of_def by (rule disjunctive_add [symmetric]) (auto simp: bit_simps)
  moreover have "256 * unat a + unat b < 65536"
    using unat_byte [of a] unat_byte [of b] by linarith
  ultimately show ?thesis
    by (simp add: unat_word_ariths push_bit_eq_mult unsigned_ucast_eq take_bit_nat_eq_self
        mult.commute)
qed

lemma length_slice [simp]: "length (slice xs i j) = min (j - i) (length xs - i)"
  by (simp add: slice_def min.commute)

lemma length_splice [simp]:
  "i + length ys \<le> length xs \<Longrightarrow> length (splice xs i ys) = length xs"
  by (simp add: splice_def)

lemma rbind_assoc: "rbind (rbind r f) g = rbind r (\<lambda>x. rbind (f x) g)"
  by (cases r) simp_all

lemma rbind_Inr_iff: "rbind r f = Inr y \<longleftrightarrow> (\<exists>x. r = Inr x \<and> f x = Inr y)"
  by (cases r) simp_all

lemma rbind_Inl_iff: "rbind r f = Inl e \<longleftrightarrow> r = Inl e \<or> (\<exists>x. r = Inr x \<and> f x = Inl e)"
  by (cases r) simp_all

lemma of_opt_Inr_iff [simp]: "of_opt e m = Inr x \<longleftrightarrow> m = Some x"
  by (cases m) simp_all

lemma of_opt_Inl_iff [simp]: "of_opt e m = Inl e' \<longleftrightarrow> m = None \<and> e' = e"
  by (cases m) auto

lemma length_bytes_of_string [simp]: "length (bytes_of_string s) = length s"
  by (simp add: bytes_of_string_def)

lemma length_string_of_bytes [simp]: "length (string_of_bytes bs) = length bs"
  by (simp add: string_of_bytes_def)

lemma unat_of_char: "unat (of_char c :: byte) = of_char c"
proof -
  have "(of_char c :: byte) = of_nat (of_char c)" by (simp only: of_nat_of_char)
  moreover have "(of_char c :: nat) < 256" by simp
  ultimately show ?thesis by (simp only: unat_of_nat) (simp add: take_bit_nat_eq_self)
qed

lemma string_of_bytes_of_string [simp]: "string_of_bytes (bytes_of_string s) = s"
  by (simp add: string_of_bytes_def bytes_of_string_def unat_of_char o_def)

lemma bytes_of_string_of_bytes [simp]: "bytes_of_string (string_of_bytes bs) = bs"
proof -
  have "(of_char (char_of (unat b) :: char) :: byte) = b" for b :: byte
  proof -
    have "unat b < 256" by (rule unat_byte)
    then have "of_char (char_of (unat b) :: char) = unat b" by simp
    then have "(of_nat (of_char (char_of (unat b) :: char)) :: byte) = of_nat (unat b)" by simp
    then show ?thesis by (simp only: of_nat_of_char) simp
  qed
  then show ?thesis by (simp add: string_of_bytes_def bytes_of_string_def o_def)
qed

lemma bytes_of_string_append [simp]:
  "bytes_of_string (s @ t) = bytes_of_string s @ bytes_of_string t"
  by (simp add: bytes_of_string_def)

subsection \<open>Invariants of step relations\<close>

text \<open>
  The state machines of the development (the client's calls, the key epochs, the relay server, the daemon) are step relations.  Each of them gives the two
  laws of this locale and gets from it what they imply for every run.
\<close>

locale invariant_system =
  fixes step :: "'s \<Rightarrow> 's \<Rightarrow> bool" and init :: "'s \<Rightarrow> bool" and inv :: "'s \<Rightarrow> bool"
  assumes inv_init: "init s \<Longrightarrow> inv s"
    and inv_step: "inv s \<Longrightarrow> step s s' \<Longrightarrow> inv s'"
begin

lemma inv_run: "step\<^sup>*\<^sup>* s s' \<Longrightarrow> inv s \<Longrightarrow> inv s'"
  by (induction rule: rtranclp_induct) (auto intro: inv_step)

lemma inv_reachable: "init s \<Longrightarrow> step\<^sup>*\<^sup>* s s' \<Longrightarrow> inv s'"
  by (auto intro: inv_run inv_init)

lemma stable_run:
  assumes "\<And>s s'. inv s \<Longrightarrow> step s s' \<Longrightarrow> P s \<Longrightarrow> P s'" "step\<^sup>*\<^sup>* s s'" "inv s" "P s"
  shows "P s'"
  using assms(2-)
proof (induction rule: rtranclp_induct)
  case (step y z)
  then show ?case using assms(1) inv_run by blast
qed simp

end

end
