(* ===== verification/Framing.thy ===== *)
theory Framing
  imports VPN_Prelude
begin

section \<open>Wire framing: opcodes, TCP and UDP framing, control-packet headers\<close>

text \<open>
  Models \<^verbatim>\<open>internal/framing/opcodes.go\<close> and \<^verbatim>\<open>internal/framing/framing.go\<close>, and the raw-reader
  goroutine of \<^verbatim>\<open>client.go\<close> that drains a connection packet by packet.

  A reader is the bytes still to come and the error the stream ends with; \<open>ReadFull\<close> follows
  \<^verbatim>\<open>io.ReadFull\<close> (an end of file in the middle of the buffer is \<open>IO_UnexpectedEOF\<close>).  A writer is
  a state and a write function that may fail.  Every slice expression that could be out of range
  is written with the partial decoders of the prelude, and \<open>FPanic\<close> is the run-time panic.
\<close>

subsection \<open>opcodes.go\<close>

definition P_CONTROL_HARD_RESET_CLIENT_V2 :: byte where "P_CONTROL_HARD_RESET_CLIENT_V2 = 0x07"
definition P_CONTROL_HARD_RESET_SERVER_V2 :: byte where "P_CONTROL_HARD_RESET_SERVER_V2 = 0x08"
definition P_CONTROL_SOFT_RESET_V1 :: byte where "P_CONTROL_SOFT_RESET_V1 = 0x03"
definition P_CONTROL_V1 :: byte where "P_CONTROL_V1 = 0x04"
definition P_ACK_V1 :: byte where "P_ACK_V1 = 0x05"
definition P_DATA_V1 :: byte where "P_DATA_V1 = 0x06"
definition P_DATA_V2 :: byte where "P_DATA_V2 = 0x09"

definition opcodeShift :: nat where "opcodeShift = 3"
definition keyIDMask :: byte where "keyIDMask = 0x07"

lemmas opcode_defs = P_CONTROL_HARD_RESET_CLIENT_V2_def P_CONTROL_HARD_RESET_SERVER_V2_def
  P_CONTROL_SOFT_RESET_V1_def P_CONTROL_V1_def P_ACK_V1_def P_DATA_V1_def P_DATA_V2_def

definition OpcodeFromByte :: "byte \<Rightarrow> byte" where
  "OpcodeFromByte b = drop_bit opcodeShift b"

definition KeyIDFromByte :: "byte \<Rightarrow> byte" where
  "KeyIDFromByte b = b AND keyIDMask"

definition FirstByte :: "byte \<Rightarrow> byte \<Rightarrow> byte" where
  "FirstByte opcode keyID = push_bit opcodeShift opcode OR (keyID AND keyIDMask)"

subsection \<open>framing.go: TCP and UDP framing\<close>

datatype io_error = IO_EOF | IO_UnexpectedEOF | IO_Other string

record reader =
  rd_data :: bytes
  rd_err :: io_error

datatype frame_error =
    ReadLength io_error
  | ZeroLengthPacket
  | ReadPayload nat io_error
  | WriteZeroLength
  | PacketTooLarge nat
  | WriteLength io_error
  | WritePayload io_error
  | UDPRead io_error
  | UDPWrite io_error

definition MaxPacketSize :: nat where "MaxPacketSize = 65535"

definition ReadFull :: "nat \<Rightarrow> reader \<Rightarrow> (io_error, bytes) result \<times> reader" where
  "ReadFull n r =
     (if n \<le> length (rd_data r)
      then (Inr (take n (rd_data r)), r\<lparr>rd_data := drop n (rd_data r)\<rparr>)
      else (Inl (if rd_err r = IO_EOF \<and> rd_data r \<noteq> [] then IO_UnexpectedEOF else rd_err r),
            r\<lparr>rd_data := []\<rparr>))"

definition ReadTCP :: "reader \<Rightarrow> (frame_error, bytes) result \<times> reader" where
  "ReadTCP r =
     (case ReadFull 2 r of
        (Inl e, r1) \<Rightarrow> (Inl (ReadLength e), r1)
      | (Inr lenBuf, r1) \<Rightarrow>
          (let n = unat (u16_of (lenBuf ! 0) (lenBuf ! 1)) in
           if n = 0 then (Inl ZeroLengthPacket, r1)
           else (case ReadFull n r1 of
                   (Inl e, r2) \<Rightarrow> (Inl (ReadPayload n e), r2)
                 | (Inr payload, r2) \<Rightarrow> (Inr payload, r2))))"

type_synonym 'w write_fn = "bytes \<Rightarrow> 'w \<Rightarrow> io_error option \<times> 'w"

definition WriteTCP :: "'w write_fn \<Rightarrow> bytes \<Rightarrow> 'w \<Rightarrow> frame_error option \<times> 'w" where
  "WriteTCP write payload w =
     (if length payload = 0 then (Some WriteZeroLength, w)
      else if MaxPacketSize < length payload then (Some (PacketTooLarge (length payload)), w)
      else (case write (be16 (of_nat (length payload))) w of
              (Some e, w1) \<Rightarrow> (Some (WriteLength e), w1)
            | (None, w1) \<Rightarrow>
                (case write payload w1 of
                   (Some e, w2) \<Rightarrow> (Some (WritePayload e), w2)
                 | (None, w2) \<Rightarrow> (None, w2))))"

record dgram_conn =
  dg_queue :: "bytes list"
  dg_err :: io_error

definition ReadUDP :: "dgram_conn \<Rightarrow> (frame_error, bytes) result \<times> dgram_conn" where
  "ReadUDP c =
     (case dg_queue c of
        [] \<Rightarrow> (Inl (UDPRead (dg_err c)), c)
      | d # ds \<Rightarrow> (Inr (take MaxPacketSize d), c\<lparr>dg_queue := ds\<rparr>))"

definition WriteUDP :: "'w write_fn \<Rightarrow> bytes \<Rightarrow> 'w \<Rightarrow> frame_error option \<times> 'w" where
  "WriteUDP write payload w =
     (if length payload = 0 then (Some WriteZeroLength, w)
      else (case write payload w of
              (Some e, w1) \<Rightarrow> (Some (UDPWrite e), w1)
            | (None, w1) \<Rightarrow> (None, w1)))"

text \<open>An in-memory stream that accepts every write, as a TCP connection's receive side sees it.\<close>

definition stream_write :: "bytes write_fn" where
  "stream_write b s = (None, s @ b)"

definition WriteTCP_all :: "bytes list \<Rightarrow> bytes \<Rightarrow> bytes" where
  "WriteTCP_all ps s = fold (\<lambda>p s. snd (WriteTCP stream_write p s)) ps s"

lemma ReadTCP_shrinks:
  "ReadTCP r = (Inr p, r') \<Longrightarrow> length (rd_data r') < length (rd_data r)"
  by (auto simp: ReadTCP_def ReadFull_def Let_def split: if_splits)

text \<open>The raw-reader goroutine of \<^verbatim>\<open>tlsHandshake\<close>: read packets until the first error.\<close>

function raw_reader :: "reader \<Rightarrow> bytes list \<times> frame_error" where
  "raw_reader r =
     (case ReadTCP r of
        (Inl e, r') \<Rightarrow> ([], e)
      | (Inr p, r') \<Rightarrow> (let (ps, e) = raw_reader r' in (p # ps, e)))"
  by pat_completeness auto
termination
  by (relation "measure (\<lambda>r. length (rd_data r))") (auto dest: ReadTCP_shrinks [OF sym])

declare raw_reader.simps [simp del]

subsection \<open>framing.go: ParseControl\<close>

record Packet =
  Opcode :: byte
  KeyID :: byte
  PeerID :: u32
  PacketID :: u32
  AckIDs :: "u32 list"
  Payload :: bytes

datatype parse_error =
    PacketTooShort nat
  | TruncatedAckArray
  | TruncatedPacketID
  | FPanic

text \<open>The loop that fills \<^verbatim>\<open>p.AckIDs\<close>: \<open>n\<close> words from offset \<open>off\<close>.\<close>

fun read_acks :: "bytes \<Rightarrow> nat \<Rightarrow> nat \<Rightarrow> (u32 list) option" where
  "read_acks raw off 0 = Some []"
| "read_acks raw off (Suc n) =
     (case Uint32 (drop off raw) of
        None \<Rightarrow> None
      | Some w \<Rightarrow> map_option ((#) w) (read_acks raw (off + 4) n))"

definition ParseControl :: "bytes \<Rightarrow> (parse_error, Packet) result" where
  "ParseControl raw =
     (if length raw < 10 then Inl (PacketTooShort (length raw))
      else
        let p = \<lparr>Opcode = OpcodeFromByte (raw ! 0), KeyID = KeyIDFromByte (raw ! 0), PeerID = 0,
                 PacketID = 0, AckIDs = [], Payload = []\<rparr>;
            ackLen = unat (raw ! 9);
            offset = 10
        in rbind
          (if 0 < ackLen
           then (if length raw < offset + ackLen * 4 + 8 then Inl TruncatedAckArray
                 else rbind (of_opt FPanic (read_acks raw offset ackLen))
                        (\<lambda>ids. Inr (p\<lparr>AckIDs := ids\<rparr>, offset + ackLen * 4 + 8)))
           else Inr (p, offset))
          (\<lambda>(p, offset).
             if Opcode p = P_ACK_V1 then Inr p
             else if length raw < offset + 4 then Inl TruncatedPacketID
             else rbind (of_opt FPanic (Uint32 (drop offset raw)))
                    (\<lambda>pid. Inr (p\<lparr>PacketID := pid, Payload := drop (offset + 4) raw\<rparr>))))"

subsection \<open>Opcode byte\<close>

lemma KeyIDFromByte_idem [simp]: "KeyIDFromByte (KeyIDFromByte b) = KeyIDFromByte b"
  by (simp add: KeyIDFromByte_def and.assoc)

lemma keyIDMask_mask: "keyIDMask = mask 3"
  by (simp add: keyIDMask_def mask_eq_exp_minus_1)

lemma bit_byte_small: "unat (w :: byte) < 2 ^ k \<Longrightarrow> k \<le> n \<Longrightarrow> \<not> bit w n"
proof -
  assume "unat w < 2 ^ k" "k \<le> n"
  then have "unat w < 2 ^ n"
    by (meson le_less_trans less_le_trans not_le one_le_numeral power_increasing)
  then have "unat w div 2 ^ n = 0" by simp
  then have "\<not> bit (unat w) n" by (simp add: bit_iff_odd)
  then show ?thesis by (simp add: bit_unsigned_iff)
qed

lemmas opcode_byte_defs = FirstByte_def OpcodeFromByte_def KeyIDFromByte_def keyIDMask_mask
  opcodeShift_def

lemma FirstByte_join [simp]: "FirstByte (OpcodeFromByte b) (KeyIDFromByte b) = b"
  unfolding opcode_byte_defs
  by (rule bit_word_eqI) (auto simp: bit_simps)

lemma OpcodeFromByte_FirstByte:
  assumes "unat opcode < 32"
  shows "OpcodeFromByte (FirstByte opcode k) = opcode"
proof -
  have hi: "bit opcode n \<Longrightarrow> n < 5" for n
    using bit_byte_small [of opcode 5 n] assms by (auto intro: leI)
  show ?thesis
    unfolding opcode_byte_defs
    by (rule bit_word_eqI) (auto simp: bit_simps dest: hi)
qed

lemma KeyIDFromByte_FirstByte [simp]: "KeyIDFromByte (FirstByte opcode k) = KeyIDFromByte k"
  unfolding opcode_byte_defs
  by (rule bit_word_eqI) (auto simp: bit_simps)

lemma KeyIDFromByte_small: "unat k < 8 \<Longrightarrow> KeyIDFromByte k = k"
proof -
  assume "unat k < 8"
  then have "bit k n \<Longrightarrow> n < 3" for n
    using bit_byte_small [of k 3 n] by (auto intro: leI)
  then show ?thesis
    unfolding opcode_byte_defs
    by (intro bit_word_eqI) (auto simp: bit_simps)
qed

lemma opcode_bounds [simp]:
  "unat P_CONTROL_HARD_RESET_CLIENT_V2 < 32" "unat P_CONTROL_HARD_RESET_SERVER_V2 < 32"
  "unat P_CONTROL_SOFT_RESET_V1 < 32" "unat P_CONTROL_V1 < 32" "unat P_ACK_V1 < 32"
  "unat P_DATA_V1 < 32" "unat P_DATA_V2 < 32"
  by (simp_all add: opcode_defs)

subsection \<open>TCP framing\<close>

lemma WriteTCP_stream:
  assumes "0 < length p" "length p \<le> MaxPacketSize"
  shows "WriteTCP stream_write p s = (None, s @ be16 (of_nat (length p)) @ p)"
  using assms by (auto simp: WriteTCP_def stream_write_def)

lemma ReadTCP_frame:
  assumes "0 < length p" "length p \<le> MaxPacketSize"
  shows "ReadTCP \<lparr>rd_data = be16 (of_nat (length p)) @ p @ rest, rd_err = e\<rparr>
         = (Inr p, \<lparr>rd_data = rest, rd_err = e\<rparr>)"
proof -
  have "unat (of_nat (length p) :: u16) = length p"
    using assms by (simp add: MaxPacketSize_def unat_of_nat take_bit_nat_eq_self)
  with assms show ?thesis
    by (simp add: ReadTCP_def ReadFull_def be16_def)
qed

lemma WriteTCP_all_Nil [simp]: "WriteTCP_all [] s = s"
  by (simp add: WriteTCP_all_def)

lemma WriteTCP_all_Cons [simp]:
  "WriteTCP_all (p # ps) s = WriteTCP_all ps (snd (WriteTCP stream_write p s))"
  by (simp add: WriteTCP_all_def)

lemma WriteTCP_all_eq:
  assumes "\<forall>p \<in> set ps. 0 < length p \<and> length p \<le> MaxPacketSize"
  shows "WriteTCP_all ps s = s @ concat (map (\<lambda>p. be16 (of_nat (length p)) @ p) ps)"
  using assms by (induction ps arbitrary: s) (simp_all add: WriteTCP_stream)

lemma raw_reader_end [simp]:
  "raw_reader \<lparr>rd_data = [], rd_err = e\<rparr> = ([], ReadLength e)"
  by (subst raw_reader.simps) (simp add: ReadTCP_def ReadFull_def)

lemma raw_reader_frame:
  assumes "0 < length p" "length p \<le> MaxPacketSize"
  shows "raw_reader \<lparr>rd_data = be16 (of_nat (length p)) @ p @ rest, rd_err = e\<rparr>
         = (p # fst (raw_reader \<lparr>rd_data = rest, rd_err = e\<rparr>),
            snd (raw_reader \<lparr>rd_data = rest, rd_err = e\<rparr>))"
  by (subst raw_reader.simps) (simp add: ReadTCP_frame [OF assms] split: prod.splits)

lemma raw_reader_frames:
  assumes "\<forall>p \<in> set ps. 0 < length p \<and> length p \<le> MaxPacketSize"
  shows "raw_reader \<lparr>rd_data = concat (map (\<lambda>p. be16 (of_nat (length p)) @ p) ps), rd_err = e\<rparr>
         = (ps, ReadLength e)"
  using assms by (induction ps) (simp_all add: raw_reader_frame)

lemma ReadTCP_result_bounds:
  "ReadTCP r = (Inr p, r') \<Longrightarrow> 0 < length p \<and> length p \<le> MaxPacketSize"
proof -
  have "unat (w :: u16) \<le> 65535" for w using unat_u16 [of w] by linarith
  then show "ReadTCP r = (Inr p, r') \<Longrightarrow> ?thesis"
    by (auto simp: ReadTCP_def ReadFull_def Let_def MaxPacketSize_def split: if_splits)
qed

subsection \<open>ParseControl\<close>

lemma read_acks_total:
  "off + n * 4 \<le> length raw \<Longrightarrow> \<exists>ids. read_acks raw off n = Some ids \<and> length ids = n"
proof (induction n arbitrary: off)
  case (Suc n)
  from Suc.prems have "\<not> length (drop off raw) < 4" by simp
  then obtain w where w: "Uint32 (drop off raw) = Some w"
    using Uint32_None_iff by blast
  obtain ids where "read_acks raw (off + 4) n = Some ids \<and> length ids = n"
    using Suc.IH [of "off + 4"] Suc.prems by auto
  with w show ?case by simp
qed simp

lemma read_acks_concat:
  "read_acks (pre @ concat (map be32 ids) @ post) (length pre) (length ids) = Some ids"
proof (induction ids arbitrary: pre)
  case (Cons w ids)
  have "read_acks ((pre @ be32 w) @ concat (map be32 ids) @ post) (length (pre @ be32 w))
          (length ids) = Some ids"
    by (rule Cons.IH)
  then show ?case by simp
qed simp

lemma ParseControl_cases:
  "ParseControl raw =
     (if length raw < 10 then Inl (PacketTooShort (length raw))
      else let n = unat (raw ! 9);
               op = OpcodeFromByte (raw ! 0);
               off = (if 0 < n then 18 + n * 4 else 10)
           in if 0 < n \<and> length raw < 18 + n * 4 then Inl TruncatedAckArray
              else if op = P_ACK_V1 then
                Inr \<lparr>Opcode = op, KeyID = KeyIDFromByte (raw ! 0), PeerID = 0, PacketID = 0,
                     AckIDs = the (read_acks raw 10 n), Payload = []\<rparr>
              else if length raw < off + 4 then Inl TruncatedPacketID
              else Inr \<lparr>Opcode = op, KeyID = KeyIDFromByte (raw ! 0), PeerID = 0,
                        PacketID = the (Uint32 (drop off raw)),
                        AckIDs = the (read_acks raw 10 n), Payload = drop (off + 4) raw\<rparr>)"
proof (cases "length raw < 10")
  case False
  define n where "n = unat (raw ! 9)"
  show ?thesis
  proof (cases "0 < n \<and> length raw < 18 + n * 4")
    case True
    with False show ?thesis by (simp add: ParseControl_def n_def Let_def)
  next
    case fits: False
    with False have "10 + n * 4 \<le> length raw" by auto
    then obtain ids where ids: "read_acks raw 10 n = Some ids"
      using read_acks_total by blast
    define off where "off = (if 0 < n then 18 + n * 4 else 10)"
    have "\<not> length raw < off + 4 \<Longrightarrow> \<exists>w. Uint32 (drop off raw) = Some w"
      using Uint32_None_iff [of "drop off raw"] by fastforce
    with False fits ids show ?thesis
      by (auto simp: ParseControl_def Let_def n_def [symmetric] off_def add.commute
          split: if_splits)
  qed
qed (simp add: ParseControl_def)

subsection \<open>The transport contract\<close>

text \<open>
  What the control and data relays rely on, whichever transport the profile selects: payloads written
  one by one come out one by one, in order.  \<open>holds s ps\<close> relates a connection to the payloads in it.
\<close>

primrec put_all :: "(bytes \<Rightarrow> 's \<Rightarrow> frame_error option \<times> 's) \<Rightarrow> bytes list \<Rightarrow> 's \<Rightarrow> 's" where
  "put_all put [] s = s"
| "put_all put (p # ps) s = put_all put ps (snd (put p s))"

primrec get_n :: "('s \<Rightarrow> (frame_error, bytes) result \<times> 's) \<Rightarrow> nat \<Rightarrow> 's \<Rightarrow> (frame_error, bytes) result list" where
  "get_n get 0 s = []"
| "get_n get (Suc n) s = (let (r, s') = get s in r # get_n get n s')"

locale packet_transport =
  fixes valid :: "bytes \<Rightarrow> bool"
    and holds :: "'s \<Rightarrow> bytes list \<Rightarrow> bool"
    and put :: "bytes \<Rightarrow> 's \<Rightarrow> frame_error option \<times> 's"
    and get :: "'s \<Rightarrow> (frame_error, bytes) result \<times> 's"
  assumes put_holds: "holds s ps \<Longrightarrow> valid p \<Longrightarrow> fst (put p s) = None \<and> holds (snd (put p s)) (ps @ [p])"
    and get_holds: "holds s (p # ps) \<Longrightarrow> fst (get s) = Inr p \<and> holds (snd (get s)) ps"
begin

lemma put_all_holds: "holds s ps \<Longrightarrow> \<forall>p \<in> set qs. valid p \<Longrightarrow> holds (put_all put qs s) (ps @ qs)"
proof (induction qs arbitrary: s ps)
  case (Cons q qs)
  then have "holds (snd (put q s)) (ps @ [q])" using put_holds by auto
  then show ?case using Cons.IH [of "snd (put q s)" "ps @ [q]"] Cons.prems by simp
qed simp

lemma get_n_holds: "holds s (ps @ qs) \<Longrightarrow> get_n get (length ps) s = map Inr ps"
proof (induction ps arbitrary: s)
  case (Cons p ps)
  then have "fst (get s) = Inr p" "holds (snd (get s)) (ps @ qs)" using get_holds by auto
  then show ?case using Cons.IH by (auto simp: split_beta Let_def)
qed simp

lemma fifo: "holds s [] \<Longrightarrow> \<forall>p \<in> set ps. valid p \<Longrightarrow> get_n get (length ps) (put_all put ps s) = map Inr ps"
  using put_all_holds [of s "[]" ps] get_n_holds [of "put_all put ps s" ps "[]"] by simp

end

definition frame_ok :: "bytes \<Rightarrow> bool" where
  "frame_ok p \<longleftrightarrow> 0 < length p \<and> length p \<le> MaxPacketSize"

definition tcp_write :: "reader write_fn" where
  "tcp_write b r = (None, r\<lparr>rd_data := rd_data r @ b\<rparr>)"

definition tcp_holds :: "reader \<Rightarrow> bytes list \<Rightarrow> bool" where
  "tcp_holds r ps \<longleftrightarrow> list_all frame_ok ps \<and> rd_data r = concat (map (\<lambda>p. be16 (of_nat (length p)) @ p) ps)"

lemma ReadTCP_holds:
  assumes "tcp_holds r (p # ps)"
  shows "fst (ReadTCP r) = Inr p \<and> tcp_holds (snd (ReadTCP r)) ps"
proof -
  obtain d e where r: "r = \<lparr>rd_data = d, rd_err = e\<rparr>" by (cases r)
  have "ReadTCP r = (Inr p, \<lparr>rd_data = concat (map (\<lambda>p. be16 (of_nat (length p)) @ p) ps), rd_err = e\<rparr>)"
    using assms ReadTCP_frame [of p] by (simp add: r tcp_holds_def frame_ok_def)
  then show ?thesis using assms by (simp add: tcp_holds_def)
qed

interpretation tcp: packet_transport frame_ok tcp_holds "WriteTCP tcp_write" ReadTCP
proof (unfold_locales, goal_cases)
  case (1 s ps p)
  then show ?case by (auto simp: tcp_holds_def frame_ok_def WriteTCP_def tcp_write_def)
next
  case (2 s p ps)
  then show ?case by (rule ReadTCP_holds)
qed

definition udp_write :: "dgram_conn write_fn" where
  "udp_write b c = (None, c\<lparr>dg_queue := dg_queue c @ [b]\<rparr>)"

definition udp_holds :: "dgram_conn \<Rightarrow> bytes list \<Rightarrow> bool" where
  "udp_holds c ps \<longleftrightarrow> list_all frame_ok ps \<and> dg_queue c = ps"

interpretation udp: packet_transport frame_ok udp_holds "WriteUDP udp_write" ReadUDP
proof (unfold_locales, goal_cases)
  case (1 s ps p)
  then show ?case by (auto simp: udp_holds_def frame_ok_def WriteUDP_def udp_write_def)
next
  case (2 s p ps)
  then show ?case by (auto simp: udp_holds_def frame_ok_def ReadUDP_def)
qed

subsection \<open>Properties\<close>

text \<open>(transport).  Payloads of 1 to 65535 bytes written to a TCP stream or to a datagram connection
  are read back one by one, in order and unchanged.\<close>

theorem transport_roundtrip:
  assumes "\<forall>p \<in> set ps. frame_ok p" "rd_data r = []" "dg_queue c = []"
  shows "get_n ReadTCP (length ps) (put_all (WriteTCP tcp_write) ps r) = map Inr ps \<and>
         get_n ReadUDP (length ps) (put_all (WriteUDP udp_write) ps c) = map Inr ps"
  using tcp.fifo [of r ps] udp.fifo [of c ps] assms by (simp add: tcp_holds_def udp_holds_def)

theorem transport_roundtrip_witness:
  "get_n ReadTCP 2 (put_all (WriteTCP tcp_write) [[1, 2], [3]] \<lparr>rd_data = [], rd_err = IO_EOF\<rparr>)
     = [Inr [1, 2], Inr [3]]"
  using transport_roundtrip [of "[[1, 2], [3]]" "\<lparr>rd_data = [], rd_err = IO_EOF\<rparr>"
      "\<lparr>dg_queue = [], dg_err = IO_EOF\<rparr>"]
  by (simp add: frame_ok_def MaxPacketSize_def numeral_2_eq_2)

text \<open>(raw reader).  The goroutine that drains the connection forwards exactly the packets that were
  framed onto the stream, in order, and ends with the error the stream ends with.\<close>

theorem raw_reader_drains:
  assumes "\<forall>p \<in> set ps. frame_ok p"
  shows "raw_reader \<lparr>rd_data = WriteTCP_all ps [], rd_err = e\<rparr> = (ps, ReadLength e)"
  using assms WriteTCP_all_eq [of ps "[]"] raw_reader_frames [of ps e] by (simp add: frame_ok_def)

theorem raw_reader_drains_witness:
  "raw_reader \<lparr>rd_data = WriteTCP_all [[7, 7], [8]] [], rd_err = IO_EOF\<rparr> = ([[7, 7], [8]], ReadLength IO_EOF)"
  by (rule raw_reader_drains) (simp add: frame_ok_def MaxPacketSize_def)

text \<open>(control headers).  On every input the parser of control packets returns without a slice out of
  range, and accepts exactly the packets that are long enough for their acknowledgement array, the remote
  session id that follows a non-empty array, and, unless they are pure acknowledgements, the packet id.\<close>

theorem ParseControl_accepts:
  "ParseControl raw \<noteq> Inl FPanic \<and>
   (is_ok (ParseControl raw) \<longleftrightarrow> 10 \<le> length raw \<and>
      (let n = unat (raw ! 9); off = (if n = 0 then 10 else 18 + n * 4)
       in off + (if OpcodeFromByte (raw ! 0) = P_ACK_V1 then 0 else 4) \<le> length raw))"
  by (auto simp: ParseControl_cases Let_def not_less split: if_splits)

end
