(* ===== verification/Reliable.thy ===== *)
theory Reliable
  imports VPN_Prelude "HOL-Library.Sublist"
begin

section \<open>Reliable control-channel transport\<close>

text \<open>
  Models \<^verbatim>\<open>internal/reliable/reliable.go\<close>: the send queue of unacknowledged packets with its
  retransmit schedule, and the sliding receive window.  Packet IDs are 32-bit words and wrap;
  times are nanoseconds (\<open>int\<close>); the back-off is computed as Go computes it, in a signed 64-bit
  \<^verbatim>\<open>time.Duration\<close>.  Go's \<open>time.Now()\<close> is an argument of the operations that call it.  The
  retry counter is a \<open>nat\<close>: a Go \<open>int\<close> would need \<open>2^63\<close> retransmissions to wrap.
\<close>

definition WindowSize :: u32 where "WindowSize = 8"

definition Second :: int where "Second = 1000000000"

definition RetransmitTimeout :: int where "RetransmitTimeout = 2 * Second"

subsection \<open>The send queue\<close>

record Entry =
  e_PacketID :: u32
  e_Payload :: bytes
  e_SentAt :: int
  e_Retries :: nat
  e_NextRetry :: int

record SendQueue =
  sq_entries :: "Entry list"
  sq_nextID :: u32

definition NewSendQueue :: "u32 \<Rightarrow> SendQueue" where
  "NewSendQueue firstPacketID = \<lparr>sq_entries = [], sq_nextID = firstPacketID\<rparr>"

definition Enqueue :: "bytes \<Rightarrow> int \<Rightarrow> SendQueue \<Rightarrow> u32 \<times> SendQueue" where
  "Enqueue payload now q =
     (let id = sq_nextID q;
          e = \<lparr>e_PacketID = id, e_Payload = payload, e_SentAt = now, e_Retries = 0,
               e_NextRetry = now + RetransmitTimeout\<rparr>
      in (id, q\<lparr>sq_nextID := id + 1, sq_entries := sq_entries q @ [e]\<rparr>))"

fun remove_first :: "u32 \<Rightarrow> Entry list \<Rightarrow> Entry list" where
  "remove_first packetID [] = []"
| "remove_first packetID (e # es) =
     (if e_PacketID e = packetID then es else e # remove_first packetID es)"

definition Ack :: "u32 \<Rightarrow> SendQueue \<Rightarrow> SendQueue" where
  "Ack packetID q = q\<lparr>sq_entries := remove_first packetID (sq_entries q)\<rparr>"

definition AckMany :: "u32 list \<Rightarrow> SendQueue \<Rightarrow> SendQueue" where
  "AckMany ids q = fold Ack ids q"

definition backoff :: "nat \<Rightarrow> int" where
  \<comment> \<open>\<^verbatim>\<open>RetransmitTimeout * (1 << e.Retries)\<close> as a signed 64-bit Duration, capped at 30 s\<close>
  "backoff retries =
     (let b = sint (of_int RetransmitTimeout * push_bit retries 1 :: u64)
      in if 30 * Second < b then 30 * Second else b)"

fun retransmit_scan :: "int \<Rightarrow> Entry list \<Rightarrow> Entry list \<times> Entry list" where
  "retransmit_scan now [] = ([], [])"
| "retransmit_scan now (e # es) =
     (let (due, rest) = retransmit_scan now es
      in if e_NextRetry e < now
         then let e' = e\<lparr>e_Retries := Suc (e_Retries e),
                         e_NextRetry := now + backoff (Suc (e_Retries e))\<rparr>
              in (e' # due, e' # rest)
         else (due, e # rest))"

definition DueForRetransmit :: "int \<Rightarrow> SendQueue \<Rightarrow> Entry list \<times> SendQueue" where
  "DueForRetransmit now q =
     (let (due, es) = retransmit_scan now (sq_entries q) in (due, q\<lparr>sq_entries := es\<rparr>))"

definition Len :: "SendQueue \<Rightarrow> nat" where "Len q = length (sq_entries q)"

definition NextID :: "SendQueue \<Rightarrow> u32" where "NextID q = sq_nextID q"

subsection \<open>The receive window\<close>

record RecvWindow =
  rw_expected :: u32
  rw_pending :: "u32 \<rightharpoonup> bytes"

definition NewRecvWindow :: RecvWindow where
  "NewRecvWindow = \<lparr>rw_expected = 0, rw_pending = Map.empty\<rparr>"

definition NewRecvWindowFrom :: "u32 \<Rightarrow> RecvWindow" where
  "NewRecvWindowFrom firstExpected = \<lparr>rw_expected = firstExpected, rw_pending = Map.empty\<rparr>"

text \<open>
  The delivery loop.  It removes one pending packet per round, and the packet IDs are a finite
  type, so it ends.
\<close>

function deliver :: "RecvWindow \<Rightarrow> bytes list \<times> RecvWindow" where
  "deliver w =
     (case rw_pending w (rw_expected w) of
        None \<Rightarrow> ([], w)
      | Some p \<Rightarrow>
          (let (ps, w') = deliver (w\<lparr>rw_pending := (rw_pending w)(rw_expected w := None),
                                     rw_expected := rw_expected w + 1\<rparr>)
           in (p # ps, w')))"
  by pat_completeness auto
termination
proof (relation "measure (\<lambda>w. card (dom (rw_pending w)))")
  fix w :: RecvWindow and p
  assume "rw_pending w (rw_expected w) = Some p"
  then have "rw_expected w \<in> dom (rw_pending w)" by blast
  moreover from this have "0 < card (dom (rw_pending w))" by (auto simp: card_gt_0_iff)
  ultimately show "(w\<lparr>rw_pending := (rw_pending w)(rw_expected w := None),
                rw_expected := rw_expected w + 1\<rparr>, w)
             \<in> measure (\<lambda>w. card (dom (rw_pending w)))"
    by simp
qed simp

declare deliver.simps [simp del]

definition Receive :: "u32 \<Rightarrow> bytes \<Rightarrow> RecvWindow \<Rightarrow> (bytes list \<times> u32 list) \<times> RecvWindow" where
  "Receive packetID payload w =
     (if packetID < rw_expected w then (([], []), w)
      else if rw_expected w + WindowSize \<le> packetID then (([], []), w)
      else let (payloads, w') = deliver (w\<lparr>rw_pending := (rw_pending w)(packetID \<mapsto> payload)\<rparr>)
           in ((payloads, [packetID]), w'))"

definition Expected :: "RecvWindow \<Rightarrow> u32" where "Expected w = rw_expected w"

subsection \<open>Delivery in order\<close>

text \<open>
  \<open>src\<close> is the packet sequence the peer sends: \<open>src n\<close> is the payload of packet ID \<open>n\<close>.  The
  window invariant says that what is buffered was sent, and lies strictly inside the window.
\<close>

definition held :: "(nat \<Rightarrow> bytes) \<Rightarrow> RecvWindow \<Rightarrow> bool" where
  "held src w \<longleftrightarrow>
     (\<forall>i p. rw_pending w i = Some p \<longrightarrow> p = src (unat i) \<and> unat (rw_expected w) \<le> unat i)"

definition rw_inv :: "(nat \<Rightarrow> bytes) \<Rightarrow> RecvWindow \<Rightarrow> bool" where
  "rw_inv src w \<longleftrightarrow>
     held src w \<and>
     (\<forall>i \<in> dom (rw_pending w). unat (rw_expected w) < unat i \<and> unat i < unat (rw_expected w) + 8)"

definition rw_level :: "RecvWindow \<Rightarrow> nat" where
  "rw_level w = unat (rw_expected w) + card (dom (rw_pending w))"

lemma unat_add_small:
  "unat (a :: u32) + k < 4294967296 \<Longrightarrow> unat (a + of_nat k) = unat a + k"
  by (simp add: unat_word_ariths unat_of_nat take_bit_nat_eq_self mod_simps)

lemma unat_succ: "unat (a :: u32) + 1 < 4294967296 \<Longrightarrow> unat (a + 1) = unat a + 1"
  using unat_add_small [of a 1] by simp

lemma deliver_correct:
  assumes "deliver w = (ps, w')" "held src w" "rw_level w < 4294967296"
  shows "unat (rw_expected w) \<le> unat (rw_expected w')
       \<and> ps = map src [unat (rw_expected w)..<unat (rw_expected w')]
       \<and> rw_pending w' (rw_expected w') = None
       \<and> held src w' \<and> rw_pending w' \<subseteq>\<^sub>m rw_pending w \<and> rw_level w' = rw_level w"
  using assms
proof (induction w arbitrary: ps rule: deliver.induct)
  case (1 w)
  show ?case
  proof (cases "rw_pending w (rw_expected w)")
    case None
    with 1 show ?thesis by (simp add: deliver.simps [of w])
  next
    case (Some p)
    define v where "v = w\<lparr>rw_pending := (rw_pending w)(rw_expected w := None),
                          rw_expected := rw_expected w + 1\<rparr>"
    obtain qs where d: "deliver v = (qs, w')" and ps: "ps = p # qs"
      using "1.prems"(1) Some by (auto simp: deliver.simps [of w] v_def split: prod.splits)
    have dom: "rw_expected w \<in> dom (rw_pending w)" using Some by blast
    then have pos: "0 < card (dom (rw_pending w))" by (auto simp: card_gt_0_iff)
    have succ: "unat (rw_expected v) = unat (rw_expected w) + 1"
      using "1.prems"(3) pos by (simp add: v_def rw_level_def unat_succ)
    have card: "card (dom (rw_pending v)) = card (dom (rw_pending w)) - 1"
      using dom by (simp add: v_def)
    have lv: "rw_level v = rw_level w"
      using succ card pos by (simp add: rw_level_def)
    have hv: "held src v"
      unfolding held_def
    proof (intro allI impI)
      fix i q assume "rw_pending v i = Some q"
      then have i: "i \<noteq> rw_expected w" "rw_pending w i = Some q"
        by (auto simp: v_def split: if_splits)
      with "1.prems"(2) have "q = src (unat i)" and le: "unat (rw_expected w) \<le> unat i"
        by (auto simp: held_def)
      moreover have "unat (rw_expected w) < unat i"
        using le i(1) by (metis le_neq_implies_less unat_inject)
      ultimately show "q = src (unat i) \<and> unat (rw_expected v) \<le> unat i" using succ by simp
    qed
    have IH: "unat (rw_expected v) \<le> unat (rw_expected w')
       \<and> qs = map src [unat (rw_expected v)..<unat (rw_expected w')]
       \<and> rw_pending w' (rw_expected w') = None
       \<and> held src w' \<and> rw_pending w' \<subseteq>\<^sub>m rw_pending v \<and> rw_level w' = rw_level v"
      using "1.IH" [OF Some, folded v_def, OF d hv] "1.prems"(3) lv by simp
    moreover have "p = src (unat (rw_expected w))" using "1.prems"(2) Some by (simp add: held_def)
    moreover have "rw_pending v \<subseteq>\<^sub>m rw_pending w" by (auto simp: v_def map_le_def)
    ultimately show ?thesis
      using ps succ lv by (auto simp: upt_rec [of "unat (rw_expected w)"] intro: map_le_trans)
  qed
qed

lemma rw_inv_card: "rw_inv src w \<Longrightarrow> card (dom (rw_pending w)) \<le> 7"
proof -
  assume inv: "rw_inv src w"
  have "unat ` dom (rw_pending w) \<subseteq> {unat (rw_expected w)<..<unat (rw_expected w) + 8}"
    using inv by (auto simp: rw_inv_def)
  then have "card (unat ` dom (rw_pending w)) \<le> 7"
    using card_mono [of "{unat (rw_expected w)<..<unat (rw_expected w) + 8}"] by fastforce
  moreover have "inj_on (unat :: u32 \<Rightarrow> nat) (dom (rw_pending w))" by (simp add: inj_on_def)
  ultimately show ?thesis by (simp add: card_image)
qed

lemma Receive_outside:
  assumes "unat i < unat (rw_expected w) \<or> unat (rw_expected w) + 8 \<le> unat i"
    and "unat (rw_expected w) + 8 < 4294967296"
  shows "Receive i p w = (([], []), w)"
  using assms unat_add_small [of "rw_expected w" 8]
  by (auto simp: Receive_def WindowSize_def word_less_nat_alt word_le_nat_alt)

lemma Receive_inside:
  assumes "unat (rw_expected w) \<le> unat i" "unat i < unat (rw_expected w) + 8"
    and "unat (rw_expected w) + 8 < 4294967296"
  shows "Receive i p w =
     (let (ps, w') = deliver (w\<lparr>rw_pending := (rw_pending w)(i \<mapsto> p)\<rparr>) in ((ps, [i]), w'))"
  using assms unat_add_small [of "rw_expected w" 8]
  by (auto simp: Receive_def WindowSize_def word_less_nat_alt word_le_nat_alt)

text \<open>
  One arrival: the window delivers exactly the packets from the old to the new expected ID, keeps
  its invariant, and moves its level (delivered plus buffered) by at most one.
\<close>

lemma Receive_step:
  assumes "Receive i (src (unat i)) w = ((ps, acks), w')" and inv: "rw_inv src w"
    and room: "unat (rw_expected w) + 8 < 4294967296"
  shows "rw_inv src w' \<and> unat (rw_expected w) \<le> unat (rw_expected w')
       \<and> ps = map src [unat (rw_expected w)..<unat (rw_expected w')]
       \<and> rw_level w' \<le> rw_level w + 1"
proof (cases "unat i < unat (rw_expected w) \<or> unat (rw_expected w) + 8 \<le> unat i")
  case True
  then show ?thesis using assms(1) inv Receive_outside [OF True room] by simp
next
  case False
  define v where "v = w\<lparr>rw_pending := (rw_pending w)(i \<mapsto> src (unat i))\<rparr>"
  have ex [simp]: "rw_expected v = rw_expected w" by (simp add: v_def)
  have d: "deliver v = (ps, w')"
    using assms(1) Receive_inside [of w i "src (unat i)"] False room
    by (auto simp: v_def split: prod.splits)
  have hv: "held src v" using inv False by (auto simp: held_def rw_inv_def v_def)
  have "card (dom (rw_pending v)) \<le> card (dom (rw_pending w)) + 1"
    by (simp add: v_def card_insert_if)
  then have lv: "rw_level v \<le> rw_level w + 1" by (simp add: rw_level_def)
  then have "rw_level v < 4294967296"
    using rw_inv_card [OF inv] room by (simp add: rw_level_def)
  note dc = deliver_correct [OF d hv this]
  have win: "j \<in> dom (rw_pending w') \<Longrightarrow> unat j < unat (rw_expected w) + 8" for j
  proof -
    assume "j \<in> dom (rw_pending w')"
    then have "j \<in> dom (rw_pending v)" using dc by (auto dest: map_le_implies_dom_le)
    then show ?thesis using inv False by (auto simp: v_def rw_inv_def)
  qed
  have "unat (rw_expected w') < unat j \<and> unat j < unat (rw_expected w') + 8"
    if j: "j \<in> dom (rw_pending w')" for j
  proof -
    have "unat (rw_expected w') \<le> unat j" using dc j by (auto simp: held_def)
    moreover have "j \<noteq> rw_expected w'" using dc j by auto
    moreover have "unat (rw_expected w) \<le> unat (rw_expected w')" using dc by simp
    ultimately show ?thesis using win [OF j] by (metis add_le_mono1 le_neq_implies_less less_le_trans unat_inject)
  qed
  then show ?thesis using dc lv by (auto simp: rw_inv_def)
qed

lemma rw_inv_init [simp]: "rw_inv src (NewRecvWindowFrom n)"
  by (simp add: rw_inv_def held_def NewRecvWindowFrom_def)

lemma rw_level_init [simp]: "rw_level (NewRecvWindowFrom n) = unat n"
  by (simp add: rw_level_def NewRecvWindowFrom_def)

lemma NewRecvWindow_from_0: "NewRecvWindow = NewRecvWindowFrom 0"
  by (simp add: NewRecvWindow_def NewRecvWindowFrom_def)

lemma Receive_progress:
  assumes "unat (rw_expected w) + 8 < 4294967296" "rw_inv src w"
    and "Receive (rw_expected w) (src (unat (rw_expected w))) w = ((ps, acks), w')"
  shows "ps \<noteq> [] \<and> unat (rw_expected w) < unat (rw_expected w')"
proof -
  have "\<exists>qs. ps = src (unat (rw_expected w)) # qs"
    using assms Receive_inside [of w "rw_expected w"]
    by (auto simp: deliver.simps [of "w\<lparr>rw_pending := _\<rparr>"] split: prod.splits)
  then show ?thesis
    using Receive_step [OF assms(3) assms(2) assms(1)] by (auto simp: upt_rec split: if_splits)
qed

subsection \<open>The receiver contract\<close>

text \<open>
  What a control session relies on: a receiver that is fed packets of the peer's sequence in any
  order hands out the sequence in order.  \<open>deliver_run\<close> feeds a list of arrivals and collects what
  is handed out; the locale states the contract of one arrival and derives that of a run.
\<close>

type_synonym 'w recv_fn = "u32 \<Rightarrow> bytes \<Rightarrow> 'w \<Rightarrow> (bytes list \<times> u32 list) \<times> 'w"

fun deliver_run :: "'w recv_fn \<Rightarrow> (u32 \<times> bytes) list \<Rightarrow> 'w \<Rightarrow> bytes list \<times> 'w" where
  "deliver_run recv [] w = ([], w)"
| "deliver_run recv ((i, p) # arr) w =
     (let ((ps, acks), w1) = recv i p w; (qs, w2) = deliver_run recv arr w1 in (ps @ qs, w2))"

definition sent_by :: "(nat \<Rightarrow> bytes) \<Rightarrow> (u32 \<times> bytes) list \<Rightarrow> bool" where
  "sent_by src arr \<longleftrightarrow> (\<forall>(i, p) \<in> set arr. p = src (unat i))"

lemma sent_by_Cons [simp]: "sent_by src ((i, p) # arr) \<longleftrightarrow> p = src (unat i) \<and> sent_by src arr"
  by (simp add: sent_by_def)

locale ordered_receiver =
  fixes recv :: "'w recv_fn"
    and nxt :: "'w \<Rightarrow> nat"
    and level :: "'w \<Rightarrow> nat"
    and inv :: "(nat \<Rightarrow> bytes) \<Rightarrow> 'w \<Rightarrow> bool"
  assumes nxt_le_level: "nxt w \<le> level w"
    and recv_step: "recv i (src (unat i)) w = ((ps, acks), w') \<Longrightarrow> inv src w \<Longrightarrow>
      nxt w + 8 < 4294967296 \<Longrightarrow>
      inv src w' \<and> nxt w \<le> nxt w' \<and> ps = map src [nxt w..<nxt w'] \<and> level w' \<le> level w + 1"
    and recv_progress: "recv i (src (unat i)) w = ((ps, acks), w') \<Longrightarrow> inv src w \<Longrightarrow>
      nxt w + 8 < 4294967296 \<Longrightarrow> unat i = nxt w \<Longrightarrow> nxt w < nxt w'"
begin

lemma run_in_order:
  "deliver_run recv arr w = (out, w') \<Longrightarrow> sent_by src arr \<Longrightarrow> inv src w \<Longrightarrow>
   level w + length arr + 8 < 4294967296 \<Longrightarrow>
   inv src w' \<and> nxt w \<le> nxt w' \<and> out = map src [nxt w..<nxt w'] \<and>
   level w' \<le> level w + length arr"
proof (induction arr arbitrary: w out)
  case (Cons a arr)
  obtain i p where a: "a = (i, p)" by (cases a)
  obtain ps acks w1 where r: "recv i p w = ((ps, acks), w1)" by (metis prod.exhaust)
  obtain qs where d: "deliver_run recv arr w1 = (qs, w')" and out: "out = ps @ qs"
    using Cons.prems(1) by (auto simp: a r split: prod.splits)
  have st: "inv src w1 \<and> nxt w \<le> nxt w1 \<and> ps = map src [nxt w..<nxt w1] \<and> level w1 \<le> level w + 1"
    using recv_step [of i src w ps acks w1] r Cons.prems nxt_le_level [of w] by (simp add: a)
  have "inv src w' \<and> nxt w1 \<le> nxt w' \<and> qs = map src [nxt w1..<nxt w'] \<and>
        level w' \<le> level w1 + length arr"
    using Cons.IH [OF d] Cons.prems st by (simp add: a)
  with st out show ?case
    by (auto simp: map_append [symmetric] upt_add_eq_append [symmetric] simp del: map_append
        intro: arg_cong [of _ _ "map src"]) (metis le_add_diff_inverse upt_add_eq_append)
qed simp

lemma run_complete:
  "deliver_run recv arr w = (out, w') \<Longrightarrow> sent_by src arr \<Longrightarrow> inv src w \<Longrightarrow>
   level w + length arr + 8 < 4294967296 \<Longrightarrow> n \<le> nxt w \<Longrightarrow>
   subseq [n..<m] (map (\<lambda>a. unat (fst a)) arr) \<Longrightarrow> m \<le> nxt w'"
proof (induction arr arbitrary: w out n)
  case Nil
  then show ?case by (auto dest!: list_emb_Nil2)
next
  case (Cons a arr)
  obtain i p where a: "a = (i, p)" by (cases a)
  obtain ps acks w1 where r: "recv i p w = ((ps, acks), w1)" by (metis prod.exhaust)
  obtain qs where d: "deliver_run recv arr w1 = (qs, w')"
    using Cons.prems(1) by (auto simp: a r split: prod.splits)
  have room: "nxt w + 8 < 4294967296" using Cons.prems(4) nxt_le_level [of w] by simp
  have st: "inv src w1 \<and> nxt w \<le> nxt w1 \<and> level w1 \<le> level w + 1"
    using recv_step [of i src w ps acks w1] r Cons.prems(2,3) room by (simp add: a)
  note IH = Cons.IH [OF d _ conjunct1 [OF st]]
  consider "subseq [n..<m] (map (\<lambda>a. unat (fst a)) arr)"
    | "n < m" "unat i = n" "subseq [Suc n..<m] (map (\<lambda>a. unat (fst a)) arr)"
    using Cons.prems(6) by (cases "n < m") (auto simp: a upt_rec [of n m] subseq_Cons2_iff split: if_splits)
  then show ?case
  proof cases
    case 1
    then show ?thesis using IH [of n] Cons.prems st by (simp add: a)
  next
    case 2
    have "Suc n \<le> nxt w1"
    proof (cases "nxt w = n")
      case True
      then show ?thesis
        using recv_progress [of i src w ps acks w1] r Cons.prems(2,3) room 2(2) by (simp add: a)
    next
      case False
      then show ?thesis using Cons.prems(5) st by linarith
    qed
    then show ?thesis using IH [of "Suc n"] Cons.prems st 2(3) by (simp add: a)
  qed
qed

end

interpretation recv_window: ordered_receiver Receive "\<lambda>w. unat (Expected w)" rw_level rw_inv
proof
  fix w show "unat (Expected w) \<le> rw_level w" by (simp add: Expected_def rw_level_def)
next
  fix i src w ps acks w'
  assume "Receive i (src (unat i)) w = ((ps, acks), w')" "rw_inv src w"
    and "unat (Expected w) + 8 < 4294967296"
  then show "rw_inv src w' \<and> unat (Expected w) \<le> unat (Expected w') \<and>
     ps = map src [unat (Expected w)..<unat (Expected w')] \<and> rw_level w' \<le> rw_level w + 1"
    using Receive_step by (simp add: Expected_def)
next
  fix i src w ps acks w'
  assume "Receive i (src (unat i)) w = ((ps, acks), w')" "rw_inv src w"
    and "unat (Expected w) + 8 < 4294967296" "unat i = unat (Expected w)"
  then show "unat (Expected w) < unat (Expected w')"
    using Receive_progress by (auto simp: Expected_def)
qed

subsection \<open>The send queue and the set of unacknowledged packets\<close>

text \<open>
  Abstractly a send queue is the set of sequence numbers sent and not yet acknowledged.  The
  operations of the code refine the obvious operations on that set as long as fewer than \<open>2^32\<close>
  packets were enqueued, so that packet IDs are not reused.
\<close>

datatype sq_op = OpEnqueue bytes int | OpAck u32 | OpAckMany "u32 list" | OpRetransmit int

fun sq_step :: "SendQueue \<Rightarrow> sq_op \<Rightarrow> SendQueue" where
  "sq_step q (OpEnqueue p now) = snd (Enqueue p now q)"
| "sq_step q (OpAck i) = Ack i q"
| "sq_step q (OpAckMany is) = AckMany is q"
| "sq_step q (OpRetransmit now) = snd (DueForRetransmit now q)"

definition sq_run :: "SendQueue \<Rightarrow> sq_op list \<Rightarrow> SendQueue" where
  "sq_run q ops = fold (\<lambda>op q. sq_step q op) ops q"

definition seq_id :: "u32 \<Rightarrow> nat \<Rightarrow> u32" where
  "seq_id first k = first + of_nat k"

text \<open>The abstract machine: how many packets were enqueued, and which are outstanding.\<close>

fun abs_step :: "u32 \<Rightarrow> nat \<times> nat set \<Rightarrow> sq_op \<Rightarrow> nat \<times> nat set" where
  "abs_step first (n, S) (OpEnqueue p now) = (Suc n, insert n S)"
| "abs_step first (n, S) (OpAck i) = (n, {k \<in> S. seq_id first k \<noteq> i})"
| "abs_step first (n, S) (OpAckMany is) = (n, {k \<in> S. seq_id first k \<notin> set is})"
| "abs_step first (n, S) (OpRetransmit now) = (n, S)"

definition abs_run :: "u32 \<Rightarrow> sq_op list \<Rightarrow> nat \<times> nat set" where
  "abs_run first ops = fold (\<lambda>op a. abs_step first a op) ops (0, {})"

definition sq_ids :: "SendQueue \<Rightarrow> u32 list" where
  "sq_ids q = map e_PacketID (sq_entries q)"

definition sq_rel :: "u32 \<Rightarrow> SendQueue \<Rightarrow> nat \<times> nat set \<Rightarrow> bool" where
  "sq_rel first q a \<longleftrightarrow>
     sq_nextID q = seq_id first (fst a) \<and> snd a \<subseteq> {..<fst a} \<and>
     distinct (sq_ids q) \<and> set (sq_ids q) = seq_id first ` snd a"

lemma seq_id_inject:
  "j < 4294967296 \<Longrightarrow> k < 4294967296 \<Longrightarrow> seq_id first j = seq_id first k \<longleftrightarrow> j = k"
proof -
  assume "j < 4294967296" "k < 4294967296"
  then have "unat (of_nat j :: u32) = j" "unat (of_nat k :: u32) = k"
    by (simp_all add: unat_of_nat take_bit_nat_eq_self)
  then show ?thesis by (metis add_left_cancel seq_id_def)
qed

lemma remove_first_ids: "map e_PacketID (remove_first i es) = remove1 i (map e_PacketID es)"
  by (induction es) auto

lemma sq_ids_Ack: "sq_ids (Ack i q) = remove1 i (sq_ids q)"
  by (simp add: sq_ids_def Ack_def remove_first_ids)

lemma sq_nextID_Ack [simp]: "sq_nextID (Ack i q) = sq_nextID q"
  by (simp add: Ack_def)

lemma AckMany_Nil [simp]: "AckMany [] q = q"
  by (simp add: AckMany_def)

lemma AckMany_Cons [simp]: "AckMany (i # is) q = AckMany is (Ack i q)"
  by (simp add: AckMany_def)

lemma sq_rel_Ack: "sq_rel first q (n, S) \<Longrightarrow> sq_rel first (Ack i q) (n, {k \<in> S. seq_id first k \<noteq> i})"
  by (auto simp: sq_rel_def sq_ids_Ack)

lemma sq_rel_AckMany:
  "sq_rel first q (n, S) \<Longrightarrow> sq_rel first (AckMany is q) (n, {k \<in> S. seq_id first k \<notin> set is})"
proof (induction "is" arbitrary: q S)
  case (Cons i "is")
  have "{k \<in> {k \<in> S. seq_id first k \<noteq> i}. seq_id first k \<notin> set is}
        = {k \<in> S. seq_id first k \<notin> set (i # is)}" by auto
  then show ?case using Cons.IH [OF sq_rel_Ack [OF Cons.prems, of i]] by simp
qed simp

lemma retransmit_scan_ids: "map e_PacketID (snd (retransmit_scan now es)) = map e_PacketID es"
  by (induction es) (auto simp: Let_def split: prod.splits)

lemma sq_rel_step:
  assumes "sq_rel first q a" "fst (abs_step first a op) < 4294967296"
  shows "sq_rel first (sq_step q op) (abs_step first a op)"
proof (cases a)
  case (Pair n S)
  show ?thesis
  proof (cases op)
    case (OpEnqueue p now)
    have "seq_id first n \<notin> seq_id first ` S"
    proof
      assume "seq_id first n \<in> seq_id first ` S"
      then obtain k where "k \<in> S" "seq_id first n = seq_id first k" by auto
      moreover have "k < n" using \<open>k \<in> S\<close> assms(1) by (auto simp: sq_rel_def Pair)
      ultimately show False
        using assms(2) seq_id_inject [of n k first] by (simp add: Pair OpEnqueue)
    qed
    with assms(1) OpEnqueue Pair show ?thesis
      by (auto simp: sq_rel_def Enqueue_def Let_def sq_ids_def seq_id_def)
  next
    case (OpRetransmit now)
    with assms(1) Pair show ?thesis
      by (auto simp: sq_rel_def DueForRetransmit_def sq_ids_def retransmit_scan_ids
          split: prod.splits) (metis retransmit_scan_ids snd_conv image_eqI list.set_map)+
  qed (use assms(1) Pair in \<open>simp_all add: sq_rel_Ack sq_rel_AckMany\<close>)
qed

lemma abs_step_mono: "fst a \<le> fst (abs_step first a op)"
  by (cases a; cases op) auto

lemma abs_fold_mono: "fst a \<le> fst (fold (\<lambda>op a. abs_step first a op) ops a)"
proof (induction ops arbitrary: a)
  case (Cons op ops)
  show ?case using le_trans [OF abs_step_mono Cons.IH] by simp
qed simp

lemma sq_rel_fold:
  "sq_rel first q a \<Longrightarrow> fst (fold (\<lambda>op a. abs_step first a op) ops a) < 4294967296 \<Longrightarrow>
   sq_rel first (sq_run q ops) (fold (\<lambda>op a. abs_step first a op) ops a)"
proof (induction ops arbitrary: q a)
  case (Cons op ops)
  have "fst (abs_step first a op) < 4294967296"
    using Cons.prems(2) le_less_trans [OF abs_fold_mono] by auto
  then have "sq_rel first (sq_step q op) (abs_step first a op)"
    using Cons.prems(1) by (simp add: sq_rel_step)
  then show ?case using Cons by (simp add: sq_run_def)
qed (simp add: sq_run_def)

lemma sq_rel_init: "sq_rel first (NewSendQueue first) (0, {})"
  by (simp add: sq_rel_def NewSendQueue_def sq_ids_def seq_id_def)

lemma sq_rel_Len: "sq_rel first q (n, S) \<Longrightarrow> n < 4294967296 \<Longrightarrow> Len q = card S"
proof -
  assume rel: "sq_rel first q (n, S)" and n: "n < 4294967296"
  have sub: "S \<subseteq> {..<n}" and d: "distinct (sq_ids q)" and ids: "set (sq_ids q) = seq_id first ` S"
    using rel unfolding sq_rel_def by simp_all
  have "inj_on (seq_id first) S"
  proof (rule inj_onI)
    fix j k assume "j \<in> S" "k \<in> S" and eq: "seq_id first j = seq_id first k"
    then have "j < 4294967296" "k < 4294967296" using sub n by force+
    with eq show "j = k" using seq_id_inject by blast
  qed
  then have "card (set (sq_ids q)) = card S" unfolding ids by (rule card_image)
  then show ?thesis using distinct_card [OF d] by (simp add: Len_def sq_ids_def)
qed

subsection \<open>The back-off schedule\<close>

lemma backoff_word:
  "(of_int RetransmitTimeout * push_bit r 1 :: u64) = 1953125 * 2 ^ (r + 10)"
  by (simp add: RetransmitTimeout_def Second_def push_bit_eq_mult power_add)

lemma backoff_late: "54 \<le> r \<Longrightarrow> backoff r = 0"
proof -
  assume "54 \<le> r"
  then have zero: "(2 :: u64) ^ (r + 10) = 0"
    by (simp add: exp_eq_zero_iff)
  show ?thesis
    unfolding backoff_def backoff_word zero by (simp add: Second_def)
qed

lemma backoff_upto_32: "backoff r = min (2 ^ r * RetransmitTimeout) (30 * Second)" if "r \<le> 32"
proof -
  have "r \<in> set [0..<33]" using that by auto
  then show ?thesis
    unfolding backoff_def
    by (simp add: upt_rec RetransmitTimeout_def Second_def Let_def) (elim disjE; simp)
qed

lemma backoff_33: "backoff 33 = - 1266874889709551616"
  by (simp add: backoff_def RetransmitTimeout_def Second_def)

subsection \<open>Properties\<close>

lemma deliver_run_in_order:
  assumes "sent_by src arr" "unat first + length arr + 8 < 2 ^ 32"
    and "deliver_run Receive arr (NewRecvWindowFrom first) = (out, w)"
  shows "unat first \<le> unat (Expected w) \<and> out = map src [unat first..<unat (Expected w)] \<and> rw_inv src w"
  using recv_window.run_in_order [OF assms(3,1) rw_inv_init] assms(2)
  by (simp add: Expected_def NewRecvWindowFrom_def rw_level_def)

text \<open>C16 (in-order delivery).  Whatever the order, the losses and the repetitions with which the peer's
  packets arrive, the window hands out a gap-free prefix of the peer's sequence, in order and without
  repetition, and never buffers more than seven packets; with the precondition that the packet ids do not
  come near the end of their 32-bit range.\<close>

theorem recv_window_in_order:
  assumes "sent_by src arr" "unat first + length arr + 8 < 2 ^ 32"
    and "deliver_run Receive arr (NewRecvWindowFrom first) = (out, w)"
  shows "unat first \<le> unat (Expected w) \<and> out = map src [unat first..<unat (Expected w)] \<and>
         card (dom (rw_pending w)) \<le> 7"
  using deliver_run_in_order [OF assms] rw_inv_card by blast

lemma deliver_run_sample:
  "deliver_run Receive [(2, [2]), (1, [1]), (1, [1]), (4, [4])] (NewRecvWindowFrom 1)
     = ([[1], [2]], \<lparr>rw_expected = 3, rw_pending = [4 \<mapsto> [4]]\<rparr>)"
  by (simp add: NewRecvWindowFrom_def Receive_def WindowSize_def deliver.simps Let_def fun_upd_def
      word_le_nat_alt word_less_nat_alt cong: if_cong)

theorem recv_window_in_order_witness:
  "deliver_run Receive [(2, [2]), (1, [1]), (1, [1]), (4, [4])] (NewRecvWindowFrom 1)
     = ([[1], [2]], \<lparr>rw_expected = 3, rw_pending = [4 \<mapsto> [4]]\<rparr>) \<and>
   [[1], [2]] = map (\<lambda>n. [of_nat n :: byte]) [1..<3]"
  using recv_window_in_order [OF _ _ deliver_run_sample, of "\<lambda>n. [of_nat n]"] deliver_run_sample
  by (simp add: sent_by_def Expected_def)

text \<open>C20 (complete delivery).  When retransmission makes the ids \<open>first, ..., m - 1\<close> arrive, each at least
  once after its predecessors, whatever else arrives in between, all their payloads are handed out.\<close>

theorem recv_window_complete:
  assumes "sent_by src arr" "unat first + length arr + 8 < 2 ^ 32"
    and "deliver_run Receive arr (NewRecvWindowFrom first) = (out, w)"
    and "subseq [unat first..<m] (map (\<lambda>a. unat (fst a)) arr)"
  shows "take (m - unat first) out = map src [unat first..<m]"
proof -
  have "m \<le> unat (Expected w)"
    using recv_window.run_complete [OF assms(3,1) rw_inv_init _ _ assms(4)] assms(2)
    by (simp add: Expected_def NewRecvWindowFrom_def rw_level_def)
  then show ?thesis using deliver_run_in_order [OF assms(1-3)]
    by (cases "unat first \<le> m") (simp_all add: take_map take_upt)
qed

theorem recv_window_complete_witness:
  "take 2 (fst (deliver_run Receive [(2, [2]), (1, [1]), (1, [1]), (4, [4]), (2, [2])] (NewRecvWindowFrom 1)))
     = [[1], [2]]"
proof -
  let ?arr = "[(2, [2]), (1, [1]), (1, [1]), (4, [4]), (2, [2])] :: (u32 \<times> bytes) list"
  obtain out w where d: "deliver_run Receive ?arr (NewRecvWindowFrom 1) = (out, w)"
    by (cases "deliver_run Receive ?arr (NewRecvWindowFrom 1)")
  have "take (3 - unat (1 :: u32)) out = map (\<lambda>n. [of_nat n :: byte]) [unat (1 :: u32)..<3]"
    by (rule recv_window_complete [OF _ _ d]) (simp_all add: sent_by_def upt_rec subseq_Cons2_iff)
  then show ?thesis using d by (simp add: upt_rec)
qed

text \<open>(what is acknowledged).  Away from the end of the id range, \<open>Receive\<close> acknowledges a packet exactly
  when its id lies in the window of eight ids from the expected one; a packet that was already delivered
  is dropped without acknowledgement and without effect.\<close>

theorem recv_window_acks:
  assumes "unat (Expected w) + 8 < 2 ^ 32"
  shows "snd (fst (Receive i p w)) =
           (if unat (Expected w) \<le> unat i \<and> unat i < unat (Expected w) + 8 then [i] else []) \<and>
         (unat i < unat (Expected w) \<longrightarrow> Receive i p w = (([], []), w))"
proof (cases "unat (Expected w) \<le> unat i \<and> unat i < unat (Expected w) + 8")
  case True
  then show ?thesis using assms Receive_inside [of w i p] by (auto simp: Expected_def split: prod.splits)
next
  case False
  then show ?thesis using assms Receive_outside [of i w p] by (auto simp: Expected_def)
qed

theorem recv_window_acks_witness:
  "snd (fst (Receive 9 [1] (NewRecvWindowFrom 1))) = [] \<and> Receive 0 [1] (NewRecvWindowFrom 1) = (([], []), NewRecvWindowFrom 1)"
  using recv_window_acks [of "NewRecvWindowFrom 1" 9 "[1]"] recv_window_acks [of "NewRecvWindowFrom 1" 0 "[1]"]
  by (simp add: Expected_def NewRecvWindowFrom_def)

text \<open>(end of the id range).  Once the expected id is one of the last eight of the 32-bit range, the upper
  bound of the window wraps to a small number and every packet is dropped: the session is stuck.\<close>

theorem recv_window_stuck_at_wrap:
  assumes "2 ^ 32 - 8 \<le> unat (Expected w)"
  shows "Receive i p w = (([], []), w)"
proof -
  have "unat (Expected w + 8) = (unat (Expected w) + 8) mod 2 ^ 32" by (simp add: unat_word_ariths)
  also have "\<dots> = unat (Expected w) + 8 - 2 ^ 32"
    using assms unat_u32 [of "Expected w"] by (subst le_mod_geq) (simp_all del: unat_u32)
  finally have "unat (Expected w + 8) \<le> unat (Expected w)" by simp
  then show ?thesis
    by (auto simp: Receive_def Expected_def WindowSize_def word_less_nat_alt word_le_nat_alt)
qed

theorem recv_window_stuck_at_wrap_witness:
  "Receive 0xFFFFFFF8 [1] (NewRecvWindowFrom 0xFFFFFFF8) = (([], []), NewRecvWindowFrom 0xFFFFFFF8)"
  by (rule recv_window_stuck_at_wrap) (simp add: Expected_def NewRecvWindowFrom_def)

text \<open>C22 (send queue).  The queue implements the set of unacknowledged packets: after any sequence of
  enqueues, acknowledgements and retransmission scans that enqueues fewer than 2^32 packets, the next id
  counts the packets enqueued, the ids in the queue are distinct and are exactly those enqueued and not
  acknowledged, and \<open>Len\<close> is their number.\<close>

theorem send_queue_refines_outstanding:
  assumes "fst (abs_run first ops) < 2 ^ 32" "q = sq_run (NewSendQueue first) ops"
  shows "NextID q = seq_id first (fst (abs_run first ops)) \<and> distinct (sq_ids q) \<and>
         set (sq_ids q) = seq_id first ` snd (abs_run first ops) \<and> Len q = card (snd (abs_run first ops))"
proof -
  have "sq_rel first q (abs_run first ops)"
    unfolding assms(2) abs_run_def using assms(1) by (intro sq_rel_fold sq_rel_init) (simp add: abs_run_def)
  then show ?thesis using assms(1) sq_rel_Len [of first q "fst (abs_run first ops)" "snd (abs_run first ops)"]
    by (auto simp: sq_rel_def NextID_def)
qed

theorem send_queue_refines_outstanding_witness:
  "Len (sq_run (NewSendQueue 1) [OpEnqueue [1] 0, OpEnqueue [2] 1, OpAckMany [1, 7], OpRetransmit 9]) = 1"
proof -
  have "abs_run 1 [OpEnqueue [1] 0, OpEnqueue [2] 1, OpAckMany [1, 7], OpRetransmit 9] = (2, {1})"
    by (auto simp: abs_run_def seq_id_def)
  then show ?thesis
    using send_queue_refines_outstanding [OF _ refl,
        of 1 "[OpEnqueue [1] 0, OpEnqueue [2] 1, OpAckMany [1, 7], OpRetransmit 9]"] by simp
qed

text \<open>(retransmission).  A scan returns exactly the entries whose deadline has passed, in queue order,
  each with one retry more and its payload unchanged, and leaves every id in the queue.\<close>

theorem retransmit_exact:
  "map (\<lambda>e. (e_PacketID e, e_Payload e, e_Retries e)) (fst (DueForRetransmit now q)) =
     map (\<lambda>e. (e_PacketID e, e_Payload e, Suc (e_Retries e))) (filter (\<lambda>e. e_NextRetry e < now) (sq_entries q)) \<and>
   sq_ids (snd (DueForRetransmit now q)) = sq_ids q"
proof -
  have "map (\<lambda>e. (e_PacketID e, e_Payload e, e_Retries e)) (fst (retransmit_scan now es)) =
     map (\<lambda>e. (e_PacketID e, e_Payload e, Suc (e_Retries e))) (filter (\<lambda>e. e_NextRetry e < now) es)" for es
    by (induction es) (auto simp: Let_def split: prod.splits)
  then show ?thesis
    by (simp add: DueForRetransmit_def sq_ids_def retransmit_scan_ids split_beta)
qed

text \<open>(back-off).  For the first 32 retries the delay doubles from four seconds up to a cap of 30 seconds.
  The cap is applied after the multiplication, which overflows: at retry 33 the delay is negative, and from
  retry 54 on it is zero, so that the packet is retransmitted at every scan.\<close>

theorem backoff_schedule:
  "(r \<le> 32 \<longrightarrow> backoff r = min (2 ^ r * RetransmitTimeout) (30 * Second)) \<and> backoff 33 < 0 \<and>
   (54 \<le> r \<longrightarrow> backoff r = 0)"
  by (simp add: backoff_upto_32 backoff_33 backoff_late)

theorem backoff_schedule_witness: "backoff 1 = 4 * Second \<and> backoff 4 = 30 * Second \<and> backoff 60 = 0"
  using backoff_schedule [of 1] backoff_schedule [of 4] backoff_schedule [of 60]
  by (simp add: RetransmitTimeout_def Second_def)

end
