(* ===== verification/Std_Crypto.thy ===== *)
theory Std_Crypto
  imports VPN_Prelude
begin

section \<open>The primitives of Go's crypto packages\<close>

text \<open>
  The client calls \<^verbatim>\<open>crypto/aes\<close>, \<^verbatim>\<open>crypto/cipher\<close> (GCM and CBC), \<^verbatim>\<open>crypto/sha256\<close> and
  \<^verbatim>\<open>crypto/hmac\<close>.  They are modelled here after their public standards (FIPS 197, SP 800-38D,
  SP 800-38A, FIPS 180-4, RFC 2104), as executable functions on byte lists, so that the data
  channel's theorems rest on no assumption about them.  What the proofs need is: the AES block
  decryption inverts the encryption, GCM and CBC invert themselves, and an HMAC has 32 bytes.
\<close>

subsection \<open>AES (FIPS 197)\<close>

definition sbox_table :: "byte list list" where
  "sbox_table = [
   [ 0x63, 0x7c, 0x77, 0x7b, 0xf2, 0x6b, 0x6f, 0xc5, 0x30, 0x01, 0x67, 0x2b, 0xfe, 0xd7, 0xab, 0x76 ],
   [ 0xca, 0x82, 0xc9, 0x7d, 0xfa, 0x59, 0x47, 0xf0, 0xad, 0xd4, 0xa2, 0xaf, 0x9c, 0xa4, 0x72, 0xc0 ],
   [ 0xb7, 0xfd, 0x93, 0x26, 0x36, 0x3f, 0xf7, 0xcc, 0x34, 0xa5, 0xe5, 0xf1, 0x71, 0xd8, 0x31, 0x15 ],
   [ 0x04, 0xc7, 0x23, 0xc3, 0x18, 0x96, 0x05, 0x9a, 0x07, 0x12, 0x80, 0xe2, 0xeb, 0x27, 0xb2, 0x75 ],
   [ 0x09, 0x83, 0x2c, 0x1a, 0x1b, 0x6e, 0x5a, 0xa0, 0x52, 0x3b, 0xd6, 0xb3, 0x29, 0xe3, 0x2f, 0x84 ],
   [ 0x53, 0xd1, 0x00, 0xed, 0x20, 0xfc, 0xb1, 0x5b, 0x6a, 0xcb, 0xbe, 0x39, 0x4a, 0x4c, 0x58, 0xcf ],
   [ 0xd0, 0xef, 0xaa, 0xfb, 0x43, 0x4d, 0x33, 0x85, 0x45, 0xf9, 0x02, 0x7f, 0x50, 0x3c, 0x9f, 0xa8 ],
   [ 0x51, 0xa3, 0x40, 0x8f, 0x92, 0x9d, 0x38, 0xf5, 0xbc, 0xb6, 0xda, 0x21, 0x10, 0xff, 0xf3, 0xd2 ],
   [ 0xcd, 0x0c, 0x13, 0xec, 0x5f, 0x97, 0x44, 0x17, 0xc4, 0xa7, 0x7e, 0x3d, 0x64, 0x5d, 0x19, 0x73 ],
   [ 0x60, 0x81, 0x4f, 0xdc, 0x22, 0x2a, 0x90, 0x88, 0x46, 0xee, 0xb8, 0x14, 0xde, 0x5e, 0x0b, 0xdb ],
   [ 0xe0, 0x32, 0x3a, 0x0a, 0x49, 0x06, 0x24, 0x5c, 0xc2, 0xd3, 0xac, 0x62, 0x91, 0x95, 0xe4, 0x79 ],
   [ 0xe7, 0xc8, 0x37, 0x6d, 0x8d, 0xd5, 0x4e, 0xa9, 0x6c, 0x56, 0xf4, 0xea, 0x65, 0x7a, 0xae, 0x08 ],
   [ 0xba, 0x78, 0x25, 0x2e, 0x1c, 0xa6, 0xb4, 0xc6, 0xe8, 0xdd, 0x74, 0x1f, 0x4b, 0xbd, 0x8b, 0x8a ],
   [ 0x70, 0x3e, 0xb5, 0x66, 0x48, 0x03, 0xf6, 0x0e, 0x61, 0x35, 0x57, 0xb9, 0x86, 0xc1, 0x1d, 0x9e ],
   [ 0xe1, 0xf8, 0x98, 0x11, 0x69, 0xd9, 0x8e, 0x94, 0x9b, 0x1e, 0x87, 0xe9, 0xce, 0x55, 0x28, 0xdf ],
   [ 0x8c, 0xa1, 0x89, 0x0d, 0xbf, 0xe6, 0x42, 0x68, 0x41, 0x99, 0x2d, 0x0f, 0xb0, 0x54, 0xbb, 0x16 ] ]"

definition inv_sbox_table :: "byte list list" where
  "inv_sbox_table = [
   [ 0x52, 0x09, 0x6a, 0xd5, 0x30, 0x36, 0xa5, 0x38, 0xbf, 0x40, 0xa3, 0x9e, 0x81, 0xf3, 0xd7, 0xfb ],
   [ 0x7c, 0xe3, 0x39, 0x82, 0x9b, 0x2f, 0xff, 0x87, 0x34, 0x8e, 0x43, 0x44, 0xc4, 0xde, 0xe9, 0xcb ],
   [ 0x54, 0x7b, 0x94, 0x32, 0xa6, 0xc2, 0x23, 0x3d, 0xee, 0x4c, 0x95, 0x0b, 0x42, 0xfa, 0xc3, 0x4e ],
   [ 0x08, 0x2e, 0xa1, 0x66, 0x28, 0xd9, 0x24, 0xb2, 0x76, 0x5b, 0xa2, 0x49, 0x6d, 0x8b, 0xd1, 0x25 ],
   [ 0x72, 0xf8, 0xf6, 0x64, 0x86, 0x68, 0x98, 0x16, 0xd4, 0xa4, 0x5c, 0xcc, 0x5d, 0x65, 0xb6, 0x92 ],
   [ 0x6c, 0x70, 0x48, 0x50, 0xfd, 0xed, 0xb9, 0xda, 0x5e, 0x15, 0x46, 0x57, 0xa7, 0x8d, 0x9d, 0x84 ],
   [ 0x90, 0xd8, 0xab, 0x00, 0x8c, 0xbc, 0xd3, 0x0a, 0xf7, 0xe4, 0x58, 0x05, 0xb8, 0xb3, 0x45, 0x06 ],
   [ 0xd0, 0x2c, 0x1e, 0x8f, 0xca, 0x3f, 0x0f, 0x02, 0xc1, 0xaf, 0xbd, 0x03, 0x01, 0x13, 0x8a, 0x6b ],
   [ 0x3a, 0x91, 0x11, 0x41, 0x4f, 0x67, 0xdc, 0xea, 0x97, 0xf2, 0xcf, 0xce, 0xf0, 0xb4, 0xe6, 0x73 ],
   [ 0x96, 0xac, 0x74, 0x22, 0xe7, 0xad, 0x35, 0x85, 0xe2, 0xf9, 0x37, 0xe8, 0x1c, 0x75, 0xdf, 0x6e ],
   [ 0x47, 0xf1, 0x1a, 0x71, 0x1d, 0x29, 0xc5, 0x89, 0x6f, 0xb7, 0x62, 0x0e, 0xaa, 0x18, 0xbe, 0x1b ],
   [ 0xfc, 0x56, 0x3e, 0x4b, 0xc6, 0xd2, 0x79, 0x20, 0x9a, 0xdb, 0xc0, 0xfe, 0x78, 0xcd, 0x5a, 0xf4 ],
   [ 0x1f, 0xdd, 0xa8, 0x33, 0x88, 0x07, 0xc7, 0x31, 0xb1, 0x12, 0x10, 0x59, 0x27, 0x80, 0xec, 0x5f ],
   [ 0x60, 0x51, 0x7f, 0xa9, 0x19, 0xb5, 0x4a, 0x0d, 0x2d, 0xe5, 0x7a, 0x9f, 0x93, 0xc9, 0x9c, 0xef ],
   [ 0xa0, 0xe0, 0x3b, 0x4d, 0xae, 0x2a, 0xf5, 0xb0, 0xc8, 0xeb, 0xbb, 0x3c, 0x83, 0x53, 0x99, 0x61 ],
   [ 0x17, 0x2b, 0x04, 0x7e, 0xba, 0x77, 0xd6, 0x26, 0xe1, 0x69, 0x14, 0x63, 0x55, 0x21, 0x0c, 0x7d ] ]"

definition table_lookup :: "byte list list \<Rightarrow> byte \<Rightarrow> byte" where
  "table_lookup t b = t ! unat (drop_bit 4 b) ! unat (b AND 15)"

definition sbox :: "byte \<Rightarrow> byte" where "sbox = table_lookup sbox_table"
definition inv_sbox :: "byte \<Rightarrow> byte" where "inv_sbox = table_lookup inv_sbox_table"

definition xtime :: "byte \<Rightarrow> byte" where
  "xtime b = (if bit b 7 then push_bit 1 b XOR 0x1b else push_bit 1 b)"

definition SubBytes :: "bytes \<Rightarrow> bytes" where "SubBytes s = map sbox s"
definition InvSubBytes :: "bytes \<Rightarrow> bytes" where "InvSubBytes s = map inv_sbox s"

definition ShiftRows :: "bytes \<Rightarrow> bytes" where
  "ShiftRows s = map (\<lambda>i. s ! ((i + 4 * (i mod 4)) mod 16)) [0..<16]"

definition InvShiftRows :: "bytes \<Rightarrow> bytes" where
  "InvShiftRows s = map (\<lambda>i. s ! ((i + 12 * (i mod 4)) mod 16)) [0..<16]"

fun MixColumns :: "bytes \<Rightarrow> bytes" where
  "MixColumns (a # b # c # d # s) =
     (xtime a XOR xtime b XOR b XOR c XOR d) #
     (a XOR xtime b XOR xtime c XOR c XOR d) #
     (a XOR b XOR xtime c XOR xtime d XOR d) #
     (xtime a XOR a XOR b XOR c XOR xtime d) # MixColumns s"
| "MixColumns s = s"

definition mul9 :: "byte \<Rightarrow> byte" where "mul9 a = xtime (xtime (xtime a)) XOR a"
definition mul11 :: "byte \<Rightarrow> byte" where "mul11 a = xtime (xtime (xtime a)) XOR xtime a XOR a"
definition mul13 :: "byte \<Rightarrow> byte" where
  "mul13 a = xtime (xtime (xtime a)) XOR xtime (xtime a) XOR a"
definition mul14 :: "byte \<Rightarrow> byte" where
  "mul14 a = xtime (xtime (xtime a)) XOR xtime (xtime a) XOR xtime a"

fun InvMixColumns :: "bytes \<Rightarrow> bytes" where
  "InvMixColumns (a # b # c # d # s) =
     (mul14 a XOR mul11 b XOR mul13 c XOR mul9 d) #
     (mul9 a XOR mul14 b XOR mul11 c XOR mul13 d) #
     (mul13 a XOR mul9 b XOR mul14 c XOR mul11 d) #
     (mul11 a XOR mul13 b XOR mul9 c XOR mul14 d) # InvMixColumns s"
| "InvMixColumns s = s"

definition xor_bytes :: "bytes \<Rightarrow> bytes \<Rightarrow> bytes" where
  "xor_bytes xs ys = map2 (XOR) xs ys"

fun aes_enc_rounds :: "bytes list \<Rightarrow> bytes \<Rightarrow> bytes" where
  "aes_enc_rounds [] s = s"
| "aes_enc_rounds [k] s = xor_bytes (ShiftRows (SubBytes s)) k"
| "aes_enc_rounds (k # ks) s =
     aes_enc_rounds ks (xor_bytes (MixColumns (ShiftRows (SubBytes s))) k)"

fun aes_dec_rounds :: "bytes list \<Rightarrow> bytes \<Rightarrow> bytes" where
  "aes_dec_rounds [] s = s"
| "aes_dec_rounds [k] s = InvSubBytes (InvShiftRows (xor_bytes s k))"
| "aes_dec_rounds (k # ks) s =
     InvSubBytes (InvShiftRows (InvMixColumns (xor_bytes (aes_dec_rounds ks s) k)))"

definition rcon :: "nat \<Rightarrow> byte" where "rcon n = (xtime ^^ n) 1"

text \<open>Key expansion: \<open>ws\<close> are the 4-byte words so far, \<open>nk\<close> the key length in words.\<close>

definition next_key_word :: "nat \<Rightarrow> bytes list \<Rightarrow> bytes" where
  "next_key_word nk ws =
     (let i = length ws; temp = last ws;
          temp' = (if i mod nk = 0
                   then xor_bytes (map sbox (rotate1 temp)) [rcon (i div nk - 1), 0, 0, 0]
                   else if 6 < nk \<and> i mod nk = 4 then map sbox temp else temp)
      in xor_bytes (ws ! (i - nk)) temp')"

fun expand_words :: "nat \<Rightarrow> nat \<Rightarrow> bytes list \<Rightarrow> bytes list" where
  "expand_words nk 0 ws = ws"
| "expand_words nk (Suc n) ws = expand_words nk n (ws @ [next_key_word nk ws])"

fun key_words :: "nat \<Rightarrow> bytes \<Rightarrow> bytes list" where
  "key_words 0 key = []"
| "key_words (Suc n) key = take 4 key # key_words n (drop 4 key)"

fun group4 :: "bytes list \<Rightarrow> bytes list" where
  "group4 (a # b # c # d # ws) = (a @ b @ c @ d) # group4 ws"
| "group4 ws = []"

definition aes_round_keys :: "bytes \<Rightarrow> bytes list" where
  "aes_round_keys key =
     (let nk = length key div 4
      in group4 (expand_words nk (4 * (nk + 7) - nk) (key_words nk key)))"

text \<open>\<^verbatim>\<open>aes.NewCipher\<close>: the key length selects AES-128, AES-192 or AES-256, other lengths fail.\<close>

definition aes_NewCipher :: "bytes \<Rightarrow> (nat, bytes list) result" where
  "aes_NewCipher key =
     (if length key = 16 \<or> length key = 24 \<or> length key = 32 then Inr (aes_round_keys key)
      else Inl (length key))"

definition aes_Encrypt :: "bytes list \<Rightarrow> bytes \<Rightarrow> bytes" where
  "aes_Encrypt rks blk = aes_enc_rounds (tl rks) (xor_bytes blk (hd rks))"

definition aes_Decrypt :: "bytes list \<Rightarrow> bytes \<Rightarrow> bytes" where
  "aes_Decrypt rks blk = xor_bytes (aes_dec_rounds (tl rks) blk) (hd rks)"

subsection \<open>GCM (SP 800-38D, 96-bit nonces) and CBC (SP 800-38A)\<close>

type_synonym block_fn = "bytes \<Rightarrow> bytes"

definition inc32 :: "bytes \<Rightarrow> bytes" where
  "inc32 blk = take 12 blk @ be32 (the (Uint32 (drop 12 blk)) + 1)"

function gctr :: "block_fn \<Rightarrow> bytes \<Rightarrow> bytes \<Rightarrow> bytes" where
  "gctr E cb x =
     (if x = [] then [] else xor_bytes (take 16 x) (E cb) @ gctr E (inc32 cb) (drop 16 x))"
  by pat_completeness auto
termination
  by (relation "measure (\<lambda>(E, cb, x). length x)") (auto simp: length_greater_0_conv)

declare gctr.simps [simp del]

definition block_word :: "bytes \<Rightarrow> 128 word" where
  "block_word bs = fold (\<lambda>b acc. push_bit 8 acc OR ucast b) bs 0"

definition word_block :: "128 word \<Rightarrow> bytes" where
  "word_block w = map (\<lambda>i. ucast (drop_bit (120 - 8 * i) w)) [0..<16]"

fun gf_mult_loop :: "nat \<Rightarrow> 128 word \<Rightarrow> 128 word \<Rightarrow> 128 word \<Rightarrow> 128 word" where
  "gf_mult_loop 0 x z v = z"
| "gf_mult_loop (Suc n) x z v =
     gf_mult_loop n x (if bit x n then z XOR v else z)
       (if bit v 0 then drop_bit 1 v XOR push_bit 120 0xe1 else drop_bit 1 v)"

definition gf_mult :: "128 word \<Rightarrow> 128 word \<Rightarrow> 128 word" where
  "gf_mult x y = gf_mult_loop 128 x 0 y"

function ghash_loop :: "128 word \<Rightarrow> 128 word \<Rightarrow> bytes \<Rightarrow> 128 word" where
  "ghash_loop h y x =
     (if x = [] then y
      else ghash_loop h
             (gf_mult (y XOR block_word (take 16 x @ replicate (16 - length (take 16 x)) 0)) h)
             (drop 16 x))"
  by pat_completeness auto
termination
  by (relation "measure (\<lambda>(h, y, x). length x)") (auto simp: length_greater_0_conv)

declare ghash_loop.simps [simp del]

definition be64_len :: "nat \<Rightarrow> bytes" where
  "be64_len n = map (\<lambda>i. of_nat (n div 2 ^ (56 - 8 * i))) [0..<8]"

definition ghash :: "128 word \<Rightarrow> bytes \<Rightarrow> bytes \<Rightarrow> 128 word" where
  "ghash h aad ct =
     ghash_loop h (ghash_loop h (ghash_loop h 0 aad) ct)
       (be64_len (8 * length aad) @ be64_len (8 * length ct))"

definition gcm_tag :: "block_fn \<Rightarrow> bytes \<Rightarrow> bytes \<Rightarrow> bytes \<Rightarrow> bytes" where
  "gcm_tag E nonce aad ct =
     xor_bytes (word_block (ghash (block_word (E (replicate 16 0))) aad ct))
       (E (nonce @ [0, 0, 0, 1]))"

text \<open>Go's \<^verbatim>\<open>cipher.AEAD\<close>: \<open>Seal\<close> appends the tag, \<open>Open\<close> expects it at the end.\<close>

definition gcm_Seal :: "block_fn \<Rightarrow> bytes \<Rightarrow> bytes \<Rightarrow> bytes \<Rightarrow> bytes" where
  "gcm_Seal E nonce plaintext aad =
     (let ct = gctr E (inc32 (nonce @ [0, 0, 0, 1])) plaintext in ct @ gcm_tag E nonce aad ct)"

definition gcm_Open :: "block_fn \<Rightarrow> bytes \<Rightarrow> bytes \<Rightarrow> bytes \<Rightarrow> bytes option" where
  "gcm_Open E nonce ciphertext aad =
     (if length ciphertext < 16 then None
      else let ct = take (length ciphertext - 16) ciphertext;
               tag = drop (length ciphertext - 16) ciphertext
           in if tag = gcm_tag E nonce aad ct
              then Some (gctr E (inc32 (nonce @ [0, 0, 0, 1])) ct) else None)"

function cbc_encrypt :: "block_fn \<Rightarrow> bytes \<Rightarrow> bytes \<Rightarrow> bytes" where
  "cbc_encrypt E iv x =
     (if x = [] then []
      else let c = E (xor_bytes (take 16 x) iv) in c @ cbc_encrypt E c (drop 16 x))"
  by pat_completeness auto
termination
  by (relation "measure (\<lambda>(E, iv, x). length x)") (auto simp: length_greater_0_conv)

function cbc_decrypt :: "block_fn \<Rightarrow> bytes \<Rightarrow> bytes \<Rightarrow> bytes" where
  "cbc_decrypt D iv x =
     (if x = [] then []
      else xor_bytes (D (take 16 x)) iv @ cbc_decrypt D (take 16 x) (drop 16 x))"
  by pat_completeness auto
termination
  by (relation "measure (\<lambda>(D, iv, x). length x)") (auto simp: length_greater_0_conv)

declare cbc_encrypt.simps [simp del] cbc_decrypt.simps [simp del]

subsection \<open>SHA-256 (FIPS 180-4) and HMAC (RFC 2104)\<close>

definition sha256_k :: "u32 list" where
  "sha256_k = [
     1116352408, 1899447441, 3049323471, 3921009573, 961987163, 1508970993, 2453635748, 2870763221,
     3624381080, 310598401, 607225278, 1426881987, 1925078388, 2162078206, 2614888103, 3248222580,
     3835390401, 4022224774, 264347078, 604807628, 770255983, 1249150122, 1555081692, 1996064986,
     2554220882, 2821834349, 2952996808, 3210313671, 3336571891, 3584528711, 113926993, 338241895,
     666307205, 773529912, 1294757372, 1396182291, 1695183700, 1986661051, 2177026350, 2456956037,
     2730485921, 2820302411, 3259730800, 3345764771, 3516065817, 3600352804, 4094571909, 275423344,
     430227734, 506948616, 659060556, 883997877, 958139571, 1322822218, 1537002063, 1747873779,
     1955562222, 2024104815, 2227730452, 2361852424, 2428436474, 2756734187, 3204031479, 3329325298]"

definition sha256_init :: "u32 list" where
  "sha256_init = [
   0x6a09e667, 0xbb67ae85, 0x3c6ef372, 0xa54ff53a, 0x510e527f, 0x9b05688c, 0x1f83d9ab, 0x5be0cd19 ]"

definition rotr :: "nat \<Rightarrow> u32 \<Rightarrow> u32" where
  "rotr n w = drop_bit n w OR push_bit (32 - n) w"

definition sha256_pad :: "bytes \<Rightarrow> bytes" where
  "sha256_pad m =
     m @ [0x80] @ replicate ((119 - length m mod 64) mod 64) 0 @ be64_len (8 * length m)"

fun be_words :: "bytes \<Rightarrow> u32 list" where
  "be_words (a # b # c # d # bs) = u32_of a b c d # be_words bs"
| "be_words bs = []"

text \<open>The message schedule, newest word first.\<close>

fun schedule :: "nat \<Rightarrow> u32 list \<Rightarrow> u32 list" where
  "schedule 0 ws = ws"
| "schedule (Suc n) ws =
     (let w2 = ws ! 1; w7 = ws ! 6; w15 = ws ! 14; w16 = ws ! 15;
          s0 = rotr 7 w15 XOR rotr 18 w15 XOR drop_bit 3 w15;
          s1 = rotr 17 w2 XOR rotr 19 w2 XOR drop_bit 10 w2
      in schedule n ((s1 + w7 + s0 + w16) # ws))"

type_synonym sha_state = "u32 \<times> u32 \<times> u32 \<times> u32 \<times> u32 \<times> u32 \<times> u32 \<times> u32"

fun sha_round :: "sha_state \<Rightarrow> u32 \<times> u32 \<Rightarrow> sha_state" where
  "sha_round (a, b, c, d, e, f, g, h) (k, w) =
     (let s1 = rotr 6 e XOR rotr 11 e XOR rotr 25 e;
          ch = (e AND f) XOR (NOT e AND g);
          t1 = h + s1 + ch + k + w;
          s0 = rotr 2 a XOR rotr 13 a XOR rotr 22 a;
          maj = (a AND b) XOR (a AND c) XOR (b AND c);
          t2 = s0 + maj
      in (t1 + t2, a, b, c, d + t1, e, f, g))"

fun add_state :: "sha_state \<Rightarrow> sha_state \<Rightarrow> sha_state" where
  "add_state (a, b, c, d, e, f, g, h) (a', b', c', d', e', f', g', h') =
     (a + a', b + b', c + c', d + d', e + e', f + f', g + g', h + h')"

definition sha_compress :: "sha_state \<Rightarrow> bytes \<Rightarrow> sha_state" where
  "sha_compress st block =
     add_state st
       (foldl sha_round st (zip sha256_k (rev (schedule 48 (rev (be_words block))))))"

function sha_blocks :: "sha_state \<Rightarrow> bytes \<Rightarrow> sha_state" where
  "sha_blocks st m = (if m = [] then st else sha_blocks (sha_compress st (take 64 m)) (drop 64 m))"
  by pat_completeness auto
termination
  by (relation "measure (\<lambda>(st, m). length m)") (auto simp: length_greater_0_conv)

declare sha_blocks.simps [simp del]

fun sha_output :: "sha_state \<Rightarrow> bytes" where
  "sha_output (a, b, c, d, e, f, g, h) =
     be32 a @ be32 b @ be32 c @ be32 d @ be32 e @ be32 f @ be32 g @ be32 h"

definition sha256 :: "bytes \<Rightarrow> bytes" where
  "sha256 m =
     sha_output (sha_blocks
       (sha256_init ! 0, sha256_init ! 1, sha256_init ! 2, sha256_init ! 3,
        sha256_init ! 4, sha256_init ! 5, sha256_init ! 6, sha256_init ! 7) (sha256_pad m))"

definition hmac_sha256 :: "bytes \<Rightarrow> bytes \<Rightarrow> bytes" where
  "hmac_sha256 key m =
     (let k0 = (if 64 < length key then sha256 key else key);
          k = k0 @ replicate (64 - length k0) 0
      in sha256 (map (\<lambda>b. b XOR 0x5c) k @ sha256 (map (\<lambda>b. b XOR 0x36) k @ m)))"

subsection \<open>AES decryption inverts encryption\<close>

lemma length_xor_bytes [simp]: "length (xor_bytes xs ys) = min (length xs) (length ys)"
  by (simp add: xor_bytes_def)

lemma xor_bytes_Nil [simp]: "xor_bytes [] ys = []"
  by (simp add: xor_bytes_def)

lemma xor_bytes_cancel [simp]:
  "length xs \<le> length ys \<Longrightarrow> xor_bytes (xor_bytes xs ys) ys = xs"
  unfolding xor_bytes_def by (rule nth_equalityI) (auto simp: xor.assoc)

lemma byte_cases: "(\<And>i. i < 256 \<Longrightarrow> P (of_nat i)) \<Longrightarrow> P (b :: byte)"
  using unat_byte [of b] by (metis of_nat_unat ucast_id)

lemma inv_sbox_all: "list_all (\<lambda>i. inv_sbox (sbox (of_nat i)) = of_nat i) [0..<256]"
  by code_simp

lemma inv_sbox_sbox [simp]: "inv_sbox (sbox b) = b"
proof (rule byte_cases)
  fix i :: nat assume "i < 256"
  then show "inv_sbox (sbox (of_nat i)) = of_nat i"
    using inv_sbox_all by (auto simp: list_all_iff)
qed

lemma InvSubBytes_SubBytes [simp]: "InvSubBytes (SubBytes s) = s"
  by (simp add: InvSubBytes_def SubBytes_def comp_def)

lemma shift_index_all:
  "list_all (\<lambda>i. (((i + 12 * (i mod 4)) mod 16) + 4 * (((i + 12 * (i mod 4)) mod 16) mod 4)) mod 16
     = (i :: nat)) [0..<16]"
  by code_simp

lemma InvShiftRows_ShiftRows [simp]: "length s = 16 \<Longrightarrow> InvShiftRows (ShiftRows s) = s"
proof (rule nth_equalityI)
  fix i assume "length s = 16" "i < length (InvShiftRows (ShiftRows s))"
  then have "i < 16" by (simp add: InvShiftRows_def)
  moreover from this
  have "(((i + 12 * (i mod 4)) mod 16) + 4 * (((i + 12 * (i mod 4)) mod 16) mod 4)) mod 16 = i"
    using shift_index_all unfolding list_all_iff by simp
  ultimately show "InvShiftRows (ShiftRows s) ! i = s ! i"
    by (simp add: InvShiftRows_def ShiftRows_def)
qed (simp add: InvShiftRows_def)

lemma xor_cancel_left: "(a :: byte) XOR (a XOR b) = b"
  by (simp flip: xor.assoc)

lemmas xor_ac = xor.assoc xor.commute xor.left_commute xor_cancel_left

lemma xtime_xor: "xtime (a XOR b) = xtime a XOR xtime b"
  by (auto simp: xtime_def bit_xor_iff push_bit_xor xor_ac)

lemma InvMixColumns_MixColumns [simp]: "InvMixColumns (MixColumns s) = s"
  by (induction s rule: MixColumns.induct)
     (simp_all add: mul9_def mul11_def mul13_def mul14_def xtime_xor xor_ac)

lemma length_SubBytes [simp]: "length (SubBytes s) = length s"
  by (simp add: SubBytes_def)

lemma length_ShiftRows [simp]: "length (ShiftRows s) = 16"
  by (simp add: ShiftRows_def)

lemma length_MixColumns [simp]: "length (MixColumns s) = length s"
  by (induction s rule: MixColumns.induct) simp_all

definition round_keys_ok :: "bytes list \<Rightarrow> bool" where
  "round_keys_ok ks \<longleftrightarrow> ks \<noteq> [] \<and> (\<forall>k \<in> set ks. length k = 16)"

lemma length_aes_enc_rounds:
  "\<forall>k \<in> set ks. length k = 16 \<Longrightarrow> length s = 16 \<Longrightarrow> length (aes_enc_rounds ks s) = 16"
  by (induction ks s rule: aes_enc_rounds.induct) simp_all

lemma aes_dec_enc_rounds:
  "\<forall>k \<in> set ks. length k = 16 \<Longrightarrow> length s = 16 \<Longrightarrow> aes_dec_rounds ks (aes_enc_rounds ks s) = s"
  by (induction ks s rule: aes_enc_rounds.induct) simp_all

lemma round_keys_ok_cases:
  "round_keys_ok rks \<Longrightarrow> length (hd rks) = 16 \<and> (\<forall>k \<in> set (tl rks). length k = 16)"
  by (cases rks) (auto simp: round_keys_ok_def)

lemma length_aes_Encrypt [simp]:
  "round_keys_ok rks \<Longrightarrow> length blk = 16 \<Longrightarrow> length (aes_Encrypt rks blk) = 16"
  by (auto simp: aes_Encrypt_def length_aes_enc_rounds dest: round_keys_ok_cases)

lemma aes_Decrypt_Encrypt [simp]:
  "round_keys_ok rks \<Longrightarrow> length blk = 16 \<Longrightarrow> aes_Decrypt rks (aes_Encrypt rks blk) = blk"
  by (auto simp: aes_Decrypt_def aes_Encrypt_def aes_dec_enc_rounds dest: round_keys_ok_cases)

lemma length_next_key_word:
  "\<forall>w \<in> set ws. length w = 4 \<Longrightarrow> 0 < nk \<Longrightarrow> nk \<le> length ws \<Longrightarrow> length (next_key_word nk ws) = 4"
proof -
  assume ws: "\<forall>w \<in> set ws. length w = 4" and nk: "0 < nk" "nk \<le> length ws"
  then have "ws \<noteq> []" by auto
  then have "length (last ws) = 4" using ws last_in_set by blast
  moreover have "length (ws ! (length ws - nk)) = 4" using ws nk by simp
  ultimately show ?thesis by (simp add: next_key_word_def Let_def)
qed

lemma expand_words_ok:
  "\<forall>w \<in> set ws. length w = 4 \<Longrightarrow> 0 < nk \<Longrightarrow> nk \<le> length ws \<Longrightarrow>
   (\<forall>w \<in> set (expand_words nk n ws). length w = 4) \<and>
   length (expand_words nk n ws) = length ws + n"
proof (induction n arbitrary: ws)
  case (Suc n)
  have "length (next_key_word nk ws) = 4" using Suc.prems by (rule length_next_key_word)
  then have "\<forall>w \<in> set (ws @ [next_key_word nk ws]). length w = 4" using Suc.prems(1) by auto
  from Suc.IH [OF this Suc.prems(2)] Suc.prems(3) show ?case by auto
qed simp

lemma length_key_words [simp]: "length (key_words n key) = n"
  by (induction n arbitrary: key) simp_all

lemma key_words_ok: "4 * n \<le> length key \<Longrightarrow> \<forall>w \<in> set (key_words n key). length w = 4"
proof (induction n arbitrary: key)
  case (Suc n)
  have "\<forall>w \<in> set (key_words n (drop 4 key)). length w = 4"
    by (rule Suc.IH) (use Suc.prems in simp)
  moreover have "length (take 4 key) = 4" using Suc.prems by simp
  ultimately show ?case by auto
qed simp

lemma group4_ok: "\<forall>w \<in> set ws. length w = 4 \<Longrightarrow> \<forall>k \<in> set (group4 ws). length k = 16"
  by (induction ws rule: group4.induct) auto

lemma group4_nonempty: "4 \<le> length ws \<Longrightarrow> group4 ws \<noteq> []"
  by (cases ws rule: group4.cases) auto

lemma aes_NewCipher_ok: "aes_NewCipher key = Inr rks \<Longrightarrow> round_keys_ok rks"
proof -
  assume "aes_NewCipher key = Inr rks"
  then have len: "length key = 16 \<or> length key = 24 \<or> length key = 32"
    and rks: "rks = aes_round_keys key"
    by (auto simp: aes_NewCipher_def split: if_splits)
  define nk where "nk = length key div 4"
  have nk: "0 < nk" "4 * nk \<le> length key" using len by (auto simp: nk_def)
  note ex = expand_words_ok [OF key_words_ok [OF nk(2)] nk(1), of "4 * (nk + 7) - nk"]
  then show ?thesis
    unfolding round_keys_ok_def rks aes_round_keys_def Let_def nk_def [symmetric]
    by (intro conjI group4_nonempty group4_ok) auto
qed

subsection \<open>GCM and CBC invert themselves\<close>

definition block_ok :: "block_fn \<Rightarrow> bool" where
  "block_ok E \<longleftrightarrow> (\<forall>b. length b = 16 \<longrightarrow> length (E b) = 16)"

lemma length_inc32 [simp]: "length b = 16 \<Longrightarrow> length (inc32 b) = 16"
  by (simp add: inc32_def)

lemma gctr_Nil [simp]: "gctr E cb [] = []"
  by (simp add: gctr.simps)

lemma length_gctr [simp]: "block_ok E \<Longrightarrow> length cb = 16 \<Longrightarrow> length (gctr E cb x) = length x"
proof (induction E cb x rule: gctr.induct)
  case (1 E cb x)
  then show ?case by (cases "x = []") (auto simp: gctr.simps [of E cb x] block_ok_def min_def)
qed

lemma gctr_invol: "block_ok E \<Longrightarrow> length cb = 16 \<Longrightarrow> gctr E cb (gctr E cb x) = x"
proof (induction E cb x rule: gctr.induct)
  case (1 E cb x)
  show ?case
  proof (cases "x = []")
    case False
    have eb: "length (E cb) = 16" using "1.prems" by (simp add: block_ok_def)
    define y where "y = xor_bytes (take 16 x) (E cb)"
    have g: "gctr E cb x = y @ gctr E (inc32 cb) (drop 16 x)"
      using False by (simp add: gctr.simps [of E cb x] y_def)
    have ny: "y \<noteq> []" using False eb by (auto simp: y_def xor_bytes_def)
    have ly: "length y = min 16 (length x)" using eb by (simp add: y_def)
    have split: "take 16 (gctr E cb x) = y \<and> drop 16 (gctr E cb x) = gctr E (inc32 cb) (drop 16 x)"
    proof (cases "16 \<le> length x")
      case True
      then show ?thesis using ly by (simp add: g)
    next
      case small: False
      then show ?thesis using ly by (simp add: g)
    qed
    have "gctr E cb (gctr E cb x) = xor_bytes y (E cb) @ gctr E (inc32 cb) (gctr E (inc32 cb) (drop 16 x))"
      using ny split g by (subst gctr.simps) simp
    also have "\<dots> = take 16 x @ drop 16 x"
      using 1 False eb by (simp add: y_def)
    finally show ?thesis by simp
  qed simp
qed

lemma length_word_block [simp]: "length (word_block w) = 16"
  by (simp add: word_block_def)

lemma length_gcm_tag [simp]:
  "block_ok E \<Longrightarrow> length nonce = 12 \<Longrightarrow> length (gcm_tag E nonce aad ct) = 16"
  by (simp add: gcm_tag_def block_ok_def)

lemma length_gcm_Seal [simp]:
  "block_ok E \<Longrightarrow> length nonce = 12 \<Longrightarrow> length (gcm_Seal E nonce p aad) = length p + 16"
  by (simp add: gcm_Seal_def Let_def)

lemma gcm_Open_Seal:
  "block_ok E \<Longrightarrow> length nonce = 12 \<Longrightarrow> gcm_Open E nonce (gcm_Seal E nonce p aad) aad = Some p"
  by (simp add: gcm_Open_def gcm_Seal_def Let_def gctr_invol)

lemma cbc_encrypt_Nil [simp]: "cbc_encrypt E iv [] = []"
  by (simp add: cbc_encrypt.simps)

lemma cbc_decrypt_Nil [simp]: "cbc_decrypt D iv [] = []"
  by (simp add: cbc_decrypt.simps)

lemma cbc_roundtrip:
  assumes E: "block_ok E" and inv: "\<And>b. length b = 16 \<Longrightarrow> D (E b) = b"
  shows "16 dvd length x \<Longrightarrow> length iv = 16 \<Longrightarrow>
    length (cbc_encrypt E iv x) = length x \<and> cbc_decrypt D iv (cbc_encrypt E iv x) = x"
  using E inv
proof (induction E iv x rule: cbc_encrypt.induct)
  case (1 E iv x)
  show ?case
  proof (cases "x = []")
    case False
    then have len: "16 \<le> length x" using "1.prems"(1) by (auto dest: dvd_imp_le)
    define c where "c = E (xor_bytes (take 16 x) iv)"
    have lc: "length c = 16" using "1.prems"(2,3) len by (simp add: c_def block_ok_def)
    have IH: "length (cbc_encrypt E c (drop 16 x)) = length (drop 16 x) \<and>
              cbc_decrypt D c (cbc_encrypt E c (drop 16 x)) = drop 16 x"
      using "1.IH" [OF False c_def] "1.prems" len lc by (simp add: dvd_minus_self)
    have e: "cbc_encrypt E iv x = c @ cbc_encrypt E c (drop 16 x)"
      using False by (simp add: cbc_encrypt.simps [of E iv x] c_def Let_def)
    have "D c = xor_bytes (take 16 x) iv" using "1.prems"(2,4) len by (simp add: c_def)
    then have "cbc_decrypt D iv (c @ cbc_encrypt E c (drop 16 x)) = take 16 x @ drop 16 x"
      using lc IH "1.prems"(2) by (subst cbc_decrypt.simps) auto
    then show ?thesis using e IH lc len by simp
  qed simp
qed

lemma aes_Encrypt_Decrypt:
  assumes rk: "round_keys_ok rks" and b: "length blk = 16"
  shows "aes_Encrypt rks (aes_Decrypt rks blk) = blk \<and> length (aes_Decrypt rks blk) = 16"
proof -
  let ?B = "{x :: bytes. length x = 16}"
  have fin: "finite ?B" using finite_lists_length_eq [of "UNIV :: byte set" 16] by simp
  have "inj_on (aes_Encrypt rks) ?B"
    by (rule inj_on_inverseI [where g = "aes_Decrypt rks"]) (simp add: rk)
  then have "aes_Encrypt rks ` ?B = ?B"
    by (intro endo_inj_surj fin) (auto simp: rk)
  then obtain x where "length x = 16" "blk = aes_Encrypt rks x" using b by blast
  then show ?thesis using rk by simp
qed

lemma cbc_roundtrip_dec:
  assumes "\<And>b. length b = 16 \<Longrightarrow> length (D b) = 16 \<and> E (D b) = b"
  shows "16 dvd length x \<Longrightarrow> length iv = 16 \<Longrightarrow>
    length (cbc_decrypt D iv x) = length x \<and> cbc_encrypt E iv (cbc_decrypt D iv x) = x"
  using assms
proof (induction D iv x rule: cbc_decrypt.induct)
  case (1 D iv x)
  show ?case
  proof (cases "x = []")
    case False
    then have len: "16 \<le> length x" using "1.prems"(1) by (auto dest: dvd_imp_le)
    define c where "c = take 16 x"
    define p where "p = xor_bytes (D c) iv"
    have lc: "length c = 16" using len by (simp add: c_def)
    then have dc: "length (D c) = 16" "E (D c) = c" using "1.prems"(3) by auto
    have lp: "length p = 16" using dc "1.prems"(2) by (simp add: p_def)
    have IH: "length (cbc_decrypt D c (drop 16 x)) = length (drop 16 x) \<and>
              cbc_encrypt E c (cbc_decrypt D c (drop 16 x)) = drop 16 x"
      using "1.IH" [OF False] "1.prems" len lc by (simp add: dvd_minus_self c_def)
    have d: "cbc_decrypt D iv x = p @ cbc_decrypt D c (drop 16 x)"
      using False by (simp add: cbc_decrypt.simps [of D iv x] c_def p_def)
    have "E (xor_bytes p iv) = c" using dc "1.prems"(2) by (simp add: p_def)
    then have "cbc_encrypt E iv (p @ cbc_decrypt D c (drop 16 x)) = c @ drop 16 x"
      using lp IH by (subst cbc_encrypt.simps) (auto simp: Let_def)
    then show ?thesis using d IH lp len by (simp add: c_def)
  qed simp
qed

subsection \<open>HMAC output length\<close>

lemma length_sha_output [simp]: "length (sha_output st) = 32"
  by (cases st rule: sha_output.cases) simp

lemma length_sha256 [simp]: "length (sha256 m) = 32"
  by (simp add: sha256_def)

lemma length_hmac_sha256 [simp]: "length (hmac_sha256 key m) = 32"
  by (simp add: hmac_sha256_def Let_def)

end
