(* ===== verification/Cipher.thy ===== *)
theory Cipher
  imports Std_Crypto
begin

section \<open>Data-channel ciphers\<close>

text \<open>
  Models \<^verbatim>\<open>internal/crypto/cipher.go\<close> (suite names, the AES-GCM cipher, the \<open>DataCipher\<close>
  interface) and \<^verbatim>\<open>internal/crypto/cbc.go\<close> (AES-256-CBC with HMAC-SHA256, PKCS#7 padding).

  The Go interface \<open>DataCipher\<close> has the two implementations of the package; it is a datatype with
  one constructor each, and its methods dispatch.  \<^verbatim>\<open>crypto/rand\<close> is an argument: \<open>rnd\<close> is the
  16 bytes \<^verbatim>\<open>rand.Read\<close> filled in, \<open>None\<close> its failure, on which \<open>Seal\<close> panics (result \<open>None\<close>).
\<close>

subsection \<open>cipher.go\<close>

datatype Suite = SuiteAES256GCM | SuiteAES128GCM | SuiteAES192GCM | SuiteAES256CBC

datatype crypto_error =
    UnsupportedCipher string
  | AESKey nat
  | NonceTail nat
  | GCMTooShort nat
  | GCMOpen
  | CBCAESKeyLen nat
  | CBCHMACKeyLen nat
  | CBCBodyTooShort nat
  | CBCNotAligned
  | CBCAuthFailed
  | PadLength nat
  | PadValue nat
  | PadInconsistent

definition ParseSuite :: "string \<Rightarrow> (crypto_error, Suite) result" where
  "ParseSuite name =
     (if name = ''AES-256-GCM'' then Inr SuiteAES256GCM
      else if name = ''AES-128-GCM'' then Inr SuiteAES128GCM
      else if name = ''AES-192-GCM'' then Inr SuiteAES192GCM
      else if name = ''AES-256-CBC'' then Inr SuiteAES256CBC
      else Inl (UnsupportedCipher name))"

record GCMCipher =
  gcm_aead :: "bytes list" \<comment> \<open>the AES round keys inside \<^verbatim>\<open>cipher.AEAD\<close>\<close>
  gcm_implicitIV :: bytes

definition NewGCMCipher :: "bytes \<Rightarrow> bytes \<Rightarrow> (crypto_error, GCMCipher) result" where
  "NewGCMCipher key nonceTail =
     (case aes_NewCipher key of
        Inl n \<Rightarrow> Inl (AESKey n)
      | Inr block \<Rightarrow>
          (if length nonceTail < 8 then Inl (NonceTail (length nonceTail))
           else Inr \<lparr>gcm_aead = block, gcm_implicitIV = take 8 nonceTail\<rparr>))"

definition buildNonce :: "GCMCipher \<Rightarrow> u32 \<Rightarrow> bytes" where
  "buildNonce g packetID =
     splice (splice (replicate 12 0) 0 (be32 packetID)) 4 (take 8 (gcm_implicitIV g))"

definition GCMCipher_Seal :: "GCMCipher \<Rightarrow> u32 \<Rightarrow> bytes \<Rightarrow> bytes \<Rightarrow> bytes" where
  "GCMCipher_Seal g packetID plaintext aad =
     (let out = gcm_Seal (aes_Encrypt (gcm_aead g)) (buildNonce g packetID) plaintext aad;
          ct = take (length out - 16) out;
          tag = drop (length out - 16) out
      in tag @ ct)"

definition GCMCipher_Open :: "GCMCipher \<Rightarrow> u32 \<Rightarrow> bytes \<Rightarrow> bytes \<Rightarrow> (crypto_error, bytes) result" where
  "GCMCipher_Open g packetID tagThenCT aad =
     (if length tagThenCT < 16 then Inl (GCMTooShort (length tagThenCT))
      else of_opt GCMOpen
             (gcm_Open (aes_Encrypt (gcm_aead g)) (buildNonce g packetID)
                (drop 16 tagThenCT @ take 16 tagThenCT) aad))"

definition GCMCipher_Overhead :: nat where "GCMCipher_Overhead = 16"

subsection \<open>cbc.go\<close>

record CBCCipher =
  cbc_block :: "bytes list"
  cbc_hmacKey :: bytes

definition NewCBCCipher :: "bytes \<Rightarrow> bytes \<Rightarrow> (crypto_error, CBCCipher) result" where
  "NewCBCCipher aesKey hmacKey =
     (if length aesKey \<noteq> 32 then Inl (CBCAESKeyLen (length aesKey))
      else if length hmacKey \<noteq> 32 then Inl (CBCHMACKeyLen (length hmacKey))
      else (case aes_NewCipher aesKey of
              Inl n \<Rightarrow> Inl (AESKey n)
            | Inr block \<Rightarrow> Inr \<lparr>cbc_block = block, cbc_hmacKey = hmacKey\<rparr>))"

definition pkcs7Pad :: "bytes \<Rightarrow> nat \<Rightarrow> bytes" where
  "pkcs7Pad src blockSize =
     (let padLen = blockSize - length src mod blockSize in src @ replicate padLen (of_nat padLen))"

definition pkcs7Unpad :: "bytes \<Rightarrow> nat \<Rightarrow> (crypto_error, bytes) result" where
  "pkcs7Unpad src blockSize =
     (if length src = 0 \<or> length src mod blockSize \<noteq> 0 then Inl (PadLength (length src))
      else let padLen = unat (last src) in
        if padLen = 0 \<or> blockSize < padLen then Inl (PadValue padLen)
        else if list_all (\<lambda>b. b = of_nat padLen) (drop (length src - padLen) src)
             then Inr (take (length src - padLen) src)
             else Inl PadInconsistent)"

definition CBCCipher_Seal :: "bytes option \<Rightarrow> CBCCipher \<Rightarrow> bytes \<Rightarrow> bytes option" where
  "CBCCipher_Seal rnd c plaintext =
     (case rnd of
        None \<Rightarrow> None
      | Some iv \<Rightarrow>
          (let padded = pkcs7Pad plaintext 16;
               ct = cbc_encrypt (aes_Encrypt (cbc_block c)) iv padded;
               tag = hmac_sha256 (cbc_hmacKey c) (iv @ ct)
           in Some (tag @ iv @ ct)))"

definition CBCCipher_Open :: "CBCCipher \<Rightarrow> bytes \<Rightarrow> (crypto_error, bytes) result" where
  "CBCCipher_Open c body =
     (let bs = 16; hmacLen = 32; minLen = hmacLen + bs + bs in
      if length body < minLen then Inl (CBCBodyTooShort (length body))
      else if (length body - hmacLen - bs) mod bs \<noteq> 0 then Inl CBCNotAligned
      else let tag = take hmacLen body;
               iv = slice body hmacLen (hmacLen + bs);
               ct = drop (hmacLen + bs) body
           in if tag \<noteq> hmac_sha256 (cbc_hmacKey c) (iv @ ct) then Inl CBCAuthFailed
              else pkcs7Unpad (cbc_decrypt (aes_Decrypt (cbc_block c)) iv ct) bs)"

definition CBCCipher_Overhead :: nat where "CBCCipher_Overhead = 32 + 16 + 16"

subsection \<open>The DataCipher interface\<close>

datatype DataCipher = GCM GCMCipher | CBC CBCCipher

fun IsAEAD :: "DataCipher \<Rightarrow> bool" where
  "IsAEAD (GCM g) = True"
| "IsAEAD (CBC c) = False"

fun Overhead :: "DataCipher \<Rightarrow> nat" where
  "Overhead (GCM g) = GCMCipher_Overhead"
| "Overhead (CBC c) = CBCCipher_Overhead"

fun Seal :: "bytes option \<Rightarrow> DataCipher \<Rightarrow> u32 \<Rightarrow> bytes \<Rightarrow> bytes \<Rightarrow> bytes option" where
  "Seal rnd (GCM g) packetID plaintext aad = Some (GCMCipher_Seal g packetID plaintext aad)"
| "Seal rnd (CBC c) packetID plaintext aad = CBCCipher_Seal rnd c plaintext"

fun Open :: "DataCipher \<Rightarrow> u32 \<Rightarrow> bytes \<Rightarrow> bytes \<Rightarrow> (crypto_error, bytes) result" where
  "Open (GCM g) packetID ciphertext aad = GCMCipher_Open g packetID ciphertext aad"
| "Open (CBC c) packetID ciphertext aad = CBCCipher_Open c ciphertext"

text \<open>What the constructors establish.\<close>

definition GCM_wf :: "GCMCipher \<Rightarrow> bool" where
  "GCM_wf g \<longleftrightarrow> round_keys_ok (gcm_aead g) \<and> length (gcm_implicitIV g) = 8"

definition CBC_wf :: "CBCCipher \<Rightarrow> bool" where
  "CBC_wf c \<longleftrightarrow> round_keys_ok (cbc_block c) \<and> length (cbc_hmacKey c) = 32"

fun DataCipher_wf :: "DataCipher \<Rightarrow> bool" where
  "DataCipher_wf (GCM g) = GCM_wf g"
| "DataCipher_wf (CBC c) = CBC_wf c"

lemma NewGCMCipher_wf: "NewGCMCipher key tail = Inr g \<Longrightarrow> GCM_wf g"
  by (auto simp: NewGCMCipher_def GCM_wf_def aes_NewCipher_ok split: sum.splits if_splits)

lemma NewCBCCipher_wf: "NewCBCCipher key hk = Inr c \<Longrightarrow> CBC_wf c"
  by (auto simp: NewCBCCipher_def CBC_wf_def aes_NewCipher_ok split: sum.splits if_splits)

lemma NewGCMCipher_ok_iff:
  "is_ok (NewGCMCipher key tail) \<longleftrightarrow>
     (length key = 16 \<or> length key = 24 \<or> length key = 32) \<and> 8 \<le> length tail"
  by (auto simp: NewGCMCipher_def aes_NewCipher_def)

lemma NewCBCCipher_ok_iff:
  "is_ok (NewCBCCipher key hk) \<longleftrightarrow> length key = 32 \<and> length hk = 32"
  by (auto simp: NewCBCCipher_def aes_NewCipher_def)

subsection \<open>Nonces\<close>

lemma buildNonce_eq: "GCM_wf g \<Longrightarrow> buildNonce g pid = be32 pid @ gcm_implicitIV g"
  by (simp add: buildNonce_def splice_def GCM_wf_def)

lemma length_buildNonce [simp]: "GCM_wf g \<Longrightarrow> length (buildNonce g pid) = 12"
  by (simp add: buildNonce_eq) (simp add: GCM_wf_def)

lemma buildNonce_inject: "GCM_wf g \<Longrightarrow> buildNonce g i = buildNonce g j \<longleftrightarrow> i = j"
  by (simp add: buildNonce_eq)

lemma aes_block_ok [simp]: "round_keys_ok rks \<Longrightarrow> block_ok (aes_Encrypt rks)"
  by (simp add: block_ok_def)

subsection \<open>PKCS#7\<close>

lemma length_pkcs7Pad:
  "0 < bs \<Longrightarrow> length (pkcs7Pad x bs) = length x + (bs - length x mod bs)"
  by (simp add: pkcs7Pad_def Let_def)

lemma pkcs7Pad_aligned: "0 < bs \<Longrightarrow> bs dvd length (pkcs7Pad x bs)"
proof -
  assume "0 < bs"
  have "length x + (bs - length x mod bs) = bs * (length x div bs) + bs"
    using \<open>0 < bs\<close> by (metis add.assoc le_add_diff_inverse less_imp_le mod_less_divisor
        mult_div_mod_eq)
  then show ?thesis using \<open>0 < bs\<close> by (simp add: length_pkcs7Pad)
qed

lemma pkcs7_pad_len: "0 < bs \<Longrightarrow> 0 < bs - n mod bs \<and> bs - n mod (bs :: nat) \<le> bs"
  by simp

lemma pkcs7Unpad_Pad: "0 < bs \<Longrightarrow> bs < 256 \<Longrightarrow> pkcs7Unpad (pkcs7Pad x bs) bs = Inr x"
proof -
  assume bs: "0 < bs" "bs < 256"
  define k where "k = bs - length x mod bs"
  have k: "0 < k" "k \<le> bs" using pkcs7_pad_len [OF bs(1)] by (auto simp: k_def)
  have u: "unat (of_nat k :: byte) = k" using k bs by (simp add: unat_of_nat take_bit_nat_eq_self)
  have pad: "pkcs7Pad x bs = x @ replicate k (of_nat k)" by (simp add: pkcs7Pad_def k_def Let_def)
  have al: "(length x + k) mod bs = 0"
    using pkcs7Pad_aligned [OF bs(1), of x] by (simp add: pad)
  show ?thesis
    using k u al by (simp add: pkcs7Unpad_def pad list_all_iff)
qed

lemma pkcs7Unpad_canonical:
  assumes "pkcs7Unpad s bs = Inr y"
  shows "s = pkcs7Pad y bs"
proof -
  define k where "k = unat (last s)"
  from assms have s: "s \<noteq> []" "bs dvd length s" "0 < k" "k \<le> bs"
    and all: "\<forall>b \<in> set (drop (length s - k) s). b = of_nat k" and y: "y = take (length s - k) s"
    by (auto simp: pkcs7Unpad_def k_def Let_def list_all_iff split: if_splits)
  have le: "k \<le> length s" using s by (meson dvd_imp_le length_greater_0_conv le_trans)
  have "drop (length s - k) s = replicate k (of_nat k)"
    using all le by (intro replicate_eqI) auto
  then have split: "s = y @ replicate k (of_nat k)" using y by (metis append_take_drop_id)
  have ly: "length y = length s - k" using y by simp
  obtain m where m: "length s = bs * m" using s(2) by blast
  have "bs - length y mod bs = k"
  proof (cases "k = bs")
    case True
    then show ?thesis using ly m by (metis diff_zero mod_mult_self1_is_0 diff_mult_distrib2 mult.right_neutral)
  next
    case False
    then have "0 < m" using s le m by (cases m) auto
    then have "length y = (bs - k) + bs * (m - 1)" using m s(4) ly
      by (cases m) auto
    then have "length y mod bs = (bs - k) mod bs" by (simp only: mod_mult_self2)
    then have "length y mod bs = bs - k" using s(3,4) by simp
    then show ?thesis using s by simp
  qed
  then show ?thesis using split by (simp add: pkcs7Pad_def Let_def)
qed

subsection \<open>The contract of a data cipher\<close>

text \<open>
  What the data channel relies on: a body opens to the plaintext that was sealed, under the same
  packet id and associated data; a body that opens is one that sealing the result produces (for
  some choice of the randomness); and the declared overhead bounds the expansion.
\<close>

locale data_cipher =
  fixes wf :: "'c \<Rightarrow> bool"
    and seal :: "bytes option \<Rightarrow> 'c \<Rightarrow> u32 \<Rightarrow> bytes \<Rightarrow> bytes \<Rightarrow> bytes option"
    and opn :: "'c \<Rightarrow> u32 \<Rightarrow> bytes \<Rightarrow> bytes \<Rightarrow> (crypto_error, bytes) result"
    and overhead :: "'c \<Rightarrow> nat"
  assumes open_seal:
      "wf c \<Longrightarrow> length iv = 16 \<Longrightarrow> seal (Some iv) c pid pt aad = Some body \<Longrightarrow>
         opn c pid body aad = Inr pt"
    and seal_total: "wf c \<Longrightarrow> length iv = 16 \<Longrightarrow> \<exists>body. seal (Some iv) c pid pt aad = Some body"
    and seal_open:
      "wf c \<Longrightarrow> opn c pid body aad = Inr pt \<Longrightarrow>
         \<exists>iv. length iv = 16 \<and> seal (Some iv) c pid pt aad = Some body"
    and seal_length:
      "wf c \<Longrightarrow> length iv = 16 \<Longrightarrow> seal (Some iv) c pid pt aad = Some body \<Longrightarrow>
         length pt \<le> length body \<and> length body \<le> length pt + overhead c"
begin

lemma seal_inject:
  assumes "wf c" "length iv = 16" "length iv' = 16"
    and "seal (Some iv) c pid pt aad = Some body" "seal (Some iv') c pid pt' aad = Some body"
  shows "pt = pt'"
  using open_seal [OF assms(1,2,4)] open_seal [OF assms(1,3,5)] by simp

lemma opens_iff_sealed:
  assumes "wf c"
  shows "opn c pid body aad = Inr pt \<longleftrightarrow>
    (\<exists>iv. length iv = 16 \<and> seal (Some iv) c pid pt aad = Some body)"
  using assms open_seal seal_open by blast

lemma opened_bounds:
  assumes "wf c" "opn c pid body aad = Inr pt"
  shows "length pt \<le> length body \<and> length body \<le> length pt + overhead c"
  using seal_open [OF assms] seal_length [OF assms(1)] by blast

end

lemma length_GCM_Seal: "GCM_wf g \<Longrightarrow> length (GCMCipher_Seal g pid pt aad) = length pt + 16"
  by (simp add: GCMCipher_Seal_def Let_def GCM_wf_def buildNonce_eq)

lemma GCM_Open_Seal: "GCM_wf g \<Longrightarrow> GCMCipher_Open g pid (GCMCipher_Seal g pid pt aad) aad = Inr pt"
  using length_GCM_Seal [of g pid pt aad]
  by (simp add: GCMCipher_Open_def GCMCipher_Seal_def Let_def gcm_Open_Seal GCM_wf_def buildNonce_eq
      min_def)

lemma gcm_Seal_Open:
  assumes "block_ok E" "length nonce = 12" "gcm_Open E nonce body aad = Some pt"
  shows "gcm_Seal E nonce pt aad = body"
proof -
  let ?k = "length body - 16"
  have "drop ?k body = gcm_tag E nonce aad (take ?k body)"
    and "pt = gctr E (inc32 (nonce @ [0, 0, 0, 1])) (take ?k body)"
    using assms(3) by (auto simp: gcm_Open_def Let_def split: if_splits)
  then show ?thesis
    using assms(1,2) append_take_drop_id [of ?k body] by (simp add: gcm_Seal_def Let_def gctr_invol)
qed

lemma GCM_Seal_Open:
  assumes "GCM_wf g" "GCMCipher_Open g pid body aad = Inr pt"
  shows "GCMCipher_Seal g pid pt aad = body"
proof -
  have len: "16 \<le> length body"
    and "gcm_Open (aes_Encrypt (gcm_aead g)) (buildNonce g pid) (drop 16 body @ take 16 body) aad
           = Some pt"
    using assms(2) by (auto simp: GCMCipher_Open_def split: if_splits)
  then have "gcm_Seal (aes_Encrypt (gcm_aead g)) (buildNonce g pid) pt aad = drop 16 body @ take 16 body"
    using assms(1) by (intro gcm_Seal_Open) (auto simp: GCM_wf_def buildNonce_eq)
  then show ?thesis using len by (simp add: GCMCipher_Seal_def Let_def)
qed

interpretation gcm_cipher: data_cipher GCM_wf "\<lambda>rnd g pid pt aad. Some (GCMCipher_Seal g pid pt aad)"
    GCMCipher_Open "\<lambda>g. GCMCipher_Overhead"
proof (unfold_locales, goal_cases)
  case (3 c pid body aad pt)
  then show ?case using GCM_Seal_Open [OF 3] by (metis Ex_list_of_length)
qed (auto simp: GCM_Open_Seal length_GCM_Seal GCMCipher_Overhead_def)

lemma CBC_Open_Seal:
  assumes "CBC_wf c" "length iv = 16" "CBCCipher_Seal (Some iv) c pt = Some body"
  shows "CBCCipher_Open c body = Inr pt \<and> length pt \<le> length body \<and> length body \<le> length pt + 64"
proof -
  define ct where "ct = cbc_encrypt (aes_Encrypt (cbc_block c)) iv (pkcs7Pad pt 16)"
  have wf: "round_keys_ok (cbc_block c)" using assms(1) by (simp add: CBC_wf_def)
  have al: "16 dvd length (pkcs7Pad pt 16)" by (simp add: pkcs7Pad_aligned)
  have ct: "length ct = length (pkcs7Pad pt 16) \<and> cbc_decrypt (aes_Decrypt (cbc_block c)) iv ct = pkcs7Pad pt 16"
    unfolding ct_def using wf al assms(2) by (intro cbc_roundtrip) auto
  have body: "body = hmac_sha256 (cbc_hmacKey c) (iv @ ct) @ iv @ ct"
    using assms(3) by (simp add: CBCCipher_Seal_def ct_def Let_def)
  have lp: "length (pkcs7Pad pt 16) = length pt + (16 - length pt mod 16)" by (simp add: length_pkcs7Pad)
  have "0 < length ct" using ct lp by simp
  then have "16 \<le> length ct" using ct al by (metis dvd_imp_le)
  moreover have "length ct mod 16 = 0" using ct al by (simp add: dvd_eq_mod_eq_0)
  ultimately have "CBCCipher_Open c body = pkcs7Unpad (pkcs7Pad pt 16) 16"
    using assms(2) ct by (simp add: CBCCipher_Open_def body slice_def Let_def)
  then have "CBCCipher_Open c body = Inr pt" by (simp add: pkcs7Unpad_Pad)
  moreover have "length pt \<le> length ct \<and> length ct \<le> length pt + 16" using ct lp by simp
  moreover have "length body = 48 + length ct" using assms(2) by (simp add: body)
  ultimately show ?thesis by linarith
qed

lemma CBC_Seal_Open:
  assumes "CBC_wf c" "CBCCipher_Open c body = Inr pt"
  shows "\<exists>iv. length iv = 16 \<and> CBCCipher_Seal (Some iv) c pt = Some body"
proof -
  define iv where "iv = slice body 32 48"
  define ct where "ct = drop 48 body"
  have len: "64 \<le> length body" "(length body - 48) mod 16 = 0"
    and tag: "take 32 body = hmac_sha256 (cbc_hmacKey c) (iv @ ct)"
    and un: "pkcs7Unpad (cbc_decrypt (aes_Decrypt (cbc_block c)) iv ct) 16 = Inr pt"
    using assms(2) by (auto simp: CBCCipher_Open_def Let_def iv_def ct_def split: if_splits)
  have iv: "length iv = 16" using len by (simp add: iv_def slice_def)
  have "16 dvd length ct" using len by (simp add: ct_def dvd_eq_mod_eq_0)
  then have "cbc_encrypt (aes_Encrypt (cbc_block c)) iv
               (cbc_decrypt (aes_Decrypt (cbc_block c)) iv ct) = ct"
    using assms(1) iv cbc_roundtrip_dec [of "aes_Decrypt (cbc_block c)" "aes_Encrypt (cbc_block c)" ct iv]
    by (simp add: CBC_wf_def aes_Encrypt_Decrypt)
  moreover have "body = take 32 body @ iv @ ct"
    using append_take_drop_id [of 16 "drop 32 body"] append_take_drop_id [of 32 body]
    by (simp add: iv_def ct_def slice_def)
  ultimately have "CBCCipher_Seal (Some iv) c pt = Some body"
    using pkcs7Unpad_canonical [OF un] tag by (simp add: CBCCipher_Seal_def Let_def)
  then show ?thesis using iv by blast
qed

interpretation cbc_cipher: data_cipher CBC_wf "\<lambda>rnd c pid pt aad. CBCCipher_Seal rnd c pt"
    "\<lambda>c pid body aad. CBCCipher_Open c body" "\<lambda>c. CBCCipher_Overhead"
proof (unfold_locales, goal_cases)
  case (1 c iv pid pt aad body)
  then show ?case using CBC_Open_Seal by blast
next
  case (2 c iv pid pt aad)
  then show ?case by (simp add: CBCCipher_Seal_def Let_def)
next
  case (3 c pid body aad pt)
  then show ?case using CBC_Seal_Open by blast
next
  case (4 c iv pid pt aad body)
  then show ?case using CBC_Open_Seal by (simp add: CBCCipher_Overhead_def)
qed

interpretation suite_cipher: data_cipher DataCipher_wf Seal Open Overhead
proof (unfold_locales, goal_cases)
  case (1 c iv pid pt aad body)
  then show ?case by (cases c) (auto simp: gcm_cipher.open_seal cbc_cipher.open_seal)
next
  case (2 c iv pid pt aad)
  then show ?case by (cases c) (auto simp: cbc_cipher.seal_total)
next
  case (3 c pid body aad pt)
  then show ?case by (cases c) (auto dest: gcm_cipher.seal_open cbc_cipher.seal_open)
next
  case (4 c iv pid pt aad body)
  then show ?case by (cases c) (auto dest: gcm_cipher.seal_length cbc_cipher.seal_length)
qed

subsection \<open>Properties\<close>

definition zero_gcm :: DataCipher where
  "zero_gcm = GCM \<lparr>gcm_aead = replicate 15 (replicate 16 0), gcm_implicitIV = replicate 8 0\<rparr>"

text \<open>C25 (open inverts seal).  For a cipher made by either constructor, \<open>Open\<close> returns a plaintext exactly for
  the bodies that \<open>Seal\<close> produces from it under the same packet id and associated data, for some random IV:
  decryption inverts encryption, and no other body is accepted.\<close>

theorem open_iff_sealed:
  assumes "DataCipher_wf c"
  shows "Open c pid body aad = Inr pt \<longleftrightarrow> (\<exists>iv. length iv = 16 \<and> Seal (Some iv) c pid pt aad = Some body)"
  by (rule suite_cipher.opens_iff_sealed [OF assms])

lemma zero_gcm_wf: "DataCipher_wf zero_gcm"
  by (simp add: zero_gcm_def GCM_wf_def round_keys_ok_def)

theorem open_iff_sealed_witness:
  "\<exists>body. Seal (Some (replicate 16 0)) zero_gcm 1 [1, 2] [3] = Some body \<and> Open zero_gcm 1 body [3] = Inr [1, 2]"
proof -
  obtain body where b: "Seal (Some (replicate 16 0)) zero_gcm 1 [1, 2] [3] = Some body"
    by (simp add: zero_gcm_def)
  have "length (replicate 16 0 :: bytes) = 16" by simp
  then show ?thesis using open_iff_sealed [OF zero_gcm_wf, of 1 body "[3]" "[1, 2]"] b by blast
qed

text \<open>(overhead).  Sealing never shortens a payload and expands it by at most the declared overhead; for
  AES-GCM the expansion is exactly the 16 bytes of the tag.\<close>

theorem overhead_bounds:
  assumes "DataCipher_wf c" "length iv = 16" "Seal (Some iv) c pid pt aad = Some body"
  shows "length pt \<le> length body \<and> length body \<le> length pt + Overhead c \<and>
         (IsAEAD c \<longrightarrow> length body = length pt + 16)"
  using suite_cipher.seal_length [OF assms] assms(1,3) by (cases c) (auto simp: length_GCM_Seal)

theorem overhead_bounds_witness:
  "\<exists>body. Seal (Some (replicate 16 0)) zero_gcm 1 [1, 2] [3] = Some body \<and> length body = 18"
proof -
  obtain body where b: "Seal (Some (replicate 16 0)) zero_gcm 1 [1, 2] [3] = Some body"
    by (simp add: zero_gcm_def)
  then show ?thesis using overhead_bounds [OF zero_gcm_wf _ b] by (simp add: zero_gcm_def)
qed

text \<open>(padding).  PKCS#7 unpadding accepts exactly the padded strings and returns what was padded, for the
  block sizes a byte can hold.\<close>

theorem pkcs7_canonical:
  assumes "0 < bs" "bs < 256"
  shows "pkcs7Unpad s bs = Inr x \<longleftrightarrow> s = pkcs7Pad x bs"
  using pkcs7Unpad_canonical pkcs7Unpad_Pad [OF assms] by blast

theorem pkcs7_canonical_witness: "pkcs7Unpad (pkcs7Pad [1, 2, 3] 16) 16 = Inr [1, 2, 3]"
  using pkcs7_canonical [of 16 "pkcs7Pad [1, 2, 3] 16" "[1, 2, 3]"] by simp

end
