(* ===== verification/Go_Strings.thy ===== *)
theory Go_Strings
  imports VPN_Prelude
begin

section \<open>Go's strings, strconv and fmt\<close>

text \<open>
  The functions of \<^verbatim>\<open>strings\<close>, \<^verbatim>\<open>strconv\<close> and \<^verbatim>\<open>fmt\<close> the parsers of the program call.  A Go string
  is a list of bytes, written as a list of characters.  \<open>TrimSpace\<close>, \<open>Fields\<close>, \<open>ToLower\<close>, \<open>ToUpper\<close>
  and \<open>EqualFold\<close> are the library's behaviour on ASCII text; the white space and the letters outside
  ASCII that the library also knows are bytes like any other here.
\<close>

definition code :: "char \<Rightarrow> nat" where "code c = of_char c"

definition is_space :: "char \<Rightarrow> bool" where
  "is_space c \<longleftrightarrow> c = CHR '' '' \<or> (9 \<le> code c \<and> code c \<le> 13)"

definition is_digit :: "char \<Rightarrow> bool" where
  "is_digit c \<longleftrightarrow> 48 \<le> code c \<and> code c \<le> 57"

definition digit_val :: "char \<Rightarrow> nat" where "digit_val c = code c - 48"

definition lower :: "char \<Rightarrow> char" where
  "lower c = (if 65 \<le> code c \<and> code c \<le> 90 then char_of (code c + 32) else c)"

definition upper :: "char \<Rightarrow> char" where
  "upper c = (if 97 \<le> code c \<and> code c \<le> 122 then char_of (code c - 32) else c)"

definition ToLower :: "string \<Rightarrow> string" where "ToLower s = map lower s"

definition ToUpper :: "string \<Rightarrow> string" where "ToUpper s = map upper s"

definition EqualFold :: "string \<Rightarrow> string \<Rightarrow> bool" where
  "EqualFold s t \<longleftrightarrow> ToLower s = ToLower t"

definition HasPrefix :: "string \<Rightarrow> string \<Rightarrow> bool" where
  "HasPrefix s p \<longleftrightarrow> take (length p) s = p"

definition HasSuffix :: "string \<Rightarrow> string \<Rightarrow> bool" where
  "HasSuffix s p \<longleftrightarrow> length p \<le> length s \<and> drop (length s - length p) s = p"

definition TrimPrefix :: "string \<Rightarrow> string \<Rightarrow> string" where
  "TrimPrefix s p = (if HasPrefix s p then drop (length p) s else s)"

definition trim_right :: "('a \<Rightarrow> bool) \<Rightarrow> 'a list \<Rightarrow> 'a list" where
  "trim_right P s = rev (dropWhile P (rev s))"

definition TrimSpace :: "string \<Rightarrow> string" where
  "TrimSpace s = trim_right is_space (dropWhile is_space s)"

definition NUL :: char where "NUL = char_of (0 :: nat)"

definition TrimRightNUL :: "string \<Rightarrow> string" where
  "TrimRightNUL s = trim_right (\<lambda>c. c = NUL) s"

text \<open>\<^verbatim>\<open>strings.Split(s, sep)\<close> with a one-byte separator: never empty.\<close>

fun Split :: "string \<Rightarrow> char \<Rightarrow> string list" where
  "Split [] sep = [[]]"
| "Split (c # s) sep =
     (if c = sep then [] # Split s sep
      else (case Split s sep of [] \<Rightarrow> [[c]] | t # ts \<Rightarrow> (c # t) # ts))"

text \<open>\<^verbatim>\<open>strings.SplitN(s, sep, n)\<close> for \<open>n > 0\<close>: at most \<open>n\<close> pieces, the last one unsplit.\<close>

fun SplitN :: "string \<Rightarrow> char \<Rightarrow> nat \<Rightarrow> string list" where
  "SplitN s sep 0 = []"
| "SplitN s sep (Suc 0) = [s]"
| "SplitN s sep (Suc (Suc n)) =
     (case dropWhile (\<lambda>c. c \<noteq> sep) s of
        [] \<Rightarrow> [s]
      | _ # r \<Rightarrow> takeWhile (\<lambda>c. c \<noteq> sep) s # SplitN r sep (Suc n))"

text \<open>\<^verbatim>\<open>strings.Fields\<close>: the maximal runs of non-space characters.\<close>

function Fields :: "string \<Rightarrow> string list" where
  "Fields s =
     (case dropWhile is_space s of
        [] \<Rightarrow> []
      | t \<Rightarrow> takeWhile (\<lambda>c. \<not> is_space c) t # Fields (dropWhile (\<lambda>c. \<not> is_space c) t))"
  by pat_completeness auto
termination
proof (relation "measure length", goal_cases)
  case (2 s c cs)
  have "\<not> is_space c" using 2 by (metis hd_dropWhile list.sel(1) list.discI)
  then have "length (dropWhile (\<lambda>c. \<not> is_space c) (c # cs)) \<le> length cs"
    by (simp add: length_dropWhile_le)
  moreover have "length (c # cs) \<le> length s" using 2 by (metis length_dropWhile_le)
  ultimately show ?case by (simp only: in_measure list.size)
qed simp

declare Fields.simps [simp del]

text \<open>\<^verbatim>\<open>strings.Index\<close>, \<open>None\<close> for -1.\<close>

fun Index :: "string \<Rightarrow> string \<Rightarrow> nat option" where
  "Index [] p = (if p = [] then Some 0 else None)"
| "Index (c # s) p = (if HasPrefix (c # s) p then Some 0 else map_option Suc (Index s p))"

text \<open>\<^verbatim>\<open>strconv\<close>: decimal parsing, at the width of the result; \<open>None\<close> is the error.\<close>

definition digits_val :: "string \<Rightarrow> nat" where
  "digits_val s = foldl (\<lambda>a c. 10 * a + digit_val c) 0 s"

definition ParseUint64 :: "string \<Rightarrow> nat option" where
  "ParseUint64 s =
     (if s \<noteq> [] \<and> list_all is_digit s \<and> digits_val s < 2 ^ 64 then Some (digits_val s) else None)"

definition signed :: "bool \<Rightarrow> string \<Rightarrow> int option" where
  "signed neg ds =
     (let n = int (digits_val ds) in
      if ds = [] \<or> \<not> list_all is_digit ds then None
      else if neg then (if n \<le> 2 ^ 63 then Some (- n) else None)
      else (if n < 2 ^ 63 then Some n else None))"

definition ParseInt64 :: "string \<Rightarrow> int option" where
  "ParseInt64 s =
     (case s of
        [] \<Rightarrow> None
      | c # r \<Rightarrow> (if c = CHR ''-'' then signed True r
                  else if c = CHR ''+'' then signed False r else signed False s))"

text \<open>On the 64-bit platforms \<^verbatim>\<open>strconv.Atoi\<close> is \<^verbatim>\<open>ParseInt(s, 10, 64)\<close>.\<close>

definition Atoi :: "string \<Rightarrow> int option" where "Atoi s = ParseInt64 s"

text \<open>
  \<^verbatim>\<open>fmt.Sscanf(s, "%d", &v)\<close>: leading spaces, a sign, then the longest run of digits; what follows
  it is not looked at.  A newline in the skipped space is an error.
\<close>

definition Sscanf_d :: "string \<Rightarrow> int option" where
  "Sscanf_d s =
     (let t = dropWhile is_space s in
      if CHR 0x0A \<in> set (takeWhile is_space s) then None
      else case t of
        [] \<Rightarrow> None
      | c # r \<Rightarrow> (if c = CHR ''-'' then signed True (takeWhile is_digit r)
                  else if c = CHR ''+'' then signed False (takeWhile is_digit r)
                  else signed False (takeWhile is_digit t)))"

subsection \<open>Lemmas\<close>

lemma HasPrefix_append [simp]: "HasPrefix (p @ s) p"
  by (simp add: HasPrefix_def)

lemma HasPrefixE: "HasPrefix s p \<Longrightarrow> \<exists>r. s = p @ r"
  by (metis HasPrefix_def append_take_drop_id)

lemma TrimPrefix_append [simp]: "TrimPrefix (p @ s) p = s"
  by (simp add: TrimPrefix_def)

lemma trim_right_id: "s = [] \<or> \<not> P (last s) \<Longrightarrow> trim_right P s = s"
  by (cases s rule: rev_cases) (auto simp: trim_right_def)

lemma trim_right_snoc [simp]: "P c \<Longrightarrow> trim_right P (s @ [c]) = trim_right P s"
  by (simp add: trim_right_def)

lemma trim_right_idem [simp]: "trim_right P (trim_right P s) = trim_right P s"
  by (simp add: trim_right_def)

lemma trim_right_last: "trim_right P s \<noteq> [] \<Longrightarrow> \<not> P (last (trim_right P s))"
  by (simp add: trim_right_def last_rev hd_dropWhile)

lemma trim_right_set: "set (trim_right P s) \<subseteq> set s"
  using set_dropWhileD [of _ P "rev s"] by (auto simp: trim_right_def)

lemma TrimRightNUL_free: "NUL \<notin> set s \<Longrightarrow> TrimRightNUL s = s"
  by (cases s rule: rev_cases) (auto simp: TrimRightNUL_def trim_right_def)

lemma TrimRightNUL_idem [simp]: "TrimRightNUL (TrimRightNUL s) = TrimRightNUL s"
  by (simp add: TrimRightNUL_def)

lemma Split_nonempty [simp]: "Split s sep \<noteq> []"
  by (induction s sep rule: Split.induct) (auto split: list.splits)

lemma Split_takeWhile:
  "Split s sep = takeWhile (\<lambda>c. c \<noteq> sep) s #
     (case dropWhile (\<lambda>c. c \<noteq> sep) s of [] \<Rightarrow> [] | _ # r \<Rightarrow> Split r sep)"
proof (induction s)
  case (Cons c s)
  then show ?case by (auto split: list.splits)
qed simp

lemma Split_free: "sep \<notin> set s \<Longrightarrow> Split s sep = [s]"
  by (induction s) auto

lemma Split_append_sep: "sep \<notin> set s \<Longrightarrow> Split (s @ sep # t) sep = s # Split t sep"
  by (induction s) auto

lemma Split_set: "t \<in> set (Split s sep) \<Longrightarrow> sep \<notin> set t \<and> set t \<subseteq> set s"
  by (induction s sep arbitrary: t rule: Split.induct) (auto split: if_splits list.splits, blast)

lemma IndexSome: "Index s p = Some n \<Longrightarrow> s = take n s @ p @ drop (n + length p) s \<and> n \<le> length s"
proof (induction s p arbitrary: n rule: Index.induct)
  case (2 c s p)
  show ?case
  proof (cases "HasPrefix (c # s) p")
    case True
    then show ?thesis using 2
      by (metis HasPrefixE Index.simps(2) add_0 append_eq_conv_conj append_Nil le0 option.inject take0)
  next
    case False
    then show ?thesis using 2 by auto
  qed
qed (auto split: if_splits)

lemma Atoi_range: "Atoi s = Some n \<Longrightarrow> - (2 ^ 63) \<le> n \<and> n < 2 ^ 63"
  by (auto simp: Atoi_def ParseInt64_def signed_def Let_def split: list.splits if_splits)

lemma Sscanf_d_range: "Sscanf_d s = Some n \<Longrightarrow> - (2 ^ 63) \<le> n \<and> n < 2 ^ 63"
  by (auto simp: Sscanf_d_def signed_def Let_def split: list.splits if_splits)

lemma ParseUint64_range: "ParseUint64 s = Some n \<Longrightarrow> n < 2 ^ 64"
  by (auto simp: ParseUint64_def split: if_splits)

end
