(* ===== verification/Compress.thy ===== *)
theory Compress
  imports Go_Strings
begin

section \<open>Compression framing\<close>

text \<open>
  Models \<^verbatim>\<open>internal/compress/compress.go\<close>: the mode read from a PUSH_REPLY and the stub byte put
  before and taken off each data-channel payload.
\<close>

datatype Mode = ModeNone | ModeLZ4 | ModeLZO

datatype compress_error = LZ4Empty | LZ4Compressed | LZ4Unexpected byte

definition stubByte :: byte where "stubByte = 0x69"

text \<open>\<open>trim\<close>: the two index loops take blanks and tabs off both ends.\<close>

definition is_blank :: "char \<Rightarrow> bool" where
  "is_blank c \<longleftrightarrow> c = CHR '' '' \<or> c = CHR 0x09"

definition trim :: "string \<Rightarrow> string" where
  "trim s = trim_right is_blank (dropWhile is_blank s)"

text \<open>The scan of \<open>ParseMode\<close>: \<open>rest\<close> is \<^verbatim>\<open>pushReply[i:]\<close>; the step \<^verbatim>\<open>i = j + 1\<close> drops the token and the comma.\<close>

function ParseMode :: "string \<Rightarrow> Mode" where
  "ParseMode rest =
     (if rest = [] then ModeNone
      else let token = trim (takeWhile (\<lambda>c. c \<noteq> CHR '','') rest);
               rest' = drop 1 (dropWhile (\<lambda>c. c \<noteq> CHR '','') rest)
           in if token = ''compress lz4'' \<or> token = ''compress lz4-v2'' then ModeLZ4
              else if token = ''comp-lzo'' \<or> token = ''comp-lzo no'' then ModeLZO
              else ParseMode rest')"
  by pat_completeness auto
termination
proof (relation "measure length", goal_cases)
  case (2 rest token rest')
  then show ?case
    using length_dropWhile_le [of "\<lambda>c. c \<noteq> CHR '',''" rest]
    by (cases rest) (auto simp: less_Suc_eq_le intro: le_trans [OF length_dropWhile_le])
qed simp

declare ParseMode.simps [simp del]

definition Wrap :: "Mode \<Rightarrow> bytes \<Rightarrow> bytes" where
  "Wrap mode payload = (if mode \<noteq> ModeLZ4 then payload else stubByte # payload)"

definition Unwrap :: "Mode \<Rightarrow> bytes \<Rightarrow> (compress_error, bytes) result" where
  "Unwrap mode payload =
     (if mode = ModeNone \<or> mode = ModeLZO then Inr payload
      else case payload of
        [] \<Rightarrow> Inl LZ4Empty
      | b # rest \<Rightarrow> (if b = stubByte then Inr rest
                     else if b = 0xfa then Inl LZ4Compressed else Inl (LZ4Unexpected b)))"

subsection \<open>Lemmas\<close>

text \<open>The mode a single option token selects, and the first token that selects one.\<close>

definition token_mode :: "string \<Rightarrow> Mode option" where
  "token_mode t =
     (if trim t \<in> {''compress lz4'', ''compress lz4-v2''} then Some ModeLZ4
      else if trim t \<in> {''comp-lzo'', ''comp-lzo no''} then Some ModeLZO else None)"

fun first_mode :: "string list \<Rightarrow> Mode" where
  "first_mode [] = ModeNone"
| "first_mode (t # ts) = (case token_mode t of Some m \<Rightarrow> m | None \<Rightarrow> first_mode ts)"

lemma token_mode_Nil [simp]: "token_mode [] = None"
  by (simp add: token_mode_def trim_def trim_right_def)

lemma ParseMode_step:
  "s \<noteq> [] \<Longrightarrow> ParseMode s =
     (case token_mode (takeWhile (\<lambda>c. c \<noteq> CHR '','') s) of Some m \<Rightarrow> m
      | None \<Rightarrow> ParseMode (drop 1 (dropWhile (\<lambda>c. c \<noteq> CHR '','') s)))"
  by (subst ParseMode.simps) (simp add: token_mode_def Let_def)

lemma ParseMode_Split: "ParseMode s = first_mode (Split s CHR '','')"
proof (induction "length s" arbitrary: s rule: less_induct)
  case less
  show ?case
  proof (cases "s = []")
    case True
    then show ?thesis by (simp add: ParseMode.simps [of "[]"])
  next
    case False
    define t where "t = takeWhile (\<lambda>c. c \<noteq> CHR '','') s"
    define r where "r = dropWhile (\<lambda>c. c \<noteq> CHR '','') s"
    have step: "ParseMode s = (case token_mode t of Some m \<Rightarrow> m | None \<Rightarrow> ParseMode (drop 1 r))"
      unfolding t_def r_def by (rule ParseMode_step [OF False])
    have split: "Split s CHR '','' = t # (case r of [] \<Rightarrow> [] | _ # r' \<Rightarrow> Split r' CHR '','')"
      unfolding t_def r_def by (rule Split_takeWhile)
    show ?thesis
    proof (cases r)
      case Nil
      have "ParseMode [] = ModeNone" by (simp add: ParseMode.simps)
      then show ?thesis using step split Nil by (simp split: option.split)
    next
      case (Cons c r')
      then have "length r' < length s" unfolding r_def using length_dropWhile_le
        by (metis length_Cons less_eq_Suc_le)
      then show ?thesis using less [of r'] step split Cons by (simp split: option.split)
    qed
  qed
qed

lemma Unwrap_Wrap [simp]: "Unwrap mode (Wrap mode payload) = Inr payload"
  by (cases mode) (simp_all add: Wrap_def Unwrap_def)

lemma Unwrap_Inr_iff: "Unwrap mode p = Inr q \<longleftrightarrow> p = Wrap mode q"
  by (cases mode; cases p) (auto simp: Wrap_def Unwrap_def)

subsection \<open>Properties\<close>

text \<open>(compression mode).  \<open>ParseMode\<close> returns the mode of the first comma-separated option that, without
  surrounding blanks, names one, and no compression when there is none.\<close>

theorem ParseMode_first_option: "ParseMode s = first_mode (Split s CHR '','')"
  by (rule ParseMode_Split)

text \<open>(stub byte).  In every mode, unwrapping succeeds exactly on wrapped payloads and returns the
  payload that was wrapped; anything else under LZ4 is an error, never a shortened packet.\<close>

theorem Unwrap_iff_Wrap:
  "(Unwrap mode p = Inr q \<longleftrightarrow> p = Wrap mode q) \<and> Unwrap mode (Wrap mode q) = Inr q"
  by (simp add: Unwrap_Inr_iff)

end
