(* ===== verification/Prf.thy ===== *)
theory Prf
  imports Std_Crypto
begin

section \<open>Key derivation\<close>

text \<open>
  Models \<^verbatim>\<open>internal/prf/prf.go\<close>: the HMAC-SHA256 PRF and the four key slots.
\<close>

datatype prf_error = PrfN int

text \<open>The loop of \<open>Derive\<close>: one HMAC advances \<open>aCurrent\<close>, one appends an output block.\<close>

function derive_loop :: "bytes \<Rightarrow> bytes \<Rightarrow> nat \<Rightarrow> bytes \<Rightarrow> bytes \<Rightarrow> bytes" where
  "derive_loop secret fullSeed n aCurrent out =
     (if length out < n then
        let aCurrent' = hmac_sha256 secret aCurrent
        in derive_loop secret fullSeed n aCurrent' (out @ hmac_sha256 secret (aCurrent' @ fullSeed))
      else out)"
  by pat_completeness auto
termination
  by (relation "measure (\<lambda>(secret, fullSeed, n, aCurrent, out). n - length out)") auto

declare derive_loop.simps [simp del]

definition Derive :: "bytes \<Rightarrow> string \<Rightarrow> bytes \<Rightarrow> int \<Rightarrow> (prf_error, bytes) result" where
  "Derive secret label seed n =
     (if n \<le> 0 then Inl (PrfN n)
      else let fullSeed = bytes_of_string label @ seed
           in Inr (take (nat n) (derive_loop secret fullSeed (nat n) fullSeed [])))"

record KeyMaterial =
  ClientCipher :: bytes
  ClientHMAC :: bytes
  ServerCipher :: bytes
  ServerHMAC :: bytes

definition ExpandKeys :: "bytes \<Rightarrow> bytes \<Rightarrow> bytes \<Rightarrow> (prf_error, KeyMaterial) result" where
  "ExpandKeys masterSecret clientRandom serverRandom =
     (let seed = clientRandom @ serverRandom in
      case Derive masterSecret ''OpenVPN master secret'' seed 256 of
        Inl e \<Rightarrow> Inl e
      | Inr raw \<Rightarrow> Inr \<lparr>ClientCipher = slice raw 0 64, ClientHMAC = slice raw 64 128,
                        ServerCipher = slice raw 128 192, ServerHMAC = slice raw 192 256\<rparr>)"

subsection \<open>The PRF+ construction\<close>

text \<open>
  The reference of RFC 5246, section 5: \<open>A(0) = seed\<close>, \<open>A(i) = HMAC(secret, A(i-1))\<close>, and the output
  is the concatenation of the blocks \<open>HMAC(secret, A(i) || seed)\<close> for \<open>i = 1, 2, ...\<close>.
\<close>

primrec prf_A :: "bytes \<Rightarrow> bytes \<Rightarrow> nat \<Rightarrow> bytes" where
  "prf_A secret seed 0 = seed"
| "prf_A secret seed (Suc i) = hmac_sha256 secret (prf_A secret seed i)"

definition prf_block :: "bytes \<Rightarrow> bytes \<Rightarrow> nat \<Rightarrow> bytes" where
  "prf_block secret seed i = hmac_sha256 secret (prf_A secret seed i @ seed)"

definition prf_stream :: "bytes \<Rightarrow> bytes \<Rightarrow> nat \<Rightarrow> bytes" where
  "prf_stream secret seed k = concat (map (prf_block secret seed) [1..<Suc k])"

lemma prf_stream_Suc: "prf_stream secret seed (Suc k) = prf_stream secret seed k @ prf_block secret seed (Suc k)"
  by (simp add: prf_stream_def)

lemma length_prf_stream [simp]: "length (prf_stream secret seed k) = 32 * k"
  by (induction k) (simp_all add: prf_stream_Suc prf_block_def, simp add: prf_stream_def)

lemma take_prf_stream:
  assumes "n \<le> 32 * k" "k \<le> k'"
  shows "take n (prf_stream secret seed k') = take n (prf_stream secret seed k)"
  using assms(2)
proof (induction k' rule: dec_induct)
  case (step m)
  then show ?case using assms(1) by (simp add: prf_stream_Suc)
qed simp

lemma derive_loop_stream:
  "\<exists>k \<ge> i. n \<le> 32 * k \<and>
     derive_loop secret seed n (prf_A secret seed i) (prf_stream secret seed i) = prf_stream secret seed k"
proof (induction "n - 32 * i" arbitrary: i rule: less_induct)
  case less
  show ?case
  proof (cases "32 * i < n")
    case True
    have "derive_loop secret seed n (prf_A secret seed i) (prf_stream secret seed i) =
          derive_loop secret seed n (prf_A secret seed (Suc i)) (prf_stream secret seed (Suc i))"
      using True by (subst derive_loop.simps) (simp add: prf_stream_Suc prf_block_def Let_def)
    moreover have "n - 32 * Suc i < n - 32 * i" using True by simp
    then obtain k where "Suc i \<le> k" "n \<le> 32 * k"
      "derive_loop secret seed n (prf_A secret seed (Suc i)) (prf_stream secret seed (Suc i)) =
         prf_stream secret seed k"
      using less by blast
    ultimately show ?thesis using Suc_leD by metis
  next
    case False
    then show ?thesis by (subst derive_loop.simps) (auto intro!: exI [of _ i])
  qed
qed

lemma Derive_stream:
  assumes "0 < n" "nat n \<le> 32 * k"
  shows "Derive secret label seed n =
           Inr (take (nat n) (prf_stream secret (bytes_of_string label @ seed) k))"
proof -
  let ?s = "bytes_of_string label @ seed"
  obtain k' where k': "nat n \<le> 32 * k'" "derive_loop secret ?s (nat n) ?s [] = prf_stream secret ?s k'"
    using derive_loop_stream [of 0 "nat n" secret ?s] by (auto simp: prf_stream_def)
  have "take (nat n) (prf_stream secret ?s k') = take (nat n) (prf_stream secret ?s (max k k'))"
    using k'(1) by (intro take_prf_stream [symmetric]) auto
  also have "\<dots> = take (nat n) (prf_stream secret ?s k)"
    using assms(2) by (intro take_prf_stream) auto
  finally show ?thesis using assms(1) k'(2) by (simp add: Derive_def Let_def)
qed

lemma ExpandKeys_stream:
  "ExpandKeys ms cr sr =
     (let raw = prf_stream ms (bytes_of_string ''OpenVPN master secret'' @ cr @ sr) 8
      in Inr \<lparr>ClientCipher = slice raw 0 64, ClientHMAC = slice raw 64 128,
              ServerCipher = slice raw 128 192, ServerHMAC = slice raw 192 256\<rparr>)"
  using Derive_stream [of 256 8 ms "''OpenVPN master secret''" "cr @ sr"]
  by (simp add: ExpandKeys_def Let_def)

subsection \<open>Properties\<close>

text \<open>C27 (PRF).  \<open>Derive\<close> returns the first \<open>n\<close> bytes of the PRF+ stream of the secret over label and seed, for
  every \<open>n > 0\<close> (\<open>k\<close> blocks are enough when they hold \<open>n\<close> bytes), and fails for the others.\<close>

theorem Derive_PRF:
  "(0 < n \<longrightarrow> nat n \<le> 32 * k \<longrightarrow>
      Derive secret label seed n = Inr (take (nat n) (prf_stream secret (bytes_of_string label @ seed) k))) \<and>
   (n \<le> 0 \<longrightarrow> Derive secret label seed n = Inl (PrfN n))"
  using Derive_stream by (auto simp: Derive_def)

theorem Derive_PRF_witness:
  "Derive [1] ''x'' [2] 40 = Inr (take 40 (prf_stream [1] (bytes_of_string ''x'' @ [2]) 2)) \<and>
   Derive [1] ''x'' [2] 0 = Inl (PrfN 0)"
  using Derive_PRF [of 40 2 "[1]" "''x''" "[2]"] Derive_PRF [of 0 2 "[1]" "''x''" "[2]"] by simp

text \<open>(key slots).  Key expansion never fails and cuts the first 256 bytes of the stream into four slots of
  64 bytes, one after the other.\<close>

theorem ExpandKeys_slots:
  "\<exists>km. ExpandKeys ms cr sr = Inr km \<and>
     length (ClientCipher km) = 64 \<and> length (ClientHMAC km) = 64 \<and>
     length (ServerCipher km) = 64 \<and> length (ServerHMAC km) = 64 \<and>
     ClientCipher km @ ClientHMAC km @ ServerCipher km @ ServerHMAC km =
       prf_stream ms (bytes_of_string ''OpenVPN master secret'' @ cr @ sr) 8"
proof -
  define raw where "raw = prf_stream ms (bytes_of_string ''OpenVPN master secret'' @ cr @ sr) 8"
  have len: "length raw = 256" by (simp add: raw_def)
  have "take 64 raw @ take 64 (drop 64 raw) @ take 64 (drop 128 raw) @ take 64 (drop 192 raw) = raw"
    using take_add [of 64 64 raw] take_add [of 128 64 raw] take_add [of 192 64 raw] len by simp
  then show ?thesis unfolding ExpandKeys_stream raw_def [symmetric]
    using len by (simp add: Let_def slice_def)
qed

end
