(* ===== verification/Data_Channel.thy ===== *)
theory Data_Channel
  imports Framing Cipher
begin

section \<open>The data channel of one key epoch\<close>

text \<open>
  Models \<^verbatim>\<open>internal/datachannel/datachannel.go\<close>: P_DATA_V2 framing, the two encrypt and decrypt
  pipelines and the replay window.  A \<open>Channel\<close> is passed and returned; each method runs under its
  mutex or on fields that never change, so a call is one step.  The replay bits are a list of 64
  booleans indexed as the Go array is; sequence numbers are 32-bit words and wrap.
\<close>

definition replayWindowSize :: nat where "replayWindowSize = 64"

record Channel =
  ch_peerID :: u32
  ch_keyID :: byte
  encryptor :: DataCipher
  decryptor :: DataCipher
  sendSeq :: u32
  replayBit :: "bool list"
  replayTop :: u32
  replaySet :: bool

datatype dc_error =
    TxCipher crypto_error
  | RxCipher crypto_error
  | GCMPacketTooShort nat
  | CBCPacketTooShort nat
  | DecryptGCM u32 crypto_error
  | DecryptCBC crypto_error
  | CBCPlaintextTooShort
  | ReplayTooOld u32
  | ReplaySeen u32
  | DCPanic

definition newWithCiphers :: "u32 \<Rightarrow> byte \<Rightarrow> DataCipher \<Rightarrow> DataCipher \<Rightarrow> Channel" where
  "newWithCiphers peerID keyID enc dec =
     \<lparr>ch_peerID = peerID AND 0x00FFFFFF, ch_keyID = keyID AND 0x07, encryptor = enc, decryptor = dec,
      sendSeq = 0, replayBit = replicate replayWindowSize False, replayTop = 0, replaySet = False\<rparr>"

definition New :: "u32 \<Rightarrow> byte \<Rightarrow> bytes \<Rightarrow> bytes \<Rightarrow> bytes \<Rightarrow> bytes \<Rightarrow> (dc_error, Channel) result" where
  "New peerID keyID txKey txIV rxKey rxIV =
     (case NewGCMCipher txKey txIV of
        Inl e \<Rightarrow> Inl (TxCipher e)
      | Inr enc \<Rightarrow>
          (case NewGCMCipher rxKey rxIV of
             Inl e \<Rightarrow> Inl (RxCipher e)
           | Inr dec \<Rightarrow> Inr (newWithCiphers peerID keyID (GCM enc) (GCM dec))))"

definition NewCBC :: "u32 \<Rightarrow> byte \<Rightarrow> bytes \<Rightarrow> bytes \<Rightarrow> bytes \<Rightarrow> bytes \<Rightarrow> (dc_error, Channel) result" where
  "NewCBC peerID keyID txAESKey txHMACKey rxAESKey rxHMACKey =
     (case NewCBCCipher txAESKey txHMACKey of
        Inl e \<Rightarrow> Inl (TxCipher e)
      | Inr enc \<Rightarrow>
          (case NewCBCCipher rxAESKey rxHMACKey of
             Inl e \<Rightarrow> Inl (RxCipher e)
           | Inr dec \<Rightarrow> Inr (newWithCiphers peerID keyID (CBC enc) (CBC dec))))"

definition buildHeader :: "byte \<Rightarrow> byte \<Rightarrow> u32 \<Rightarrow> bytes" where
  "buildHeader opcode keyID peerID =
     [FirstByte opcode keyID, ucast (drop_bit 16 peerID), ucast (drop_bit 8 peerID), ucast peerID]"

text \<open>The results of the encrypt functions are \<open>None\<close> when \<open>Seal\<close> panics; they return no error.\<close>

definition encryptGCM :: "bytes option \<Rightarrow> Channel \<Rightarrow> bytes \<Rightarrow> u32 \<Rightarrow> bytes \<Rightarrow> bytes option" where
  "encryptGCM rnd c header seq plaintext =
     (let aad = header @ be32 seq in
      case Seal rnd (encryptor c) seq plaintext aad of
        None \<Rightarrow> None
      | Some ct \<Rightarrow> Some (take 4 header @ be32 seq @ ct))"

definition encryptCBC :: "bytes option \<Rightarrow> Channel \<Rightarrow> bytes \<Rightarrow> u32 \<Rightarrow> bytes \<Rightarrow> bytes option" where
  "encryptCBC rnd c header seq plaintext =
     (let inner = be32 seq @ plaintext in
      case Seal rnd (encryptor c) seq inner [] of
        None \<Rightarrow> None
      | Some body \<Rightarrow> Some (take 4 header @ body))"

definition Encrypt :: "bytes option \<Rightarrow> Channel \<Rightarrow> bytes \<Rightarrow> bytes option \<times> Channel" where
  "Encrypt rnd c plaintext =
     (let seq = sendSeq c;
          c' = c\<lparr>sendSeq := sendSeq c + 1\<rparr>;
          header = buildHeader P_DATA_V2 (ch_keyID c) (ch_peerID c)
      in (if IsAEAD (encryptor c) then encryptGCM rnd c' header seq plaintext
          else encryptCBC rnd c' header seq plaintext, c'))"

definition checkReplay :: "Channel \<Rightarrow> u32 \<Rightarrow> (dc_error, unit) result" where
  "checkReplay c seq =
     (if \<not> replaySet c then Inr ()
      else if replayTop c < seq then Inr ()
      else let diff = replayTop c - seq in
        if replayWindowSize \<le> unat diff then Inl (ReplayTooOld seq)
        else if replayBit c ! unat diff then Inl (ReplaySeen seq) else Inr ())"

text \<open>The loop of \<open>markSeen\<close> clears \<^verbatim>\<open>(replayTop + 1 + i) % 64\<close> for the first \<open>n\<close> values of \<open>i\<close>.\<close>

fun clear_bits :: "nat \<Rightarrow> u32 \<Rightarrow> bool list \<Rightarrow> bool list" where
  "clear_bits 0 tp bits = bits"
| "clear_bits (Suc i) tp bits =
     (clear_bits i tp bits)[unat ((tp + 1 + of_nat i) mod 64) := False]"

definition markSeen :: "Channel \<Rightarrow> u32 \<Rightarrow> Channel" where
  "markSeen c seq =
     (let c1 =
        (if \<not> replaySet c \<or> replayTop c < seq then
           let advance = (if replaySet c then seq - replayTop c else 0) in
           c\<lparr>replayBit := clear_bits (min (unat advance) replayWindowSize) (replayTop c) (replayBit c),
             replayTop := seq, replaySet := True\<rparr>
         else c);
          diff = replayTop c1 - seq
      in if unat diff < replayWindowSize
         then c1\<lparr>replayBit := (replayBit c1)[unat diff := True]\<rparr> else c1)"

definition decryptGCM :: "Channel \<Rightarrow> bytes \<Rightarrow> (dc_error, bytes) result \<times> Channel" where
  "decryptGCM c pkt =
     (if length pkt < 4 + 4 + 16 then (Inl (GCMPacketTooShort (length pkt)), c)
      else case Uint32 (slice pkt 4 8) of
        None \<Rightarrow> (Inl DCPanic, c)
      | Some seq \<Rightarrow>
          (let ct = drop 8 pkt in
           case checkReplay c seq of
             Inl e \<Rightarrow> (Inl e, c)
           | Inr _ \<Rightarrow>
               (let aad = take 8 pkt in
                case Open (decryptor c) seq ct aad of
                  Inl e \<Rightarrow> (Inl (DecryptGCM seq e), c)
                | Inr plain \<Rightarrow> (Inr plain, markSeen c seq))))"

definition decryptCBC :: "Channel \<Rightarrow> bytes \<Rightarrow> (dc_error, bytes) result \<times> Channel" where
  "decryptCBC c pkt =
     (if length pkt < 4 + (32 + 16 + 16) then (Inl (CBCPacketTooShort (length pkt)), c)
      else let body = drop 4 pkt in
        case Open (decryptor c) 0 body [] of
          Inl e \<Rightarrow> (Inl (DecryptCBC e), c)
        | Inr inner \<Rightarrow>
            (if length inner < 4 then (Inl CBCPlaintextTooShort, c)
             else case Uint32 (take 4 inner) of
               None \<Rightarrow> (Inl DCPanic, c)
             | Some seq \<Rightarrow>
                 (case checkReplay c seq of
                    Inl e \<Rightarrow> (Inl e, c)
                  | Inr _ \<Rightarrow> (Inr (drop 4 inner), markSeen c seq))))"

definition Decrypt :: "Channel \<Rightarrow> bytes \<Rightarrow> (dc_error, bytes) result \<times> Channel" where
  "Decrypt c pkt = (if IsAEAD (decryptor c) then decryptGCM c pkt else decryptCBC c pkt)"

subsection \<open>The replay window\<close>

definition Channel_wf :: "Channel \<Rightarrow> bool" where
  "Channel_wf c \<longleftrightarrow> DataCipher_wf (encryptor c) \<and> DataCipher_wf (decryptor c) \<and>
     length (replayBit c) = 64 \<and> unat (ch_keyID c) < 8 \<and> unat (ch_peerID c) < 2 ^ 24"

definition accepts :: "Channel \<Rightarrow> u32 \<Rightarrow> bool" where
  "accepts c seq \<longleftrightarrow> is_ok (checkReplay c seq)"

lemma length_clear_bits [simp]: "length (clear_bits n tp bits) = length bits"
  by (induction n) simp_all

lemma markSeen_fields [simp]:
  "encryptor (markSeen c seq) = encryptor c" "decryptor (markSeen c seq) = decryptor c"
  "sendSeq (markSeen c seq) = sendSeq c" "ch_keyID (markSeen c seq) = ch_keyID c"
  "ch_peerID (markSeen c seq) = ch_peerID c" "length (replayBit (markSeen c seq)) = length (replayBit c)"
  "replaySet (markSeen c seq)"
  "replayTop (markSeen c seq) = (if replaySet c \<and> seq \<le> replayTop c then replayTop c else seq)"
  by (auto simp: markSeen_def Let_def)

lemma markSeen_wf [simp]: "Channel_wf (markSeen c seq) = Channel_wf c"
  by (simp add: Channel_wf_def)

lemma accepts_iff:
  "accepts c seq \<longleftrightarrow> \<not> replaySet c \<or> replayTop c < seq \<or>
     unat (replayTop c - seq) < 64 \<and> \<not> replayBit c ! unat (replayTop c - seq)"
  by (simp add: accepts_def checkReplay_def replayWindowSize_def Let_def)

lemma checkReplay_accepts: "accepts c seq \<Longrightarrow> checkReplay c seq = Inr ()"
  by (cases "checkReplay c seq") (auto simp: accepts_def)

lemma accepts_above: "replaySet c \<Longrightarrow> replayTop c < seq \<Longrightarrow> accepts c seq"
  by (simp add: accepts_iff)

lemma accepts_too_old:
  "replaySet c \<Longrightarrow> seq \<le> replayTop c \<Longrightarrow> 64 \<le> unat (replayTop c - seq) \<Longrightarrow> \<not> accepts c seq"
  by (simp add: accepts_iff)

lemma markSeen_bit:
  assumes "length (replayBit c) = 64" "unat (replayTop (markSeen c seq) - seq) < 64"
  shows "replayBit (markSeen c seq) ! unat (replayTop (markSeen c seq) - seq)"
  using assms by (auto simp: markSeen_def Let_def replayWindowSize_def split: if_splits)

lemma accepts_markSeen:
  assumes "length (replayBit c) = 64"
  shows "\<not> accepts (markSeen c seq) seq"
proof -
  have "\<not> replayTop (markSeen c seq) < seq" by (simp add: not_less)
  then show ?thesis using markSeen_bit [OF assms, of seq] unfolding accepts_iff by auto
qed

subsection \<open>Sealing and opening a packet\<close>

lemma length_buildHeader [simp]: "length (buildHeader op k p) = 4"
  by (simp add: buildHeader_def)

lemma slice_header [simp]: "length h = 4 \<Longrightarrow> slice (h @ be32 q @ ct) 4 8 = be32 q"
  by (simp add: slice_def)

lemma Encrypt_state [simp]: "snd (Encrypt rnd c pt) = c\<lparr>sendSeq := sendSeq c + 1\<rparr>"
  by (simp add: Encrypt_def Let_def)

lemma Encrypt_packet:
  assumes "Channel_wf c" "length iv = 16"
  shows "\<exists>pkt. fst (Encrypt (Some iv) c pt) = Some pkt"
proof -
  have "Seal (Some iv) (encryptor c) q p a \<noteq> None" for q p a
    using assms suite_cipher.seal_total [of "encryptor c" iv q p a] by (auto simp: Channel_wf_def)
  then show ?thesis
    by (auto simp: Encrypt_def encryptGCM_def encryptCBC_def Let_def simp del: not_None_eq
        split: option.split)
qed

lemma encryptGCM_SomeD:
  assumes "encryptGCM rnd c (buildHeader op k p) seq pt = Some pkt"
  shows "\<exists>ct. Seal rnd (encryptor c) seq pt (buildHeader op k p @ be32 seq) = Some ct \<and>
           pkt = buildHeader op k p @ be32 seq @ ct"
  using assms by (auto simp: encryptGCM_def Let_def split: option.splits)

lemma encryptCBC_SomeD:
  assumes "encryptCBC rnd c (buildHeader op k p) seq pt = Some pkt"
  shows "\<exists>body. Seal rnd (encryptor c) seq (be32 seq @ pt) [] = Some body \<and>
           pkt = buildHeader op k p @ body"
  using assms by (auto simp: encryptCBC_def Let_def split: option.splits)

lemma Encrypt_header:
  assumes "fst (Encrypt rnd c pt) = Some pkt"
  shows "take 4 pkt = buildHeader P_DATA_V2 (ch_keyID c) (ch_peerID c)"
  using assms
  by (auto simp: Encrypt_def Let_def split: if_splits dest!: encryptGCM_SomeD encryptCBC_SomeD)

lemma Encrypt_first_byte:
  assumes "fst (Encrypt rnd c pt) = Some pkt"
  shows "\<exists>rest. pkt = FirstByte P_DATA_V2 (ch_keyID c) # rest"
  using Encrypt_header [OF assms] by (cases pkt) (auto simp: buildHeader_def)

lemma gcm_seal_long: "GCM_wf g \<Longrightarrow> 16 \<le> length (GCMCipher_Seal g q pt aad)"
  by (simp add: length_GCM_Seal)

lemma cbc_seal_long:
  assumes "CBC_wf c" "length iv = 16" "CBCCipher_Seal (Some iv) c pt = Some body"
  shows "64 \<le> length body"
proof (rule ccontr)
  assume "\<not> 64 \<le> length body"
  then have "\<not> is_ok (CBCCipher_Open c body)" by (simp add: CBCCipher_Open_def)
  then show False using CBC_Open_Seal [OF assms] by simp
qed

lemma Decrypt_Encrypt:
  assumes wf: "Channel_wf s" and iv: "length iv = 16"
    and enc: "fst (Encrypt (Some iv) s pt) = Some pkt"
    and key: "decryptor r = encryptor s" and acc: "accepts r (sendSeq s)"
  shows "Decrypt r pkt = (Inr pt, markSeen r (sendSeq s))"
proof (cases "encryptor s")
  case (GCM g)
  let ?h = "buildHeader P_DATA_V2 (ch_keyID s) (ch_peerID s)"
  let ?ct = "GCMCipher_Seal g (sendSeq s) pt (?h @ be32 (sendSeq s))"
  have g: "GCM_wf g" using wf GCM by (simp add: Channel_wf_def)
  have pkt: "pkt = ?h @ be32 (sendSeq s) @ ?ct"
    using enc GCM by (auto simp: Encrypt_def Let_def dest!: encryptGCM_SomeD)
  have "Open (GCM g) (sendSeq s) ?ct (?h @ be32 (sendSeq s)) = Inr pt"
    using g by (simp add: GCM_Open_Seal)
  moreover have "\<not> length ?ct < 16" using gcm_seal_long [OF g] by (simp add: not_less)
  ultimately show ?thesis using key GCM acc
    by (simp add: Decrypt_def decryptGCM_def pkt checkReplay_accepts Let_def)
next
  case (CBC k)
  let ?h = "buildHeader P_DATA_V2 (ch_keyID s) (ch_peerID s)"
  have k: "CBC_wf k" using wf CBC by (simp add: Channel_wf_def)
  obtain body where body: "CBCCipher_Seal (Some iv) k (be32 (sendSeq s) @ pt) = Some body"
    and pkt: "pkt = ?h @ body"
    using enc CBC by (auto simp: Encrypt_def Let_def dest!: encryptCBC_SomeD)
  have "CBCCipher_Open k body = Inr (be32 (sendSeq s) @ pt)" using CBC_Open_Seal [OF k iv body] by simp
  then show ?thesis using key CBC acc cbc_seal_long [OF k iv body]
    by (simp add: Decrypt_def decryptCBC_def pkt checkReplay_accepts Let_def)
qed

lemma Decrypt_InrD:
  assumes "Decrypt c pkt = (Inr pt, c')"
  shows "\<exists>seq. accepts c seq \<and> c' = markSeen c seq"
proof -
  have "\<exists>seq. checkReplay c seq = Inr () \<and> c' = markSeen c seq"
    using assms by (auto simp: Decrypt_def decryptGCM_def decryptCBC_def Let_def
        split: if_splits option.splits sum.splits)
  then show ?thesis by (metis accepts_def is_ok.simps(2))
qed

lemma Decrypt_Inl_state: "Decrypt c pkt = (Inl e, c') \<Longrightarrow> c' = c"
  by (auto simp: Decrypt_def decryptGCM_def decryptCBC_def Let_def
      split: if_splits option.splits sum.splits)

lemma Decrypt_wf: "Channel_wf c \<Longrightarrow> Channel_wf (snd (Decrypt c pkt))"
  by (cases "Decrypt c pkt"; cases "fst (Decrypt c pkt)")
    (auto dest: Decrypt_InrD Decrypt_Inl_state)

lemma Encrypt_wf: "Channel_wf c \<Longrightarrow> Channel_wf (snd (Encrypt rnd c pt))"
  by (simp add: Channel_wf_def)

lemma newWithCiphers_wf:
  assumes "DataCipher_wf enc" "DataCipher_wf dec"
  shows "Channel_wf (newWithCiphers p k enc dec)"
proof -
  have "k AND 7 \<le> 7" "p AND 0xFFFFFF \<le> 0xFFFFFF" by (rule word_and_le1)+
  then have "unat (k AND 7) < 8" "unat (p AND 0xFFFFFF) < 2 ^ 24"
    by (simp_all add: word_le_nat_alt)
  then show ?thesis
    using assms by (simp add: Channel_wf_def newWithCiphers_def replayWindowSize_def)
qed

lemma New_wf: "New p k tk ti rk ri = Inr c \<Longrightarrow> Channel_wf c"
  by (auto simp: New_def newWithCiphers_wf NewGCMCipher_wf split: sum.splits)

lemma NewCBC_wf: "NewCBC p k tk th rk rh = Inr c \<Longrightarrow> Channel_wf c"
  by (auto simp: NewCBC_def newWithCiphers_wf NewCBCCipher_wf split: sum.splits)

subsection \<open>One direction of an epoch: a sender, a receiver and a lossy ordered path\<close>

text \<open>
  The contract a key epoch gives its user.  \<open>matched n s r\<close> says that \<open>r\<close> can decrypt the next \<open>n\<close>
  packets of \<open>s\<close>; a packet that is sent and delivered keeps them matched, and so does one that is
  sent and lost.  The clients of an epoch get delivery over any path that loses packets and keeps
  the order of the others.  \<open>path_run enc dec s r js\<close>: for each job (the random IV, the payload, whether
  the path delivers it) the sender encrypts and the receiver decrypts what arrives; the results of
  the receiver, in order (\<open>None\<close> where the sender panics).
\<close>

primrec path_run :: "(bytes option \<Rightarrow> 'c \<Rightarrow> bytes \<Rightarrow> bytes option \<times> 'c) \<Rightarrow>
    ('c \<Rightarrow> bytes \<Rightarrow> ('e, bytes) result \<times> 'c) \<Rightarrow> 'c \<Rightarrow> 'c \<Rightarrow> (bytes \<times> bytes \<times> bool) list \<Rightarrow>
    ('e, bytes) result option list" where
  "path_run enc dec s r [] = []"
| "path_run enc dec s r (j # js) =
     (case j of (iv, pt, arrives) \<Rightarrow>
       (case enc (Some iv) s pt of
          (None, s') \<Rightarrow> None # path_run enc dec s' r js
        | (Some pkt, s') \<Rightarrow>
            (if arrives then (case dec r pkt of (res, r') \<Rightarrow> Some res # path_run enc dec s' r' js)
             else path_run enc dec s' r js)))"

locale epoch =
  fixes matched :: "nat \<Rightarrow> 'c \<Rightarrow> 'c \<Rightarrow> bool"
    and enc :: "bytes option \<Rightarrow> 'c \<Rightarrow> bytes \<Rightarrow> bytes option \<times> 'c"
    and dec :: "'c \<Rightarrow> bytes \<Rightarrow> ('e, bytes) result \<times> 'c"
  assumes sends: "matched (Suc n) s r \<Longrightarrow> length iv = 16 \<Longrightarrow> \<exists>pkt. fst (enc (Some iv) s pt) = Some pkt"
    and delivers: "matched (Suc n) s r \<Longrightarrow> length iv = 16 \<Longrightarrow> fst (enc (Some iv) s pt) = Some pkt \<Longrightarrow>
        fst (dec r pkt) = Inr pt \<and> matched n (snd (enc (Some iv) s pt)) (snd (dec r pkt))"
    and loses: "matched (Suc n) s r \<Longrightarrow> matched n (snd (enc (Some iv) s pt)) r"
begin

lemma run_delivers:
  assumes "matched (length js) s r" "\<forall>(iv, pt, arrives) \<in> set js. length iv = 16"
  shows "path_run enc dec s r js = map (\<lambda>(iv, pt, arrives). Some (Inr pt)) (filter (\<lambda>(iv, pt, arrives). arrives) js)"
  using assms
proof (induction js arbitrary: s r)
  case (Cons j js)
  obtain iv pt arr where j: "j = (iv, pt, arr)" by (cases j) auto
  have m: "matched (Suc (length js)) s r" and iv: "length iv = 16" using Cons.prems j by auto
  obtain pkt where pkt: "fst (enc (Some iv) s pt) = Some pkt" using sends [OF m iv] by auto
  obtain s' where e: "enc (Some iv) s pt = (Some pkt, s')" using pkt by (cases "enc (Some iv) s pt") auto
  obtain res r' where d: "dec r pkt = (res, r')" by (cases "dec r pkt") auto
  have "res = Inr pt" "matched (length js) s' r'" "matched (length js) s' r"
    using delivers [OF m iv pkt] loses [OF m, of iv pt] e d by auto
  then show ?case using Cons j e d by auto
qed simp

end

definition matched :: "nat \<Rightarrow> Channel \<Rightarrow> Channel \<Rightarrow> bool" where
  "matched n s r \<longleftrightarrow> Channel_wf s \<and> Channel_wf r \<and> decryptor r = encryptor s \<and>
     unat (sendSeq s) + n \<le> 2 ^ 32 \<and> (0 < n \<longrightarrow> replaySet r \<longrightarrow> replayTop r < sendSeq s)"

lemma unat_u32_Suc: "unat (w :: u32) + 1 < 2 ^ 32 \<Longrightarrow> unat (w + 1) = unat w + 1"
  by (simp add: unat_word_ariths(1))

lemma matched_step:
  assumes "matched (Suc n) s r"
  shows "unat (sendSeq s + 1) + n \<le> 2 ^ 32" "0 < n \<Longrightarrow> sendSeq s < sendSeq s + 1"
proof -
  have b: "unat (sendSeq s) + Suc n \<le> 2 ^ 32" using assms by (simp add: matched_def)
  show "unat (sendSeq s + 1) + n \<le> 2 ^ 32"
  proof (cases "unat (sendSeq s) + 1 < 2 ^ 32")
    case True
    then show ?thesis using b unat_u32_Suc [OF True] by linarith
  next
    case False
    then have "unat (sendSeq s) = 4294967295" using b by simp
    then have "unat (sendSeq s + 1) = 0" by (simp add: unat_word_ariths(1))
    then show ?thesis using b by linarith
  qed
  assume "0 < n"
  then have "unat (sendSeq s) + 1 < 2 ^ 32" using b by linarith
  then show "sendSeq s < sendSeq s + 1" by (simp add: word_less_nat_alt unat_u32_Suc)
qed

lemma matched_lost:
  assumes "matched (Suc n) s r"
  shows "matched n (s\<lparr>sendSeq := sendSeq s + 1\<rparr>) r"
  using assms matched_step [OF assms]
  by (auto simp: matched_def Channel_wf_def intro: less_trans)

lemma matched_accepts: "matched (Suc n) s r \<Longrightarrow> accepts r (sendSeq s)"
  by (auto simp: matched_def accepts_iff)

lemma matched_delivered:
  assumes "matched (Suc n) s r"
  shows "matched n (s\<lparr>sendSeq := sendSeq s + 1\<rparr>) (markSeen r (sendSeq s))"
  using assms matched_step [OF assms]
  by (auto simp: matched_def Channel_wf_def)

interpretation data_epoch: epoch matched Encrypt Decrypt
proof (unfold_locales, goal_cases)
  case (1 n s r iv pt)
  then show ?case by (intro Encrypt_packet) (auto simp: matched_def)
next
  case (2 n s r iv pt pkt)
  then have "Decrypt r pkt = (Inr pt, markSeen r (sendSeq s))"
    by (intro Decrypt_Encrypt matched_accepts) (auto simp: matched_def)
  then show ?case using matched_delivered [OF 2(1)] by simp
next
  case (3 n s r iv pt)
  then show ?case by (simp add: matched_lost)
qed

subsection \<open>What the window remembers\<close>

text \<open>The receiver that has accepted the sequence numbers \<open>0, ..., n\<close> in order.\<close>

definition received_upto :: "Channel \<Rightarrow> nat \<Rightarrow> Channel" where
  "received_upto c n = fold (\<lambda>i c. markSeen c (of_nat i)) [0..<Suc n] c"

lemma received_upto_Suc: "received_upto c (Suc n) = markSeen (received_upto c n) (of_nat (Suc n))"
  by (simp add: received_upto_def)

lemma unat_of_nat_u32: "n < 2 ^ 32 \<Longrightarrow> unat (of_nat n :: u32) = n"
  by (simp add: unat_of_nat take_bit_nat_eq_self)

lemma of_nat_u32_less: "i < j \<Longrightarrow> j < 2 ^ 32 \<Longrightarrow> (of_nat i :: u32) < of_nat j"
  by (simp add: word_less_nat_alt unat_of_nat_u32)

lemma replicate_update_same [simp]: "(replicate n x)[i := x] = replicate n x"
  by (cases "i < n") (simp_all add: list_update_same_conv list_update_beyond)

lemma hd_only_update:
  "(True # replicate 63 False)[i := False, 0 := True] = True # replicate 63 False"
  by (cases i) simp_all

lemma replicate_64: "replicate 64 x = x # replicate 63 x"
  using replicate_Suc [of 63 x] by simp

lemma received_upto_state:
  assumes "\<not> replaySet c" "replayBit c = replicate 64 False" "n < 2 ^ 32"
  shows "replaySet (received_upto c n) \<and> replayTop (received_upto c n) = of_nat n \<and>
         replayBit (received_upto c n) = True # replicate 63 False"
  using assms(3)
proof (induction n)
  case 0
  then show ?case using assms(1,2)
    by (simp add: received_upto_def markSeen_def replayWindowSize_def Let_def replicate_64)
next
  case (Suc n)
  let ?c = "received_upto c n"
  have IH: "replaySet ?c" "replayTop ?c = of_nat n" "replayBit ?c = True # replicate 63 False"
    using Suc by auto
  have up: "replayTop ?c < of_nat (Suc n)" using IH(2) of_nat_u32_less [of n "Suc n"] Suc.prems by simp
  have one: "(of_nat (Suc n) :: u32) - of_nat n = 1" by simp
  have bits: "clear_bits 1 (of_nat n) (True # replicate 63 False) =
                (True # replicate 63 False)[unat ((of_nat n + 1 :: u32) mod 64) := False]"
    by simp
  have "replayBit (markSeen ?c (of_nat (Suc n))) =
          (clear_bits 1 (of_nat n) (True # replicate 63 False))[0 := True]"
    using up IH one by (simp add: markSeen_def Let_def replayWindowSize_def del: of_nat_Suc)
  also have "\<dots> = True # replicate 63 False" unfolding bits by (rule hd_only_update)
  finally show ?case using up IH
    by (simp add: received_upto_Suc not_le [symmetric] del: of_nat_Suc not_le)
qed

lemma received_upto_decryptor [simp]: "decryptor (received_upto c n) = decryptor c"
  by (induction n) (simp_all add: received_upto_Suc, simp add: received_upto_def)

lemma received_upto_accepts:
  assumes "\<not> replaySet c" "replayBit c = replicate 64 False" "n < 2 ^ 32" "q < n" "n - q < 64"
  shows "accepts (received_upto c n) (of_nat q)"
proof -
  have "(of_nat n :: u32) - of_nat q = of_nat (n - q)" using assms(4) by (simp add: of_nat_diff)
  then have "unat ((of_nat n :: u32) - of_nat q) = n - q"
    using assms(3,4) unat_of_nat_u32 [of "n - q"] by simp
  moreover have "(True # replicate 63 False) ! (n - q) = False" using assms(4,5) by (cases "n - q") auto
  ultimately show ?thesis
    using received_upto_state [OF assms(1,2,3)] assms(5) by (simp add: accepts_iff)
qed

subsection \<open>Packet ids of a sender\<close>

primrec encrypt_all :: "Channel \<Rightarrow> (bytes option \<times> bytes) list \<Rightarrow> bytes option list \<times> Channel" where
  "encrypt_all c [] = ([], c)"
| "encrypt_all c (j # js) =
     (let (p, c1) = Encrypt (fst j) c (snd j); (ps, c2) = encrypt_all c1 js in (p # ps, c2))"

lemma encrypt_all_state: "snd (encrypt_all c js) = c\<lparr>sendSeq := sendSeq c + of_nat (length js)\<rparr>"
proof (induction js arbitrary: c)
  case (Cons j js)
  then show ?case by (simp add: split_beta Let_def algebra_simps)
qed simp

lemma encrypt_all_nth:
  "i < length js \<Longrightarrow> fst (encrypt_all c js) ! i =
     fst (Encrypt (fst (js ! i)) (c\<lparr>sendSeq := sendSeq c + of_nat i\<rparr>) (snd (js ! i)))"
proof (induction js arbitrary: c i)
  case (Cons j js)
  then show ?case by (cases i) (simp_all add: split_beta Let_def algebra_simps)
qed simp

lemma length_encrypt_all [simp]: "length (fst (encrypt_all c js)) = length js"
  by (induction js arbitrary: c) (simp_all add: split_beta Let_def)

lemma Encrypt_GCM_packet:
  assumes "encryptor c = GCM g"
  shows "fst (Encrypt rnd c pt) =
    (let h = buildHeader P_DATA_V2 (ch_keyID c) (ch_peerID c) @ be32 (sendSeq c)
     in Some (h @ GCMCipher_Seal g (sendSeq c) pt h))"
  using assms by (simp add: Encrypt_def encryptGCM_def Let_def)

subsection \<open>What an accepted packet is\<close>

definition refuse :: "Channel \<Rightarrow> u32 \<Rightarrow> (dc_error, bytes) result" where
  "refuse d q = Inl (if unat (replayTop d - q) < 64 then ReplaySeen q else ReplayTooOld q)"

lemma checkReplay_refuse: "\<not> accepts d q \<Longrightarrow> checkReplay d q = Inl e \<Longrightarrow> Inl e = refuse d q"
  by (auto simp: accepts_def checkReplay_def refuse_def replayWindowSize_def Let_def split: if_splits)

lemma checkReplay_cases: "checkReplay d q = (if accepts d q then Inr () else Inl (projl (refuse d q)))"
proof (cases "accepts d q")
  case False
  then obtain e where "checkReplay d q = Inl e" by (cases "checkReplay d q") (auto simp: accepts_def)
  then show ?thesis using False checkReplay_refuse [OF False] by (simp add: refuse_def)
qed (simp add: checkReplay_accepts)

lemma decryptGCM_outcome:
  assumes "decryptGCM c pkt = (Inr pt, c')"
  shows "\<exists>q. accepts c q \<and> c' = markSeen c q \<and> 24 \<le> length pkt \<and> slice pkt 4 8 = be32 q \<and>
           Open (decryptor c) q (drop 8 pkt) (take 8 pkt) = Inr pt"
proof -
  from assms obtain q where len: "24 \<le> length pkt" and q: "Uint32 (slice pkt 4 8) = Some q"
    and r: "checkReplay c q = Inr ()" and o: "Open (decryptor c) q (drop 8 pkt) (take 8 pkt) = Inr pt"
    and c': "c' = markSeen c q"
    by (auto simp: decryptGCM_def Let_def split: if_splits option.splits sum.splits)
  have "slice pkt 4 8 = be32 q" using q len
    by (cases "slice pkt 4 8" rule: Uint32.cases) (auto dest: arg_cong [of _ _ length])
  moreover have "accepts c q" using r by (simp add: accepts_def)
  ultimately show ?thesis using len o c' by blast
qed

lemma decryptCBC_outcome:
  assumes "decryptCBC c pkt = (Inr pt, c')"
  shows "\<exists>q. accepts c q \<and> c' = markSeen c q \<and> 68 \<le> length pkt \<and>
           Open (decryptor c) 0 (drop 4 pkt) [] = Inr (be32 q @ pt)"
proof -
  from assms obtain inner q where len: "68 \<le> length pkt"
    and o: "Open (decryptor c) 0 (drop 4 pkt) [] = Inr inner" and q: "Uint32 inner = Some q"
    and r: "checkReplay c q = Inr ()" and pt: "pt = drop 4 inner" and c': "c' = markSeen c q"
    by (auto simp: decryptCBC_def Let_def split: if_splits option.splits sum.splits)
  have "inner = be32 q @ pt" using q pt by (cases inner rule: Uint32.cases) auto
  moreover have "accepts c q" using r by (simp add: accepts_def)
  ultimately show ?thesis using len o c' by blast
qed

text \<open>A packet one channel accepts is judged by every channel with the same key by the same sequence
  number, and by nothing else.\<close>

lemma Decrypt_outcome:
  assumes "Decrypt c pkt = (Inr pt, c')"
  shows "\<exists>q. accepts c q \<and> c' = markSeen c q \<and>
    (\<forall>d. decryptor d = decryptor c \<longrightarrow>
       Decrypt d pkt = (if accepts d q then (Inr pt, markSeen d q) else (refuse d q, d)))"
proof (cases "IsAEAD (decryptor c)")
  case True
  then obtain q where q: "accepts c q" "c' = markSeen c q" "24 \<le> length pkt" "slice pkt 4 8 = be32 q"
      "Open (decryptor c) q (drop 8 pkt) (take 8 pkt) = Inr pt"
    using assms decryptGCM_outcome [of c pkt pt c'] by (auto simp: Decrypt_def)
  then have "Decrypt d pkt = (if accepts d q then (Inr pt, markSeen d q) else (refuse d q, d))"
    if "decryptor d = decryptor c" for d
    using that True by (simp add: Decrypt_def decryptGCM_def checkReplay_cases Let_def refuse_def)
  then show ?thesis using q by blast
next
  case False
  then obtain q where q: "accepts c q" "c' = markSeen c q" "68 \<le> length pkt"
      "Open (decryptor c) 0 (drop 4 pkt) [] = Inr (be32 q @ pt)"
    using assms decryptCBC_outcome [of c pkt pt c'] by (auto simp: Decrypt_def)
  then have "Decrypt d pkt = (if accepts d q then (Inr pt, markSeen d q) else (refuse d q, d))"
    if "decryptor d = decryptor c" for d
    using that False by (simp add: Decrypt_def decryptCBC_def checkReplay_cases Let_def refuse_def)
  then show ?thesis using q by blast
qed

text \<open>The plaintexts and associated data a sealed packet is made of.\<close>

definition sealed_packet :: "DataCipher \<Rightarrow> bytes \<Rightarrow> u32 \<Rightarrow> bytes \<Rightarrow> bytes \<Rightarrow> bool" where
  "sealed_packet k pkt q iv pt \<longleftrightarrow>
     (if IsAEAD k then Seal (Some iv) k q pt (take 4 pkt @ be32 q) = Some (drop 8 pkt) \<and> slice pkt 4 8 = be32 q
      else Seal (Some iv) k q (be32 q @ pt) [] = Some (drop 4 pkt))"

lemma CBC_Seal_any_pid: "\<not> IsAEAD k \<Longrightarrow> Seal rnd k q pt aad = Seal rnd k q' pt aad'"
  by (cases k) simp_all

lemma Decrypt_sealed:
  assumes "Channel_wf c" "Decrypt c pkt = (Inr pt, c')"
  shows "\<exists>q iv. length iv = 16 \<and> sealed_packet (decryptor c) pkt q iv pt"
proof (cases "IsAEAD (decryptor c)")
  case True
  then obtain q where q: "24 \<le> length pkt" "slice pkt 4 8 = be32 q"
      "Open (decryptor c) q (drop 8 pkt) (take 8 pkt) = Inr pt"
    using assms decryptGCM_outcome [of c pkt pt c'] by (auto simp: Decrypt_def)
  then obtain iv where "length iv = 16" "Seal (Some iv) (decryptor c) q pt (take 8 pkt) = Some (drop 8 pkt)"
    using suite_cipher.seal_open assms(1) unfolding Channel_wf_def by blast
  moreover have "take 8 pkt = take 4 pkt @ be32 q"
    using q(2) take_add [of 4 4 pkt] by (simp add: slice_def)
  ultimately show ?thesis using True q(2) by (auto simp: sealed_packet_def)
next
  case False
  then obtain q where q: "Open (decryptor c) 0 (drop 4 pkt) [] = Inr (be32 q @ pt)"
    using assms decryptCBC_outcome [of c pkt pt c'] by (auto simp: Decrypt_def)
  then obtain iv where "length iv = 16" "Seal (Some iv) (decryptor c) 0 (be32 q @ pt) [] = Some (drop 4 pkt)"
    using suite_cipher.seal_open assms(1) unfolding Channel_wf_def by blast
  then have "length iv = 16 \<and> sealed_packet (decryptor c) pkt q iv pt"
    using False CBC_Seal_any_pid [OF False, of "Some iv" q "be32 q @ pt" "[]" 0 "[]"]
    by (simp add: sealed_packet_def)
  then show ?thesis by blast
qed

subsection \<open>Properties\<close>

text \<open>A channel for concrete runs: both directions under one all-zero AES-256 key.\<close>

definition zero_channel :: Channel where
  "zero_channel =
     (case New 7 1 (replicate 32 0) (replicate 8 0) (replicate 32 0) (replicate 8 0) of
        Inr c \<Rightarrow> c | Inl _ \<Rightarrow> undefined)"

lemma zero_channel_New:
  "New 7 1 (replicate 32 0) (replicate 8 0) (replicate 32 0) (replicate 8 0) = Inr zero_channel"
proof -
  obtain g where "NewGCMCipher (replicate 32 0) (replicate 8 0) = Inr g"
    by (auto simp: NewGCMCipher_def aes_NewCipher_def)
  then show ?thesis by (simp add: zero_channel_def New_def)
qed

lemma New_fresh:
  assumes "New p k tk ti tk ti = Inr c"
  shows "decryptor c = encryptor c" "sendSeq c = 0" "\<not> replaySet c" "replayBit c = replicate 64 False"
    "\<exists>g. encryptor c = GCM g \<and> GCM_wf g"
  using assms
  by (auto simp: New_def newWithCiphers_def replayWindowSize_def NewGCMCipher_wf split: sum.splits)

lemmas zero_channel_wf = New_wf [OF zero_channel_New]
lemmas zero_channel_fresh = New_fresh [OF zero_channel_New]

lemma New_keyID: "New p k tk ti rk ri = Inr c \<Longrightarrow> ch_keyID c = k AND 0x07"
  by (auto simp: New_def newWithCiphers_def split: sum.splits)

lemma zero_channel_keyID: "ch_keyID zero_channel = 1"
  using New_keyID [OF zero_channel_New] by simp

lemma zero_channel_matched: "n \<le> 2 ^ 32 \<Longrightarrow> matched n zero_channel zero_channel"
  by (simp add: matched_def zero_channel_wf zero_channel_fresh)

text \<open>(epoch delivery).  Over a path that may lose any packets but keeps the order of the others,
  the receiver decrypts exactly the payloads of the packets that arrive, for both cipher families and
  whatever the payloads, as long as the sender does not exhaust its 32-bit packet ids.\<close>

theorem epoch_delivery:
  assumes "matched (length js) s r" "\<forall>(iv, pt, arrives) \<in> set js. length iv = 16"
  shows "path_run Encrypt Decrypt s r js =
           map (\<lambda>(iv, pt, arrives). Some (Inr pt)) (filter (\<lambda>(iv, pt, arrives). arrives) js)"
  by (rule data_epoch.run_delivers [OF assms])

theorem epoch_delivery_witness:
  "path_run Encrypt Decrypt zero_channel zero_channel
     [(replicate 16 1, [69, 0], True), (replicate 16 2, [69, 1], False), (replicate 16 3, [], True)]
   = [Some (Inr [69, 0]), Some (Inr [])]"
  by (subst epoch_delivery) (simp_all add: zero_channel_matched)

text \<open>(no duplicate).  A packet that has just been accepted is refused when it comes again, the
  state unchanged.\<close>

theorem duplicate_rejected:
  assumes "Channel_wf c" "Decrypt c pkt = (Inr pt, c')"
  shows "\<exists>e. Decrypt c' pkt = (Inl e, c')"
proof -
  obtain q where q: "c' = markSeen c q" and
    out: "\<And>d. decryptor d = decryptor c \<Longrightarrow>
      Decrypt d pkt = (if accepts d q then (Inr pt, markSeen d q) else (refuse d q, d))"
    using Decrypt_outcome [OF assms(2)] by auto
  have "\<not> accepts c' q" using assms(1) q by (simp add: accepts_markSeen Channel_wf_def)
  then show ?thesis using out [of c'] q by (auto simp: refuse_def)
qed

theorem duplicate_rejected_witness:
  "\<exists>pkt c' e. fst (Encrypt (Some (replicate 16 0)) zero_channel [1, 2, 3]) = Some pkt \<and>
     Decrypt zero_channel pkt = (Inr [1, 2, 3], c') \<and> Decrypt c' pkt = (Inl e, c')"
proof -
  obtain pkt where pkt: "fst (Encrypt (Some (replicate 16 0)) zero_channel [1, 2, 3]) = Some pkt"
    using Encrypt_packet [OF zero_channel_wf, of "replicate 16 0" "[1, 2, 3]"] by auto
  have "Decrypt zero_channel pkt = (Inr [1, 2, 3], markSeen zero_channel (sendSeq zero_channel))"
    using pkt by (intro Decrypt_Encrypt [OF zero_channel_wf])
      (auto simp: zero_channel_fresh accepts_iff)
  then show ?thesis using pkt duplicate_rejected [OF zero_channel_wf] by blast
qed

text \<open>C23 (only sealed packets are accepted).  Whatever bytes \<open>Decrypt\<close> is given, when it returns a payload
  the packet is one that sealing this payload under the receive key produces, with the packet id the
  replay check used; in AEAD mode the four header bytes are bound too.\<close>

theorem accepted_packet_sealed:
  assumes "Channel_wf c" "Decrypt c pkt = (Inr pt, c')"
  shows "\<exists>q iv. length iv = 16 \<and> sealed_packet (decryptor c) pkt q iv pt"
  by (rule Decrypt_sealed [OF assms])

theorem accepted_packet_sealed_witness:
  "\<exists>pkt q iv. fst (Encrypt (Some (replicate 16 0)) zero_channel [9]) = Some pkt \<and>
     sealed_packet (decryptor zero_channel) pkt q iv [9]"
proof -
  obtain pkt where pkt: "fst (Encrypt (Some (replicate 16 0)) zero_channel [9]) = Some pkt"
    using Encrypt_packet [OF zero_channel_wf, of "replicate 16 0" "[9]"] by auto
  have "Decrypt zero_channel pkt = (Inr [9], markSeen zero_channel (sendSeq zero_channel))"
    using pkt by (intro Decrypt_Encrypt [OF zero_channel_wf])
      (auto simp: zero_channel_fresh accepts_iff)
  then show ?thesis using pkt accepted_packet_sealed [OF zero_channel_wf] by blast
qed

text \<open>(the window forgets).  A receiver that has accepted packets \<open>0, ..., n\<close> in order accepts packet
  \<open>q\<close> again for each of the 63 ids \<open>q\<close> before \<open>n\<close>: \<open>markSeen\<close> does not move the bits with the window, so
  only the bit of the newest packet is ever set.  Captured packets can be replayed.\<close>

theorem replay_window_readmits:
  assumes "Channel_wf s" "decryptor r = encryptor s" "\<not> replaySet r" "replayBit r = replicate 64 False"
    and "n < 2 ^ 32" "q < n" "n - q < 64" "sendSeq s = of_nat q" "length iv = 16"
    and "fst (Encrypt (Some iv) s pt) = Some pkt"
  shows "fst (Decrypt (received_upto r n) pkt) = Inr pt"
  using assms received_upto_accepts [OF assms(3-7)]
  by (subst Decrypt_Encrypt [OF assms(1,9,10)]) auto

theorem replay_window_readmits_witness:
  "\<exists>pkt. fst (Encrypt (Some (replicate 16 0)) zero_channel [1, 2]) = Some pkt \<and>
     fst (Decrypt (received_upto zero_channel 3) pkt) = Inr [1, 2]"
proof -
  obtain pkt where pkt: "fst (Encrypt (Some (replicate 16 0)) zero_channel [1, 2]) = Some pkt"
    using Encrypt_packet [OF zero_channel_wf, of "replicate 16 0" "[1, 2]"] by auto
  then show ?thesis
    using replay_window_readmits [OF zero_channel_wf _ _ _ _ _ _ _ _ pkt, of zero_channel 3 0]
    by (simp add: zero_channel_fresh)
qed

text \<open>(the window invents).  The same defect refuses packets that never arrived: after the ids 5, 3
  and 6 the fresh id 4 is reported as already seen.\<close>

theorem replay_window_rejects_unseen:
  "checkReplay (fold (\<lambda>q c. markSeen c q) [5, 3, 6] (newWithCiphers p k enc dec)) 4 = Inl (ReplaySeen 4)"
  by (simp add: newWithCiphers_def markSeen_def checkReplay_def replayWindowSize_def Let_def
      nth_list_update)

text \<open>C26 (packet ids and nonces).  In a run of 2^32 encryptions of an AES-GCM sender, packet \<open>i\<close> is
  header, packet id \<open>sendSeq + i\<close> and the sealed payload under that id, and two different packets of the
  run never share a nonce; but at its end the counter has wrapped without notice and the channel is back
  in the state it started from, so the next packet reuses the first nonce.\<close>

theorem nonce_unique_until_wrap:
  assumes "encryptor c = GCM g" "GCM_wf g" "length js = 2 ^ 32" "i < j" "j < 2 ^ 32"
  shows "fst (encrypt_all c js) ! i =
           (let q = sendSeq c + of_nat i;
                h = buildHeader P_DATA_V2 (ch_keyID c) (ch_peerID c) @ be32 q
            in Some (h @ GCMCipher_Seal g q (snd (js ! i)) h)) \<and>
         buildNonce g (sendSeq c + of_nat i) \<noteq> buildNonce g (sendSeq c + of_nat j) \<and>
         snd (encrypt_all c js) = c"
proof -
  have "(of_nat i :: u32) \<noteq> of_nat j" using of_nat_u32_less [OF assms(4,5)] by simp
  moreover have "(of_nat (2 ^ 32) :: u32) = 0" by simp
  moreover have "i < length js" using assms by simp
  ultimately show ?thesis
    using assms(1,2,3) by (simp add: buildNonce_inject encrypt_all_state encrypt_all_nth Encrypt_GCM_packet
        Let_def)
qed

theorem nonce_unique_until_wrap_witness:
  "\<exists>g. encryptor zero_channel = GCM g \<and> buildNonce g 0 \<noteq> buildNonce g 1 \<and>
     snd (encrypt_all zero_channel (replicate (2 ^ 32) (None, []))) = zero_channel"
proof -
  obtain g where g: "encryptor zero_channel = GCM g" "GCM_wf g" using zero_channel_fresh by blast
  have "buildNonce g (sendSeq zero_channel + of_nat 0) \<noteq> buildNonce g (sendSeq zero_channel + of_nat 1) \<and>
      snd (encrypt_all zero_channel (replicate (2 ^ 32) (None, []))) = zero_channel"
    using nonce_unique_until_wrap [OF g, of "replicate (2 ^ 32) (None, [])" 0 1] by simp
  then show ?thesis using g by (simp add: zero_channel_fresh)
qed

end
