(* ===== verification/Key_Manager.thy ===== *)
theory Key_Manager
  imports Data_Channel Compress
begin

section \<open>The key-epoch manager\<close>

text \<open>
  Models \<^verbatim>\<open>internal/datachannel/manager.go\<close>.  The three channel pointers are three optional channel
  values (\<open>current\<close> is never nil: it is set by the constructor, \<open>Promote\<close> and \<open>Rotate\<close>); no two slots
  share a channel, which is how the client uses the manager.  Counters and limits are signed 64-bit
  words; a point in time is a number of nanoseconds and the clock is an argument.
\<close>

type_synonym i64 = "64 word"

definition DefaultRenegSec :: i64 where "DefaultRenegSec = 3600"
definition DefaultRenegBytes :: i64 where "DefaultRenegBytes = 0"

record Manager =
  current :: Channel
  secondary :: "Channel option"
  previous :: "Channel option"
  renegSec :: i64
  renegBytes :: i64
  startedAt :: int
  bytesSent :: i64
  bytesRecv :: i64
  m_compress :: Mode

record ManagerConfig =
  RenegSec :: i64
  RenegBytes :: i64
  Compress :: Mode

datatype mgr_error =
    ExpectedDataV2
  | UnknownKeyID byte
  | ChannelErr dc_error
  | CompressErr compress_error

definition NewManager :: "int \<Rightarrow> Channel \<Rightarrow> ManagerConfig option \<Rightarrow> Manager" where
  "NewManager now ch cfg =
     (case cfg of
        Some c \<Rightarrow> \<lparr>current = ch, secondary = None, previous = None, renegSec = RenegSec c,
          renegBytes = RenegBytes c, startedAt = now, bytesSent = 0, bytesRecv = 0,
          m_compress = Compress c\<rparr>
      | None \<Rightarrow> \<lparr>current = ch, secondary = None, previous = None, renegSec = DefaultRenegSec,
          renegBytes = DefaultRenegBytes, startedAt = now, bytesSent = 0, bytesRecv = 0,
          m_compress = ModeNone\<rparr>)"

definition Manager_Encrypt :: "bytes option \<Rightarrow> Manager \<Rightarrow> bytes \<Rightarrow> bytes option \<times> Manager" where
  "Manager_Encrypt rnd m plaintext =
     (let inner = Wrap (m_compress m) plaintext in
      case Encrypt rnd (current m) inner of
        (None, ch) \<Rightarrow> (None, m\<lparr>current := ch\<rparr>)
      | (Some pkt, ch) \<Rightarrow>
          (Some pkt, m\<lparr>current := ch, bytesSent := bytesSent m + of_nat (length plaintext)\<rparr>))"

text \<open>\<open>decryptChannel\<close> returns which of the slots, in the order the loop tries them, has the key id.\<close>

datatype slot = Current | Secondary | Previous

definition decryptChannel :: "Manager \<Rightarrow> bytes \<Rightarrow> (mgr_error, slot) result" where
  "decryptChannel m pkt =
     (case pkt of
        [] \<Rightarrow> Inl ExpectedDataV2
      | b # _ \<Rightarrow>
          (if OpcodeFromByte b \<noteq> P_DATA_V2 then Inl ExpectedDataV2
           else let keyID = KeyIDFromByte b in
             if ch_keyID (current m) = keyID then Inr Current
             else if map_option ch_keyID (secondary m) = Some keyID then Inr Secondary
             else if map_option ch_keyID (previous m) = Some keyID then Inr Previous
             else Inl (UnknownKeyID keyID)))"

fun slot_channel :: "Manager \<Rightarrow> slot \<Rightarrow> Channel option" where
  "slot_channel m Current = Some (current m)"
| "slot_channel m Secondary = secondary m"
| "slot_channel m Previous = previous m"

fun set_slot :: "Manager \<Rightarrow> slot \<Rightarrow> Channel \<Rightarrow> Manager" where
  "set_slot m Current ch = m\<lparr>current := ch\<rparr>"
| "set_slot m Secondary ch = m\<lparr>secondary := Some ch\<rparr>"
| "set_slot m Previous ch = m\<lparr>previous := Some ch\<rparr>"

definition Manager_Decrypt :: "Manager \<Rightarrow> bytes \<Rightarrow> (mgr_error, bytes) result \<times> Manager" where
  "Manager_Decrypt m pkt =
     (case decryptChannel m pkt of
        Inl e \<Rightarrow> (Inl e, m)
      | Inr sl \<Rightarrow>
          (case slot_channel m sl of
             None \<Rightarrow> (Inl (ChannelErr DCPanic), m)
           | Some ch \<Rightarrow>
               (case Decrypt ch pkt of
                  (Inl e, ch') \<Rightarrow> (Inl (ChannelErr e), set_slot m sl ch')
                | (Inr inner, ch') \<Rightarrow>
                    (let m' = set_slot m sl ch' in
                     case Unwrap (m_compress m) inner of
                       Inl e \<Rightarrow> (Inl (CompressErr e), m')
                     | Inr plain \<Rightarrow>
                         (Inr plain, m'\<lparr>bytesRecv := bytesRecv m' + of_nat (length plain)\<rparr>)))))"

text \<open>\<^verbatim>\<open>time.Since\<close> saturates at the range of a \<^verbatim>\<open>time.Duration\<close>.\<close>

definition since :: "int \<Rightarrow> int \<Rightarrow> int" where
  "since now t = max (- (2 ^ 63)) (min (2 ^ 63 - 1) (now - t))"

definition Duration_Second :: i64 where "Duration_Second = 1000000000"

definition NeedsRekey :: "int \<Rightarrow> Manager \<Rightarrow> bool" where
  "NeedsRekey now m \<longleftrightarrow>
     (if secondary m \<noteq> None then False
      else if 0 < sint (renegSec m) \<and> sint (renegSec m * Duration_Second) \<le> since now (startedAt m)
      then True
      else 0 < sint (renegBytes m) \<and> sint (renegBytes m) \<le> sint (bytesSent m + bytesRecv m))"

definition Prepare :: "int \<Rightarrow> Manager \<Rightarrow> Channel \<Rightarrow> Manager" where
  "Prepare now m next =
     m\<lparr>secondary := Some next, previous := None, startedAt := now, bytesSent := 0, bytesRecv := 0\<rparr>"

definition Promote :: "Manager \<Rightarrow> byte \<Rightarrow> bool \<times> Manager" where
  "Promote m keyID =
     (case secondary m of
        None \<Rightarrow> (False, m)
      | Some sec \<Rightarrow>
          (if ch_keyID sec \<noteq> keyID AND 0x07 then (False, m)
           else (True, m\<lparr>previous := Some (current m), current := sec, secondary := None\<rparr>)))"

definition Rotate :: "int \<Rightarrow> Manager \<Rightarrow> Channel \<Rightarrow> Manager" where
  "Rotate now m next =
     m\<lparr>current := next, secondary := None, previous := None, startedAt := now,
       bytesSent := 0, bytesRecv := 0\<rparr>"

definition Stats :: "Manager \<Rightarrow> i64 \<times> i64" where
  "Stats m = (bytesSent m, bytesRecv m)"

subsection \<open>The manager as a state machine\<close>

text \<open>Any interleaving of the operations; the channels given to \<open>Prepare\<close> and \<open>Rotate\<close> come from the
  constructors of the data channel, and \<open>Prepare\<close> gets a key id other than the current one.\<close>

inductive mgr_step :: "Manager \<Rightarrow> Manager \<Rightarrow> bool" where
  step_encrypt: "Manager_Encrypt rnd m pt = (res, m') \<Longrightarrow> mgr_step m m'"
| step_decrypt: "Manager_Decrypt m pkt = (res, m') \<Longrightarrow> mgr_step m m'"
| step_prepare: "Channel_wf next \<Longrightarrow> ch_keyID next \<noteq> ch_keyID (current m) \<Longrightarrow>
    mgr_step m (Prepare now m next)"
| step_promote: "Promote m keyID = (ok, m') \<Longrightarrow> mgr_step m m'"
| step_rotate: "Channel_wf next \<Longrightarrow> mgr_step m (Rotate now m next)"

inductive_cases mgr_stepE: "mgr_step m m'"

definition slots :: "Manager \<Rightarrow> Channel list" where
  "slots m = [current m] @ (case secondary m of None \<Rightarrow> [] | Some c \<Rightarrow> [c])
                         @ (case previous m of None \<Rightarrow> [] | Some c \<Rightarrow> [c])"

definition Manager_inv :: "Manager \<Rightarrow> bool" where
  "Manager_inv m \<longleftrightarrow> (secondary m = None \<or> previous m = None) \<and>
     list_all Channel_wf (slots m) \<and> distinct (map ch_keyID (slots m))"

lemma Manager_inv_slots: "Manager_inv m \<Longrightarrow> length (slots m) \<le> 2"
  by (auto simp: Manager_inv_def slots_def split: option.splits)

lemma NewManager_inv: "Channel_wf ch \<Longrightarrow> Manager_inv (NewManager now ch cfg)"
  by (auto simp: Manager_inv_def NewManager_def slots_def split: option.splits)

text \<open>Replacing the channel of a slot by one with the same key id.\<close>

lemma set_slot_inv:
  assumes "Manager_inv m" "slot_channel m sl = Some ch" "Channel_wf ch'" "ch_keyID ch' = ch_keyID ch"
  shows "Manager_inv (set_slot m sl ch')"
  using assms by (cases sl) (auto simp: Manager_inv_def slots_def split: option.splits)

lemma slot_wf: "Manager_inv m \<Longrightarrow> slot_channel m sl = Some ch \<Longrightarrow> Channel_wf ch"
  by (cases sl) (auto simp: Manager_inv_def slots_def)

lemma Decrypt_keyID [simp]: "ch_keyID (snd (Decrypt c pkt)) = ch_keyID c"
  by (cases "Decrypt c pkt"; cases "fst (Decrypt c pkt)") (auto dest: Decrypt_InrD Decrypt_Inl_state)

lemma bytes_update_inv [simp]:
  "Manager_inv (m\<lparr>bytesRecv := x\<rparr>) = Manager_inv m" "Manager_inv (m\<lparr>bytesSent := x\<rparr>) = Manager_inv m"
  by (simp_all add: Manager_inv_def slots_def)

lemma decryptChannel_slot:
  assumes "decryptChannel m pkt = Inr sl"
  shows "\<exists>ch b rest. slot_channel m sl = Some ch \<and> pkt = b # rest \<and> OpcodeFromByte b = P_DATA_V2 \<and>
           ch_keyID ch = KeyIDFromByte b"
  using assms by (auto simp: decryptChannel_def Let_def split: list.splits if_splits)

lemma Manager_Decrypt_state:
  "(\<exists>e. decryptChannel m pkt = Inl e \<and> snd (Manager_Decrypt m pkt) = m) \<or>
   (\<exists>sl ch n. decryptChannel m pkt = Inr sl \<and> slot_channel m sl = Some ch \<and>
      snd (Manager_Decrypt m pkt) = (set_slot m sl (snd (Decrypt ch pkt)))\<lparr>bytesRecv := n\<rparr>)"
proof (cases "decryptChannel m pkt")
  case (Inl e)
  then show ?thesis by (simp add: Manager_Decrypt_def)
next
  case (Inr sl)
  then obtain ch where ch: "slot_channel m sl = Some ch" using decryptChannel_slot by blast
  obtain res ch' where d: "Decrypt ch pkt = (res, ch')" by (cases "Decrypt ch pkt") auto
  have keep: "set_slot m sl ch' = (set_slot m sl ch')\<lparr>bytesRecv := bytesRecv (set_slot m sl ch')\<rparr>" by simp
  have "\<exists>n. snd (Manager_Decrypt m pkt) = (set_slot m sl ch')\<lparr>bytesRecv := n\<rparr>"
  proof (cases res)
    case (Inl e)
    then have "snd (Manager_Decrypt m pkt) = set_slot m sl ch'"
      using Inr ch d by (simp add: Manager_Decrypt_def)
    then show ?thesis using keep by metis
  next
    case ok: (Inr inner)
    then show ?thesis
    proof (cases "Unwrap (m_compress m) inner")
      case (Inl e)
      then have "snd (Manager_Decrypt m pkt) = set_slot m sl ch'"
        using Inr ch d ok by (simp add: Manager_Decrypt_def Let_def)
      then show ?thesis using keep by metis
    next
      case (Inr plain)
      then show ?thesis using \<open>decryptChannel m pkt = Inr sl\<close> ch d ok
        by (auto simp: Manager_Decrypt_def Let_def)
    qed
  qed
  then show ?thesis using Inr ch d by auto
qed

lemma Manager_Decrypt_inv: "Manager_inv m \<Longrightarrow> Manager_inv (snd (Manager_Decrypt m pkt))"
  using Manager_Decrypt_state [of m pkt] by (auto intro!: set_slot_inv [OF _ _ Decrypt_wf Decrypt_keyID] intro: slot_wf)

lemma Encrypt_pair: "Encrypt rnd c pt = (fst (Encrypt rnd c pt), c\<lparr>sendSeq := sendSeq c + 1\<rparr>)"
  by (metis Encrypt_state prod.collapse)

lemma Manager_Encrypt_eq:
  "Manager_Encrypt rnd m pt =
     (let p = fst (Encrypt rnd (current m) (Wrap (m_compress m) pt));
          m' = m\<lparr>current := (current m)\<lparr>sendSeq := sendSeq (current m) + 1\<rparr>\<rparr>
      in (p, if p = None then m' else m'\<lparr>bytesSent := bytesSent m + of_nat (length pt)\<rparr>))"
  using Encrypt_pair [of rnd "current m" "Wrap (m_compress m) pt"]
  by (auto simp: Manager_Encrypt_def Let_def split: option.splits prod.splits)

lemma Manager_Encrypt_state:
  "\<exists>n. snd (Manager_Encrypt rnd m pt) =
     m\<lparr>current := (current m)\<lparr>sendSeq := sendSeq (current m) + 1\<rparr>, bytesSent := n\<rparr>"
  by (cases "fst (Encrypt rnd (current m) (Wrap (m_compress m) pt)) = None")
    (force simp: Manager_Encrypt_eq Let_def intro: exI [of _ "bytesSent m"],
      auto simp: Manager_Encrypt_eq Let_def)

lemma Manager_Encrypt_inv: "Manager_inv m \<Longrightarrow> Manager_inv (snd (Manager_Encrypt rnd m pt))"
  using Manager_Encrypt_state [of rnd m pt]
  by (auto simp: Manager_inv_def slots_def Channel_wf_def)

lemma Promote_inv: "Manager_inv m \<Longrightarrow> Manager_inv (snd (Promote m k))"
  by (auto simp: Promote_def Manager_inv_def slots_def split: option.splits)

lemma Prepare_inv:
  "Manager_inv m \<Longrightarrow> Channel_wf ch \<Longrightarrow> ch_keyID ch \<noteq> ch_keyID (current m) \<Longrightarrow> Manager_inv (Prepare now m ch)"
  by (auto simp: Prepare_def Manager_inv_def slots_def)

lemma Rotate_inv: "Manager_inv m \<Longrightarrow> Channel_wf ch \<Longrightarrow> Manager_inv (Rotate now m ch)"
  by (auto simp: Rotate_def Manager_inv_def slots_def)

lemma mgr_step_inv: "mgr_step m m' \<Longrightarrow> Manager_inv m \<Longrightarrow> Manager_inv m'"
  by (induction rule: mgr_step.induct)
    (metis Manager_Encrypt_inv snd_conv, metis Manager_Decrypt_inv snd_conv,
      blast intro: Prepare_inv, metis Promote_inv snd_conv, blast intro: Rotate_inv)

subsection \<open>Two managers\<close>

lemma P_DATA_V2_small: "unat P_DATA_V2 < 32"
  by (simp add: P_DATA_V2_def)

lemma decryptChannel_finds:
  assumes "Manager_inv m" "slot_channel m sl = Some ch" "pkt = FirstByte P_DATA_V2 (ch_keyID ch) # rest"
  shows "decryptChannel m pkt = Inr sl"
proof -
  have "unat (ch_keyID ch) < 8" using slot_wf [OF assms(1,2)] by (simp add: Channel_wf_def)
  then have "KeyIDFromByte (ch_keyID ch) = ch_keyID ch" by (rule KeyIDFromByte_small)
  then show ?thesis
    using assms by (cases sl)
      (auto simp: decryptChannel_def Let_def OpcodeFromByte_FirstByte [OF P_DATA_V2_small]
        Manager_inv_def slots_def split: option.splits)
qed

text \<open>\<open>b\<close> holds, in one of its slots, the channel that matches the primary channel of \<open>a\<close>.\<close>

definition mgr_matched :: "nat \<Rightarrow> Manager \<Rightarrow> Manager \<Rightarrow> bool" where
  "mgr_matched n a b \<longleftrightarrow> Manager_inv a \<and> Manager_inv b \<and> m_compress a = m_compress b \<and>
     (\<exists>sl ch. slot_channel b sl = Some ch \<and> ch_keyID ch = ch_keyID (current a) \<and> matched n (current a) ch)"

lemma set_slot_same: "slot_channel (set_slot m sl ch) sl = Some ch" "m_compress (set_slot m sl ch) = m_compress m"
  "bytesRecv (set_slot m sl ch) = bytesRecv m"
  by (cases sl; simp)+

lemma slot_bytes [simp]:
  "slot_channel (m\<lparr>bytesRecv := x\<rparr>) sl = slot_channel m sl" "slot_channel (m\<lparr>bytesSent := x\<rparr>) sl = slot_channel m sl"
  by (cases sl; simp)+

lemma Manager_Decrypt_slot:
  assumes "decryptChannel m pkt = Inr sl" "slot_channel m sl = Some ch" "Decrypt ch pkt = (Inr inner, ch')"
    and "Unwrap (m_compress m) inner = Inr plain"
  shows "Manager_Decrypt m pkt =
    (Inr plain, (set_slot m sl ch')\<lparr>bytesRecv := bytesRecv m + of_nat (length plain)\<rparr>)"
  using assms by (simp add: Manager_Decrypt_def Let_def set_slot_same)

lemma Manager_Encrypt_snd [simp]:
  "m_compress (snd (Manager_Encrypt rnd m pt)) = m_compress m"
  "current (snd (Manager_Encrypt rnd m pt)) = (current m)\<lparr>sendSeq := sendSeq (current m) + 1\<rparr>"
  using Manager_Encrypt_state [of rnd m pt] by auto

lemma mgr_delivers:
  assumes m: "mgr_matched (Suc n) a b" and iv: "length iv = 16"
    and enc: "fst (Manager_Encrypt (Some iv) a pt) = Some pkt"
  shows "fst (Manager_Decrypt b pkt) = Inr pt \<and>
         mgr_matched n (snd (Manager_Encrypt (Some iv) a pt)) (snd (Manager_Decrypt b pkt))"
proof -
  obtain sl ch where sl: "slot_channel b sl = Some ch" "ch_keyID ch = ch_keyID (current a)"
    and mt: "matched (Suc n) (current a) ch" using m by (auto simp: mgr_matched_def)
  have inv: "Manager_inv a" "Manager_inv b" "m_compress a = m_compress b" using m by (auto simp: mgr_matched_def)
  let ?w = "Wrap (m_compress a) pt"
  have e: "fst (Encrypt (Some iv) (current a) ?w) = Some pkt" using enc by (simp add: Manager_Encrypt_eq Let_def)
  obtain rest where "pkt = FirstByte P_DATA_V2 (ch_keyID ch) # rest" using Encrypt_first_byte [OF e] sl by auto
  then have dc: "decryptChannel b pkt = Inr sl" using decryptChannel_finds inv sl by blast
  obtain ch' where d: "Decrypt ch pkt = (Inr ?w, ch')" and mt': "matched n ((current a)\<lparr>sendSeq := sendSeq (current a) + 1\<rparr>) ch'"
    using data_epoch.delivers [OF mt iv e] by (cases "Decrypt ch pkt") auto
  have D: "Manager_Decrypt b pkt = (Inr pt, (set_slot b sl ch')\<lparr>bytesRecv := bytesRecv b + of_nat (length pt)\<rparr>)"
    using Manager_Decrypt_slot [OF dc sl(1) d] inv by simp
  have "ch_keyID ch' = ch_keyID ch" using Decrypt_keyID [of ch pkt] d by simp
  then show ?thesis
    using D mt' sl Manager_Decrypt_inv [OF inv(2), of pkt] Manager_Encrypt_inv [OF inv(1)] inv(3)
    by (auto simp: mgr_matched_def set_slot_same intro!: exI [of _ sl])
qed

interpretation mgr_epoch: epoch mgr_matched Manager_Encrypt Manager_Decrypt
proof (unfold_locales, goal_cases)
  case (1 n a b iv pt)
  then obtain ch where "matched (Suc n) (current a) ch" by (auto simp: mgr_matched_def)
  then show ?case using data_epoch.sends 1(2) by (fastforce simp: Manager_Encrypt_eq Let_def)
next
  case (2 n a b iv pt pkt)
  then show ?case by (rule mgr_delivers)
next
  case (3 n a b iv pt)
  then show ?case using Manager_Encrypt_inv [of a "Some iv" pt]
    by (auto simp: mgr_matched_def intro: matched_lost)
qed

text \<open>The rekey, seen from the sender \<open>a\<close> and the receiver \<open>b\<close>.\<close>

lemma mgr_matched_Prepare:
  assumes "mgr_matched n a b" "ch_keyID (current b) = ch_keyID (current a)"
    and "matched k next_a next_b" "ch_keyID next_a = ch_keyID next_b" "ch_keyID next_a \<noteq> ch_keyID (current a)"
  shows "mgr_matched n (Prepare t a next_a) (Prepare t' b next_b)"
proof -
  obtain sl ch where sl: "slot_channel b sl = Some ch" "ch_keyID ch = ch_keyID (current a)" "matched n (current a) ch"
    using assms(1) by (auto simp: mgr_matched_def)
  have inv: "Manager_inv a" "Manager_inv b" "m_compress a = m_compress b"
    using assms(1) by (auto simp: mgr_matched_def)
  have "ch = current b" using sl assms(2) inv(2)
    by (cases sl) (auto simp: Manager_inv_def slots_def split: option.splits)
  then have "slot_channel (Prepare t' b next_b) Current = Some ch" by (simp add: Prepare_def)
  moreover have "Channel_wf next_a" "Channel_wf next_b" using assms(3) by (auto simp: matched_def)
  then have "Manager_inv (Prepare t a next_a)" "Manager_inv (Prepare t' b next_b)"
    using inv assms by (auto intro!: Prepare_inv)
  moreover have "current (Prepare t a next_a) = current a" "m_compress (Prepare t a next_a) = m_compress a"
    "m_compress (Prepare t' b next_b) = m_compress b" by (simp_all add: Prepare_def)
  ultimately show ?thesis using sl(2,3) inv(3) unfolding mgr_matched_def by metis
qed

lemma slot_channel_Promote:
  assumes "slot_channel m sl = Some ch" "previous m = None"
  shows "\<exists>sl'. slot_channel (snd (Promote m k)) sl' = Some ch"
proof (cases "fst (Promote m k)")
  case True
  then have "slot_channel (snd (Promote m k)) (case sl of Current \<Rightarrow> Previous | _ \<Rightarrow> Current) = Some ch"
    using assms by (cases sl) (auto simp: Promote_def split: option.splits if_splits)
  then show ?thesis by blast
next
  case False
  then have "snd (Promote m k) = m" by (auto simp: Promote_def split: option.splits if_splits)
  then show ?thesis using assms by auto
qed

lemma Promote_compress [simp]: "m_compress (snd (Promote m k)) = m_compress m"
  by (auto simp: Promote_def split: option.splits)

lemma mgr_matched_receiver_Promote:
  assumes "mgr_matched n a b" "previous b = None"
  shows "mgr_matched n a (snd (Promote b k))"
  using assms slot_channel_Promote [OF _ assms(2), of _ _ k] Promote_inv
  unfolding mgr_matched_def by (metis Promote_compress)

lemma keyID_mask: "Channel_wf c \<Longrightarrow> ch_keyID c AND 7 = ch_keyID c"
  using KeyIDFromByte_small [of "ch_keyID c"] by (simp add: Channel_wf_def KeyIDFromByte_def keyIDMask_def)

lemma mgr_matched_sender_Promote:
  assumes "Manager_inv a" "Manager_inv b" "m_compress a = m_compress b"
    and "secondary a = Some x" "secondary b = Some y" "matched n x y" "ch_keyID x = ch_keyID y"
  shows "mgr_matched n (snd (Promote a (ch_keyID x))) b"
proof -
  have "ch_keyID x AND 7 = ch_keyID x" using assms(6) by (intro keyID_mask) (simp add: matched_def)
  then have "current (snd (Promote a (ch_keyID x))) = x" using assms(4) by (simp add: Promote_def)
  moreover have "slot_channel b Secondary = Some y" using assms(5) by simp
  ultimately show ?thesis
    using assms Promote_inv [OF assms(1)] unfolding mgr_matched_def by (metis Promote_compress)
qed

interpretation mgr_run: invariant_system mgr_step "\<lambda>m. \<exists>now ch cfg. Channel_wf ch \<and> m = NewManager now ch cfg" Manager_inv
  by unfold_locales (auto simp: NewManager_inv intro: mgr_step_inv)

subsection \<open>Properties\<close>



text \<open>C3 (manager delivery).  Between two managers with the same compression mode, the receiver holding a
  channel for the primary key of the sender in any of its slots, every packet that arrives decrypts to
  the payload that was given to \<open>Encrypt\<close>: the key id selects the channel, and the stub byte that was
  added is taken off.\<close>

theorem manager_delivery:
  assumes "mgr_matched (length js) a b" "\<forall>(iv, pt, arrives) \<in> set js. length iv = 16"
  shows "path_run Manager_Encrypt Manager_Decrypt a b js =
           map (\<lambda>(iv, pt, arrives). Some (Inr pt)) (filter (\<lambda>(iv, pt, arrives). arrives) js)"
  by (rule mgr_epoch.run_delivers [OF assms])

lemma zero_manager_matched:
  "n \<le> 2 ^ 32 \<Longrightarrow> mgr_matched n (NewManager 0 zero_channel cfg) (NewManager t zero_channel cfg)"
  using zero_channel_matched [of n] NewManager_inv [OF zero_channel_wf]
  unfolding mgr_matched_def
  by (auto simp: NewManager_def intro!: exI [of _ Current] split: option.splits)

theorem manager_delivery_witness:
  "path_run Manager_Encrypt Manager_Decrypt
     (NewManager 0 zero_channel (Some \<lparr>RenegSec = 60, RenegBytes = 0, Compress = ModeLZ4\<rparr>))
     (NewManager 9 zero_channel (Some \<lparr>RenegSec = 60, RenegBytes = 0, Compress = ModeLZ4\<rparr>))
     [(replicate 16 1, [69], True), (replicate 16 2, [70], False), (replicate 16 3, [71], True)]
   = [Some (Inr [69]), Some (Inr [71])]"
  by (subst manager_delivery) (simp_all add: zero_manager_matched)

text \<open>C15 (seamless rekey).  Let both sides prepare matching channels under a new key id.  Then packets under
  the old key are still delivered, also after the receiver has promoted the new key; and once the sender
  promotes it, packets under the new key are delivered whether the receiver has promoted it or not.\<close>

theorem rekey_seamless:
  assumes "mgr_matched n a b" "ch_keyID (current b) = ch_keyID (current a)"
    and "matched k next_a next_b" "ch_keyID next_a = ch_keyID next_b" "ch_keyID next_a \<noteq> ch_keyID (current a)"
    and "a' = Prepare t a next_a" "b' = Prepare t' b next_b" "kid = ch_keyID next_a"
  shows "mgr_matched n a' b' \<and> mgr_matched n a' (snd (Promote b' kid)) \<and>
    mgr_matched k (snd (Promote a' kid)) b' \<and> mgr_matched k (snd (Promote a' kid)) (snd (Promote b' kid))"
proof -
  have 1: "mgr_matched n a' b'" unfolding assms(6,7) by (rule mgr_matched_Prepare [OF assms(1-5)])
  have prev: "previous b' = None" and sec: "secondary a' = Some next_a" "secondary b' = Some next_b"
    by (simp_all add: assms(6,7) Prepare_def)
  have 2: "mgr_matched k (snd (Promote a' kid)) b'" unfolding assms(8)
    using 1 by (intro mgr_matched_sender_Promote [OF _ _ _ sec assms(3,4)]) (auto simp: mgr_matched_def)
  show ?thesis
    using 1 2 mgr_matched_receiver_Promote [OF 1 prev] mgr_matched_receiver_Promote [OF 2 prev] by blast
qed

theorem rekey_seamless_witness:
  "mgr_matched 10
     (snd (Promote (Prepare 1 (NewManager 0 zero_channel None) (zero_channel\<lparr>ch_keyID := 2\<rparr>)) 2))
     (Prepare 1 (NewManager 0 zero_channel None) (zero_channel\<lparr>ch_keyID := 2\<rparr>))"
proof -
  have "matched 10 (zero_channel\<lparr>ch_keyID := 2\<rparr>) (zero_channel\<lparr>ch_keyID := 2\<rparr>)"
    using zero_channel_matched [of 10] by (simp add: matched_def Channel_wf_def)
  from rekey_seamless [OF zero_manager_matched [of 3 None 0] _ this _ _ refl refl refl, of 1 1]
  show ?thesis by (simp add: zero_channel_keyID NewManager_def)
qed

text \<open>(when to rekey).  No rekey is due while a prepared key waits for promotion.  Otherwise, for an
  interval up to 9223372036 seconds, one is due exactly when the epoch is older than the interval or the
  byte limit is reached; one second more and the multiplication by a second in nanoseconds wraps to a
  negative duration, so that a rekey is always due.\<close>

theorem rekey_due:
  assumes "startedAt m \<le> now" "now - startedAt m < 2 ^ 63"
  shows "(secondary m \<noteq> None \<longrightarrow> \<not> NeedsRekey now m) \<and>
    (secondary m = None \<and> 0 < s \<and> s \<le> 9223372036 \<and> renegSec m = of_int s \<longrightarrow>
       (NeedsRekey now m \<longleftrightarrow> s * 10 ^ 9 \<le> now - startedAt m \<or>
         0 < sint (renegBytes m) \<and> sint (renegBytes m) \<le> sint (bytesSent m + bytesRecv m))) \<and>
    (secondary m = None \<and> renegSec m = 9223372037 \<longrightarrow> NeedsRekey now m)"
proof -
  have since: "since now (startedAt m) = now - startedAt m" using assms by (simp add: since_def)
  have "NeedsRekey now m \<longleftrightarrow> s * 10 ^ 9 \<le> now - startedAt m \<or>
         0 < sint (renegBytes m) \<and> sint (renegBytes m) \<le> sint (bytesSent m + bytesRecv m)"
    if "secondary m = None" "0 < s" "s \<le> 9223372036" "renegSec m = of_int s"
  proof -
    have "renegSec m * Duration_Second = of_int (s * 10 ^ 9)" using that(4) by (simp add: Duration_Second_def)
    then have "sint (renegSec m * Duration_Second) = s * 10 ^ 9"
      using that(2,3) by (simp only: sint_sbintrunc') (simp add: signed_take_bit_int_eq_self)
    moreover have "sint (renegSec m) = s"
      using that by (simp add: sint_sbintrunc' signed_take_bit_int_eq_self)
    ultimately show ?thesis using that(1,2) since by (simp add: NeedsRekey_def)
  qed
  moreover have "NeedsRekey now m" if "secondary m = None" "renegSec m = 9223372037"
    using that assms since by (simp add: NeedsRekey_def Duration_Second_def)
  ultimately show ?thesis by (simp add: NeedsRekey_def)
qed

theorem rekey_due_witness:
  "NeedsRekey (3600 * 10 ^ 9) (NewManager 0 zero_channel None) \<and>
   \<not> NeedsRekey (3599 * 10 ^ 9) (NewManager 0 zero_channel None)"
  using rekey_due [of "NewManager 0 zero_channel None" "3600 * 10 ^ 9" 3600]
    rekey_due [of "NewManager 0 zero_channel None" "3599 * 10 ^ 9" 3600]
  by (simp add: NewManager_def DefaultRenegSec_def DefaultRenegBytes_def)

end
