(* ===== verification/Mssfix.thy ===== *)
theory Mssfix
  imports VPN_Prelude
begin

section \<open>TCP MSS clamping\<close>

text \<open>
  Models \<^verbatim>\<open>internal/mssfix/mssfix.go\<close>.  The Go code changes the packet in place; here the functions
  return the packet.  Sums are 32-bit words that wrap, as in the code.
\<close>

subsection \<open>The internet checksum\<close>

text \<open>The summation loop with the padding of an odd last byte.\<close>

fun add_words :: "u32 \<Rightarrow> bytes \<Rightarrow> u32" where
  "add_words s (a # b # r) = add_words (s + ucast (u16_of a b)) r"
| "add_words s [a] = s + push_bit 8 (ucast a)"
| "add_words s [] = s"

lemma unat_low16: "unat (s AND 0xffff :: u32) = unat s mod 65536"
proof -
  have "s AND 0xffff = s mod 65536"
    using take_bit_eq_mask [of 16 s] take_bit_eq_mod [of 16 s] by (simp add: mask_eq_exp_minus_1)
  then show ?thesis using unat_mod_distrib [of s 65536] by simp
qed

lemma unat_high16: "unat (drop_bit 16 s :: u32) = unat s div 65536"
  using unat_div_distrib [of s 65536] drop_bit_eq_div [of 16 s] by simp

lemma unat_carry:
  "unat ((s AND 0xffff) + drop_bit 16 s :: u32) = unat s mod 65536 + unat s div 65536"
proof -
  have "unat s div 65536 < 65536" using unat_u32 [of s] by (simp del: unat_u32)
  then show ?thesis by (simp add: unat_word_ariths unat_low16 unat_high16)
qed

function fold_carry :: "u32 \<Rightarrow> u32" where
  "fold_carry s = (if drop_bit 16 s = 0 then s else fold_carry ((s AND 0xffff) + drop_bit 16 s))"
  by pat_completeness auto
termination
proof (relation "measure unat", goal_cases)
  case (2 s)
  then have "unat (drop_bit 16 s) \<noteq> 0" by (simp add: unat_eq_zero)
  then have "0 < unat s div 65536" unfolding unat_high16 by simp
  moreover have "unat s = 65536 * (unat s div 65536) + unat s mod 65536" by simp
  ultimately show ?case unfolding in_measure unat_carry by linarith
qed simp

declare fold_carry.simps [simp del]

definition checksum :: "bytes \<Rightarrow> u16" where
  "checksum b = NOT (ucast (fold_carry (add_words 0 b)))"

definition checksumVec :: "bytes \<Rightarrow> bytes \<Rightarrow> u16" where
  "checksumVec a b = NOT (ucast (fold_carry (add_words (add_words 0 a) b)))"

subsection \<open>Clamping\<close>

text \<open>
  The option loop of \<open>clampTCP\<close> from offset \<open>i\<close>: \<open>Some opts'\<close> when the MSS was lowered (the function
  returns true), \<open>None\<close> when it returns false.
\<close>

function clamp_opts :: "nat \<Rightarrow> bytes \<Rightarrow> int \<Rightarrow> bytes option" where
  "clamp_opts i opts maxMSS =
     (if length opts \<le> i then None
      else let kind = opts ! i in
        if kind = 0 then None
        else if kind = 1 then clamp_opts (i + 1) opts maxMSS
        else if length opts \<le> i + 1 then None
        else let len = unat (opts ! (i + 1)) in
          if len < 2 \<or> length opts < i + len then None
          else if kind = 2 \<and> len = 4 then
            (let cur = int (unat (u16_of (opts ! (i + 2)) (opts ! (i + 3)))) in
             if maxMSS < cur then Some (splice opts (i + 2) (be16 (of_int maxMSS))) else None)
          else clamp_opts (i + len) opts maxMSS)"
  by pat_completeness auto
termination
  by (relation "measure (\<lambda>(i, opts, maxMSS). length opts - i)") auto

declare clamp_opts.simps [simp del]

definition clampTCP :: "bytes \<Rightarrow> int \<Rightarrow> bool \<times> bytes" where
  "clampTCP tcp maxMSS =
     (if length tcp < 20 then (False, tcp)
      else if (tcp ! 13) AND 0x02 = 0 then (False, tcp)
      else let dataOffset = unat (drop_bit 4 (tcp ! 12)) * 4 in
        if dataOffset < 20 \<or> length tcp < dataOffset then (False, tcp)
        else case clamp_opts 0 (slice tcp 20 dataOffset) maxMSS of
          None \<Rightarrow> (False, tcp)
        | Some opts' \<Rightarrow> (True, take 20 tcp @ opts' @ drop dataOffset tcp))"

definition pseudo4 :: "bytes \<Rightarrow> nat \<Rightarrow> bytes" where
  "pseudo4 pkt ihl = slice pkt 12 16 @ slice pkt 16 20 @ [0, 6] @ be16 (of_nat (length pkt - ihl))"

definition fixTCPChecksum4 :: "bytes \<Rightarrow> nat \<Rightarrow> bytes" where
  "fixTCPChecksum4 pkt ihl =
     (let tcp = drop ihl pkt;
          tcp0 = splice tcp 16 (be16 0)
      in take ihl pkt @ splice tcp0 16 (be16 (checksumVec (pseudo4 pkt ihl) tcp0)))"

definition pseudo6 :: "bytes \<Rightarrow> bytes" where
  "pseudo6 pkt = slice pkt 8 24 @ slice pkt 24 40 @ be32 (of_nat (length pkt - 40)) @ [0, 0, 0, 6]"

definition fixTCPChecksum6 :: "bytes \<Rightarrow> bytes" where
  "fixTCPChecksum6 pkt =
     (let tcp = drop 40 pkt;
          tcp0 = splice tcp 16 (be16 0)
      in take 40 pkt @ splice tcp0 16 (be16 (checksumVec (pseudo6 pkt) tcp0)))"

definition ip_ihl :: "bytes \<Rightarrow> nat" where
  "ip_ihl pkt = unat ((pkt ! 0) AND 0x0f) * 4"

definition clamp4 :: "bytes \<Rightarrow> int \<Rightarrow> bytes" where
  "clamp4 pkt maxMSS =
     (if length pkt < 20 then pkt
      else let ihl = ip_ihl pkt in
        if ihl < 20 \<or> length pkt < ihl then pkt
        else if pkt ! 9 \<noteq> 6 then pkt
        else case clampTCP (drop ihl pkt) maxMSS of
          (False, _) \<Rightarrow> pkt
        | (True, tcp') \<Rightarrow>
            (let pkt1 = take ihl pkt @ tcp';
                 pkt2 = splice pkt1 10 (be16 0);
                 pkt3 = splice pkt2 10 (be16 (checksum (take ihl pkt2)))
             in fixTCPChecksum4 pkt3 ihl))"

definition clamp6 :: "bytes \<Rightarrow> int \<Rightarrow> bytes" where
  "clamp6 pkt maxMSS =
     (if length pkt < 40 then pkt
      else if pkt ! 6 \<noteq> 6 then pkt
      else case clampTCP (drop 40 pkt) maxMSS of
        (False, _) \<Rightarrow> pkt
      | (True, tcp') \<Rightarrow> fixTCPChecksum6 (take 40 pkt @ tcp'))"

definition Clamp :: "bytes \<Rightarrow> int \<Rightarrow> bytes" where
  "Clamp pkt maxMSS =
     (if maxMSS \<le> 0 \<or> length pkt < 20 then pkt
      else if drop_bit 4 (pkt ! 0) = 4 then clamp4 pkt maxMSS
      else if drop_bit 4 (pkt ! 0) = 6 then clamp6 pkt maxMSS
      else pkt)"

definition ClampToMTU :: "bytes \<Rightarrow> int \<Rightarrow> bytes" where
  "ClampToMTU pkt mtu =
     (if mtu \<le> 0 \<or> length pkt = 0 then pkt
      else if drop_bit 4 (pkt ! 0) = 4 then Clamp pkt (mtu - 20 - 20)
      else if drop_bit 4 (pkt ! 0) = 6 then Clamp pkt (mtu - 40 - 20)
      else pkt)"

subsection \<open>One's complement sums\<close>

text \<open>The sum of the 16-bit words of a buffer, as a number.\<close>

fun sum16 :: "bytes \<Rightarrow> nat" where
  "sum16 (a # b # r) = unat (u16_of a b) + sum16 r"
| "sum16 [a] = 256 * unat a"
| "sum16 [] = 0"

lemma sum16_le: "sum16 b \<le> 65535 * ((length b + 1) div 2)"
proof (induction b rule: sum16.induct)
  case (1 a b r)
  then show ?case using unat_u16 [of "u16_of a b"] by (simp del: unat_u16)
next
  case (2 a)
  then show ?case using unat_byte [of a] by (simp del: unat_byte)
qed simp

lemma unat_add_words:
  "unat s + sum16 b < 2 ^ 32 \<Longrightarrow> unat (add_words s b) = unat s + sum16 b"
proof (induction s b rule: add_words.induct)
  case (1 s a b r)
  have "unat (s + ucast (u16_of a b)) = unat s + unat (u16_of a b)"
    using "1.prems" by (simp add: unat_word_ariths unsigned_ucast_eq take_bit_nat_eq_self)
  then show ?case using 1 by simp
next
  case (2 s a)
  have "unat (push_bit 8 (ucast a) :: u32) = 256 * unat a"
    using unat_byte [of a]
    by (simp add: push_bit_eq_mult unat_word_ariths unsigned_ucast_eq take_bit_nat_eq_self del: unat_byte)
  then show ?case using 2 by (simp add: unat_word_ariths)
qed simp

lemma carry_mod: "(n mod 65536 + n div 65536) mod 65535 = n mod (65535 :: nat)"
proof -
  have "n = (n mod 65536 + n div 65536) + 65535 * (n div 65536)"
    using mult_div_mod_eq [of 65536 n] by linarith
  then show ?thesis by (metis mod_mult_self2)
qed

lemma fold_carry_spec:
  "unat (fold_carry s) < 65536 \<and> unat (fold_carry s) mod 65535 = unat s mod 65535 \<and>
   (unat (fold_carry s) = 0 \<longleftrightarrow> s = 0)"
proof (induction s rule: fold_carry.induct)
  case (1 s)
  show ?case
  proof (cases "drop_bit 16 s = 0")
    case True
    then have "unat s div 65536 = 0" using unat_high16 [of s] by (metis unat_0)
    then show ?thesis using True by (simp add: fold_carry.simps [of s] unat_eq_zero)
  next
    case False
    let ?t = "(s AND 0xffff) + drop_bit 16 s"
    have nz: "unat s div 65536 \<noteq> 0" using False unat_high16 [of s] by (metis unat_eq_zero)
    then have "?t \<noteq> 0" "s \<noteq> 0" using unat_carry [of s] by (auto simp del: unat_inject)
    then show ?thesis
      using 1 [OF False] False unat_carry [of s] carry_mod [of "unat s"]
      by (simp add: fold_carry.simps [of s])
  qed
qed

lemma unat_NOT_u16: "unat (NOT w :: u16) = 65535 - unat w"
proof -
  have "w \<le> 0xFFFF" using unat_u16 [of w] by (simp add: word_le_nat_alt del: unat_u16)
  then have "unat (0xFFFF - w) = 65535 - unat w" by (simp add: unat_sub)
  moreover have "NOT w = 0xFFFF - w" by (simp add: not_eq_complement)
  ultimately show ?thesis by simp
qed

lemma complement_mod:
  assumes "r < 65536" "r mod 65535 = S mod (65535 :: nat)"
  shows "(S + (65535 - r)) mod 65535 = 0"
proof -
  have "(S + (65535 - r)) mod 65535 = (r + (65535 - r)) mod 65535"
    using assms(2) by (metis mod_add_left_eq)
  then show ?thesis using assms(1) by simp
qed

text \<open>Adding the complement of the folded sum makes the folded sum all ones.\<close>

lemma fold_carry_complement:
  assumes "unat s + 65535 < 2 ^ 32"
  shows "NOT (ucast (fold_carry (s + ucast (NOT (ucast (fold_carry s) :: u16)))) :: u16) = 0"
proof -
  define r where "r = unat (fold_carry s)"
  note fs = fold_carry_spec [of s, folded r_def]
  define c :: u16 where "c = NOT (ucast (fold_carry s))"
  have "unat (ucast (fold_carry s) :: u16) = r"
    using fs by (simp add: unsigned_ucast_eq take_bit_nat_eq_self r_def)
  then have c: "unat c = 65535 - r" by (simp add: c_def unat_NOT_u16)
  have uc: "unat (ucast c :: u32) = 65535 - r" using c by (simp add: unsigned_ucast_eq take_bit_nat_eq_self)
  have t: "unat (s + ucast c) = unat s + (65535 - r)" using uc assms by (simp add: unat_word_ariths)
  have "0 < unat s + (65535 - r)"
  proof (cases "s = 0")
    case False
    then have "0 < unat s" by (simp add: unat_gt_0)
    then show ?thesis by linarith
  qed (use fs in simp)
  then have "s + ucast c \<noteq> 0" using t by (metis less_irrefl unat_0)
  then have f: "unat (fold_carry (s + ucast c)) mod 65535 = 0" "unat (fold_carry (s + ucast c)) \<noteq> 0"
      "unat (fold_carry (s + ucast c)) < 65536"
    using fold_carry_spec [of "s + ucast c"] complement_mod [of r "unat s"] fs t by simp_all
  then have "65535 dvd unat (fold_carry (s + ucast c))" by (simp add: dvd_eq_mod_eq_0)
  then obtain k where "unat (fold_carry (s + ucast c)) = 65535 * k" ..
  then have "unat (fold_carry (s + ucast c)) = 65535" using f by (cases k; cases "k - 1") auto
  then have "unat (ucast (fold_carry (s + ucast c)) :: u16) = 65535"
    by (simp add: unsigned_ucast_eq take_bit_nat_eq_self)
  then have "unat (NOT (ucast (fold_carry (s + ucast c)) :: u16)) = 0" by (simp add: unat_NOT_u16)
  then show ?thesis unfolding c_def by (simp only: unat_eq_zero)
qed

lemma add_words_shift: "add_words (s + t) b = s + add_words t b"
  by (induction b arbitrary: t rule: sum16.induct) (simp_all add: add.assoc)

lemma add_words_append: "even (length xs) \<Longrightarrow> add_words s (xs @ ys) = add_words (add_words s xs) ys"
  by (induction s xs rule: add_words.induct) simp_all

lemma add_words_be16: "add_words s (be16 c @ ys) = add_words s ys + ucast c"
proof -
  have "add_words s (be16 c @ ys) = add_words (s + ucast c) ys" by (simp add: be16_def)
  also have "\<dots> = add_words s ys + ucast c"
    using add_words_shift [of "ucast c" s ys] by (simp add: add.commute)
  finally show ?thesis .
qed

lemma add_words_splice:
  assumes "even i" "i + 2 \<le> length b"
  shows "add_words s (splice b i (be16 c)) = add_words s (splice b i (be16 0)) + ucast c"
proof -
  have ev: "even (length (take i b))" using assms by simp
  show ?thesis
    by (simp add: splice_def add_words_append [OF ev] add_words_be16)
qed

lemma splice_splice: "length ys = length zs \<Longrightarrow> i + length ys \<le> length b \<Longrightarrow>
    splice (splice b i ys) i zs = splice b i zs"
  by (simp add: splice_def)

lemma checksumVec_fixed:
  assumes "even i" "i + 2 \<le> length b" "sum16 a + sum16 (splice b i (be16 0)) + 65535 < 2 ^ 32" "even (length a)"
  defines "b0 \<equiv> splice b i (be16 0)"
  shows "checksumVec a (splice b0 i (be16 (checksumVec a b0))) = 0"
proof -
  have eq: "splice b0 i (be16 (checksumVec a b0)) = splice b i (be16 (checksumVec a b0))"
    using assms(2) by (simp add: b0_def splice_splice be16_def)
  define s where "s = add_words (add_words 0 a) b0"
  have "unat (add_words 0 a) = sum16 a" using unat_add_words [of 0 a] assms(3) by simp
  then have "unat s = sum16 a + sum16 b0" using unat_add_words [of "add_words 0 a" b0] assms(3)
    by (simp add: s_def b0_def)
  then have "unat s + 65535 < 2 ^ 32" using assms(3) by (simp add: b0_def)
  note fc = fold_carry_complement [OF this]
  have "add_words (add_words 0 a) (splice b i (be16 (checksumVec a b0))) = s + ucast (checksumVec a b0)"
    unfolding s_def b0_def by (rule add_words_splice [OF assms(1,2)])
  then show ?thesis unfolding eq using fc by (simp only: checksumVec_def s_def)
qed

lemma checksum_eq_Vec: "checksum b = checksumVec [] b"
  by (simp add: checksum_def checksumVec_def)

subsection \<open>The MSS a packet announces\<close>

text \<open>The value of the first MSS option of length four, found by walking the options from \<open>i\<close>.\<close>

function mss_option :: "nat \<Rightarrow> bytes \<Rightarrow> u16 option" where
  "mss_option i opts =
     (if length opts \<le> i \<or> opts ! i = 0 then None
      else if opts ! i = 1 then mss_option (i + 1) opts
      else if length opts \<le> i + 1 \<or> unat (opts ! (i + 1)) < 2 \<or> length opts < i + unat (opts ! (i + 1)) then None
      else if opts ! i = 2 \<and> unat (opts ! (i + 1)) = 4 then Some (u16_of (opts ! (i + 2)) (opts ! (i + 3)))
      else mss_option (i + unat (opts ! (i + 1))) opts)"
  by pat_completeness auto
termination
  by (relation "measure (\<lambda>(i, opts). length opts - i)") auto

declare mss_option.simps [simp del]

definition low_mss :: "int \<Rightarrow> u16 \<Rightarrow> u16" where
  "low_mss m v = (if m < int (unat v) then of_int m else v)"

lemma nth_splice_before: "j < i \<Longrightarrow> i \<le> length b \<Longrightarrow> splice b i ys ! j = b ! j"
  by (simp add: splice_def nth_append)

lemma nth_splice_be16:
  assumes "i + 2 \<le> length b"
  shows "u16_of (splice b i (be16 c) ! i) (splice b i (be16 c) ! (i + 1)) = c"
  using assms by (simp add: splice_def nth_append be16_def)

lemma clamp_opts_Some:
  assumes "clamp_opts i opts m = Some opts'"
  shows "\<exists>k v. i \<le> k \<and> k + 4 \<le> length opts \<and> opts' = splice opts (k + 2) (be16 (of_int m)) \<and>
           mss_option i opts = Some v \<and> m < int (unat v) \<and> mss_option i opts' = Some (of_int m)"
  using assms
proof (induction i opts m rule: clamp_opts.induct)
  case (1 i opts m)
  have len: "\<not> length opts \<le> i" and k0: "opts ! i \<noteq> 0"
    using "1.prems" by (auto simp: clamp_opts.simps [of i opts m] Let_def split: if_splits)
  show ?case
  proof (cases "opts ! i = 1")
    case True
    then have rec: "clamp_opts (i + 1) opts m = Some opts'"
      using "1.prems" len by (simp add: clamp_opts.simps [of i opts m] Let_def)
    then obtain k v where k: "i + 1 \<le> k" "k + 4 \<le> length opts" "opts' = splice opts (k + 2) (be16 (of_int m))"
        "mss_option (i + 1) opts = Some v" "m < int (unat v)" "mss_option (i + 1) opts' = Some (of_int m)"
      using "1.IH"(1) [OF len refl k0 True] by blast
    have "opts' ! i = opts ! i" "length opts' = length opts"
      using k by (auto simp: nth_splice_before be16_def)
    then have "mss_option i opts' = Some (of_int m)" "mss_option i opts = Some v"
      using k(4,6) len k0 True by (simp_all add: mss_option.simps [of i opts] mss_option.simps [of i opts'])
    then show ?thesis using k by (intro exI [of _ k] exI [of _ v]) simp
  next
    case False
    let ?n = "unat (opts ! (i + 1))"
    have ok: "\<not> length opts \<le> i + 1" "\<not> (?n < 2 \<or> length opts < i + ?n)"
      using "1.prems" len k0 False by (auto simp: clamp_opts.simps [of i opts m] Let_def split: if_splits)
    show ?thesis
    proof (cases "opts ! i = 2 \<and> ?n = 4")
      case True
      let ?v = "u16_of (opts ! (i + 2)) (opts ! (i + 3))"
      have lt: "m < int (unat ?v)" and o: "opts' = splice opts (i + 2) (be16 (of_int m))"
        using "1.prems" len k0 False ok True
        by (auto simp: clamp_opts.simps [of i opts m] Let_def split: if_splits)
      have "opts' ! i = opts ! i" "opts' ! (i + 1) = opts ! (i + 1)" "length opts' = length opts"
        "u16_of (opts' ! (i + 2)) (opts' ! (i + 3)) = of_int m"
        using ok True nth_splice_be16 [of "i + 2" opts "of_int m"]
        by (auto simp: o nth_splice_before be16_def numeral_3_eq_3)
      then have "mss_option i opts' = Some (of_int m)" "mss_option i opts = Some ?v"
        using len k0 False ok True by (simp_all add: mss_option.simps [of i opts] mss_option.simps [of i opts'])
      then show ?thesis using ok True lt o by (intro exI [of _ i] exI [of _ ?v]) auto
    next
      case other: False
      then have rec: "clamp_opts (i + ?n) opts m = Some opts'"
        using "1.prems" len k0 False ok by (simp add: clamp_opts.simps [of i opts m] Let_def split: if_splits)
      then obtain k v where k: "i + ?n \<le> k" "k + 4 \<le> length opts" "opts' = splice opts (k + 2) (be16 (of_int m))"
          "mss_option (i + ?n) opts = Some v" "m < int (unat v)" "mss_option (i + ?n) opts' = Some (of_int m)"
        using "1.IH"(2) [OF len refl k0 False ok(1) refl ok(2) other] by blast
      have "opts' ! i = opts ! i" "opts' ! (i + 1) = opts ! (i + 1)" "length opts' = length opts"
        using k ok by (auto simp: nth_splice_before be16_def)
      then have "mss_option i opts' = Some (of_int m)" "mss_option i opts = Some v"
        using k(4,6) len k0 False ok other
        by (auto simp: mss_option.simps [of i opts] mss_option.simps [of i opts'])
      then show ?thesis using k ok by (intro exI [of _ k] exI [of _ v]) simp
    qed
  qed
qed

lemma clamp_opts_None:
  assumes "clamp_opts i opts m = None"
  shows "map_option (low_mss m) (mss_option i opts) = mss_option i opts"
  using assms
proof (induction i opts m rule: clamp_opts.induct)
  case (1 i opts m)
  then show ?case
    by (auto simp: clamp_opts.simps [of i opts m] mss_option.simps [of i opts] low_mss_def Let_def
        split: if_splits)
qed

definition data_offset :: "bytes \<Rightarrow> nat" where
  "data_offset tcp = unat (drop_bit 4 (tcp ! 12)) * 4"

definition tcp_mss :: "bytes \<Rightarrow> u16 option" where
  "tcp_mss tcp =
     (if length tcp < 20 \<or> (tcp ! 13) AND 0x02 = 0 \<or> data_offset tcp < 20 \<or> length tcp < data_offset tcp
      then None else mss_option 0 (slice tcp 20 (data_offset tcp)))"

lemma tcp_mss_cong:
  assumes "length t = length u" "t ! 12 = u ! 12" "t ! 13 = u ! 13" "drop 20 t = drop 20 u"
  shows "tcp_mss t = tcp_mss u"
  using assms by (simp add: tcp_mss_def data_offset_def slice_def)

lemma clampTCP_cases:
  obtains (same) "clampTCP tcp m = (False, tcp)" "map_option (low_mss m) (tcp_mss tcp) = tcp_mss tcp"
  | (low) tcp' where "clampTCP tcp m = (True, tcp')" "length tcp' = length tcp" "20 \<le> length tcp"
      "take 20 tcp' = take 20 tcp" "drop (data_offset tcp) tcp' = drop (data_offset tcp) tcp"
      "tcp_mss tcp' = map_option (low_mss m) (tcp_mss tcp)"
proof (cases "length tcp < 20 \<or> (tcp ! 13) AND 0x02 = 0 \<or> data_offset tcp < 20 \<or> length tcp < data_offset tcp")
  case True
  then show ?thesis
    by (intro same) (auto simp: clampTCP_def tcp_mss_def data_offset_def Let_def)
next
  case False
  let ?opts = "slice tcp 20 (data_offset tcp)"
  have mss: "tcp_mss tcp = mss_option 0 ?opts" using False by (simp add: tcp_mss_def)
  show ?thesis
  proof (cases "clamp_opts 0 ?opts m")
    case None
    then show ?thesis
      using False clamp_opts_None [OF None] mss by (intro same) (auto simp: clampTCP_def data_offset_def Let_def)
  next
    case (Some opts')
    let ?t = "take 20 tcp @ opts' @ drop (data_offset tcp) tcp"
    obtain k v where o: "k + 4 \<le> length ?opts" "opts' = splice ?opts (k + 2) (be16 (of_int m))"
        "mss_option 0 ?opts = Some v" "m < int (unat v)" "mss_option 0 opts' = Some (of_int m)"
      using clamp_opts_Some [OF Some] by blast
    have "length ?opts = data_offset tcp - 20" using False by auto
    then have lo: "length opts' = data_offset tcp - 20" using o(1,2) by simp
    have len: "length ?t = length tcp" using lo False by simp
    have hd: "?t ! 12 = tcp ! 12" "?t ! 13 = tcp ! 13" using False by (simp_all add: nth_append)
    have off: "data_offset ?t = data_offset tcp" using hd by (simp add: data_offset_def)
    have "slice ?t 20 (data_offset tcp) = opts'" using lo False by (simp add: slice_def)
    then have "tcp_mss ?t = Some (of_int m)"
      using len hd off False o(5) by (simp add: tcp_mss_def)
    moreover have "drop (data_offset tcp) ?t = drop (data_offset tcp) tcp" using lo False by simp
    moreover have "clampTCP tcp m = (True, ?t)"
      using False Some by (auto simp: clampTCP_def data_offset_def Let_def)
    ultimately show ?thesis
      using len False mss o(3,4) by (intro low [of ?t]) (auto simp: low_mss_def)
  qed
qed

text \<open>The TCP segment of a packet, its MSS, and the validity of its checksums.\<close>

definition version :: "bytes \<Rightarrow> byte" where "version pkt = drop_bit 4 (pkt ! 0)"

definition pkt_mss :: "bytes \<Rightarrow> u16 option" where
  "pkt_mss pkt =
     (if length pkt < 20 then None
      else if version pkt = 4 \<and> 20 \<le> ip_ihl pkt \<and> ip_ihl pkt \<le> length pkt \<and> pkt ! 9 = 6
      then tcp_mss (drop (ip_ihl pkt) pkt)
      else if version pkt = 6 \<and> 40 \<le> length pkt \<and> pkt ! 6 = 6 then tcp_mss (drop 40 pkt)
      else None)"

definition checksums_ok :: "bytes \<Rightarrow> bool" where
  "checksums_ok pkt \<longleftrightarrow>
     (if version pkt = 4
      then checksum (take (ip_ihl pkt) pkt) = 0 \<and>
           checksumVec (pseudo4 pkt (ip_ihl pkt)) (drop (ip_ihl pkt) pkt) = 0
      else checksumVec (pseudo6 pkt) (drop 40 pkt) = 0)"

lemma sum16_small: "length b \<le> 65536 \<Longrightarrow> sum16 b \<le> 65535 * 32768"
  using sum16_le [of b] mult_le_mono2 [of "(length b + 1) div 2" 32768 65535] by linarith

lemma splice_append: "i + length ys \<le> length a \<Longrightarrow> splice (a @ b) i ys = splice a i ys @ b"
  by (simp add: splice_def)

lemma nth_splice_after: "i + length ys \<le> j \<Longrightarrow> j < length b \<Longrightarrow> splice b i ys ! j = b ! j"
  by (subst splice_def) (auto simp: nth_append)

lemma drop_splice_after: "i + length ys \<le> j \<Longrightarrow> j \<le> length b \<Longrightarrow> drop j (splice b i ys) = drop j b"
  by (simp add: splice_def)

definition fix16 :: "(bytes \<Rightarrow> u16) \<Rightarrow> nat \<Rightarrow> bytes \<Rightarrow> bytes" where
  "fix16 f i b = splice (splice b i (be16 0)) i (be16 (f (splice b i (be16 0))))"

lemma fix16_props:
  assumes "i + 2 \<le> length b"
  shows "length (fix16 f i b) = length b" "j < i \<Longrightarrow> fix16 f i b ! j = b ! j"
    "i + 2 \<le> j \<Longrightarrow> j < length b \<Longrightarrow> fix16 f i b ! j = b ! j"
    "i + 2 \<le> j \<Longrightarrow> j \<le> length b \<Longrightarrow> drop j (fix16 f i b) = drop j b"
  using assms by (simp_all add: fix16_def nth_splice_before nth_splice_after drop_splice_after)

lemma checksum_fix16:
  assumes "even i" "i + 2 \<le> length b" "length b \<le> 65536" "even (length a)" "length a \<le> 40"
  shows "checksumVec a (fix16 (checksumVec a) i b) = 0"
proof -
  let ?b0 = "splice b i (be16 0)"
  have "(length a + 1) div 2 \<le> 20" using assms(5) by linarith
  then have "sum16 a \<le> 65535 * 20" using sum16_le [of a] mult_le_mono2 [of _ 20 65535] by (meson le_trans)
  moreover have "sum16 ?b0 \<le> 65535 * 32768" using assms(2,3) by (intro sum16_small) simp
  ultimately have "sum16 a + sum16 ?b0 + 65535 < 2 ^ 32" by simp
  from checksumVec_fixed [OF assms(1,2) this assms(4)] show ?thesis by (simp only: fix16_def)
qed

lemma fixTCPChecksum4_eq:
  "fixTCPChecksum4 pkt ihl = take ihl pkt @ fix16 (checksumVec (pseudo4 pkt ihl)) 16 (drop ihl pkt)"
  by (simp add: fixTCPChecksum4_def fix16_def Let_def)

lemma fixTCPChecksum6_eq:
  "fixTCPChecksum6 pkt = take 40 pkt @ fix16 (checksumVec (pseudo6 pkt)) 16 (drop 40 pkt)"
  by (simp add: fixTCPChecksum6_def fix16_def Let_def)

lemma pseudo4_eq: "pseudo4 p n = drop 12 (take 20 p) @ [0, 6] @ be16 (of_nat (length p - n))"
  using take_add [of 4 4 "drop 12 p"] by (simp add: pseudo4_def slice_def drop_take)

lemma pseudo4_cong:
  "length p = length q \<Longrightarrow> drop 12 (take 20 p) = drop 12 (take 20 q) \<Longrightarrow> pseudo4 p n = pseudo4 q n"
  by (simp only: pseudo4_eq)

lemma clamp4_low:
  assumes "ihl = ip_ihl pkt" "20 \<le> ihl" "ihl \<le> length pkt" "pkt ! 9 = 6" "length pkt \<le> 65535"
    and low: "clampTCP (drop ihl pkt) m = (True, tcp')" "length tcp' = length pkt - ihl" "20 \<le> length tcp'"
  shows "\<exists>hdr t. clamp4 pkt m = hdr @ t \<and> length hdr = ihl \<and> length t = length tcp' \<and>
     checksum hdr = 0 \<and> checksumVec (pseudo4 (hdr @ t) ihl) t = 0 \<and>
     (\<forall>j < ihl. j \<noteq> 10 \<longrightarrow> j \<noteq> 11 \<longrightarrow> hdr ! j = pkt ! j) \<and> tcp_mss t = tcp_mss tcp'"
proof -
  define hdr where "hdr = fix16 checksum 10 (take ihl pkt)"
  define t where "t = fix16 (checksumVec (pseudo4 (hdr @ tcp') ihl)) 16 tcp'"
  have i60: "ihl \<le> 60"
  proof -
    have "(pkt ! 0) AND 0x0f \<le> 0x0f" by (rule word_and_le1)
    then have "unat ((pkt ! 0) AND 0x0f) \<le> 15" by (simp add: word_le_nat_alt)
    then show ?thesis by (simp add: assms(1) ip_ihl_def)
  qed
  have lh: "length (take ihl pkt) = ihl" using assms(3) by simp
  have hdr: "length hdr = ihl" "\<And>j. j < 10 \<Longrightarrow> hdr ! j = pkt ! j" "\<And>j. 12 \<le> j \<Longrightarrow> j < ihl \<Longrightarrow> hdr ! j = pkt ! j"
    using fix16_props [where i = 10 and b = "take ihl pkt" and f = checksum] lh assms(2) by (auto simp: hdr_def)
  have t: "length t = length tcp'" "t ! 12 = tcp' ! 12" "t ! 13 = tcp' ! 13" "drop 20 t = drop 20 tcp'"
    using fix16_props [where i = 16 and b = tcp' and f = "checksumVec (pseudo4 (hdr @ tcp') ihl)"] low(3) by (auto simp: t_def)
  have "splice (splice (take ihl pkt @ tcp') 10 (be16 0)) 10
          (be16 (checksum (take ihl (splice (take ihl pkt @ tcp') 10 (be16 0))))) = hdr @ tcp'"
    using lh assms(2) by (simp add: splice_append hdr_def fix16_def)
  then have "clamp4 pkt m = hdr @ t"
    using assms(1-4) low(1) hdr(1)
    by (simp add: clamp4_def Let_def fixTCPChecksum4_eq t_def)
  moreover have "checksum hdr = 0"
    using checksum_fix16 [of 10 "take ihl pkt" "[]"] lh assms(2) i60
    by (simp add: hdr_def checksum_eq_Vec [abs_def] fix16_def)
  moreover have "pseudo4 (hdr @ t) ihl = pseudo4 (hdr @ tcp') ihl"
    using t(1) hdr(1) assms(2) by (intro pseudo4_cong) simp_all
  moreover have "checksumVec (pseudo4 (hdr @ tcp') ihl) t = 0"
    unfolding t_def using low(2,3) assms(2,5) hdr(1)
    by (intro checksum_fix16) (auto simp: pseudo4_def)
  moreover have "hdr ! j = pkt ! j" if "j < ihl" "j \<noteq> 10" "j \<noteq> 11" for j
    using that hdr(2) [of j] hdr(3) [of j] by linarith
  moreover have "tcp_mss t = tcp_mss tcp'" using t by (intro tcp_mss_cong)
  ultimately show ?thesis using hdr(1) t(1) by (intro exI [of _ hdr] exI [of _ t]) simp
qed

lemma clamp6_low:
  assumes "40 \<le> length pkt" "pkt ! 6 = 6" "length pkt \<le> 65535"
    and low: "clampTCP (drop 40 pkt) m = (True, tcp')" "length tcp' = length pkt - 40" "20 \<le> length tcp'"
  shows "\<exists>t. clamp6 pkt m = take 40 pkt @ t \<and> length t = length tcp' \<and>
     checksumVec (pseudo6 (take 40 pkt @ t)) t = 0 \<and> tcp_mss t = tcp_mss tcp'"
proof -
  define t where "t = fix16 (checksumVec (pseudo6 (take 40 pkt @ tcp'))) 16 tcp'"
  have t: "length t = length tcp'" "t ! 12 = tcp' ! 12" "t ! 13 = tcp' ! 13" "drop 20 t = drop 20 tcp'"
    using fix16_props [where i = 16 and b = tcp' and f = "checksumVec (pseudo6 (take 40 pkt @ tcp'))"] low(3)
    by (auto simp: t_def)
  have "clamp6 pkt m = take 40 pkt @ t"
    using assms(1,2) low(1) by (simp add: clamp6_def fixTCPChecksum6_eq t_def)
  moreover have "pseudo6 (take 40 pkt @ t) = pseudo6 (take 40 pkt @ tcp')"
    using t(1) assms(1) by (simp add: pseudo6_def slice_def)
  moreover have "checksumVec (pseudo6 (take 40 pkt @ tcp')) t = 0"
    unfolding t_def using low(2,3) assms(1,3)
    by (intro checksum_fix16) (auto simp: pseudo6_def)
  moreover have "tcp_mss t = tcp_mss tcp'" using t by (intro tcp_mss_cong)
  ultimately show ?thesis using t(1) by (intro exI [of _ t]) simp
qed

text \<open>What clamping does to a packet: nothing, or it lowers the MSS and repairs the checksums.\<close>

definition clamped :: "int \<Rightarrow> bytes \<Rightarrow> bytes \<Rightarrow> bool" where
  "clamped m pkt pkt' \<longleftrightarrow> length pkt' = length pkt \<and>
     pkt_mss pkt' = map_option (low_mss m) (pkt_mss pkt) \<and> (pkt' \<noteq> pkt \<longrightarrow> checksums_ok pkt')"

lemma version_hdr: "pkt' ! 0 = pkt ! 0 \<Longrightarrow> version pkt' = version pkt \<and> ip_ihl pkt' = ip_ihl pkt"
  by (simp add: version_def ip_ihl_def)

lemma clamped_same: "map_option (low_mss m) (pkt_mss pkt) = pkt_mss pkt \<Longrightarrow> clamped m pkt pkt"
  by (simp add: clamped_def)

lemma clamp4_clamped:
  assumes "version pkt = 4" "20 \<le> length pkt" "length pkt \<le> 65535"
  shows "clamped m pkt (clamp4 pkt m)"
proof (cases "ip_ihl pkt < 20 \<or> length pkt < ip_ihl pkt \<or> pkt ! 9 \<noteq> 6")
  case True
  then have "clamp4 pkt m = pkt" "pkt_mss pkt = None"
    using assms by (auto simp: clamp4_def pkt_mss_def Let_def)
  then show ?thesis by (simp add: clamped_def)
next
  case False
  let ?ihl = "ip_ihl pkt"
  have mss: "pkt_mss pkt = tcp_mss (drop ?ihl pkt)" using False assms by (simp add: pkt_mss_def)
  show ?thesis
  proof (cases rule: clampTCP_cases [of "drop ?ihl pkt" m])
    case same
    then have "clamp4 pkt m = pkt" using False assms by (simp add: clamp4_def Let_def)
    then show ?thesis using same mss by (simp add: clamped_same)
  next
    case (low tcp')
    obtain hdr t where r: "clamp4 pkt m = hdr @ t" "length hdr = ?ihl" "length t = length tcp'"
      "checksum hdr = 0" "checksumVec (pseudo4 (hdr @ t) ?ihl) t = 0"
      "\<forall>j < ?ihl. j \<noteq> 10 \<longrightarrow> j \<noteq> 11 \<longrightarrow> hdr ! j = pkt ! j" "tcp_mss t = tcp_mss tcp'"
      using clamp4_low [OF refl _ _ _ assms(3) low(1), of] False low(2,3) by auto
    have len: "length (hdr @ t) = length pkt" using r low(2) False by simp
    have b: "(hdr @ t) ! 0 = pkt ! 0" "(hdr @ t) ! 9 = pkt ! 9" using r(2,6) False by (auto simp: nth_append)
    note v = version_hdr [OF b(1)]
    have "pkt_mss (hdr @ t) = tcp_mss t" using len b v r(2) False assms by (simp add: pkt_mss_def)
    moreover have "checksums_ok (hdr @ t)" using v r assms(1) by (simp add: checksums_ok_def)
    ultimately show ?thesis using r(1,7) len low(6) mss by (simp add: clamped_def)
  qed
qed

lemma clamp6_clamped:
  assumes "version pkt = 6" "20 \<le> length pkt" "length pkt \<le> 65535"
  shows "clamped m pkt (clamp6 pkt m)"
proof (cases "length pkt < 40 \<or> pkt ! 6 \<noteq> 6")
  case True
  then have "clamp6 pkt m = pkt" "pkt_mss pkt = None"
    using assms by (auto simp: clamp6_def pkt_mss_def)
  then show ?thesis by (simp add: clamped_def)
next
  case False
  have mss: "pkt_mss pkt = tcp_mss (drop 40 pkt)" using False assms by (simp add: pkt_mss_def)
  show ?thesis
  proof (cases rule: clampTCP_cases [of "drop 40 pkt" m])
    case same
    then have "clamp6 pkt m = pkt" using False by (simp add: clamp6_def)
    then show ?thesis using same mss by (simp add: clamped_same)
  next
    case (low tcp')
    obtain t where r: "clamp6 pkt m = take 40 pkt @ t" "length t = length tcp'"
      "checksumVec (pseudo6 (take 40 pkt @ t)) t = 0" "tcp_mss t = tcp_mss tcp'"
      using clamp6_low [OF _ _ assms(3) low(1)] False low(2,3) by auto
    have len: "length (take 40 pkt @ t) = length pkt" using r low(2) False by simp
    have b: "(take 40 pkt @ t) ! 0 = pkt ! 0" "(take 40 pkt @ t) ! 6 = pkt ! 6"
      using False by (auto simp: nth_append)
    note v = version_hdr [OF b(1)]
    have "pkt_mss (take 40 pkt @ t) = tcp_mss t" using len b v False assms by (simp add: pkt_mss_def)
    moreover have "checksums_ok (take 40 pkt @ t)" using v r assms(1) False by (simp add: checksums_ok_def)
    ultimately show ?thesis using r(1,4) len low(6) mss by (simp add: clamped_def)
  qed
qed

lemma Clamp_clamped:
  assumes "0 < m" "length pkt \<le> 65535"
  shows "clamped m pkt (Clamp pkt m)"
proof -
  consider "length pkt < 20 \<or> version pkt \<noteq> 4 \<and> version pkt \<noteq> 6"
    | "20 \<le> length pkt" "version pkt = 4" | "20 \<le> length pkt" "version pkt = 6" by linarith
  then show ?thesis
  proof cases
    case 1
    then have "Clamp pkt m = pkt" "pkt_mss pkt = None"
      by (auto simp: Clamp_def version_def [symmetric] pkt_mss_def)
    then show ?thesis by (simp add: clamped_def)
  next
    case 2
    then have "Clamp pkt m = clamp4 pkt m" using assms by (simp add: Clamp_def version_def)
    then show ?thesis using clamp4_clamped [OF 2(2,1) assms(2)] by simp
  next
    case 3
    then have "Clamp pkt m = clamp6 pkt m" using assms by (simp add: Clamp_def version_def)
    then show ?thesis using clamp6_clamped [OF 3(2,1) assms(2)] by simp
  qed
qed

text \<open>After \<open>ClampToMTU\<close> with an MTU above the headers, a TCP SYN announces at most the MTU less
  the 40 bytes of the IPv4 and TCP headers, or the 60 bytes of the IPv6 and TCP headers.\<close>

lemma mtu_clamp:
  assumes "60 < mtu" "length pkt \<le> 65535" "pkt_mss (ClampToMTU pkt mtu) = Some v"
  shows "int (unat v) \<le> (if version pkt = 4 then mtu - 40 else mtu - 60)"
proof -
  let ?m = "if version pkt = 4 then mtu - 40 else mtu - 60"
  have m0: "0 < ?m" using assms(1) by simp
  have low: "int (unat (low_mss m w)) \<le> m" if "0 < m" for m w
  proof (cases "m < int (unat w)")
    case True
    then have "m < 65536" using unat_u16 [of w] by linarith
    then show ?thesis using that True by (simp add: low_mss_def unsigned_of_int take_bit_int_eq_self)
  qed (simp add: low_mss_def)
  have "pkt \<noteq> []" using assms by (auto simp: ClampToMTU_def pkt_mss_def)
  moreover have "mtu - 20 - 20 = mtu - 40" "mtu - 40 - 20 = mtu - 60" by simp_all
  ultimately consider "version pkt = 4 \<or> version pkt = 6" "ClampToMTU pkt mtu = Clamp pkt ?m"
    | "version pkt \<noteq> 4" "version pkt \<noteq> 6" "ClampToMTU pkt mtu = pkt"
    using assms(1) unfolding ClampToMTU_def version_def by (smt (verit) length_0_conv)
  then show ?thesis
  proof cases
    case 1
    then have "map_option (low_mss ?m) (pkt_mss pkt) = Some v"
      using Clamp_clamped [OF m0 assms(2)] assms(3) by (simp only: clamped_def)
    then obtain w where "v = low_mss ?m w" by blast
    then show ?thesis using low [OF m0, of w] by simp
  next
    case 2
    then show ?thesis using assms(3) by (simp add: pkt_mss_def split: if_splits)
  qed
qed

subsection \<open>Properties\<close>


text \<open>A SYN from 10.0.0.1 to 10.0.0.2 with an MSS of 1460.\<close>

definition syn_packet :: bytes where
  "syn_packet =
     [0x45, 0, 0, 44, 0, 0, 0x40, 0, 64, 6, 0, 0, 10, 0, 0, 1, 10, 0, 0, 2,
      0x30, 0x39, 0, 80, 0, 0, 0, 1, 0, 0, 0, 0, 0x60, 2, 0xff, 0xff, 0, 0, 0, 0,
      2, 4, 5, 0xb4]"

lemma syn_packet_mss: "pkt_mss syn_packet = Some 1460"
  by (simp add: syn_packet_def pkt_mss_def version_def ip_ihl_def tcp_mss_def data_offset_def slice_def
      mss_option.simps u16_of_def)


end
