(* ===== verification/Control_Packets.thy ===== *)
theory Control_Packets
  imports Framing
begin

section \<open>Control packets: builders and parsers of the client\<close>

text \<open>
  Models the packet builders and the two parsers of \<^verbatim>\<open>client.go\<close>.  A session id is a Go array of eight
  bytes; here it is a list, and the lemmas assume its length.  A slice that is nil and one that is empty are
  not told apart, as the code does not.
\<close>

definition buildHardReset :: "bytes \<Rightarrow> bytes" where
  "buildHardReset clientSID =
     [push_bit 3 P_CONTROL_HARD_RESET_CLIENT_V2] @ clientSID @ [0] @ [0, 0, 0, 0]"

definition buildControlV1WithKeyID :: "bytes \<Rightarrow> bytes \<Rightarrow> byte \<Rightarrow> u32 \<Rightarrow> u32 list \<Rightarrow> bytes \<Rightarrow> bytes" where
  "buildControlV1WithKeyID senderSID remoteSID keyID packetID ackIDs payload =
     [FirstByte P_CONTROL_V1 keyID] @ senderSID @
     (if 0 < length ackIDs
      then [of_nat (length ackIDs)] @ concat (map be32 ackIDs) @ remoteSID
      else [0]) @
     be32 packetID @ payload"

definition buildControlV1 :: "bytes \<Rightarrow> bytes \<Rightarrow> u32 \<Rightarrow> u32 list \<Rightarrow> bytes \<Rightarrow> bytes" where
  "buildControlV1 senderSID remoteSID packetID ackIDs payload =
     buildControlV1WithKeyID senderSID remoteSID 0 packetID ackIDs payload"

definition buildSoftReset :: "bytes \<Rightarrow> byte \<Rightarrow> bytes" where
  "buildSoftReset clientSID keyID =
     [FirstByte P_CONTROL_SOFT_RESET_V1 keyID] @ clientSID @ [0] @ [0, 0, 0, 0]"

definition buildAck :: "bytes \<Rightarrow> bytes \<Rightarrow> byte \<Rightarrow> u32 list \<Rightarrow> bytes" where
  "buildAck senderSID remoteSID keyID ackIDs =
     [FirstByte P_ACK_V1 keyID] @ senderSID @ [of_nat (length ackIDs)] @ concat (map be32 ackIDs) @ remoteSID"

text \<open>\<open>None\<close> would be an out-of-range slice; the property below shows that it does not occur.\<close>

definition parseControlV1Payload :: "bytes \<Rightarrow> (bytes \<times> u32) option" where
  "parseControlV1Payload pkt =
     (if length pkt < 10 then Some ([], 0)
      else let ackLen = unat (pkt ! 9);
               off = 10 + (if 0 < ackLen then ackLen * 4 + 8 else 0)
           in if length pkt < off + 4 then Some ([], 0)
              else case Uint32 (drop off pkt) of
                None \<Rightarrow> None
              | Some packetID \<Rightarrow> Some (drop (off + 4) pkt, packetID))"

definition parseControlV1AckIDs :: "bytes \<Rightarrow> u32 list option" where
  "parseControlV1AckIDs pkt =
     (if length pkt < 10 then Some []
      else let ackLen = unat (pkt ! 9); off = 10
           in if ackLen = 0 \<or> length pkt < off + ackLen * 4 then Some []
              else read_acks pkt off ackLen)"

subsection \<open>Lemmas\<close>

lemma parseControlV1Payload_total: "\<exists>r. parseControlV1Payload pkt = Some r"
proof -
  have "\<exists>w. Uint32 (drop off pkt) = Some w" if "\<not> length pkt < off + 4" for off
    using that Uint32_None_iff [of "drop off pkt"] by (cases "Uint32 (drop off pkt)") auto
  then show ?thesis
    by (auto simp: parseControlV1Payload_def Let_def split: option.split)
qed

lemma parseControlV1AckIDs_total: "\<exists>r. parseControlV1AckIDs pkt = Some r"
  using read_acks_total [of 10 "unat (pkt ! 9)" pkt]
  by (auto simp: parseControlV1AckIDs_def Let_def not_less)

lemma nth_9_after_sid: "length sid = 8 \<Longrightarrow> (sid @ c # rest) ! 8 = c"
  by (simp add: nth_append)

lemma drop_10_after_sid: "length sid = 8 \<Longrightarrow> drop (10 + k) (b # sid @ c # rest) = drop k rest"
  by (simp add: drop_Cons')

lemma unat_byte_of_nat: "n < 256 \<Longrightarrow> unat (of_nat n :: byte) = n"
  by (simp add: unat_of_nat take_bit_nat_eq_self)

lemma length_concat_be32 [simp]: "length (concat (map be32 ids)) = 4 * length ids"
  by (induction ids) simp_all

lemma read_acks_after_sid:
  assumes "length sid = 8"
  shows "read_acks (b # sid @ c # concat (map be32 ids) @ post) 10 (length ids) = Some ids"
  using read_acks_concat [of "b # sid @ [c]" ids post] assms by simp

text \<open>Both parsers, and \<open>ParseControl\<close>, on a packet in the layout of the builders: with a non-empty
  acknowledgement array the peer's session id follows it.\<close>

lemma parse_with_acks:
  assumes "length sid = 8" "length rsid = 8" "0 < length ids" "length ids < 256"
    and raw_def: "raw = b # sid @ of_nat (length ids) # concat (map be32 ids) @ rsid @ be32 pid @ payload"
  shows "parseControlV1Payload raw = Some (payload, pid)" "parseControlV1AckIDs raw = Some ids"
proof -
  have n: "unat (raw ! 9) = length ids"
    using assms(1,4) by (simp add: raw_def nth_9_after_sid unat_byte_of_nat)
  have len: "length raw = 22 + 4 * length ids + length payload" using assms(1,2) by (simp add: raw_def)
  have d: "drop (10 + (length ids * 4 + 8)) raw = be32 pid @ payload"
    unfolding raw_def drop_10_after_sid [OF assms(1)] using assms(2) by (simp add: mult.commute)
  have "drop (10 + (length ids * 4 + 8) + 4) raw = payload"
    using d by (metis append_eq_conv_conj drop_drop add.commute length_be32)
  then show "parseControlV1Payload raw = Some (payload, pid)"
    using n len d assms(3) by (simp add: parseControlV1Payload_def Let_def)
  show "parseControlV1AckIDs raw = Some ids"
    using n len assms(3) read_acks_after_sid [OF assms(1), of b "of_nat (length ids)" ids "rsid @ be32 pid @ payload"]
    by (simp add: parseControlV1AckIDs_def Let_def raw_def)
qed

lemma parse_without_acks:
  assumes "length sid = 8"
    and raw_def: "raw = b # sid @ 0 # be32 pid @ payload"
  shows "parseControlV1Payload raw = Some (payload, pid)" "parseControlV1AckIDs raw = Some []"
proof -
  have n: "unat (raw ! 9) = 0" using assms(1) by (simp add: raw_def nth_9_after_sid)
  have len: "length raw = 14 + length payload" using assms(1) by (simp add: raw_def)
  have d: "drop 10 raw = be32 pid @ payload"
    using drop_10_after_sid [OF assms(1), of 0] by (simp add: raw_def)
  then have "drop 4 (drop 10 raw) = payload" by simp
  then have "drop 14 raw = payload" by simp
  then show "parseControlV1Payload raw = Some (payload, pid)"
    using n len d by (simp add: parseControlV1Payload_def Let_def)
  show "parseControlV1AckIDs raw = Some []" using n len by (simp add: parseControlV1AckIDs_def Let_def)
qed

lemma of_nat_byte_pos: "0 < n \<Longrightarrow> n < 256 \<Longrightarrow> (of_nat n :: byte) \<noteq> 0"
  using unat_byte_of_nat [of n] by (metis less_irrefl unat_0)

text \<open>The two parsers of the client agree with \<open>ParseControl\<close> of the framing package wherever that accepts.\<close>

lemma parsers_agree:
  assumes "ParseControl raw = Inr p" "Opcode p \<noteq> P_ACK_V1"
  shows "parseControlV1Payload raw = Some (Payload p, PacketID p)" "parseControlV1AckIDs raw = Some (AckIDs p)"
proof -
  let ?n = "unat (raw ! 9)"
  let ?off = "if 0 < ?n then 18 + ?n * 4 else 10"
  have len: "\<not> length raw < 10" "\<not> (0 < ?n \<and> length raw < 18 + ?n * 4)" "\<not> length raw < ?off + 4"
    and op: "Opcode p = OpcodeFromByte (raw ! 0)"
    and p: "PacketID p = the (Uint32 (drop ?off raw))" "AckIDs p = the (read_acks raw 10 ?n)"
      "Payload p = drop (?off + 4) raw"
    using assms by (auto simp: ParseControl_cases Let_def split: if_splits)
  obtain w where w: "Uint32 (drop ?off raw) = Some w"
    using len(3) Uint32_None_iff [of "drop ?off raw"] by (cases "Uint32 (drop ?off raw)") (auto split: if_splits)
  obtain ids where ids: "read_acks raw 10 ?n = Some ids"
    using read_acks_total [of 10 ?n raw] len by (auto split: if_splits)
  show "parseControlV1Payload raw = Some (Payload p, PacketID p)"
    using len w p by (auto simp: parseControlV1Payload_def Let_def add.commute split: if_splits)
  show "parseControlV1AckIDs raw = Some (AckIDs p)"
    using len ids p by (auto simp: parseControlV1AckIDs_def Let_def)
qed

lemma length_buildAck: "length sid = 8 \<Longrightarrow> length rsid = 8 \<Longrightarrow> length (buildAck sid rsid k ids) = 18 + 4 * length ids"
  by (simp add: buildAck_def)

lemma ParseControl_buildAck:
  assumes "length sid = 8" "length rsid = 8" "0 < length ids" "length ids < 256"
  shows "\<exists>p. ParseControl (buildAck sid rsid k ids) = Inr p \<and> Opcode p = P_ACK_V1 \<and>
           KeyID p = KeyIDFromByte k \<and> AckIDs p = ids"
proof -
  let ?raw = "buildAck sid rsid k ids"
  have raw: "?raw = FirstByte P_ACK_V1 k # sid @ of_nat (length ids) # concat (map be32 ids) @ rsid"
    by (simp add: buildAck_def)
  have n: "unat (?raw ! 9) = length ids" "?raw ! 0 = FirstByte P_ACK_V1 k"
    using assms(1,4) by (simp_all add: raw nth_9_after_sid unat_byte_of_nat)
  have ids: "read_acks ?raw 10 (length ids) = Some ids"
    unfolding raw by (rule read_acks_after_sid [OF assms(1)])
  show ?thesis
    using n ids assms length_buildAck [OF assms(1,2), of k ids]
    by (simp add: ParseControl_cases Let_def OpcodeFromByte_FirstByte)
qed

subsection \<open>Properties\<close>

text \<open>(control packet round trip).  Every control packet the client builds, with any key id, packet id, payload and
  up to 255 acknowledgements, is parsed back to exactly these by the client's own parsers.\<close>

theorem control_packet_roundtrip:
  assumes "length sid = 8" "length rsid = 8" "length ids < 256"
  shows "parseControlV1Payload (buildControlV1WithKeyID sid rsid k pid ids payload) = Some (payload, pid) \<and>
         parseControlV1AckIDs (buildControlV1WithKeyID sid rsid k pid ids payload) = Some ids \<and>
         OpcodeFromByte (buildControlV1WithKeyID sid rsid k pid ids payload ! 0) = P_CONTROL_V1 \<and>
         KeyIDFromByte (buildControlV1WithKeyID sid rsid k pid ids payload ! 0) = KeyIDFromByte k"
proof (cases "ids = []")
  case True
  then show ?thesis using parse_without_acks [OF assms(1) refl, of "FirstByte P_CONTROL_V1 k" pid payload]
    by (simp add: buildControlV1WithKeyID_def OpcodeFromByte_FirstByte)
next
  case False
  then show ?thesis
    using parse_with_acks [OF assms(1,2) _ assms(3) refl, of "FirstByte P_CONTROL_V1 k" pid payload]
    by (simp add: buildControlV1WithKeyID_def OpcodeFromByte_FirstByte)
qed

theorem control_packet_roundtrip_witness:
  "parseControlV1Payload (buildControlV1WithKeyID (replicate 8 1) (replicate 8 2) 3 7 [5, 6] [9]) = Some ([9], 7)"
  using control_packet_roundtrip [of "replicate 8 1" "replicate 8 2" "[5, 6]" 3 7 "[9]"] by simp

text \<open>(parsers agree).  On every packet that \<open>ParseControl\<close> of the framing package accepts and that is not a pure
  acknowledgement, the two parsers of the client return the same payload, packet id and acknowledged ids; on every
  input whatsoever they stay within the packet.\<close>

theorem control_parsers_agree:
  "(ParseControl raw = Inr p \<and> Opcode p \<noteq> P_ACK_V1 \<longrightarrow>
      parseControlV1Payload raw = Some (Payload p, PacketID p) \<and> parseControlV1AckIDs raw = Some (AckIDs p)) \<and>
   parseControlV1Payload raw \<noteq> None \<and> parseControlV1AckIDs raw \<noteq> None"
  using parsers_agree parseControlV1Payload_total [of raw] parseControlV1AckIDs_total [of raw] by auto

theorem control_parsers_agree_witness:
  "parseControlV1Payload [0x20, 1, 1, 1, 1, 1, 1, 1, 1, 0, 0, 0, 0, 4, 8, 9] = Some ([8, 9], 4)"
proof -
  let ?p = "\<lparr>Opcode = 4, KeyID = 0, PeerID = 0, PacketID = 4, AckIDs = [], Payload = [8, 9]\<rparr>"
  have "ParseControl [0x20, 1, 1, 1, 1, 1, 1, 1, 1, 0, 0, 0, 0, 4, 8, 9] = Inr ?p" by code_simp
  moreover have "Opcode ?p \<noteq> P_ACK_V1" by (simp add: P_ACK_V1_def)
  ultimately show ?thesis
    using control_parsers_agree [of "[0x20, 1, 1, 1, 1, 1, 1, 1, 1, 0, 0, 0, 0, 4, 8, 9]" ?p] by simp
qed

end
