(* ===== verification/Ctls.thy ===== *)
theory Ctls
  imports VPN_Prelude
begin

section \<open>The control transport\<close>

text \<open>
  Models \<^verbatim>\<open>internal/ctls/ctls.go\<close>: the \<open>net.Conn\<close> over two Go channels that \<^verbatim>\<open>crypto/tls\<close> runs on.  A channel is
  its buffered chunks, its capacity and whether it is closed.  An operation either returns, or blocks in the
  state it leaves, or panics (a send on a closed channel).  The deadlines are optional points in time (the
  zero \<^verbatim>\<open>time.Time\<close> is \<open>None\<close>); \<open>now\<close> is the clock at the call.  A call that waits with a deadline and is not
  served returns the timeout error.
\<close>

record chan =
  ch_buf :: "bytes list"
  ch_cap :: nat
  ch_closed :: bool

record ControlTransport =
  inbound :: chan
  outbound :: chan
  closedCh :: bool
  ct_closed :: bool
  closeOnce :: bool
  readBuf :: bytes
  readDeadline :: "int option"
  writeDeadline :: "int option"

datatype ctls_error = TransportClosed | DeadlineExceeded | EOF

datatype 'a outcome = Returns "(ctls_error, 'a) result" | Blocks | Panics

definition NewControlTransport :: "int \<Rightarrow> ControlTransport" where
  "NewControlTransport bufSize =
     (let n = (if bufSize \<le> 0 then 64 else nat bufSize)
      in \<lparr>inbound = \<lparr>ch_buf = [], ch_cap = n, ch_closed = False\<rparr>,
          outbound = \<lparr>ch_buf = [], ch_cap = n, ch_closed = False\<rparr>,
          closedCh = False, ct_closed = False, closeOnce = False, readBuf = [],
          readDeadline = None, writeDeadline = None\<rparr>)"

definition chan_send :: "bytes \<Rightarrow> chan \<Rightarrow> chan option outcome" where
  "chan_send d c =
     (if ch_closed c then Panics
      else if length (ch_buf c) < ch_cap c then Returns (Inr (Some (c\<lparr>ch_buf := ch_buf c @ [d]\<rparr>)))
      else Blocks)"

definition InjectInbound :: "bytes \<Rightarrow> ControlTransport \<Rightarrow> unit outcome \<times> ControlTransport" where
  "InjectInbound data t =
     (if ct_closed t then (Returns (Inl TransportClosed), t)
      else case chan_send data (inbound t) of
        Panics \<Rightarrow> (Panics, t)
      | Returns (Inr (Some c)) \<Rightarrow> (Returns (Inr ()), t\<lparr>inbound := c\<rparr>)
      | _ \<Rightarrow> (Blocks, t))"

definition DrainOutbound :: "ControlTransport \<Rightarrow> bytes outcome \<times> ControlTransport" where
  "DrainOutbound t =
     (case ch_buf (outbound t) of
        chunk # rest \<Rightarrow> (Returns (Inr chunk), t\<lparr>outbound := (outbound t)\<lparr>ch_buf := rest\<rparr>\<rparr>)
      | [] \<Rightarrow> (if ch_closed (outbound t) then Returns (Inl EOF) else Blocks, t))"

definition Read :: "int \<Rightarrow> nat \<Rightarrow> ControlTransport \<Rightarrow> bytes outcome \<times> ControlTransport" where
  "Read now len_b t =
     (if readBuf t \<noteq> [] then
        (Returns (Inr (take len_b (readBuf t))), t\<lparr>readBuf := drop len_b (readBuf t)\<rparr>)
      else if (case readDeadline t of None \<Rightarrow> False | Some rd \<Rightarrow> rd \<le> now)
      then (Returns (Inl DeadlineExceeded), t)
      else case ch_buf (inbound t) of
        chunk # rest \<Rightarrow>
          (let n = min len_b (length chunk);
               t1 = t\<lparr>inbound := (inbound t)\<lparr>ch_buf := rest\<rparr>\<rparr>
           in (Returns (Inr (take n chunk)), if n < length chunk then t1\<lparr>readBuf := drop n chunk\<rparr> else t1))
      | [] \<Rightarrow>
          (if ch_closed (inbound t) then Returns (Inl EOF)
           else if readDeadline t \<noteq> None then Returns (Inl DeadlineExceeded) else Blocks, t))"

definition Write :: "int \<Rightarrow> bytes \<Rightarrow> ControlTransport \<Rightarrow> nat outcome \<times> ControlTransport" where
  "Write now b t =
     (if ct_closed t then (Returns (Inl TransportClosed), t)
      else case writeDeadline t of
        Some wd \<Rightarrow>
          (if wd \<le> now then (Returns (Inl DeadlineExceeded), t)
           else case chan_send b (outbound t) of
             Panics \<Rightarrow> (Panics, t)
           | Returns (Inr (Some c)) \<Rightarrow> (Returns (Inr (length b)), t\<lparr>outbound := c\<rparr>)
           | _ \<Rightarrow> (Returns (Inl DeadlineExceeded), t))
      | None \<Rightarrow>
          (case chan_send b (outbound t) of
             Panics \<Rightarrow> (Panics, t)
           | Returns (Inr (Some c)) \<Rightarrow> (Returns (Inr (length b)), t\<lparr>outbound := c\<rparr>)
           | _ \<Rightarrow> (Blocks, t)))"

definition Close :: "ControlTransport \<Rightarrow> ControlTransport" where
  "Close t =
     (if closeOnce t then t
      else t\<lparr>closeOnce := True, ct_closed := True, inbound := (inbound t)\<lparr>ch_closed := True\<rparr>,
             outbound := (outbound t)\<lparr>ch_closed := True\<rparr>, closedCh := True\<rparr>)"

definition SetDeadline :: "int option \<Rightarrow> ControlTransport \<Rightarrow> ControlTransport" where
  "SetDeadline tm t = t\<lparr>readDeadline := tm, writeDeadline := tm\<rparr>"

definition SetReadDeadline :: "int option \<Rightarrow> ControlTransport \<Rightarrow> ControlTransport" where
  "SetReadDeadline tm t = t\<lparr>readDeadline := tm\<rparr>"

definition SetWriteDeadline :: "int option \<Rightarrow> ControlTransport \<Rightarrow> ControlTransport" where
  "SetWriteDeadline tm t = t\<lparr>writeDeadline := tm\<rparr>"

subsection \<open>Calls one after another\<close>

text \<open>The bytes that TLS has still to read, and the well-formedness that every call keeps.\<close>

definition pending :: "ControlTransport \<Rightarrow> bytes" where
  "pending t = readBuf t @ concat (ch_buf (inbound t))"

definition CT_wf :: "ControlTransport \<Rightarrow> bool" where
  "CT_wf t \<longleftrightarrow> ct_closed t = closeOnce t \<and> ch_closed (inbound t) = closeOnce t \<and>
     ch_closed (outbound t) = closeOnce t \<and> closedCh t = closeOnce t \<and>
     length (ch_buf (inbound t)) \<le> ch_cap (inbound t) \<and> length (ch_buf (outbound t)) \<le> ch_cap (outbound t)"

datatype ctl_op = OpInject bytes | OpRead int nat | OpWrite int bytes | OpDrain | OpClose | OpDeadline "int option"

text \<open>The state after a call, the bytes TLS gets from it, and whether it panics.\<close>

fun ctl_step :: "ctl_op \<Rightarrow> ControlTransport \<Rightarrow> ControlTransport" where
  "ctl_step (OpInject d) t = snd (InjectInbound d t)"
| "ctl_step (OpRead now n) t = snd (Read now n t)"
| "ctl_step (OpWrite now b) t = snd (Write now b t)"
| "ctl_step OpDrain t = snd (DrainOutbound t)"
| "ctl_step OpClose t = Close t"
| "ctl_step (OpDeadline d) t = SetDeadline d t"

fun ctl_read :: "ctl_op \<Rightarrow> ControlTransport \<Rightarrow> bytes" where
  "ctl_read (OpRead now n) t = (case fst (Read now n t) of Returns (Inr b) \<Rightarrow> b | _ \<Rightarrow> [])"
| "ctl_read _ t = []"

fun ctl_injected :: "ctl_op \<Rightarrow> ControlTransport \<Rightarrow> bytes" where
  "ctl_injected (OpInject d) t = (if fst (InjectInbound d t) = Returns (Inr ()) then d else [])"
| "ctl_injected _ t = []"

fun ctl_panics :: "ctl_op \<Rightarrow> ControlTransport \<Rightarrow> bool" where
  "ctl_panics (OpInject d) t = (fst (InjectInbound d t) = Panics)"
| "ctl_panics (OpWrite now b) t = (fst (Write now b t) = Panics)"
| "ctl_panics _ t = False"

fun ctl_run :: "ctl_op list \<Rightarrow> ControlTransport \<Rightarrow> bytes \<times> bytes \<times> bool \<times> ControlTransport" where
  "ctl_run [] t = ([], [], False, t)"
| "ctl_run (op # ops) t =
     (let (ij, rd, pn, t') = ctl_run ops (ctl_step op t)
      in (ctl_injected op t @ ij, ctl_read op t @ rd, ctl_panics op t \<or> pn, t'))"

lemma NewControlTransport_wf: "CT_wf (NewControlTransport n)"
  by (simp add: CT_wf_def NewControlTransport_def Let_def)

lemma pending_New [simp]: "pending (NewControlTransport n) = []"
  by (simp add: pending_def NewControlTransport_def Let_def)

lemma ctl_step_wf: "CT_wf t \<Longrightarrow> CT_wf (ctl_step op t) \<and> \<not> ctl_panics op t"
  by (cases op)
    (auto simp: CT_wf_def InjectInbound_def chan_send_def Read_def Write_def DrainOutbound_def Close_def
      SetDeadline_def Let_def split: list.splits option.splits)

lemma Read_pending: "pending t = ctl_read (OpRead now n) t @ pending (snd (Read now n t))"
  by (auto simp: pending_def Read_def Let_def min_def split: list.splits option.splits)

lemma ctl_step_pending: "pending t @ ctl_injected op t = ctl_read op t @ pending (ctl_step op t)"
proof (cases op)
  case (OpRead now n)
  then show ?thesis using Read_pending [of t now n] by simp
next
  case (OpInject d)
  then show ?thesis by (auto simp: pending_def InjectInbound_def chan_send_def)
qed (auto simp: pending_def Write_def chan_send_def DrainOutbound_def Close_def SetDeadline_def
    split: option.splits list.splits)

lemma ctl_run_stream:
  "CT_wf t \<Longrightarrow> ctl_run ops t = (ij, rd, pn, t') \<Longrightarrow> pending t @ ij = rd @ pending t' \<and> \<not> pn \<and> CT_wf t'"
proof (induction ops arbitrary: t ij rd pn)
  case (Cons op ops)
  obtain ij1 rd1 pn1 where r: "ctl_run ops (ctl_step op t) = (ij1, rd1, pn1, t')"
    and e: "ij = ctl_injected op t @ ij1" "rd = ctl_read op t @ rd1" "pn \<longleftrightarrow> ctl_panics op t \<or> pn1"
    using Cons.prems(2) by (auto simp: Let_def split: prod.splits)
  have wf: "CT_wf (ctl_step op t)" "\<not> ctl_panics op t" using ctl_step_wf [OF Cons.prems(1)] by blast+
  then have "pending (ctl_step op t) @ ij1 = rd1 @ pending t' \<and> \<not> pn1 \<and> CT_wf t'"
    using Cons.IH [OF wf(1) r] by simp
  then show ?case using ctl_step_pending [of t op] e wf(2) by (metis append.assoc)
qed simp

subsection \<open>Concurrent calls\<close>

text \<open>
  \<open>InjectInbound\<close> (and \<open>Write\<close>) read the flag under the mutex and send after releasing it, and \<open>Close\<close> sets
  the flag and then closes the channels.  The steps of the two calls interleave.
\<close>

datatype inj_pc = InjStart | InjChecked | InjRefused | InjSent | InjPanicked

datatype close_pc = CloseStart | CloseFlagged | CloseInbound | CloseOutbound | CloseDone

type_synonym race_state = "ControlTransport \<times> inj_pc \<times> close_pc"

inductive race_step :: "bytes \<Rightarrow> race_state \<Rightarrow> race_state \<Rightarrow> bool" for data where
  check_open: "\<not> ct_closed t \<Longrightarrow> race_step data (t, InjStart, c) (t, InjChecked, c)"
| check_closed: "ct_closed t \<Longrightarrow> race_step data (t, InjStart, c) (t, InjRefused, c)"
| send: "chan_send data (inbound t) = Returns (Inr (Some ch)) \<Longrightarrow>
    race_step data (t, InjChecked, c) (t\<lparr>inbound := ch\<rparr>, InjSent, c)"
| send_panic: "chan_send data (inbound t) = Panics \<Longrightarrow>
    race_step data (t, InjChecked, c) (t, InjPanicked, c)"
| flag: "race_step data (t, i, CloseStart) (t\<lparr>closeOnce := True, ct_closed := True\<rparr>, i, CloseFlagged)"
| close_in: "race_step data (t, i, CloseFlagged) (t\<lparr>inbound := (inbound t)\<lparr>ch_closed := True\<rparr>\<rparr>, i, CloseInbound)"
| close_out: "race_step data (t, i, CloseInbound) (t\<lparr>outbound := (outbound t)\<lparr>ch_closed := True\<rparr>\<rparr>, i, CloseOutbound)"
| close_done: "race_step data (t, i, CloseOutbound) (t\<lparr>closedCh := True\<rparr>, i, CloseDone)"

inductive_cases race_stepE: "race_step data (t, i, c) s"

definition race_inv :: "race_state \<Rightarrow> bool" where
  "race_inv s \<longleftrightarrow> (case s of (t, i, c) \<Rightarrow>
     (ch_closed (inbound t) \<longleftrightarrow> c \<in> {CloseInbound, CloseOutbound, CloseDone}) \<and>
     (ct_closed t \<longleftrightarrow> c \<noteq> CloseStart) \<and>
     (i = InjPanicked \<longrightarrow> c \<in> {CloseInbound, CloseOutbound, CloseDone}))"

lemma race_step_inv: "race_step data s s' \<Longrightarrow> race_inv s \<Longrightarrow> race_inv s'"
  by (induction rule: race_step.induct) (auto simp: race_inv_def chan_send_def split: if_splits)

subsection \<open>Properties\<close>

text \<open>(byte stream).  Called one after another, in any order and number, the operations of a control transport
  never panic, keep it well-formed, and the bytes \<open>Read\<close> returns followed by the bytes still buffered are exactly
  the chunks that were injected, in order: nothing is lost, repeated or reordered, whatever the buffer sizes and
  deadlines.\<close>

theorem ctls_byte_stream:
  assumes "ctl_run ops (NewControlTransport n) = (ij, rd, pn, t)"
  shows "ij = rd @ pending t \<and> \<not> pn \<and> CT_wf t"
  using ctl_run_stream [OF NewControlTransport_wf assms] by simp

theorem ctls_byte_stream_witness:
  "\<exists>t. ctl_run [OpInject [1, 2, 3], OpRead 0 2, OpInject [4], OpRead 0 2, OpClose, OpInject [5]]
          (NewControlTransport 4) = ([1, 2, 3, 4], [1, 2, 3], False, t) \<and> pending t = [4]"
proof -
  obtain t where r: "ctl_run [OpInject [1, 2, 3], OpRead 0 2, OpInject [4], OpRead 0 2, OpClose, OpInject [5]]
          (NewControlTransport 4) = ([1, 2, 3, 4], [1, 2, 3], False, t)"
    by (simp add: NewControlTransport_def InjectInbound_def chan_send_def Read_def Close_def Let_def)
  then have "pending t = [4]" using ctls_byte_stream [OF r] by simp
  then show ?thesis using r by blast
qed

lemma race_panic_closed:
  assumes "(race_step data)\<^sup>*\<^sup>* (NewControlTransport n, InjStart, CloseStart) (t, InjPanicked, c)"
  shows "ct_closed t \<and> ch_closed (inbound t)"
proof -
  have "race_inv s" if "(race_step data)\<^sup>*\<^sup>* (NewControlTransport n, InjStart, CloseStart) s" for s
    using that
  proof (induction rule: rtranclp_induct)
    case base
    then show ?case by (simp add: race_inv_def NewControlTransport_def Let_def)
  qed (rule race_step_inv)
  from this [OF assms] show ?thesis by (auto simp: race_inv_def)
qed

text \<open>(close race).  From every fresh transport there is an interleaving of one \<open>InjectInbound\<close> and one \<open>Close\<close> in
  which the injecting goroutine, having seen an open transport, sends on the closed channel and panics: the check
  of the flag does not protect the send.\<close>

theorem ctls_close_race:
  "\<exists>t c. (race_step data)\<^sup>*\<^sup>* (NewControlTransport n, InjStart, CloseStart) (t, InjPanicked, c) \<and>
     ct_closed t \<and> ch_closed (inbound t)"
proof -
  let ?t0 = "NewControlTransport n"
  let ?t1 = "?t0\<lparr>closeOnce := True, ct_closed := True\<rparr>"
  let ?t2 = "?t1\<lparr>inbound := (inbound ?t1)\<lparr>ch_closed := True\<rparr>\<rparr>"
  have 1: "race_step data (?t0, InjStart, CloseStart) (?t0, InjChecked, CloseStart)"
    by (rule check_open) (simp add: NewControlTransport_def Let_def)
  have 2: "race_step data (?t0, InjChecked, CloseStart) (?t1, InjChecked, CloseFlagged)" by (rule flag)
  have 3: "race_step data (?t1, InjChecked, CloseFlagged) (?t2, InjChecked, CloseInbound)" by (rule close_in)
  have 4: "race_step data (?t2, InjChecked, CloseInbound) (?t2, InjPanicked, CloseInbound)"
    by (rule send_panic) (simp add: chan_send_def)
  have "(race_step data)\<^sup>*\<^sup>* (?t0, InjStart, CloseStart) (?t2, InjPanicked, CloseInbound)"
    using 1 2 3 4 by (meson converse_rtranclp_into_rtranclp rtranclp.rtrancl_refl)
  then show ?thesis using race_panic_closed by blast
qed

end
