(* ===== verification/Control_Relay.thy ===== *)
theory Control_Relay
  imports Control_Packets Reliable Ctls
begin

section \<open>The control-channel relay\<close>

text \<open>
  Models the goroutines that \<open>tlsHandshake\<close> of \<^verbatim>\<open>client.go\<close> starts (the dispatcher of inbound packets, the
  sender of a session's outbound TLS bytes, the retransmission ticker) and \<open>controlSession.receiveControl\<close>.
  A Go channel that is only ever closed is an optional boolean: \<open>None\<close> is nil, \<open>Some True\<close> closed.  What is written
  to the connection is collected in \<open>r_wire\<close>; the errors of these writes are ignored by the code.  A dispatcher
  that has to wait for room in a session's inbound channel, or that panics, does not finish its step: the result is
  \<open>None\<close>.
\<close>

record controlSession =
  cs_keyID :: byte
  cs_transport :: ControlTransport
  cs_sendQueue :: SendQueue
  cs_recvWindow :: RecvWindow
  cs_registered :: "bool option"
  cs_peerReset :: "bool option"
  cs_resetAcked :: "bool option"

fun inject_all :: "bytes list \<Rightarrow> ControlTransport \<Rightarrow> ControlTransport option" where
  "inject_all [] t = Some t"
| "inject_all (p # ps) t =
     (if 0 < length p then
        (case InjectInbound p t of
           (Returns _, t') \<Rightarrow> inject_all ps t'
         | _ \<Rightarrow> None)
      else inject_all ps t)"

definition receiveControl :: "u32 \<Rightarrow> bytes \<Rightarrow> controlSession \<Rightarrow> controlSession option" where
  "receiveControl packetID payload s =
     (let ((payloads, acks), w) = Receive packetID payload (cs_recvWindow s)
      in map_option (\<lambda>t. s\<lparr>cs_recvWindow := w, cs_transport := t\<rparr>) (inject_all payloads (cs_transport s)))"

record relay =
  r_sessions :: "byte \<rightharpoonup> controlSession"
  r_clientSID :: bytes
  r_serverSID :: bytes
  r_wire :: "bytes list"
  r_dataCh :: "chan option"

text \<open>\<^verbatim>\<open>close(ch)\<close> guarded by a \<^verbatim>\<open>select\<close> that skips a channel already closed.\<close>

definition close_once :: "bool option \<Rightarrow> bool option" where
  "close_once ch = map_option (\<lambda>_. True) ch"

definition ack_one :: "u32 \<Rightarrow> controlSession \<Rightarrow> controlSession" where
  "ack_one pid sess =
     (let sess1 = sess\<lparr>cs_sendQueue := Ack pid (cs_sendQueue sess)\<rparr>
      in if pid = 0 \<and> cs_resetAcked sess1 \<noteq> None
         then sess1\<lparr>cs_resetAcked := close_once (cs_resetAcked sess1)\<rparr> else sess1)"

definition relay_data :: "bytes \<Rightarrow> relay \<Rightarrow> relay" where
  "relay_data pkt r =
     (case r_dataCh r of
        None \<Rightarrow> r
      | Some ch \<Rightarrow> (if length (ch_buf ch) < ch_cap ch
                    then r\<lparr>r_dataCh := Some (ch\<lparr>ch_buf := ch_buf ch @ [pkt]\<rparr>)\<rparr> else r))"

definition relay_control :: "byte \<Rightarrow> bytes \<Rightarrow> relay \<Rightarrow> relay option" where
  "relay_control keyID pkt r =
     (case parseControlV1Payload pkt of
        None \<Rightarrow> None
      | Some (payload, packetID) \<Rightarrow>
          (let ack = buildAck (r_clientSID r) (r_serverSID r) keyID [packetID];
               r1 = r\<lparr>r_wire := r_wire r @ [ack]\<rparr>
           in case r_sessions r1 keyID of
                None \<Rightarrow> Some r1
              | Some sess \<Rightarrow>
                  (case parseControlV1AckIDs pkt of
                     None \<Rightarrow> None
                   | Some ids \<Rightarrow>
                       (let sess1 = sess\<lparr>cs_sendQueue := AckMany ids (cs_sendQueue sess)\<rparr>
                        in map_option (\<lambda>sess2. r1\<lparr>r_sessions := (r_sessions r1)(keyID \<mapsto> sess2)\<rparr>)
                             (receiveControl packetID payload sess1)))))"

definition relay_soft_reset :: "byte \<Rightarrow> bytes \<Rightarrow> relay \<Rightarrow> relay option" where
  "relay_soft_reset keyID pkt r =
     (case parseControlV1Payload pkt of
        None \<Rightarrow> None
      | Some (_, packetID) \<Rightarrow>
          (let ack = buildAck (r_clientSID r) (r_serverSID r) keyID [packetID];
               r1 = r\<lparr>r_wire := r_wire r @ [ack]\<rparr>
           in case r_sessions r1 keyID of
                None \<Rightarrow> Some r1
              | Some sess \<Rightarrow>
                  (if cs_peerReset sess = None then Some r1
                   else case receiveControl packetID [] sess of
                     None \<Rightarrow> None
                   | Some sess1 \<Rightarrow>
                       (case parseControlV1AckIDs pkt of
                          None \<Rightarrow> None
                        | Some ids \<Rightarrow>
                            (let sess2 = fold ack_one ids sess1;
                                 sess3 = sess2\<lparr>cs_peerReset := close_once (cs_peerReset sess2)\<rparr>
                             in Some (r1\<lparr>r_sessions := (r_sessions r1)(keyID \<mapsto> sess3)\<rparr>))))))"

text \<open>The loop over a P_ACK_V1 packet stops at the announced count or at the end of the packet.\<close>

fun ack_loop :: "nat \<Rightarrow> nat \<Rightarrow> bytes \<Rightarrow> controlSession \<Rightarrow> controlSession option" where
  "ack_loop 0 off pkt sess = Some sess"
| "ack_loop (Suc n) off pkt sess =
     (if off + 4 \<le> length pkt then
        (case Uint32 (drop off pkt) of
           None \<Rightarrow> None
         | Some pid \<Rightarrow> ack_loop n (off + 4) pkt (ack_one pid sess))
      else Some sess)"

definition relay_ack :: "byte \<Rightarrow> bytes \<Rightarrow> relay \<Rightarrow> relay option" where
  "relay_ack keyID pkt r =
     (if length pkt < 11 then Some r
      else let nAcks = unat (pkt ! 9) in
        case r_sessions r keyID of
          None \<Rightarrow> Some r
        | Some sess \<Rightarrow> map_option (\<lambda>sess1. r\<lparr>r_sessions := (r_sessions r)(keyID \<mapsto> sess1)\<rparr>)
                         (ack_loop nAcks 10 pkt sess))"

definition relay_packet :: "bytes \<Rightarrow> relay \<Rightarrow> relay option" where
  "relay_packet pkt r =
     (if length pkt < 1 then Some r
      else let op = drop_bit 3 (pkt ! 0); keyID = (pkt ! 0) AND 0x07 in
        if op = P_DATA_V2 then Some (relay_data pkt r)
        else if op = P_CONTROL_V1 then relay_control keyID pkt r
        else if op = P_CONTROL_SOFT_RESET_V1 then relay_soft_reset keyID pkt r
        else if op = P_ACK_V1 then relay_ack keyID pkt r
        else Some r)"

text \<open>A session announced on \<^verbatim>\<open>rekeySessionCh\<close>; a nil session is skipped, and closing \<open>registered\<close> panics when it is nil or
  already closed.\<close>

definition relay_register :: "controlSession option \<Rightarrow> relay \<Rightarrow> relay option" where
  "relay_register sess r =
     (case sess of
        None \<Rightarrow> Some r
      | Some s \<Rightarrow>
          (if cs_registered s = Some False
           then Some (r\<lparr>r_sessions := (r_sessions r)(cs_keyID s \<mapsto> s\<lparr>cs_registered := Some True\<rparr>)\<rparr>)
           else None))"

text \<open>A read error: every transport is closed (the secondary ones in the loop, the primary by the defer).\<close>

definition relay_shutdown :: "relay \<Rightarrow> relay" where
  "relay_shutdown r =
     r\<lparr>r_sessions := (\<lambda>k. map_option (\<lambda>s. s\<lparr>cs_transport := Close (cs_transport s)\<rparr>) (r_sessions r k))\<rparr>"

text \<open>The send goroutine of a session: one outbound chunk is cut into segments of at most 1024 bytes.\<close>

function segments :: "bytes \<Rightarrow> bytes list" where
  "segments chunk = (if 0 < length chunk then take 1024 chunk # segments (drop 1024 chunk) else [])"
  by pat_completeness auto
termination by (relation "measure length") auto

declare segments.simps [simp del]

definition send_segment :: "int \<Rightarrow> byte \<Rightarrow> bytes \<Rightarrow> relay \<Rightarrow> relay" where
  "send_segment now keyID seg r =
     (case r_sessions r keyID of
        None \<Rightarrow> r
      | Some sess \<Rightarrow>
          (let nextID = NextID (cs_sendQueue sess);
               wire = buildControlV1WithKeyID (r_clientSID r) (r_serverSID r) (cs_keyID sess) nextID [] seg;
               q = snd (Enqueue wire now (cs_sendQueue sess))
           in r\<lparr>r_sessions := (r_sessions r)(keyID \<mapsto> sess\<lparr>cs_sendQueue := q\<rparr>), r_wire := r_wire r @ [wire]\<rparr>))"

definition send_chunk :: "int \<Rightarrow> byte \<Rightarrow> bytes \<Rightarrow> relay \<Rightarrow> relay" where
  "send_chunk now keyID chunk r = fold (send_segment now keyID) (segments chunk) r"

text \<open>One tick of the retransmission goroutine; Go ranges over the map in any order, \<open>order\<close>.\<close>

definition retransmit_tick :: "int \<Rightarrow> byte list \<Rightarrow> relay \<Rightarrow> relay" where
  "retransmit_tick now order r =
     (let (due, r') = fold (\<lambda>k (due, r).
            case r_sessions r k of
              None \<Rightarrow> (due, r)
            | Some sess \<Rightarrow>
                (let (d, q) = DueForRetransmit now (cs_sendQueue sess)
                 in (due @ d, r\<lparr>r_sessions := (r_sessions r)(k \<mapsto> sess\<lparr>cs_sendQueue := q\<rparr>)\<rparr>)))
          order ([], r)
      in r'\<lparr>r_wire := r_wire r' @ map e_Payload due\<rparr>)"

subsection \<open>A session and its TLS stream\<close>

text \<open>The part of a session that carries TLS bytes.\<close>

definition sview :: "controlSession \<Rightarrow> ControlTransport \<times> RecvWindow" where
  "sview s = (cs_transport s, cs_recvWindow s)"

lemma sview_updates [simp]:
  "sview (s\<lparr>cs_sendQueue := q\<rparr>) = sview s" "sview (s\<lparr>cs_peerReset := x\<rparr>) = sview s"
  "sview (s\<lparr>cs_resetAcked := x\<rparr>) = sview s" "sview (s\<lparr>cs_registered := x\<rparr>) = sview s"
  by (simp_all add: sview_def)

lemma sview_ack_one [simp]: "sview (ack_one i s) = sview s"
  by (simp add: ack_one_def Let_def)

lemma sview_fold_ack [simp]: "sview (fold ack_one ids s) = sview s"
  by (induction ids arbitrary: s) simp_all

lemma sview_ack_loop: "ack_loop n off pkt s = Some s' \<Longrightarrow> sview s' = sview s"
  by (induction n off pkt s rule: ack_loop.induct) (auto split: if_splits option.splits)

lemma InjectInbound_open:
  assumes "CT_wf t" "\<not> ct_closed t" "InjectInbound p t = (Returns x, t')"
  shows "CT_wf t' \<and> \<not> ct_closed t' \<and> pending t' = pending t @ p"
  using assms by (auto simp: InjectInbound_def chan_send_def CT_wf_def pending_def split: if_splits)

lemma inject_all_open:
  "CT_wf t \<Longrightarrow> \<not> ct_closed t \<Longrightarrow> inject_all ps t = Some t' \<Longrightarrow>
   CT_wf t' \<and> \<not> ct_closed t' \<and> pending t' = pending t @ concat ps"
proof (induction ps arbitrary: t)
  case (Cons p ps)
  show ?case
  proof (cases "p = []")
    case True
    then show ?thesis using Cons by simp
  next
    case False
    then obtain x t1 where i: "InjectInbound p t = (Returns x, t1)" "inject_all ps t1 = Some t'"
      using Cons.prems(3) by (auto split: prod.splits outcome.splits)
    have "CT_wf t1 \<and> \<not> ct_closed t1 \<and> pending t1 = pending t @ p"
      by (rule InjectInbound_open [OF Cons.prems(1,2) i(1)])
    then show ?thesis using Cons.IH [of t1] i(2) by simp
  qed
qed simp

text \<open>The stream invariant: what TLS has read (\<open>rd\<close>) and what is buffered is the peer's byte stream up to the
  expected packet.\<close>

definition stream_inv :: "(nat \<Rightarrow> bytes) \<Rightarrow> nat \<Rightarrow> bytes \<Rightarrow> ControlTransport \<times> RecvWindow \<Rightarrow> bool" where
  "stream_inv src first rd v \<longleftrightarrow>
     (case v of (t, w) \<Rightarrow> CT_wf t \<and> \<not> ct_closed t \<and> rw_inv src w \<and> first \<le> unat (Expected w) \<and>
        rd @ pending t = concat (map src [first..<unat (Expected w)]))"

lemma receiveControl_stream:
  assumes "receiveControl i (src (unat i)) s = Some s'" "stream_inv src first rd (sview s)"
    and "unat (Expected (cs_recvWindow s)) + 8 < 2 ^ 32"
  shows "stream_inv src first rd (sview s') \<and>
         rw_level (cs_recvWindow s') \<le> rw_level (cs_recvWindow s) + 1"
proof -
  let ?w = "cs_recvWindow s"
  obtain ps acks w where r: "Receive i (src (unat i)) ?w = ((ps, acks), w)" by (metis prod.exhaust)
  obtain t where t: "inject_all ps (cs_transport s) = Some t" and s': "s' = s\<lparr>cs_recvWindow := w, cs_transport := t\<rparr>"
    using assms(1) r by (auto simp: receiveControl_def)
  have st: "rw_inv src w" "unat (Expected ?w) \<le> unat (Expected w)"
    "ps = map src [unat (Expected ?w)..<unat (Expected w)]" "rw_level w \<le> rw_level ?w + 1"
    using recv_window.recv_step [of i src ?w ps acks w, OF r] assms(2,3) by (auto simp: stream_inv_def sview_def)
  have "CT_wf t \<and> \<not> ct_closed t \<and> pending t = pending (cs_transport s) @ concat ps"
    using inject_all_open [OF _ _ t] assms(2) by (auto simp: stream_inv_def sview_def)
  moreover have "[first..<unat (Expected ?w)] @ [unat (Expected ?w)..<unat (Expected w)] = [first..<unat (Expected w)]"
    using st(2) assms(2) by (metis (no_types, lifting) case_prodD le_add_diff_inverse stream_inv_def sview_def upt_add_eq_append)
  then have "concat (map src [first..<unat (Expected ?w)]) @ concat ps = concat (map src [first..<unat (Expected w)])"
    by (metis concat_append map_append st(3))
  moreover have "rd @ pending (cs_transport s) = concat (map src [first..<unat (Expected ?w)])"
    and "first \<le> unat (Expected ?w)" using assms(2) by (auto simp: stream_inv_def sview_def)
  ultimately have "rd @ pending t = concat (map src [first..<unat (Expected w)])"
    and "CT_wf t" "\<not> ct_closed t" "first \<le> unat (Expected w)"
    using st(2) by (simp_all flip: append_assoc)
  then show ?thesis using st(1,4) s' by (simp add: stream_inv_def sview_def)
qed

subsection \<open>Runs of the relay\<close>

datatype relay_ev = EvPacket bytes | EvRead byte int nat | EvSend int byte bytes | EvTick int "byte list"

definition relay_read :: "byte \<Rightarrow> int \<Rightarrow> nat \<Rightarrow> relay \<Rightarrow> bytes \<times> relay" where
  "relay_read k now n r =
     (case r_sessions r k of
        None \<Rightarrow> ([], r)
      | Some s \<Rightarrow> (ctl_read (OpRead now n) (cs_transport s),
           r\<lparr>r_sessions := (r_sessions r)(k \<mapsto> s\<lparr>cs_transport := snd (Read now n (cs_transport s))\<rparr>)\<rparr>))"

text \<open>The events of a connection; the result is what the TLS stack of session \<open>k\<close> has read.\<close>

fun relay_run :: "byte \<Rightarrow> relay_ev list \<Rightarrow> relay \<Rightarrow> (bytes \<times> relay) option" where
  "relay_run k [] r = Some ([], r)"
| "relay_run k (EvPacket pkt # evs) r =
     (case relay_packet pkt r of None \<Rightarrow> None | Some r1 \<Rightarrow> relay_run k evs r1)"
| "relay_run k (EvRead k' now n # evs) r =
     (case relay_read k' now n r of
        (b, r1) \<Rightarrow> map_option (\<lambda>(bs, r2). ((if k' = k then b else []) @ bs, r2)) (relay_run k evs r1))"
| "relay_run k (EvSend now k' chunk # evs) r = relay_run k evs (send_chunk now k' chunk r)"
| "relay_run k (EvTick now order # evs) r = relay_run k evs (retransmit_tick now order r)"

text \<open>The packets of key id \<open>k\<close> carry the peer's sequence \<open>src\<close>; a reset packet carries no payload.  Every other
  packet is arbitrary.\<close>

definition from_peer :: "(nat \<Rightarrow> bytes) \<Rightarrow> byte \<Rightarrow> bytes \<Rightarrow> bool" where
  "from_peer src k pkt \<longleftrightarrow>
     (pkt \<noteq> [] \<longrightarrow> (pkt ! 0) AND 0x07 = k \<longrightarrow>
       (case the (parseControlV1Payload pkt) of (payload, i) \<Rightarrow>
          (drop_bit 3 (pkt ! 0) = P_CONTROL_V1 \<longrightarrow> payload = src (unat i)) \<and>
          (drop_bit 3 (pkt ! 0) = P_CONTROL_SOFT_RESET_V1 \<longrightarrow> src (unat i) = [])))"

text \<open>How one inbound packet changes the TLS part of session \<open>k\<close>: not at all, or by receiving that packet.\<close>

lemma relay_packet_view:
  assumes "relay_packet pkt r = Some r'" "r_sessions r k = Some s" "from_peer src k pkt"
  shows "\<exists>s'. r_sessions r' k = Some s' \<and>
     (sview s' = sview s \<or> (\<exists>i s0 s1. sview s0 = sview s \<and> receiveControl i (src (unat i)) s0 = Some s1 \<and> sview s' = sview s1))"
proof (cases "pkt = []")
  case True
  then show ?thesis using assms by (simp add: relay_packet_def)
next
  case False
  define op where "op = drop_bit 3 (pkt ! 0)"
  define kid where "kid = (pkt ! 0) AND 0x07"
  obtain payload i where pp: "parseControlV1Payload pkt = Some (payload, i)"
    using parseControlV1Payload_total [of pkt] by auto
  obtain ids where ids: "parseControlV1AckIDs pkt = Some ids" using parseControlV1AckIDs_total [of pkt] by auto
  have peer: "kid = k \<Longrightarrow> op = P_CONTROL_V1 \<Longrightarrow> payload = src (unat i)"
    "kid = k \<Longrightarrow> op = P_CONTROL_SOFT_RESET_V1 \<Longrightarrow> src (unat i) = []"
    using assms(3) False pp by (auto simp: from_peer_def op_def kid_def)
  consider (data) "op = P_DATA_V2" | (control) "op = P_CONTROL_V1" | (reset) "op = P_CONTROL_SOFT_RESET_V1"
    | (ack) "op = P_ACK_V1" | (other) "op \<notin> {P_DATA_V2, P_CONTROL_V1, P_CONTROL_SOFT_RESET_V1, P_ACK_V1}" by blast
  then show ?thesis
  proof cases
    case data
    then show ?thesis using assms False
      by (auto simp: relay_packet_def Let_def op_def relay_data_def split: option.splits if_splits)
  next
    case control
    then have rc: "relay_control kid pkt r = Some r'"
      using assms(1) False by (simp add: relay_packet_def Let_def op_def kid_def opcode_defs)
    show ?thesis
    proof (cases "kid = k")
      case True
      then obtain s2 where "receiveControl i payload (s\<lparr>cs_sendQueue := AckMany ids (cs_sendQueue s)\<rparr>) = Some s2"
        "r_sessions r' k = Some s2"
        using rc pp ids assms(2) by (auto simp: relay_control_def Let_def)
      then show ?thesis using peer(1) [OF True control]
        by (intro exI [of _ s2] conjI disjI2 exI [of _ i] exI [of _ "s\<lparr>cs_sendQueue := AckMany ids (cs_sendQueue s)\<rparr>"]) auto
    next
      case other: False
      then show ?thesis using rc pp ids assms(2) by (auto simp: relay_control_def Let_def split: option.splits)
    qed
  next
    case reset
    then have rc: "relay_soft_reset kid pkt r = Some r'"
      using assms(1) False by (simp add: relay_packet_def Let_def op_def kid_def opcode_defs)
    show ?thesis
    proof (cases "kid = k \<and> cs_peerReset s \<noteq> None")
      case True
      then obtain s1 where s1: "receiveControl i [] s = Some s1"
        and s': "\<exists>s'. r_sessions r' k = Some s' \<and> sview s' = sview s1"
        using rc pp ids assms(2) by (auto simp: relay_soft_reset_def Let_def split: option.splits)
      then show ?thesis using peer(2) True reset by metis
    next
      case other: False
      then show ?thesis using rc pp ids assms(2)
        by (auto simp: relay_soft_reset_def Let_def split: option.splits if_splits)
    qed
  next
    case ack
    then have rc: "relay_ack kid pkt r = Some r'"
      using assms(1) False by (simp add: relay_packet_def Let_def op_def kid_def opcode_defs)
    then show ?thesis using assms(2)
      by (auto simp: relay_ack_def Let_def dest!: sview_ack_loop split: option.splits if_splits)
  next
    case other
    then show ?thesis using assms False by (auto simp: relay_packet_def Let_def op_def split: if_splits)
  qed
qed

lemma send_segment_view:
  "r_sessions r k = Some s \<Longrightarrow> \<exists>s'. r_sessions (send_segment now k' seg r) k = Some s' \<and> sview s' = sview s"
  by (auto simp: send_segment_def Let_def split: option.splits)

lemma send_chunk_view:
  assumes "r_sessions r k = Some s"
  shows "\<exists>s'. r_sessions (send_chunk now k' chunk r) k = Some s' \<and> sview s' = sview s"
proof -
  have "r_sessions r k = Some s \<Longrightarrow>
    \<exists>s'. r_sessions (fold (send_segment now k') xs r) k = Some s' \<and> sview s' = sview s" for xs r s
  proof (induction xs arbitrary: r s)
    case (Cons x xs)
    then show ?case using send_segment_view [OF Cons.prems, of now k' x] by force
  qed simp
  then show ?thesis using assms by (simp add: send_chunk_def)
qed

lemma retransmit_tick_view:
  assumes "r_sessions r k = Some s"
  shows "\<exists>s'. r_sessions (retransmit_tick now order r) k = Some s' \<and> sview s' = sview s"
proof -
  let ?f = "\<lambda>k (due, r). case r_sessions r k of None \<Rightarrow> (due, r)
            | Some sess \<Rightarrow> (let (d, q) = DueForRetransmit now (cs_sendQueue sess)
                 in (due @ d, r\<lparr>r_sessions := (r_sessions r)(k \<mapsto> sess\<lparr>cs_sendQueue := q\<rparr>)\<rparr>))"
  have "\<exists>s'. r_sessions (snd (fold ?f order x)) k = Some s' \<and> sview s' = sview s"
    if "\<exists>s'. r_sessions (snd x) k = Some s' \<and> sview s' = sview s" for x
    using that
  proof (induction order arbitrary: x)
    case (Cons j js)
    have "\<exists>s'. r_sessions (snd (?f j x)) k = Some s' \<and> sview s' = sview s"
      using Cons.prems by (cases x) (auto simp: Let_def split: option.splits prod.splits)
    then show ?case using Cons.IH [of "?f j x"] by simp
  qed simp
  from this [of "([], r)"] show ?thesis
    using assms by (auto simp: retransmit_tick_def Let_def split: prod.splits)
qed

lemma relay_read_other: "k' \<noteq> k \<Longrightarrow> r_sessions (snd (relay_read k' now n r)) k = r_sessions r k"
  by (auto simp: relay_read_def split: option.splits)

lemma relay_read_stream:
  assumes "r_sessions r k = Some s" "stream_inv src first rd (sview s)" "relay_read k now n r = (b, r')"
  shows "\<exists>s'. r_sessions r' k = Some s' \<and> stream_inv src first (rd @ b) (sview s') \<and> cs_recvWindow s' = cs_recvWindow s"
proof -
  let ?t = "cs_transport s"
  have b: "b = ctl_read (OpRead now n) ?t"
    and s': "r_sessions r' k = Some (s\<lparr>cs_transport := snd (Read now n ?t)\<rparr>)"
    using assms(1,3) by (auto simp: relay_read_def)
  have "pending ?t = b @ pending (snd (Read now n ?t))" using Read_pending [of ?t now n] b by simp
  moreover have "CT_wf (snd (Read now n ?t))"
    using ctl_step_wf [of ?t "OpRead now n"] assms(2) by (auto simp: stream_inv_def sview_def)
  moreover have "ct_closed (snd (Read now n ?t)) = ct_closed ?t"
    by (auto simp: Read_def Let_def split: list.splits option.splits)
  ultimately show ?thesis using assms(2) s' by (auto simp: stream_inv_def sview_def)
qed

lemma relay_run_stream:
  assumes "relay_run k evs r = Some (out, r')" "r_sessions r k = Some s" "stream_inv src first rd (sview s)"
    and "\<forall>pkt. EvPacket pkt \<in> set evs \<longrightarrow> from_peer src k pkt"
    and "rw_level (cs_recvWindow s) + length evs + 8 < 2 ^ 32"
  shows "\<exists>s'. r_sessions r' k = Some s' \<and> stream_inv src first (rd @ out) (sview s')"
  using assms
proof (induction evs arbitrary: r s rd out)
  case Nil
  then show ?case by auto
next
  case (Cons e evs)
  have peer: "\<forall>pkt. EvPacket pkt \<in> set evs \<longrightarrow> from_peer src k pkt" using Cons.prems(4) by simp
  show ?case
  proof (cases e)
    case (EvPacket pkt)
    obtain r1 where r1: "relay_packet pkt r = Some r1" "relay_run k evs r1 = Some (out, r')"
      using Cons.prems(1) EvPacket by (auto split: option.splits)
    have "from_peer src k pkt" using Cons.prems(4) EvPacket by simp
    from relay_packet_view [OF r1(1) Cons.prems(2) this] obtain s1 where s1: "r_sessions r1 k = Some s1"
      and v: "sview s1 = sview s \<or> (\<exists>i s0 s2. sview s0 = sview s \<and> receiveControl i (src (unat i)) s0 = Some s2 \<and> sview s1 = sview s2)"
      by blast
    have room: "unat (Expected (cs_recvWindow s)) + 8 < 2 ^ 32"
      using Cons.prems(5) recv_window.nxt_le_level [of "cs_recvWindow s"] by simp
    have "stream_inv src first rd (sview s1) \<and> rw_level (cs_recvWindow s1) \<le> rw_level (cs_recvWindow s) + 1"
      using v
    proof
      assume "sview s1 = sview s"
      then show ?thesis using Cons.prems(3) by (simp add: sview_def)
    next
      assume "\<exists>i s0 s2. sview s0 = sview s \<and> receiveControl i (src (unat i)) s0 = Some s2 \<and> sview s1 = sview s2"
      then obtain i s0 s2 where o: "sview s0 = sview s" "receiveControl i (src (unat i)) s0 = Some s2" "sview s1 = sview s2"
        by blast
      then have "cs_recvWindow s0 = cs_recvWindow s" "cs_recvWindow s1 = cs_recvWindow s2" by (simp_all add: sview_def)
      then show ?thesis using receiveControl_stream [of i src s0 s2 first rd, OF o(2)] Cons.prems(3) o(1,3) room by simp
    qed
    then show ?thesis using Cons.IH [OF r1(2) s1 _ peer] Cons.prems(5) by simp
  next
    case (EvRead k' now n)
    obtain b r1 where b: "relay_read k' now n r = (b, r1)" by (cases "relay_read k' now n r")
    obtain out' where o: "relay_run k evs r1 = Some (out', r')" "out = (if k' = k then b else []) @ out'"
      using Cons.prems(1) EvRead b by (auto split: option.splits prod.splits)
    show ?thesis
    proof (cases "k' = k")
      case True
      obtain s1 where s1: "r_sessions r1 k = Some s1" "stream_inv src first (rd @ b) (sview s1)"
        "cs_recvWindow s1 = cs_recvWindow s"
        using relay_read_stream [OF Cons.prems(2,3)] b True by blast
      then show ?thesis using Cons.IH [OF o(1) s1(1,2) peer] Cons.prems(5) o(2) True by simp
    next
      case False
      then have "r_sessions r1 k = Some s" using relay_read_other [OF False, of now n r] b Cons.prems(2) by simp
      then show ?thesis using Cons.IH [OF o(1) _ Cons.prems(3) peer] Cons.prems(5) o(2) False by simp
    qed
  next
    case (EvSend now k' chunk)
    obtain s1 where s1: "r_sessions (send_chunk now k' chunk r) k = Some s1" "sview s1 = sview s"
      using send_chunk_view [OF Cons.prems(2)] by blast
    then have "cs_recvWindow s1 = cs_recvWindow s" by (simp add: sview_def)
    then show ?thesis using Cons.IH [OF _ s1(1) _ peer] Cons.prems s1(2) EvSend by simp
  next
    case (EvTick now order)
    obtain s1 where s1: "r_sessions (retransmit_tick now order r) k = Some s1" "sview s1 = sview s"
      using retransmit_tick_view [OF Cons.prems(2)] by blast
    then have "cs_recvWindow s1 = cs_recvWindow s" by (simp add: sview_def)
    then show ?thesis using Cons.IH [OF _ s1(1) _ peer] Cons.prems s1(2) EvTick by simp
  qed
qed

subsection \<open>Sending and acknowledging\<close>

lemma segments_concat: "concat (segments c) = c"
proof (induction c rule: segments.induct)
  case (1 c)
  then show ?case by (subst segments.simps) simp
qed

lemma segments_bounds: "seg \<in> set (segments c) \<Longrightarrow> 0 < length seg \<and> length seg \<le> 1024"
proof (induction c rule: segments.induct)
  case (1 c)
  then show ?case by (subst (asm) segments.simps) (auto split: if_splits)
qed

definition seg_wires :: "relay \<Rightarrow> controlSession \<Rightarrow> bytes list \<Rightarrow> bytes list" where
  "seg_wires r s segs =
     map (\<lambda>(i, seg). buildControlV1WithKeyID (r_clientSID r) (r_serverSID r) (cs_keyID s)
            (NextID (cs_sendQueue s) + of_nat i) [] seg) (enumerate 0 segs)"

lemma enumerate_shift: "enumerate (Suc n) xs = map (\<lambda>(i, x). (Suc i, x)) (enumerate n xs)"
  by (induction xs arbitrary: n) simp_all

lemma seg_wires_Cons:
  "seg_wires r s (seg # segs) =
     buildControlV1WithKeyID (r_clientSID r) (r_serverSID r) (cs_keyID s) (NextID (cs_sendQueue s)) [] seg #
     seg_wires r (s\<lparr>cs_sendQueue := snd (Enqueue x now (cs_sendQueue s))\<rparr>) segs"
  by (simp add: seg_wires_def enumerate_shift Enqueue_def NextID_def Let_def split_beta algebra_simps o_def)

lemma seg_wires_cong:
  "r_clientSID r' = r_clientSID r \<Longrightarrow> r_serverSID r' = r_serverSID r \<Longrightarrow> seg_wires r' s segs = seg_wires r s segs"
  by (simp add: seg_wires_def)

lemma fold_send_segment:
  assumes "r_sessions r k = Some s"
  shows "\<exists>s'. r_sessions (fold (send_segment now k) segs r) k = Some s' \<and>
     r_wire (fold (send_segment now k) segs r) = r_wire r @ seg_wires r s segs \<and>
     map e_Payload (sq_entries (cs_sendQueue s')) = map e_Payload (sq_entries (cs_sendQueue s)) @ seg_wires r s segs"
  using assms
proof (induction segs arbitrary: r s)
  case Nil
  then show ?case by (simp add: seg_wires_def)
next
  case (Cons seg segs)
  let ?w = "buildControlV1WithKeyID (r_clientSID r) (r_serverSID r) (cs_keyID s) (NextID (cs_sendQueue s)) [] seg"
  let ?s1 = "s\<lparr>cs_sendQueue := snd (Enqueue ?w now (cs_sendQueue s))\<rparr>"
  let ?r1 = "send_segment now k seg r"
  have r1: "r_sessions ?r1 k = Some ?s1" "r_wire ?r1 = r_wire r @ [?w]"
      "r_clientSID ?r1 = r_clientSID r" "r_serverSID ?r1 = r_serverSID r"
    using Cons.prems by (simp_all add: send_segment_def Let_def)
  have sw: "seg_wires r s (seg # segs) = ?w # seg_wires ?r1 ?s1 segs"
    using seg_wires_Cons [of r s seg segs ?w now] seg_wires_cong [OF r1(3,4), of ?s1 segs] by simp
  have en: "map e_Payload (sq_entries (cs_sendQueue ?s1)) = map e_Payload (sq_entries (cs_sendQueue s)) @ [?w]"
    by (simp add: Enqueue_def Let_def)
  show ?case using Cons.IH [OF r1(1)] r1(2) sw en by auto
qed

lemma ack_loop_concat:
  "ack_loop (length ids) (length pre) (pre @ concat (map be32 ids) @ post) s = Some (fold ack_one ids s)"
proof (induction ids arbitrary: pre s)
  case (Cons i ids)
  have "ack_loop (length ids) (length (pre @ be32 i)) ((pre @ be32 i) @ concat (map be32 ids) @ post) (ack_one i s)
      = Some (fold ack_one ids (ack_one i s))"
    by (rule Cons.IH)
  then show ?case by simp
qed simp

lemma fold_ack_one_fields:
  "cs_sendQueue (fold ack_one ids s) = AckMany ids (cs_sendQueue s)"
  "cs_resetAcked (fold ack_one ids s) = (if 0 \<in> set ids then close_once (cs_resetAcked s) else cs_resetAcked s)"
proof -
  have 1: "cs_sendQueue (ack_one i s) = Ack i (cs_sendQueue s)" for i s by (simp add: ack_one_def Let_def)
  have 2: "cs_resetAcked (ack_one i s) = (if i = 0 then close_once (cs_resetAcked s) else cs_resetAcked s)" for i s
    by (cases "cs_resetAcked s") (simp_all add: ack_one_def Let_def close_once_def)
  show "cs_sendQueue (fold ack_one ids s) = AckMany ids (cs_sendQueue s)"
    by (induction ids arbitrary: s) (simp_all add: 1)
  show "cs_resetAcked (fold ack_one ids s) = (if 0 \<in> set ids then close_once (cs_resetAcked s) else cs_resetAcked s)"
    by (induction ids arbitrary: s) (auto simp: 2 close_once_def option.map_comp o_def)
qed

lemma FirstByte_parts:
  "unat op < 32 \<Longrightarrow> unat k < 8 \<Longrightarrow> drop_bit 3 (FirstByte op k) = op \<and> FirstByte op k AND 0x07 = k"
  using OpcodeFromByte_FirstByte [of op k] KeyIDFromByte_FirstByte [of op k] KeyIDFromByte_small [of k]
  by (simp add: OpcodeFromByte_def KeyIDFromByte_def opcodeShift_def keyIDMask_def)

lemma relay_packet_buildAck:
  assumes "length sid = 8" "length rsid = 8" "length ids < 256" "unat k < 8" "r_sessions r k = Some s"
  shows "relay_packet (buildAck sid rsid k ids) r =
           Some (r\<lparr>r_sessions := (r_sessions r)(k \<mapsto> fold ack_one ids s)\<rparr>)"
proof -
  let ?raw = "buildAck sid rsid k ids"
  have raw: "?raw = FirstByte P_ACK_V1 k # sid @ of_nat (length ids) # concat (map be32 ids) @ rsid"
    by (simp add: buildAck_def)
  have n: "unat (?raw ! 9) = length ids" "?raw ! 0 = FirstByte P_ACK_V1 k"
    using assms(1,3) by (simp_all add: raw nth_9_after_sid unat_byte_of_nat)
  have "ack_loop (length ids) 10 ?raw s = Some (fold ack_one ids s)"
    using ack_loop_concat [of ids "FirstByte P_ACK_V1 k # sid @ [of_nat (length ids)]" rsid s] assms(1)
    by (simp add: raw)
  then have "relay_ack k ?raw r = Some (r\<lparr>r_sessions := (r_sessions r)(k \<mapsto> fold ack_one ids s)\<rparr>)"
    using n(1) assms(1,2,5) length_buildAck [OF assms(1,2), of k ids] by (simp add: relay_ack_def Let_def)
  then show ?thesis
    using n(2) FirstByte_parts [OF _ assms(4), of P_ACK_V1] length_buildAck [OF assms(1,2), of k ids]
    by (simp add: relay_packet_def Let_def opcode_defs)
qed

subsection \<open>Properties\<close>

definition fresh_session :: "byte \<Rightarrow> u32 \<Rightarrow> u32 \<Rightarrow> controlSession" where
  "fresh_session k sendSeq first =
     \<lparr>cs_keyID = k, cs_transport = NewControlTransport 64, cs_sendQueue = NewSendQueue sendSeq,
      cs_recvWindow = NewRecvWindowFrom first, cs_registered = Some False, cs_peerReset = Some False,
      cs_resetAcked = Some False\<rparr>"

lemma fresh_session_stream: "stream_inv src (unat first) [] (sview (fresh_session k q first))"
  by (simp add: stream_inv_def sview_def fresh_session_def NewControlTransport_wf Expected_def
      NewRecvWindowFrom_def rw_inv_def held_def) (simp add: NewControlTransport_def Let_def)


definition sample_relay :: relay where
  "sample_relay = \<lparr>r_sessions = [2 \<mapsto> fresh_session 2 0 0], r_clientSID = replicate 8 1,
     r_serverSID = replicate 8 2, r_wire = [], r_dataCh = None\<rparr>"

definition sample_events :: "relay_ev list" where
  "sample_events =
     [EvPacket (buildControlV1WithKeyID (replicate 8 2) (replicate 8 1) 2 1 [] [11, 12]),
      EvPacket (buildControlV1WithKeyID (replicate 8 2) (replicate 8 1) 5 0 [] [99]),
      EvPacket (buildControlV1WithKeyID (replicate 8 2) (replicate 8 1) 2 0 [] [10]),
      EvRead 2 0 4, EvRead 2 0 1]"

lemma sample_run: "map_option fst (relay_run 2 sample_events sample_relay) = Some [10, 11]"
  by code_simp

definition sample_src :: "nat \<Rightarrow> bytes" where
  "sample_src n = (if n = 0 then [10] else if n = 1 then [11, 12] else [])"

lemma sample_from_peer: "\<forall>pkt. EvPacket pkt \<in> set sample_events \<longrightarrow> from_peer sample_src 2 pkt"
proof -
  have "from_peer sample_src 2 (buildControlV1WithKeyID (replicate 8 2) (replicate 8 1) 2 1 [] [11, 12])"
    by code_simp
  moreover have "from_peer sample_src 2 (buildControlV1WithKeyID (replicate 8 2) (replicate 8 1) 5 0 [] [99])"
    by code_simp
  moreover have "from_peer sample_src 2 (buildControlV1WithKeyID (replicate 8 2) (replicate 8 1) 2 0 [] [10])"
    by code_simp
  ultimately show ?thesis unfolding sample_events_def by auto
qed


text \<open>(acknowledged but dropped).  The dispatcher acknowledges a control packet before it looks at the receive window.
  For a packet of a known session whose id lies eight or more ahead of the expected one, the acknowledgement is
  written, the payload is dropped and the session's stream is unchanged; the peer, on that acknowledgement, removes
  the packet from its send queue, so it is never sent again.\<close>

theorem relay_acks_dropped_packet:
  assumes "length sid = 8" "length rsid = 8" "unat k < 8" "r_sessions r k = Some s"
    and "unat (Expected (cs_recvWindow s)) + 8 \<le> unat pid" "distinct (sq_ids peer_queue)"
  shows "\<exists>r' s'. relay_packet (buildControlV1WithKeyID sid rsid k pid [] payload) r = Some r' \<and>
     r_wire r' = r_wire r @ [buildAck (r_clientSID r) (r_serverSID r) k [pid]] \<and>
     r_sessions r' k = Some s' \<and> sview s' = sview s \<and>
     pid \<notin> set (sq_ids (AckMany [pid] peer_queue))"
proof -
  let ?pkt = "buildControlV1WithKeyID sid rsid k pid [] payload"
  have parse: "parseControlV1Payload ?pkt = Some (payload, pid)" "parseControlV1AckIDs ?pkt = Some []"
    using parse_without_acks [OF assms(1) refl, of "FirstByte P_CONTROL_V1 k" pid payload]
    by (simp_all add: buildControlV1WithKeyID_def)
  have "unat (Expected (cs_recvWindow s)) + 8 < 4294967296" using assms(5) unat_u32 [of pid] by linarith
  then have rc: "Receive pid payload (cs_recvWindow s) = (([], []), cs_recvWindow s)"
    using Receive_outside [of pid "cs_recvWindow s" payload] assms(5) by (simp add: Expected_def)
  have b0: "?pkt ! 0 = FirstByte P_CONTROL_V1 k" "\<not> length ?pkt < 1" by (simp_all add: buildControlV1WithKeyID_def)
  have "relay_packet ?pkt r = relay_control k ?pkt r"
    using b0 FirstByte_parts [OF _ assms(3), of P_CONTROL_V1]
    by (simp add: relay_packet_def Let_def opcode_defs)
  also have "\<dots> = Some (r\<lparr>r_wire := r_wire r @ [buildAck (r_clientSID r) (r_serverSID r) k [pid]],
                        r_sessions := (r_sessions r)(k \<mapsto> s)\<rparr>)"
    using parse assms(4) rc by (simp add: relay_control_def receiveControl_def Let_def)
  finally show ?thesis using assms(6) by (simp add: sq_ids_Ack)
qed

theorem relay_acks_dropped_packet_witness:
  "\<exists>r' s'. relay_packet (buildControlV1WithKeyID (replicate 8 2) (replicate 8 1) 2 8 [] [1]) sample_relay = Some r' \<and>
     r_wire r' = [buildAck (replicate 8 1) (replicate 8 2) 2 [8]] \<and> r_sessions r' 2 = Some s' \<and>
     sview s' = sview (fresh_session 2 0 0)"
proof -
  have "r_sessions sample_relay 2 = Some (fresh_session 2 0 0)" by (simp add: sample_relay_def)
  from relay_acks_dropped_packet [OF _ _ _ this, of "replicate 8 2" "replicate 8 1" 8 "NewSendQueue 0" "[1]"]
  obtain r' s' where "relay_packet (buildControlV1WithKeyID (replicate 8 2) (replicate 8 1) 2 8 [] [1]) sample_relay = Some r'"
    "r_wire r' = r_wire sample_relay @ [buildAck (r_clientSID sample_relay) (r_serverSID sample_relay) 2 [8]]"
    "r_sessions r' 2 = Some s'" "sview s' = sview (fresh_session 2 0 0)"
    by (auto simp: fresh_session_def Expected_def NewRecvWindowFrom_def NewSendQueue_def sq_ids_def)
  moreover have "r_wire sample_relay = []" "r_clientSID sample_relay = replicate 8 1" "r_serverSID sample_relay = replicate 8 2"
    by (simp_all add: sample_relay_def)
  ultimately show ?thesis by (metis append_Nil)
qed

text \<open>(sending).  A chunk of outbound TLS bytes becomes segments of 1 to 1024 bytes that concatenate to the chunk; each
  is written once, as a control packet of the session with consecutive packet ids from the queue's next id, and each
  written packet is also queued for retransmission, in the same order.\<close>

theorem send_chunk_reliable:
  assumes "r_sessions r k = Some s"
  shows "concat (segments chunk) = chunk \<and> (\<forall>seg \<in> set (segments chunk). 0 < length seg \<and> length seg \<le> 1024) \<and>
     r_wire (send_chunk now k chunk r) = r_wire r @ seg_wires r s (segments chunk) \<and>
     (\<exists>s'. r_sessions (send_chunk now k chunk r) k = Some s' \<and>
        map e_Payload (sq_entries (cs_sendQueue s')) =
          map e_Payload (sq_entries (cs_sendQueue s)) @ seg_wires r s (segments chunk))"
  using fold_send_segment [OF assms, of now "segments chunk"] segments_concat [of chunk] segments_bounds
  by (auto simp: send_chunk_def)

theorem send_chunk_reliable_witness:
  "r_wire (send_chunk 0 2 [7, 8] sample_relay) = [buildControlV1WithKeyID (replicate 8 1) (replicate 8 2) 2 0 [] [7, 8]]"
proof -
  have "r_sessions sample_relay 2 = Some (fresh_session 2 0 0)" by (simp add: sample_relay_def)
  from send_chunk_reliable [OF this, of "[7, 8]" 0] show ?thesis
    by (simp add: segments.simps seg_wires_def sample_relay_def fresh_session_def NextID_def NewSendQueue_def)
qed

text \<open>(acknowledgements).  When a peer's acknowledgement packet for key id \<open>k\<close> arrives, exactly the listed ids leave the
  send queue of that session, and the reset-acknowledged signal of a rekey session is raised exactly when packet 0 is
  among them; nothing is written.\<close>

theorem relay_ack_roundtrip:
  assumes "length sid = 8" "length rsid = 8" "length ids < 256" "unat k < 8" "r_sessions r k = Some s"
  shows "\<exists>r' s'. relay_packet (buildAck sid rsid k ids) r = Some r' \<and> r_sessions r' k = Some s' \<and>
     cs_sendQueue s' = AckMany ids (cs_sendQueue s) \<and>
     cs_resetAcked s' = (if 0 \<in> set ids then close_once (cs_resetAcked s) else cs_resetAcked s) \<and>
     r_wire r' = r_wire r"
  using relay_packet_buildAck [OF assms] fold_ack_one_fields [of ids s] by simp

theorem relay_ack_roundtrip_witness:
  "\<exists>r' s'. relay_packet (buildAck (replicate 8 2) (replicate 8 1) 2 [0, 3]) sample_relay = Some r' \<and>
     r_sessions r' 2 = Some s' \<and> cs_resetAcked s' = Some True"
proof -
  have "r_sessions sample_relay 2 = Some (fresh_session 2 0 0)" by (simp add: sample_relay_def)
  from relay_ack_roundtrip [OF _ _ _ _ this, of "replicate 8 2" "replicate 8 1" "[0, 3]"] show ?thesis
    by (auto simp: fresh_session_def close_once_def)
qed

end
