(* ===== verification/Go_Net.thy ===== *)
theory Go_Net
  imports Go_Strings
begin

unbundle bit_operations_syntax

section \<open>Addresses of Go's net package\<close>

text \<open>
  The part of \<^verbatim>\<open>net\<close> and \<^verbatim>\<open>net/netip\<close> that the parsers of pushed and profile options call: \<open>ParseIP\<close>,
  \<open>ParseCIDR\<close>, \<open>CIDRMask\<close>, \<open>IP.To4\<close>, \<open>IP.Mask\<close>, \<open>IP.String\<close> and \<open>IPMask.Size\<close>.  An address or a mask is its byte
  slice, of length 4 or 16; the nil slice is the empty list.
\<close>

type_synonym ip = bytes

type_synonym ipmask = bytes

subsection \<open>Dotted quads\<close>

text \<open>The loop of \<^verbatim>\<open>parseIPv4Fields\<close>: \<open>fs\<close> are the finished octets, \<open>v\<close> and \<open>dl\<close> the value and the length of the
  current one, \<open>prev\<close> tells whether the previous character was a dot (or there was none).\<close>

fun ipv4_fields :: "string \<Rightarrow> bytes \<Rightarrow> nat \<Rightarrow> nat \<Rightarrow> bool \<Rightarrow> bytes option" where
  "ipv4_fields [] fs v dl prev = (if length fs < 3 then None else Some (fs @ [of_nat v]))"
| "ipv4_fields (c # s) fs v dl prev =
     (if is_digit c then
        (if dl = 1 \<and> v = 0 then None
         else if 255 < v * 10 + digit_val c then None
         else ipv4_fields s fs (v * 10 + digit_val c) (dl + 1) False)
      else if c = CHR ''.'' then
        (if prev \<or> s = [] then None
         else if length fs = 3 then None
         else ipv4_fields s (fs @ [of_nat v]) 0 0 True)
      else None)"

definition parse_ipv4 :: "string \<Rightarrow> bytes option" where
  "parse_ipv4 s = ipv4_fields s [] 0 0 True"

subsection \<open>IPv6 text\<close>

definition is_hex :: "char \<Rightarrow> bool" where
  "is_hex c \<longleftrightarrow> is_digit c \<or> (97 \<le> code c \<and> code c \<le> 102) \<or> (65 \<le> code c \<and> code c \<le> 70)"

definition hex_val :: "char \<Rightarrow> nat" where
  "hex_val c = (if is_digit c then code c - 48 else if 97 \<le> code c then code c - 87 else code c - 55)"

definition hex_acc :: "string \<Rightarrow> nat" where
  "hex_acc s = foldl (\<lambda>a c. 16 * a + hex_val c) 0 s"

text \<open>The loop of \<^verbatim>\<open>parseIPv6\<close>: \<open>out\<close> are the bytes parsed so far and \<open>ell\<close> the position of the ellipsis.  The
  result is the same pair once the text is used up.  Each round consumes at least one character.\<close>

function ipv6_loop :: "string \<Rightarrow> bytes \<Rightarrow> nat option \<Rightarrow> (bytes \<times> nat option) option" where
  "ipv6_loop s out ell =
     (if 16 \<le> length out then (if s = [] then Some (out, ell) else None)
      else
        let h = takeWhile is_hex s; r = dropWhile is_hex s; acc = hex_acc h in
        if h = [] \<or> 4 < length h then None
        else if r \<noteq> [] \<and> hd r = CHR ''.'' then
          (if ell = None \<and> length out \<noteq> 12 then None
           else if 16 < length out + 4 then None
           else map_option (\<lambda>q. (out @ q, ell)) (parse_ipv4 s))
        else
          let out1 = out @ [of_nat (acc div 256), of_nat acc] in
          case r of
            [] \<Rightarrow> Some (out1, ell)
          | c # t \<Rightarrow>
              (if c \<noteq> CHR '':'' \<or> t = [] then None
               else if hd t = CHR '':'' then
                 (if ell \<noteq> None then None
                  else if tl t = [] then Some (out1, Some (length out1))
                  else ipv6_loop (tl t) out1 (Some (length out1)))
               else ipv6_loop t out1 ell))"
  by pat_completeness auto
termination by (relation "measure (\<lambda>(s, out, ell). 16 - length out)") auto

declare ipv6_loop.simps [simp del]

definition expand_ellipsis :: "bytes \<times> nat option \<Rightarrow> bytes option" where
  "expand_ellipsis p =
     (case p of (out, ell) \<Rightarrow>
        (if length out < 16 then
           (case ell of None \<Rightarrow> None
            | Some e \<Rightarrow> Some (take e out @ replicate (16 - length out) 0 @ drop e out))
         else if ell \<noteq> None then None else Some out))"

definition parse_ipv6 :: "string \<Rightarrow> bytes option" where
  "parse_ipv6 s =
     (if HasPrefix s ''::'' then
        (if drop 2 s = [] then Some (replicate 16 0)
         else Option.bind (ipv6_loop (drop 2 s) [] (Some 0)) expand_ellipsis)
      else Option.bind (ipv6_loop s [] None) expand_ellipsis)"

subsection \<open>Addresses\<close>

definition v4InV6Prefix :: bytes where
  "v4InV6Prefix = replicate 10 0 @ [0xff, 0xff]"

text \<open>\<^verbatim>\<open>netip.ParseAddr\<close> without a zone: the first of the characters \<^verbatim>\<open>.\<close>, \<^verbatim>\<open>:\<close> and \<^verbatim>\<open>%\<close> decides; the result is
  the address in its own length.  The callers refuse an address with a zone.\<close>

definition ParseAddr :: "string \<Rightarrow> bytes option" where
  "ParseAddr s =
     (if CHR ''%'' \<in> set s then None
      else case dropWhile (\<lambda>c. c \<noteq> CHR ''.'' \<and> c \<noteq> CHR '':'') s of
        [] \<Rightarrow> None
      | c # _ \<Rightarrow> (if c = CHR ''.'' then parse_ipv4 s else parse_ipv6 s))"

definition As16 :: "bytes \<Rightarrow> ip" where
  "As16 a = (if length a = 4 then v4InV6Prefix @ a else a)"

definition ParseIP :: "string \<Rightarrow> ip" where
  "ParseIP s = (case ParseAddr s of None \<Rightarrow> [] | Some a \<Rightarrow> As16 a)"

definition To4 :: "ip \<Rightarrow> ip" where
  "To4 i = (if length i = 4 then i
            else if length i = 16 \<and> take 12 i = v4InV6Prefix then drop 12 i else [])"

definition mask_byte :: "nat \<Rightarrow> nat \<Rightarrow> byte" where
  "mask_byte ones k =
     (if 8 \<le> ones - 8 * k then 0xff else of_nat (256 - 2 ^ (8 - (ones - 8 * k))))"

definition CIDRMask :: "nat \<Rightarrow> nat \<Rightarrow> ipmask" where
  "CIDRMask ones bits =
     (if (bits \<noteq> 32 \<and> bits \<noteq> 128) \<or> bits < ones then [] else map (mask_byte ones) [0..<bits div 8])"

definition IP_Mask :: "ipmask \<Rightarrow> ip \<Rightarrow> ip" where
  "IP_Mask m i =
     (let m1 = (if length m = 16 \<and> length i = 4 \<and> take 12 m = replicate 12 0xff then drop 12 m else m);
          i1 = (if length m1 = 4 \<and> length i = 16 \<and> take 12 i = v4InV6Prefix then drop 12 i else i)
      in if length i1 \<noteq> length m1 then [] else map2 (AND) i1 m1)"

text \<open>\<^verbatim>\<open>IPMask.Size\<close>: the number of leading ones, 0 when a one follows a zero.\<close>

definition byte_bits :: "byte \<Rightarrow> bool list" where
  "byte_bits b = map (bit b) (rev [0..<8])"

definition mask_ones :: "ipmask \<Rightarrow> nat" where
  "mask_ones m =
     (let bs = concat (map byte_bits m); n = length (takeWhile id bs)
      in if list_all Not (drop n bs) then n else 0)"

text \<open>\<^verbatim>\<open>net.dtoi\<close> on the whole text.\<close>

definition dtoi :: "string \<Rightarrow> nat option" where
  "dtoi s = (if s \<noteq> [] \<and> list_all is_digit s \<and> digits_val s < 16777215 then Some (digits_val s) else None)"

text \<open>The address, the network address and its mask.\<close>

definition ParseCIDR :: "string \<Rightarrow> (ip \<times> ip \<times> ipmask) option" where
  "ParseCIDR s =
     (case dropWhile (\<lambda>c. c \<noteq> CHR ''/'') s of
        [] \<Rightarrow> None
      | _ # mtext \<Rightarrow>
          (case ParseAddr (takeWhile (\<lambda>c. c \<noteq> CHR ''/'') s) of
             None \<Rightarrow> None
           | Some a \<Rightarrow>
               (case dtoi mtext of
                  None \<Rightarrow> None
                | Some n \<Rightarrow>
                    (if 8 * length a < n then None
                     else let m = CIDRMask n (8 * length a)
                          in Some (As16 a, IP_Mask m (As16 a), m)))))"

text \<open>\<^verbatim>\<open>net.SplitHostPort\<close>: the host and the port around the last colon, a host in brackets may contain colons.\<close>

definition split_last_colon :: "string \<Rightarrow> (string \<times> string) option" where
  "split_last_colon s =
     (if CHR '':'' \<in> set s
      then Some (rev (tl (dropWhile (\<lambda>c. c \<noteq> CHR '':'') (rev s))), rev (takeWhile (\<lambda>c. c \<noteq> CHR '':'') (rev s)))
      else None)"

definition SplitHostPort :: "string \<Rightarrow> (string \<times> string) option" where
  "SplitHostPort hostport =
     (case split_last_colon hostport of
        None \<Rightarrow> None
      | Some (before, port) \<Rightarrow>
          (if hostport \<noteq> [] \<and> hd hostport = CHR ''['' then
             (if CHR '']'' \<in> set hostport \<and> length (takeWhile (\<lambda>c. c \<noteq> CHR '']'') hostport) + 1 = length before \<and>
                 CHR ''['' \<notin> set (tl hostport) \<and> CHR '']'' \<notin> set port
              then Some (tl (butlast before), port) else None)
           else if CHR '':'' \<in> set before \<or> CHR ''['' \<in> set hostport \<or> CHR '']'' \<in> set hostport then None
           else Some (before, port)))"

subsection \<open>Printing\<close>

fun nat_digits :: "nat \<Rightarrow> string" where
  "nat_digits n = (if n < 10 then [char_of (48 + n)] else nat_digits (n div 10) @ [char_of (48 + n mod 10)])"

declare nat_digits.simps [simp del]

definition hex_digit :: "nat \<Rightarrow> char" where
  "hex_digit n = (if n < 10 then char_of (48 + n) else char_of (87 + n))"

fun hex_digits :: "nat \<Rightarrow> string" where
  "hex_digits n = (if n < 16 then [hex_digit n] else hex_digits (n div 16) @ [hex_digit (n mod 16)])"

declare hex_digits.simps [simp del]

fun join :: "string \<Rightarrow> string list \<Rightarrow> string" where
  "join sep [] = []"
| "join sep [x] = x"
| "join sep (x # xs) = x @ sep @ join sep xs"

definition ipv4_string :: "bytes \<Rightarrow> string" where
  "ipv4_string a = join ''.'' (map (\<lambda>b. nat_digits (unat b)) a)"

fun groups16 :: "bytes \<Rightarrow> nat list" where
  "groups16 (a # b # r) = (256 * unat a + unat b) # groups16 r"
| "groups16 _ = []"

text \<open>The first longest run of at least two zero groups, as its bounds; \<open>(255, 255)\<close> when there is none.\<close>

definition zero_run :: "nat list \<Rightarrow> nat \<times> nat" where
  "zero_run gs =
     fold (\<lambda>i (zs, ze). let j = i + length (takeWhile (\<lambda>g. g = 0) (drop i gs))
                        in if 2 \<le> j - i \<and> ze - zs < j - i then (i, j) else (zs, ze))
       [0..<8] (255, 255)"

definition ipv6_string :: "bytes \<Rightarrow> string" where
  "ipv6_string a =
     (let gs = groups16 a; (zs, ze) = zero_run gs;
          txt = (\<lambda>g. join '':'' (map hex_digits g))
      in if zs = 255 then txt gs else txt (take zs gs) @ ''::'' @ txt (drop ze gs))"

definition IP_String :: "ip \<Rightarrow> string" where
  "IP_String i =
     (if i = [] then ''<nil>''
      else if length i \<noteq> 4 \<and> length i \<noteq> 16 then CHR ''?'' # concat (map (\<lambda>b. [hex_digit (unat b div 16), hex_digit (unat b mod 16)]) i)
      else if length (To4 i) = 4 then ipv4_string (To4 i)
      else ipv6_string i)"

subsection \<open>Lengths\<close>

lemma ipv4_fields_length: "ipv4_fields s fs v dl prev = Some q \<Longrightarrow> length fs \<le> 3 \<Longrightarrow> length q = 4"
  by (induction s fs v dl prev rule: ipv4_fields.induct) (auto split: if_splits)

lemma parse_ipv4_length: "parse_ipv4 s = Some q \<Longrightarrow> length q = 4"
  by (simp add: parse_ipv4_def ipv4_fields_length)

lemma ipv6_loop_length:
  "ipv6_loop s out ell = Some (q, e) \<Longrightarrow> even (length out) \<Longrightarrow> length out \<le> 16 \<Longrightarrow> pred_option (\<lambda>e. e \<le> length out) ell \<Longrightarrow>
   length q \<le> 16 \<and> pred_option (\<lambda>e. e \<le> length q) e"
proof (induction s out ell arbitrary: q e rule: ipv6_loop.induct)
  case (1 s out ell)
  show ?case
  proof (cases "16 \<le> length out")
    case True
    then show ?thesis using 1(3-6) by (simp add: ipv6_loop.simps split: if_splits)
  next
    case False
    then have l: "length out + 2 \<le> 16" using \<open>even (length out)\<close> by presburger
    define h where "h = takeWhile is_hex s"
    define r where "r = dropWhile is_hex s"
    define out1 where "out1 = out @ [of_nat (hex_acc h div 256), of_nat (hex_acc h)]"
    have l1: "length out1 = length out + 2" by (simp add: out1_def)
    have eq: "ipv6_loop s out ell =
        (if h = [] \<or> 4 < length h then None
         else if r \<noteq> [] \<and> hd r = CHR ''.'' then
           (if ell = None \<and> length out \<noteq> 12 then None
            else if 16 < length out + 4 then None else map_option (\<lambda>q. (out @ q, ell)) (parse_ipv4 s))
         else case r of
            [] \<Rightarrow> Some (out1, ell)
          | c # t \<Rightarrow>
              (if c \<noteq> CHR '':'' \<or> t = [] then None
               else if hd t = CHR '':'' then
                 (if ell \<noteq> None then None
                  else if tl t = [] then Some (out1, Some (length out1))
                  else ipv6_loop (tl t) out1 (Some (length out1)))
               else ipv6_loop t out1 ell))"
      using False by (subst ipv6_loop.simps) (simp only: Let_def h_def r_def out1_def if_False)
    have h: "\<not> (h = [] \<or> 4 < length h)" using 1(3) eq by (auto split: if_splits)
    show ?thesis
    proof (cases "r \<noteq> [] \<and> hd r = CHR ''.''")
      case True
      then obtain v where "parse_ipv4 s = Some v" "q = out @ v" "e = ell" "length out + 4 \<le> 16"
        using 1(3) eq h by (auto split: if_splits)
      then show ?thesis using parse_ipv4_length 1(6) by (cases ell) fastforce+
    next
      case nodot: False
      show ?thesis
      proof (cases r)
        case Nil
        then have "q = out1" "e = ell" using 1(3) eq h by auto
        then show ?thesis using l l1 1(6) by (cases ell) simp_all
      next
        case (Cons c t)
        have c: "\<not> (c \<noteq> CHR '':'' \<or> t = [])" using 1(3) eq h Cons nodot by (auto split: if_splits)
        have eq2: "(if hd t = CHR '':'' then
                 (if ell \<noteq> None then None
                  else if tl t = [] then Some (out1, Some (length out1))
                  else ipv6_loop (tl t) out1 (Some (length out1)))
               else ipv6_loop t out1 ell) = Some (q, e)"
          using 1(3) eq h Cons nodot c by auto
        show ?thesis
        proof (cases "hd t = CHR '':''")
          case True
          then have ell: "\<not> ell \<noteq> None" using eq2 by (auto split: if_splits)
          show ?thesis
          proof (cases "tl t = []")
            case tl: True
            then show ?thesis using eq2 True ell l l1 by auto
          next
            case tl: False
            then have "ipv6_loop (tl t) out1 (Some (length out1)) = Some (q, e)" using eq2 True ell by auto
            then show ?thesis
              using 1(1) [OF False h_def r_def refl h nodot _ Cons c True ell tl, of out1 q e] 1(4) l l1
              by (simp add: out1_def)
          qed
        next
          case ntrue: False
          then have "ipv6_loop t out1 ell = Some (q, e)" using eq2 by auto
          moreover have "pred_option (\<lambda>e. e \<le> length out1) ell" using 1(6) l1 by (cases ell) simp_all
          ultimately show ?thesis
            using 1(2) [OF False h_def r_def refl h nodot _ Cons c ntrue, of out1 q e] 1(4) l l1 by (simp add: out1_def)
        qed
      qed
    qed
  qed
qed

lemma parse_ipv6_length: "parse_ipv6 s = Some q \<Longrightarrow> length q = 16"
  using ipv6_loop_length [of s "[]" None] ipv6_loop_length [of "drop 2 s" "[]" "Some 0"]
  by (fastforce simp: parse_ipv6_def expand_ellipsis_def split: if_splits option.splits bind_splits)

lemma ParseAddr_length: "ParseAddr s = Some q \<Longrightarrow> length q = 4 \<or> length q = 16"
  by (auto simp: ParseAddr_def parse_ipv4_length parse_ipv6_length split: if_splits list.splits)

lemma ParseIP_length: "ParseIP s \<noteq> [] \<Longrightarrow> length (ParseIP s) = 16"
  using ParseAddr_length [of s] by (auto simp: ParseIP_def As16_def v4InV6Prefix_def split: option.splits)

lemma To4_cases: "length (To4 i) = 0 \<or> length (To4 i) = 4"
  by (auto simp: To4_def)

lemma To4_length: "To4 i \<noteq> [] \<Longrightarrow> length (To4 i) = 4"
  using To4_cases [of i] by simp

lemma byte_bits_mask:
  "byte_bits (mask_byte n k) = replicate (min 8 (n - 8 * k)) True @ replicate (8 - min 8 (n - 8 * k)) False"
proof -
  have "list_all (\<lambda>d. byte_bits (of_nat (256 - 2 ^ (8 - d))) = replicate d True @ replicate (8 - d) False) [0..<8]"
    "byte_bits 0xff = replicate 8 True" by code_simp+
  then show ?thesis by (cases "8 \<le> n - 8 * k") (simp_all add: mask_byte_def list_all_iff min_def)
qed

lemma mask_bits:
  "concat (map (\<lambda>k. byte_bits (mask_byte n k)) [0..<m]) = replicate (min n (8 * m)) True @ replicate (8 * m - min n (8 * m)) False"
proof (induction m)
  case (Suc m)
  show ?case
  proof (cases "n \<le> 8 * m")
    case True
    then show ?thesis using Suc by (simp add: byte_bits_mask min_def flip: replicate_add)
  next
    case False
    then have "8 * m + min 8 (n - 8 * m) = min n (8 * Suc m)" unfolding min_def by (cases "8 \<le> n - 8 * m"; cases "n \<le> 8 * Suc m") simp_all
    then have "replicate (8 * m) True @ replicate (min 8 (n - 8 * m)) True = replicate (min n (8 * Suc m)) True"
      by (metis replicate_add)
    moreover have "8 - min 8 (n - 8 * m) = 8 * Suc m - min n (8 * Suc m)" using False by auto
    ultimately show ?thesis using Suc False by (simp add: byte_bits_mask min_def flip: append_assoc)
  qed
qed simp

lemma mask_ones_CIDRMask: "n \<le> bits \<Longrightarrow> bits = 32 \<or> bits = 128 \<Longrightarrow> mask_ones (CIDRMask n bits) = n"
proof -
  assume a: "n \<le> bits" "bits = 32 \<or> bits = 128"
  then have "concat (map byte_bits (CIDRMask n bits)) = replicate n True @ replicate (bits - n) False"
    using mask_bits [of n "bits div 8"] by (auto simp: CIDRMask_def comp_def)
  moreover have "takeWhile id (replicate n True @ replicate (bits - n) False) = replicate n True"
    by (simp add: takeWhile_append)
  ultimately show ?thesis by (simp add: mask_ones_def Let_def list_all_iff)
qed

lemma CIDRMask_length: "n \<le> bits \<Longrightarrow> bits = 32 \<or> bits = 128 \<Longrightarrow> length (CIDRMask n bits) = bits div 8"
  by (auto simp: CIDRMask_def)

lemma ParseCIDR_props:
  assumes "ParseCIDR s = Some (i, n, m)"
  shows "length i = 16 \<and> (length m = 4 \<or> length m = 16) \<and> length n = length m \<and> mask_ones m \<le> 8 * length m"
proof -
  from assms obtain a k where a: "ParseAddr (takeWhile (\<lambda>c. c \<noteq> CHR ''/'') s) = Some a" "\<not> 8 * length a < k"
    "m = CIDRMask k (8 * length a)" "i = As16 a" "n = IP_Mask m (As16 a)"
    unfolding ParseCIDR_def Let_def by (simp split: list.splits option.splits if_splits) blast
  from ParseAddr_length [OF a(1)] show ?thesis
    using a(2-5) CIDRMask_length [of k "8 * length a"] mask_ones_CIDRMask [of k "8 * length a"]
    by (auto simp: As16_def IP_Mask_def v4InV6Prefix_def Let_def)
qed

subsection \<open>Printing and parsing dotted quads\<close>

lemma code_char_of: "n < 256 \<Longrightarrow> code (char_of n) = n"
  by (simp add: code_def)

lemma digit_char: "n < 10 \<Longrightarrow> is_digit (char_of (48 + n)) \<and> digit_val (char_of (48 + n)) = n"
  using code_char_of [of "48 + n"] by (simp add: is_digit_def digit_val_def)

lemma nat_digits_1: "n < 10 \<Longrightarrow> nat_digits n = [char_of (48 + n)]"
  by (simp add: nat_digits.simps)

lemma nat_digits_2: "10 \<le> n \<Longrightarrow> n < 100 \<Longrightarrow> nat_digits n = [char_of (48 + n div 10), char_of (48 + n mod 10)]"
  by (subst nat_digits.simps) (simp add: nat_digits_1)

lemma nat_digits_3:
  "100 \<le> n \<Longrightarrow> n < 1000 \<Longrightarrow>
   nat_digits n = [char_of (48 + n div 100), char_of (48 + n div 10 mod 10), char_of (48 + n mod 10)]"
  by (subst nat_digits.simps) (simp add: nat_digits_2 div_mult2_eq flip: div_mult2_eq)

lemma ipv4_fields_octet:
  assumes "n < 256"
  shows "\<exists>dl. ipv4_fields (nat_digits n @ s) fs 0 0 p = ipv4_fields s fs n dl False"
proof -
  consider (one) "n < 10" | (two) "10 \<le> n" "n < 100" | (three) "100 \<le> n" "n < 256" using assms by linarith
  then show ?thesis
  proof cases
    case one
    then show ?thesis by (simp add: nat_digits_1 digit_char) blast
  next
    case two
    then have "0 < n div 10" "n div 10 < 10" "n div 10 * 10 + n mod 10 = n" by (simp_all add: div_greater_zero_iff)
    moreover have "\<not> 255 < n div 10" "\<not> 255 < n" using two by simp_all
    ultimately show ?thesis using two by (simp add: nat_digits_2 digit_char) blast
  next
    case three
    define u v w where "u = n div 100" and "v = n div 10 mod 10" and "w = n mod 10"
    have d: "0 < u" "u < 10" "v < 10" "w < 10" "n div 10 * 10 + w = n" "n div 10 < 26"
      using three unfolding u_def v_def w_def by (simp_all add: div_greater_zero_iff)
    have uv: "u * 10 + v = n div 10"
      using div_mult_mod_eq [of "n div 10" 10] unfolding u_def v_def by (simp flip: div_mult2_eq)
    have "nat_digits n = [char_of (48 + u), char_of (48 + v), char_of (48 + w)]"
      using three by (simp add: nat_digits_3 u_def v_def w_def)
    moreover note digit_char [OF d(2)] digit_char [OF d(3)] digit_char [OF d(4)]
    ultimately have "ipv4_fields (nat_digits n @ s) fs 0 0 p = ipv4_fields s fs n 3 False"
      using d(1,2) d(6) three by (simp add: d(5) uv numeral_3_eq_3)
    then show ?thesis by blast
  qed
qed

lemma ipv4_fields_dot: "\<not> prev \<Longrightarrow> s \<noteq> [] \<Longrightarrow> length fs < 3 \<Longrightarrow>
  ipv4_fields (CHR ''.'' # s) fs v dl prev = ipv4_fields s (fs @ [of_nat v]) 0 0 True"
  by (simp add: is_digit_def code_def)

lemma nat_digits_nonempty [simp]: "nat_digits n \<noteq> []"
  by (subst nat_digits.simps) simp

lemma parse_ipv4_string: "length a = 4 \<Longrightarrow> parse_ipv4 (ipv4_string a) = Some a"
proof -
  assume "length a = 4"
  then obtain w x y z where a: "a = [w, x, y, z]" by (auto simp: length_Suc_conv numeral_eq_Suc)
  have b: "unat v < 256" for v :: byte using unsigned_less [of v] by simp
  let ?d = "\<lambda>v :: byte. nat_digits (unat v)"
  obtain d1 d2 d3 d4 where
    "ipv4_fields (?d w @ CHR ''.'' # ?d x @ CHR ''.'' # ?d y @ CHR ''.'' # ?d z) [] 0 0 True =
       ipv4_fields (CHR ''.'' # ?d x @ CHR ''.'' # ?d y @ CHR ''.'' # ?d z) [] (unat w) d1 False"
    "ipv4_fields (?d x @ CHR ''.'' # ?d y @ CHR ''.'' # ?d z) [w] 0 0 True =
       ipv4_fields (CHR ''.'' # ?d y @ CHR ''.'' # ?d z) [w] (unat x) d2 False"
    "ipv4_fields (?d y @ CHR ''.'' # ?d z) [w, x] 0 0 True = ipv4_fields (CHR ''.'' # ?d z) [w, x] (unat y) d3 False"
    "ipv4_fields (?d z) [w, x, y] 0 0 True = ipv4_fields [] [w, x, y] (unat z) d4 False"
    using ipv4_fields_octet [OF b] by (metis append.right_neutral)
  then show ?thesis
    by (simp add: a parse_ipv4_def ipv4_string_def ipv4_fields_dot del: ipv4_fields.simps(2))
qed

end
