(* ===== verification/Push_Reply.thy ===== *)
theory Push_Reply
  imports Go_Net Compress
begin

section \<open>Pushed options\<close>

text \<open>
  Models \<^verbatim>\<open>routing/push.go\<close>: the options a PUSH_REPLY message carries and \<open>ParsePushReply\<close>.  Each case of its switch is a
  definition on the options parsed so far and the explicit route gateway; the error constructors are the error
  messages.  A nil pointer is \<open>None\<close>, a nil address the empty list.
\<close>

datatype Topology = TopologyNet30 | TopologySubnet

record Ifconfig =
  ifc_Local :: ip
  ifc_Mask :: ipmask
  ifc_Gateway :: ip

record Ifconfig6 =
  ifc6_Local :: ip
  ifc6_Prefix :: nat
  ifc6_Gateway :: ip

record Route =
  rt_Network :: ip
  rt_Mask :: ipmask
  rt_Gateway :: ip

record Route6 =
  rt6_Network :: ip
  rt6_Prefix :: nat
  rt6_Gateway :: ip

datatype KeyDerivation = KeyDerivationTLSEKM | KeyDerivationOpenVPNPRF

record PushOptions =
  po_Topology :: Topology
  po_Ifconfig :: "Ifconfig option"
  po_Ifconfig6 :: "Ifconfig6 option"
  po_Routes :: "Route list"
  po_Routes6 :: "Route6 list"
  po_RedirectGateway :: bool
  po_RedirectGateway6 :: bool
  po_Cipher :: string
  po_Compression :: Mode
  po_PingInterval :: int
  po_PingRestart :: int
  po_PingExit :: int
  po_Mssfix :: int
  po_InactiveTimeout :: int
  po_InactiveBytes :: int
  po_AuthToken :: string
  po_KeyDerivation :: KeyDerivation

datatype push_error =
    TopologyExpectedArgument | TopologyUnknown string
  | RouteGatewayExpectedArgument | RouteGatewayInvalidIP string
  | IfconfigExpectedArgs nat | IfconfigInvalidLocal string | IfconfigInvalidSecond string | IfconfigMaskNotIPv4 string
  | RouteExpectedNetwork | RouteInvalidNetwork string | RouteInvalidMask string | RouteMaskNotIPv4 string
  | RouteInvalidGateway string
  | Ifconfig6Expected | Ifconfig6Invalid string | Ifconfig6InvalidGateway string
  | Route6Expected | Route6Invalid string | Route6InvalidGateway string

type_synonym push_state = "PushOptions \<times> ip"

definition zero_options :: PushOptions where
  "zero_options =
     \<lparr>po_Topology = TopologyNet30, po_Ifconfig = None, po_Ifconfig6 = None, po_Routes = [], po_Routes6 = [],
      po_RedirectGateway = False, po_RedirectGateway6 = False, po_Cipher = [], po_Compression = ModeNone,
      po_PingInterval = 0, po_PingRestart = 0, po_PingExit = 0, po_Mssfix = 0, po_InactiveTimeout = 0,
      po_InactiveBytes = 0, po_AuthToken = [], po_KeyDerivation = KeyDerivationOpenVPNPRF\<rparr>"

subsection \<open>The directives\<close>

definition push_topology :: "string list \<Rightarrow> push_state \<Rightarrow> (push_error, push_state) result" where
  "push_topology parts st =
     (if length parts < 2 then Inl TopologyExpectedArgument
      else if ToLower (parts ! 1) = ''subnet'' then Inr (apfst (po_Topology_update (\<lambda>_. TopologySubnet)) st)
      else if ToLower (parts ! 1) = ''net30'' then Inr (apfst (po_Topology_update (\<lambda>_. TopologyNet30)) st)
      else Inl (TopologyUnknown (parts ! 1)))"

definition push_route_gateway :: "string list \<Rightarrow> push_state \<Rightarrow> (push_error, push_state) result" where
  "push_route_gateway parts st =
     (if length parts < 2 then Inl RouteGatewayExpectedArgument
      else if ToLower (parts ! 1) \<noteq> ''vpn_gateway'' then
        (let gw = ParseIP (parts ! 1) in
         if gw = [] then Inl (RouteGatewayInvalidIP (parts ! 1)) else Inr (fst st, To4 gw))
      else Inr st)"

definition push_ifconfig :: "string list \<Rightarrow> push_state \<Rightarrow> (push_error, push_state) result" where
  "push_ifconfig parts st =
     (if length parts < 3 then Inl (IfconfigExpectedArgs (length parts - 1))
      else let local = ParseIP (parts ! 1) in
        if local = [] then Inl (IfconfigInvalidLocal (parts ! 1))
        else let second = ParseIP (parts ! 2) in
          if second = [] then Inl (IfconfigInvalidSecond (parts ! 2))
          else if po_Topology (fst st) = TopologySubnet then
            (let mask4 = To4 second in
             if mask4 = [] then Inl (IfconfigMaskNotIPv4 (parts ! 2))
             else Inr (apfst (po_Ifconfig_update (\<lambda>_. Some \<lparr>ifc_Local = To4 local, ifc_Mask = mask4, ifc_Gateway = []\<rparr>)) st))
          else
            Inr (apfst (po_Ifconfig_update
                   (\<lambda>_. Some \<lparr>ifc_Local = To4 local, ifc_Mask = CIDRMask 30 32, ifc_Gateway = To4 second\<rparr>)) st))"

definition route_mask :: "string list \<Rightarrow> (push_error, ipmask) result" where
  "route_mask parts =
     (if 3 \<le> length parts then
        (let maskIP = ParseIP (parts ! 2) in
         if maskIP = [] then Inl (RouteInvalidMask (parts ! 2))
         else let mask4 = To4 maskIP in
           if mask4 = [] then Inl (RouteMaskNotIPv4 (parts ! 2)) else Inr mask4)
      else Inr (CIDRMask 32 32))"

definition push_route :: "string list \<Rightarrow> push_state \<Rightarrow> (push_error, push_state) result" where
  "push_route parts st =
     (if length parts < 2 then Inl RouteExpectedNetwork
      else let netIP = ParseIP (parts ! 1) in
        if netIP = [] then Inl (RouteInvalidNetwork (parts ! 1))
        else case route_mask parts of
          Inl e \<Rightarrow> Inl e
        | Inr m \<Rightarrow>
            (let add = (\<lambda>gw. apfst (po_Routes_update (\<lambda>rs. rs @ [\<lparr>rt_Network = To4 netIP, rt_Mask = m, rt_Gateway = gw\<rparr>])) st)
             in if 4 \<le> length parts then
                  (let gw = ParseIP (parts ! 3) in
                   if gw = [] then Inl (RouteInvalidGateway (parts ! 3)) else Inr (add (To4 gw)))
                else Inr (add [])))"

definition push_cipher :: "string list \<Rightarrow> PushOptions \<Rightarrow> PushOptions" where
  "push_cipher parts po = (if 2 \<le> length parts then po\<lparr>po_Cipher := parts ! 1\<rparr> else po)"

definition push_compress :: "string list \<Rightarrow> PushOptions \<Rightarrow> PushOptions" where
  "push_compress parts po =
     (if 2 \<le> length parts then
        (if ToLower (parts ! 1) \<in> {''lz4'', ''lz4-v2''} then po\<lparr>po_Compression := ModeLZ4\<rparr>
         else if ToLower (parts ! 1) = ''stub-v2'' then po\<lparr>po_Compression := ModeLZ4\<rparr>
         else po)
      else po)"

definition push_ifconfig6 :: "string list \<Rightarrow> push_state \<Rightarrow> (push_error, push_state) result" where
  "push_ifconfig6 parts st =
     (if length parts < 2 then Inl Ifconfig6Expected
      else case ParseCIDR (parts ! 1) of
        None \<Rightarrow> Inl (Ifconfig6Invalid (parts ! 1))
      | Some (ip6, _, m) \<Rightarrow>
          (let set6 = (\<lambda>gw. apfst (po_Ifconfig6_update
                         (\<lambda>_. Some \<lparr>ifc6_Local = ip6, ifc6_Prefix = mask_ones m, ifc6_Gateway = gw\<rparr>)) st)
           in if 3 \<le> length parts then
                (let gw6 = ParseIP (parts ! 2) in
                 if gw6 = [] then Inl (Ifconfig6InvalidGateway (parts ! 2)) else Inr (set6 gw6))
              else Inr (set6 [])))"

definition push_route6 :: "string list \<Rightarrow> push_state \<Rightarrow> (push_error, push_state) result" where
  "push_route6 parts st =
     (if length parts < 2 then Inl Route6Expected
      else case ParseCIDR (parts ! 1) of
        None \<Rightarrow> Inl (Route6Invalid (parts ! 1))
      | Some (_, net6, m) \<Rightarrow>
          (let add = (\<lambda>gw. apfst (po_Routes6_update
                        (\<lambda>rs. rs @ [\<lparr>rt6_Network = net6, rt6_Prefix = mask_ones m, rt6_Gateway = gw\<rparr>])) st)
           in if 3 \<le> length parts then
                (let gw6 = ParseIP (parts ! 2) in
                 if gw6 = [] then Inl (Route6InvalidGateway (parts ! 2)) else Inr (add gw6))
              else Inr (add [])))"

definition push_redirect_gateway :: "string list \<Rightarrow> PushOptions \<Rightarrow> PushOptions" where
  "push_redirect_gateway parts po =
     (let po1 = fold (\<lambda>flag po. if EqualFold flag ''ipv6'' then po\<lparr>po_RedirectGateway6 := True\<rparr> else po) (tl parts) po
      in po1\<lparr>po_RedirectGateway := True\<rparr>)"

text \<open>A number scanned by \<^verbatim>\<open>Sscanf\<close> that passes a test is stored; anything else leaves the options as they are.\<close>

definition scan_into :: "string \<Rightarrow> (int \<Rightarrow> bool) \<Rightarrow> (int \<Rightarrow> PushOptions \<Rightarrow> PushOptions) \<Rightarrow> PushOptions \<Rightarrow> PushOptions" where
  "scan_into s ok upd po = (case Sscanf_d s of None \<Rightarrow> po | Some v \<Rightarrow> if ok v then upd v po else po)"

definition set_restart :: "int \<Rightarrow> PushOptions \<Rightarrow> PushOptions" where
  "set_restart v po = po\<lparr>po_PingRestart := v, po_PingExit := 0\<rparr>"

definition set_exit :: "int \<Rightarrow> PushOptions \<Rightarrow> PushOptions" where
  "set_exit v po = po\<lparr>po_PingExit := v, po_PingRestart := 0\<rparr>"

definition push_ping :: "string list \<Rightarrow> PushOptions \<Rightarrow> PushOptions" where
  "push_ping parts po =
     (if 2 \<le> length parts then scan_into (parts ! 1) (\<lambda>v. 0 < v) (\<lambda>v. po_PingInterval_update (\<lambda>_. v)) po else po)"

definition push_ping_restart :: "string list \<Rightarrow> PushOptions \<Rightarrow> PushOptions" where
  "push_ping_restart parts po = (if 2 \<le> length parts then scan_into (parts ! 1) (\<lambda>v. 0 < v) set_restart po else po)"

definition push_ping_exit :: "string list \<Rightarrow> PushOptions \<Rightarrow> PushOptions" where
  "push_ping_exit parts po = (if 2 \<le> length parts then scan_into (parts ! 1) (\<lambda>v. 0 < v) set_exit po else po)"

definition push_keepalive :: "string list \<Rightarrow> PushOptions \<Rightarrow> PushOptions" where
  "push_keepalive parts po =
     (if 3 \<le> length parts then
        scan_into (parts ! 2) (\<lambda>v. 0 < v) set_restart
          (scan_into (parts ! 1) (\<lambda>v. 0 < v) (\<lambda>v. po_PingInterval_update (\<lambda>_. v)) po)
      else po)"

definition push_mssfix :: "string list \<Rightarrow> PushOptions \<Rightarrow> PushOptions" where
  "push_mssfix parts po =
     (if 2 \<le> length parts then scan_into (parts ! 1) (\<lambda>v. 68 \<le> v \<and> v \<le> 65535) (\<lambda>v. po_Mssfix_update (\<lambda>_. v)) po else po)"

definition push_protocol_flags :: "string list \<Rightarrow> PushOptions \<Rightarrow> PushOptions" where
  "push_protocol_flags parts po =
     fold (\<lambda>flag po. if EqualFold flag ''tls-ekm'' then po\<lparr>po_KeyDerivation := KeyDerivationTLSEKM\<rparr> else po) (tl parts) po"

definition push_key_derivation :: "string list \<Rightarrow> PushOptions \<Rightarrow> PushOptions" where
  "push_key_derivation parts po =
     (if 2 \<le> length parts \<and> EqualFold (parts ! 1) ''tls-ekm'' then po\<lparr>po_KeyDerivation := KeyDerivationTLSEKM\<rparr> else po)"

definition push_inactive :: "string list \<Rightarrow> PushOptions \<Rightarrow> PushOptions" where
  "push_inactive parts po =
     (if 2 \<le> length parts then
        (let po1 = scan_into (parts ! 1) (\<lambda>v. 0 < v) (\<lambda>v. po_InactiveTimeout_update (\<lambda>_. v)) po
         in if 3 \<le> length parts then scan_into (parts ! 2) (\<lambda>v. 0 \<le> v) (\<lambda>v. po_InactiveBytes_update (\<lambda>_. v)) po1 else po1)
      else po)"

definition push_auth_token :: "string list \<Rightarrow> PushOptions \<Rightarrow> PushOptions" where
  "push_auth_token parts po = (if 2 \<le> length parts then po\<lparr>po_AuthToken := parts ! 1\<rparr> else po)"

subsection \<open>The message\<close>

definition push_directive :: "string list \<Rightarrow> push_state \<Rightarrow> (push_error, push_state) result" where
  "push_directive parts st =
     (let name = ToLower (parts ! 0); pure = (\<lambda>f. Inr (apfst (f parts) st)) in
      if name = ''topology'' then push_topology parts st
      else if name = ''route-gateway'' then push_route_gateway parts st
      else if name = ''ifconfig'' then push_ifconfig parts st
      else if name = ''route'' then push_route parts st
      else if name = ''cipher'' then pure push_cipher
      else if name = ''compress'' then pure push_compress
      else if name = ''comp-lzo'' then pure (\<lambda>_. po_Compression_update (\<lambda>_. ModeLZO))
      else if name = ''ifconfig-ipv6'' then push_ifconfig6 parts st
      else if name = ''route-ipv6'' then push_route6 parts st
      else if name = ''redirect-gateway'' then pure push_redirect_gateway
      else if name = ''ping'' then pure push_ping
      else if name = ''ping-restart'' then pure push_ping_restart
      else if name = ''ping-exit'' then pure push_ping_exit
      else if name = ''keepalive'' then pure push_keepalive
      else if name = ''mssfix'' then pure push_mssfix
      else if name = ''protocol-flags'' then pure push_protocol_flags
      else if name = ''key-derivation'' then pure push_key_derivation
      else if name = ''inactive'' then pure push_inactive
      else if name = ''auth-token'' then pure push_auth_token
      else Inr st)"

definition push_field :: "string \<Rightarrow> push_state \<Rightarrow> (push_error, push_state) result" where
  "push_field field st =
     (let parts = Fields (TrimSpace field) in if parts = [] then Inr st else push_directive parts st)"

fun push_fields :: "string list \<Rightarrow> push_state \<Rightarrow> (push_error, push_state) result" where
  "push_fields [] st = Inr st"
| "push_fields (f # fs) st = (case push_field f st of Inl e \<Rightarrow> Inl e | Inr st1 \<Rightarrow> push_fields fs st1)"

definition apply_route_gateway :: "push_state \<Rightarrow> PushOptions" where
  "apply_route_gateway st =
     (case st of (po, gw) \<Rightarrow>
        (case po_Ifconfig po of
           Some ifc \<Rightarrow> (if po_Topology po = TopologySubnet \<and> gw \<noteq> []
                        then po\<lparr>po_Ifconfig := Some (ifc\<lparr>ifc_Gateway := gw\<rparr>)\<rparr> else po)
         | None \<Rightarrow> po))"

definition push_split :: "string \<Rightarrow> string list" where
  "push_split msg = Split (TrimRightNUL (TrimPrefix msg ''PUSH_REPLY,'')) (CHR '','')"

definition ParsePushReply :: "string \<Rightarrow> (push_error, PushOptions) result" where
  "ParsePushReply msg =
     (case push_fields (push_split msg) (zero_options, []) of
        Inl e \<Rightarrow> Inl e
      | Inr st \<Rightarrow> Inr (apply_route_gateway st))"

subsection \<open>Lemmas\<close>

text \<open>A successful directive is one of the fallible ones or one of the total ones.\<close>

lemma push_directive_cases:
  assumes "push_directive parts st = Inr st'"
  obtains "push_topology parts st = Inr st'" | "push_route_gateway parts st = Inr st'"
  | "push_ifconfig parts st = Inr st'" | "ToLower (parts ! 0) = ''route''" "push_route parts st = Inr st'"
  | "push_ifconfig6 parts st = Inr st'" | "push_route6 parts st = Inr st'"
  | f where "f \<in> {push_cipher, push_compress, (\<lambda>_. po_Compression_update (\<lambda>_. ModeLZO)), push_redirect_gateway, push_ping,
      push_ping_restart, push_ping_exit, push_keepalive, push_mssfix, push_protocol_flags, push_key_derivation,
      push_inactive, push_auth_token}" "st' = apfst (f parts) st"
  | "st' = st"
  using assms unfolding push_directive_def Let_def
  by (elim if_splits(1) [where P = "\<lambda>x. x = Inr st'", THEN iffD1, elim_format]) (auto split: if_splits)

lemma push_fields_induct:
  assumes "push_fields fs st = Inr st'" "P st"
    and "\<And>parts st st'. push_directive parts st = Inr st' \<Longrightarrow> P st \<Longrightarrow> P st'"
  shows "P st'"
  using assms(1,2)
proof (induction fs st rule: push_fields.induct)
  case (2 f fs st)
  then show ?case using assms(3) by (auto simp: push_field_def Let_def split: sum.splits if_splits)
qed simp

lemma push_fields_append:
  "push_fields (xs @ ys) st = (case push_fields xs st of Inl e \<Rightarrow> Inl e | Inr st1 \<Rightarrow> push_fields ys st1)"
  by (induction xs st rule: push_fields.induct) (auto split: sum.splits)

text \<open>What every parsed reply satisfies.\<close>

definition route_wf :: "Route \<Rightarrow> bool" where
  "route_wf r \<longleftrightarrow> length (rt_Mask r) = 4 \<and> length (rt_Network r) \<in> {0, 4} \<and> length (rt_Gateway r) \<in> {0, 4}"

definition route6_wf :: "Route6 \<Rightarrow> bool" where
  "route6_wf r \<longleftrightarrow> length (rt6_Network r) \<in> {4, 16} \<and> rt6_Prefix r \<le> 8 * length (rt6_Network r) \<and>
     length (rt6_Gateway r) \<in> {0, 16}"

definition ifconfig_wf :: "Ifconfig \<Rightarrow> bool" where
  "ifconfig_wf i \<longleftrightarrow> length (ifc_Mask i) = 4 \<and> length (ifc_Local i) \<in> {0, 4} \<and> length (ifc_Gateway i) \<in> {0, 4}"

definition ifconfig6_wf :: "Ifconfig6 \<Rightarrow> bool" where
  "ifconfig6_wf i \<longleftrightarrow> length (ifc6_Local i) = 16 \<and> ifc6_Prefix i \<le> 128 \<and> length (ifc6_Gateway i) \<in> {0, 16}"

definition address_wf :: "PushOptions \<Rightarrow> bool" where
  "address_wf po \<longleftrightarrow> pred_option ifconfig_wf (po_Ifconfig po) \<and> pred_option ifconfig6_wf (po_Ifconfig6 po) \<and>
     list_all route_wf (po_Routes po) \<and> list_all route6_wf (po_Routes6 po)"

definition int63 :: "int \<Rightarrow> bool" where "int63 v \<longleftrightarrow> 0 \<le> v \<and> v < 2 ^ 63"

definition timers_wf :: "PushOptions \<Rightarrow> bool" where
  "timers_wf po \<longleftrightarrow> int63 (po_PingInterval po) \<and> int63 (po_PingRestart po) \<and> int63 (po_PingExit po) \<and>
     (po_PingRestart po = 0 \<or> po_PingExit po = 0) \<and> (po_Mssfix po = 0 \<or> (68 \<le> po_Mssfix po \<and> po_Mssfix po \<le> 65535)) \<and>
     int63 (po_InactiveTimeout po) \<and> int63 (po_InactiveBytes po)"

definition state_wf :: "push_state \<Rightarrow> bool" where
  "state_wf st \<longleftrightarrow> address_wf (fst st) \<and> timers_wf (fst st) \<and> length (snd st) \<in> {0, 4}"

lemma len4 [simp]: "(length (To4 i) = 4) = (To4 i \<noteq> [])"
  using To4_length [of i] by auto

lemma len16 [simp]: "(length (ParseIP s) = 16) = (ParseIP s \<noteq> [])"
  using ParseIP_length [of s] by auto

lemma mask30_length [simp]: "length (CIDRMask 30 32) = 4" "length (CIDRMask 32 32) = 4"
  by (simp_all add: CIDRMask_length)

lemma address_wf_set:
  "address_wf po \<Longrightarrow> ifconfig_wf i \<Longrightarrow> address_wf (po\<lparr>po_Ifconfig := Some i\<rparr>)"
  "address_wf po \<Longrightarrow> ifconfig6_wf i6 \<Longrightarrow> address_wf (po\<lparr>po_Ifconfig6 := Some i6\<rparr>)"
  "address_wf po \<Longrightarrow> route_wf r \<Longrightarrow> address_wf (po_Routes_update (\<lambda>rs. rs @ [r]) po)"
  "address_wf po \<Longrightarrow> route6_wf r6 \<Longrightarrow> address_wf (po_Routes6_update (\<lambda>rs. rs @ [r6]) po)"
  by (simp_all add: address_wf_def)

lemma address_wf_keep [simp]:
  "address_wf (po\<lparr>po_Topology := t\<rparr>) = address_wf po" "address_wf (po\<lparr>po_RedirectGateway := b\<rparr>) = address_wf po"
  by (simp_all add: address_wf_def)

lemma timers_wf_keep [simp]:
  "timers_wf (po\<lparr>po_Topology := t\<rparr>) = timers_wf po" "timers_wf (po\<lparr>po_Ifconfig := i\<rparr>) = timers_wf po"
  "timers_wf (po\<lparr>po_Ifconfig6 := i6\<rparr>) = timers_wf po" "timers_wf (po_Routes_update f po) = timers_wf po"
  "timers_wf (po_Routes6_update f6 po) = timers_wf po" "timers_wf (po\<lparr>po_RedirectGateway := b\<rparr>) = timers_wf po"
  by (simp_all add: timers_wf_def)

lemma push_topology_wf: "push_topology parts st = Inr st' \<Longrightarrow> state_wf st \<Longrightarrow> state_wf st'"
  by (auto simp: push_topology_def state_wf_def split: if_splits)

lemma push_route_gateway_wf: "push_route_gateway parts st = Inr st' \<Longrightarrow> state_wf st \<Longrightarrow> state_wf st'"
  by (auto simp: push_route_gateway_def state_wf_def Let_def split: if_splits)

lemma push_ifconfig_wf: "push_ifconfig parts st = Inr st' \<Longrightarrow> state_wf st \<Longrightarrow> state_wf st'"
  by (auto simp: push_ifconfig_def state_wf_def ifconfig_wf_def Let_def intro!: address_wf_set split: if_splits)

lemma route_mask_length: "route_mask parts = Inr m \<Longrightarrow> length m = 4"
  by (auto simp: route_mask_def Let_def split: if_splits)

lemma push_route_wf: "push_route parts st = Inr st' \<Longrightarrow> state_wf st \<Longrightarrow> state_wf st'"
  using route_mask_length [of parts]
  by (auto simp: push_route_def state_wf_def route_wf_def Let_def intro!: address_wf_set split: if_splits sum.splits)

lemma push_ifconfig6_wf: "push_ifconfig6 parts st = Inr st' \<Longrightarrow> state_wf st \<Longrightarrow> state_wf st'"
proof (cases "ParseCIDR (parts ! 1)")
  case (Some c)
  then obtain ip6 n m where c: "ParseCIDR (parts ! 1) = Some (ip6, n, m)" by (cases c) auto
  then have "length ip6 = 16 \<and> mask_ones m \<le> 128" using ParseCIDR_props [OF c] by auto
  then show "push_ifconfig6 parts st = Inr st' \<Longrightarrow> state_wf st \<Longrightarrow> state_wf st'"
    using c by (auto simp: push_ifconfig6_def state_wf_def ifconfig6_wf_def Let_def intro!: address_wf_set split: if_splits)
qed (simp add: push_ifconfig6_def split: if_splits)

lemma push_route6_wf: "push_route6 parts st = Inr st' \<Longrightarrow> state_wf st \<Longrightarrow> state_wf st'"
proof (cases "ParseCIDR (parts ! 1)")
  case (Some c)
  then obtain ip6 n m where c: "ParseCIDR (parts ! 1) = Some (ip6, n, m)" by (cases c) auto
  then have "length n \<in> {4, 16} \<and> mask_ones m \<le> 8 * length n" using ParseCIDR_props [OF c] by auto
  then show "push_route6 parts st = Inr st' \<Longrightarrow> state_wf st \<Longrightarrow> state_wf st'"
    using c by (auto simp: push_route6_def state_wf_def route6_wf_def Let_def intro!: address_wf_set split: if_splits)
qed (simp add: push_route6_def split: if_splits)

lemma scan_into_inv:
  assumes "P po" "\<And>v. ok v \<Longrightarrow> v < 2 ^ 63 \<Longrightarrow> P (upd v po)"
  shows "P (scan_into s ok upd po)"
  using assms Sscanf_d_range [of s] by (auto simp: scan_into_def split: option.splits)

text \<open>The total directives touch no addresses but for the redirect flags, and keep the numbers in range.\<close>

lemma scan_into_address: "(\<And>v. address_wf (upd v po) = address_wf po) \<Longrightarrow> address_wf (scan_into s ok upd po) = address_wf po"
  by (auto simp: scan_into_def split: option.splits)

lemma fold_flags_wf:
  "address_wf (fold (\<lambda>flag po. if P flag then po\<lparr>po_RedirectGateway6 := True\<rparr> else po) fs po) = address_wf po"
  "timers_wf (fold (\<lambda>flag po. if P flag then po\<lparr>po_RedirectGateway6 := True\<rparr> else po) fs po) = timers_wf po"
  "address_wf (fold (\<lambda>flag po. if P flag then po\<lparr>po_KeyDerivation := k\<rparr> else po) fs po) = address_wf po"
  "timers_wf (fold (\<lambda>flag po. if P flag then po\<lparr>po_KeyDerivation := k\<rparr> else po) fs po) = timers_wf po"
  by (induction fs arbitrary: po) (auto simp: address_wf_def timers_wf_def)

lemma address_wf_timers [simp]:
  "address_wf (po\<lparr>po_PingInterval := v\<rparr>) = address_wf po" "address_wf (set_restart v po) = address_wf po"
  "address_wf (set_exit v po) = address_wf po" "address_wf (po\<lparr>po_Mssfix := v\<rparr>) = address_wf po"
  "address_wf (po\<lparr>po_InactiveTimeout := v\<rparr>) = address_wf po" "address_wf (po\<lparr>po_InactiveBytes := v\<rparr>) = address_wf po"
  by (simp_all add: address_wf_def set_restart_def set_exit_def)

lemma timers_wf_updates:
  "timers_wf po \<Longrightarrow> 0 < v \<Longrightarrow> v < 2 ^ 63 \<Longrightarrow> timers_wf (po\<lparr>po_PingInterval := v\<rparr>)"
  "timers_wf po \<Longrightarrow> 0 < v \<Longrightarrow> v < 2 ^ 63 \<Longrightarrow> timers_wf (set_restart v po)"
  "timers_wf po \<Longrightarrow> 0 < v \<Longrightarrow> v < 2 ^ 63 \<Longrightarrow> timers_wf (set_exit v po)"
  "timers_wf po \<Longrightarrow> 68 \<le> v \<and> v \<le> 65535 \<Longrightarrow> timers_wf (po\<lparr>po_Mssfix := v\<rparr>)"
  "timers_wf po \<Longrightarrow> 0 < v \<Longrightarrow> v < 2 ^ 63 \<Longrightarrow> timers_wf (po\<lparr>po_InactiveTimeout := v\<rparr>)"
  "timers_wf po \<Longrightarrow> 0 \<le> v \<Longrightarrow> v < 2 ^ 63 \<Longrightarrow> timers_wf (po\<lparr>po_InactiveBytes := v\<rparr>)"
  by (auto simp: timers_wf_def int63_def set_restart_def set_exit_def)

lemma total_directive_wf:
  assumes "f \<in> {push_cipher, push_compress, (\<lambda>_. po_Compression_update (\<lambda>_. ModeLZO)), push_redirect_gateway, push_ping,
      push_ping_restart, push_ping_exit, push_keepalive, push_mssfix, push_protocol_flags, push_key_derivation,
      push_inactive, push_auth_token}" "address_wf po" "timers_wf po"
  shows "address_wf (f parts po) \<and> timers_wf (f parts po)"
  using assms(1)
proof (elim insertE emptyE)
  assume "f = push_redirect_gateway"
  then show ?thesis using assms(2,3)
    by (simp add: push_redirect_gateway_def Let_def fold_flags_wf [where P = "\<lambda>f. EqualFold f ''ipv6''"])
next
  assume "f = push_protocol_flags"
  then show ?thesis using assms(2,3)
    by (simp add: push_protocol_flags_def fold_flags_wf [where P = "\<lambda>f. EqualFold f ''tls-ekm''"])
next
  assume "f = push_keepalive"
  then show ?thesis using assms(2,3)
    by (auto simp: push_keepalive_def scan_into_address intro!: scan_into_inv [where P = timers_wf] timers_wf_updates)
next
  assume "f = push_inactive"
  then show ?thesis using assms(2,3)
    by (auto simp: push_inactive_def scan_into_address Let_def intro!: scan_into_inv [where P = timers_wf] timers_wf_updates)
qed (use assms(2,3) in \<open>auto simp: push_cipher_def push_compress_def push_ping_def push_ping_restart_def push_ping_exit_def
    push_mssfix_def push_key_derivation_def push_auth_token_def scan_into_address
    intro!: scan_into_inv [where P = timers_wf] timers_wf_updates\<close>,
    simp_all add: address_wf_def timers_wf_def)

lemma push_directive_wf: "push_directive parts st = Inr st' \<Longrightarrow> state_wf st \<Longrightarrow> state_wf st'"
proof (elim push_directive_cases, goal_cases)
  case (7 f)
  then show ?case using total_directive_wf [of f "fst st" parts] by (simp add: state_wf_def)
qed (auto intro: push_topology_wf push_route_gateway_wf push_ifconfig_wf push_route_wf push_ifconfig6_wf push_route6_wf)

lemma state_wf_initial: "state_wf (zero_options, [])"
  by (simp add: state_wf_def address_wf_def timers_wf_def int63_def zero_options_def)

lemma apply_route_gateway_wf: "state_wf st \<Longrightarrow> address_wf (apply_route_gateway st) \<and> timers_wf (apply_route_gateway st)"
  by (cases st) (auto simp: apply_route_gateway_def state_wf_def address_wf_def ifconfig_wf_def split: option.splits)

text \<open>The route a field contributes.\<close>

definition field_routes :: "string \<Rightarrow> Route list" where
  "field_routes f =
     (let parts = Fields (TrimSpace f) in
      if parts \<noteq> [] \<and> ToLower (parts ! 0) = ''route''
      then [\<lparr>rt_Network = To4 (ParseIP (parts ! 1)),
             rt_Mask = (if 3 \<le> length parts then To4 (ParseIP (parts ! 2)) else CIDRMask 32 32),
             rt_Gateway = (if 4 \<le> length parts then To4 (ParseIP (parts ! 3)) else [])\<rparr>]
      else [])"

lemma fold_flags_routes:
  "po_Routes (fold (\<lambda>flag po. if P flag then po\<lparr>po_RedirectGateway6 := True\<rparr> else po) fs po) = po_Routes po"
  "po_Routes (fold (\<lambda>flag po. if P flag then po\<lparr>po_KeyDerivation := k\<rparr> else po) fs po) = po_Routes po"
  by (induction fs arbitrary: po) auto

lemma scan_into_routes:
  "(\<And>v po. po_Routes (upd v po) = po_Routes po) \<Longrightarrow> po_Routes (scan_into s ok upd po) = po_Routes po"
  by (auto simp: scan_into_def split: option.splits)

lemma total_directive_routes:
  "f \<in> {push_cipher, push_compress, (\<lambda>_. po_Compression_update (\<lambda>_. ModeLZO)), push_redirect_gateway, push_ping,
      push_ping_restart, push_ping_exit, push_keepalive, push_mssfix, push_protocol_flags, push_key_derivation,
      push_inactive, push_auth_token} \<Longrightarrow> po_Routes (f parts po) = po_Routes po"
  by (elim insertE emptyE)
    (simp_all add: push_cipher_def push_compress_def push_redirect_gateway_def push_ping_def push_ping_restart_def push_ping_exit_def
      push_keepalive_def push_mssfix_def push_protocol_flags_def push_key_derivation_def push_inactive_def push_auth_token_def
      scan_into_routes set_restart_def set_exit_def Let_def fold_flags_routes [where P = "\<lambda>f. EqualFold f ''ipv6''"]
      fold_flags_routes [where P = "\<lambda>f. EqualFold f ''tls-ekm''"])

lemma fallible_directive_routes:
  "push_topology parts st = Inr st' \<Longrightarrow> po_Routes (fst st') = po_Routes (fst st)"
  "push_route_gateway parts st = Inr st' \<Longrightarrow> po_Routes (fst st') = po_Routes (fst st)"
  "push_ifconfig parts st = Inr st' \<Longrightarrow> po_Routes (fst st') = po_Routes (fst st)"
  "push_ifconfig6 parts st = Inr st' \<Longrightarrow> po_Routes (fst st') = po_Routes (fst st)"
  "push_route6 parts st = Inr st' \<Longrightarrow> po_Routes (fst st') = po_Routes (fst st)"
  by (auto simp: push_topology_def push_route_gateway_def push_ifconfig_def push_ifconfig6_def push_route6_def Let_def
      split: if_splits option.splits)

lemma push_field_routes:
  assumes "push_field f st = Inr st'"
  shows "po_Routes (fst st') = po_Routes (fst st) @ field_routes f"
proof (cases "Fields (TrimSpace f) \<noteq> [] \<and> ToLower (Fields (TrimSpace f) ! 0) = ''route''")
  case True
  then have "push_route (Fields (TrimSpace f)) st = Inr st'" using assms by (simp add: push_field_def push_directive_def Let_def)
  then show ?thesis using True
    by (auto simp: push_route_def route_mask_def field_routes_def Let_def split: if_splits)
next
  case False
  then have fr: "field_routes f = []" by (auto simp: field_routes_def Let_def)
  show ?thesis
  proof (cases "Fields (TrimSpace f) = []")
    case True
    then show ?thesis using assms fr by (simp add: push_field_def)
  next
    case ne: False
    then have d: "push_directive (Fields (TrimSpace f)) st = Inr st'" using assms by (simp add: push_field_def Let_def)
    from d show ?thesis unfolding fr append_Nil2
      by (elim push_directive_cases) (use False ne total_directive_routes in \<open>auto dest: fallible_directive_routes\<close>)
  qed
qed

lemma push_fields_routes:
  "push_fields fs st = Inr st' \<Longrightarrow> po_Routes (fst st') = po_Routes (fst st) @ concat (map field_routes fs)"
  by (induction fs st rule: push_fields.induct) (auto simp: push_field_routes split: sum.splits)

lemma apply_route_gateway_routes [simp]: "po_Routes (apply_route_gateway st) = po_Routes (fst st)"
  by (cases st) (auto simp: apply_route_gateway_def split: option.splits)

subsection \<open>Properties\<close>

text \<open>C36 (parsed options are well formed).  Whatever the server sends, a reply that is accepted gives addresses and masks of
  the right lengths (a nil address where an IPv6 address stood for an IPv4 one), prefixes within the address length,
  non-negative timers of which ping-restart and ping-exit are never both set, and an MSS that is absent or within
  68 to 65535; and the routes are exactly those of the route directives, in order.\<close>

theorem push_reply_wf:
  assumes "ParsePushReply msg = Inr po"
  shows "address_wf po \<and> timers_wf po \<and> po_Routes po = concat (map field_routes (push_split msg))"
proof -
  obtain st where st: "push_fields (push_split msg) (zero_options, []) = Inr st" and po: "po = apply_route_gateway st"
    using assms by (auto simp: ParsePushReply_def split: sum.splits)
  have "state_wf st" by (rule push_fields_induct [where P = state_wf, OF st state_wf_initial push_directive_wf])
  moreover have "po_Routes (fst st) = concat (map field_routes (push_split msg))"
    using push_fields_routes [OF st] by (simp add: zero_options_def)
  ultimately show ?thesis using po apply_route_gateway_wf by simp
qed

definition sample_reply :: string where
  "sample_reply = ''PUSH_REPLY,topology subnet,ifconfig 172.16.77.4 255.255.255.224,route-gateway 172.16.77.1,route 10.130.0.0 255.255.0.0,ping 10,ping-exit 60,protocol-flags tls-ekm''"

theorem push_reply_wf_witness:
  "\<exists>po. ParsePushReply sample_reply = Inr po \<and> timers_wf po \<and>
     po_Routes po = [\<lparr>rt_Network = [10, 130, 0, 0], rt_Mask = [255, 255, 0, 0], rt_Gateway = []\<rparr>]"
proof -
  have "is_ok (ParsePushReply sample_reply)"
    "concat (map field_routes (push_split sample_reply)) = [\<lparr>rt_Network = [10, 130, 0, 0], rt_Mask = [255, 255, 0, 0], rt_Gateway = []\<rparr>]"
    by code_simp+
  moreover from this(1) obtain po where "ParsePushReply sample_reply = Inr po" by (cases "ParsePushReply sample_reply") auto
  ultimately show ?thesis using push_reply_wf by metis
qed

text \<open>(order of topology and ifconfig).  The same two directives give different interface settings in the two orders:
  when \<open>ifconfig\<close> comes first, its second argument is taken for the peer, so that the interface gets a /30 mask and the
  network mask as its gateway although the topology is subnet.\<close>

theorem push_topology_order:
  assumes "Fields (TrimSpace f) = [''ifconfig'', l, m]" "Fields (TrimSpace t) = [''topology'', ''subnet'']"
    and "To4 (ParseIP l) \<noteq> []" "To4 (ParseIP m) \<noteq> []" "push_split msg1 = [t, f]" "push_split msg2 = [f, t]"
  shows "\<exists>po1 po2. ParsePushReply msg1 = Inr po1 \<and> ParsePushReply msg2 = Inr po2 \<and>
     po_Topology po1 = TopologySubnet \<and> po_Topology po2 = TopologySubnet \<and>
     po_Ifconfig po1 = Some \<lparr>ifc_Local = To4 (ParseIP l), ifc_Mask = To4 (ParseIP m), ifc_Gateway = []\<rparr> \<and>
     po_Ifconfig po2 = Some \<lparr>ifc_Local = To4 (ParseIP l), ifc_Mask = CIDRMask 30 32, ifc_Gateway = To4 (ParseIP m)\<rparr>"
proof -
  have "ParseIP l \<noteq> []" "ParseIP m \<noteq> []" using assms(3,4) by (auto simp: To4_def)
  moreover have "ToLower ''ifconfig'' = ''ifconfig''" "ToLower ''topology'' = ''topology''" "ToLower ''subnet'' = ''subnet''"
    by code_simp+
  ultimately show ?thesis
    using assms by (simp add: ParsePushReply_def push_field_def push_directive_def push_topology_def push_ifconfig_def
        apply_route_gateway_def zero_options_def Let_def)
qed

theorem push_topology_order_witness:
  "\<exists>po. ParsePushReply ''PUSH_REPLY,ifconfig 172.16.77.4 255.255.255.224,topology subnet'' = Inr po \<and>
     po_Ifconfig po = Some \<lparr>ifc_Local = [172, 16, 77, 4], ifc_Mask = [255, 255, 255, 252], ifc_Gateway = [255, 255, 255, 224]\<rparr>"
proof -
  have e: "Fields (TrimSpace ''ifconfig 172.16.77.4 255.255.255.224'') = [''ifconfig'', ''172.16.77.4'', ''255.255.255.224'']"
    "Fields (TrimSpace ''topology subnet'') = [''topology'', ''subnet'']"
    "To4 (ParseIP ''172.16.77.4'') = [172, 16, 77, 4]" "To4 (ParseIP ''255.255.255.224'') = [255, 255, 255, 224]"
    "push_split ''PUSH_REPLY,topology subnet,ifconfig 172.16.77.4 255.255.255.224'' =
       [''topology subnet'', ''ifconfig 172.16.77.4 255.255.255.224'']"
    "push_split ''PUSH_REPLY,ifconfig 172.16.77.4 255.255.255.224,topology subnet'' =
       [''ifconfig 172.16.77.4 255.255.255.224'', ''topology subnet'']" "CIDRMask 30 32 = [255, 255, 255, 252]"
    by code_simp+
  then show ?thesis using push_topology_order [OF e(1,2) _ _ e(5,6)] by force
qed

end
