(* ===== verification/Dns.thy ===== *)
theory Dns
  imports Go_Net
begin

section \<open>DNS options\<close>

text \<open>
  Models \<^verbatim>\<open>dns/dns.go\<close>: the DNS options of a PUSH_REPLY, the merge with the profile's options, and the managed
  \<^verbatim>\<open>resolv.conf\<close> with its backup.  The file system is a map from paths to contents with a predicate that tells which
  paths can be written.
\<close>

record dns_Config =
  Servers :: "ip list"
  SearchDomains :: "string list"
  RouteDomains :: "string list"

datatype dns_error = InvalidDNSServer string | ReadBackup string | WriteFailed string | RemoveFailed string | NoInterface string | NoSystemBus | BusCall string

definition empty_config :: dns_Config where
  "empty_config = \<lparr>Servers = [], SearchDomains = [], RouteDomains = []\<rparr>"

definition dns_field :: "string \<Rightarrow> dns_Config \<Rightarrow> (dns_error, dns_Config) result" where
  "dns_field field cfg =
     (let parts = Fields (TrimSpace field) in
      if length parts < 3 then Inr cfg
      else if \<not> EqualFold (parts ! 0) ''dhcp-option'' then Inr cfg
      else let kind = ToUpper (parts ! 1) in
        if kind = ''DNS'' then
          (let i = ParseIP (parts ! 2) in
           if i = [] then Inl (InvalidDNSServer (parts ! 2)) else Inr (cfg\<lparr>Servers := Servers cfg @ [i]\<rparr>))
        else if kind = ''DOMAIN'' then Inr (cfg\<lparr>SearchDomains := SearchDomains cfg @ [parts ! 2]\<rparr>)
        else if kind = ''DOMAIN-ROUTE'' then Inr (cfg\<lparr>RouteDomains := RouteDomains cfg @ [parts ! 2]\<rparr>)
        else Inr cfg)"

fun dns_fields :: "string list \<Rightarrow> dns_Config \<Rightarrow> (dns_error, dns_Config) result" where
  "dns_fields [] cfg = Inr cfg"
| "dns_fields (f # fs) cfg = (case dns_field f cfg of Inl e \<Rightarrow> Inl e | Inr cfg1 \<Rightarrow> dns_fields fs cfg1)"

definition dns_ParsePushReply :: "string \<Rightarrow> (dns_error, dns_Config) result" where
  "dns_ParsePushReply msg =
     dns_fields (Split (TrimRightNUL (TrimPrefix msg ''PUSH_REPLY,'')) (CHR '','')) empty_config"

subsection \<open>Merging\<close>

text \<open>The inner loop of \<open>Merge\<close>: the keys seen so far (a Go map used as a set) and the merged list.\<close>

definition merge_one :: "('a \<Rightarrow> string) \<Rightarrow> 'a \<Rightarrow> string list \<times> 'a list \<Rightarrow> string list \<times> 'a list" where
  "merge_one key x st = (case st of (seen, out) \<Rightarrow> if key x \<in> set seen then (seen, out) else (key x # seen, out @ [x]))"

definition merge_servers :: "ip list \<Rightarrow> string list \<times> ip list \<Rightarrow> string list \<times> ip list" where
  "merge_servers servers st = fold (\<lambda>s st. if s = [] then st else merge_one IP_String s st) servers st"

record merge_state =
  ms_servers :: "string list \<times> ip list"
  ms_search :: "string list \<times> string list"
  ms_route :: "string list \<times> string list"

definition merge_config :: "dns_Config option \<Rightarrow> merge_state \<Rightarrow> merge_state" where
  "merge_config cfg st =
     (case cfg of
        None \<Rightarrow> st
      | Some c \<Rightarrow> st\<lparr>ms_servers := merge_servers (Servers c) (ms_servers st),
                   ms_search := fold (merge_one ToLower) (SearchDomains c) (ms_search st),
                   ms_route := fold (merge_one ToLower) (RouteDomains c) (ms_route st)\<rparr>)"

definition Merge :: "dns_Config option list \<Rightarrow> dns_Config" where
  "Merge configs =
     (let st = fold merge_config configs \<lparr>ms_servers = ([], []), ms_search = ([], []), ms_route = ([], [])\<rparr>
      in \<lparr>Servers = snd (ms_servers st), SearchDomains = snd (ms_search st), RouteDomains = snd (ms_route st)\<rparr>)"

subsection \<open>The managed resolv.conf\<close>

definition managed_line :: string where "managed_line = ''# Generated by go-openlawsvpn''"

text \<open>The dash of the first line is the three bytes of the UTF-8 em dash.\<close>

definition managed_header :: string where
  "managed_header = managed_line @ '' '' @ [CHR 0xE2, CHR 0x80, CHR 0x94] @ '' do not edit'' @ [CHR 0x0A]"

definition resolv_text :: "dns_Config \<Rightarrow> string" where
  "resolv_text cfg =
     managed_header @
     (if SearchDomains cfg \<noteq> [] then ''search '' @ join '' '' (SearchDomains cfg) @ [CHR 0x0A] else []) @
     concat (map (\<lambda>srv. ''nameserver '' @ IP_String srv @ [CHR 0x0A]) (Servers cfg))"

type_synonym files = "string \<rightharpoonup> string"

definition write_file :: "(string \<Rightarrow> bool) \<Rightarrow> string \<Rightarrow> string \<Rightarrow> files \<Rightarrow> (dns_error, files) result" where
  "write_file writable path data fs = (if writable path then Inr (fs(path \<mapsto> data)) else Inl (WriteFailed path))"

definition ApplyResolvConf :: "(string \<Rightarrow> bool) \<Rightarrow> string \<Rightarrow> dns_Config option \<Rightarrow> files \<Rightarrow> (dns_error, files) result" where
  "ApplyResolvConf writable ResolvConfPath cfg fs =
     (case cfg of
        None \<Rightarrow> Inr fs
      | Some c \<Rightarrow> (if Servers c = [] then Inr fs else write_file writable ResolvConfPath (resolv_text c) fs))"

definition RestoreResolvConf :: "(string \<Rightarrow> bool) \<Rightarrow> string \<Rightarrow> string \<Rightarrow> files \<Rightarrow> (dns_error, files) result" where
  "RestoreResolvConf writable ResolvConfPath backupPath fs =
     (if backupPath = [] then Inr fs
      else case fs backupPath of
        None \<Rightarrow> Inl (ReadBackup backupPath)
      | Some data \<Rightarrow>
          (case write_file writable ResolvConfPath data fs of
             Inl e \<Rightarrow> Inl e
           | Inr fs1 \<Rightarrow> (if writable backupPath then Inr (fs1(backupPath := None)) else Inl (RemoveFailed backupPath))))"

definition BackupResolvConf :: "(string \<Rightarrow> bool) \<Rightarrow> string \<Rightarrow> string \<Rightarrow> files \<Rightarrow> (dns_error, files) result" where
  "BackupResolvConf writable ResolvConfPath backupPath fs =
     (let data = (case fs ResolvConfPath of None \<Rightarrow> [] | Some d \<Rightarrow> d) in write_file writable backupPath data fs)"

text \<open>The first line of the file, without a carriage return; an empty file has none.\<close>

definition IsManaged :: "string \<Rightarrow> files \<Rightarrow> bool option" where
  "IsManaged path fs =
     map_option (\<lambda>d. d \<noteq> [] \<and> HasPrefix (takeWhile (\<lambda>c. c \<noteq> CHR 0x0A) d) managed_line) (fs path)"

subsection \<open>Lemmas\<close>

text \<open>The specification of a merged list: first occurrences by key, in order.\<close>

fun first_by :: "('a \<Rightarrow> 'k) \<Rightarrow> 'k set \<Rightarrow> 'a list \<Rightarrow> 'a list" where
  "first_by key seen [] = []"
| "first_by key seen (x # xs) =
     (if key x \<in> seen then first_by key seen xs else x # first_by key (insert (key x) seen) xs)"

lemma fold_merge_one:
  "fold (merge_one key) xs (seen, out) =
     (rev (map key (first_by key (set seen) xs)) @ seen, out @ first_by key (set seen) xs)"
  by (induction xs arbitrary: seen out) (auto simp: merge_one_def)

lemma first_by_keys: "key ` set (first_by key S xs) = key ` set xs - S"
proof (induction xs arbitrary: S)
  case (Cons x xs)
  then show ?case by (cases "key x \<in> S") auto
qed simp

lemma first_by_distinct: "distinct (map key (first_by key S xs))"
proof (induction xs arbitrary: S)
  case (Cons x xs)
  then show ?case using first_by_keys [of key "insert (key x) S" xs] by (cases "key x \<in> S") auto
qed simp

lemma fold_skip: "fold (\<lambda>s st. if s = [] then st else f s st) xs st = fold f (filter (\<lambda>s. s \<noteq> []) xs) st"
  by (induction xs arbitrary: st) auto

definition all_of :: "(dns_Config \<Rightarrow> 'a list) \<Rightarrow> dns_Config option list \<Rightarrow> 'a list" where
  "all_of sel configs = concat (map (case_option [] sel) configs)"

lemma fold_merge_config:
  "ms_servers (fold merge_config cs st) = fold (merge_one IP_String) (filter (\<lambda>s. s \<noteq> []) (all_of Servers cs)) (ms_servers st)"
  "ms_search (fold merge_config cs st) = fold (merge_one ToLower) (all_of SearchDomains cs) (ms_search st)"
  "ms_route (fold merge_config cs st) = fold (merge_one ToLower) (all_of RouteDomains cs) (ms_route st)"
  by (induction cs arbitrary: st) (auto simp: all_of_def merge_config_def merge_servers_def fold_skip split: option.splits)

lemma Merge_first_by:
  "Servers (Merge cs) = first_by IP_String {} (filter (\<lambda>s. s \<noteq> []) (all_of Servers cs))"
  "SearchDomains (Merge cs) = first_by ToLower {} (all_of SearchDomains cs)"
  "RouteDomains (Merge cs) = first_by ToLower {} (all_of RouteDomains cs)"
  by (simp_all add: Merge_def Let_def fold_merge_config fold_merge_one)

definition managed_text :: string where
  "managed_text = managed_line @ '' '' @ [CHR 0xE2, CHR 0x80, CHR 0x94] @ '' do not edit''"

lemma takeWhile_line: "c \<notin> set l \<Longrightarrow> takeWhile (\<lambda>x. x \<noteq> c) (l @ c # r) = l"
  by (induction l) auto

lemma managed_prefix: "HasPrefix (takeWhile (\<lambda>c. c \<noteq> CHR 0x0A) (resolv_text cfg)) managed_line"
proof -
  have "\<exists>r. resolv_text cfg = managed_text @ CHR 0x0A # r"
    unfolding resolv_text_def managed_header_def managed_text_def append_assoc by (simp only: append_Cons append_Nil append_same_eq same_append_eq list.inject) blast
  then obtain r where r: "resolv_text cfg = managed_text @ CHR 0x0A # r" by blast
  have "CHR 0x0A \<notin> set managed_text" by code_simp
  then have "takeWhile (\<lambda>c. c \<noteq> CHR 0x0A) (resolv_text cfg) = managed_text" unfolding r by (rule takeWhile_line)
  then show ?thesis by (simp only: managed_text_def HasPrefix_append)
qed

subsection \<open>Properties\<close>

text \<open>(merged DNS settings).  The merged configuration lists the settings of all configurations in argument order, each
  once: servers by their text, domains up to case; nil servers are dropped.  So pushed settings come before the
  profile's, none is lost and none appears twice.\<close>

theorem Merge_first_occurrences:
  "Servers (Merge cs) = first_by IP_String {} (filter (\<lambda>s. s \<noteq> []) (all_of Servers cs)) \<and>
   SearchDomains (Merge cs) = first_by ToLower {} (all_of SearchDomains cs) \<and>
   RouteDomains (Merge cs) = first_by ToLower {} (all_of RouteDomains cs) \<and>
   distinct (map IP_String (Servers (Merge cs))) \<and> distinct (map ToLower (SearchDomains (Merge cs))) \<and>
   IP_String ` set (Servers (Merge cs)) = IP_String ` (set (all_of Servers cs) - {[]}) \<and>
   ToLower ` set (SearchDomains (Merge cs)) = ToLower ` set (all_of SearchDomains cs) \<and>
   ToLower ` set (RouteDomains (Merge cs)) = ToLower ` set (all_of RouteDomains cs)"
proof -
  have "set (filter (\<lambda>s. s \<noteq> []) (all_of Servers cs)) = set (all_of Servers cs) - {[]}" by auto
  then show ?thesis by (simp only: Merge_first_by first_by_keys first_by_distinct Diff_empty simp_thms)
qed

text \<open>(resolv.conf is restored).  Backing up, applying and restoring leaves every file as it was, the backup file gone
  and an originally missing \<^verbatim>\<open>resolv.conf\<close> replaced by an empty one; between, the file is recognised as managed.\<close>

theorem resolv_conf_restored:
  assumes "writable path" "writable backup" "backup \<noteq> []" "backup \<noteq> path" "fs backup = None" "Servers cfg \<noteq> []"
  shows "\<exists>fs1 fs2 fs3. BackupResolvConf writable path backup fs = Inr fs1 \<and>
     ApplyResolvConf writable path (Some cfg) fs1 = Inr fs2 \<and> IsManaged path fs2 = Some True \<and>
     RestoreResolvConf writable path backup fs2 = Inr fs3 \<and>
     fs3 = fs(path \<mapsto> (case fs path of None \<Rightarrow> [] | Some d \<Rightarrow> d))"
proof -
  have "resolv_text cfg \<noteq> []" by (simp add: resolv_text_def managed_header_def managed_line_def)
  then show ?thesis
    using assms managed_prefix [of cfg]
    by (auto simp: BackupResolvConf_def ApplyResolvConf_def RestoreResolvConf_def write_file_def IsManaged_def Let_def fun_upd_def)
qed

theorem resolv_conf_restored_witness:
  "\<exists>fs1 fs2 fs3. BackupResolvConf (\<lambda>_. True) ''/etc/resolv.conf'' ''/run/backup'' [''/etc/resolv.conf'' \<mapsto> ''nameserver 1.1.1.1''] = Inr fs1 \<and>
     ApplyResolvConf (\<lambda>_. True) ''/etc/resolv.conf'' (Some \<lparr>Servers = [[10, 0, 0, 2]], SearchDomains = [], RouteDomains = []\<rparr>) fs1 = Inr fs2 \<and>
     RestoreResolvConf (\<lambda>_. True) ''/etc/resolv.conf'' ''/run/backup'' fs2 = Inr fs3 \<and>
     fs3 ''/etc/resolv.conf'' = Some ''nameserver 1.1.1.1''"
  using resolv_conf_restored [of "\<lambda>_. True" "''/etc/resolv.conf''" "''/run/backup''" "[''/etc/resolv.conf'' \<mapsto> ''nameserver 1.1.1.1'']"
      "\<lparr>Servers = [[10, 0, 0, 2]], SearchDomains = [], RouteDomains = []\<rparr>"] by auto

end
