(* ===== verification/Saml.thy ===== *)
theory Saml
  imports Go_Strings
begin

section \<open>SAML and control messages\<close>

text \<open>
  Models \<^verbatim>\<open>auth/saml/msg.go\<close>, \<^verbatim>\<open>session.go\<close>, \<^verbatim>\<open>monitor.go\<close> and the CRV1 part of \<^verbatim>\<open>saml.go\<close>: classification and parsing of
  the NUL-terminated messages on the TLS control channel, the two phases of the SAML exchange, and the session
  monitor.  A reader is the bytes it still delivers, one per call, and how it ends.
\<close>

definition MaxControlMessageBytes :: int where "MaxControlMessageBytes = 128 * 1024"

datatype MsgKind = MsgKindUnknown | MsgKindPushReply | MsgKindAuthFailedCRV1 | MsgKindAuthFailed | MsgKindCRText
  | MsgKindAWSCC | MsgKindPostureCheckInterval

definition kind_String :: "MsgKind \<Rightarrow> string" where
  "kind_String k =
     (case k of
        MsgKindPushReply \<Rightarrow> ''PUSH_REPLY''
      | MsgKindAuthFailedCRV1 \<Rightarrow> ''AUTH_FAILED_CRV1''
      | MsgKindAuthFailed \<Rightarrow> ''AUTH_FAILED''
      | MsgKindCRText \<Rightarrow> ''CR_TEXT''
      | MsgKindAWSCC \<Rightarrow> ''AWS_CC_MSG''
      | MsgKindPostureCheckInterval \<Rightarrow> ''POSTURE_CHECK_INTERVAL''
      | MsgKindUnknown \<Rightarrow> ''UNKNOWN'')"

definition ClassifyMsg :: "string \<Rightarrow> MsgKind" where
  "ClassifyMsg msg0 =
     (let msg = TrimRightNUL msg0 in
      if HasPrefix msg ''PUSH_REPLY'' then MsgKindPushReply
      else if HasPrefix msg ''AUTH_FAILED,CRV1:'' then MsgKindAuthFailedCRV1
      else if HasPrefix msg ''AUTH_FAILED'' then MsgKindAuthFailed
      else if msg = ''CR_TEXT'' \<or> HasPrefix msg ''CR_TEXT,'' \<or> HasPrefix msg ''CR_TEXT:'' then MsgKindCRText
      else if HasPrefix msg ''AWS_CC_MSG,'' then MsgKindAWSCC
      else if HasPrefix msg ''CRV1::POSTURE_CHECK_INTERVAL::'' then MsgKindPostureCheckInterval
      else MsgKindUnknown)"

record Challenge =
  ch_StateID :: string
  ch_SAMLURL :: string
  ch_RemoteIP :: string

record AWSCCMetadata =
  cc_TimestampMicros :: nat
  cc_FragmentCount :: nat
  cc_FragmentIndex :: nat
  cc_FragmentBytes :: nat

datatype DynamicChallengeKind = DynamicChallengeCRV1 | DynamicChallengeText

record DynamicChallengeMetadata =
  dm_Kind :: DynamicChallengeKind
  dm_Flags :: "string list"
  dm_ResponseRequired :: bool
  dm_Echo :: bool
  dm_PromptPresent :: bool

record DynamicChallengeSecrets =
  ds_StateID :: string
  ds_Username :: string
  ds_Prompt :: string

record DynamicChallenge =
  dc_Metadata :: DynamicChallengeMetadata
  dc_Secrets :: DynamicChallengeSecrets

record ControlMessage =
  cm_Kind :: MsgKind
  cm_Raw :: string
  cm_Challenge :: "Challenge option"
  cm_DynamicChallenge :: "DynamicChallenge option"
  cm_AWSCC :: "AWSCCMetadata option"
  cm_PostureCheckIntervalSeconds :: "nat option"

datatype saml_error =
    NotCRV1 | MalformedCRV1 | EmptyState | EmptyURL
  | NotDynamicCRV1 | MalformedDynamic | EmptyDynamicState
  | MalformedCCHeader | MalformedCCTimestamp | MalformedCCCount | MalformedCCIndex | MalformedPosture
  | MessageTooLong | ReadEOF | ReadFailed | NoProgress | ContainsNUL | ShortWrite
  | Phase1Rejected | Phase2ReChallenge | AuthFailed string | SessionExpired MsgKind
  | NotAuthReply | MissingSeparator | EmptyCredentialState

definition splitChallengeFlags :: "string \<Rightarrow> string list" where
  "splitChallengeFlags value = filter (\<lambda>flag. flag = ''R'' \<or> flag = ''E'') (Split value (CHR '',''))"

definition parseDynamicCRV1 :: "string \<Rightarrow> (saml_error, DynamicChallenge) result" where
  "parseDynamicCRV1 msg =
     (if \<not> HasPrefix msg ''AUTH_FAILED,CRV1:'' then Inl NotDynamicCRV1
      else let fields = SplitN (drop (length ''AUTH_FAILED,CRV1:'') msg) (CHR '':'') 4 in
        if length fields \<noteq> 4 then Inl MalformedDynamic
        else if fields ! 1 = [] then Inl EmptyDynamicState
        else let flags = splitChallengeFlags (fields ! 0) in
          Inr \<lparr>dc_Metadata = \<lparr>dm_Kind = DynamicChallengeCRV1, dm_Flags = flags, dm_ResponseRequired = ''R'' \<in> set flags,
                             dm_Echo = ''E'' \<in> set flags, dm_PromptPresent = fields ! 3 \<noteq> []\<rparr>,
               dc_Secrets = \<lparr>ds_StateID = fields ! 1, ds_Username = fields ! 2, ds_Prompt = fields ! 3\<rparr>\<rparr>)"

text \<open>The text before and after the first colon (or comma).\<close>

definition cut :: "char \<Rightarrow> string \<Rightarrow> (string \<times> string) option" where
  "cut sep s = map_option (\<lambda>i. (take i s, drop (i + 1) s)) (Index s [sep])"

definition ParseCRV1 :: "string \<Rightarrow> (saml_error, Challenge) result" where
  "ParseCRV1 msg =
     (if \<not> HasPrefix msg ''AUTH_FAILED,CRV1:'' then Inl NotCRV1
      else case cut (CHR '':'') (drop (length ''AUTH_FAILED,CRV1:'') msg) of
        None \<Rightarrow> Inl MalformedCRV1
      | Some (flagsAndIP, rest1) \<Rightarrow>
          (case cut (CHR '':'') rest1 of
             None \<Rightarrow> Inl MalformedCRV1
           | Some (stateID, rest2) \<Rightarrow>
               (case cut (CHR '':'') rest2 of
                  None \<Rightarrow> Inl MalformedCRV1
                | Some (_, url) \<Rightarrow>
                    (if stateID = [] then Inl EmptyState
                     else if url = [] then Inl EmptyURL
                     else Inr \<lparr>ch_StateID = stateID, ch_SAMLURL = url,
                               ch_RemoteIP = (case cut (CHR '','') flagsAndIP of None \<Rightarrow> [] | Some (_, i) \<Rightarrow> i)\<rparr>))))"

definition BuildPhase2Password :: "string \<Rightarrow> string \<Rightarrow> string" where
  "BuildPhase2Password stateID samlToken = ''CRV1::'' @ stateID @ ''::'' @ samlToken"

definition parse_crv1_msg :: "string \<Rightarrow> ControlMessage \<Rightarrow> (saml_error, ControlMessage) result" where
  "parse_crv1_msg stripped cm =
     (case parseDynamicCRV1 stripped of
        Inl e \<Rightarrow> Inl e
      | Inr d \<Rightarrow> (case ParseCRV1 stripped of
                    Inl e \<Rightarrow> Inl e
                  | Inr ch \<Rightarrow> Inr (cm\<lparr>cm_DynamicChallenge := Some d, cm_Challenge := Some ch\<rparr>)))"

definition parse_crtext_msg :: "string \<Rightarrow> ControlMessage \<Rightarrow> ControlMessage" where
  "parse_crtext_msg stripped cm =
     (let prompt = (if length ''CR_TEXT'' < length stripped then drop (length ''CR_TEXT'' + 1) stripped else [])
      in cm\<lparr>cm_DynamicChallenge := Some
            \<lparr>dc_Metadata = \<lparr>dm_Kind = DynamicChallengeText, dm_Flags = [], dm_ResponseRequired = False, dm_Echo = False,
                            dm_PromptPresent = prompt \<noteq> []\<rparr>,
             dc_Secrets = \<lparr>ds_StateID = [], ds_Username = [], ds_Prompt = prompt\<rparr>\<rparr>\<rparr>)"

definition parse_awscc_msg :: "string \<Rightarrow> ControlMessage \<Rightarrow> (saml_error, ControlMessage) result" where
  "parse_awscc_msg stripped cm =
     (let fields = SplitN stripped (CHR '','') 5 in
      if length fields \<noteq> 5 then Inl MalformedCCHeader
      else case ParseUint64 (fields ! 1) of
        None \<Rightarrow> Inl MalformedCCTimestamp
      | Some timestamp \<Rightarrow>
          (case ParseUint64 (fields ! 2) of
             None \<Rightarrow> Inl MalformedCCCount
           | Some count \<Rightarrow>
               (if count = 0 then Inl MalformedCCCount
                else case ParseUint64 (fields ! 3) of
                  None \<Rightarrow> Inl MalformedCCIndex
                | Some idx \<Rightarrow>
                    (if count \<le> idx then Inl MalformedCCIndex
                     else Inr (cm\<lparr>cm_AWSCC := Some \<lparr>cc_TimestampMicros = timestamp, cc_FragmentCount = count,
                                   cc_FragmentIndex = idx, cc_FragmentBytes = length (fields ! 4)\<rparr>\<rparr>)))))"

definition parse_posture_msg :: "string \<Rightarrow> ControlMessage \<Rightarrow> (saml_error, ControlMessage) result" where
  "parse_posture_msg stripped cm =
     (case ParseUint64 (TrimPrefix stripped ''CRV1::POSTURE_CHECK_INTERVAL::'') of
        None \<Rightarrow> Inl MalformedPosture
      | Some seconds \<Rightarrow> (if seconds = 0 then Inl MalformedPosture
                          else Inr (cm\<lparr>cm_PostureCheckIntervalSeconds := Some seconds\<rparr>)))"

definition ParseControlMsg :: "string \<Rightarrow> (saml_error, ControlMessage) result" where
  "ParseControlMsg msg =
     (let stripped = TrimRightNUL msg; kind = ClassifyMsg stripped;
          cm = \<lparr>cm_Kind = kind, cm_Raw = stripped, cm_Challenge = None, cm_DynamicChallenge = None, cm_AWSCC = None,
                cm_PostureCheckIntervalSeconds = None\<rparr>
      in if kind = MsgKindAuthFailedCRV1 then parse_crv1_msg stripped cm
         else if kind = MsgKindCRText then Inr (parse_crtext_msg stripped cm)
         else if kind = MsgKindAWSCC then parse_awscc_msg stripped cm
         else if kind = MsgKindPostureCheckInterval then parse_posture_msg stripped cm
         else Inr cm)"

subsection \<open>Reading and writing messages\<close>

datatype read_end = EndEOF | EndError | EndNoProgress

type_synonym reader = "string \<times> read_end"

text \<open>The loop of \<open>ReadControlMsg\<close> over single-byte reads; the second result is what the reader still delivers.\<close>

fun read_loop :: "nat \<Rightarrow> string \<Rightarrow> string \<Rightarrow> read_end \<Rightarrow> (saml_error, ControlMessage) result \<times> reader" where
  "read_loop maxBytes buf [] fin =
     (case fin of
        EndNoProgress \<Rightarrow> Inl NoProgress
      | EndEOF \<Rightarrow> (if buf \<noteq> [] then ParseControlMsg buf else Inl ReadEOF)
      | EndError \<Rightarrow> Inl ReadFailed, [], fin)"
| "read_loop maxBytes buf (c # s) fin =
     (if c = NUL then (ParseControlMsg buf, s, fin)
      else if length buf = maxBytes then (Inl MessageTooLong, s, fin)
      else read_loop maxBytes (buf @ [c]) s fin)"

definition ReadControlMsg :: "reader \<Rightarrow> int \<Rightarrow> (saml_error, ControlMessage) result \<times> reader" where
  "ReadControlMsg r maxBytes =
     read_loop (nat (if maxBytes \<le> 0 then MaxControlMessageBytes else maxBytes)) [] (fst r) (snd r)"

text \<open>The writer takes the whole message or fails; the result is what is put on the wire.\<close>

definition WriteControlMsg :: "string \<Rightarrow> int \<Rightarrow> (saml_error, string) result" where
  "WriteControlMsg message maxBytes0 =
     (let maxBytes = (if maxBytes0 \<le> 0 then MaxControlMessageBytes else maxBytes0) in
      if NUL \<in> set message then Inl ContainsNUL
      else if maxBytes < int (length message) then Inl MessageTooLong
      else Inr (message @ [NUL]))"

definition WritePhase2Credential :: "string \<Rightarrow> string" where
  "WritePhase2Credential credential = ''AUTH_REPLY,'' @ credential @ [NUL]"

definition WrapAuthFailed :: "string \<Rightarrow> bool \<Rightarrow> saml_error" where
  "WrapAuthFailed msg sessionActive =
     (if sessionActive then SessionExpired (ClassifyMsg msg) else AuthFailed (kind_String (ClassifyMsg msg)))"

subsection \<open>The phases\<close>

text \<open>\<open>HandlePhase1\<close> returns the message also with the rejection error.\<close>

definition HandlePhase1 :: "reader \<Rightarrow> (ControlMessage option \<times> saml_error option) \<times> reader" where
  "HandlePhase1 r =
     (case ReadControlMsg r 0 of
        (Inl e, r1) \<Rightarrow> ((None, Some e), r1)
      | (Inr cm, r1) \<Rightarrow> (if cm_Kind cm = MsgKindAuthFailed then ((Some cm, Some Phase1Rejected), r1)
                         else ((Some cm, None), r1)))"

text \<open>The bytes written and the outcome of reading the answer.\<close>

definition CompletePhase2 :: "reader \<Rightarrow> string \<Rightarrow> string \<Rightarrow> bool \<Rightarrow> string \<times> (saml_error, ControlMessage) result \<times> reader" where
  "CompletePhase2 r stateID samlToken sessionActive =
     (WritePhase2Credential (BuildPhase2Password stateID samlToken),
      case ReadControlMsg r 0 of
        (Inl e, r1) \<Rightarrow> (Inl e, r1)
      | (Inr cm, r1) \<Rightarrow>
          (if cm_Kind cm = MsgKindPushReply then (Inr cm, r1)
           else if cm_Kind cm = MsgKindAuthFailedCRV1 then (Inl Phase2ReChallenge, r1)
           else (Inl (WrapAuthFailed (cm_Raw cm) sessionActive), r1)))"

definition ParsePhase2Credential :: "string \<Rightarrow> (saml_error, string \<times> string) result" where
  "ParsePhase2Credential msg0 =
     (let msg = TrimRightNUL msg0 in
      if \<not> HasPrefix msg ''AUTH_REPLY,CRV1::'' then Inl NotAuthReply
      else let rest = drop (length ''AUTH_REPLY,CRV1::'') msg in
        case Index rest ''::'' of
          None \<Rightarrow> Inl MissingSeparator
        | Some sepIdx \<Rightarrow>
            (let stateID = take sepIdx rest; samlToken = drop (sepIdx + 2) rest
             in if stateID = [] then Inl EmptyCredentialState else Inr (stateID, samlToken)))"

text \<open>The loop of \<open>SessionMonitor.run\<close> while the context is not cancelled: the messages handed to \<open>onMessage\<close> and the
  error sent on \<open>done\<close>.  Each round reads at least one byte or ends the loop.\<close>

lemma read_loop_shorter: "fst (read_loop n buf s fin) = Inr cm \<Longrightarrow> s \<noteq> [] \<Longrightarrow> length (fst (snd (read_loop n buf s fin))) < length s"
proof (induction n buf s fin rule: read_loop.induct)
  case (2 maxBytes buf c s fin)
  then show ?case by (cases "s = []") (auto split: if_splits intro: less_SucI)
qed simp

function monitor_run :: "reader \<Rightarrow> ControlMessage list \<times> saml_error" where
  "monitor_run r =
     (case ReadControlMsg r 0 of
        (Inl e, _) \<Rightarrow> ([], e)
      | (Inr cm, r1) \<Rightarrow>
          (if cm_Kind cm = MsgKindAuthFailed \<or> cm_Kind cm = MsgKindAuthFailedCRV1
           then ([], SessionExpired (cm_Kind cm))
           else let (ms, e) = monitor_run r1 in (cm # ms, e)))"
  by pat_completeness auto
termination
proof (relation "measure (\<lambda>r. length (fst r))", goal_cases)
  case (2 r x r1 cm)
  have e: "read_loop (nat MaxControlMessageBytes) [] (fst r) (snd r) = (Inr cm, r1)"
    using 2(1,2) by (simp add: ReadControlMsg_def)
  have "fst r \<noteq> []" using e by (cases "fst r"; cases "snd r") auto
  then show ?case using read_loop_shorter [of "nat MaxControlMessageBytes" "[]" "fst r" "snd r" cm] e by simp
qed simp

declare monitor_run.simps [simp del]

subsection \<open>Lemmas\<close>

lemma read_loop_message:
  "NUL \<notin> set m \<Longrightarrow> length buf + length m \<le> n \<Longrightarrow> read_loop n buf (m @ NUL # s) fin = (ParseControlMsg (buf @ m), s, fin)"
  by (induction m arbitrary: buf) auto

lemma ReadControlMsg_message:
  assumes "WriteControlMsg m n = Inr w"
  shows "ReadControlMsg (w @ s, fin) n = (ParseControlMsg m, s, fin)"
proof -
  have "NUL \<notin> set m" "int (length m) \<le> (if n \<le> 0 then MaxControlMessageBytes else n)" "w = m @ [NUL]"
    using assms by (auto simp: WriteControlMsg_def Let_def split: if_splits)
  then show ?thesis
    using read_loop_message [of m "[]" "nat (if n \<le> 0 then MaxControlMessageBytes else n)" s fin] by (simp add: ReadControlMsg_def)
qed

lemma read_loop_bound:
  "read_loop n buf s fin = (Inr cm, r) \<Longrightarrow> length buf \<le> n \<Longrightarrow> \<exists>m. length m \<le> n \<and> ParseControlMsg m = Inr cm"
  by (induction n buf s fin rule: read_loop.induct) (auto split: if_splits read_end.splits)

lemma Index_char: "Index s [c] = (if c \<in> set s then Some (length (takeWhile (\<lambda>x. x \<noteq> c) s)) else None)"
  by (induction s) (auto simp: HasPrefix_def)

lemma takeWhile_free: "c \<notin> set a \<Longrightarrow> takeWhile (\<lambda>x. x \<noteq> c) (a @ c # r) = a \<and> dropWhile (\<lambda>x. x \<noteq> c) (a @ c # r) = c # r"
  by (induction a) auto

lemma cut_free: "c \<notin> set a \<Longrightarrow> cut c (a @ c # r) = Some (a, r)"
  using takeWhile_free [of c a r] by (simp add: cut_def Index_char)

lemma cut_none: "c \<notin> set s \<Longrightarrow> cut c s = None"
  by (simp add: cut_def Index_char)

lemma SplitN_cut:
  "SplitN s sep (Suc (Suc n)) = (case cut sep s of None \<Rightarrow> [s] | Some (a, r) \<Rightarrow> a # SplitN r sep (Suc n))"
proof (cases "sep \<in> set s")
  case True
  then obtain a r where "s = a @ sep # r" "sep \<notin> set a" by (meson split_list_first)
  then show ?thesis using takeWhile_free [of sep a r] by (simp add: cut_free)
next
  case False
  then have "dropWhile (\<lambda>c. c \<noteq> sep) s = []" by (metis (mono_tags, lifting) dropWhile_eq_Nil_conv)
  then show ?thesis using False by (simp add: cut_none del: dropWhile_eq_Nil_conv)
qed

text \<open>The two parsers of a CRV1 message look at the same fields.\<close>

lemma crv1_parsers:
  assumes "ParseCRV1 msg = Inr ch"
  shows "\<exists>d. parseDynamicCRV1 msg = Inr d \<and> ds_StateID (dc_Secrets d) = ch_StateID ch \<and> ds_Prompt (dc_Secrets d) = ch_SAMLURL ch"
proof -
  define body where "body = drop (length ''AUTH_FAILED,CRV1:'') msg"
  obtain f r1 st r2 u url where c: "cut (CHR '':'') body = Some (f, r1)" "cut (CHR '':'') r1 = Some (st, r2)"
    "cut (CHR '':'') r2 = Some (u, url)" and p: "HasPrefix msg ''AUTH_FAILED,CRV1:''" "st \<noteq> []" "url \<noteq> []"
    "ch_StateID ch = st" "ch_SAMLURL ch = url"
    using assms unfolding ParseCRV1_def body_def [symmetric] by (auto split: if_splits option.splits prod.splits)
  have "SplitN body (CHR '':'') 4 = [f, st, u, url]"
    using c by (simp add: numeral_eq_Suc SplitN_cut del: SplitN.simps(3))
  then show ?thesis using p unfolding parseDynamicCRV1_def body_def [symmetric] by (simp add: Let_def)
qed

lemma Index_sep: "CHR '':'' \<notin> set s \<Longrightarrow> Index (s @ ''::'' @ t) ''::'' = Some (length s)"
  by (induction s) (auto simp: HasPrefix_def)

definition wire :: "string \<Rightarrow> string" where "wire m = m @ [NUL]"

lemma monitor_step:
  assumes "NUL \<notin> set m" "int (length m) \<le> MaxControlMessageBytes" "ParseControlMsg m = Inr cm"
  shows "monitor_run (wire m @ s, fin) =
     (if cm_Kind cm = MsgKindAuthFailed \<or> cm_Kind cm = MsgKindAuthFailedCRV1 then ([], SessionExpired (cm_Kind cm))
      else (cm # fst (monitor_run (s, fin)), snd (monitor_run (s, fin))))"
proof -
  have "WriteControlMsg m 0 = Inr (wire m)" using assms(1,2) by (simp add: WriteControlMsg_def wire_def Let_def)
  then have "ReadControlMsg (wire m @ s, fin) 0 = (Inr cm, s, fin)" using ReadControlMsg_message assms(3) by simp
  then show ?thesis by (subst monitor_run.simps) (simp add: split_beta)
qed

subsection \<open>Properties\<close>



text \<open>(CRV1 challenge).  A challenge whose flags, state and user fields contain no colon is parsed into exactly its
  fields: the state id, the whole rest of the message as the URL (colons included), and as remote IP what follows the
  first comma of the flags; the dynamic-challenge view of the same message carries the same state and URL.\<close>

theorem ParseCRV1_fields:
  assumes "CHR '':'' \<notin> set flags" "CHR '':'' \<notin> set st" "CHR '':'' \<notin> set user" "st \<noteq> []" "url \<noteq> []" "last url \<noteq> NUL"
    and "msg = ''AUTH_FAILED,CRV1:'' @ flags @ '':'' @ st @ '':'' @ user @ '':'' @ url"
  shows "\<exists>cm ch d. ParseControlMsg (msg @ [NUL]) = Inr cm \<and> cm_Kind cm = MsgKindAuthFailedCRV1 \<and> cm_Raw cm = msg \<and>
     cm_Challenge cm = Some ch \<and> cm_DynamicChallenge cm = Some d \<and> ch_StateID ch = st \<and> ch_SAMLURL ch = url \<and>
     ch_RemoteIP ch = (if CHR '','' \<in> set flags then drop 1 (dropWhile (\<lambda>c. c \<noteq> CHR '','') flags) else []) \<and>
     ds_StateID (dc_Secrets d) = st \<and> ds_Prompt (dc_Secrets d) = url"
proof -
  have pre: "HasPrefix msg ''AUTH_FAILED,CRV1:''" and body: "drop (length ''AUTH_FAILED,CRV1:'') msg =
      flags @ CHR '':'' # st @ CHR '':'' # user @ CHR '':'' # url"
    unfolding assms(7) by (rule HasPrefix_append) simp
  have "last msg = last url" "msg \<noteq> []" using assms(5,7) by auto
  then have trim: "TrimRightNUL (msg @ [NUL]) = msg" "TrimRightNUL msg = msg"
    using assms(6) trim_right_id [of msg "\<lambda>c. c = NUL"] by (simp_all add: TrimRightNUL_def)
  have "\<not> HasPrefix msg ''PUSH_REPLY''" using assms(7) by (simp add: HasPrefix_def)
  then have kind: "ClassifyMsg msg = MsgKindAuthFailedCRV1" using pre trim by (simp add: ClassifyMsg_def)
  have ip: "(case cut (CHR '','') flags of None \<Rightarrow> [] | Some (_, i) \<Rightarrow> i) =
      (if CHR '','' \<in> set flags then drop 1 (dropWhile (\<lambda>c. c \<noteq> CHR '','') flags) else [])"
  proof (cases "CHR '','' \<in> set flags")
    case True
    then obtain a r where "flags = a @ CHR '','' # r" "CHR '','' \<notin> set a" by (meson split_list_first)
    then show ?thesis using takeWhile_free [of "CHR '',''" a r] by (simp add: cut_free)
  qed (simp add: cut_none)
  have crv: "ParseCRV1 msg = Inr \<lparr>ch_StateID = st, ch_SAMLURL = url,
      ch_RemoteIP = (if CHR '','' \<in> set flags then drop 1 (dropWhile (\<lambda>c. c \<noteq> CHR '','') flags) else [])\<rparr>"
    unfolding ParseCRV1_def body using assms pre by (simp add: cut_free ip)
  then obtain d where "parseDynamicCRV1 msg = Inr d" "ds_StateID (dc_Secrets d) = st" "ds_Prompt (dc_Secrets d) = url"
    using crv1_parsers [OF crv] by auto
  then show ?thesis using kind crv trim by (simp add: ParseControlMsg_def parse_crv1_msg_def Let_def)
qed

theorem ParseCRV1_fields_witness:
  "\<exists>cm ch. ParseControlMsg (''AUTH_FAILED,CRV1:R,52.1.2.3:instance-1:dXNlcg:https://portal'' @ [NUL]) = Inr cm \<and>
     cm_Challenge cm = Some ch \<and> ch_StateID ch = ''instance-1'' \<and> ch_SAMLURL ch = ''https://portal'' \<and> ch_RemoteIP ch = ''52.1.2.3''"
proof -
  have n: "last ''https://portal'' \<noteq> NUL" "drop 1 (dropWhile (\<lambda>c. c \<noteq> CHR '','') ''R,52.1.2.3'') = ''52.1.2.3''" by code_simp+
  from ParseCRV1_fields [of "''R,52.1.2.3''" "''instance-1''" "''dXNlcg''" "''https://portal''", OF _ _ _ _ _ n(1) refl] n(2)
  show ?thesis by auto
qed

text \<open>(phase 2 credential).  The credential the client sends is parsed back into state id and token when the state id
  contains no colon; a state id with a double colon inside is cut at the first one.\<close>

theorem phase2_credential:
  assumes "CHR '':'' \<notin> set st" "st \<noteq> []" "token \<noteq> []" "last token \<noteq> NUL"
  shows "ParsePhase2Credential (WritePhase2Credential (BuildPhase2Password st token)) = Inr (st, token) \<and>
     ParsePhase2Credential (WritePhase2Credential (BuildPhase2Password (st @ ''::'' @ extra) token)) = Inr (st, extra @ ''::'' @ token)"
proof -
  have go: "ParsePhase2Credential (''AUTH_REPLY,CRV1::'' @ st @ ''::'' @ t @ [NUL]) = Inr (st, t)" if "t \<noteq> []" "last t \<noteq> NUL" for t
  proof -
    have "TrimRightNUL (''AUTH_REPLY,CRV1::'' @ st @ ''::'' @ t @ [NUL]) = ''AUTH_REPLY,CRV1::'' @ st @ ''::'' @ t"
      using that trim_right_id [of "''AUTH_REPLY,CRV1::'' @ st @ ''::'' @ t" "\<lambda>c. c = NUL"]
        trim_right_snoc [of "\<lambda>c. c = NUL" NUL "''AUTH_REPLY,CRV1::'' @ st @ ''::'' @ t"] by (simp add: TrimRightNUL_def)
    moreover have "HasPrefix (''AUTH_REPLY,CRV1::'' @ st @ ''::'' @ t) ''AUTH_REPLY,CRV1::''" by (rule HasPrefix_append)
    moreover have "drop (length ''AUTH_REPLY,CRV1::'') (''AUTH_REPLY,CRV1::'' @ st @ ''::'' @ t) = st @ ''::'' @ t" by simp
    ultimately show ?thesis unfolding ParsePhase2Credential_def Let_def using Index_sep [OF assms(1), of t] assms(2) by simp
  qed
  have "WritePhase2Credential (BuildPhase2Password s t) = ''AUTH_REPLY,CRV1::'' @ s @ ''::'' @ t @ [NUL]" for s t
    by (simp add: WritePhase2Credential_def BuildPhase2Password_def)
  then show ?thesis using go [of token] go [of "extra @ ''::'' @ token"] assms by simp
qed

theorem phase2_credential_witness:
  "ParsePhase2Credential (WritePhase2Credential (BuildPhase2Password ''instance-1/7'' ''PHNhbWw+'')) = Inr (''instance-1/7'', ''PHNhbWw+'') \<and>
   ParsePhase2Credential (WritePhase2Credential (BuildPhase2Password ''a::b'' ''t'')) = Inr (''a'', ''b::t'')"
proof -
  have "last ''PHNhbWw+'' \<noteq> NUL" "last ''t'' \<noteq> NUL" by code_simp+
  from phase2_credential [of "''instance-1/7''" "''PHNhbWw+''", OF _ _ _ this(1)]
    phase2_credential [of "''a''" "''t''" "''b''", OF _ _ _ this(2)] show ?thesis by simp
qed

end
