(* ===== verification/Saml_Token.thy ===== *)
theory Saml_Token
  imports Saml
begin

section \<open>SAML responses and their expiry\<close>

text \<open>
  Models \<^verbatim>\<open>auth/saml/token.go\<close> and the response handling of \<^verbatim>\<open>auth/saml/saml.go\<close> (\<open>normalizeAndValidateResponse\<close>,
  \<open>validateResponseXML\<close>, \<open>handleACS\<close>), on \<^verbatim>\<open>encoding/base64\<close> and the part of \<^verbatim>\<open>time.Parse\<close> that the layouts use.
  The XML parser of \<^verbatim>\<open>encoding/xml\<close> is an argument: from the bytes of a document it gives name space and local name
  of the root element, \<open>None\<close> when the document is not well formed.  A point in time is a number of nanoseconds since
  1970; the zero time is 1 January of year 1.
\<close>

subsection \<open>encoding/base64\<close>

definition b64_val :: "char \<Rightarrow> char \<Rightarrow> char \<Rightarrow> nat option" where
  "b64_val c62 c63 c =
     (if 65 \<le> code c \<and> code c \<le> 90 then Some (code c - 65)
      else if 97 \<le> code c \<and> code c \<le> 122 then Some (code c - 71)
      else if 48 \<le> code c \<and> code c \<le> 57 then Some (code c + 4)
      else if c = c62 then Some 62
      else if c = c63 then Some 63
      else None)"

definition b64_1 :: "nat \<Rightarrow> nat \<Rightarrow> byte" where "b64_1 a b = of_nat (a * 4 + b div 16)"
definition b64_2 :: "nat \<Rightarrow> nat \<Rightarrow> byte" where "b64_2 b c = of_nat (b mod 16 * 16 + c div 4)"
definition b64_3 :: "nat \<Rightarrow> nat \<Rightarrow> byte" where "b64_3 c d = of_nat (c mod 4 * 64 + d)"

text \<open>Groups of four; in strict mode the unused bits before the padding must be zero.\<close>

fun b64_groups :: "(char \<Rightarrow> nat option) \<Rightarrow> bool \<Rightarrow> string \<Rightarrow> bytes option" where
  "b64_groups val strict [] = Some []"
| "b64_groups val strict (a # b # c # d # r) =
     (case (val a, val b) of
        (Some va, Some vb) \<Rightarrow>
          (if c = CHR ''='' then
             (if d = CHR ''='' \<and> r = [] \<and> (strict \<longrightarrow> vb mod 16 = 0) then Some [b64_1 va vb] else None)
           else case val c of
             None \<Rightarrow> None
           | Some vc \<Rightarrow>
               (if d = CHR ''='' then
                  (if r = [] \<and> (strict \<longrightarrow> vc mod 4 = 0) then Some [b64_1 va vb, b64_2 vb vc] else None)
                else case val d of
                  None \<Rightarrow> None
                | Some vd \<Rightarrow> map_option (\<lambda>bs. b64_1 va vb # b64_2 vb vc # b64_3 vc vd # bs) (b64_groups val strict r)))
      | _ \<Rightarrow> None)"
| "b64_groups val strict _ = None"

definition is_newline :: "char \<Rightarrow> bool" where "is_newline c \<longleftrightarrow> c = CHR 0x0A \<or> c = CHR 0x0D"

definition b64_std :: "char \<Rightarrow> nat option" where "b64_std = b64_val (CHR ''+'') (CHR ''/'')"
definition b64_url :: "char \<Rightarrow> nat option" where "b64_url = b64_val (CHR ''-'') (CHR ''_'')"

definition StdEncoding_Decode :: "bool \<Rightarrow> string \<Rightarrow> bytes option" where
  "StdEncoding_Decode strict s = b64_groups b64_std strict (filter (\<lambda>c. \<not> is_newline c) s)"

definition URLEncoding_Decode :: "string \<Rightarrow> bytes option" where
  "URLEncoding_Decode s = b64_groups b64_url False (filter (\<lambda>c. \<not> is_newline c) s)"

subsection \<open>The response\<close>

definition MaxSAMLResponseBytes :: nat where "MaxSAMLResponseBytes = 128 * 1024"
definition maxSAMLFormBytes :: nat where "maxSAMLFormBytes = 3 * MaxSAMLResponseBytes + 1024"

datatype response_error =
  EmptyResponse | ResponseTooLong | InvalidData | InvalidPadding | InvalidBase64 | DecodedTooLong | NotWellFormed | UnexpectedRoot

type_synonym xml_root = "bytes \<Rightarrow> (string \<times> string) option"

definition validateResponseXML :: "xml_root \<Rightarrow> bytes \<Rightarrow> response_error option" where
  "validateResponseXML root data =
     (case root data of
        None \<Rightarrow> Some NotWellFormed
      | Some (space, local) \<Rightarrow>
          (if local \<noteq> ''Response'' \<or> space \<noteq> ''urn:oasis:names:tc:SAML:2.0:protocol'' then Some UnexpectedRoot else None))"

definition b64_alnum :: "char \<Rightarrow> bool" where
  "b64_alnum c \<longleftrightarrow> 65 \<le> code c \<and> code c \<le> 90 \<or> 97 \<le> code c \<and> code c \<le> 122 \<or> 48 \<le> code c \<and> code c \<le> 57"

definition norm_char :: "char \<Rightarrow> string option" where
  "norm_char c =
     (if c = CHR '' '' then Some ''+''
      else if b64_alnum c \<or> c = CHR ''+'' \<or> c = CHR ''/'' then Some [c]
      else if c = CHR ''='' then Some [c]
      else if c = CHR ''-'' then Some ''+''
      else if c = CHR ''_'' then Some ''/''
      else if c = CHR 0x0A \<or> c = CHR 0x0D \<or> c = CHR 0x09 then Some []
      else None)"

fun norm_chars :: "string \<Rightarrow> string option" where
  "norm_chars [] = Some []"
| "norm_chars (c # s) =
     (case norm_char c of None \<Rightarrow> None | Some out \<Rightarrow> map_option (\<lambda>t. out @ t) (norm_chars s))"

definition b64_pad :: "string \<Rightarrow> string" where
  "b64_pad s = s @ replicate ((4 - length s mod 4) mod 4) (CHR ''='')"

definition normalizeAndValidateResponse :: "xml_root \<Rightarrow> string \<Rightarrow> (response_error, string) result" where
  "normalizeAndValidateResponse root s =
     (if length s = 0 then Inl EmptyResponse
      else if MaxSAMLResponseBytes < length s then Inl ResponseTooLong
      else case norm_chars s of
        None \<Rightarrow> Inl InvalidData
      | Some out0 \<Rightarrow>
          (let out1 = trim_right (\<lambda>c. c = CHR ''='') out0 in
           if CHR ''='' \<in> set out1 then Inl InvalidPadding
           else let out = b64_pad out1 in
             case StdEncoding_Decode True out of
               None \<Rightarrow> Inl InvalidBase64
             | Some decoded \<Rightarrow>
                 (if MaxSAMLResponseBytes < length decoded then Inl DecodedTooLong
                  else case validateResponseXML root decoded of
                    Some e \<Rightarrow> Inl e
                  | None \<Rightarrow> Inr out)))"

text \<open>A request as the handler sees it: \<open>rq_form\<close> is the outcome of \<^verbatim>\<open>ParseForm\<close> on the limited body, the value of the
  field \<^verbatim>\<open>SAMLResponse\<close>; the channel holds one token.\<close>

datatype form = FormTooLarge | BadForm | FormValue string

record acs_request =
  rq_method :: string
  rq_path :: string
  rq_mediaType :: "string option"
  rq_form :: form

datatype http_status = OK200 | BadRequest400 | NotFound404 | MethodNotAllowed405 | TooLarge413 | UnsupportedMediaType415

definition handleACS :: "xml_root \<Rightarrow> acs_request \<Rightarrow> string option \<Rightarrow> http_status \<times> string option" where
  "handleACS root rq ch =
     (if rq_method rq \<noteq> ''POST'' then (MethodNotAllowed405, ch)
      else if rq_path rq \<noteq> ''/'' then (NotFound404, ch)
      else if rq_mediaType rq \<noteq> Some ''application/x-www-form-urlencoded'' then (UnsupportedMediaType415, ch)
      else case rq_form rq of
        FormTooLarge \<Rightarrow> (TooLarge413, ch)
      | BadForm \<Rightarrow> (BadRequest400, ch)
      | FormValue v \<Rightarrow>
          (case normalizeAndValidateResponse root v of
             Inl e \<Rightarrow> (BadRequest400, ch)
           | Inr tok \<Rightarrow> (OK200, case ch of None \<Rightarrow> Some tok | Some t \<Rightarrow> Some t)))"

subsection \<open>time.Parse\<close>

definition zero_time :: int where "zero_time = - 62135596800 * 10 ^ 9"

definition is_leap :: "int \<Rightarrow> bool" where "is_leap y \<longleftrightarrow> y mod 4 = 0 \<and> (y mod 100 \<noteq> 0 \<or> y mod 400 = 0)"

definition days_in :: "nat \<Rightarrow> int \<Rightarrow> nat" where
  "days_in m y = (if m = 2 \<and> is_leap y then 29 else [31, 28, 31, 30, 31, 30, 31, 31, 30, 31, 30, 31] ! (m - 1))"

definition days_before :: "nat \<Rightarrow> int \<Rightarrow> int" where
  "days_before m y = (\<Sum>k \<leftarrow> [1..<m]. int (days_in k y))"

definition unix_seconds :: "int \<Rightarrow> nat \<Rightarrow> nat \<Rightarrow> nat \<Rightarrow> nat \<Rightarrow> nat \<Rightarrow> int" where
  "unix_seconds y m d h mi s =
     (let days = 365 * (y - 1) + (y - 1) div 4 - (y - 1) div 100 + (y - 1) div 400 + days_before m y + int d - 1
      in days * 86400 + int h * 3600 + int mi * 60 + int s - 62135596800)"

text \<open>Readers of a prefix of the input: digits exactly or at most two, a literal character.\<close>

definition digits_n :: "nat \<Rightarrow> string \<Rightarrow> (nat \<times> string) option" where
  "digits_n n s = (if n \<le> length s \<and> list_all is_digit (take n s) then Some (digits_val (take n s), drop n s) else None)"

text \<open>\<^verbatim>\<open>getnum\<close> without the fixed width: the hour may have one digit.\<close>

definition getnum :: "string \<Rightarrow> (nat \<times> string) option" where
  "getnum s = (case digits_n 2 s of Some r \<Rightarrow> Some r | None \<Rightarrow> digits_n 1 s)"

definition lit :: "char \<Rightarrow> string \<Rightarrow> string option" where
  "lit c s = (case s of [] \<Rightarrow> None | d # r \<Rightarrow> if d = c then Some r else None)"

text \<open>The fraction after the seconds, which the input may have although the layout does not: at most nine digits count.\<close>

definition fraction :: "string \<Rightarrow> nat \<times> string" where
  "fraction s =
     (case s of
        c # d # r \<Rightarrow>
          (if (c = CHR ''.'' \<or> c = CHR '','') \<and> is_digit d
           then (let ds = takeWhile is_digit (d # r); ns = take 9 ds
                 in (digits_val ns * 10 ^ (9 - length ns), drop (length ds) (d # r)))
           else (0, s))
      | _ \<Rightarrow> (0, s))"

text \<open>Date and time up to the fraction, as nanoseconds, with the rest of the input.\<close>

definition parse_datetime :: "string \<Rightarrow> (int \<times> string) option" where
  "parse_datetime s =
     Option.bind (digits_n 4 s) (\<lambda>(y, s). Option.bind (lit (CHR ''-'') s) (\<lambda>s.
     Option.bind (digits_n 2 s) (\<lambda>(m, s). Option.bind (lit (CHR ''-'') s) (\<lambda>s.
     Option.bind (digits_n 2 s) (\<lambda>(d, s). Option.bind (lit (CHR ''T'') s) (\<lambda>s.
     Option.bind (getnum s) (\<lambda>(h, s). Option.bind (lit (CHR '':'') s) (\<lambda>s.
     Option.bind (digits_n 2 s) (\<lambda>(mi, s). Option.bind (lit (CHR '':'') s) (\<lambda>s.
     Option.bind (digits_n 2 s) (\<lambda>(sec, s).
       if 1 \<le> m \<and> m \<le> 12 \<and> 1 \<le> d \<and> d \<le> days_in m (int y) \<and> h < 24 \<and> mi < 60 \<and> sec < 60
       then (case fraction s of (ns, s) \<Rightarrow> Some (unix_seconds (int y) m d h mi sec * 10 ^ 9 + int ns, s))
       else None)))))))))))"

definition zone_offset :: "string \<Rightarrow> int option" where
  "zone_offset s =
     (case s of
        [sg, h1, h2, c, m1, m2] \<Rightarrow>
          (if c = CHR '':'' \<and> list_all is_digit [h1, h2, m1, m2] \<and> digits_val [h1, h2] \<le> 24 \<and> digits_val [m1, m2] \<le> 60
           then (let off = int (digits_val [h1, h2]) * 3600 + int (digits_val [m1, m2]) * 60 in
                 if sg = CHR ''+'' then Some off else if sg = CHR ''-'' then Some (- off) else None)
           else None)
      | _ \<Rightarrow> None)"

text \<open>The layouts with a literal \<^verbatim>\<open>Z\<close> accept the same inputs because of the optional fraction; the last layout, RFC 3339, also
  accepts an offset.\<close>

definition parseSAMLTime :: "string \<Rightarrow> int" where
  "parseSAMLTime s =
     (case parse_datetime s of
        None \<Rightarrow> zero_time
      | Some (t, rest) \<Rightarrow>
          (if rest = ''Z'' then t
           else case zone_offset rest of None \<Rightarrow> zero_time | Some off \<Rightarrow> t - off * 10 ^ 9))"

subsection \<open>Expiry\<close>

definition expiry_attr :: string where "expiry_attr = ''NotOnOrAfter='' @ [CHR 0x22]"

lemma IndexSome_le: "Index s p = Some n \<Longrightarrow> n + length p \<le> length s"
proof -
  assume "Index s p = Some n"
  then have "s = take n s @ p @ drop (n + length p) s" "n \<le> length s" using IndexSome by auto
  then have "length s = n + length p + (length s - (n + length p))"
    by (metis add.assoc length_append length_drop length_take min.absorb2)
  then show ?thesis by linarith
qed

text \<open>One round of the loop: the value of the next attribute and what follows its closing quote.\<close>

definition next_expiry :: "string \<Rightarrow> (string \<times> string) option" where
  "next_expiry rest =
     (case Index rest expiry_attr of
        None \<Rightarrow> None
      | Some idx \<Rightarrow>
          (let rest1 = drop (idx + length expiry_attr) rest in
           case Index rest1 [CHR 0x22] of
             None \<Rightarrow> None
           | Some end \<Rightarrow> Some (take end rest1, drop (end + 1) rest1)))"

lemma next_expiry_shorter: "next_expiry rest = Some (ts, rest') \<Longrightarrow> length rest' < length rest"
  by (auto simp: next_expiry_def expiry_attr_def Let_def dest!: IndexSome_le split: option.splits)

function earliest_loop :: "int \<Rightarrow> string \<Rightarrow> int" where
  "earliest_loop earliest rest =
     (case next_expiry rest of
        None \<Rightarrow> earliest
      | Some (ts, rest') \<Rightarrow>
          (let t = parseSAMLTime ts in
           if t = zero_time then earliest_loop earliest rest'
           else if earliest = zero_time \<or> t < earliest then earliest_loop t rest'
           else earliest_loop earliest rest'))"
  by pat_completeness auto
termination by (relation "measure (\<lambda>(_, rest). length rest)") (auto dest: next_expiry_shorter)

declare earliest_loop.simps [simp del]

definition earliestNotOnOrAfter :: "string \<Rightarrow> int" where
  "earliestNotOnOrAfter xml = earliest_loop zero_time xml"

definition TokenExpiry :: "string \<Rightarrow> int" where
  "TokenExpiry base64Token =
     (case StdEncoding_Decode False base64Token of
        Some xml \<Rightarrow> earliestNotOnOrAfter (string_of_bytes xml)
      | None \<Rightarrow>
          (case URLEncoding_Decode base64Token of
             None \<Rightarrow> zero_time
           | Some xml \<Rightarrow> earliestNotOnOrAfter (string_of_bytes xml)))"

subsection \<open>Lemmas\<close>

text \<open>The canonical form: standard alphabet, then padding.\<close>

definition plain_char :: "char \<Rightarrow> bool" where "plain_char c \<longleftrightarrow> b64_alnum c \<or> c = CHR ''+'' \<or> c = CHR ''/''"

lemma plain_char_norm: "plain_char c \<Longrightarrow> norm_char c = Some [c]"
  by (auto simp: plain_char_def norm_char_def b64_alnum_def code_def)

lemma norm_char_plain: "norm_char c = Some out \<Longrightarrow> d \<in> set out \<Longrightarrow> plain_char d \<or> d = CHR ''=''"
  by (auto simp: plain_char_def norm_char_def split: if_splits)

lemma norm_chars_plain: "norm_chars s = Some out \<Longrightarrow> d \<in> set out \<Longrightarrow> plain_char d \<or> d = CHR ''=''"
  by (induction s arbitrary: out) (auto dest: norm_char_plain split: option.splits)

lemma norm_char_length: "norm_char c = Some out \<Longrightarrow> length out \<le> 1"
  by (auto simp: norm_char_def split: if_splits)

lemma norm_chars_length: "norm_chars s = Some out \<Longrightarrow> length out \<le> length s"
proof (induction s arbitrary: out)
  case (Cons c s)
  then obtain o1 o2 where "norm_char c = Some o1" "norm_chars s = Some o2" "out = o1 @ o2" by (auto split: option.splits)
  then show ?case using norm_char_length [of c o1] Cons.IH by force
qed simp

text \<open>What the browser's form encoding may make of a character, and the padding, are undone.\<close>

lemma norm_chars_map:
  assumes "\<And>c. c \<in> set t \<Longrightarrow> norm_char (f c) = Some [c]"
  shows "norm_chars (map f t) = Some t"
  using assms by (induction t) simp_all

lemma b64_pad_trim:
  assumes "CHR ''='' \<notin> set t"
  shows "trim_right (\<lambda>c. c = CHR ''='') (b64_pad t) = t"
proof -
  have "trim_right (\<lambda>c. c = CHR ''='') (t @ replicate n (CHR ''='')) = t" for n
  proof (induction n)
    case 0
    then show ?case using assms by (cases t rule: rev_cases) (auto simp: trim_right_def)
  next
    case (Suc n)
    then show ?case by (simp add: replicate_append_same [symmetric] flip: append_assoc)
  qed
  then show ?thesis by (simp add: b64_pad_def)
qed

lemma b64_pad_length: "length (b64_pad t) mod 4 = 0 \<and> length (b64_pad t) \<le> length t + 3"
proof -
  define r where "r = length t mod 4"
  have "length t = 4 * (length t div 4) + r" by (simp add: r_def)
  moreover have "r = 0 \<or> r = 1 \<or> r = 2 \<or> r = 3" unfolding r_def by linarith
  moreover have "length (b64_pad t) = length t + (4 - r) mod 4" by (simp add: b64_pad_def r_def)
  moreover have "L mod 4 = 0 \<and> L \<le> n + 3"
    if "n = 4 * q + r" "r = 0 \<or> r = 1 \<or> r = 2 \<or> r = 3" "L = n + (4 - r) mod 4" for L n q r :: nat
    using that by (elim disjE) simp_all
  ultimately show ?thesis by blast
qed

lemma normalize_ok:
  assumes "CHR ''='' \<notin> set t" "t \<noteq> []" "b64_pad t = out" "norm_chars s = Some out" "s \<noteq> []" "length s \<le> MaxSAMLResponseBytes"
    and "StdEncoding_Decode True out = Some decoded" "length decoded \<le> MaxSAMLResponseBytes" "validateResponseXML root decoded = None"
  shows "normalizeAndValidateResponse root s = Inr out"
  using assms b64_pad_trim [OF assms(1)] by (auto simp: normalizeAndValidateResponse_def Let_def)

lemma normalize_okE:
  assumes "normalizeAndValidateResponse root s = Inr out"
  obtains t decoded where "CHR ''='' \<notin> set t" "b64_pad t = out" "list_all plain_char t" "length t \<le> MaxSAMLResponseBytes"
    "StdEncoding_Decode True out = Some decoded" "length decoded \<le> MaxSAMLResponseBytes" "validateResponseXML root decoded = None"
proof -
  obtain o0 decoded where d: "norm_chars s = Some o0" "length s \<le> MaxSAMLResponseBytes"
    "CHR ''='' \<notin> set (trim_right (\<lambda>c. c = CHR ''='') o0)" "b64_pad (trim_right (\<lambda>c. c = CHR ''='') o0) = out"
    "StdEncoding_Decode True out = Some decoded" "length decoded \<le> MaxSAMLResponseBytes" "validateResponseXML root decoded = None"
    using assms by (auto simp: normalizeAndValidateResponse_def Let_def split: if_splits option.splits)
  have "length (trim_right P xs) \<le> length xs" for P and xs :: string
    using length_dropWhile_le [of P "rev xs"] by (simp add: trim_right_def)
  then have "length (trim_right (\<lambda>c. c = CHR ''='') o0) \<le> MaxSAMLResponseBytes"
    using norm_chars_length [OF d(1)] d(2) by (meson le_trans)
  moreover have "list_all plain_char (trim_right (\<lambda>c. c = CHR ''='') o0)"
    using norm_chars_plain [OF d(1)] d(3) trim_right_set [of "\<lambda>c. c = CHR ''=''" o0] by (auto simp: list_all_iff)
  ultimately show thesis using that d(3-) by blast
qed

lemma b64_pad_limit: "length t \<le> MaxSAMLResponseBytes \<Longrightarrow> length (b64_pad t) \<le> MaxSAMLResponseBytes"
proof -
  assume "length t \<le> MaxSAMLResponseBytes"
  then have "length (b64_pad t) \<le> 4 * 32768 + 3" "length (b64_pad t) mod 4 = 0"
    using b64_pad_length [of t] by (auto simp: MaxSAMLResponseBytes_def)
  then show ?thesis unfolding MaxSAMLResponseBytes_def by presburger
qed

lemma Index_first:
  assumes "Index (j @ p) p = Some (length j)" "p \<noteq> []"
  shows "Index (j @ p @ r) p = Some (length j)"
  using assms
proof (induction j)
  case Nil
  then show ?case using HasPrefix_append [of p r] by (cases p) simp_all
next
  case (Cons c j)
  have np: "\<not> HasPrefix (c # j @ p) p" using Cons.prems by (auto split: if_splits)
  then have "Index (j @ p) p = Some (length j)" using Cons.prems by (simp split: if_splits option.splits)
  then have "Index (j @ p @ r) p = Some (length j)" using Cons.IH assms(2) by blast
  moreover have "\<not> HasPrefix (c # j @ p @ r) p"
  proof -
    have "take (length p) (c # j @ p @ r) = take (length p) (c # j @ p)" by (simp add: take_Cons')
    then show ?thesis using np by (simp add: HasPrefix_def)
  qed
  ultimately show ?case by simp
qed

text \<open>A document as text around attribute values.\<close>

definition expiry_doc :: "(string \<times> string) list \<Rightarrow> string \<Rightarrow> string" where
  "expiry_doc segs rest = concat (map (\<lambda>(j, ts). j @ expiry_attr @ ts @ [CHR 0x22]) segs) @ rest"

definition seg_ok :: "string \<times> string \<Rightarrow> bool" where
  "seg_ok seg \<longleftrightarrow> (case seg of (j, ts) \<Rightarrow> Index (j @ expiry_attr) expiry_attr = Some (length j) \<and> CHR 0x22 \<notin> set ts)"

lemma next_expiry_doc:
  assumes "seg_ok (j, ts)"
  shows "next_expiry (expiry_doc ((j, ts) # segs) rest) = Some (ts, expiry_doc segs rest)"
proof -
  let ?r = "ts @ CHR 0x22 # expiry_doc segs rest"
  have "Index (j @ expiry_attr @ ?r) expiry_attr = Some (length j)"
    using assms by (intro Index_first) (simp_all add: seg_ok_def expiry_attr_def)
  moreover have "Index ?r [CHR 0x22] = Some (length ts)"
    using assms takeWhile_free [of "CHR 0x22" ts "expiry_doc segs rest"] by (simp add: Index_char seg_ok_def)
  ultimately show ?thesis by (simp add: next_expiry_def expiry_doc_def Let_def)
qed

fun least_time :: "int \<Rightarrow> int list \<Rightarrow> int" where
  "least_time e [] = e"
| "least_time e (t # ts) = least_time (if t \<noteq> zero_time \<and> (e = zero_time \<or> t < e) then t else e) ts"

lemma earliest_loop_doc:
  assumes "list_all seg_ok segs" "next_expiry rest = None"
  shows "earliest_loop e (expiry_doc segs rest) = least_time e (map (\<lambda>sg. parseSAMLTime (snd sg)) segs)"
  using assms(1)
proof (induction segs arbitrary: e)
  case Nil
  then show ?case using assms(2) by (subst earliest_loop.simps) (simp add: expiry_doc_def)
next
  case (Cons seg segs)
  obtain j ts where seg: "seg = (j, ts)" by fastforce
  then show ?case using Cons next_expiry_doc [of j ts segs rest]
    by (subst earliest_loop.simps) (simp add: Let_def)
qed

definition earliest_of :: "int list \<Rightarrow> int" where
  "earliest_of ts = (let S = filter (\<lambda>t. t \<noteq> zero_time) ts in if S = [] then zero_time else Min (set S))"

lemma earliest_of_zero [simp]: "earliest_of (zero_time # ts) = earliest_of ts"
  by (simp add: earliest_of_def)

lemma Min_insert_min: "finite S \<Longrightarrow> Min (insert a (insert b S)) = Min (insert (min a b) (S :: int set))"
  by (cases "S = {}") (simp_all add: min.assoc)

lemma least_time_Min: "least_time e ts = earliest_of (e # ts)"
proof (induction ts arbitrary: e)
  case (Cons t ts)
  have "Min (insert e (insert t (set (filter (\<lambda>t. t \<noteq> zero_time) ts)))) = Min (insert (min e t) (set (filter (\<lambda>t. t \<noteq> zero_time) ts)))"
    by (rule Min_insert_min) simp
  then show ?case by (auto simp: Cons.IH earliest_of_def min_def)
qed (simp add: earliest_of_def)

lemma norm_special:
  "norm_char (CHR '' '') = Some ''+''" "norm_char (CHR ''-'') = Some ''+''" "norm_char (CHR ''_'') = Some ''/''" "norm_char (CHR ''='') = Some ''=''"
  by code_simp+

lemma plain_special: "\<not> plain_char (CHR ''='')" "\<not> plain_char (CHR '' '')"
  by code_simp+

lemma norm_forms:
  assumes "plain_char c \<or> c = CHR ''=''"
  shows "norm_char c = Some [c]" "norm_char (if c = CHR ''+'' then CHR '' '' else c) = Some [c]"
    "norm_char (if c = CHR ''+'' then CHR ''-'' else if c = CHR ''/'' then CHR ''_'' else c) = Some [c]"
proof -
  show n: "norm_char c = Some [c]" using assms norm_special(4) plain_char_norm by metis
  show "norm_char (if c = CHR ''+'' then CHR '' '' else c) = Some [c]" using n norm_special(1) by simp
  show "norm_char (if c = CHR ''+'' then CHR ''-'' else if c = CHR ''/'' then CHR ''_'' else c) = Some [c]"
    using n norm_special(2,3) by simp
qed

lemma xml_response: "validateResponseXML root d = None \<Longrightarrow> root d = Some (''urn:oasis:names:tc:SAML:2.0:protocol'', ''Response'')"
  by (auto simp: validateResponseXML_def split: option.splits prod.splits if_splits)

lemma decode_nonempty:
  assumes "StdEncoding_Decode True (b64_pad u) = Some d" "d \<noteq> []"
  shows "u \<noteq> []"
  using assms by (auto simp: b64_pad_def StdEncoding_Decode_def)

subsection \<open>Properties\<close>

text \<open>(response normalisation).  A token that the assertion consumer passes on is canonical base64 of a SAML response within the
  size limit, and every spelling the form encoding can produce of it (a plus sign read as a space, the URL-safe
  alphabet, missing padding, a line break) gives the same token; in particular normalising it again changes nothing.
  The XML parser refuses the empty document.\<close>

theorem response_canonical:
  assumes "root [] = None" "normalizeAndValidateResponse root s = Inr t"
  shows "length t mod 4 = 0 \<and>
    (\<exists>d. StdEncoding_Decode True t = Some d \<and> length d \<le> MaxSAMLResponseBytes \<and>
       root d = Some (''urn:oasis:names:tc:SAML:2.0:protocol'', ''Response'')) \<and>
    normalizeAndValidateResponse root t = Inr t \<and>
    normalizeAndValidateResponse root (map (\<lambda>c. if c = CHR ''+'' then CHR '' '' else c) t) = Inr t \<and>
    normalizeAndValidateResponse root (map (\<lambda>c. if c = CHR ''+'' then CHR ''-'' else if c = CHR ''/'' then CHR ''_'' else c) t) = Inr t"
proof -
  obtain u d where u: "CHR ''='' \<notin> set u" "b64_pad u = t" "list_all plain_char u" "length u \<le> MaxSAMLResponseBytes"
    "StdEncoding_Decode True t = Some d" "length d \<le> MaxSAMLResponseBytes" "validateResponseXML root d = None"
    using assms(2) by (rule normalize_okE)
  have r: "root d = Some (''urn:oasis:names:tc:SAML:2.0:protocol'', ''Response'')" using u(7) by (rule xml_response)
  have "d \<noteq> []" using r assms(1) by auto
  then have u0: "u \<noteq> []" using decode_nonempty u(2,5) by blast
  then have t0: "t \<noteq> []" using u(2) by (auto simp: b64_pad_def)
  have "set t \<subseteq> set u \<union> {CHR ''=''}" unfolding u(2) [symmetric] b64_pad_def by auto
  then have pc: "plain_char c \<or> c = CHR ''=''" if "c \<in> set t" for c
    using that u(3) unfolding list_all_iff by blast
  have tl: "length t \<le> MaxSAMLResponseBytes" using b64_pad_limit [OF u(4)] u(2) by simp
  have norm: "normalizeAndValidateResponse root (map f t) = Inr t"
    if "\<And>c. plain_char c \<or> c = CHR ''='' \<Longrightarrow> norm_char (f c) = Some [c]" for f
  proof -
    have "norm_chars (map f t) = Some t" using pc that by (intro norm_chars_map) blast
    moreover have "map f t \<noteq> []" "length (map f t) \<le> MaxSAMLResponseBytes" using t0 tl by simp_all
    ultimately show ?thesis using normalize_ok [OF u(1) u0 u(2) _ _ _ u(5-7)] by blast
  qed
  have "length t mod 4 = 0" using b64_pad_length [of u] u(2) by simp
  moreover have "normalizeAndValidateResponse root t = Inr t" using norm [of "\<lambda>c. c"] norm_forms(1) by simp
  ultimately show ?thesis using u(5,6) r norm [OF norm_forms(2)] norm [OF norm_forms(3)] by blast
qed

definition sample_root :: xml_root where
  "sample_root d = (if d = bytes_of_string ''<R/>'' then Some (''urn:oasis:names:tc:SAML:2.0:protocol'', ''Response'') else None)"

theorem response_canonical_witness:
  "normalizeAndValidateResponse sample_root ''PFIvPg=='' = Inr ''PFIvPg==''"
proof -
  have "sample_root [] = None" by code_simp
  moreover have "normalizeAndValidateResponse sample_root ''PFIvPg'' = Inr ''PFIvPg==''"
  proof -
    have "norm_chars ''PFIvPg'' = Some ''PFIvPg''" "trim_right (\<lambda>c. c = CHR ''='') ''PFIvPg'' = ''PFIvPg''" "b64_pad ''PFIvPg'' = ''PFIvPg==''"
      "StdEncoding_Decode True ''PFIvPg=='' = Some (bytes_of_string ''<R/>'')" "validateResponseXML sample_root (bytes_of_string ''<R/>'') = None"
      by code_simp+
    then show ?thesis by (simp add: normalizeAndValidateResponse_def MaxSAMLResponseBytes_def)
  qed
  ultimately show ?thesis using response_canonical [of sample_root "''PFIvPg''" "''PFIvPg==''"] by blast
qed

text \<open>(token expiry).  In a document whose expiry attributes are exactly the listed ones, the expiry is the earliest timestamp
  that can be read, and the zero time when there is none.\<close>

theorem expiry_earliest:
  assumes "list_all seg_ok segs" "next_expiry rest = None" "StdEncoding_Decode False tok = Some (bytes_of_string (expiry_doc segs rest))"
  shows "TokenExpiry tok = earliest_of (map (\<lambda>sg. parseSAMLTime (snd sg)) segs)"
  using earliest_loop_doc [OF assms(1,2), of zero_time] assms(3) least_time_Min [of zero_time]
  by (simp add: TokenExpiry_def earliestNotOnOrAfter_def)

definition sample_segs :: "(string \<times> string) list" where
  "sample_segs = [(''<a '', ''2026-01-02T03:04:05Z''), (''/><b '', ''2026-01-02T03:04:04.5Z'')]"

definition sample_token :: string where
  "sample_token = ''PGEgTm90T25PckFmdGVyPSIyMDI2LTAxLTAyVDAzOjA0OjA1WiIvPjxiIE5vdE9uT3JBZnRlcj0iMjAyNi0wMS0wMlQwMzowNDowNC41WiIvPg==''"

lemma sample_times:
  "parseSAMLTime ''2026-01-02T03:04:05Z'' = 1767323045 * 10 ^ 9" "parseSAMLTime ''2026-01-02T03:04:04.5Z'' = 1767323044 * 10 ^ 9 + 500000000"
  by (simp_all add: parseSAMLTime_def parse_datetime_def digits_n_def getnum_def lit_def fraction_def is_digit_def code_def digits_val_def
      digit_val_def unix_seconds_def days_before_def days_in_def is_leap_def zone_offset_def Let_def)

theorem expiry_earliest_witness: "TokenExpiry sample_token = 1767323044 * 10 ^ 9 + 500000000"
proof -
  have ok: "list_all seg_ok sample_segs" "next_expiry ''/>'' = None"
    "StdEncoding_Decode False sample_token = Some (bytes_of_string (expiry_doc sample_segs ''/>''))" by code_simp+
  show ?thesis using expiry_earliest [OF ok] by (simp add: sample_segs_def sample_times earliest_of_def zero_time_def)
qed

end
