(* ===== verification/Profile.thy ===== *)
theory Profile
  imports Go_Net
begin

section \<open>Profiles\<close>

text \<open>
  Models \<^verbatim>\<open>profile/profile.go\<close>: \<open>ParseFile\<close> reads an .ovpn text line by line, with a definition per group of directives,
  and \<open>DetectFlow\<close> chooses the authentication flow.  The text is what the reader delivers; PEM blocks are kept as text.
  \<^verbatim>\<open>bufio.Scanner\<close> refuses a line of 64 KiB or more.
\<close>

datatype Proto = ProtoTCP | ProtoUDP

record IPv6Config =
  v6_Local :: ip
  v6_Prefix :: nat
  v6_Gateway :: ip

record Profile =
  pf_Remote :: string
  pf_Port :: int
  pf_Proto :: Proto
  pf_CA :: string
  pf_Cert :: string
  pf_Key :: string
  pf_Cipher :: string
  pf_Auth :: string
  pf_Verb :: int
  pf_RenegSec :: int
  pf_RenegBytes :: int
  pf_BecomePrimarySec :: int
  pf_TunMTU :: int
  pf_MSSFix :: int
  pf_MSSFixSet :: bool
  pf_PingInterval :: int
  pf_PingRestart :: int
  pf_PingExit :: int
  pf_Ifconfig6 :: "IPv6Config option"
  pf_RandomHostname :: bool
  pf_VerifyX509Name :: string
  pf_ForceSAMLFlow :: bool
  pf_DNSServers :: "ip list"
  pf_DNSSearchDomains :: "string list"
  pf_DNSRouteDomains :: "string list"

datatype AuthFlow = FlowAWSSSO | FlowCertAuth | FlowUserPass

definition DetectFlow :: "Profile \<Rightarrow> AuthFlow" where
  "DetectFlow p =
     (if pf_ForceSAMLFlow p then FlowAWSSSO
      else if HasPrefix (pf_Remote p) ''cvpn-endpoint-'' \<and> HasSuffix (pf_Remote p) ''.amazonaws.com'' then FlowAWSSSO
      else if 0 < length (pf_Cert p) \<and> 0 < length (pf_Key p) then FlowCertAuth
      else FlowUserPass)"

datatype profile_error =
    MissingValue string | InvalidValue string string | UnknownProto string | KeepaliveExpected | LineTooLong | MissingRemote

definition default_profile :: Profile where
  "default_profile =
     \<lparr>pf_Remote = [], pf_Port = 1194, pf_Proto = ProtoUDP, pf_CA = [], pf_Cert = [], pf_Key = [], pf_Cipher = ''AES-256-GCM'',
      pf_Auth = ''SHA256'', pf_Verb = 3, pf_RenegSec = 3600, pf_RenegBytes = 0, pf_BecomePrimarySec = 0, pf_TunMTU = 0,
      pf_MSSFix = 0, pf_MSSFixSet = False, pf_PingInterval = 0, pf_PingRestart = 0, pf_PingExit = 0, pf_Ifconfig6 = None,
      pf_RandomHostname = False, pf_VerifyX509Name = [], pf_ForceSAMLFlow = False, pf_DNSServers = [],
      pf_DNSSearchDomains = [], pf_DNSRouteDomains = []\<rparr>"

type_synonym presult = "(profile_error, Profile) result"

subsection \<open>The directives\<close>

text \<open>A required number: missing, or refused by \<^verbatim>\<open>Atoi\<close> or by the range test, is an error.\<close>

definition num_field :: "string \<Rightarrow> (int \<Rightarrow> bool) \<Rightarrow> string list \<Rightarrow> nat \<Rightarrow> (profile_error, int) result" where
  "num_field name ok args k =
     (if length args \<le> k then Inl (MissingValue name)
      else case Atoi (args ! k) of
        None \<Rightarrow> Inl (InvalidValue name (args ! k))
      | Some n \<Rightarrow> (if ok n then Inr n else Inl (InvalidValue name (args ! k))))"

definition str_field :: "string \<Rightarrow> string list \<Rightarrow> (profile_error, string) result" where
  "str_field name args = (if length args < 2 then Inl (MissingValue name) else Inr (args ! 1))"

definition parsePositiveSeconds :: "string \<Rightarrow> string list \<Rightarrow> (profile_error, int) result" where
  "parsePositiveSeconds directive args = num_field directive (\<lambda>n. 0 < n) args 1"

definition port_ok :: "int \<Rightarrow> bool" where "port_ok n \<longleftrightarrow> 1 \<le> n \<and> n \<le> 65535"

definition dir_remote :: "string list \<Rightarrow> Profile \<Rightarrow> presult" where
  "dir_remote args p =
     rbind (str_field ''remote'' args) (\<lambda>h.
       let p1 = p\<lparr>pf_Remote := h\<rparr> in
       if 3 \<le> length args then rbind (num_field ''remote'' port_ok args 2) (\<lambda>n. Inr (p1\<lparr>pf_Port := n\<rparr>)) else Inr p1)"

definition dir_proto :: "string list \<Rightarrow> Profile \<Rightarrow> presult" where
  "dir_proto args p =
     rbind (str_field ''proto'' args) (\<lambda>v.
       if ToLower v \<in> {''tcp'', ''tcp-client''} then Inr (p\<lparr>pf_Proto := ProtoTCP\<rparr>)
       else if ToLower v = ''udp'' then Inr (p\<lparr>pf_Proto := ProtoUDP\<rparr>)
       else Inl (UnknownProto v))"

definition dir_mssfix :: "string list \<Rightarrow> Profile \<Rightarrow> presult" where
  "dir_mssfix args p =
     (if 2 \<le> length args
      then rbind (num_field ''mssfix'' (\<lambda>n. 0 \<le> n) args 1) (\<lambda>n. Inr (p\<lparr>pf_MSSFix := n, pf_MSSFixSet := True\<rparr>))
      else Inr p)"

definition dir_keepalive :: "string list \<Rightarrow> Profile \<Rightarrow> presult" where
  "dir_keepalive args p =
     (if length args < 3 then Inl KeepaliveExpected
      else rbind (num_field ''keepalive'' (\<lambda>n. 0 < n) args 1) (\<lambda>ping.
             rbind (num_field ''keepalive'' (\<lambda>n. 0 < n) args 2) (\<lambda>timeout.
               Inr (p\<lparr>pf_PingInterval := ping, pf_PingRestart := timeout, pf_PingExit := 0\<rparr>))))"

definition dir_ifconfig6 :: "string list \<Rightarrow> Profile \<Rightarrow> presult" where
  "dir_ifconfig6 args p =
     (if length args < 2 then Inl (MissingValue ''ifconfig-ipv6'')
      else case ParseCIDR (args ! 1) of
        None \<Rightarrow> Inl (InvalidValue ''ifconfig-ipv6'' (args ! 1))
      | Some (local, _, m) \<Rightarrow>
          (if To4 local \<noteq> [] then Inl (InvalidValue ''ifconfig-ipv6'' (args ! 1))
           else if 3 \<le> length args then
             (let gateway = ParseIP (args ! 2) in
              if gateway = [] \<or> To4 gateway \<noteq> [] then Inl (InvalidValue ''ifconfig-ipv6'' (args ! 2))
              else Inr (p\<lparr>pf_Ifconfig6 := Some \<lparr>v6_Local = local, v6_Prefix = mask_ones m, v6_Gateway = gateway\<rparr>\<rparr>))
           else Inr (p\<lparr>pf_Ifconfig6 := Some \<lparr>v6_Local = local, v6_Prefix = mask_ones m, v6_Gateway = []\<rparr>\<rparr>)))"

definition dir_dhcp_option :: "string list \<Rightarrow> Profile \<Rightarrow> presult" where
  "dir_dhcp_option args p =
     (if length args < 3 then Inr p
      else let kind = ToUpper (args ! 1) in
        if kind = ''DNS'' then
          (let i = ParseIP (args ! 2) in
           if i = [] then Inl (InvalidValue ''dhcp-option'' (args ! 2))
           else Inr (p\<lparr>pf_DNSServers := pf_DNSServers p @ [i]\<rparr>))
        else if kind = ''DOMAIN'' then Inr (p\<lparr>pf_DNSSearchDomains := pf_DNSSearchDomains p @ [args ! 2]\<rparr>)
        else if kind = ''DOMAIN-ROUTE'' then Inr (p\<lparr>pf_DNSRouteDomains := pf_DNSRouteDomains p @ [args ! 2]\<rparr>)
        else Inr p)"

text \<open>The directives with one number: the range test and the field it sets.\<close>

definition number_directives :: "(string \<times> (int \<Rightarrow> bool) \<times> (int \<Rightarrow> Profile \<Rightarrow> Profile)) list" where
  "number_directives =
     [(''port'', port_ok, \<lambda>n. pf_Port_update (\<lambda>_. n)),
      (''verb'', \<lambda>n. 0 \<le> n \<and> n \<le> 11, \<lambda>n. pf_Verb_update (\<lambda>_. n)),
      (''reneg-sec'', \<lambda>n. 0 \<le> n, \<lambda>n. pf_RenegSec_update (\<lambda>_. n)),
      (''reneg-bytes'', \<lambda>n. 0 \<le> n, \<lambda>n. pf_RenegBytes_update (\<lambda>_. n)),
      (''become-primary'', \<lambda>n. 0 \<le> n, \<lambda>n. pf_BecomePrimarySec_update (\<lambda>_. n)),
      (''tun-mtu'', \<lambda>n. 68 \<le> n \<and> n \<le> 65535, \<lambda>n. pf_TunMTU_update (\<lambda>_. n)),
      (''ping'', \<lambda>n. 0 < n, \<lambda>n. pf_PingInterval_update (\<lambda>_. n)),
      (''ping-restart'', \<lambda>n. 0 < n, \<lambda>n p. p\<lparr>pf_PingRestart := n, pf_PingExit := 0\<rparr>),
      (''ping-exit'', \<lambda>n. 0 < n, \<lambda>n p. p\<lparr>pf_PingExit := n, pf_PingRestart := 0\<rparr>)]"

definition dir_number :: "string \<Rightarrow> string list \<Rightarrow> Profile \<Rightarrow> presult option" where
  "dir_number d args p =
     map_option (\<lambda>(ok, upd). rbind (num_field d ok args 1) (\<lambda>n. Inr (upd n p))) (map_of number_directives d)"

definition profile_directive :: "string list \<Rightarrow> Profile \<Rightarrow> presult" where
  "profile_directive args p =
     (let d = ToLower (args ! 0) in
      case dir_number d args p of
        Some r \<Rightarrow> r
      | None \<Rightarrow>
          (if d = ''remote'' then dir_remote args p
           else if d = ''proto'' then dir_proto args p
           else if d = ''cipher'' then rbind (str_field d args) (\<lambda>v. Inr (p\<lparr>pf_Cipher := ToUpper v\<rparr>))
           else if d = ''auth'' then rbind (str_field d args) (\<lambda>v. Inr (p\<lparr>pf_Auth := ToUpper v\<rparr>))
           else if d = ''mssfix'' then dir_mssfix args p
           else if d = ''keepalive'' then dir_keepalive args p
           else if d = ''ifconfig-ipv6'' then dir_ifconfig6 args p
           else if d = ''remote-random-hostname'' then Inr (p\<lparr>pf_RandomHostname := True\<rparr>)
           else if d = ''auth-federate'' then Inr (p\<lparr>pf_ForceSAMLFlow := True\<rparr>)
           else if d = ''x-openlawsvpn-flow'' then
             (if 2 \<le> length args \<and> ToLower (args ! 1) = ''saml'' then Inr (p\<lparr>pf_ForceSAMLFlow := True\<rparr>) else Inr p)
           else if d = ''verify-x509-name'' then
             (if 2 \<le> length args then Inr (p\<lparr>pf_VerifyX509Name := args ! 1\<rparr>) else Inr p)
           else if d = ''dhcp-option'' then dir_dhcp_option args p
           else Inr p))"

subsection \<open>The file\<close>

record parser =
  ps_profile :: Profile
  ps_inlineTag :: string
  ps_inlineBuf :: string

definition close_inline :: "parser \<Rightarrow> parser" where
  "close_inline s =
     (let p = ps_profile s; b = ps_inlineBuf s;
          p1 = (if ps_inlineTag s = ''ca'' then p\<lparr>pf_CA := b\<rparr>
                else if ps_inlineTag s = ''cert'' then p\<lparr>pf_Cert := b\<rparr>
                else if ps_inlineTag s = ''key'' then p\<lparr>pf_Key := b\<rparr> else p)
      in \<lparr>ps_profile = p1, ps_inlineTag = [], ps_inlineBuf = []\<rparr>)"

definition profile_line :: "string \<Rightarrow> parser \<Rightarrow> (profile_error, parser) result" where
  "profile_line text s =
     (let line = TrimSpace text in
      if line = [] \<or> HasPrefix line ''#'' \<or> HasPrefix line '';'' then Inr s
      else if ps_inlineTag s \<noteq> [] then
        (if line = ''</'' @ ps_inlineTag s @ ''>'' then Inr (close_inline s)
         else Inr (s\<lparr>ps_inlineBuf := ps_inlineBuf s @ line @ [CHR 0x0A]\<rparr>))
      else if HasPrefix line ''<'' \<and> HasSuffix line ''>'' \<and> butlast (tl line) \<in> {''ca'', ''cert'', ''key''} then
        Inr (s\<lparr>ps_inlineTag := butlast (tl line), ps_inlineBuf := []\<rparr>)
      else
        (let args = Fields line in
         if args = [] then Inr s
         else rbind (profile_directive args (ps_profile s)) (\<lambda>p. Inr (s\<lparr>ps_profile := p\<rparr>))))"

text \<open>The lines the scanner delivers (a final newline ends the last line).\<close>

definition scan_lines :: "string \<Rightarrow> string list" where
  "scan_lines t = (let ls = Split t (CHR 0x0A) in if last ls = [] then butlast ls else ls)"

fun profile_lines :: "string list \<Rightarrow> parser \<Rightarrow> (profile_error, parser) result" where
  "profile_lines [] s = Inr s"
| "profile_lines (l # ls) s =
     (if 65536 \<le> int (length l) then Inl LineTooLong else rbind (profile_line l s) (profile_lines ls))"

definition ParseFile :: "string \<Rightarrow> presult" where
  "ParseFile t =
     rbind (profile_lines (scan_lines t) \<lparr>ps_profile = default_profile, ps_inlineTag = [], ps_inlineBuf = []\<rparr>)
       (\<lambda>s. if pf_Remote (ps_profile s) = [] then Inl MissingRemote else Inr (ps_profile s))"

subsection \<open>Lemmas\<close>

lemma rbind_Inr: "rbind r f = Inr y \<longleftrightarrow> (\<exists>x. r = Inr x \<and> f x = Inr y)"
  by (cases r) auto

lemma num_field_ok: "num_field name ok args k = Inr n \<Longrightarrow> ok n \<and> n < 2 ^ 63"
  using Atoi_range by (auto simp: num_field_def split: if_splits option.splits)

definition v6_wf :: "IPv6Config \<Rightarrow> bool" where
  "v6_wf c \<longleftrightarrow> length (v6_Local c) = 16 \<and> To4 (v6_Local c) = [] \<and> v6_Prefix c \<le> 128 \<and>
     (v6_Gateway c = [] \<or> (length (v6_Gateway c) = 16 \<and> To4 (v6_Gateway c) = []))"

definition numbers_wf :: "Profile \<Rightarrow> bool" where
  "numbers_wf p \<longleftrightarrow> port_ok (pf_Port p) \<and> 0 \<le> pf_Verb p \<and> pf_Verb p \<le> 11 \<and> 0 \<le> pf_RenegSec p \<and> pf_RenegSec p < 2 ^ 63 \<and>
     0 \<le> pf_RenegBytes p \<and> 0 \<le> pf_BecomePrimarySec p \<and> (pf_TunMTU p = 0 \<or> (68 \<le> pf_TunMTU p \<and> pf_TunMTU p \<le> 65535)) \<and>
     0 \<le> pf_MSSFix p \<and> (pf_MSSFixSet p \<or> pf_MSSFix p = 0)"

definition pings_wf :: "Profile \<Rightarrow> bool" where
  "pings_wf p \<longleftrightarrow> 0 \<le> pf_PingInterval p \<and> 0 \<le> pf_PingRestart p \<and> 0 \<le> pf_PingExit p \<and>
     (pf_PingRestart p = 0 \<or> pf_PingExit p = 0)"

definition profile_wf :: "Profile \<Rightarrow> bool" where
  "profile_wf p \<longleftrightarrow> numbers_wf p \<and> pings_wf p \<and> pred_option v6_wf (pf_Ifconfig6 p) \<and> list_all (\<lambda>i. length i = 16) (pf_DNSServers p)"

lemmas profile_wf_defs = profile_wf_def numbers_wf_def pings_wf_def

lemma profile_wf_set:
  "profile_wf p \<Longrightarrow> port_ok n \<Longrightarrow> profile_wf (p\<lparr>pf_Port := n\<rparr>)"
  "profile_wf p \<Longrightarrow> 0 \<le> n \<Longrightarrow> n \<le> 11 \<Longrightarrow> profile_wf (p\<lparr>pf_Verb := n\<rparr>)"
  "profile_wf p \<Longrightarrow> 0 \<le> n \<Longrightarrow> n < 2 ^ 63 \<Longrightarrow> profile_wf (p\<lparr>pf_RenegSec := n\<rparr>)"
  "profile_wf p \<Longrightarrow> 0 \<le> n \<Longrightarrow> profile_wf (p\<lparr>pf_RenegBytes := n\<rparr>)"
  "profile_wf p \<Longrightarrow> 0 \<le> n \<Longrightarrow> profile_wf (p\<lparr>pf_BecomePrimarySec := n\<rparr>)"
  "profile_wf p \<Longrightarrow> 68 \<le> n \<Longrightarrow> n \<le> 65535 \<Longrightarrow> profile_wf (p\<lparr>pf_TunMTU := n\<rparr>)"
  "profile_wf p \<Longrightarrow> 0 < n \<Longrightarrow> profile_wf (p\<lparr>pf_PingInterval := n\<rparr>)"
  "profile_wf p \<Longrightarrow> 0 < n \<Longrightarrow> profile_wf (p\<lparr>pf_PingRestart := n, pf_PingExit := 0\<rparr>)"
  "profile_wf p \<Longrightarrow> 0 < n \<Longrightarrow> profile_wf (p\<lparr>pf_PingExit := n, pf_PingRestart := 0\<rparr>)"
  "profile_wf p \<Longrightarrow> 0 \<le> n \<Longrightarrow> profile_wf (p\<lparr>pf_MSSFix := n, pf_MSSFixSet := True\<rparr>)"
  "profile_wf p \<Longrightarrow> 0 < m \<Longrightarrow> 0 < n \<Longrightarrow> profile_wf (p\<lparr>pf_PingInterval := m, pf_PingRestart := n, pf_PingExit := 0\<rparr>)"
  by (simp_all add: profile_wf_defs)

lemma profile_wf_address:
  "profile_wf p \<Longrightarrow> v6_wf c \<Longrightarrow> profile_wf (p\<lparr>pf_Ifconfig6 := Some c\<rparr>)"
  "profile_wf p \<Longrightarrow> length i = 16 \<Longrightarrow> profile_wf (p\<lparr>pf_DNSServers := pf_DNSServers p @ [i]\<rparr>)"
  by (simp_all add: profile_wf_defs)

lemma profile_wf_keep [simp]:
  "profile_wf (p\<lparr>pf_DNSSearchDomains := ds\<rparr>) = profile_wf p" "profile_wf (p\<lparr>pf_DNSRouteDomains := ds\<rparr>) = profile_wf p"
  "profile_wf (p\<lparr>pf_Remote := h\<rparr>) = profile_wf p" "profile_wf (p\<lparr>pf_Proto := t\<rparr>) = profile_wf p"
  by (simp_all add: profile_wf_defs)

lemma number_directives_wf:
  "(d, ok, upd) \<in> set number_directives \<Longrightarrow> ok n \<Longrightarrow> n < 2 ^ 63 \<Longrightarrow> profile_wf p \<Longrightarrow> profile_wf (upd n p)"
  unfolding number_directives_def list.set
  by (elim insertE emptyE) (simp_all only: prod.inject profile_wf_set)

lemma dir_number_wf:
  assumes "dir_number d args p = Some (Inr p')" "profile_wf p"
  shows "profile_wf p'"
proof -
  obtain ok upd n where "map_of number_directives d = Some (ok, upd)" "num_field d ok args 1 = Inr n" "p' = upd n p"
    using assms(1) by (auto simp: dir_number_def rbind_Inr)
  then show ?thesis using number_directives_wf [OF map_of_SomeD] num_field_ok assms(2) by metis
qed

lemma dir_remote_wf: "dir_remote args p = Inr p' \<Longrightarrow> profile_wf p \<Longrightarrow> profile_wf p'"
  by (auto simp: dir_remote_def Let_def rbind_Inr intro: profile_wf_set dest!: num_field_ok split: if_splits)

lemma dir_proto_wf: "dir_proto args p = Inr p' \<Longrightarrow> profile_wf p \<Longrightarrow> profile_wf p'"
  by (auto simp: dir_proto_def rbind_Inr split: if_splits)

lemma dir_mssfix_wf: "dir_mssfix args p = Inr p' \<Longrightarrow> profile_wf p \<Longrightarrow> profile_wf p'"
  by (auto simp: dir_mssfix_def rbind_Inr intro: profile_wf_set dest!: num_field_ok split: if_splits)

lemma dir_keepalive_wf: "dir_keepalive args p = Inr p' \<Longrightarrow> profile_wf p \<Longrightarrow> profile_wf p'"
  by (auto simp: dir_keepalive_def rbind_Inr intro: profile_wf_set dest!: num_field_ok split: if_splits)

lemma dir_ifconfig6_wf: "dir_ifconfig6 args p = Inr p' \<Longrightarrow> profile_wf p \<Longrightarrow> profile_wf p'"
proof (cases "ParseCIDR (args ! 1)")
  case (Some c)
  then obtain l n m where c: "ParseCIDR (args ! 1) = Some (l, n, m)" by (cases c) auto
  then have "length l = 16 \<and> mask_ones m \<le> 128" using ParseCIDR_props [OF c] by auto
  then show "dir_ifconfig6 args p = Inr p' \<Longrightarrow> profile_wf p \<Longrightarrow> profile_wf p'"
    using c ParseIP_length [of "args ! 2"]
    by (auto simp: dir_ifconfig6_def v6_wf_def Let_def split: if_splits intro!: profile_wf_address)
qed (simp add: dir_ifconfig6_def split: if_splits)

lemma dir_dhcp_option_wf: "dir_dhcp_option args p = Inr p' \<Longrightarrow> profile_wf p \<Longrightarrow> profile_wf p'"
  using ParseIP_length [of "args ! 2"] by (auto simp: dir_dhcp_option_def Let_def split: if_splits intro!: profile_wf_address)

lemma profile_wf_text [simp]:
  "profile_wf (p\<lparr>pf_Cipher := c\<rparr>) = profile_wf p" "profile_wf (p\<lparr>pf_Auth := c\<rparr>) = profile_wf p"
  "profile_wf (p\<lparr>pf_RandomHostname := b\<rparr>) = profile_wf p" "profile_wf (p\<lparr>pf_ForceSAMLFlow := b\<rparr>) = profile_wf p"
  "profile_wf (p\<lparr>pf_VerifyX509Name := c\<rparr>) = profile_wf p" "profile_wf (p\<lparr>pf_CA := c\<rparr>) = profile_wf p"
  "profile_wf (p\<lparr>pf_Cert := c\<rparr>) = profile_wf p" "profile_wf (p\<lparr>pf_Key := c\<rparr>) = profile_wf p"
  by (simp_all add: profile_wf_defs)

lemma profile_directive_wf: "profile_directive args p = Inr p' \<Longrightarrow> profile_wf p \<Longrightarrow> profile_wf p'"
proof (cases "dir_number (ToLower (args ! 0)) args p")
  case None
  then show "profile_directive args p = Inr p' \<Longrightarrow> profile_wf p \<Longrightarrow> profile_wf p'"
    unfolding profile_directive_def Let_def
    by (simp split: if_splits add: rbind_Inr)
      (auto dest: dir_remote_wf dir_proto_wf dir_mssfix_wf dir_keepalive_wf dir_ifconfig6_wf dir_dhcp_option_wf)
qed (simp add: profile_directive_def Let_def dir_number_wf)

lemma profile_line_wf: "profile_line l s = Inr s' \<Longrightarrow> profile_wf (ps_profile s) \<Longrightarrow> profile_wf (ps_profile s')"
  by (auto simp: profile_line_def close_inline_def Let_def rbind_Inr split: if_splits dest: profile_directive_wf)

lemma profile_lines_wf: "profile_lines ls s = Inr s' \<Longrightarrow> profile_wf (ps_profile s) \<Longrightarrow> profile_wf (ps_profile s')"
  by (induction ls s rule: profile_lines.induct) (auto simp: rbind_Inr dest: profile_line_wf split: if_splits)

lemma profile_lines_append: "profile_lines (xs @ ys) s = rbind (profile_lines xs s) (profile_lines ys)"
proof (induction xs arbitrary: s)
  case (Cons x xs)
  then show ?case by (cases "profile_line x s") auto
qed simp

text \<open>The lines of a block that are kept, each trimmed and ended by a newline.\<close>

definition skipped :: "string \<Rightarrow> bool" where
  "skipped l \<longleftrightarrow> TrimSpace l = [] \<or> HasPrefix (TrimSpace l) ''#'' \<or> HasPrefix (TrimSpace l) '';''"

definition block_text :: "string list \<Rightarrow> string" where
  "block_text ls = concat (map (\<lambda>l. TrimSpace l @ [CHR 0x0A]) (filter (\<lambda>l. \<not> skipped l) ls))"

lemma profile_lines_inline:
  assumes "ps_inlineTag s = tag" "tag \<noteq> []" "\<forall>l \<in> set ls. TrimSpace l \<noteq> ''</'' @ tag @ ''>'' \<and> length l < 65536"
  shows "profile_lines ls s = Inr (s\<lparr>ps_inlineBuf := ps_inlineBuf s @ block_text ls\<rparr>)"
  using assms
proof (induction ls arbitrary: s)
  case (Cons l ls)
  show ?case
  proof (cases "skipped l")
    case True
    then have "profile_line l s = Inr s" by (auto simp: profile_line_def skipped_def Let_def)
    then show ?thesis using Cons.IH [of s] Cons.prems True by (simp add: block_text_def)
  next
    case False
    then have "profile_line l s = Inr (s\<lparr>ps_inlineBuf := ps_inlineBuf s @ TrimSpace l @ [CHR 0x0A]\<rparr>)"
      using Cons.prems by (auto simp: profile_line_def skipped_def Let_def)
    then show ?thesis using Cons.IH [of "s\<lparr>ps_inlineBuf := ps_inlineBuf s @ TrimSpace l @ [CHR 0x0A]\<rparr>"] Cons.prems False
      by (simp add: block_text_def)
  qed
qed (simp add: block_text_def)

lemma open_tag:
  assumes "TrimSpace l = ''<'' @ tag @ ''>''" "tag \<in> {''ca'', ''cert'', ''key''}" "ps_inlineTag s = []"
  shows "profile_line l s = Inr (s\<lparr>ps_inlineTag := tag, ps_inlineBuf := []\<rparr>)"
  using assms by (auto simp: profile_line_def HasPrefix_def HasSuffix_def Let_def)

lemma close_tag:
  assumes "TrimSpace l = ''</'' @ ps_inlineTag s @ ''>''" "ps_inlineTag s \<noteq> []"
  shows "profile_line l s = Inr (close_inline s)"
  using assms by (simp add: profile_line_def HasPrefix_def Let_def)

subsection \<open>Properties\<close>

text \<open>C37 (accepted profiles are well formed).  Whatever the text, an accepted profile has a remote host, a port within 1 to
  65535, a verbosity within 0 to 11, non-negative timers and limits, an absent or valid tun-mtu, never both a
  ping-restart and a ping-exit timeout, proper IPv6 tunnel addresses, and 16-byte DNS server addresses.\<close>

theorem ParseFile_wf:
  assumes "ParseFile t = Inr p"
  shows "pf_Remote p \<noteq> [] \<and> profile_wf p"
proof -
  have "profile_wf default_profile" by (simp add: profile_wf_defs default_profile_def port_ok_def)
  then show ?thesis using assms profile_lines_wf [of "scan_lines t"]
    by (auto simp: ParseFile_def rbind_Inr split: if_splits)
qed

definition sample_profile :: string where
  "sample_profile = ''remote h 443'' @ [CHR 0x0A] @ ''ping-exit 30''"

theorem ParseFile_wf_witness:
  "\<exists>p. ParseFile sample_profile = Inr p \<and> pf_Port p = 443 \<and> pf_Remote p \<noteq> [] \<and> profile_wf p"
proof -
  have e: "map_sum id pf_Port (ParseFile sample_profile) = Inr 443" by code_simp
  then obtain p where "ParseFile sample_profile = Inr p" "pf_Port p = 443" by (cases "ParseFile sample_profile") auto
  then show ?thesis using ParseFile_wf by blast
qed

text \<open>(inline blocks).  From an otag tag on, every line up to the closing tag belongs to the block: the lines of the
  block, trimmed, without blank and comment lines, become the field, and no directive inside takes effect.  When the
  closing tag is missing, the whole rest of the file is swallowed: the directives after the tag are ignored without an
  error and the block itself is lost.\<close>

theorem inline_block:
  assumes "profile_lines pre \<lparr>ps_profile = default_profile, ps_inlineTag = [], ps_inlineBuf = []\<rparr> = Inr s" "ps_inlineTag s = []"
    and "TrimSpace otag = ''<ca>''" "length otag < 65536"
    and "\<forall>l \<in> set body. TrimSpace l \<noteq> ''</ca>'' \<and> length l < 65536"
  shows "(\<forall>t. scan_lines t = pre @ otag # body \<longrightarrow>
           ParseFile t = (if pf_Remote (ps_profile s) = [] then Inl MissingRemote else Inr (ps_profile s))) \<and>
         (\<forall>t closing. TrimSpace closing = ''</ca>'' \<longrightarrow> length closing < 65536 \<longrightarrow> scan_lines t = pre @ otag # body @ [closing] \<longrightarrow>
           ParseFile t = (if pf_Remote (ps_profile s) = [] then Inl MissingRemote
                          else Inr ((ps_profile s)\<lparr>pf_CA := block_text body\<rparr>)))"
proof -
  let ?init = "\<lparr>ps_profile = default_profile, ps_inlineTag = [], ps_inlineBuf = []\<rparr>"
  let ?s1 = "s\<lparr>ps_inlineTag := ''ca'', ps_inlineBuf := []\<rparr>"
  have o: "profile_line otag s = Inr ?s1" using open_tag [of otag "''ca''" s] assms(2,3) by simp
  have b: "profile_lines body ?s1 = Inr (?s1\<lparr>ps_inlineBuf := block_text body\<rparr>)"
    using profile_lines_inline [of ?s1 "''ca''" body] assms(5) by simp
  have run: "profile_lines (pre @ otag # body @ more') ?init = profile_lines more' (?s1\<lparr>ps_inlineBuf := block_text body\<rparr>)" for more'
    using assms(1,4) o b by (simp add: profile_lines_append)
  have c: "profile_line closing (?s1\<lparr>ps_inlineBuf := block_text body\<rparr>) =
      Inr \<lparr>ps_profile = (ps_profile s)\<lparr>pf_CA := block_text body\<rparr>, ps_inlineTag = [], ps_inlineBuf = []\<rparr>"
    if "TrimSpace closing = ''</ca>''" for closing
    using close_tag [of closing "?s1\<lparr>ps_inlineBuf := block_text body\<rparr>"] that by (simp add: close_inline_def Let_def)
  show ?thesis
    using run [of "[]"] run c by (auto simp: ParseFile_def)
qed

theorem inline_block_witness:
  "\<exists>p. ParseFile (''remote h'' @ [CHR 0x0A] @ ''<ca>'' @ [CHR 0x0A] @ ''proto tcp'') = Inr p \<and> pf_Proto p = ProtoUDP"
proof -
  let ?init = "\<lparr>ps_profile = default_profile, ps_inlineTag = [], ps_inlineBuf = []\<rparr>"
  have e: "profile_lines [''remote h''] ?init = Inr (?init\<lparr>ps_profile := default_profile\<lparr>pf_Remote := ''h''\<rparr>\<rparr>)"
    "TrimSpace ''<ca>'' = ''<ca>''" "TrimSpace ''proto tcp'' \<noteq> ''</ca>''"
    "scan_lines (''remote h'' @ [CHR 0x0A] @ ''<ca>'' @ [CHR 0x0A] @ ''proto tcp'') = [''remote h''] @ ''<ca>'' # [''proto tcp'']"
    by code_simp+
  from inline_block [OF e(1) _ e(2), of "[''proto tcp'']"] e(3,4) show ?thesis
    by (simp add: default_profile_def)
qed

end
