(* ===== verification/Session.thy ===== *)
theory Session
  imports Push_Reply Profile Prf Key_Manager Mssfix
begin

section \<open>Session parameters\<close>

text \<open>
  Models the functions of \<^verbatim>\<open>client.go\<close> that turn the profile and the pushed options into the parameters of a
  session: the data channel and its keys, the MTU and MSS settings, the peer id and the keepalive timers.
\<close>

subsection \<open>Keys\<close>

datatype session_error =
    ShortKeyMaterial nat | UnsupportedCipher string | ChannelFailed dc_error | SecretsNotCaptured | PrfFailed prf_error

definition lift_dc :: "(dc_error, Channel) result \<Rightarrow> (session_error, Channel) result" where
  "lift_dc r = (case r of Inl e \<Rightarrow> Inl (ChannelFailed e) | Inr c \<Rightarrow> Inr c)"

definition newDataChannel :: "string \<Rightarrow> u32 \<Rightarrow> byte \<Rightarrow> bytes \<Rightarrow> (session_error, Channel) result" where
  "newDataChannel cipherName peerID keyID keyMaterial =
     (if length keyMaterial < 256 then Inl (ShortKeyMaterial (length keyMaterial))
      else
        let txCipherKey = slice keyMaterial 0 32; txNonceTail = slice keyMaterial 64 72;
            rxCipherKey = slice keyMaterial 128 160; rxNonceTail = slice keyMaterial 192 200;
            name = ToUpper cipherName
        in if name = [] \<or> name = ''AES-256-GCM'' then
             lift_dc (New peerID keyID txCipherKey txNonceTail rxCipherKey rxNonceTail)
           else if name = ''AES-192-GCM'' then
             lift_dc (New peerID keyID (take 24 txCipherKey) txNonceTail (take 24 rxCipherKey) rxNonceTail)
           else if name = ''AES-128-GCM'' then
             lift_dc (New peerID keyID (take 16 txCipherKey) txNonceTail (take 16 rxCipherKey) rxNonceTail)
           else if name = ''AES-256-CBC'' then
             (let txHMAC = slice keyMaterial 192 224; rxHMAC = slice keyMaterial 64 96
              in lift_dc (NewCBC peerID keyID txCipherKey txHMAC rxCipherKey rxHMAC))
           else Inl (UnsupportedCipher cipherName))"

record tlsSecretCapture =
  masterSecret :: bytes
  clientRandom :: bytes

text \<open>\<^verbatim>\<open>hex.DecodeString\<close>; \<open>None\<close> is the error.\<close>

fun hex_DecodeString :: "string \<Rightarrow> bytes option" where
  "hex_DecodeString [] = Some []"
| "hex_DecodeString [c] = None"
| "hex_DecodeString (c # d # s) =
     (if is_hex c \<and> is_hex d then map_option (\<lambda>r. of_nat (16 * hex_val c + hex_val d) # r) (hex_DecodeString s) else None)"

definition capture_Write :: "string \<Rightarrow> tlsSecretCapture \<Rightarrow> tlsSecretCapture" where
  "capture_Write p c =
     (let line = TrimSpace p in
      if \<not> HasPrefix line ''CLIENT_RANDOM '' then c
      else let parts = Fields line in
        if length parts \<noteq> 3 then c
        else case (hex_DecodeString (parts ! 1), hex_DecodeString (parts ! 2)) of
          (Some cr, Some ms) \<Rightarrow>
            (if length cr \<noteq> 32 \<or> length ms \<noteq> 48 then c else c\<lparr>clientRandom := cr, masterSecret := ms\<rparr>)
        | _ \<Rightarrow> c)"

definition capture_get :: "tlsSecretCapture \<Rightarrow> (session_error, bytes \<times> bytes) result" where
  "capture_get c =
     (if length (masterSecret c) \<noteq> 48 \<or> length (clientRandom c) \<noteq> 32 then Inl SecretsNotCaptured
      else Inr (masterSecret c, clientRandom c))"

definition deriveKeysPRF :: "tlsSecretCapture \<Rightarrow> (session_error, KeyMaterial) result" where
  "deriveKeysPRF capture =
     (case capture_get capture of
        Inl e \<Rightarrow> Inl e
      | Inr (ms, cr) \<Rightarrow>
          (let serverRandom = replicate 32 0 in
           case ExpandKeys ms cr serverRandom of Inl e \<Rightarrow> Inl (PrfFailed e) | Inr km \<Rightarrow> Inr km))"

text \<open>The switch of \<open>connectPhase2\<close> and \<open>doRekey\<close>; the exporter of \<^verbatim>\<open>crypto/tls\<close> is the argument \<open>ekm\<close>, \<open>None\<close> its error.\<close>

definition key_material :: "KeyDerivation \<Rightarrow> bytes option \<Rightarrow> tlsSecretCapture \<Rightarrow> (session_error, bytes) result" where
  "key_material kd ekm capture =
     (case kd of
        KeyDerivationTLSEKM \<Rightarrow> of_opt SecretsNotCaptured ekm
      | KeyDerivationOpenVPNPRF \<Rightarrow>
          (case deriveKeysPRF capture of
             Inl e \<Rightarrow> Inl e
           | Inr km \<Rightarrow> Inr (ClientCipher km @ ClientHMAC km @ ServerCipher km @ ServerHMAC km)))"

subsection \<open>Options\<close>

definition applyStaticProfileOptions :: "PushOptions \<Rightarrow> Profile \<Rightarrow> PushOptions" where
  "applyStaticProfileOptions push p =
     (case (po_Ifconfig6 push, pf_Ifconfig6 p) of
        (None, Some c) \<Rightarrow> push\<lparr>po_Ifconfig6 := Some \<lparr>ifc6_Local = v6_Local c, ifc6_Prefix = v6_Prefix c, ifc6_Gateway = v6_Gateway c\<rparr>\<rparr>
      | _ \<Rightarrow> push)"

definition effectiveKeepalive :: "Profile \<Rightarrow> PushOptions \<Rightarrow> int \<times> int \<times> bool" where
  "effectiveKeepalive p push =
     (let interval = pf_PingInterval p;
          (timeout, pingExit) = (if 0 < pf_PingExit p then (pf_PingExit p, True) else (pf_PingRestart p, False));
          interval = (if 0 < po_PingInterval push then po_PingInterval push else interval);
          (timeout, pingExit) = (if 0 < po_PingExit push then (po_PingExit push, True)
                                 else if 0 < po_PingRestart push then (po_PingRestart push, False)
                                 else (timeout, pingExit))
      in (if interval = 0 then 10 else interval, if timeout = 0 then 60 else timeout, pingExit))"

definition reply_fields :: "string \<Rightarrow> string list list" where
  "reply_fields pushRaw = map (\<lambda>f. Fields (TrimSpace f)) (Split (TrimRightNUL pushRaw) (CHR '',''))"

text \<open>The first field of two words with this name whose number is in range.\<close>

fun first_number :: "string \<Rightarrow> (int \<Rightarrow> bool) \<Rightarrow> string list list \<Rightarrow> int option" where
  "first_number name ok [] = None"
| "first_number name ok (parts # fs) =
     (if length parts = 2 \<and> EqualFold (parts ! 0) name then
        (case Sscanf_d (parts ! 1) of
           Some v \<Rightarrow> (if ok v then Some v else first_number name ok fs)
         | None \<Rightarrow> first_number name ok fs)
      else first_number name ok fs)"

definition parseTunMTU :: "string \<Rightarrow> int \<Rightarrow> int" where
  "parseTunMTU pushRaw profileMTU =
     (let pushedMTU = (case first_number ''tun-mtu'' (\<lambda>v. 68 \<le> v \<and> v \<le> 65535) (reply_fields pushRaw) of None \<Rightarrow> 0 | Some v \<Rightarrow> v) in
      if 0 < profileMTU then (if 0 < pushedMTU \<and> pushedMTU < profileMTU then pushedMTU else profileMTU)
      else if 0 < pushedMTU then pushedMTU
      else 1500)"

text \<open>The number is scanned into a \<^verbatim>\<open>uint32\<close>: no sign, and a value that does not fit is an error.\<close>

definition Sscanf_u32 :: "string \<Rightarrow> int option" where
  "Sscanf_u32 s =
     (let t = dropWhile is_space s; ds = takeWhile is_digit t in
      if CHR 0x0A \<in> set (takeWhile is_space s) \<or> ds = [] \<or> 2 ^ 32 \<le> digits_val ds then None else Some (int (digits_val ds)))"

fun first_peer_id :: "string list list \<Rightarrow> int" where
  "first_peer_id [] = 0"
| "first_peer_id (parts # fs) =
     (if length parts = 2 \<and> EqualFold (parts ! 0) ''peer-id'' then
        (case Sscanf_u32 (parts ! 1) of
           Some v \<Rightarrow> (if v \<le> 0xFFFFFE then v else first_peer_id fs)
         | None \<Rightarrow> first_peer_id fs)
      else first_peer_id fs)"

definition parsePeerID :: "string \<Rightarrow> u32" where
  "parsePeerID pushRaw = of_int (first_peer_id (reply_fields pushRaw))"

subsection \<open>MSS and MTU\<close>

definition openVPN2DefaultTunMTU :: int where "openVPN2DefaultTunMTU = 1500"
definition awsDefaultMSSFixMTU :: int where "awsDefaultMSSFixMTU = 1450"
definition outerIPv4HeaderLen :: int where "outerIPv4HeaderLen = 20"
definition outerIPv6HeaderLen :: int where "outerIPv6HeaderLen = 40"
definition udpHeaderLen :: int where "udpHeaderLen = 8"
definition tcpHeaderLen :: int where "tcpHeaderLen = 20"
definition openVPNTCPPrefixLen :: int where "openVPNTCPPrefixLen = 2"
definition openVPNGCMOverhead :: int where "openVPNGCMOverhead = 24"
definition openVPNCBCOverhead :: int where "openVPNCBCOverhead = 72"

datatype net_addr = UDPAddr ip | TCPAddr ip | NilAddr | OtherAddr string

definition addrIP :: "net_addr \<Rightarrow> ip" where
  "addrIP addr =
     (case addr of
        UDPAddr i \<Rightarrow> i
      | TCPAddr i \<Rightarrow> i
      | NilAddr \<Rightarrow> []
      | OtherAddr s \<Rightarrow> (case SplitHostPort s of None \<Rightarrow> [] | Some (host, _) \<Rightarrow> ParseIP host))"

definition outer_ip_len :: "net_addr \<Rightarrow> int" where
  "outer_ip_len remoteAddr =
     (let i = addrIP remoteAddr in if i \<noteq> [] \<and> To4 i = [] then outerIPv6HeaderLen else outerIPv4HeaderLen)"

definition transport_overhead :: "Proto \<Rightarrow> int" where
  "transport_overhead proto = (if proto = ProtoTCP then tcpHeaderLen + openVPNTCPPrefixLen else udpHeaderLen)"

definition effectiveMSSFix :: "Profile \<Rightarrow> int \<Rightarrow> int \<Rightarrow> Proto \<Rightarrow> string \<Rightarrow> Mode \<Rightarrow> net_addr \<Rightarrow> int \<times> int" where
  "effectiveMSSFix p pushedMSS tunMTU proto cipher compressionMode remoteAddr =
     (if 0 < pushedMSS then (pushedMSS, 0)
      else if pf_MSSFixSet p then (pf_MSSFix p, 0)
      else if tunMTU \<noteq> openVPN2DefaultTunMTU then (0, tunMTU)
      else
        let outerIPLen = outer_ip_len remoteAddr;
            transportOverhead = transport_overhead proto;
            dataOverhead = (if EqualFold cipher ''AES-256-CBC'' then openVPNCBCOverhead else openVPNGCMOverhead);
            dataOverhead = (if compressionMode = ModeLZ4 then dataOverhead + 1 else dataOverhead)
        in (0, awsDefaultMSSFixMTU - outerIPLen - transportOverhead - dataOverhead))"

text \<open>\<open>clampMSS\<close> with the two settings of the client.\<close>

definition clampMSS :: "int \<Rightarrow> int \<Rightarrow> bytes \<Rightarrow> bytes" where
  "clampMSS mssFix mssFixMTU pkt = (if 0 < mssFix then Clamp pkt mssFix else ClampToMTU pkt mssFixMTU)"

subsection \<open>Lemmas\<close>

lemma lower_upper: "lower (upper c) = lower c" "upper (lower c) = upper c"
proof -
  have c: "code c < 256" by (simp add: code_def)
  have r: "char_of (code c) = c" by (simp add: code_def)
  show "lower (upper c) = lower c"
  proof (cases "97 \<le> code c \<and> code c \<le> 122")
    case True
    then have "code (char_of (code c - 32)) = code c - 32" by (intro code_char_of) linarith
    then show ?thesis using True r by (simp add: lower_def upper_def) linarith
  qed (auto simp: upper_def)
  show "upper (lower c) = upper c"
  proof (cases "65 \<le> code c \<and> code c \<le> 90")
    case True
    then have "code (char_of (code c + 32)) = code c + 32" by (intro code_char_of) linarith
    then show ?thesis using True r by (simp add: lower_def upper_def)
  qed (auto simp: lower_def)
qed

lemma EqualFold_upper: "EqualFold s t \<longleftrightarrow> ToUpper s = ToUpper t"
proof -
  have "ToUpper (ToLower u) = ToUpper u" "ToLower (ToUpper u) = ToLower u" for u
    by (simp_all add: ToUpper_def ToLower_def lower_upper comp_def)
  then show ?thesis unfolding EqualFold_def by metis
qed

lemma newDataChannel_cases:
  assumes "newDataChannel cipher pid kid km = Inr ch"
  obtains (gcm) n where "ToUpper cipher \<noteq> ''AES-256-CBC''" "n \<le> 32"
      "New pid kid (take n (slice km 0 32)) (slice km 64 72) (take n (slice km 128 160)) (slice km 192 200) = Inr ch"
      "256 \<le> length km" "\<And>km'. 256 \<le> length km' \<Longrightarrow> newDataChannel cipher pid kid km' =
         lift_dc (New pid kid (take n (slice km' 0 32)) (slice km' 64 72) (take n (slice km' 128 160)) (slice km' 192 200))"
  | (cbc) "ToUpper cipher = ''AES-256-CBC''" "256 \<le> length km"
      "NewCBC pid kid (slice km 0 32) (slice km 192 224) (slice km 128 160) (slice km 64 96) = Inr ch"
proof -
  have lift: "lift_dc r = Inr ch \<longleftrightarrow> r = Inr ch" for r by (cases r) (auto simp: lift_dc_def)
  have t: "take 32 (slice x i (i + 32)) = slice x i (i + 32)" for x :: bytes and i by (simp add: slice_def)
  have l: "256 \<le> length km" using assms by (auto simp: newDataChannel_def split: if_splits)
  note d = newDataChannel_def Let_def
  consider (c256) "ToUpper cipher = [] \<or> ToUpper cipher = ''AES-256-GCM''" | (c192) "ToUpper cipher = ''AES-192-GCM''"
    | (c128) "ToUpper cipher = ''AES-128-GCM''" | (ccbc) "ToUpper cipher = ''AES-256-CBC''"
    using assms unfolding d by (auto split: if_splits)
  then show thesis
  proof cases
    case c256
    then show thesis using assms l t [of _ 0] t [of _ 128] by (intro gcm [of 32]) (auto simp: d lift)
  next
    case c192
    then show thesis using assms l by (intro gcm [of 24]) (auto simp: d lift)
  next
    case c128
    then show thesis using assms l by (intro gcm [of 16]) (auto simp: d lift)
  next
    case ccbc
    then show thesis using assms l by (intro cbc) (auto simp: d lift)
  qed
qed

lemma newDataChannel_wf: "newDataChannel cipher pid kid km = Inr ch \<Longrightarrow> Channel_wf ch"
  by (erule newDataChannel_cases) (auto dest: New_wf NewCBC_wf)

lemma newDataChannel_AEAD: "newDataChannel cipher pid kid km = Inr ch \<Longrightarrow> IsAEAD (encryptor ch) \<longleftrightarrow> ToUpper cipher \<noteq> ''AES-256-CBC''"
  by (erule newDataChannel_cases) (auto simp: New_def NewCBC_def newWithCiphers_def split: sum.splits)

lemma Encrypt_length:
  assumes "Channel_wf ch" "length iv = 16" "Encrypt (Some iv) ch pt = (Some wire, ch')"
  shows "length wire \<le> length pt + (if IsAEAD (encryptor ch) then 24 else 72)"
proof (cases "encryptor ch")
  case (GCM g)
  then have "GCM_wf g" using assms(1) by (simp add: Channel_wf_def)
  then show ?thesis using assms(3) GCM
    by (auto simp: Encrypt_def encryptGCM_def Let_def length_GCM_Seal buildHeader_def be32_def)
next
  case (CBC c)
  then have wf: "CBC_wf c" using assms(1) by (simp add: Channel_wf_def)
  obtain body where body: "CBCCipher_Seal (Some iv) c (be32 (sendSeq ch) @ pt) = Some body" "length wire = 4 + length body"
    using assms(3) CBC by (auto simp: Encrypt_def encryptCBC_def Let_def buildHeader_def split: option.splits)
  have "length (be32 (sendSeq ch) @ pt) = 4 + length pt" by (simp add: be32_def)
  then show ?thesis using CBC_Open_Seal [OF wf assms(2) body(1)] body(2) CBC by simp
qed

lemma first_number_range: "first_number name ok fs = Some v \<Longrightarrow> ok v"
  by (induction name ok fs rule: first_number.induct) (auto split: if_splits option.splits)

lemma first_peer_id_range: "0 \<le> first_peer_id fs \<and> first_peer_id fs \<le> 0xFFFFFE"
  by (induction fs rule: first_peer_id.induct) (auto simp: Sscanf_u32_def Let_def split: if_splits option.splits)

lemma swap_replicate: "drop n (replicate (n + n) x) @ take n (replicate (n + n) x) = replicate (n + n) x"
  by (simp add: replicate_add)

lemma parsePeerID_range: "unat (parsePeerID raw) \<le> 0xFFFFFE"
  using first_peer_id_range [of "reply_fields raw"]
  by (simp add: parsePeerID_def unsigned_of_int take_bit_int_eq_self nat_le_iff)

lemma parseTunMTU_range:
  assumes "profile_wf p"
  shows "68 \<le> parseTunMTU raw (pf_TunMTU p) \<and> parseTunMTU raw (pf_TunMTU p) \<le> 65535 \<and>
     (0 < pf_TunMTU p \<longrightarrow> parseTunMTU raw (pf_TunMTU p) \<le> pf_TunMTU p)"
proof -
  have "pf_TunMTU p = 0 \<or> 68 \<le> pf_TunMTU p \<and> pf_TunMTU p \<le> 65535" using assms by (simp add: profile_wf_defs)
  then show ?thesis
  proof (cases "first_number ''tun-mtu'' (\<lambda>v. 68 \<le> v \<and> v \<le> 65535) (reply_fields raw)")
    case (Some v)
    then have "68 \<le> v \<and> v \<le> 65535" by (rule first_number_range)
    then show ?thesis using Some \<open>pf_TunMTU p = 0 \<or> _\<close> by (auto simp: parseTunMTU_def)
  qed (auto simp: parseTunMTU_def)
qed

lemma effectiveKeepalive_range:
  assumes "profile_wf p" "timers_wf push"
  shows "case effectiveKeepalive p push of (interval, timeout, pingExit) \<Rightarrow>
        0 < interval \<and> 0 < timeout \<and> (0 < po_PingInterval push \<longrightarrow> interval = po_PingInterval push) \<and>
        (0 < po_PingExit push \<longrightarrow> timeout = po_PingExit push \<and> pingExit) \<and>
        (0 < po_PingRestart push \<longrightarrow> timeout = po_PingRestart push \<and> \<not> pingExit) \<and>
        (po_PingExit push = 0 \<and> po_PingRestart push = 0 \<longrightarrow> pingExit = (0 < pf_PingExit p))"
proof -
  have "0 \<le> pf_PingInterval p \<and> 0 \<le> pf_PingRestart p" using assms(1) by (simp add: profile_wf_defs)
  moreover have "0 \<le> po_PingInterval push \<and> 0 \<le> po_PingRestart push \<and> 0 \<le> po_PingExit push \<and>
      (po_PingRestart push = 0 \<or> po_PingExit push = 0)" using assms(2) by (simp add: timers_wf_def int63_def)
  ultimately show ?thesis
    by (cases "0 < po_PingExit push"; cases "0 < po_PingRestart push"; cases "0 < pf_PingExit p"; cases "0 < po_PingInterval push")
      (simp_all add: effectiveKeepalive_def Let_def)
qed

lemma slices4: "length xs = 4 * n \<Longrightarrow> slice xs 0 n @ slice xs n (2 * n) @ slice xs (2 * n) (3 * n) @ slice xs (3 * n) (4 * n) = xs"
proof -
  assume "length xs = 4 * n"
  moreover have "take n (drop (k * n) xs) @ drop (Suc k * n) xs = drop (k * n) xs" for k
    by (metis append_take_drop_id add.commute drop_drop mult_Suc)
  from this [of 0] this [of 1] this [of 2] have "take n xs @ take n (drop n xs) @ take n (drop (2 * n) xs) @ drop (3 * n) xs = xs"
    by (simp add: numeral_eq_Suc)
  ultimately show ?thesis by (simp add: slice_def numeral_eq_Suc)
qed

subsection \<open>Properties\<close>

text \<open>(the default MSS budget fits the link).  With the default tun-mtu and no explicit mssfix, a packet within the
  budget that \<open>effectiveMSSFix\<close> derives, once framed for compression, encrypted with the negotiated cipher and sent
  over the chosen transport, occupies at most 1450 bytes of the outer link, IP and transport headers included; and the
  MSS clamp leaves every TCP SYN with a segment size that fits the budget.\<close>

theorem mss_budget_fits:
  assumes "newDataChannel cipher pid kid km = Inr ch" "current m = ch" "m_compress m = mode"
    and "length iv = 16" "Manager_Encrypt (Some iv) m pkt = (Some wire, m')"
    and "\<not> pf_MSSFixSet p" "effectiveMSSFix p 0 1500 proto cipher mode addr = (mss, budget)"
    and "int (length pkt) \<le> budget"
  shows "outer_ip_len addr + transport_overhead proto + int (length wire) \<le> 1450 \<and> 1315 \<le> budget \<and>
     (\<forall>tcp v. length tcp \<le> 65535 \<longrightarrow> pkt_mss (clampMSS mss budget tcp) = Some v \<longrightarrow>
        int (unat v) \<le> (if version tcp = 4 then budget - 40 else budget - 60))"
proof -
  have b: "mss = 0" "budget = 1450 - outer_ip_len addr - transport_overhead proto -
      ((if ToUpper cipher = ''AES-256-CBC'' then 72 else 24) + (if mode = ModeLZ4 then 1 else 0))"
    using assms(6,7) unfolding effectiveMSSFix_def EqualFold_upper
    by (auto simp: openVPN2DefaultTunMTU_def awsDefaultMSSFixMTU_def openVPNCBCOverhead_def openVPNGCMOverhead_def
        Let_def ToUpper_def upper_def code_def)
  have o: "outer_ip_len addr \<le> 40" "transport_overhead proto \<le> 22"
    by (simp_all add: outer_ip_len_def transport_overhead_def outerIPv6HeaderLen_def outerIPv4HeaderLen_def tcpHeaderLen_def
        openVPNTCPPrefixLen_def udpHeaderLen_def Let_def)
  obtain ch' where e: "Encrypt (Some iv) ch (Wrap mode pkt) = (Some wire, ch')"
    using assms(2,3,5) by (auto simp: Manager_Encrypt_def Let_def split: prod.splits option.splits)
  have "length wire \<le> length (Wrap mode pkt) + (if IsAEAD (encryptor ch) then 24 else 72)"
    by (rule Encrypt_length [OF newDataChannel_wf [OF assms(1)] assms(4) e])
  moreover have "length (Wrap mode pkt) = length pkt + (if mode = ModeLZ4 then 1 else 0)" by (simp add: Wrap_def)
  moreover have "1315 \<le> budget" using b(2) o by (auto split: if_splits)
  moreover have clamp: "int (unat v) \<le> (if version tcp = 4 then budget - 40 else budget - 60)"
    if "length tcp \<le> 65535" "pkt_mss (clampMSS mss budget tcp) = Some v" for tcp v
    using mtu_clamp [of budget tcp v] that b(1) \<open>1315 \<le> budget\<close> by (simp add: clampMSS_def)
  ultimately show ?thesis
    using b newDataChannel_AEAD [OF assms(1)] assms(8) clamp by (simp split: if_splits)
qed

definition zero_material :: bytes where "zero_material = replicate 256 0"

lemma zero_material_channel: "newDataChannel [] 7 1 zero_material = Inr zero_channel"
proof -
  have "slice zero_material i (i + n) = replicate n 0" if "i + n \<le> 256" for i n
    using that by (simp add: zero_material_def slice_def min_def)
  from this [of 0 32] this [of 64 8] this [of 128 32] this [of 192 8] show ?thesis
    using zero_channel_New by (simp add: newDataChannel_def lift_dc_def ToUpper_def Let_def) (simp add: zero_material_def)
qed

theorem mss_budget_fits_witness:
  "\<exists>wire. fst (Manager_Encrypt (Some (replicate 16 0)) (NewManager 0 zero_channel None) (replicate 1300 0)) = Some wire \<and>
     20 + 8 + int (length wire) \<le> 1450"
proof -
  let ?m = "NewManager 0 zero_channel None"
  have b: "effectiveMSSFix default_profile 0 1500 ProtoUDP [] ModeNone NilAddr = (0, 1398)" by code_simp
  obtain wire ch where e: "Encrypt (Some (replicate 16 0)) zero_channel (replicate 1300 0) = (Some wire, ch)"
    using Encrypt_packet [OF zero_channel_wf, of "replicate 16 0" "replicate 1300 0"] by (metis length_replicate prod.collapse)
  then obtain m' where "Manager_Encrypt (Some (replicate 16 0)) ?m (replicate 1300 0) = (Some wire, m')"
    by (simp add: Manager_Encrypt_def NewManager_def Wrap_def)
  moreover have "outer_ip_len NilAddr = 20" "transport_overhead ProtoUDP = 8" by code_simp+
  ultimately show ?thesis
    using mss_budget_fits [OF zero_material_channel _ _ _ _ _ b, of ?m "replicate 16 0" "replicate 1300 0" wire m']
    by (simp add: NewManager_def default_profile_def)
qed

text \<open>(both ends get matching keys).  From the same key material, with the client-to-server and server-to-client halves
  exchanged on the other side, the two ends build channels in which each encryptor is the other's decryptor, whatever
  the cipher; with the CBC cipher the client authenticates what it sends with the fourth slot and checks what it
  receives with the second.\<close>

theorem key_slots_match:
  assumes "length km = 256" "newDataChannel cipher pid kid km = Inr a"
    and "newDataChannel cipher pid kid (drop 128 km @ take 128 km) = Inr b"
  shows "encryptor a = decryptor b \<and> decryptor a = encryptor b \<and>
     (\<forall>c d. encryptor a = CBC c \<longrightarrow> decryptor a = CBC d \<longrightarrow>
        cbc_hmacKey c = slice km 192 224 \<and> cbc_hmacKey d = slice km 64 96)"
proof -
  let ?s = "drop 128 km @ take 128 km"
  have sl: "slice ?s i j = slice km (i + 128) (j + 128)" if "j \<le> 128" for i j
    using that assms(1) by (simp add: slice_def min_def)
  have sr: "slice ?s i j = slice km (i - 128) (j - 128)" if "128 \<le> i" "i \<le> j" "j \<le> 256" for i j
    using that assms(1) by (simp add: slice_def drop_take min_def)
  note sw = sl [of 32 0] sl [of 72 64] sl [of 96 64] sr [of 128 160] sr [of 192 200] sr [of 192 224]
  from assms(2) show ?thesis
  proof (cases rule: newDataChannel_cases)
    case (gcm n)
    have "New pid kid (take n (slice ?s 0 32)) (slice ?s 64 72) (take n (slice ?s 128 160)) (slice ?s 192 200) = Inr b"
      using assms(1,3) gcm(5) [of ?s] by (auto simp: lift_dc_def split: sum.splits)
    then show ?thesis using gcm(3) sw
      by (auto simp: New_def newWithCiphers_def split: sum.splits)
  next
    case cbc
    have "NewCBC pid kid (slice ?s 0 32) (slice ?s 192 224) (slice ?s 128 160) (slice ?s 64 96) = Inr b"
      using assms(3) cbc(1) by (cases rule: newDataChannel_cases) auto
    then show ?thesis using cbc(3) sw
      by (auto simp: NewCBC_def newWithCiphers_def NewCBCCipher_def split: sum.splits if_splits)
  qed
qed

theorem key_slots_match_witness:
  "\<exists>a b. newDataChannel [] 7 1 zero_material = Inr a \<and>
     newDataChannel [] 7 1 (drop 128 zero_material @ take 128 zero_material) = Inr b \<and> encryptor a = decryptor b"
proof -
  have z: "zero_material = replicate (128 + 128) 0" by (simp add: zero_material_def)
  have e: "drop 128 zero_material @ take 128 zero_material = zero_material" unfolding z by (rule swap_replicate)
  have s: "length zero_material = 256" by (simp add: zero_material_def)
  show ?thesis using key_slots_match [OF s zero_material_channel, unfolded e, OF zero_material_channel] zero_material_channel
    unfolding e by blast
qed

text \<open>(legacy key derivation).  Without the TLS exporter, the 256 bytes of key material are the PRF output over the client
  random and 32 zero bytes: no server random enters the keys.\<close>

theorem prf_material_client_only:
  assumes "key_material KeyDerivationOpenVPNPRF ekm cap = Inr km"
  shows "length km = 256 \<and> Derive (masterSecret cap) ''OpenVPN master secret'' (clientRandom cap @ replicate 32 0) 256 = Inr km"
proof -
  obtain k where k: "ExpandKeys (masterSecret cap) (clientRandom cap) (replicate 32 0) = Inr k"
    "km = ClientCipher k @ ClientHMAC k @ ServerCipher k @ ServerHMAC k"
    using assms by (auto simp: key_material_def deriveKeysPRF_def capture_get_def Let_def split: sum.splits if_splits)
  define raw where "raw = take 256 (prf_stream (masterSecret cap) (bytes_of_string ''OpenVPN master secret'' @ clientRandom cap @ replicate 32 0) 8)"
  have d: "Derive (masterSecret cap) ''OpenVPN master secret'' (clientRandom cap @ replicate 32 0) 256 = Inr raw"
    using Derive_stream [of 256 8] by (simp add: raw_def)
  have l: "length raw = 256" by (simp add: raw_def length_prf_stream)
  have "slice raw 0 64 @ slice raw 64 128 @ slice raw 128 192 @ slice raw 192 256 = raw"
    using slices4 [of raw 64] l by simp
  then show ?thesis using k d l by (auto simp: ExpandKeys_def Let_def)
qed

theorem prf_material_client_only_witness:
  "\<exists>km. key_material KeyDerivationOpenVPNPRF None \<lparr>masterSecret = replicate 48 1, clientRandom = replicate 32 2\<rparr> = Inr km \<and> length km = 256"
proof -
  let ?c = "\<lparr>masterSecret = replicate 48 1, clientRandom = replicate 32 2\<rparr>"
  obtain k where "ExpandKeys (replicate 48 1) (replicate 32 2) (replicate 32 0) = Inr k"
    by (simp only: ExpandKeys_stream Let_def)
  then obtain km where "key_material KeyDerivationOpenVPNPRF None ?c = Inr km"
    by (simp add: key_material_def deriveKeysPRF_def capture_get_def Let_def)
  then show ?thesis using prf_material_client_only by blast
qed

text \<open>(session parameters in range).  For a well-formed profile and reply, the peer id fits 24 bits, the TUN MTU is
  valid and never above the profile's, and the keepalive interval and timeout are positive, a pushed value taking
  precedence over the profile's and ping-exit over ping-restart.\<close>

theorem session_parameters:
  assumes "profile_wf p" "timers_wf push"
  shows "unat (parsePeerID raw) \<le> 0xFFFFFE \<and>
     68 \<le> parseTunMTU raw (pf_TunMTU p) \<and> parseTunMTU raw (pf_TunMTU p) \<le> 65535 \<and>
     (0 < pf_TunMTU p \<longrightarrow> parseTunMTU raw (pf_TunMTU p) \<le> pf_TunMTU p) \<and>
     (case effectiveKeepalive p push of (interval, timeout, pingExit) \<Rightarrow>
        0 < interval \<and> 0 < timeout \<and> (0 < po_PingInterval push \<longrightarrow> interval = po_PingInterval push) \<and>
        (0 < po_PingExit push \<longrightarrow> timeout = po_PingExit push \<and> pingExit) \<and>
        (0 < po_PingRestart push \<longrightarrow> timeout = po_PingRestart push \<and> \<not> pingExit) \<and>
        (po_PingExit push = 0 \<and> po_PingRestart push = 0 \<longrightarrow> pingExit = (0 < pf_PingExit p)))"
  using parsePeerID_range [of raw] parseTunMTU_range [OF assms(1), of raw] effectiveKeepalive_range [OF assms] by blast

theorem session_parameters_witness:
  "unat (parsePeerID ''PUSH_REPLY,peer-id 12,tun-mtu 1400'') \<le> 0xFFFFFE \<and>
   68 \<le> parseTunMTU ''PUSH_REPLY,peer-id 12,tun-mtu 1400'' (pf_TunMTU default_profile) \<and>
   effectiveKeepalive default_profile zero_options = (10, 60, False)"
proof -
  have w: "profile_wf default_profile" "timers_wf zero_options"
    by (simp_all add: profile_wf_defs default_profile_def port_ok_def timers_wf_def zero_options_def int63_def)
  moreover have "effectiveKeepalive default_profile zero_options = (10, 60, False)" by code_simp
  ultimately show ?thesis using session_parameters [OF w] by blast
qed

end
