(* ===== verification/Auth_Exchange.thy ===== *)
theory Auth_Exchange
  imports Session Saml Control_Packets Framing
begin

section \<open>Reset and authentication exchange\<close>

text \<open>
  Models the functions of \<^verbatim>\<open>client.go\<close> that open a control session before and after the TLS handshake: the reset that is
  retransmitted until the server answers (\<open>sendWithRetry\<close>), the packet framing of the profile's protocol, the
  key-method-2 message of the client in both wire formats (\<open>sendAuthPacket\<close>), the reader that skips the server's one
  (\<open>consumeServerAuthPacket\<close>), and the reader that replays a message already consumed (\<open>prereadReader\<close>).

  Times are nanoseconds.  The time a call takes between two reads of the clock is left out; what the peer sends is
  the list of its packets with the times they arrive.
\<close>

subsection \<open>Packets on the connection of the profile\<close>

type_synonym conn = "Framing.reader \<times> dgram_conn"

definition readPacket :: "Proto \<Rightarrow> conn \<Rightarrow> (frame_error, bytes) result \<times> conn" where
  "readPacket proto c =
     (if proto = ProtoUDP then (case ReadUDP (snd c) of (res, d) \<Rightarrow> (res, fst c, d))
      else (case ReadTCP (fst c) of (res, s) \<Rightarrow> (res, s, snd c)))"

definition writePacket :: "Proto \<Rightarrow> 'w write_fn \<Rightarrow> bytes \<Rightarrow> 'w \<Rightarrow> frame_error option \<times> 'w" where
  "writePacket proto write payload w =
     (if proto = ProtoUDP then WriteUDP write payload w else WriteTCP write payload w)"

text \<open>\<^verbatim>\<open>hex.EncodeToString\<close>.\<close>

definition hex_char :: "nat \<Rightarrow> char" where
  "hex_char n = (if n < 10 then char_of (48 + n) else char_of (87 + n))"

definition hex_EncodeToString :: "bytes \<Rightarrow> string" where
  "hex_EncodeToString bs = concat (map (\<lambda>b. [hex_char (unat b div 16), hex_char (unat b mod 16)]) bs)"

definition randomSubdomain :: "bytes option \<Rightarrow> string \<Rightarrow> string" where
  "randomSubdomain rnd host =
     (case rnd of None \<Rightarrow> ''rand.'' @ host | Some b \<Rightarrow> hex_EncodeToString b @ ''.'' @ host)"

subsection \<open>The reset exchange\<close>

text \<open>What the socket delivers: a packet, or an error other than a timeout, at a point in time.\<close>

type_synonym arrival = "int \<times> (frame_error, bytes) result"

datatype retry_error = WriteAttempt nat frame_error | ReadAttempt frame_error | NoResponse nat

datatype await_result = Reply bytes | Broken frame_error | TimedOut int "arrival list"

text \<open>The inner loop: read until the wanted opcode arrives, the connection breaks or the deadline passes.  A packet that
  arrives after the deadline stays in the socket for the next attempt.  The round trip time, 0 while unknown, is
  taken from the first packet of any opcode.\<close>

fun await_reply :: "byte \<Rightarrow> int \<Rightarrow> int \<Rightarrow> int \<Rightarrow> arrival list \<Rightarrow> await_result" where
  "await_reply want sentAt deadline rtt [] = TimedOut rtt []"
| "await_reply want sentAt deadline rtt ((t, res) # as) =
     (if deadline < t then TimedOut rtt ((t, res) # as)
      else case res of
        Inl e \<Rightarrow> Broken e
      | Inr resp \<Rightarrow>
          (let rtt' = (if rtt = 0 then max t sentAt - sentAt else rtt) in
           if 1 \<le> length resp \<and> OpcodeFromByte (resp ! 0) = want then Reply resp
           else await_reply want sentAt deadline rtt' as))"

definition maxInterval :: int where "maxInterval = 10 * 1000000000"

definition next_interval :: "int \<Rightarrow> int \<Rightarrow> int" where
  "next_interval rtt interval =
     (let i = (if 0 < rtt then rtt * 2 else interval * 2) in if maxInterval < i then maxInterval else i)"

text \<open>The outer loop, with the attempts left as the recursion argument; \<open>write_err n\<close> is the error of the write of
  attempt \<open>n\<close>.  The second result lists the times at which the packet was sent.\<close>

fun retry_loop :: "(nat \<Rightarrow> frame_error option) \<Rightarrow> byte \<Rightarrow> nat \<Rightarrow> nat \<Rightarrow> int \<Rightarrow> int \<Rightarrow> int \<Rightarrow> arrival list
      \<Rightarrow> (retry_error, bytes) result \<times> int list" where
  "retry_loop write_err want try 0 now interval rtt as = (Inl (NoResponse try), [])"
| "retry_loop write_err want try (Suc left) now interval rtt as =
     (case write_err try of
        Some e \<Rightarrow> (Inl (WriteAttempt (try + 1) e), [])
      | None \<Rightarrow>
          (case await_reply want now (now + interval) rtt as of
             Reply resp \<Rightarrow> (Inr resp, [now])
           | Broken e \<Rightarrow> (Inl (ReadAttempt e), [now])
           | TimedOut rtt' as' \<Rightarrow>
               (case retry_loop write_err want (try + 1) left (now + interval) (next_interval rtt' interval) rtt' as' of
                  (res, sent) \<Rightarrow> (res, now # sent))))"

definition sendWithRetry :: "(nat \<Rightarrow> frame_error option) \<Rightarrow> byte \<Rightarrow> int \<Rightarrow> nat \<Rightarrow> int \<Rightarrow> arrival list
      \<Rightarrow> (retry_error, bytes) result \<times> int list" where
  "sendWithRetry write_err wantOpcode retryInterval maxTries start as =
     retry_loop write_err wantOpcode 0 maxTries start retryInterval 0 as"

subsection \<open>The key-method-2 message\<close>

definition Itoa :: "int \<Rightarrow> string" where
  "Itoa n = (if n < 0 then ''-'' @ nat_digits (nat (- n)) else nat_digits (nat n))"

definition buildTunnelOptions :: "Proto \<Rightarrow> int \<Rightarrow> string" where
  "buildTunnelOptions proto tunMTU0 =
     (let tunMTU = (if tunMTU0 = 0 then 1500 else tunMTU0);
          (protoStr, linkMTU) = (if proto = ProtoTCP then (''TCPv4_CLIENT'', tunMTU + 43) else (''UDPv4'', tunMTU + 21))
      in ''V4,dev-type tun,link-mtu '' @ Itoa linkMTU @ '',tun-mtu '' @ Itoa tunMTU @ '',proto '' @ protoStr
           @ '',cipher AES-256-GCM,auth [null-digest],keysize 256,key-method 2,tls-client'')"

definition peerInfo :: string where
  "peerInfo = concat (map (\<lambda>l. l @ [CHR 0x0A])
     [''IV_VER=3.11.6'', ''IV_PLAT=linux'', ''IV_NCP=2'', ''IV_TCPNL=1'', ''IV_PROTO=30'', ''IV_MTU=1600'',
      ''IV_CIPHERS=AES-128-GCM:AES-192-GCM:AES-256-GCM''])"

definition authStr_aws :: "string \<Rightarrow> bytes" where
  "authStr_aws s = (if s = [] then [0, 0, 0, 0] else be32 (of_nat (length s + 1)) @ bytes_of_string s @ [0])"

definition authStr_stock :: "string \<Rightarrow> bytes" where
  "authStr_stock s = (if s = [] then [0, 1, 0] else be16 (of_nat (length s + 1)) @ bytes_of_string s @ [0])"

definition le32 :: "u32 \<Rightarrow> bytes" where "le32 w = rev (be32 w)"

definition auth_body :: "bytes \<Rightarrow> Proto \<Rightarrow> int \<Rightarrow> string \<Rightarrow> string \<Rightarrow> bool \<Rightarrow> bytes" where
  "auth_body rnd proto tunMTU username password awsFormat =
     (let authStr = (if awsFormat then authStr_aws else authStr_stock)
      in [0x02] @ rnd @ authStr (buildTunnelOptions proto tunMTU) @ authStr username @ authStr password @ authStr peerInfo)"

definition auth_packet :: "bytes \<Rightarrow> Proto \<Rightarrow> int \<Rightarrow> string \<Rightarrow> string \<Rightarrow> bool \<Rightarrow> bytes" where
  "auth_packet rnd proto tunMTU username password awsFormat =
     (let body = auth_body rnd proto tunMTU username password awsFormat
      in (if awsFormat then le32 (of_nat (4 + length body)) else [0, 0, 0, 0]) @ body)"

datatype auth_error = RandFailed | AuthWrite io_error

definition sendAuthPacket :: "'w write_fn \<Rightarrow> bytes option \<Rightarrow> Proto \<Rightarrow> int \<Rightarrow> string \<Rightarrow> string \<Rightarrow> bool \<Rightarrow> 'w \<Rightarrow> auth_error option \<times> 'w" where
  "sendAuthPacket write rnd proto tunMTU username password awsFormat w =
     (case rnd of
        None \<Rightarrow> (Some RandFailed, w)
      | Some r \<Rightarrow>
          (case write (auth_packet r proto tunMTU username password awsFormat) w of
             (Some e, w1) \<Rightarrow> (Some (AuthWrite e), w1)
           | (None, w1) \<Rightarrow> (None, w1)))"

subsection \<open>Skipping the server's message\<close>

text \<open>A TLS connection delivers its records one by one: a \<^verbatim>\<open>Read\<close> returns bytes of one record only, and empty records are
  skipped.  The error is what comes after the last record.\<close>

record tls_reader =
  tr_recs :: "bytes list"
  tr_err :: io_error

fun tls_Read :: "nat \<Rightarrow> tls_reader \<Rightarrow> (io_error, bytes) result \<times> tls_reader" where
  "tls_Read n r =
     (case dropWhile (\<lambda>b. b = []) (tr_recs r) of
        [] \<Rightarrow> (Inl (tr_err r), r\<lparr>tr_recs := []\<rparr>)
      | b # bs \<Rightarrow> (Inr (take n b), r\<lparr>tr_recs := drop n b # bs\<rparr>))"

fun read_full :: "nat \<Rightarrow> bytes \<Rightarrow> bytes list \<Rightarrow> (bytes \<times> bytes list) option" where
  "read_full n acc [] = None"
| "read_full n acc (b # bs) =
     (if n \<le> length b then Some (acc @ take n b, drop n b # bs) else read_full (n - length b) (acc @ b) bs)"

text \<open>\<^verbatim>\<open>io.ReadFull\<close> for a buffer of at least one byte.\<close>

definition tls_ReadFull :: "nat \<Rightarrow> tls_reader \<Rightarrow> (io_error, bytes) result \<times> tls_reader" where
  "tls_ReadFull n r =
     (case read_full n [] (tr_recs r) of
        Some (bs, recs) \<Rightarrow> (Inr bs, r\<lparr>tr_recs := recs\<rparr>)
      | None \<Rightarrow> (Inl (if tr_err r = IO_EOF \<and> concat (tr_recs r) \<noteq> [] then IO_UnexpectedEOF else tr_err r), r\<lparr>tr_recs := []\<rparr>))"

datatype server_auth_error = AuthHeader io_error | AuthBody io_error | AuthKeyMethod io_error | UnexpectedKeyMethod byte

definition le_total :: "bytes \<Rightarrow> nat" where
  "le_total hdr = unat (hdr ! 0) + unat (hdr ! 1) * 2 ^ 8 + unat (hdr ! 2) * 2 ^ 16 + unat (hdr ! 3) * 2 ^ 24"

definition consumeServerAuthPacket :: "tls_reader \<Rightarrow> server_auth_error option \<times> tls_reader" where
  "consumeServerAuthPacket r =
     (case tls_ReadFull 4 r of
        (Inl e, r1) \<Rightarrow> (Some (AuthHeader e), r1)
      | (Inr hdr, r1) \<Rightarrow>
          (let totalLen = le_total hdr in
           if 85 \<le> totalLen \<and> totalLen \<le> 2 ^ 20 then
             (case tls_ReadFull (totalLen - 4) r1 of
                (Inl e, r2) \<Rightarrow> (Some (AuthBody e), r2)
              | (Inr body, r2) \<Rightarrow> (if body ! 0 \<noteq> 0x02 then (Some (UnexpectedKeyMethod (body ! 0)), r2) else (None, r2)))
           else
             (case tls_ReadFull 1 r1 of
                (Inl e, r2) \<Rightarrow> (Some (AuthKeyMethod e), r2)
              | (Inr km, r2) \<Rightarrow>
                  (if km ! 0 \<noteq> 0x02 then (Some (UnexpectedKeyMethod (km ! 0)), r2)
                   else (None, snd (tls_Read 8192 r2))))))"

subsection \<open>Replaying a message\<close>

record prereadReader =
  pr_data :: bytes
  pr_pos :: nat

definition preread_Read :: "nat \<Rightarrow> prereadReader \<Rightarrow> (io_error, bytes) result \<times> prereadReader" where
  "preread_Read n r =
     (if length (pr_data r) \<le> pr_pos r then (Inl IO_EOF, r)
      else let chunk = take n (drop (pr_pos r) (pr_data r)) in (Inr chunk, r\<lparr>pr_pos := pr_pos r + length chunk\<rparr>))"

text \<open>Byte by byte, as \<open>ReadControlMsg\<close> reads it, the reader followed by the live stream of \<^verbatim>\<open>io.MultiReader\<close>.\<close>

fun preread_bytes :: "nat \<Rightarrow> prereadReader \<Rightarrow> bytes" where
  "preread_bytes 0 r = []"
| "preread_bytes (Suc fuel) r =
     (case preread_Read 1 r of (Inl e, _) \<Rightarrow> [] | (Inr b, r') \<Rightarrow> b @ preread_bytes fuel r')"

definition prereadRW :: "string \<Rightarrow> string \<Rightarrow> string" where
  "prereadRW raw live =
     (let d = bytes_of_string (raw @ [NUL]) in
      string_of_bytes (preread_bytes (length d) \<lparr>pr_data = d, pr_pos = 0\<rparr>) @ live)"

subsection \<open>Lemmas\<close>

lemma preread_bytes_all:
  "pr_pos r \<le> length (pr_data r) \<Longrightarrow> preread_bytes (length (pr_data r) - pr_pos r) r = drop (pr_pos r) (pr_data r)"
proof (induction "length (pr_data r) - pr_pos r" arbitrary: r)
  case (Suc n)
  let ?r = "r\<lparr>pr_pos := Suc (pr_pos r)\<rparr>"
  have lt: "pr_pos r < length (pr_data r)" using Suc.hyps(2) by linarith
  then have "take 1 (drop (pr_pos r) (pr_data r)) = [pr_data r ! pr_pos r]" by (simp add: take_Suc_conv_app_nth)
  then have "preread_Read 1 r = (Inr [pr_data r ! pr_pos r], ?r)" using lt by (simp add: preread_Read_def Let_def)
  moreover have n: "n = length (pr_data ?r) - pr_pos ?r" using Suc.hyps(2) by simp
  have "preread_bytes n ?r = drop (Suc (pr_pos r)) (pr_data r)" unfolding n using Suc.hyps(1) [OF n] lt by simp
  ultimately show ?case using lt by (simp flip: Suc.hyps(2) add: Cons_nth_drop_Suc)
qed simp

lemma prereadRW_stream: "prereadRW raw live = raw @ [NUL] @ live"
  using preread_bytes_all [of "\<lparr>pr_data = bytes_of_string (raw @ [NUL]), pr_pos = 0\<rparr>"]
  by (simp add: prereadRW_def Let_def flip: bytes_of_string_append)

text \<open>How long the loop waits when nothing arrives.\<close>

fun wait_window :: "nat \<Rightarrow> int \<Rightarrow> int \<Rightarrow> int" where
  "wait_window 0 rtt interval = 0"
| "wait_window (Suc n) rtt interval = interval + wait_window n rtt (next_interval rtt interval)"

lemma wait_window_nonneg: "0 \<le> rtt \<Longrightarrow> 0 \<le> interval \<Longrightarrow> 0 \<le> wait_window n rtt interval"
  by (induction n rtt interval rule: wait_window.induct) (simp_all add: next_interval_def maxInterval_def Let_def)

definition wanted :: "byte \<Rightarrow> bytes \<Rightarrow> bool" where
  "wanted want resp \<longleftrightarrow> resp \<noteq> [] \<and> OpcodeFromByte (resp ! 0) = want"

lemma await_reply_wanted: "await_reply want sentAt deadline rtt as = Reply resp \<Longrightarrow> wanted want resp"
  by (induction want sentAt deadline rtt as rule: await_reply.induct)
    (auto simp: wanted_def Let_def Suc_le_eq split: if_splits sum.splits)

lemma retry_loop_wanted: "fst (retry_loop we want try left now interval rtt as) = Inr resp \<Longrightarrow> wanted want resp"
  by (induction we want "try" left now interval rtt as rule: retry_loop.induct)
    (auto dest: await_reply_wanted split: option.splits await_result.splits prod.splits)

lemma retry_loop_sends: "length (snd (retry_loop we want try left now interval rtt as)) \<le> left"
  by (induction we want "try" left now interval rtt as rule: retry_loop.induct)
    (auto split: option.splits await_result.splits prod.splits)

lemma retry_loop_reply:
  assumes "wanted want resp" "0 \<le> rtt" "0 \<le> interval"
  shows "fst (retry_loop (\<lambda>_. None) want try left now interval rtt ((T, Inr resp) # as)) =
     (if 0 < left \<and> T \<le> now + wait_window left rtt interval then Inr resp else Inl (NoResponse (try + left)))"
  using assms(3)
proof (induction left arbitrary: "try" now interval)
  case (Suc left)
  let ?i = "next_interval rtt interval"
  have i: "0 \<le> ?i" using assms(2) Suc.prems by (simp add: next_interval_def maxInterval_def Let_def)
  show ?case
  proof (cases "now + interval < T")
    case True
    have "fst (retry_loop (\<lambda>_. None) want try (Suc left) now interval rtt ((T, Inr resp) # as)) =
        fst (retry_loop (\<lambda>_. None) want (try + 1) left (now + interval) ?i rtt ((T, Inr resp) # as))"
      using True by (simp split: prod.splits)
    then show ?thesis using Suc.IH [OF i, of "try + 1" "now + interval"] True
      by (cases "left = 0") (simp_all add: add.assoc)
  next
    case False
    then have "T \<le> now + wait_window (Suc left) rtt interval" using wait_window_nonneg [OF assms(2) i, of left] by simp
    then show ?thesis using False assms(1) by (auto simp: wanted_def Suc_le_eq Let_def)
  qed
qed simp

text \<open>With a packet of another opcode first, the rest of the loop runs on twice its round trip time.\<close>

lemma retry_loop_stray:
  assumes "\<not> wanted want stray" "wanted want resp" "0 < d" "d \<le> interval" "0 \<le> interval"
  shows "fst (retry_loop (\<lambda>_. None) want try (Suc left) now interval 0 ((now + d, Inr stray) # (T, Inr resp) # as)) =
     (if T \<le> now + wait_window (Suc left) d interval then Inr resp else Inl (NoResponse (try + Suc left)))"
proof -
  have "await_reply want now (now + interval) 0 ((now + d, Inr stray) # (T, Inr resp) # as) =
      await_reply want now (now + interval) d ((T, Inr resp) # as)"
    using assms by (auto simp: wanted_def Suc_le_eq Let_def)
  then have "retry_loop (\<lambda>_. None) want try (Suc left) now interval 0 ((now + d, Inr stray) # (T, Inr resp) # as) =
      retry_loop (\<lambda>_. None) want try (Suc left) now interval d ((T, Inr resp) # as)"
    by simp
  then show ?thesis using retry_loop_reply [OF assms(2), of d interval "try" "Suc left" now T as] assms(3,5) by simp
qed

lemma window_unmeasured: "wait_window 8 0 2000000000 = 64000000000"
  by (simp add: eval_nat_numeral next_interval_def maxInterval_def)

lemma window_measured: "0 < d \<Longrightarrow> d \<le> 2000000000 \<Longrightarrow> wait_window 8 d 2000000000 = 2000000000 + 14 * d"
  by (simp add: eval_nat_numeral next_interval_def maxInterval_def)

text \<open>The reference reader of the four strings of a key-method-2 message, as a server reads them.\<close>

definition str_aws :: "bytes \<Rightarrow> (string \<times> bytes) option" where
  "str_aws bs =
     (case Uint32 bs of
        None \<Rightarrow> None
      | Some n \<Rightarrow>
          (if n = 0 then Some ([], drop 4 bs)
           else if 4 + unat n \<le> length bs then Some (string_of_bytes (take (unat n - 1) (drop 4 bs)), drop (4 + unat n) bs)
           else None))"

definition str_stock :: "bytes \<Rightarrow> (string \<times> bytes) option" where
  "str_stock bs =
     (case Uint16 bs of
        None \<Rightarrow> None
      | Some n \<Rightarrow>
          (if 0 < n \<and> 2 + unat n \<le> length bs then Some (string_of_bytes (take (unat n - 1) (drop 2 bs)), drop (2 + unat n) bs)
           else None))"

fun read_strs :: "(bytes \<Rightarrow> (string \<times> bytes) option) \<Rightarrow> nat \<Rightarrow> bytes \<Rightarrow> string list option" where
  "read_strs rd 0 bs = (if bs = [] then Some [] else None)"
| "read_strs rd (Suc n) bs = (case rd bs of None \<Rightarrow> None | Some (s, rest) \<Rightarrow> map_option ((#) s) (read_strs rd n rest))"

text \<open>Options, user name, password and peer info of a message.\<close>

definition auth_fields :: "bool \<Rightarrow> bytes \<Rightarrow> string list option" where
  "auth_fields awsFormat pkt =
     (if length pkt < 117 \<or> pkt ! 4 \<noteq> 2 then None
      else if awsFormat then (if le_total pkt = length pkt then read_strs str_aws 4 (drop 117 pkt) else None)
      else if take 4 pkt = [0, 0, 0, 0] then read_strs str_stock 4 (drop 117 pkt) else None)"

lemma unat_len: "n < 2 ^ LENGTH('a) \<Longrightarrow> unat (of_nat n :: 'a :: len word) = n"
  by (simp add: unat_of_nat take_bit_nat_eq_self)

lemma of_nat_ne0: "0 < n \<Longrightarrow> n < 2 ^ LENGTH('a) \<Longrightarrow> (of_nat n :: 'a :: len word) \<noteq> 0"
  by (metis unat_len less_irrefl unsigned_0)

lemma str_aws_authStr:
  assumes "length s + 1 < 2 ^ 32"
  shows "str_aws (authStr_aws s @ rest) = Some (s, rest)"
proof (cases "s = []")
  case True
  then show ?thesis by (simp add: authStr_aws_def str_aws_def u32_of_def)
next
  case False
  have "unat (of_nat (length s + 1) :: u32) = length s + 1" by (rule unat_len) (use assms in simp)
  moreover have "(of_nat (length s + 1) :: u32) \<noteq> 0" by (rule of_nat_ne0) (use assms in simp_all)
  ultimately show ?thesis using False by (simp add: authStr_aws_def str_aws_def del: of_nat_Suc of_nat_add)
qed

lemma str_stock_authStr:
  assumes "length s + 1 < 2 ^ 16"
  shows "str_stock (authStr_stock s @ rest) = Some (s, rest)"
proof (cases "s = []")
  case True
  have "u16_of 0 1 = 1" by (simp add: u16_of_def)
  then show ?thesis using True by (simp add: authStr_stock_def str_stock_def string_of_bytes_def)
next
  case False
  have u: "unat (of_nat (length s + 1) :: u16) = length s + 1" by (rule unat_len) (use assms in simp)
  have "(of_nat (length s + 1) :: u16) \<noteq> 0" by (rule of_nat_ne0) (use assms in simp_all)
  then have "0 < (of_nat (length s + 1) :: u16)" by (simp add: word_gt_0)
  with u show ?thesis using False by (simp add: authStr_stock_def str_stock_def del: of_nat_Suc of_nat_add)
qed

lemma nat_digits_length: "n < 10 ^ Suc k \<Longrightarrow> length (nat_digits n) \<le> Suc k"
proof (induction k arbitrary: n)
  case (Suc k)
  have "length (nat_digits (n div 10)) \<le> Suc k" using Suc.IH [of "n div 10"] Suc.prems by (simp add: div_less_iff_less_mult)
  then show ?case by (subst nat_digits.simps) simp
qed (simp add: nat_digits.simps)

lemma tunnel_options_length:
  assumes "0 \<le> mtu" "mtu \<le> 65535"
  shows "length (buildTunnelOptions proto mtu) \<le> 200"
proof -
  have "length (Itoa n) \<le> 6" if "0 \<le> n" "n \<le> 65578" for n
    using nat_digits_length [of "nat n" 5] that by (simp add: Itoa_def)
  from this [of "mtu + 43"] this [of "mtu + 21"] this [of mtu] this [of 1500] this [of 1543] this [of 1521]
  show ?thesis using assms by (simp add: buildTunnelOptions_def Let_def)
qed

lemma le_total_le32: "le_total (le32 w @ rest) = unat w"
proof -
  have split: "n mod 256 + n div 2 ^ 8 mod 256 * 2 ^ 8 + n div 2 ^ 16 mod 256 * 2 ^ 16 + n div 2 ^ 24 * 2 ^ 24 = n"
    if "n < 2 ^ 32" for n :: nat
  proof -
    have "n div 2 ^ 8 div 2 ^ 8 = n div 2 ^ 16" "n div 2 ^ 16 div 2 ^ 8 = n div 2 ^ 24" by (simp_all flip: div_mult2_eq)
    then have "n = 256 * (n div 2 ^ 8) + n mod 256" "n div 2 ^ 8 = 256 * (n div 2 ^ 16) + n div 2 ^ 8 mod 256"
      "n div 2 ^ 16 = 256 * (n div 2 ^ 24) + n div 2 ^ 16 mod 256"
      using mult_div_mod_eq [of 256 n] mult_div_mod_eq [of 256 "n div 2 ^ 8"] mult_div_mod_eq [of 256 "n div 2 ^ 16"] by simp_all
    moreover have "a + b * 2 ^ 8 + c * 2 ^ 16 + r * 2 ^ 24 = m" if "m = 256 * p + a" "p = 256 * q + b" "q = 256 * r + c" for a b c r m p q :: nat
      using that by simp
    ultimately show ?thesis by metis
  qed
  define b where "b i = (ucast (drop_bit i w) :: byte)" for i
  have "unat (b i) = unat w div 2 ^ i mod 256" for i
    by (simp add: b_def unsigned_ucast_eq unat_drop_bit_eq take_bit_eq_mod) (simp add: drop_bit_eq_div)
  moreover have "le32 w = [b 0, b 8, b 16, b 24]" by (simp add: le32_def be32_def b_def)
  moreover have "unat w mod 256 + unat w div 2 ^ 8 mod 256 * 2 ^ 8 + unat w div 2 ^ 16 mod 256 * 2 ^ 16 + unat w div 2 ^ 24 * 2 ^ 24 = unat w"
    by (rule split) simp
  moreover have "unat w div 16777216 mod 256 = unat w div 16777216" using unat_u32 [of w] by (simp add: div_less_iff_less_mult)
  ultimately show ?thesis by (simp add: le_total_def del: mod_less)
qed

lemma auth_packet_parts:
  assumes "length rnd = 112"
  shows "auth_packet rnd proto mtu u pw aws ! 4 = 2" "117 \<le> length (auth_packet rnd proto mtu u pw aws)"
    "drop 117 (auth_packet rnd proto mtu u pw aws) =
       (let authStr = (if aws then authStr_aws else authStr_stock)
        in authStr (buildTunnelOptions proto mtu) @ authStr u @ authStr pw @ authStr peerInfo)"
  using assms by (simp_all add: auth_packet_def auth_body_def Let_def le32_def nth_append)

lemma read_full_concat:
  assumes "concat recs = xs @ rest" "xs \<noteq> []"
  shows "\<exists>recs'. read_full (length xs) acc recs = Some (acc @ xs, recs') \<and> concat recs' = rest"
  using assms
proof (induction recs arbitrary: xs acc)
  case (Cons b bs)
  show ?case
  proof (cases "length xs \<le> length b")
    case True
    then have "xs = take (length xs) b \<and> drop (length xs) b @ concat bs = rest"
      using Cons.prems(1) by (auto simp: append_eq_append_conv_if split: if_splits)
    then show ?thesis using True by auto
  next
    case False
    then obtain ys where ys: "xs = b @ ys" "concat bs = ys @ rest" "ys \<noteq> []"
      using Cons.prems(1) by (auto simp: append_eq_append_conv2 append_eq_append_conv)
    then show ?thesis using Cons.IH [OF ys(2,3), of "acc @ b"] False by simp
  qed
qed simp

lemma tls_ReadFull_concat:
  assumes "concat (tr_recs r) = xs @ rest" "xs \<noteq> []"
  obtains recs' where "tls_ReadFull (length xs) r = (Inr xs, r\<lparr>tr_recs := recs'\<rparr>)" "concat recs' = rest"
  using read_full_concat [OF assms, of "[]"] by (auto simp: tls_ReadFull_def)

lemma patched_auth_skipped:
  assumes "concat (tr_recs r) = le32 (of_nat (4 + length body)) @ body @ rest" "85 \<le> 4 + length body" "4 + length body \<le> 2 ^ 20"
    and "body ! 0 = 2"
  shows "\<exists>r'. consumeServerAuthPacket r = (None, r') \<and> concat (tr_recs r') = rest"
proof -
  let ?hdr = "le32 (of_nat (4 + length body))"
  have l: "length ?hdr = 4" "?hdr \<noteq> []" by (simp_all add: le32_def be32_def)
  obtain recs1 where r1: "tls_ReadFull 4 r = (Inr ?hdr, r\<lparr>tr_recs := recs1\<rparr>)" "concat recs1 = body @ rest"
    using tls_ReadFull_concat [OF assms(1) l(2)] l(1) by metis
  have "unat (of_nat (4 + length body) :: u32) = 4 + length body" by (rule unat_len) (use assms(3) in simp)
  then have t: "le_total ?hdr = 4 + length body" using le_total_le32 [of _ "[]"] by simp
  have "body \<noteq> []" using assms(2) by auto
  then obtain recs2 where "tls_ReadFull (length body) (r\<lparr>tr_recs := recs1\<rparr>) = (Inr body, r\<lparr>tr_recs := recs2\<rparr>)" "concat recs2 = rest"
    using tls_ReadFull_concat [of "r\<lparr>tr_recs := recs1\<rparr>" body rest] r1(2) by auto
  then show ?thesis using r1(1) t assms(2-4) by (simp add: consumeServerAuthPacket_def Let_def)
qed

lemma stock_auth_skipped:
  assumes "tr_recs r = ([0, 0, 0, 0, 2] @ body) # later"
  shows "consumeServerAuthPacket r = (None, snd (tls_Read 8192 (r\<lparr>tr_recs := body # later\<rparr>)))"
  using assms by (simp add: consumeServerAuthPacket_def tls_ReadFull_def le_total_def Let_def)

subsection \<open>Properties\<close>

text \<open>(reset retry window).  The client sends its hard reset at most eight times.  When the server's answer is the first
  packet to arrive, it is returned exactly if it arrives within 64 seconds of the first send (the comment at the call
  says 16).  When a packet with another opcode arrives first, \<open>d\<close> nanoseconds after the first send, the answer must
  arrive within two seconds plus 14 \<open>d\<close>: the round trip time measured from the other packet shortens every later
  attempt.\<close>

theorem reset_retry_window:
  assumes "wanted want resp"
  shows "length (snd (sendWithRetry we want 2000000000 8 start as)) \<le> 8 \<and>
    fst (sendWithRetry (\<lambda>_. None) want 2000000000 8 start ((T, Inr resp) # as)) =
      (if T \<le> start + 64000000000 then Inr resp else Inl (NoResponse 8)) \<and>
    (\<not> wanted want stray \<longrightarrow> 0 < d \<longrightarrow> d \<le> 2000000000 \<longrightarrow>
      fst (sendWithRetry (\<lambda>_. None) want 2000000000 8 start ((start + d, Inr stray) # (T, Inr resp) # as)) =
        (if T \<le> start + 2000000000 + 14 * d then Inr resp else Inl (NoResponse 8)))"
proof (intro conjI impI)
  show "length (snd (sendWithRetry we want 2000000000 8 start as)) \<le> 8"
    unfolding sendWithRetry_def by (rule retry_loop_sends)
  show "fst (sendWithRetry (\<lambda>_. None) want 2000000000 8 start ((T, Inr resp) # as)) =
      (if T \<le> start + 64000000000 then Inr resp else Inl (NoResponse 8))"
    using retry_loop_reply [OF assms, of 0 2000000000 0 8 start T as] by (simp add: sendWithRetry_def window_unmeasured)
next
  assume "\<not> wanted want stray" "0 < d" "d \<le> 2000000000"
  then show "fst (sendWithRetry (\<lambda>_. None) want 2000000000 8 start ((start + d, Inr stray) # (T, Inr resp) # as)) =
       (if T \<le> start + 2000000000 + 14 * d then Inr resp else Inl (NoResponse 8))"
    using retry_loop_stray [of want stray resp d 2000000000 0 7 start T as] assms window_measured [of d]
    by (simp add: sendWithRetry_def eval_nat_numeral del: retry_loop.simps)
qed

theorem reset_retry_window_witness:
  "fst (sendWithRetry (\<lambda>_. None) P_CONTROL_HARD_RESET_SERVER_V2 2000000000 8 0 [(50000000000, Inr [0x40])]) = Inr [0x40] \<and>
   fst (sendWithRetry (\<lambda>_. None) P_CONTROL_HARD_RESET_SERVER_V2 2000000000 8 0
     [(1000000, Inr [0x28]), (3000000000, Inr [0x40])]) = Inl (NoResponse 8)"
proof -
  have w: "wanted P_CONTROL_HARD_RESET_SERVER_V2 [0x40]" "\<not> wanted P_CONTROL_HARD_RESET_SERVER_V2 [0x28]"
    by (simp_all add: wanted_def OpcodeFromByte_def opcodeShift_def P_CONTROL_HARD_RESET_SERVER_V2_def)
  show ?thesis
    using reset_retry_window [OF w(1), of "\<lambda>_. None" 0 "[]" 50000000000 "[]" 1]
      reset_retry_window [OF w(1), of "\<lambda>_. None" 0 "[]" 3000000000 "[0x28]" 1000000] w(2) by simp
qed

text \<open>(key-method-2 message).  A server that reads the client's message in the same format gets the options, the user
  name, the password and the peer info back, when the strings fit their length prefix.  In the stock format the
  prefix has 16 bits and is not checked: with a password of 65535 characters the length wraps to zero and the message
  cannot be read.\<close>

theorem auth_packet_decoded:
  assumes "length rnd = 112" "0 \<le> mtu" "mtu \<le> 65535"
  shows "(length u + length pw < 2 ^ 31 \<longrightarrow>
       auth_fields True (auth_packet rnd proto mtu u pw True) = Some [buildTunnelOptions proto mtu, u, pw, peerInfo]) \<and>
    (length u < 65535 \<and> length pw < 65535 \<longrightarrow>
       auth_fields False (auth_packet rnd proto mtu u pw False) = Some [buildTunnelOptions proto mtu, u, pw, peerInfo]) \<and>
    (length u < 65535 \<and> length pw = 65535 \<longrightarrow> auth_fields False (auth_packet rnd proto mtu u pw False) = None)"
proof (intro conjI impI)
  note parts = auth_packet_parts [OF assms(1), of proto mtu u pw]
  have opts: "length (buildTunnelOptions proto mtu) \<le> 200" using assms by (intro tunnel_options_length)
  have info: "length peerInfo \<le> 200" by code_simp
  have four: "(4 :: nat) = Suc (Suc (Suc (Suc 0)))" by simp
  { assume l: "length u + length pw < 2 ^ 31"
    have len: "length (authStr_aws s) \<le> 5 + length s" for s by (simp add: authStr_aws_def)
    have "length (auth_body rnd proto mtu u pw True) \<le> 133 + 400 + length u + length pw"
      using assms(1) opts info len [of u] len [of pw] len [of "buildTunnelOptions proto mtu"] len [of peerInfo]
      by (simp add: auth_body_def Let_def)
    then have "le_total (auth_packet rnd proto mtu u pw True) = 4 + length (auth_body rnd proto mtu u pw True)"
      using l by (subst auth_packet_def) (simp add: Let_def le_total_le32 unat_len del: of_nat_add)
    moreover have "length (auth_packet rnd proto mtu u pw True) = 4 + length (auth_body rnd proto mtu u pw True)"
      by (simp add: auth_packet_def le32_def Let_def)
    moreover have "read_strs str_aws 4 (drop 117 (auth_packet rnd proto mtu u pw True)) =
        Some [buildTunnelOptions proto mtu, u, pw, peerInfo]"
      unfolding parts(3) four using l opts info str_aws_authStr [of peerInfo "[]"] by (simp add: str_aws_authStr Let_def)
    ultimately show "auth_fields True (auth_packet rnd proto mtu u pw True) = Some [buildTunnelOptions proto mtu, u, pw, peerInfo]"
      using parts(1) [of True] parts(2) [of True] by (simp add: auth_fields_def not_less) }
  { assume l: "length u < 65535 \<and> length pw < 65535"
    have "take 4 (auth_packet rnd proto mtu u pw False) = [0, 0, 0, 0]" by (simp add: auth_packet_def Let_def)
    moreover have "read_strs str_stock 4 (drop 117 (auth_packet rnd proto mtu u pw False)) =
        Some [buildTunnelOptions proto mtu, u, pw, peerInfo]"
      unfolding parts(3) four using l opts info str_stock_authStr [of peerInfo "[]"] by (simp add: str_stock_authStr Let_def)
    ultimately show "auth_fields False (auth_packet rnd proto mtu u pw False) = Some [buildTunnelOptions proto mtu, u, pw, peerInfo]"
      using parts(1) [of False] parts(2) [of False] by (simp add: auth_fields_def not_less) }
  { assume l: "length u < 65535 \<and> length pw = 65535"
    have "str_stock (authStr_stock pw @ authStr_stock peerInfo) = None"
    proof -
      have "(of_nat (length pw + 1) :: u16) = 0" using l by simp
      moreover have "pw \<noteq> []" using l by auto
      ultimately show ?thesis by (simp add: authStr_stock_def str_stock_def)
    qed
    then have "read_strs str_stock 4 (drop 117 (auth_packet rnd proto mtu u pw False)) = None"
      unfolding parts(3) four using l opts by (simp add: str_stock_authStr Let_def)
    then show "auth_fields False (auth_packet rnd proto mtu u pw False) = None"
      by (simp add: auth_fields_def) }
qed

theorem auth_packet_decoded_witness:
  "auth_fields True (auth_packet (replicate 112 7) ProtoUDP 1500 ''N/A'' ''ACS::35001'' True) =
     Some [buildTunnelOptions ProtoUDP 1500, ''N/A'', ''ACS::35001'', peerInfo]"
  using auth_packet_decoded [of "replicate 112 7" 1500 "''N/A''" "''ACS::35001''" ProtoUDP] by simp

text \<open>(server message skipped).  A server message with a length header is skipped exactly, however it is cut into
  records, and what follows is left to be read.  After the stock header the client drops one read: the rest of the
  record that holds the message, up to 8192 bytes, including a control message the server put into the same record;
  and when the record ends after the key-method byte, the next record is dropped instead.\<close>

theorem server_auth_skipped:
  "(concat (tr_recs r) = le32 (of_nat (4 + length body)) @ body @ rest \<and> 81 \<le> length body \<and> 4 + length body \<le> 2 ^ 20 \<and> body ! 0 = 2 \<longrightarrow>
      (\<exists>r'. consumeServerAuthPacket r = (None, r') \<and> concat (tr_recs r') = rest)) \<and>
   (tr_recs r = ([0, 0, 0, 0, 2] @ body) # later \<and> body \<noteq> [] \<longrightarrow>
      consumeServerAuthPacket r = (None, r\<lparr>tr_recs := drop 8192 body # later\<rparr>)) \<and>
   (tr_recs r = [0, 0, 0, 0, 2] # msg # later \<and> msg \<noteq> [] \<longrightarrow>
      consumeServerAuthPacket r = (None, r\<lparr>tr_recs := drop 8192 msg # later\<rparr>))"
proof (intro conjI impI)
  show "\<exists>r'. consumeServerAuthPacket r = (None, r') \<and> concat (tr_recs r') = rest"
    if "concat (tr_recs r) = le32 (of_nat (4 + length body)) @ body @ rest \<and> 81 \<le> length body \<and> 4 + length body \<le> 2 ^ 20 \<and> body ! 0 = 2"
    using patched_auth_skipped [of r body rest] that by simp
  show "consumeServerAuthPacket r = (None, r\<lparr>tr_recs := drop 8192 body # later\<rparr>)"
    if "tr_recs r = ([0, 0, 0, 0, 2] @ body) # later \<and> body \<noteq> []"
    using stock_auth_skipped [of r body later] that by simp
  show "consumeServerAuthPacket r = (None, r\<lparr>tr_recs := drop 8192 msg # later\<rparr>)"
    if "tr_recs r = [0, 0, 0, 0, 2] # msg # later \<and> msg \<noteq> []"
    using stock_auth_skipped [of r "[]" "msg # later"] that by simp
qed

theorem server_auth_skipped_witness:
  "concat (tr_recs (snd (consumeServerAuthPacket \<lparr>tr_recs = [[0, 0, 0, 0, 2], bytes_of_string ''PUSH_REPLY''], tr_err = IO_EOF\<rparr>))) = []"
  using server_auth_skipped [of "\<lparr>tr_recs = [[0, 0, 0, 0, 2], bytes_of_string ''PUSH_REPLY''], tr_err = IO_EOF\<rparr>" "[]" "[]" "[]"
      "bytes_of_string ''PUSH_REPLY''"]
  by (simp add: bytes_of_string_def)

end
