(* ===== verification/Tunnel.thy ===== *)
theory Tunnel
  imports Session
begin

section \<open>The tunnel: data plane, keepalive and inactivity\<close>

text \<open>
  Models the goroutines of an established session in \<^verbatim>\<open>client.go\<close>: \<open>tunToWire\<close>, \<open>wireToTun\<close>, \<open>keepaliveLoop\<close> and
  \<open>inactiveLoop\<close>.  Each round of a goroutine is one step on the state they share, so a run is a list of events: a
  packet read from the TUN device, a data packet taken from \<^verbatim>\<open>dataCh\<close>, a tick of either timer.  The clock and the
  outcome of every system call are part of the event.  Durations are the signed 64-bit nanoseconds of \<^verbatim>\<open>time.Duration\<close>,
  so a number of seconds from the server is multiplied with wrap-around.  A step that calls \<open>disconnect\<close> cancels the
  context of all goroutines: the run stops there, and the first reason is kept.
\<close>

subsection \<open>State and events\<close>

datatype errno = ENETUNREACH | EHOSTUNREACH | ENETDOWN | EADDRNOTAVAIL | OtherErrno string

definition isTransientLinkWriteError :: "errno \<Rightarrow> bool" where
  "isTransientLinkWriteError err \<longleftrightarrow>
     err = ENETUNREACH \<or> err = EHOSTUNREACH \<or> err = ENETDOWN \<or> err = EADDRNOTAVAIL"

datatype down_reason = TunWriteError errno | KeepaliveTimeout i64 | PingExitTimeout i64 | InactiveTimeout i64

text \<open>The flag of \<open>Down\<close> is the argument \<open>preserveCredentials\<close> of \<open>disconnect\<close>.\<close>

datatype tun_status = Up | Down down_reason bool

record tunnel =
  tn_manager :: Manager
  tn_mssFix :: int
  tn_mssFixMTU :: int
  tn_bytesSent :: u64
  tn_bytesRecv :: u64
  tn_lastRecv :: int
  tn_reading :: bool \<comment> \<open>the goroutine \<open>tunToWire\<close> runs\<close>
  tn_linkWriteUnavailable :: bool
  tn_nextSend :: "int option" \<comment> \<open>\<open>None\<close> is the zero time\<close>
  tn_windowStart :: int
  tn_startSent :: u64
  tn_startRecv :: u64
  tn_status :: tun_status

record tun_config =
  tc_proto :: Proto
  tc_pingInterval :: i64
  tc_pingTimeout :: i64
  tc_pingExit :: bool
  tc_inactive :: i64
  tc_minBytes :: i64

datatype tun_event =
    TunRead bytes "bytes option" "errno option" \<comment> \<open>packet, random bytes, outcome of the write\<close>
  | TunReadError
  | WireData int bytes
  | KeepaliveTick int int "bytes option" \<comment> \<open>tick, clock at the dead-link check, random bytes\<close>
  | InactiveTick int

datatype tun_out = ToWire bytes | ToTun bytes

subsection \<open>Forwarding\<close>

definition tunToWire :: "Proto \<Rightarrow> bytes \<Rightarrow> bytes option \<Rightarrow> errno option \<Rightarrow> tunnel \<Rightarrow> tunnel \<times> tun_out list" where
  "tunToWire proto pkt rnd werr t =
     (let plain = clampMSS (tn_mssFix t) (tn_mssFixMTU t) pkt in
      case Manager_Encrypt rnd (tn_manager t) plain of
        (None, m) \<Rightarrow> (t\<lparr>tn_manager := m\<rparr>, [])
      | (Some wire, m) \<Rightarrow>
          (let t1 = t\<lparr>tn_manager := m\<rparr> in
           case werr of
             Some e \<Rightarrow>
               (if proto = ProtoUDP \<and> isTransientLinkWriteError e then (t1\<lparr>tn_linkWriteUnavailable := True\<rparr>, [])
                else (t1\<lparr>tn_status := Down (TunWriteError e) True\<rparr>, []))
           | None \<Rightarrow>
               (t1\<lparr>tn_linkWriteUnavailable := False, tn_bytesSent := tn_bytesSent t1 + of_nat (length pkt)\<rparr>, [ToWire wire])))"

definition keepaliveMagic :: bytes where
  "keepaliveMagic = [0x2a, 0x18, 0x7b, 0xf3, 0x64, 0x1e, 0xb4, 0xcb, 0x07, 0xed, 0x2d, 0x0a, 0x98, 0x1f, 0xc7, 0x48]"

definition isKeepalive :: "bytes \<Rightarrow> bool" where
  "isKeepalive plain \<longleftrightarrow> length plain = length keepaliveMagic \<and> plain = keepaliveMagic"

definition wireToTun :: "int \<Rightarrow> bytes \<Rightarrow> tunnel \<Rightarrow> tunnel \<times> tun_out list" where
  "wireToTun now pkt t =
     (case Manager_Decrypt (tn_manager t) pkt of
        (Inl e, m) \<Rightarrow> (t\<lparr>tn_manager := m\<rparr>, [])
      | (Inr plain, m) \<Rightarrow>
          (let t1 = t\<lparr>tn_manager := m, tn_lastRecv := now\<rparr> in
           if isKeepalive plain then (t1, [])
           else let out = clampMSS (tn_mssFix t1) (tn_mssFixMTU t1) plain
             in (t1\<lparr>tn_bytesRecv := tn_bytesRecv t1 + of_nat (length out)\<rparr>, [ToTun out])))"

subsection \<open>Keepalive\<close>

definition duration :: "i64 \<Rightarrow> int" where "duration secs = sint (secs * Duration_Second)"

text \<open>\<^verbatim>\<open>time.NewTicker\<close> panics for an interval that is not positive; \<open>None\<close> is that panic.\<close>

definition keepalive_ticker :: "i64 \<Rightarrow> int option" where
  "keepalive_ticker pingInterval =
     (let pollInterval = (if 0 < sint pingInterval \<and> duration pingInterval < 1000000000 then duration pingInterval else 1000000000)
      in if pollInterval \<le> 0 then None else Some pollInterval)"

definition keepalive_start :: "int \<Rightarrow> i64 \<Rightarrow> int option" where
  "keepalive_start now pingInterval = (if 0 < sint pingInterval then Some (now + duration pingInterval) else None)"

text \<open>A probe is written with a deadline and its errors are ignored.\<close>

definition keepalive_send :: "i64 \<Rightarrow> int \<Rightarrow> bytes option \<Rightarrow> tunnel \<Rightarrow> tunnel \<times> tun_out list" where
  "keepalive_send pingInterval now rnd t =
     (if (case tn_nextSend t of None \<Rightarrow> True | Some at \<Rightarrow> at \<le> now)
      then (case Manager_Encrypt rnd (tn_manager t) keepaliveMagic of
              (res, m) \<Rightarrow> (t\<lparr>tn_manager := m, tn_nextSend := Some (now + duration pingInterval)\<rparr>,
                (case res of None \<Rightarrow> [] | Some wire \<Rightarrow> [ToWire wire])))
      else (t, []))"

definition keepalive_tick :: "tun_config \<Rightarrow> int \<Rightarrow> int \<Rightarrow> bytes option \<Rightarrow> tunnel \<Rightarrow> tunnel \<times> tun_out list" where
  "keepalive_tick c now clock rnd t =
     (case keepalive_send (tc_pingInterval c) now rnd t of
        (t1, out) \<Rightarrow>
          (if 0 < sint (tc_pingTimeout c) \<and> duration (tc_pingTimeout c) \<le> since clock (tn_lastRecv t1)
           then (t1\<lparr>tn_status := Down (if tc_pingExit c then PingExitTimeout (tc_pingTimeout c) else KeepaliveTimeout (tc_pingTimeout c))
                      (\<not> tc_pingExit c)\<rparr>, out)
           else (t1, out)))"

subsection \<open>Inactivity\<close>

definition inactive_start :: "int \<Rightarrow> tunnel \<Rightarrow> tunnel" where
  "inactive_start now t = t\<lparr>tn_windowStart := now, tn_startSent := tn_bytesSent t, tn_startRecv := tn_bytesRecv t\<rparr>"

definition inactive_expired :: "i64 \<Rightarrow> tunnel \<Rightarrow> bool" where
  "inactive_expired minBytes t \<longleftrightarrow>
     (let sent = tn_bytesSent t; recv = tn_bytesRecv t;
          totalFlow = (sent - tn_startSent t) + (recv - tn_startRecv t)
      in if minBytes = 0 then recv - tn_startRecv t = 0 else totalFlow < minBytes)"

definition inactive_tick :: "tun_config \<Rightarrow> int \<Rightarrow> tunnel \<Rightarrow> tunnel" where
  "inactive_tick c now t =
     (if since now (tn_windowStart t) < duration (tc_inactive c) then t
      else if inactive_expired (tc_minBytes c) t then t\<lparr>tn_status := Down (InactiveTimeout (tc_inactive c)) True\<rparr>
      else inactive_start now t)"

subsection \<open>Runs\<close>

fun tun_step :: "tun_config \<Rightarrow> tun_event \<Rightarrow> tunnel \<Rightarrow> tunnel \<times> tun_out list" where
  "tun_step c (TunRead pkt rnd werr) t = (if tn_reading t then tunToWire (tc_proto c) pkt rnd werr t else (t, []))"
| "tun_step c TunReadError t = (t\<lparr>tn_reading := False\<rparr>, [])"
| "tun_step c (WireData now pkt) t = wireToTun now pkt t"
| "tun_step c (KeepaliveTick now clock rnd) t = keepalive_tick c now clock rnd t"
| "tun_step c (InactiveTick now) t = (if 0 < sint (tc_inactive c) then inactive_tick c now t else t, [])"

fun tun_run :: "tun_config \<Rightarrow> tun_event list \<Rightarrow> tunnel \<Rightarrow> tunnel \<times> tun_out list" where
  "tun_run c [] t = (t, [])"
| "tun_run c (e # es) t =
     (if tn_status t \<noteq> Up then (t, [])
      else case tun_step c e t of (t1, out) \<Rightarrow> (case tun_run c es t1 of (t2, out') \<Rightarrow> (t2, out @ out')))"

subsection \<open>Durations\<close>

lemma seconds_exact:
  assumes "0 \<le> s" "s \<le> 9223372036"
  shows "sint (of_int s :: i64) = s" "duration (of_int s) = s * 10 ^ 9"
proof -
  show "sint (of_int s :: i64) = s" using assms by (simp add: sint_sbintrunc' signed_take_bit_int_eq_self)
  have "(of_int s :: i64) * Duration_Second = of_int (s * 10 ^ 9)" by (simp add: Duration_Second_def)
  then show "duration (of_int s) = s * 10 ^ 9"
    unfolding duration_def using assms by (simp only: sint_sbintrunc') (simp add: signed_take_bit_int_eq_self)
qed

lemma since_ge: "d \<le> 2 ^ 63 - 1 \<Longrightarrow> - (2 ^ 63) < d \<Longrightarrow> d \<le> since now t \<longleftrightarrow> d \<le> now - t"
  by (auto simp: since_def)

lemma since_seconds:
  assumes "0 \<le> s" "s \<le> 9223372036"
  shows "duration (of_int s) \<le> since now t \<longleftrightarrow> s * 10 ^ 9 \<le> now - t"
  using assms by (simp add: seconds_exact since_ge)

subsection \<open>Forwarding between two ends\<close>

lemma mgr_matched_Suc: "mgr_matched (Suc n) a b \<Longrightarrow> mgr_matched n a b"
proof -
  have "matched (Suc n) x y \<Longrightarrow> matched n x y" for x y by (simp add: matched_def)
  then show "mgr_matched (Suc n) a b \<Longrightarrow> mgr_matched n a b" unfolding mgr_matched_def by metis
qed

text \<open>For each job (random IV, packet, whether the path delivers it, time of arrival) one end reads the packet from its TUN
  device and the other processes what arrives; the result is what the other end writes to its TUN device.\<close>

fun tunnel_run :: "Proto \<Rightarrow> tunnel \<Rightarrow> tunnel \<Rightarrow> (bytes \<times> bytes \<times> bool \<times> int) list \<Rightarrow> tun_out list" where
  "tunnel_run proto a b [] = []"
| "tunnel_run proto a b ((iv, pkt, arrives, now) # js) =
     (case tunToWire proto pkt (Some iv) None a of
        (a', [ToWire wire]) \<Rightarrow>
          (if arrives then (case wireToTun now wire b of (b', out) \<Rightarrow> out @ tunnel_run proto a' b' js)
           else tunnel_run proto a' b js)
      | (a', _) \<Rightarrow> tunnel_run proto a' b js)"

definition clamp_of :: "tunnel \<Rightarrow> bytes \<Rightarrow> bytes" where
  "clamp_of t = clampMSS (tn_mssFix t) (tn_mssFixMTU t)"

fun forwarded :: "tunnel \<Rightarrow> tunnel \<Rightarrow> bytes \<times> bytes \<times> bool \<times> int \<Rightarrow> tun_out list" where
  "forwarded a b (iv, pkt, arrives, now) =
     (if arrives \<and> \<not> isKeepalive (clamp_of a pkt) then [ToTun (clamp_of b (clamp_of a pkt))] else [])"

lemma tunToWire_sent:
  assumes "fst (Manager_Encrypt rnd (tn_manager a) (clamp_of a pkt)) = Some wire"
  shows "tunToWire proto pkt rnd None a =
     (a\<lparr>tn_manager := snd (Manager_Encrypt rnd (tn_manager a) (clamp_of a pkt)), tn_linkWriteUnavailable := False,
        tn_bytesSent := tn_bytesSent a + of_nat (length pkt)\<rparr>, [ToWire wire])"
  using assms by (cases "Manager_Encrypt rnd (tn_manager a) (clamp_of a pkt)") (simp add: tunToWire_def clamp_of_def Let_def)

lemma wireToTun_plain:
  assumes "fst (Manager_Decrypt (tn_manager b) wire) = Inr plain"
  shows "snd (wireToTun now wire b) = (if isKeepalive plain then [] else [ToTun (clamp_of b plain)])"
    "tn_manager (fst (wireToTun now wire b)) = snd (Manager_Decrypt (tn_manager b) wire)"
    "clamp_of (fst (wireToTun now wire b)) = clamp_of b" "tn_lastRecv (fst (wireToTun now wire b)) = now"
  using assms by (cases "Manager_Decrypt (tn_manager b) wire"; simp add: wireToTun_def clamp_of_def Let_def)+

lemma tunnel_run_forwards:
  assumes "mgr_matched (length js) (tn_manager a) (tn_manager b)" "\<forall>(iv, pkt, arrives, now) \<in> set js. length iv = 16"
  shows "tunnel_run proto a b js = concat (map (forwarded a b) js)"
  using assms
proof (induction js arbitrary: a b)
  case (Cons j js)
  obtain iv pkt arr now where j: "j = (iv, pkt, arr, now)" by (cases j) auto
  let ?p = "clamp_of a pkt"
  have m: "mgr_matched (Suc (length js)) (tn_manager a) (tn_manager b)" and iv: "length iv = 16" using Cons.prems j by auto
  obtain wire where w: "fst (Manager_Encrypt (Some iv) (tn_manager a) ?p) = Some wire" using mgr_epoch.sends [OF m iv] by auto
  define a' where "a' = fst (tunToWire proto pkt (Some iv) None a)"
  have a': "tunToWire proto pkt (Some iv) None a = (a', [ToWire wire])" "tn_manager a' = snd (Manager_Encrypt (Some iv) (tn_manager a) ?p)"
    "clamp_of a' = clamp_of a"
    by (simp_all add: a'_def tunToWire_sent [OF w] clamp_of_def)
  have d: "fst (Manager_Decrypt (tn_manager b) wire) = Inr ?p"
    "mgr_matched (length js) (tn_manager a') (snd (Manager_Decrypt (tn_manager b) wire))"
    using mgr_epoch.delivers [OF m iv w] a'(2) by simp_all
  have l: "mgr_matched (length js) (tn_manager a') (tn_manager b)" using mgr_epoch.loses [OF m] a'(2) by simp
  have f: "forwarded a' b = forwarded a b" "\<And>b'. clamp_of b' = clamp_of b \<Longrightarrow> forwarded a' b' = forwarded a b"
    using a'(3) by (auto simp: fun_eq_iff)
  show ?case
  proof (cases arr)
    case True
    obtain b' out where b': "wireToTun now wire b = (b', out)" by fastforce
    note wt = wireToTun_plain [OF d(1), of now, unfolded b' fst_conv snd_conv]
    have "tunnel_run proto a' b' js = concat (map (forwarded a b) js)"
      using Cons.IH [of a' b'] d(2) wt(2,3) f(2) Cons.prems(2) by simp
    then show ?thesis using True j a'(1) b' wt(1) by simp
  next
    case False
    then show ?thesis using Cons.IH [of a' b] l f(1) Cons.prems(2) j a'(1) by simp
  qed
qed simp

subsection \<open>Dead links\<close>

lemma clampless [simp]: "tn_status (fst (wireToTun now pkt t)) = tn_status t"
  by (auto simp: wireToTun_def Let_def split: prod.splits sum.splits)

lemma keepalive_send_keeps [simp]:
  "tn_status (fst (keepalive_send i now rnd t)) = tn_status t" "tn_lastRecv (fst (keepalive_send i now rnd t)) = tn_lastRecv t"
  by (auto simp: keepalive_send_def split: prod.splits option.splits)

lemma keepalive_tick_status:
  assumes "tc_pingTimeout c = of_int s" "0 < s" "s \<le> 9223372036"
  shows "tn_status (fst (keepalive_tick c now clock rnd t)) =
     (if s * 10 ^ 9 \<le> clock - tn_lastRecv t then Down (if tc_pingExit c then PingExitTimeout (of_int s) else KeepaliveTimeout (of_int s)) (\<not> tc_pingExit c)
      else tn_status t)"
    "tn_lastRecv (fst (keepalive_tick c now clock rnd t)) = tn_lastRecv t"
proof -
  obtain t1 out where t1: "keepalive_send (tc_pingInterval c) now rnd t = (t1, out)" by fastforce
  then have "tn_status t1 = tn_status t" "tn_lastRecv t1 = tn_lastRecv t"
    using keepalive_send_keeps [of "tc_pingInterval c" now rnd t] by simp_all
  moreover have "sint (of_int s :: i64) = s" "duration (of_int s) \<le> since clock (tn_lastRecv t) \<longleftrightarrow> s * 10 ^ 9 \<le> clock - tn_lastRecv t"
    using assms(2,3) by (simp_all add: seconds_exact(1) since_seconds)
  ultimately show "tn_status (fst (keepalive_tick c now clock rnd t)) =
     (if s * 10 ^ 9 \<le> clock - tn_lastRecv t then Down (if tc_pingExit c then PingExitTimeout (of_int s) else KeepaliveTimeout (of_int s)) (\<not> tc_pingExit c)
      else tn_status t)"
    "tn_lastRecv (fst (keepalive_tick c now clock rnd t)) = tn_lastRecv t"
    using assms(1,2) t1 by (simp_all add: keepalive_tick_def)
qed

lemma tunToWire_lastRecv [simp]: "tn_lastRecv (fst (tunToWire proto pkt rnd werr t)) = tn_lastRecv t"
  by (auto simp: tunToWire_def Let_def split: prod.splits option.splits)

lemma inactive_lastRecv [simp]: "tn_lastRecv (inactive_tick c now t) = tn_lastRecv t"
  by (simp add: inactive_tick_def inactive_start_def)

text \<open>What a run makes of the time of the last packet: events after time \<open>L\<close> never set it back to \<open>L\<close>.\<close>

lemma step_lastRecv:
  "tn_lastRecv (fst (tun_step c e t)) = tn_lastRecv t \<or> (\<exists>now pkt. e = WireData now pkt \<and> tn_lastRecv (fst (tun_step c e t)) = now)"
proof (cases e)
  case (KeepaliveTick now clock rnd)
  obtain t1 out where "keepalive_send (tc_pingInterval c) now rnd t = (t1, out)" by fastforce
  then show ?thesis using KeepaliveTick keepalive_send_keeps(2) [of "tc_pingInterval c" now rnd t] by (simp add: keepalive_tick_def)
qed (auto simp: wireToTun_def Let_def split: prod.splits sum.splits)

lemma run_Cons_fst: "tn_status t = Up \<Longrightarrow> fst (tun_run c (e # es) t) = fst (tun_run c es (fst (tun_step c e t)))"
  by (simp split: prod.splits)

lemma run_down [simp]: "tn_status t \<noteq> Up \<Longrightarrow> tun_run c es t = (t, [])"
  by (cases es) simp_all

definition wire_after :: "int \<Rightarrow> tun_event list \<Rightarrow> bool" where
  "wire_after L es \<longleftrightarrow> (\<forall>now pkt. WireData now pkt \<in> set es \<longrightarrow> L < now)"

lemma wire_after_Cons: "wire_after L (e # es) \<Longrightarrow> wire_after L es"
  by (simp add: wire_after_def)

lemma step_after: "wire_after L (e # es) \<Longrightarrow> tn_lastRecv (fst (tun_step c e t)) = tn_lastRecv t \<or> L < tn_lastRecv (fst (tun_step c e t))"
  using step_lastRecv [of c e t] unfolding wire_after_def by (metis list.set_intros(1))

lemma run_lastRecv_mono:
  assumes "wire_after L es" "L < tn_lastRecv t"
  shows "L < tn_lastRecv (fst (tun_run c es t))"
  using assms
proof (induction es arbitrary: t)
  case (Cons e es)
  have "L < tn_lastRecv (fst (tun_step c e t))" using step_after [OF Cons.prems(1), of c t] Cons.prems(2) by auto
  then show ?case
    using Cons.IH [OF wire_after_Cons [OF Cons.prems(1)]] run_Cons_fst [of t c e es] Cons.prems(2) by (cases "tn_status t = Up") simp_all
qed simp

lemma silent_link_ends:
  assumes "tc_pingTimeout c = of_int s" "0 < s" "s \<le> 9223372036"
    and "wire_after (tn_lastRecv t) es"
    and "tn_lastRecv (fst (tun_run c es t)) = tn_lastRecv t"
    and "KeepaliveTick now clock rnd \<in> set es" "tn_lastRecv t + s * 10 ^ 9 \<le> clock"
  shows "tn_status (fst (tun_run c es t)) \<noteq> Up"
  using assms(4-)
proof (induction es arbitrary: t)
  case (Cons e es)
  let ?t = "fst (tun_step c e t)"
  show ?case
  proof (cases "tn_status t = Up")
    case up: True
    have "tn_lastRecv ?t = tn_lastRecv t"
    proof (rule ccontr)
      assume "tn_lastRecv ?t \<noteq> tn_lastRecv t"
      then have "tn_lastRecv t < tn_lastRecv ?t" using step_after [OF Cons.prems(1), of c t] by simp
      then have "tn_lastRecv t < tn_lastRecv (fst (tun_run c es ?t))"
        using wire_after_Cons [OF Cons.prems(1)] by (intro run_lastRecv_mono)
      then show False using Cons.prems(2) run_Cons_fst [OF up, of c e es] by simp
    qed
    note same = this
    show ?thesis
    proof (cases "e = KeepaliveTick now clock rnd")
      case True
      then have "tn_status ?t \<noteq> Up" using keepalive_tick_status(1) [OF assms(1-3)] Cons.prems(4) by simp
      then show ?thesis using run_Cons_fst [OF up] by simp
    next
      case False
      then have "tn_status (fst (tun_run c es ?t)) \<noteq> Up"
        using Cons.IH [of ?t] wire_after_Cons [OF Cons.prems(1)] Cons.prems(2-) same run_Cons_fst [OF up, of c e es] by simp
      then show ?thesis using run_Cons_fst [OF up] by simp
    qed
  qed simp
qed simp

text \<open>And a link on which something arrives in time is never given up by the keepalive timer.\<close>

definition keepalive_down :: "tun_status \<Rightarrow> bool" where
  "keepalive_down st \<longleftrightarrow> (\<exists>s p. st = Down (KeepaliveTimeout s) p \<or> st = Down (PingExitTimeout s) p)"

lemma step_keepalive_down:
  assumes "tc_pingTimeout c = of_int s" "0 < s" "s \<le> 9223372036" "tn_status t = Up" "keepalive_down (tn_status (fst (tun_step c e t)))"
  shows "\<exists>now clock rnd. e = KeepaliveTick now clock rnd \<and> tn_lastRecv t + s * 10 ^ 9 \<le> clock"
proof (cases e)
  case (KeepaliveTick now clock rnd)
  then show ?thesis using assms keepalive_tick_status(1) [OF assms(1-3), of now clock rnd t]
    by (auto simp: keepalive_down_def split: if_splits)
qed (use assms in \<open>auto simp: keepalive_down_def tunToWire_def inactive_tick_def inactive_start_def Let_def split: prod.splits option.splits if_splits\<close>)

lemma run_keepalive_down:
  assumes "tc_pingTimeout c = of_int s" "0 < s" "s \<le> 9223372036" "tn_status t = Up" "keepalive_down (tn_status (fst (tun_run c es t)))"
  shows "\<exists>es1 now clock rnd es2. es = es1 @ KeepaliveTick now clock rnd # es2 \<and> tn_lastRecv (fst (tun_run c es1 t)) + s * 10 ^ 9 \<le> clock"
  using assms(4,5)
proof (induction es arbitrary: t)
  case Nil
  then show ?case by (simp add: keepalive_down_def)
next
  case (Cons e es)
  let ?t = "fst (tun_step c e t)"
  have d: "keepalive_down (tn_status (fst (tun_run c es ?t)))" using Cons.prems run_Cons_fst [OF Cons.prems(1), of c e es] by simp
  show ?case
  proof (cases "tn_status ?t = Up")
    case True
    then obtain es1 now clock rnd es2 where "es = es1 @ KeepaliveTick now clock rnd # es2"
      "tn_lastRecv (fst (tun_run c es1 ?t)) + s * 10 ^ 9 \<le> clock"
      using Cons.IH [OF True d] by blast
    then have "e # es = (e # es1) @ KeepaliveTick now clock rnd # es2 \<and>
        tn_lastRecv (fst (tun_run c (e # es1) t)) + s * 10 ^ 9 \<le> clock"
      using run_Cons_fst [OF Cons.prems(1), of c e es1] by simp
    then show ?thesis by blast
  next
    case False
    then obtain now clock rnd where "e = KeepaliveTick now clock rnd" "tn_lastRecv t + s * 10 ^ 9 \<le> clock"
      using step_keepalive_down [OF assms(1-3) Cons.prems(1), of e] d by auto
    then have "e # es = [] @ KeepaliveTick now clock rnd # es \<and> tn_lastRecv (fst (tun_run c [] t)) + s * 10 ^ 9 \<le> clock" by simp
    then show ?thesis by blast
  qed
qed

subsection \<open>Inactivity over a run\<close>

definition outbound :: "tun_event \<Rightarrow> bool" where
  "outbound e \<longleftrightarrow> (case e of WireData _ _ \<Rightarrow> False | InactiveTick _ \<Rightarrow> False | _ \<Rightarrow> True)"

lemma outbound_step:
  assumes "outbound e"
  shows "tn_bytesRecv (fst (tun_step c e t)) = tn_bytesRecv t \<and> tn_startRecv (fst (tun_step c e t)) = tn_startRecv t \<and>
    tn_windowStart (fst (tun_step c e t)) = tn_windowStart t"
  using assms
  by (cases e) (auto simp: outbound_def tunToWire_def keepalive_tick_def keepalive_send_def Let_def split: prod.splits option.splits)

lemma outbound_run:
  assumes "list_all outbound es"
  shows "tn_bytesRecv (fst (tun_run c es t)) = tn_bytesRecv t \<and> tn_startRecv (fst (tun_run c es t)) = tn_startRecv t \<and>
    tn_windowStart (fst (tun_run c es t)) = tn_windowStart t"
  using assms
proof (induction es arbitrary: t)
  case (Cons e es)
  then show ?case using Cons.IH [of "fst (tun_step c e t)"] outbound_step [of e c t] run_Cons_fst [of t c e es]
    by (cases "tn_status t = Up") simp_all
qed simp

lemma run_append: "fst (tun_run c (es @ fs) t) = fst (tun_run c fs (fst (tun_run c es t)))"
proof (induction es arbitrary: t)
  case (Cons e es)
  then show ?case using run_Cons_fst [of t c e] by (cases "tn_status t = Up") simp_all
qed simp

lemma inactive_tick_due:
  assumes "tc_inactive c = of_int s" "0 < s" "s \<le> 9223372036" "s * 10 ^ 9 \<le> now - tn_windowStart t"
  shows "fst (tun_step c (InactiveTick now) t) =
     (if inactive_expired (tc_minBytes c) t then t\<lparr>tn_status := Down (InactiveTimeout (tc_inactive c)) True\<rparr> else inactive_start now t)"
proof -
  have "0 < sint (tc_inactive c)" using assms by (simp add: seconds_exact(1))
  moreover have "\<not> since now (tn_windowStart t) < duration (tc_inactive c)"
    using since_seconds [of s now "tn_windowStart t"] assms by (simp add: not_less)
  ultimately show ?thesis by (simp add: inactive_tick_def)
qed

subsection \<open>Properties\<close>

text \<open>C4 (tunnel delivery).  Between two ends whose key managers match, every packet read from one TUN device that the path
  delivers is written to the other TUN device, in order, after both ends clamped its MSS, unless it equals the
  keepalive payload.  A keepalive probe that arrives is not written to the device but resets the dead-link timer.\<close>

theorem tunnel_delivery:
  assumes "mgr_matched (Suc (length js)) (tn_manager a) (tn_manager b)" "\<forall>(iv, pkt, arrives, now) \<in> set js. length iv = 16" "length iv = 16"
  shows "tunnel_run proto a b js = concat (map (forwarded a b) js) \<and>
    (\<forall>at now t. tn_nextSend a = Some at \<longrightarrow> at \<le> now \<longrightarrow>
      (\<exists>wire. snd (keepalive_send i now (Some iv) a) = [ToWire wire] \<and>
        snd (wireToTun t wire b) = [] \<and> tn_lastRecv (fst (wireToTun t wire b)) = t))"
proof (intro conjI allI impI)
  have "mgr_matched (length js) (tn_manager a) (tn_manager b)" using assms(1) by (rule mgr_matched_Suc)
  then show "tunnel_run proto a b js = concat (map (forwarded a b) js)" using assms(2) by (rule tunnel_run_forwards)
  fix at now t
  assume "tn_nextSend a = Some at" "at \<le> now"
  obtain wire m where w: "Manager_Encrypt (Some iv) (tn_manager a) keepaliveMagic = (Some wire, m)"
    using mgr_epoch.sends [OF assms(1,3)] by (metis prod.collapse)
  then have "fst (Manager_Decrypt (tn_manager b) wire) = Inr keepaliveMagic" using mgr_epoch.delivers [OF assms(1,3)] by simp
  then have "snd (wireToTun t wire b) = []" "tn_lastRecv (fst (wireToTun t wire b)) = t"
    using wireToTun_plain by (simp_all add: isKeepalive_def)
  moreover have "snd (keepalive_send i now (Some iv) a) = [ToWire wire]"
    using w \<open>tn_nextSend a = Some at\<close> \<open>at \<le> now\<close> by (simp add: keepalive_send_def)
  ultimately show "\<exists>wire. snd (keepalive_send i now (Some iv) a) = [ToWire wire] \<and>
        snd (wireToTun t wire b) = [] \<and> tn_lastRecv (fst (wireToTun t wire b)) = t" by blast
qed

definition sample_tunnel :: tunnel where
  "sample_tunnel = \<lparr>tn_manager = NewManager 0 zero_channel None, tn_mssFix = 0, tn_mssFixMTU = 0, tn_bytesSent = 0, tn_bytesRecv = 0,
     tn_lastRecv = 0, tn_reading = True, tn_linkWriteUnavailable = False, tn_nextSend = Some 10000000000, tn_windowStart = 0,
     tn_startSent = 0, tn_startRecv = 0, tn_status = Up\<rparr>"

theorem tunnel_delivery_witness:
  "tunnel_run ProtoUDP sample_tunnel sample_tunnel [(replicate 16 1, [0x45, 0], True, 1), (replicate 16 2, [0x45, 1], False, 2)] =
     [ToTun [0x45, 0]]"
proof -
  have m: "mgr_matched 3 (tn_manager sample_tunnel) (tn_manager sample_tunnel)"
    using zero_manager_matched [of 3 None 0] by (simp add: sample_tunnel_def)
  have "clamp_of sample_tunnel [0x45, x] = [0x45, x]" for x by (simp add: clamp_of_def clampMSS_def ClampToMTU_def sample_tunnel_def)
  then show ?thesis
    using tunnel_delivery [of "[(replicate 16 1, [0x45, 0], True, 1), (replicate 16 2, [0x45, 1], False, 2)]" sample_tunnel sample_tunnel
        "replicate 16 0" ProtoUDP 10] m
    by (simp add: isKeepalive_def keepaliveMagic_def numeral_3_eq_3 del: tunnel_run.simps)
qed


definition sample_config :: tun_config where
  "sample_config = \<lparr>tc_proto = ProtoUDP, tc_pingInterval = 10, tc_pingTimeout = 60, tc_pingExit = False, tc_inactive = 0, tc_minBytes = 0\<rparr>"


lemma scan_huge: "Sscanf_d ''9223372037'' = Some 9223372037"
  by (simp add: Sscanf_d_def signed_def digits_val_def digit_val_def is_space_def is_digit_def code_def Let_def)

lemma huge_ping_reply:
  "ParsePushReply ''PUSH_REPLY,ping 9223372037,ping-restart 9223372037'' =
     Inr (zero_options\<lparr>po_PingInterval := 9223372037, po_PingRestart := 9223372037\<rparr>)"
proof -
  have "push_split ''PUSH_REPLY,ping 9223372037,ping-restart 9223372037'' = [''ping 9223372037'', ''ping-restart 9223372037'']"
    "Fields (TrimSpace ''ping 9223372037'') = [''ping'', ''9223372037'']"
    "Fields (TrimSpace ''ping-restart 9223372037'') = [''ping-restart'', ''9223372037'']"
    "ToLower ''ping'' = ''ping''" "ToLower ''ping-restart'' = ''ping-restart''" by code_simp+
  moreover have "po_Ifconfig zero_options = None" "po_PingExit zero_options = 0" by (simp_all add: zero_options_def)
  ultimately show ?thesis
    by (simp add: ParsePushReply_def push_field_def push_directive_def push_ping_def push_ping_restart_def scan_into_def scan_huge
        set_restart_def apply_route_gateway_def Let_def)
qed

text \<open>(keepalive overflow).  For a number of seconds up to 9223372036 the ticker runs once a second.  The next number, which a
  server can push with \<^verbatim>\<open>ping\<close> or \<^verbatim>\<open>ping-restart\<close>, wraps to a negative duration: as an interval it makes
  \<^verbatim>\<open>time.NewTicker\<close> panic, as a timeout it ends the session at the first tick.\<close>

theorem keepalive_overflow:
  "(0 < s \<and> s \<le> 9223372036 \<longrightarrow> keepalive_ticker (of_int s) = Some 1000000000) \<and>
   (case ParsePushReply ''PUSH_REPLY,ping 9223372037,ping-restart 9223372037'' of
      Inl e \<Rightarrow> False
    | Inr push \<Rightarrow>
        (case effectiveKeepalive default_profile push of
           (interval, timeout, pingExit) \<Rightarrow>
             keepalive_ticker (of_int interval) = None \<and>
             (\<forall>c t now clock rnd. tc_pingTimeout c = of_int timeout \<longrightarrow> tn_lastRecv t \<le> clock \<longrightarrow>
               tn_status (fst (tun_step c (KeepaliveTick now clock rnd) t)) \<noteq> Up)))"
proof -
  have "keepalive_ticker (of_int s) = Some 1000000000" if "0 < s" "s \<le> 9223372036"
    using that by (simp add: keepalive_ticker_def seconds_exact Let_def)
  moreover have "effectiveKeepalive default_profile (zero_options\<lparr>po_PingInterval := 9223372037, po_PingRestart := 9223372037\<rparr>) =
      (9223372037, 9223372037, False)" by (simp add: effectiveKeepalive_def zero_options_def Let_def default_profile_def)
  moreover have "keepalive_ticker (of_int 9223372037) = None"
    by (simp add: keepalive_ticker_def duration_def Duration_Second_def Let_def)
  moreover have "tn_status (fst (tun_step c (KeepaliveTick now clock rnd) t)) \<noteq> Up"
    if "tc_pingTimeout c = of_int 9223372037" "tn_lastRecv t \<le> clock" for c t now clock rnd
  proof -
    obtain t1 out where t1: "keepalive_send (tc_pingInterval c) now rnd t = (t1, out)" by fastforce
    then have "tn_lastRecv t1 = tn_lastRecv t" using keepalive_send_keeps(2) [of "tc_pingInterval c" now rnd t] by simp
    moreover have "0 < sint (9223372037 :: i64)" "duration 9223372037 \<le> 0" by (simp_all add: duration_def Duration_Second_def)
    moreover have "0 \<le> since clock (tn_lastRecv t)" using that(2) by (simp add: since_def)
    ultimately show ?thesis using that(1) t1 by (simp add: keepalive_tick_def)
  qed
  ultimately show ?thesis by (simp add: huge_ping_reply del: tun_step.simps)
qed

theorem keepalive_overflow_witness: "keepalive_ticker 10 = Some 1000000000"
  using keepalive_overflow [of 10] by auto

text \<open>(inactivity).  Once the window of \<open>s\<close> seconds is over, a session without a byte threshold ends when nothing was received,
  whatever was sent; one byte received starts a new window.  With a threshold, traffic sent counts too.\<close>

theorem inactive_timeout:
  assumes "tc_inactive c = of_int s" "0 < s" "s \<le> 9223372036" "s * 10 ^ 9 \<le> now - tn_windowStart t" "tn_status t = Up"
    and "tn_startRecv t = tn_bytesRecv t" "list_all outbound es"
  shows "(tc_minBytes c = 0 \<longrightarrow> tn_status (fst (tun_run c (es @ [InactiveTick now]) t)) \<noteq> Up) \<and>
    (tc_minBytes c = 0 \<and> r \<noteq> 0 \<longrightarrow>
      fst (tun_step c (InactiveTick now) (t\<lparr>tn_bytesRecv := tn_bytesRecv t + r\<rparr>)) = inactive_start now (t\<lparr>tn_bytesRecv := tn_bytesRecv t + r\<rparr>)) \<and>
    (0 < tc_minBytes c \<longrightarrow>
      (tn_status (fst (tun_step c (InactiveTick now) (t\<lparr>tn_bytesSent := tn_startSent t + n\<rparr>))) = Up \<longleftrightarrow> tc_minBytes c \<le> n))"
proof (intro conjI impI)
  note due = inactive_tick_due [OF assms(1-3)]
  { assume m: "tc_minBytes c = 0"
    let ?t = "fst (tun_run c es t)"
    have k: "tn_bytesRecv ?t = tn_bytesRecv t" "tn_startRecv ?t = tn_startRecv t" "tn_windowStart ?t = tn_windowStart t"
      using outbound_run [OF assms(7), of c t] by simp_all
    then have "tn_status (fst (tun_step c (InactiveTick now) ?t)) \<noteq> Up"
      using due [of now ?t] assms(4,6) m by (simp add: inactive_expired_def Let_def)
    then show "tn_status (fst (tun_run c (es @ [InactiveTick now]) t)) \<noteq> Up"
      by (cases "tn_status ?t = Up") (simp_all add: run_append run_Cons_fst del: tun_step.simps tun_run.simps(2)) }
  { assume "tc_minBytes c = 0 \<and> r \<noteq> 0"
    then show "fst (tun_step c (InactiveTick now) (t\<lparr>tn_bytesRecv := tn_bytesRecv t + r\<rparr>)) = inactive_start now (t\<lparr>tn_bytesRecv := tn_bytesRecv t + r\<rparr>)"
      using due [of now "t\<lparr>tn_bytesRecv := tn_bytesRecv t + r\<rparr>"] assms(4,6) by (simp add: inactive_expired_def Let_def) }
  { assume "0 < tc_minBytes c"
    then show "tn_status (fst (tun_step c (InactiveTick now) (t\<lparr>tn_bytesSent := tn_startSent t + n\<rparr>))) = Up \<longleftrightarrow> tc_minBytes c \<le> n"
      using due [of now "t\<lparr>tn_bytesSent := tn_startSent t + n\<rparr>"] assms(4-6) by (auto simp: inactive_expired_def inactive_start_def Let_def) }
qed

theorem inactive_timeout_witness:
  "tn_status (fst (tun_run (sample_config\<lparr>tc_inactive := 5\<rparr>)
     ([TunRead [0x45] (Some (replicate 16 0)) None] @ [InactiveTick 5000000000]) sample_tunnel)) \<noteq> Up"
  using inactive_timeout [of "sample_config\<lparr>tc_inactive := 5\<rparr>" 5 5000000000 sample_tunnel "[TunRead [0x45] (Some (replicate 16 0)) None]"]
  by (simp add: sample_config_def sample_tunnel_def outbound_def del: tun_run.simps append.simps)

end
