(* ===== verification/Lifecycle.thy ===== *)
theory Lifecycle
  imports Auth_Exchange Tunnel Saml_Token Dns
begin

section \<open>The client and its life cycle\<close>

text \<open>
  Models the state of \<^verbatim>\<open>Client\<close> in \<^verbatim>\<open>client.go\<close> and the operations that move it through its life cycle: \<open>Connect\<close> with its two
  phases, \<open>disconnect\<close> with the teardown goroutine, \<open>setDisconnected\<close>, \<open>reset\<close>, \<open>Reconnect\<close>, \<open>SetRelayPhase2\<close> and the
  end of a session.  An operation is a function on the client that also returns an error or a result.  What happens
  outside the process during one connection attempt (dial, random numbers, the packets that arrive, the TLS session
  and the records the server sends, the TUN device) is a record \<open>link\<close>.  \<open>cl_conns\<close> lists the sockets that are open,
  \<open>cl_authLog\<close> the credentials sent, \<open>cl_dialLog\<close> the addresses dialled; they exist for the statements.  A panic of the
  process is the error \<open>Panic\<close>.
\<close>

subsection \<open>State\<close>

datatype cstate = stateNew | stateConnecting | stateTunnelUp | stateDisconnecting | stateDisconnected

datatype client_state =
  StateIdle | StateConnecting | StateWaitingSAML | StateConnected | StateDisconnecting | StateError | StateReauthRequired

datatype client_error =
    BadState cstate | NoChallenge | DialFailed | RandSessionID | ResetExchange retry_error | UnexpectedReset | AckFailed frame_error
  | TLSFailed | AuthSend auth_error | ServerAuth server_auth_error | PushRequest io_error | ControlMsg saml_error
  | UnexpectedKind MsgKind | CredentialsRejected | PushParse push_error | DnsParse dns_error | KeyExport | KeyDerivationErr session_error
  | ChannelInit session_error | TunSetup
  | MissingTokenFn | TokenFnFailed | UnexpectedChallenge | ErrReauthRequired | ExceededAttempts int | ContextDone
  | SessionEnded saml_error | SessionDown down_reason | Panic string

record tls_session =
  ts_ekm :: "bytes option" \<comment> \<open>the RFC 5705 exporter, \<open>None\<close> its error\<close>
  ts_keylog :: "string list" \<comment> \<open>lines written to the key log\<close>

record Client =
  cl_prof :: Profile
  cl_state :: cstate
  cl_rawConn :: "nat option"
  cl_conns :: "nat list"
  cl_remote :: net_addr
  cl_tlsConn :: "tls_session option"
  cl_tlsRW :: "Saml.reader option"
  cl_challenge :: "Challenge option"
  cl_phase1IP :: string
  cl_clientSID :: bytes
  cl_serverSID :: bytes
  cl_sendSeq :: u32
  cl_recvExp :: u32
  cl_manager :: "Manager option"
  cl_peerID :: u32
  cl_tunDev :: bool
  cl_pushOpts :: "PushOptions option"
  cl_dnsOpts :: "dns_Config option"
  cl_dataCh :: bool
  cl_mssFix :: int
  cl_mssFixMTU :: int
  cl_nextKeyID :: byte
  cl_connectedAt :: "int option"
  cl_goroutines :: "string list"
  cl_cancelFn :: bool
  cl_doneErr :: "client_error option"
  cl_doneClosed :: bool
  cl_clearOnCleanup :: bool
  cl_reauthRequired :: bool
  cl_awsFormat :: bool
  cl_MaxReconnects :: int
  cl_cachedSAMLToken :: string
  cl_cachedSAMLExpiry :: int
  cl_cachedStateID :: string
  cl_cachedPhase1IP :: string
  cl_reconnectCount :: nat
  cl_lastRecv :: int
  cl_tlsSecrets :: "tlsSecretCapture option"
  cl_authLog :: "(string \<times> string) list"
  cl_dialLog :: "string list"
  cl_events :: "client_state list"

definition New_Client :: "Profile \<Rightarrow> Client" where
  "New_Client p =
     \<lparr>cl_prof = p, cl_state = stateNew, cl_rawConn = None, cl_conns = [], cl_remote = NilAddr, cl_tlsConn = None, cl_tlsRW = None,
      cl_challenge = None, cl_phase1IP = [], cl_clientSID = replicate 8 0, cl_serverSID = replicate 8 0, cl_sendSeq = 0, cl_recvExp = 0,
      cl_manager = None, cl_peerID = 0, cl_tunDev = False, cl_pushOpts = None, cl_dnsOpts = None, cl_dataCh = False,
      cl_mssFix = 0, cl_mssFixMTU = 0, cl_nextKeyID = 1, cl_connectedAt = None, cl_goroutines = [], cl_cancelFn = False,
      cl_doneErr = None, cl_doneClosed = False, cl_clearOnCleanup = False, cl_reauthRequired = False, cl_awsFormat = False,
      cl_MaxReconnects = 0, cl_cachedSAMLToken = [], cl_cachedSAMLExpiry = zero_time, cl_cachedStateID = [], cl_cachedPhase1IP = [],
      cl_reconnectCount = 0, cl_lastRecv = 0, cl_tlsSecrets = None, cl_authLog = [], cl_dialLog = [], cl_events = []\<rparr>"

text \<open>One connection attempt as the client sees it.\<close>

record link =
  lk_label :: "bytes option"
  lk_dial :: "(nat \<times> net_addr) option"
  lk_sid :: "bytes option"
  lk_write_err :: "nat \<Rightarrow> frame_error option"
  lk_start :: int
  lk_arrivals :: "arrival list"
  lk_ack_err :: "frame_error option"
  lk_tls :: "tls_session option"
  lk_rnd :: "bytes option"
  lk_auth_err :: "io_error option"
  lk_records :: tls_reader
  lk_push_err :: "io_error option"
  lk_tun_ok :: bool
  lk_owns :: bool \<comment> \<open>setting up the device recorded routes or DNS settings to watch\<close>
  lk_now :: int

subsection \<open>Tearing down\<close>

definition emit :: "client_state \<Rightarrow> Client \<Rightarrow> Client" where
  "emit s c = c\<lparr>cl_events := cl_events c @ [s]\<rparr>"

definition clearCredentialsLocked :: "Client \<Rightarrow> Client" where
  "clearCredentialsLocked c =
     c\<lparr>cl_cachedSAMLToken := [], cl_cachedSAMLExpiry := zero_time, cl_cachedStateID := [], cl_cachedPhase1IP := [], cl_challenge := None,
       cl_pushOpts := map_option (\<lambda>po. po\<lparr>po_AuthToken := []\<rparr>) (cl_pushOpts c), cl_tlsSecrets := None\<rparr>"

definition setDisconnected :: "client_error \<Rightarrow> Client \<Rightarrow> Client" where
  "setDisconnected err c =
     (if cl_state c = stateDisconnected then c
      else let c1 = c\<lparr>cl_state := stateDisconnected, cl_doneErr := (case cl_doneErr c of None \<Rightarrow> Some err | Some e \<Rightarrow> Some e)\<rparr>
        in (clearCredentialsLocked c1)\<lparr>cl_doneClosed := True\<rparr>)"

definition close_raw :: "Client \<Rightarrow> Client" where
  "close_raw c = (case cl_rawConn c of None \<Rightarrow> c | Some h \<Rightarrow> c\<lparr>cl_conns := removeAll h (cl_conns c)\<rparr>)"

text \<open>The part of \<open>disconnect\<close> before it returns, and the goroutine it starts: \<open>teardown\<close> up to the last event and \<open>close_done\<close>,
  where closing a closed channel panics (\<open>None\<close>).\<close>

definition disconnect :: "bool \<Rightarrow> Client \<Rightarrow> Client" where
  "disconnect preserveCredentials c =
     (let c1 = (if preserveCredentials then c else c\<lparr>cl_clearOnCleanup := True\<rparr>); st = cl_state c1 in
      if st = stateDisconnecting \<or> st = stateDisconnected then
        (if st = stateDisconnected \<and> \<not> preserveCredentials then clearCredentialsLocked c1 else c1)
      else close_raw ((emit StateDisconnecting (c1\<lparr>cl_state := stateDisconnecting\<rparr>))\<lparr>cl_cancelFn := False\<rparr>))"

definition cleanup :: "Client \<Rightarrow> Client" where
  "cleanup c = c\<lparr>cl_dataCh := False, cl_tunDev := False\<rparr>"

definition teardown :: "Client \<Rightarrow> Client" where
  "teardown c =
     (let c1 = cleanup (c\<lparr>cl_goroutines := []\<rparr>);
          c2 = (if cl_clearOnCleanup c1 then clearCredentialsLocked c1 else c1)
      in emit StateIdle (c2\<lparr>cl_state := stateDisconnected\<rparr>))"

definition close_done :: "Client \<Rightarrow> Client option" where
  "close_done c = (if cl_doneClosed c then None else Some (c\<lparr>cl_doneClosed := True\<rparr>))"

text \<open>A call of \<open>disconnect\<close> followed by \<open>WaitForDisconnect\<close>, with no other call in between.  \<open>None\<close> is a panic or a wait that
  never ends.\<close>

definition disconnect_wait :: "bool \<Rightarrow> Client \<Rightarrow> Client option" where
  "disconnect_wait preserve c =
     (let c1 = disconnect preserve c in if cl_state c1 = stateDisconnecting then close_done (teardown c1) else if cl_doneClosed c1 then Some c1 else None)"

definition reset :: "Client \<Rightarrow> Client" where
  "reset c =
     c\<lparr>cl_state := stateNew, cl_rawConn := None, cl_tlsConn := None, cl_tlsRW := None, cl_challenge := None,
       cl_clientSID := replicate 8 0, cl_serverSID := replicate 8 0, cl_sendSeq := 0, cl_recvExp := 0, cl_manager := None, cl_peerID := 0,
       cl_tunDev := False, cl_dataCh := False, cl_pushOpts := None, cl_dnsOpts := None, cl_phase1IP := [], cl_connectedAt := None,
       cl_cancelFn := False, cl_doneErr := None, cl_doneClosed := False, cl_nextKeyID := 1, cl_lastRecv := 0,
       cl_tlsSecrets := None, cl_clearOnCleanup := False\<rparr>"

subsection \<open>Steps that can fail\<close>

type_synonym 'a act = "Client \<Rightarrow> (client_error, 'a) result \<times> Client"

definition cbind :: "'a act \<Rightarrow> ('a \<Rightarrow> 'b act) \<Rightarrow> 'b act" where
  "cbind m f c = (case m c of (Inl e, c') \<Rightarrow> (Inl e, c') | (Inr x, c') \<Rightarrow> f x c')"

definition ret :: "'a \<Rightarrow> 'a act" where "ret x c = (Inr x, c)"

definition raise :: "client_error \<Rightarrow> 'a act" where "raise e c = (Inl e, c)"

definition modify :: "(Client \<Rightarrow> Client) \<Rightarrow> unit act" where "modify f c = (Inr (), f c)"

text \<open>On an error of a set-up step the client closes the connection and moves to the disconnected state.\<close>

definition abort :: "client_error \<Rightarrow> 'a act" where
  "abort e c = (Inl e, setDisconnected e (close_raw c))"

definition attempt :: "(client_error, 'a) result \<Rightarrow> 'a act" where
  "attempt r = (case r of Inl e \<Rightarrow> abort e | Inr x \<Rightarrow> ret x)"

definition lift_err :: "('e \<Rightarrow> client_error) \<Rightarrow> ('e, 'a) result \<Rightarrow> (client_error, 'a) result" where
  "lift_err f r = (case r of Inl e \<Rightarrow> Inl (f e) | Inr x \<Rightarrow> Inr x)"

definition ok_unless :: "('e \<Rightarrow> client_error) \<Rightarrow> 'e option \<Rightarrow> (client_error, unit) result" where
  "ok_unless f r = (case r of None \<Rightarrow> Inr () | Some e \<Rightarrow> Inl (f e))"

subsection \<open>Opening a control session\<close>

definition JoinHostPort :: "string \<Rightarrow> string \<Rightarrow> string" where
  "JoinHostPort host port = (if CHR '':'' \<in> set host then ''['' @ host @ '']:'' @ port else host @ '':'' @ port)"

definition addr_host :: "net_addr \<Rightarrow> string" where
  "addr_host addr =
     (case addr of
        UDPAddr i \<Rightarrow> IP_String i
      | TCPAddr i \<Rightarrow> IP_String i
      | NilAddr \<Rightarrow> []
      | OtherAddr s \<Rightarrow> (case SplitHostPort s of None \<Rightarrow> [] | Some (host, _) \<Rightarrow> host))"

definition profile_host :: "link \<Rightarrow> Profile \<Rightarrow> string" where
  "profile_host l p = (if pf_RandomHostname p then randomSubdomain (lk_label l) (pf_Remote p) else pf_Remote p)"

text \<open>The dial fails without a connection to close; the client still moves to the disconnected state.\<close>

definition dial :: "link \<Rightarrow> string \<Rightarrow> net_addr act" where
  "dial l host c =
     (let c1 = c\<lparr>cl_dialLog := cl_dialLog c @ [JoinHostPort host (Itoa (pf_Port (cl_prof c)))]\<rparr> in
      case lk_dial l of
        None \<Rightarrow> (Inl DialFailed, setDisconnected DialFailed c1)
      | Some (h, ra) \<Rightarrow> (Inr ra, c1\<lparr>cl_rawConn := Some h, cl_conns := h # cl_conns c1, cl_remote := ra\<rparr>))"

text \<open>Hard reset, its answer and the acknowledgement; phase 1 also checks the opcode of the answer.\<close>

definition control_open :: "bool \<Rightarrow> link \<Rightarrow> unit act" where
  "control_open phase1 l =
     cbind (attempt (of_opt RandSessionID (lk_sid l))) (\<lambda>sid.
     cbind (modify (\<lambda>c. c\<lparr>cl_clientSID := sid\<rparr>)) (\<lambda>_.
     cbind (attempt (lift_err ResetExchange
              (fst (sendWithRetry (lk_write_err l) P_CONTROL_HARD_RESET_SERVER_V2 2000000000 8 (lk_start l) (lk_arrivals l))))) (\<lambda>srvReset.
     if length srvReset < 9 \<or> phase1 \<and> OpcodeFromByte (srvReset ! 0) \<noteq> P_CONTROL_HARD_RESET_SERVER_V2 then abort UnexpectedReset
     else
       cbind (modify (\<lambda>c. c\<lparr>cl_serverSID := slice srvReset 1 9\<rparr>)) (\<lambda>_.
       case parseControlV1Payload srvReset of
         None \<Rightarrow> raise (Panic ''slice bounds'')
       | Some (_, srvPacketID) \<Rightarrow>
           cbind (attempt (ok_unless AckFailed (lk_ack_err l))) (\<lambda>_.
           modify (\<lambda>c. c\<lparr>cl_recvExp := srvPacketID + 1, cl_sendSeq := 1\<rparr>))))))"

definition tlsHandshake :: "link \<Rightarrow> unit act" where
  "tlsHandshake l =
     cbind (attempt (of_opt TLSFailed (lk_tls l))) (\<lambda>tls.
     modify (\<lambda>c. c\<lparr>cl_tlsConn := Some tls\<rparr>))"

definition read_end_of :: "io_error \<Rightarrow> read_end" where
  "read_end_of e = (if e = IO_EOF then EndEOF else EndError)"

text \<open>The authentication exchange and the push request; the result is the stream of control messages that follows.\<close>

definition auth_exchange :: "link \<Rightarrow> string \<Rightarrow> string \<Rightarrow> Saml.reader act" where
  "auth_exchange l username password =
     cbind (\<lambda>c. attempt (ok_unless AuthSend (fst (sendAuthPacket (\<lambda>_ w. (lk_auth_err l, w)) (lk_rnd l) (pf_Proto (cl_prof c))
                (pf_TunMTU (cl_prof c)) username password (cl_awsFormat c) ())))
              (if lk_rnd l \<noteq> None then c\<lparr>cl_authLog := cl_authLog c @ [(username, password)]\<rparr> else c)) (\<lambda>_.
     case consumeServerAuthPacket (lk_records l) of
       (Some e, _) \<Rightarrow> abort (ServerAuth e)
     | (None, r) \<Rightarrow>
         cbind (attempt (ok_unless PushRequest (lk_push_err l))) (\<lambda>_.
         ret (string_of_bytes (concat (tr_recs r)), read_end_of (tr_err r))))"

definition direct_state :: string where "direct_state = ''__direct__''"

definition connectPhase1 :: "link \<Rightarrow> Challenge option act" where
  "connectPhase1 l c =
     (if cl_state c \<noteq> stateNew then (Inl (BadState (cl_state c)), c)
      else
        cbind (modify (\<lambda>c. c\<lparr>cl_state := stateConnecting, cl_awsFormat := cl_awsFormat c \<or> DetectFlow (cl_prof c) = FlowAWSSSO\<rparr>)) (\<lambda>_.
        cbind (dial l (profile_host l (cl_prof c))) (\<lambda>ra.
        cbind (modify (\<lambda>c. if addr_host ra \<noteq> [] then c\<lparr>cl_phase1IP := addr_host ra\<rparr> else c)) (\<lambda>_.
        cbind (control_open True l) (\<lambda>_.
        cbind (tlsHandshake l) (\<lambda>_.
        cbind (auth_exchange l ''N/A'' ''ACS::35001'') (\<lambda>r.
        case HandlePhase1 r of
          ((_, Some e), _) \<Rightarrow> abort (ControlMsg e)
        | ((None, None), _) \<Rightarrow> raise (Panic ''nil control message'')
        | ((Some cm, None), r1) \<Rightarrow>
            (if cm_Kind cm = MsgKindAuthFailedCRV1 then
               (case cm_Challenge cm of
                  None \<Rightarrow> raise (Panic ''nil challenge'')
                | Some ch \<Rightarrow>
                    cbind (modify (\<lambda>c. c\<lparr>cl_challenge := Some ch, cl_tlsRW := Some r1,
                       cl_phase1IP := (if ch_RemoteIP ch \<noteq> [] then ch_RemoteIP ch else cl_phase1IP c)\<rparr>)) (\<lambda>_. ret (Some ch)))
             else if cm_Kind cm = MsgKindPushReply then
               cbind (modify (\<lambda>c. c\<lparr>cl_challenge := Some \<lparr>ch_StateID = direct_state, ch_SAMLURL = [], ch_RemoteIP = []\<rparr>,
                  cl_tlsRW := Some (prereadRW (cm_Raw cm) (fst r1), snd r1)\<rparr>)) (\<lambda>_. ret None)
             else abort (UnexpectedKind (cm_Kind cm)))))))))
        c)"

subsection \<open>Phase 2\<close>

definition isPhase2CredentialsRejected :: "ControlMessage option \<Rightarrow> bool" where
  "isPhase2CredentialsRejected m \<longleftrightarrow>
     (case m of None \<Rightarrow> False | Some cm \<Rightarrow> cm_Kind cm = MsgKindAuthFailed \<or> cm_Kind cm = MsgKindAuthFailedCRV1)"

text \<open>The reply of the direct path is buffered; the other path opens a new connection to the server of phase 1.\<close>

definition direct_reply :: "string act" where
  "direct_reply =
     cbind (modify (\<lambda>c. c\<lparr>cl_dataCh := True\<rparr>)) (\<lambda>_ c.
     case cl_tlsRW c of
       None \<Rightarrow> (Inl (Panic ''nil control channel''), c)
     | Some r \<Rightarrow>
         (case HandlePhase1 r of
            ((_, Some e), _) \<Rightarrow> abort (ControlMsg e) c
          | ((None, None), _) \<Rightarrow> (Inl (Panic ''nil control message''), c)
          | ((Some cm, None), r1) \<Rightarrow>
              (if cm_Kind cm \<noteq> MsgKindPushReply then abort (UnexpectedKind (cm_Kind cm)) (c\<lparr>cl_tlsRW := Some r1\<rparr>)
               else (Inr (cm_Raw cm), c\<lparr>cl_tlsRW := Some r1\<rparr>))))"

definition captured :: "string list \<Rightarrow> tlsSecretCapture" where
  "captured ls = fold capture_Write ls \<lparr>masterSecret = [], clientRandom = []\<rparr>"

definition crv1_reply :: "link \<Rightarrow> Challenge \<Rightarrow> string \<Rightarrow> string act" where
  "crv1_reply l ch samlToken =
     cbind (modify (\<lambda>c. (close_raw c)\<lparr>cl_rawConn := None, cl_tlsConn := None, cl_tlsRW := None, cl_sendSeq := 0, cl_recvExp := 0, cl_dataCh := True\<rparr>)) (\<lambda>_.
     cbind (\<lambda>c. dial l (if cl_phase1IP c = [] then profile_host l (cl_prof c) else cl_phase1IP c) c) (\<lambda>_.
     cbind (control_open False l) (\<lambda>_.
     cbind (modify (\<lambda>c. c\<lparr>cl_tlsSecrets := Some (captured (case lk_tls l of None \<Rightarrow> [] | Some t \<Rightarrow> ts_keylog t))\<rparr>)) (\<lambda>_.
     cbind (tlsHandshake l) (\<lambda>_.
     cbind (auth_exchange l ''N/A'' (BuildPhase2Password (ch_StateID ch) samlToken)) (\<lambda>r.
     case HandlePhase1 r of
       ((m, Some e), _) \<Rightarrow> abort (if isPhase2CredentialsRejected m then CredentialsRejected else ControlMsg e)
     | ((None, None), _) \<Rightarrow> raise (Panic ''nil control message'')
     | ((Some cm, None), r1) \<Rightarrow>
         (if cm_Kind cm \<noteq> MsgKindPushReply
          then abort (if isPhase2CredentialsRejected (Some cm) then CredentialsRejected else UnexpectedKind (cm_Kind cm))
          else cbind (modify (\<lambda>c. c\<lparr>cl_tlsRW := Some r1\<rparr>)) (\<lambda>_. ret (cm_Raw cm)))))))))"

text \<open>The keying material: a session that derives keys with the legacy function needs the captured secrets.\<close>

definition session_keys :: "KeyDerivation \<Rightarrow> bytes act" where
  "session_keys kd c =
     (case cl_tlsConn c of
        None \<Rightarrow> (Inl (Panic ''nil TLS connection''), c)
      | Some tls \<Rightarrow>
          (case kd of
             KeyDerivationTLSEKM \<Rightarrow> attempt (of_opt KeyExport (ts_ekm tls)) c
           | KeyDerivationOpenVPNPRF \<Rightarrow>
               (case cl_tlsSecrets c of
                  None \<Rightarrow> (Inl (Panic ''nil TLS secrets''), c)
                | Some cap \<Rightarrow> attempt (lift_err KeyDerivationErr (key_material KeyDerivationOpenVPNPRF None cap)) c)))"

definition session_goroutines :: "bool \<Rightarrow> int \<Rightarrow> bool \<Rightarrow> string list" where
  "session_goroutines tunDev inactiveTimeout owns =
     (if tunDev then [''tunToWire'', ''wireToTun''] else []) @ [''keepaliveLoop''] @
     (if 0 < inactiveTimeout then [''inactiveLoop''] else []) @ [''rekeyLoop'', ''sessionMonitor''] @
     (if owns then [''resourceMonitor''] else [])"

definition apply_reply :: "string \<Rightarrow> PushOptions act" where
  "apply_reply pushRaw =
     cbind (\<lambda>c. attempt (lift_err PushParse (ParsePushReply pushRaw)) c) (\<lambda>parsed.
     cbind (\<lambda>c. attempt (lift_err DnsParse (dns_ParsePushReply pushRaw)) c) (\<lambda>dnsOpts c.
     let po = applyStaticProfileOptions parsed (cl_prof c);
         static = \<lparr>Servers = pf_DNSServers (cl_prof c), SearchDomains = pf_DNSSearchDomains (cl_prof c), RouteDomains = pf_DNSRouteDomains (cl_prof c)\<rparr>
     in (Inr po, c\<lparr>cl_pushOpts := Some po, cl_dnsOpts := Some (Merge [Some dnsOpts, Some static]), cl_peerID := parsePeerID pushRaw\<rparr>)))"

definition start_tunnel :: "link \<Rightarrow> string \<Rightarrow> unit act" where
  "start_tunnel l pushRaw =
     cbind (apply_reply pushRaw) (\<lambda>po.
     cbind (session_keys (po_KeyDerivation po)) (\<lambda>keyMat c0.
     cbind (attempt (lift_err ChannelInit (newDataChannel (po_Cipher po) (cl_peerID c0) 0 keyMat))) (\<lambda>ch.
     cbind (modify (\<lambda>c.
       let p = cl_prof c; tunMTU = parseTunMTU pushRaw (pf_TunMTU p);
           (mssFix, mssFixMTU) = effectiveMSSFix p (po_Mssfix po) tunMTU (pf_Proto p) (po_Cipher po) (po_Compression po) (cl_remote c)
       in c\<lparr>cl_manager := Some (NewManager (lk_now l) ch (Some \<lparr>RenegSec = of_int (pf_RenegSec p), RenegBytes = of_int (pf_RenegBytes p),
              Compress = po_Compression po\<rparr>)), cl_mssFix := mssFix, cl_mssFixMTU := mssFixMTU\<rparr>)) (\<lambda>_.
     cbind (if po_Ifconfig po \<noteq> None \<or> po_Ifconfig6 po \<noteq> None
            then cbind (attempt (if lk_tun_ok l then Inr () else Inl TunSetup)) (\<lambda>_. modify (\<lambda>c. c\<lparr>cl_tunDev := True\<rparr>))
            else ret ()) (\<lambda>_.
     modify (\<lambda>c. (emit StateConnected (c\<lparr>cl_state := stateTunnelUp, cl_connectedAt := Some (lk_now l)\<rparr>))
       \<lparr>cl_cancelFn := True, cl_lastRecv := lk_now l, cl_goroutines := session_goroutines (cl_tunDev c) (po_InactiveTimeout po) (lk_owns l)\<rparr>)))) c0))"

definition connectPhase2 :: "link \<Rightarrow> string \<Rightarrow> unit act" where
  "connectPhase2 l samlToken c =
     (if cl_state c \<noteq> stateConnecting then (Inl (BadState (cl_state c)), c)
      else case cl_challenge c of
        None \<Rightarrow> (Inl NoChallenge, c)
      | Some ch \<Rightarrow>
          cbind (modify (\<lambda>c. c\<lparr>cl_cachedSAMLToken := samlToken, cl_cachedSAMLExpiry := TokenExpiry samlToken,
             cl_cachedStateID := (if ch_StateID ch \<noteq> direct_state then ch_StateID ch else cl_cachedStateID c),
             cl_cachedPhase1IP := cl_phase1IP c\<rparr>)) (\<lambda>_.
          cbind (if ch_StateID ch = direct_state then direct_reply else crv1_reply l ch samlToken) (start_tunnel l))
          c)"

subsection \<open>The calls of the application\<close>

text \<open>The callback that collects the token is an argument; the errors of phases are also reported as events.\<close>

definition report :: "(client_error, 'a) result \<times> Client \<Rightarrow> (client_error, 'a) result \<times> Client" where
  "report r = (case r of (Inl e, c) \<Rightarrow> (Inl e, emit StateError c) | (Inr x, c) \<Rightarrow> (Inr x, c))"

definition Connect :: "link \<Rightarrow> link \<Rightarrow> (Challenge \<Rightarrow> string option) option \<Rightarrow> unit act" where
  "Connect l1 l2 tokenFn c =
     (let flow = DetectFlow (cl_prof c);
          c0 = emit StateConnecting (c\<lparr>cl_reauthRequired := False, cl_awsFormat := (flow = FlowAWSSSO)\<rparr>) in
      if flow = FlowAWSSSO then
        (case tokenFn of
           None \<Rightarrow> (Inl MissingTokenFn, c0)
         | Some f \<Rightarrow>
             cbind (\<lambda>c. report (connectPhase1 l1 c)) (\<lambda>chal.
             cbind (case chal of
                 None \<Rightarrow> ret []
               | Some ch \<Rightarrow>
                   (\<lambda>c. case f ch of
                      None \<Rightarrow> (Inl TokenFnFailed, emit StateError (emit StateWaitingSAML c))
                    | Some t \<Rightarrow> (Inr t, emit StateConnecting (emit StateWaitingSAML c)))) (\<lambda>token.
             \<lambda>c. report (connectPhase2 l2 token c))) c0)
      else
        cbind (\<lambda>c. report (connectPhase1 l1 c)) (\<lambda>chal.
          case chal of
            Some ch \<Rightarrow> raise UnexpectedChallenge
          | None \<Rightarrow> (\<lambda>c. report (connectPhase2 l2 [] c))) c0)"

definition SetRelayPhase2 :: "string \<Rightarrow> string \<Rightarrow> Client \<Rightarrow> Client" where
  "SetRelayPhase2 remoteIP stateID c =
     c\<lparr>cl_state := stateConnecting, cl_phase1IP := remoteIP,
       cl_challenge := Some \<lparr>ch_StateID = stateID, ch_SAMLURL = [], ch_RemoteIP = remoteIP\<rparr>,
       cl_awsFormat := cl_awsFormat c \<or> DetectFlow (cl_prof c) = FlowAWSSSO\<rparr>"

text \<open>The end of a session: a monitor that reads an error other than end of file, or one of the timers and writers of the tunnel.\<close>

definition sessionMonitorFor :: "saml_error \<Rightarrow> Client \<Rightarrow> Client" where
  "sessionMonitorFor err c =
     (if err = ReadEOF then c
      else let isReauth = (case err of SessionExpired _ \<Rightarrow> True | _ \<Rightarrow> False);
               firstReauth = (isReauth \<and> \<not> cl_reauthRequired c);
               c1 = (if isReauth then clearCredentialsLocked (c\<lparr>cl_reauthRequired := True\<rparr>) else c);
               c2 = c1\<lparr>cl_doneErr := (case cl_doneErr c1 of None \<Rightarrow> Some (SessionEnded err) | Some e \<Rightarrow> Some e)\<rparr>
           in disconnect True (if firstReauth then emit StateReauthRequired c2 else c2))"

definition session_down :: "down_reason \<Rightarrow> bool \<Rightarrow> Client \<Rightarrow> Client" where
  "session_down reason preserve c =
     disconnect preserve (c\<lparr>cl_doneErr := (case cl_doneErr c of None \<Rightarrow> Some (SessionDown reason) | Some e \<Rightarrow> Some e)\<rparr>)"

definition LocalIP :: "Client \<Rightarrow> string" where
  "LocalIP c =
     (case cl_pushOpts c of
        None \<Rightarrow> []
      | Some po \<Rightarrow>
          (case po_Ifconfig po of
             Some i \<Rightarrow> IP_String (ifc_Local i)
           | None \<Rightarrow> (case po_Ifconfig6 po of Some i \<Rightarrow> IP_String (ifc6_Local i) | None \<Rightarrow> [])))"

definition SendControlMessage :: "string \<Rightarrow> Client \<Rightarrow> (client_error + saml_error) + string" where
  "SendControlMessage message c =
     (if cl_state c \<noteq> stateTunnelUp \<or> cl_tlsRW c = None then Inl (Inl (BadState (cl_state c)))
      else case WriteControlMsg message MaxControlMessageBytes of Inl e \<Rightarrow> Inl (Inr e) | Inr w \<Rightarrow> Inr w)"

subsection \<open>Reconnecting\<close>

definition backoffBase :: int where "backoffBase = 5 * 10 ^ 9"
definition backoffMax :: int where "backoffMax = 30 * 10 ^ 9"
definition samlExpiryMargin :: int where "samlExpiryMargin = 30 * 10 ^ 9"

record saved_session =
  sv_token :: string
  sv_expiry :: int
  sv_stateID :: string
  sv_serverIP :: string

definition tokenValid :: "int \<Rightarrow> saved_session \<Rightarrow> bool" where
  "tokenValid now sv \<longleftrightarrow>
     sv_token sv \<noteq> [] \<and> sv_stateID sv \<noteq> [] \<and> sv_serverIP sv \<noteq> [] \<and> sv_expiry sv \<noteq> zero_time \<and> now + samlExpiryMargin < sv_expiry sv"

definition next_backoff :: "int \<Rightarrow> int" where
  "next_backoff b = (if backoffMax < b * 2 then backoffMax else b * 2)"

text \<open>\<open>authText\<close> says of which errors the message contains \<^verbatim>\<open>AUTH_FAILED\<close>.  Each attempt has its own link, with a flag that the context is done while waiting for it (the first one does not wait).  The
  result also lists the waits; it is \<open>None\<close> when the listed attempts are used up.\<close>

definition isPanic :: "client_error \<Rightarrow> bool" where
  "isPanic e = (case e of Panic _ \<Rightarrow> True | _ \<Rightarrow> False)"

type_synonym reconnected = "((client_error, unit) result option \<times> int list) \<times> Client"

definition reconnect_state :: "saved_session \<Rightarrow> Client \<Rightarrow> Client" where
  "reconnect_state sv c =
     (emit StateConnecting c)\<lparr>cl_challenge := Some \<lparr>ch_StateID = sv_stateID sv, ch_SAMLURL = [], ch_RemoteIP = []\<rparr>,
        cl_phase1IP := sv_serverIP sv, cl_state := stateConnecting\<rparr>"

fun reconnect_loop :: "(client_error \<Rightarrow> bool) \<Rightarrow> (bool \<times> link) list \<Rightarrow> nat \<Rightarrow> int \<Rightarrow> saved_session \<Rightarrow> Client \<Rightarrow> reconnected" where
  "reconnect_loop authText as n backoff sv c =
     (if 0 < cl_MaxReconnects c \<and> cl_MaxReconnects c \<le> int n then ((Some (Inl (ExceededAttempts (cl_MaxReconnects c))), []), c)
      else case as of
        [] \<Rightarrow> ((None, []), c)
      | (ctxDone, l) # as' \<Rightarrow>
          (let waits = (if 0 < n then [backoff] else []); backoff' = (if 0 < n then next_backoff backoff else backoff) in
           if 0 < n \<and> ctxDone then ((Some (Inl ContextDone), waits), c)
           else case disconnect_wait True c of
             None \<Rightarrow> ((Some (Inl (Panic ''close of closed channel'')), waits), c)
           | Some c1 \<Rightarrow>
               (if \<not> tokenValid (lk_now l) sv then ((Some (Inl ErrReauthRequired), waits), reset c1)
                else case connectPhase2 l (sv_token sv) (reconnect_state sv (reset c1)) of
                    (Inr _, c4) \<Rightarrow> ((Some (Inr ()), waits), c4\<lparr>cl_reconnectCount := cl_reconnectCount c4 + 1\<rparr>)
                  | (Inl e, c4) \<Rightarrow>
                      (if isPanic e then ((Some (Inl e), waits), c4)
                       else if e = CredentialsRejected \<or> authText e then
                         (case disconnect_wait False c4 of
                            None \<Rightarrow> ((Some (Inl (Panic ''close of closed channel'')), waits), c4)
                          | Some c5 \<Rightarrow> ((Some (Inl ErrReauthRequired), waits), reset c5))
                       else case reconnect_loop authText as' (n + 1) backoff' sv c4 of ((r, ws), c5) \<Rightarrow> ((r, waits @ ws), c5)))))"

declare reconnect_loop.simps [simp del]

definition Reconnect :: "(client_error \<Rightarrow> bool) \<Rightarrow> (bool \<times> link) list \<Rightarrow> Client \<Rightarrow> reconnected" where
  "Reconnect authText as c =
     (let reauthRequired = (cl_reauthRequired c \<or> (case cl_doneErr c of Some (SessionEnded (SessionExpired _)) \<Rightarrow> True | _ \<Rightarrow> False));
          c1 = (if reauthRequired then clearCredentialsLocked c else c);
          sv = \<lparr>sv_token = cl_cachedSAMLToken c1, sv_expiry = cl_cachedSAMLExpiry c1, sv_stateID = cl_cachedStateID c1, sv_serverIP = cl_cachedPhase1IP c1\<rparr> in
      if reauthRequired then
        (case disconnect_wait False c1 of
           None \<Rightarrow> ((Some (Inl (Panic ''close of closed channel'')), []), c1)
         | Some c2 \<Rightarrow> ((Some (Inl ErrReauthRequired), []), reset c2))
      else reconnect_loop authText as 0 backoffBase sv c1)"

subsection \<open>Rules for steps\<close>

text \<open>\<open>triple P m Q E\<close>: from a client with \<open>P\<close>, a result satisfies \<open>Q\<close> and an error \<open>E\<close>.\<close>

definition triple :: "(Client \<Rightarrow> bool) \<Rightarrow> 'a act \<Rightarrow> ('a \<Rightarrow> Client \<Rightarrow> bool) \<Rightarrow> (client_error \<Rightarrow> Client \<Rightarrow> bool) \<Rightarrow> bool" where
  "triple P m Q E \<longleftrightarrow> (\<forall>c. P c \<longrightarrow> (case m c of (Inr x, c') \<Rightarrow> Q x c' | (Inl e, c') \<Rightarrow> E e c'))"

lemma tripleD:
  "triple P m Q E \<Longrightarrow> P c \<Longrightarrow> m c = (Inr x, c') \<Longrightarrow> Q x c'" "triple P m Q E \<Longrightarrow> P c \<Longrightarrow> m c = (Inl e, c') \<Longrightarrow> E e c'"
  by (auto simp: triple_def dest: spec [of _ c])

lemma triple_cbind:
  assumes "triple P m R E" "\<And>x. triple (R x) (f x) Q E"
  shows "triple P (cbind m f) Q E"
  unfolding triple_def
proof (intro allI impI)
  fix c
  assume "P c"
  obtain r c' where m: "m c = (r, c')" by fastforce
  show "case cbind m f c of (Inr x, c') \<Rightarrow> Q x c' | (Inl e, c') \<Rightarrow> E e c'"
  proof (cases r)
    case (Inl e)
    then show ?thesis using tripleD(2) [OF assms(1) \<open>P c\<close>] m by (simp add: cbind_def)
  next
    case (Inr x)
    then have "R x c'" using tripleD(1) [OF assms(1) \<open>P c\<close>] m by simp
    then show ?thesis using assms(2) [of x] Inr m by (simp add: cbind_def triple_def)
  qed
qed

lemma triple_ret: "(\<And>c. P c \<Longrightarrow> Q x c) \<Longrightarrow> triple P (ret x) Q E"
  by (simp add: triple_def ret_def)

lemma triple_raise: "(\<And>c. P c \<Longrightarrow> E e c) \<Longrightarrow> triple P (raise e) Q E"
  by (simp add: triple_def raise_def)

lemma triple_modify: "(\<And>c. P c \<Longrightarrow> Q () (f c)) \<Longrightarrow> triple P (modify f) Q E"
  by (simp add: triple_def modify_def)

lemma triple_abort: "(\<And>c. P c \<Longrightarrow> E e (setDisconnected e (close_raw c))) \<Longrightarrow> triple P (abort e) Q E"
  by (simp add: triple_def abort_def)

lemma triple_attempt:
  "(\<And>x c. r = Inr x \<Longrightarrow> P c \<Longrightarrow> Q x c) \<Longrightarrow> (\<And>e c. r = Inl e \<Longrightarrow> P c \<Longrightarrow> E e (setDisconnected e (close_raw c))) \<Longrightarrow> triple P (attempt r) Q E"
  by (cases r) (simp_all add: triple_def attempt_def abort_def ret_def)

lemma triple_fun: "(\<And>c. P c \<Longrightarrow> triple ((=) c) (m c) Q E) \<Longrightarrow> triple P (\<lambda>c. m c c) Q E"
  by (simp add: triple_def)

lemma triple_at: "(\<And>x. triple P (m x) Q E) \<Longrightarrow> triple P (\<lambda>c. m (g c) c) Q E"
  by (simp add: triple_def)

lemma triple_if: "(b \<Longrightarrow> triple P m Q E) \<Longrightarrow> (\<not> b \<Longrightarrow> triple P n Q E) \<Longrightarrow> triple P (if b then m else n) Q E"
  by simp

lemma triple_option: "triple P m Q E \<Longrightarrow> (\<And>x. v = Some x \<Longrightarrow> triple P (f x) Q E) \<Longrightarrow> triple P (case v of None \<Rightarrow> m | Some x \<Rightarrow> f x) Q E"
  by (cases v) simp_all

lemma triple_prod: "(\<And>x y. v = (x, y) \<Longrightarrow> triple P (f x y) Q E) \<Longrightarrow> triple P (case v of (x, y) \<Rightarrow> f x y) Q E"
  by (cases v) simp

lemma triple_apply: "(\<And>c. P c \<Longrightarrow> R (g c)) \<Longrightarrow> (\<And>c. triple R (m c) Q E) \<Longrightarrow> triple P (\<lambda>c. m c (g c)) Q E"
  by (simp add: triple_def)

subsection \<open>Setting up\<close>

definition no_credentials :: "Client \<Rightarrow> bool" where
  "no_credentials c \<longleftrightarrow>
     cl_cachedSAMLToken c = [] \<and> cl_cachedStateID c = [] \<and> cl_cachedPhase1IP c = [] \<and> cl_cachedSAMLExpiry c = zero_time \<and>
     cl_challenge c = None \<and> cl_tlsSecrets c = None \<and> (\<forall>po. cl_pushOpts c = Some po \<longrightarrow> po_AuthToken po = [])"

definition conns_ok :: "Client \<Rightarrow> bool" where
  "conns_ok c \<longleftrightarrow> set (cl_conns c) \<subseteq> set_option (cl_rawConn c)"

text \<open>During set-up, and after a set-up step failed.\<close>

definition setting_up :: "Client \<Rightarrow> bool" where
  "setting_up c \<longleftrightarrow> cl_state c = stateConnecting \<and> \<not> cl_doneClosed c \<and> cl_goroutines c = [] \<and> conns_ok c"

definition set_down :: "Client \<Rightarrow> bool" where
  "set_down c \<longleftrightarrow> cl_state c = stateDisconnected \<and> cl_doneClosed c \<and> cl_goroutines c = [] \<and> cl_conns c = [] \<and> no_credentials c"

definition failed :: "client_error \<Rightarrow> Client \<Rightarrow> bool" where
  "failed e c \<longleftrightarrow> (\<exists>m. e = Panic m) \<or> set_down c"

lemma clear_no_credentials [simp]: "no_credentials (clearCredentialsLocked c)"
  by (auto simp: no_credentials_def clearCredentialsLocked_def)

lemma clear_keeps [simp]:
  "cl_state (clearCredentialsLocked c) = cl_state c" "cl_doneClosed (clearCredentialsLocked c) = cl_doneClosed c"
  "cl_goroutines (clearCredentialsLocked c) = cl_goroutines c" "cl_conns (clearCredentialsLocked c) = cl_conns c"
  "cl_rawConn (clearCredentialsLocked c) = cl_rawConn c" "cl_clearOnCleanup (clearCredentialsLocked c) = cl_clearOnCleanup c"
  by (simp_all add: clearCredentialsLocked_def)

lemma close_raw_keeps [simp]:
  "cl_state (close_raw c) = cl_state c" "cl_doneClosed (close_raw c) = cl_doneClosed c" "cl_goroutines (close_raw c) = cl_goroutines c"
  "cl_rawConn (close_raw c) = cl_rawConn c" "cl_clearOnCleanup (close_raw c) = cl_clearOnCleanup c" "cl_prof (close_raw c) = cl_prof c"
  by (simp_all add: close_raw_def split: option.splits)

lemma close_raw_conns [simp]: "conns_ok c \<Longrightarrow> cl_conns (close_raw c) = []"
  by (auto simp: conns_ok_def close_raw_def removeAll_filter_not_eq filter_empty_conv split: option.splits)

lemma failed_Panic [simp]: "failed (Panic m) c"
  by (simp add: failed_def)

lemma aborted: "setting_up c \<Longrightarrow> failed e (setDisconnected e (close_raw c))"
  by (auto simp: failed_def set_down_def setting_up_def setDisconnected_def Let_def no_credentials_def clearCredentialsLocked_def)

text \<open>The fields that \<open>setting_up\<close> looks at are not touched by the other updates.\<close>

lemma setting_up_attempt: "triple setting_up (attempt r) (\<lambda>_. setting_up) failed"
  by (intro triple_attempt) (auto intro: aborted)

lemma setting_up_modify: "(\<And>c. setting_up c \<Longrightarrow> setting_up (f c)) \<Longrightarrow> triple setting_up (modify f) (\<lambda>_. setting_up) failed"
  by (rule triple_modify)

lemma setting_up_abort: "triple setting_up (abort e) Q failed"
  by (intro triple_abort) (auto intro: aborted)

lemma panic_failed: "triple P (raise (Panic m)) Q failed"
  by (intro triple_raise) (simp add: failed_def)

lemmas setting_up_rules = triple_cbind [where R = "\<lambda>_. setting_up"] setting_up_attempt setting_up_abort panic_failed
  triple_if triple_option triple_prod

lemma setting_up_updates [simp]:
  "setting_up (c\<lparr>cl_clientSID := a\<rparr>) = setting_up c" "setting_up (c\<lparr>cl_serverSID := a\<rparr>) = setting_up c"
  "setting_up (c\<lparr>cl_recvExp := b, cl_sendSeq := d\<rparr>) = setting_up c" "setting_up (c\<lparr>cl_tlsConn := t\<rparr>) = setting_up c"
  "setting_up (c\<lparr>cl_authLog := g\<rparr>) = setting_up c" "setting_up (c\<lparr>cl_tlsRW := r\<rparr>) = setting_up c"
  "setting_up (c\<lparr>cl_phase1IP := p\<rparr>) = setting_up c" "setting_up (c\<lparr>cl_tlsSecrets := s\<rparr>) = setting_up c"
  "setting_up (c\<lparr>cl_dataCh := x\<rparr>) = setting_up c" "setting_up (c\<lparr>cl_tunDev := x\<rparr>) = setting_up c"
  "setting_up (c\<lparr>cl_challenge := h\<rparr>) = setting_up c" "setting_up (c\<lparr>cl_challenge := h, cl_tlsRW := r\<rparr>) = setting_up c"
  "setting_up (c\<lparr>cl_challenge := h, cl_tlsRW := r, cl_phase1IP := p\<rparr>) = setting_up c"
  "setting_up (c\<lparr>cl_pushOpts := q, cl_dnsOpts := k, cl_peerID := i\<rparr>) = setting_up c"
  "setting_up (c\<lparr>cl_manager := m, cl_mssFix := y, cl_mssFixMTU := z\<rparr>) = setting_up c"
  "setting_up (c\<lparr>cl_cachedSAMLToken := u, cl_cachedSAMLExpiry := v, cl_cachedStateID := w, cl_cachedPhase1IP := e\<rparr>) = setting_up c"
  by (simp_all add: setting_up_def conns_ok_def)

lemma control_open_ok: "triple setting_up (control_open b l) (\<lambda>_. setting_up) failed"
  unfolding control_open_def
  by (intro setting_up_rules setting_up_modify; simp)

lemma tlsHandshake_ok: "triple setting_up (tlsHandshake l) (\<lambda>_. setting_up) failed"
  unfolding tlsHandshake_def by (intro setting_up_rules setting_up_modify | simp)+

lemma auth_exchange_ok: "triple setting_up (auth_exchange l u pw) (\<lambda>_. setting_up) failed"
proof -
  obtain res r where r: "consumeServerAuthPacket (lk_records l) = (res, r)" by fastforce
  have log: "setting_up c \<Longrightarrow> setting_up (if lk_rnd l \<noteq> None then c\<lparr>cl_authLog := cl_authLog c @ [x]\<rparr> else c)" for c x by simp
  show ?thesis unfolding auth_exchange_def r
    by (rule triple_cbind, rule triple_apply [OF log setting_up_attempt], assumption, cases res)
      (simp_all add: setting_up_abort triple_cbind [OF setting_up_attempt triple_ret])
qed

text \<open>A dial is made while no connection is open.\<close>

lemma dial_ok: "triple (\<lambda>c. setting_up c \<and> cl_conns c = []) (dial l host) (\<lambda>_. setting_up) failed"
proof -
  have "failed DialFailed (setDisconnected DialFailed (c\<lparr>cl_dialLog := g\<rparr>))" if "setting_up c" "cl_conns c = []" for c g
  proof -
    have "setting_up (c\<lparr>cl_dialLog := g\<rparr>)" "cl_conns (close_raw (c\<lparr>cl_dialLog := g\<rparr>)) = cl_conns (c\<lparr>cl_dialLog := g\<rparr>)"
      using that by (simp_all add: setting_up_def conns_ok_def close_raw_def split: option.splits)
    moreover have "close_raw (c\<lparr>cl_dialLog := g\<rparr>) = c\<lparr>cl_dialLog := g\<rparr>" using that(2) by (simp add: close_raw_def split: option.splits)
    ultimately show ?thesis using aborted by metis
  qed
  then show ?thesis
    unfolding triple_def dial_def by (auto simp: Let_def setting_up_def conns_ok_def split: option.split)
qed

lemma HandlePhase1_challenge:
  assumes "HandlePhase1 r = ((Some cm, None), r1)" "cm_Kind cm = MsgKindAuthFailedCRV1"
  shows "\<exists>ch. cm_Challenge cm = Some ch"
proof -
  have *: "cm_Kind m = MsgKindAuthFailedCRV1 \<Longrightarrow> ParseControlMsg s = Inr m \<Longrightarrow> \<exists>ch. cm_Challenge m = Some ch" for m s
    by (auto simp: ParseControlMsg_def parse_crv1_msg_def parse_crtext_msg_def parse_awscc_msg_def parse_posture_msg_def Let_def
        split: if_splits sum.splits option.splits list.splits)
  have "fst (read_loop n buf s fin) = Inr m \<Longrightarrow> \<exists>b. ParseControlMsg b = Inr m" for n buf s fin m
    by (induction n buf s fin rule: read_loop.induct) (auto split: if_splits read_end.splits)
  moreover have "fst (ReadControlMsg r 0) = Inr cm" using assms(1) by (auto simp: HandlePhase1_def split: sum.splits prod.splits if_splits)
  ultimately show ?thesis using * assms(2) unfolding ReadControlMsg_def by blast
qed

definition fresh :: "Client \<Rightarrow> bool" where
  "fresh c \<longleftrightarrow> cl_state c = stateNew \<and> \<not> cl_doneClosed c \<and> cl_goroutines c = [] \<and> cl_conns c = []"

definition tunnel_up :: "Client \<Rightarrow> bool" where
  "tunnel_up c \<longleftrightarrow>
     cl_state c = stateTunnelUp \<and> \<not> cl_doneClosed c \<and> cl_goroutines c \<noteq> [] \<and> conns_ok c \<and>
     (\<exists>m. cl_manager c = Some m \<and> Manager_inv m) \<and> (\<exists>po. cl_pushOpts c = Some po)"

definition challenged :: "Client \<Rightarrow> bool" where
  "challenged c \<longleftrightarrow> setting_up c \<and> cl_challenge c \<noteq> None \<and> cl_tlsRW c \<noteq> None"

lemma connectPhase1_message_ok:
  "triple setting_up
     (case HandlePhase1 r of
          ((_, Some e), _) \<Rightarrow> abort (ControlMsg e)
        | ((None, None), _) \<Rightarrow> raise (Panic ''nil control message'')
        | ((Some cm, None), r1) \<Rightarrow>
            (if cm_Kind cm = MsgKindAuthFailedCRV1 then
               (case cm_Challenge cm of
                  None \<Rightarrow> raise (Panic ''nil challenge'')
                | Some ch \<Rightarrow>
                    cbind (modify (\<lambda>c. c\<lparr>cl_challenge := Some ch, cl_tlsRW := Some r1,
                       cl_phase1IP := (if ch_RemoteIP ch \<noteq> [] then ch_RemoteIP ch else cl_phase1IP c)\<rparr>)) (\<lambda>_. ret (Some ch)))
             else if cm_Kind cm = MsgKindPushReply then
               cbind (modify (\<lambda>c. c\<lparr>cl_challenge := Some \<lparr>ch_StateID = direct_state, ch_SAMLURL = [], ch_RemoteIP = []\<rparr>,
                  cl_tlsRW := Some (prereadRW (cm_Raw cm) (fst r1), snd r1)\<rparr>)) (\<lambda>_. ret None)
             else abort (UnexpectedKind (cm_Kind cm))))
     (\<lambda>_. challenged) failed"
proof -
  obtain m e r1 where h: "HandlePhase1 r = ((m, e), r1)" by (metis prod.collapse)
  have f: "triple setting_up (cbind (modify f) (\<lambda>_. ret x)) (\<lambda>_. challenged) failed"
    if "\<And>c. setting_up c \<Longrightarrow> challenged (f c)" for f and x :: "Challenge option"
    using that by (intro triple_cbind [where R = "\<lambda>_. challenged"] triple_modify triple_ret)
  show ?thesis
  proof (cases e)
    case None
    then show ?thesis unfolding h
      by (cases m) (auto simp: challenged_def intro!: setting_up_abort panic_failed f split: option.split)
  qed (cases m; simp add: h setting_up_abort)
qed

lemma connectPhase1_ok:
  "triple fresh (connectPhase1 l) (\<lambda>_. challenged) failed"
proof -
  have "triple fresh (modify (\<lambda>c. c\<lparr>cl_state := stateConnecting, cl_awsFormat := cl_awsFormat c \<or> DetectFlow (cl_prof c) = FlowAWSSSO\<rparr>))
      (\<lambda>_ c. setting_up c \<and> cl_conns c = []) failed"
    by (rule triple_modify) (simp add: fresh_def setting_up_def conns_ok_def)
  then have "triple fresh (\<lambda>c.
      cbind (modify (\<lambda>c. c\<lparr>cl_state := stateConnecting, cl_awsFormat := cl_awsFormat c \<or> DetectFlow (cl_prof c) = FlowAWSSSO\<rparr>)) (\<lambda>_.
      cbind (dial l (profile_host l p)) (\<lambda>ra.
      cbind (modify (\<lambda>c. if addr_host ra \<noteq> [] then c\<lparr>cl_phase1IP := addr_host ra\<rparr> else c)) (\<lambda>_.
      cbind (control_open True l) (\<lambda>_.
      cbind (tlsHandshake l) (\<lambda>_.
      cbind (auth_exchange l ''N/A'' ''ACS::35001'') (\<lambda>r. F r)))))) c) (\<lambda>_. challenged) failed"
    if "\<And>r. triple setting_up (F r) (\<lambda>_. challenged) failed" for F p
    by (rule triple_cbind, intro triple_cbind [OF dial_ok] setting_up_rules(1) setting_up_modify control_open_ok tlsHandshake_ok auth_exchange_ok that) simp_all
  from this [OF connectPhase1_message_ok] show ?thesis
    unfolding triple_def connectPhase1_def by (simp add: fresh_def)
qed

lemma direct_reply_ok: "triple setting_up direct_reply (\<lambda>_. setting_up) failed"
proof -
  have "triple setting_up (\<lambda>c.
     case cl_tlsRW c of
       None \<Rightarrow> (Inl (Panic ''nil control channel''), c)
     | Some r \<Rightarrow>
         (case HandlePhase1 r of
            ((_, Some e), _) \<Rightarrow> abort (ControlMsg e) c
          | ((None, None), _) \<Rightarrow> (Inl (Panic ''nil control message''), c)
          | ((Some cm, None), r1) \<Rightarrow>
              (if cm_Kind cm \<noteq> MsgKindPushReply then abort (UnexpectedKind (cm_Kind cm)) (c\<lparr>cl_tlsRW := Some r1\<rparr>)
               else (Inr (cm_Raw cm), c\<lparr>cl_tlsRW := Some r1\<rparr>)))) (\<lambda>_. setting_up) failed"
    unfolding triple_def
  proof (intro allI impI)
    fix c
    assume s: "setting_up c"
    show "case (case cl_tlsRW c of
       None \<Rightarrow> (Inl (Panic ''nil control channel''), c)
     | Some r \<Rightarrow>
         (case HandlePhase1 r of
            ((_, Some e), _) \<Rightarrow> abort (ControlMsg e) c
          | ((None, None), _) \<Rightarrow> (Inl (Panic ''nil control message''), c)
          | ((Some cm, None), r1) \<Rightarrow>
              (if cm_Kind cm \<noteq> MsgKindPushReply then abort (UnexpectedKind (cm_Kind cm)) (c\<lparr>cl_tlsRW := Some r1\<rparr>)
               else (Inr (cm_Raw cm), c\<lparr>cl_tlsRW := Some r1\<rparr>)))) of (Inr x, c') \<Rightarrow> setting_up c' | (Inl e, c') \<Rightarrow> failed e c'"
    proof (cases "cl_tlsRW c")
      case None
      then show ?thesis by simp
    next
      case (Some r)
      obtain m e r1 where h: "HandlePhase1 r = ((m, e), r1)" by (metis prod.collapse)
      show ?thesis using s unfolding Some by (cases e; cases m) (simp_all add: h abort_def aborted)
    qed
  qed
  then show ?thesis unfolding direct_reply_def
    by (rule triple_cbind [where R = "\<lambda>_. setting_up", rotated]) (rule triple_modify, simp)
qed

lemma crv1_message_ok:
  "triple setting_up
      (case HandlePhase1 r of
         ((m, Some e), _) \<Rightarrow> abort (if isPhase2CredentialsRejected m then CredentialsRejected else ControlMsg e)
       | ((None, None), _) \<Rightarrow> raise (Panic ''nil control message'')
       | ((Some cm, None), r1) \<Rightarrow>
           (if cm_Kind cm \<noteq> MsgKindPushReply
            then abort (if isPhase2CredentialsRejected (Some cm) then CredentialsRejected else UnexpectedKind (cm_Kind cm))
            else cbind (modify (\<lambda>c. c\<lparr>cl_tlsRW := Some r1\<rparr>)) (\<lambda>_. ret (cm_Raw cm)))) (\<lambda>_. setting_up) failed"
proof -
  obtain m e r1 where h: "HandlePhase1 r = ((m, e), r1)" by (metis prod.collapse)
  have "triple setting_up (cbind (modify (\<lambda>c. c\<lparr>cl_tlsRW := Some r1\<rparr>)) (\<lambda>_. ret x)) (\<lambda>_. setting_up) failed" for x :: string
    by (rule triple_cbind [where R = "\<lambda>_. setting_up"]; (rule triple_modify | rule triple_ret); simp)
  then show ?thesis unfolding h by (cases e; cases m) (simp_all add: setting_up_abort panic_failed)
qed

lemma crv1_close_ok:
  "triple setting_up
      (modify (\<lambda>c. (close_raw c)\<lparr>cl_rawConn := None, cl_tlsConn := None, cl_tlsRW := None, cl_sendSeq := 0, cl_recvExp := 0, cl_dataCh := True\<rparr>))
      (\<lambda>_ c. setting_up c \<and> cl_conns c = []) failed"
proof (rule triple_modify)
  fix c
  assume "setting_up c"
  moreover from this have "cl_conns (close_raw c) = []" by (simp add: setting_up_def)
  ultimately show "setting_up ((close_raw c)\<lparr>cl_rawConn := None, cl_tlsConn := None, cl_tlsRW := None, cl_sendSeq := 0, cl_recvExp := 0, cl_dataCh := True\<rparr>) \<and>
      cl_conns ((close_raw c)\<lparr>cl_rawConn := None, cl_tlsConn := None, cl_tlsRW := None, cl_sendSeq := 0, cl_recvExp := 0, cl_dataCh := True\<rparr>) = []"
    by (simp add: setting_up_def conns_ok_def)
qed

lemma dial_at_ok: "triple (\<lambda>c. setting_up c \<and> cl_conns c = []) (\<lambda>c. dial l (g c) c) (\<lambda>_. setting_up) failed"
  by (rule triple_at [OF dial_ok])

lemma crv1_reply_ok: "triple setting_up (crv1_reply l ch tok) (\<lambda>_. setting_up) failed"
  unfolding crv1_reply_def
  by (rule triple_cbind [OF crv1_close_ok], rule triple_cbind [OF dial_at_ok], rule triple_cbind [OF control_open_ok],
      rule triple_cbind [OF setting_up_modify], simp, rule triple_cbind [OF tlsHandshake_ok], rule triple_cbind [OF auth_exchange_ok crv1_message_ok])

lemma attempt_keep: "(\<And>c. P c \<Longrightarrow> setting_up c) \<Longrightarrow> triple P (attempt r) (\<lambda>x c. r = Inr x \<and> P c) failed"
  by (intro triple_attempt) (auto intro: aborted)

definition replied :: "PushOptions \<Rightarrow> Client \<Rightarrow> bool" where
  "replied po c \<longleftrightarrow> setting_up c \<and> cl_pushOpts c = Some po"

lemma apply_reply_ok: "triple setting_up (apply_reply pushRaw) replied failed"
proof -
  have "triple setting_up (\<lambda>c. let po = applyStaticProfileOptions parsed (cl_prof c);
         static = \<lparr>Servers = pf_DNSServers (cl_prof c), SearchDomains = pf_DNSSearchDomains (cl_prof c), RouteDomains = pf_DNSRouteDomains (cl_prof c)\<rparr>
     in (Inr po, c\<lparr>cl_pushOpts := Some po, cl_dnsOpts := Some (Merge [Some d, Some static]), cl_peerID := parsePeerID pushRaw\<rparr>)) replied failed" for parsed d
    by (simp add: triple_def replied_def Let_def)
  then show ?thesis unfolding apply_reply_def
    by (rule triple_cbind [OF setting_up_attempt, OF triple_cbind [OF setting_up_attempt]])
qed

lemma session_keys_ok: "triple (replied po) (session_keys kd) (\<lambda>_. replied po) failed"
proof -
  have a: "case attempt r c of (Inr x, c') \<Rightarrow> replied po c' | (Inl e, c') \<Rightarrow> failed e c'"
    if "replied po c" for c and r :: "(client_error, bytes) result"
    using that by (cases r) (simp_all add: attempt_def ret_def abort_def aborted replied_def)
  then show ?thesis unfolding triple_def session_keys_def
    by (auto split: option.splits KeyDerivation.splits)
qed

lemma replied_updates [simp]:
  "replied po (c\<lparr>cl_manager := m, cl_mssFix := y, cl_mssFixMTU := z\<rparr>) = replied po c" "replied po (c\<lparr>cl_tunDev := x\<rparr>) = replied po c"
  by (simp_all add: replied_def)

lemma start_manager_ok:
  assumes "Channel_wf ch"
  shows "triple (replied po) (modify (\<lambda>c.
       let p = cl_prof c; tunMTU = parseTunMTU pushRaw (pf_TunMTU p);
           (mssFix, mssFixMTU) = effectiveMSSFix p (po_Mssfix po) tunMTU (pf_Proto p) (po_Cipher po) (po_Compression po) (cl_remote c)
       in c\<lparr>cl_manager := Some (NewManager (lk_now l) ch (Some \<lparr>RenegSec = of_int (pf_RenegSec p), RenegBytes = of_int (pf_RenegBytes p),
              Compress = po_Compression po\<rparr>)), cl_mssFix := mssFix, cl_mssFixMTU := mssFixMTU\<rparr>))
     (\<lambda>_ c. replied po c \<and> (\<exists>m. cl_manager c = Some m \<and> Manager_inv m)) failed"
  using NewManager_inv [OF assms] by (intro triple_modify) (simp add: Let_def split: prod.split)

lemma session_goroutines_nonempty [simp]: "session_goroutines b n w \<noteq> []"
  by (simp add: session_goroutines_def)

lemma start_tunnel_ok: "triple setting_up (start_tunnel l pushRaw) (\<lambda>_. tunnel_up) failed"
proof -
  let ?M = "\<lambda>po c. replied po c \<and> (\<exists>m. cl_manager c = Some m \<and> Manager_inv m)"
  have tun: "triple (?M po) (if b then cbind (attempt r) (\<lambda>_. modify (\<lambda>c. c\<lparr>cl_tunDev := True\<rparr>)) else ret ()) (\<lambda>_. ?M po) failed"
    for po b and r :: "(client_error, unit) result"
    by (intro triple_if triple_cbind [where R = "\<lambda>_. ?M po"] triple_modify triple_ret triple_attempt) (auto simp: replied_def intro: aborted)
  have up: "triple (?M po) (modify (\<lambda>c. (emit StateConnected (c\<lparr>cl_state := stateTunnelUp, cl_connectedAt := t\<rparr>))
       \<lparr>cl_cancelFn := True, cl_lastRecv := n, cl_goroutines := session_goroutines (cl_tunDev c) i w\<rparr>)) (\<lambda>_. tunnel_up) failed" for po t n i w
    by (rule triple_modify) (auto simp: emit_def tunnel_up_def replied_def setting_up_def conns_ok_def)
  have at: "triple (replied po) (\<lambda>c0. cbind (attempt (lift_err ChannelInit (newDataChannel (po_Cipher po) (cl_peerID c0) 0 km))) F c0) (\<lambda>_. tunnel_up) failed"
    if "\<And>ch. Channel_wf ch \<Longrightarrow> triple (replied po) (F ch) (\<lambda>_. tunnel_up) failed" for po km F
  proof (rule triple_at [where m = "\<lambda>pid. cbind (attempt (lift_err ChannelInit (newDataChannel (po_Cipher po) pid 0 km))) F"])
    fix pid
    show "triple (replied po) (cbind (attempt (lift_err ChannelInit (newDataChannel (po_Cipher po) pid 0 km))) F) (\<lambda>_. tunnel_up) failed"
    proof (rule triple_cbind [OF attempt_keep])
      show "triple (\<lambda>c. lift_err ChannelInit (newDataChannel (po_Cipher po) pid 0 km) = Inr ch \<and> replied po c) (F ch) (\<lambda>_. tunnel_up) failed" for ch
      proof (cases "newDataChannel (po_Cipher po) pid 0 km")
        case (Inr c)
        then show ?thesis using that [OF newDataChannel_wf [OF Inr]] by (auto simp: triple_def lift_err_def)
      qed (simp add: triple_def lift_err_def)
    qed (simp add: replied_def)
  qed
  show ?thesis unfolding start_tunnel_def
    by (rule triple_cbind [OF apply_reply_ok], rule triple_cbind [OF session_keys_ok], rule at, rule triple_cbind [OF start_manager_ok], assumption,
        rule triple_cbind [OF tun up])
qed

lemma connectPhase2_ok:
  assumes "setting_up c" "connectPhase2 l tok c = (r, c')"
  shows "(\<exists>x. r = Inr x \<and> tunnel_up c') \<or> (\<exists>e. r = Inl e \<and> failed e c') \<or> (r = Inl NoChallenge \<and> c' = c \<and> cl_challenge c = None)"
proof (cases "cl_challenge c")
  case None
  then show ?thesis using assms by (auto simp: connectPhase2_def setting_up_def)
next
  case (Some ch)
  let ?m = "cbind (modify (\<lambda>c. c\<lparr>cl_cachedSAMLToken := tok, cl_cachedSAMLExpiry := TokenExpiry tok,
             cl_cachedStateID := (if ch_StateID ch \<noteq> direct_state then ch_StateID ch else cl_cachedStateID c),
             cl_cachedPhase1IP := cl_phase1IP c\<rparr>)) (\<lambda>_.
          cbind (if ch_StateID ch = direct_state then direct_reply else crv1_reply l ch tok) (start_tunnel l))"
  have t: "triple setting_up ?m (\<lambda>_. tunnel_up) failed"
    by (rule triple_cbind [OF setting_up_modify], simp, rule triple_cbind [OF triple_if start_tunnel_ok]) (rule direct_reply_ok, rule crv1_reply_ok)
  have e: "?m c = (r, c')" using assms Some by (simp add: connectPhase2_def setting_up_def)
  show ?thesis
  proof (cases r)
    case (Inl x)
    then show ?thesis using tripleD(2) [OF t assms(1)] e by simp
  next
    case (Inr x)
    then show ?thesis using tripleD(1) [OF t assms(1)] e by simp
  qed
qed

end
