(* ===== verification/Client_Api.thy ===== *)
theory Client_Api
  imports Lifecycle
begin

section \<open>The life cycle of a client: properties\<close>

text \<open>
  The client's invariant and the relation of its calls (\<open>Connect\<close>, the relay entry points, \<open>Disconnect\<close>, the ends of a
  session, \<open>Reconnect\<close>), what each call leaves of the cached credentials, what a reconnection dials and sends and how
  long it waits, and the situations in which the code panics or leaves a connection behind.
\<close>

subsection \<open>The invariant\<close>

definition client_inv :: "Client \<Rightarrow> bool" where
  "client_inv c \<longleftrightarrow>
     conns_ok c \<and> (cl_doneClosed c \<longleftrightarrow> cl_state c = stateDisconnected) \<and>
     (cl_state c \<in> {stateNew, stateDisconnected} \<longrightarrow> cl_conns c = [] \<and> cl_goroutines c = []) \<and>
     (cl_state c = stateConnecting \<longrightarrow> cl_goroutines c = []) \<and>
     (cl_state c = stateDisconnecting \<longrightarrow> cl_conns c = []) \<and>
     (cl_state c = stateTunnelUp \<longrightarrow> tunnel_up c)"

lemma client_inv_intros:
  "fresh c \<Longrightarrow> client_inv c" "setting_up c \<Longrightarrow> client_inv c" "set_down c \<Longrightarrow> client_inv c" "tunnel_up c \<Longrightarrow> client_inv c"
  by (auto simp: client_inv_def fresh_def setting_up_def set_down_def tunnel_up_def conns_ok_def)

lemma client_inv_dests:
  "client_inv c \<Longrightarrow> cl_state c = stateNew \<Longrightarrow> fresh c" "client_inv c \<Longrightarrow> cl_state c = stateConnecting \<Longrightarrow> setting_up c"
  by (auto simp: client_inv_def fresh_def setting_up_def)

lemma New_Client_fresh: "fresh (New_Client p)"
  by (simp add: fresh_def New_Client_def)

lemma emit_keeps [simp]:
  "client_inv (emit s c) = client_inv c" "fresh (emit s c) = fresh c" "setting_up (emit s c) = setting_up c" "challenged (emit s c) = challenged c"
  "set_down (emit s c) = set_down c" "tunnel_up (emit s c) = tunnel_up c" "no_credentials (emit s c) = no_credentials c"
  "cl_state (emit s c) = cl_state c" "cl_doneClosed (emit s c) = cl_doneClosed c" "cl_clearOnCleanup (emit s c) = cl_clearOnCleanup c"
  by (simp_all add: emit_def client_inv_def conns_ok_def fresh_def setting_up_def challenged_def set_down_def tunnel_up_def no_credentials_def)

lemma client_inv_updates [simp]:
  "client_inv (c\<lparr>cl_reauthRequired := a, cl_awsFormat := b\<rparr>) = client_inv c" "client_inv (c\<lparr>cl_reauthRequired := a\<rparr>) = client_inv c"
  "client_inv (c\<lparr>cl_clearOnCleanup := a\<rparr>) = client_inv c" "client_inv (c\<lparr>cl_doneErr := e\<rparr>) = client_inv c"
  "client_inv (c\<lparr>cl_reconnectCount := k\<rparr>) = client_inv c" "client_inv (c\<lparr>cl_MaxReconnects := n\<rparr>) = client_inv c"
  by (simp_all add: client_inv_def conns_ok_def tunnel_up_def)

lemma clear_inv: "client_inv c \<Longrightarrow> client_inv (clearCredentialsLocked c)"
  by (auto simp: client_inv_def conns_ok_def tunnel_up_def clearCredentialsLocked_def)

text \<open>\<open>disconnect\<close> and the goroutine it starts.\<close>

lemma disconnect_inv:
  assumes "client_inv c"
  shows "client_inv (disconnect p c) \<and> cl_state (disconnect p c) \<in> {stateDisconnecting, stateDisconnected}"
proof -
  have "conns_ok c" using assms by (simp add: client_inv_def)
  then have e: "cl_conns (close_raw ((emit StateDisconnecting (d\<lparr>cl_state := stateDisconnecting\<rparr>))\<lparr>cl_cancelFn := False\<rparr>)) = []"
    if "cl_conns d = cl_conns c" "cl_rawConn d = cl_rawConn c" for d
    using that by (intro close_raw_conns) (simp add: emit_def conns_ok_def)
  show ?thesis using assms clear_inv e [of c] e [of "c\<lparr>cl_clearOnCleanup := True\<rparr>"]
    by (cases "cl_state c") (simp_all add: disconnect_def Let_def client_inv_def conns_ok_def)
qed

lemma teardown_down:
  assumes "client_inv c" "cl_state c = stateDisconnecting"
  shows "\<exists>c'. close_done (teardown c) = Some c' \<and> client_inv c' \<and> cl_state c' = stateDisconnected \<and>
    (cl_clearOnCleanup c \<longrightarrow> no_credentials c')"
  using assms by (auto simp: teardown_def emit_def close_done_def cleanup_def Let_def client_inv_def conns_ok_def no_credentials_def clearCredentialsLocked_def)

lemma disconnect_clears:
  "cl_clearOnCleanup (disconnect False c)" "cl_state (disconnect False c) = stateDisconnecting \<or> no_credentials (disconnect False c)"
  by (simp_all add: disconnect_def Let_def)

lemma disconnect_wait_down:
  assumes "client_inv c"
  shows "\<exists>c'. disconnect_wait p c = Some c' \<and> client_inv c' \<and> cl_state c' = stateDisconnected \<and> (\<not> p \<longrightarrow> no_credentials c')"
proof (cases "cl_state (disconnect p c) = stateDisconnecting")
  case True
  then show ?thesis using teardown_down [OF conjunct1 [OF disconnect_inv [OF assms, of p]]] disconnect_clears [of c]
    by (cases p) (auto simp: disconnect_wait_def Let_def)
next
  case False
  then show ?thesis using disconnect_inv [OF assms, of p] disconnect_clears [of c]
    by (auto simp: disconnect_wait_def Let_def client_inv_def)
qed

lemma reset_fresh: "client_inv c \<Longrightarrow> cl_state c = stateDisconnected \<Longrightarrow> fresh (reset c)"
  by (simp add: fresh_def reset_def client_inv_def)

subsection \<open>Every call keeps the invariant\<close>

lemma failed_inv: "failed e c \<Longrightarrow> \<not> isPanic e \<Longrightarrow> set_down c"
  by (auto simp: failed_def isPanic_def)

lemma connectPhase1_inv:
  assumes "client_inv c" "connectPhase1 l c = (r, c')" "\<And>e. r = Inl e \<Longrightarrow> \<not> isPanic e"
  shows "client_inv c'" "r = Inr x \<Longrightarrow> challenged c'"
proof -
  have "client_inv c' \<and> (\<forall>x. r = Inr x \<longrightarrow> challenged c')"
  proof (cases "cl_state c = stateNew")
    case True
    note f = client_inv_dests(1) [OF assms(1) True]
    show ?thesis
    proof (cases r)
      case (Inl e)
      then show ?thesis using tripleD(2) [OF connectPhase1_ok f] assms(2,3) failed_inv client_inv_intros(3) by (metis Inl_Inr_False)
    next
      case (Inr x)
      then have "challenged c'" using tripleD(1) [OF connectPhase1_ok f] assms(2) by blast
      then show ?thesis using client_inv_intros(2) by (simp add: challenged_def)
    qed
  next
    case False
    then show ?thesis using assms by (auto simp: connectPhase1_def)
  qed
  then show "client_inv c'" "r = Inr x \<Longrightarrow> challenged c'" by auto
qed

lemma connectPhase2_inv:
  assumes "client_inv c" "connectPhase2 l tok c = (r, c')" "\<And>e. r = Inl e \<Longrightarrow> \<not> isPanic e"
  shows "client_inv c'"
proof (cases "cl_state c = stateConnecting")
  case True
  then show ?thesis using connectPhase2_ok [OF client_inv_dests(2) [OF assms(1) True] assms(2)] assms(1,3) failed_inv client_inv_intros(3,4) by auto
next
  case False
  then show ?thesis using assms by (simp add: connectPhase2_def)
qed

lemma report_inv: "report m = (r, c') \<Longrightarrow> m = (r, c) \<Longrightarrow> client_inv c' = client_inv c \<and> challenged c' = challenged c"
  by (auto simp: report_def split: sum.splits)

lemma Connect_inv:
  assumes "client_inv c" "Connect l1 l2 f c = (r, c')" "\<And>e. r = Inl e \<Longrightarrow> \<not> isPanic e"
  shows "client_inv c'"
proof -
  define c0 where "c0 = emit StateConnecting (c\<lparr>cl_reauthRequired := False, cl_awsFormat := (DetectFlow (cl_prof c) = FlowAWSSSO)\<rparr>)"
  have i0: "client_inv c0" using assms(1) unfolding c0_def by simp
  obtain r1 c1 where p1: "connectPhase1 l1 c0 = (r1, c1)" by fastforce
  have two: "client_inv c''" if "report (connectPhase2 l2 tok d) = (r, c'')" "client_inv d" for tok d c''
  proof -
    obtain r2 c2 where "connectPhase2 l2 tok d = (r2, c2)" by fastforce
    then show ?thesis using that connectPhase2_inv [OF that(2), of l2 tok r2 c2] assms(3) by (auto simp: report_def split: sum.splits)
  qed
  note one = connectPhase1_inv(1) [OF i0 p1]
  note C = assms(2) [unfolded Connect_def Let_def c0_def [symmetric]]
  show ?thesis
  proof (cases r1)
    case (Inl e)
    then have "r = Inl e \<and> c' = emit StateError c1 \<or> r = Inl MissingTokenFn \<and> c' = c0" using C p1
      by (auto simp: cbind_def report_def split: if_splits option.splits)
    then show ?thesis using one Inl assms(3) i0 by auto
  next
    case (Inr x)
    have "client_inv c1" using one Inr by simp
    then show ?thesis using C p1 Inr two i0
      by (auto simp: cbind_def report_def [of "(Inr _, _)"] ret_def raise_def split: if_splits option.splits)
  qed
qed

lemma reconnect_state_setting_up: "fresh c \<Longrightarrow> setting_up (reconnect_state sv c)"
  by (simp add: reconnect_state_def emit_def fresh_def setting_up_def conns_ok_def)

text \<open>One round of the loop: it gives up, is cancelled, has no valid token, or makes an attempt.\<close>

definition waited :: "nat \<Rightarrow> int \<Rightarrow> int list" where
  "waited n b = (if 0 < n then [b] else [])"

definition attempted :: "(client_error \<Rightarrow> bool) \<Rightarrow> (bool \<times> link) list \<Rightarrow> nat \<Rightarrow> int \<Rightarrow> saved_session \<Rightarrow> (client_error, unit) result \<times> Client \<Rightarrow> reconnected" where
  "attempted at as n b sv m =
     (case m of
        (Inr _, c4) \<Rightarrow> ((Some (Inr ()), waited n b), c4\<lparr>cl_reconnectCount := cl_reconnectCount c4 + 1\<rparr>)
      | (Inl e, c4) \<Rightarrow>
          (if isPanic e then ((Some (Inl e), waited n b), c4)
           else if e = CredentialsRejected \<or> at e then
             (case disconnect_wait False c4 of
                None \<Rightarrow> ((Some (Inl (Panic ''close of closed channel'')), waited n b), c4)
              | Some c5 \<Rightarrow> ((Some (Inl ErrReauthRequired), waited n b), reset c5))
           else case reconnect_loop at as (n + 1) (if 0 < n then next_backoff b else b) sv c4 of ((r, ws), c5) \<Rightarrow> ((r, waited n b @ ws), c5)))"

lemma reconnect_loop_round:
  assumes "client_inv c" "reconnect_loop at as n b sv c = ((r, ws), c')"
  obtains (limit) "r = Some (Inl (ExceededAttempts (cl_MaxReconnects c)))" "ws = []" "c' = c" "0 < cl_MaxReconnects c" "cl_MaxReconnects c \<le> int n"
  | (spent) "as = []" "r = None" "ws = []" "c' = c" "\<not> (0 < cl_MaxReconnects c \<and> cl_MaxReconnects c \<le> int n)"
  | (cancelled) l as' where "as = (True, l) # as'" "r = Some (Inl ContextDone)" "ws = waited n b" "c' = c" "0 < n"
  | (invalid) d l as' c1 where "as = (d, l) # as'" "\<not> tokenValid (lk_now l) sv" "r = Some (Inl ErrReauthRequired)" "ws = waited n b" "c' = reset c1"
      "disconnect_wait True c = Some c1" "client_inv c1" "cl_state c1 = stateDisconnected"
  | (attempt) d l as' c1 where "as = (d, l) # as'" "\<not> (0 < cl_MaxReconnects c \<and> cl_MaxReconnects c \<le> int n)" "tokenValid (lk_now l) sv"
      "disconnect_wait True c = Some c1" "client_inv c1" "cl_state c1 = stateDisconnected"
      "((r, ws), c') = attempted at as' n b sv (connectPhase2 l (sv_token sv) (reconnect_state sv (reset c1)))"
proof -
  obtain c1 where w: "disconnect_wait True c = Some c1" "client_inv c1" "cl_state c1 = stateDisconnected"
    using disconnect_wait_down [OF assms(1)] by blast
  note L = assms(2) [unfolded reconnect_loop.simps [of at as n b sv c] Let_def]
  show ?thesis
  proof (cases "0 < cl_MaxReconnects c \<and> cl_MaxReconnects c \<le> int n")
    case True
    then show ?thesis using L by (intro limit) auto
  next
    case go: False
    show ?thesis
    proof (cases as)
      case Nil
      then show ?thesis using L go by (intro spent) auto
    next
      case (Cons a as')
      obtain d l where a: "a = (d, l)" by fastforce
      consider "0 < n \<and> d" | "\<not> (0 < n \<and> d)" "\<not> tokenValid (lk_now l) sv" | "\<not> (0 < n \<and> d)" "tokenValid (lk_now l) sv" by blast
      then show ?thesis
      proof cases
        case 1
        then show ?thesis using L cancelled [of l as'] Cons a go by (simp add: waited_def)
      next
        case 2
        then have g: "(0 < n \<and> d) = False" by simp
        show ?thesis using L invalid [of d l as' c1] Cons a w go 2(2) by (simp add: waited_def g)
      next
        case 3
        then have g: "(0 < n \<and> d) = False" by simp
        have "attempted at as' n b sv (connectPhase2 l (sv_token sv) (reconnect_state sv (reset c1))) = ((r, ws), c')"
          using L Cons a go w(1) 3(2) unfolding attempted_def waited_def by (simp add: g split del: if_split)
        then show ?thesis using attempt [of d l as' c1] Cons a go w 3 by simp
      qed
    qed
  qed
qed

lemma reconnect_loop_inv:
  assumes "client_inv c" "reconnect_loop at as n b sv c = ((r, ws), c')" "\<And>e. r = Some (Inl e) \<Longrightarrow> \<not> isPanic e"
  shows "client_inv c'"
  using assms
proof (induction as arbitrary: n b c ws)
  case (Cons a as)
  from Cons.prems(1,2) show ?case
  proof (cases rule: reconnect_loop_round)
    case invalid
    then show ?thesis using reset_fresh client_inv_intros(1) by blast
  next
    case (attempt d l as' c1)
    obtain r2 c4 where p2: "connectPhase2 l (sv_token sv) (reconnect_state sv (reset c1)) = (r2, c4)" by fastforce
    note at = attempt(7) [unfolded p2 attempted_def prod.case]
    note i4 = connectPhase2_inv [OF client_inv_intros(2) [OF reconnect_state_setting_up [OF reset_fresh [OF attempt(5,6)]]] p2]
    show ?thesis
    proof (cases r2)
      case (Inl e)
      show ?thesis
      proof (cases "isPanic e")
        case True
        then show ?thesis using at Inl Cons.prems(3) by auto
      next
        case False
        then have i: "client_inv c4" using i4 Inl by simp
        then obtain c5 where "disconnect_wait False c4 = Some c5" "client_inv c5" "cl_state c5 = stateDisconnected"
          using disconnect_wait_down by blast
        then show ?thesis using at Inl False Cons.IH [OF i] Cons.prems(3) attempt(1) reset_fresh client_inv_intros(1)
          by (auto split: if_splits prod.splits)
      qed
    qed (use at i4 in auto)
  qed (use Cons.prems in auto)
qed (auto simp: reconnect_loop.simps [of at "[]"] split: if_splits)

lemma Reconnect_inv:
  assumes "client_inv c" "Reconnect at as c = ((r, ws), c')" "\<And>e. r = Some (Inl e) \<Longrightarrow> \<not> isPanic e"
  shows "client_inv c'"
proof -
  obtain c1 where "disconnect_wait False (clearCredentialsLocked c) = Some c1" "client_inv c1" "cl_state c1 = stateDisconnected"
    using disconnect_wait_down [OF clear_inv [OF assms(1)]] by blast
  then show ?thesis using assms reconnect_loop_inv [OF assms(1) _ assms(3)] reset_fresh client_inv_intros(1)
    by (auto simp: Reconnect_def Let_def split: if_splits)
qed

lemma sessionMonitorFor_inv: "client_inv c \<Longrightarrow> client_inv (sessionMonitorFor e c)"
  by (auto simp: sessionMonitorFor_def Let_def intro!: disconnect_inv [THEN conjunct1] clear_inv)

lemma session_down_inv: "client_inv c \<Longrightarrow> client_inv (session_down e p c)"
  by (simp add: session_down_def disconnect_inv)

text \<open>The calls of the application (which also sets \<open>MaxReconnects\<close>) and the ends of a session, one after the other.  The teardown goroutine runs on its own, so that other
  calls may come between \<open>disconnect\<close> and its end.\<close>

inductive api_step :: "Client \<Rightarrow> Client \<Rightarrow> bool" where
  connect: "Connect l1 l2 f c = (r, c') \<Longrightarrow> (\<And>e. r = Inl e \<Longrightarrow> \<not> isPanic e) \<Longrightarrow> api_step c c'"
| limit: "api_step c (c\<lparr>cl_MaxReconnects := n\<rparr>)"
| relay: "cl_state c = stateNew \<Longrightarrow> api_step c (SetRelayPhase2 ip sid c)"
| phase2: "connectPhase2 l tok c = (r, c') \<Longrightarrow> (\<And>e. r = Inl e \<Longrightarrow> \<not> isPanic e) \<Longrightarrow> api_step c c'"
| Disconnect: "api_step c (disconnect False c)"
| expired: "''sessionMonitor'' \<in> set (cl_goroutines c) \<Longrightarrow> api_step c (sessionMonitorFor e c)"
| down: "cl_goroutines c \<noteq> [] \<Longrightarrow> api_step c (session_down e p c)"
| torn_down: "cl_state c = stateDisconnecting \<Longrightarrow> close_done (teardown c) = Some c' \<Longrightarrow> api_step c c'"
| reconnect: "Reconnect at as c = ((r, ws), c') \<Longrightarrow> (\<And>e. r = Some (Inl e) \<Longrightarrow> \<not> isPanic e) \<Longrightarrow> api_step c c'"

lemma api_step_inv:
  assumes "api_step c c'" "client_inv c"
  shows "client_inv c'"
  using assms(1)
proof cases
  case connect
  show ?thesis by (rule Connect_inv [OF assms(2) connect])
next
  case (relay ip sid)
  then show ?thesis using client_inv_dests(1) [OF assms(2)]
    by (intro client_inv_intros(2)) (simp add: SetRelayPhase2_def fresh_def setting_up_def conns_ok_def)
next
  case phase2
  show ?thesis by (rule connectPhase2_inv [OF assms(2) phase2])
next
  case torn_down
  then show ?thesis using teardown_down [OF assms(2)] by auto
next
  case reconnect
  show ?thesis by (rule Reconnect_inv [OF assms(2) reconnect])
qed (simp_all add: assms(2) disconnect_inv sessionMonitorFor_inv session_down_inv)

interpretation client_run: invariant_system api_step "\<lambda>c. \<exists>p. c = New_Client p" client_inv
  by unfold_locales (auto simp: client_inv_intros(1) New_Client_fresh intro: api_step_inv)

lemma reachable_inv: "api_step\<^sup>*\<^sup>* (New_Client p) c \<Longrightarrow> client_inv c"
  by (rule client_run.inv_reachable) blast

end
