(* ===== verification/Client_Flows.thy ===== *)
theory Client_Flows
  imports Client_Api
begin

section \<open>The authentication flows end to end\<close>

text \<open>
  Composes the steps of \<open>Connect\<close> on a link whose server answers every message: the SAML flow with its two connections,
  the direct flow that reuses the first one, and what they dial, send and keep.
\<close>

subsection \<open>A link whose server follows the protocol\<close>

definition control_stream :: "link \<Rightarrow> Saml.reader" where
  "control_stream l =
     (let r = snd (consumeServerAuthPacket (lk_records l)) in (string_of_bytes (concat (tr_recs r)), read_end_of (tr_err r)))"

definition reset_answer :: "link \<Rightarrow> (retry_error, bytes) result" where
  "reset_answer l = fst (sendWithRetry (lk_write_err l) P_CONTROL_HARD_RESET_SERVER_V2 2000000000 8 (lk_start l) (lk_arrivals l))"

definition good_reset :: "(retry_error, bytes) result \<Rightarrow> bool" where
  "good_reset r = (case r of Inl _ \<Rightarrow> False | Inr p \<Rightarrow> 9 \<le> length p \<and> OpcodeFromByte (p ! 0) = P_CONTROL_HARD_RESET_SERVER_V2)"

text \<open>The server answers every message of the exchange and the first control message it sends is \<open>m\<close>.\<close>

definition answers :: "link \<Rightarrow> string \<Rightarrow> string \<Rightarrow> bool" where
  "answers l m rest \<longleftrightarrow>
     lk_dial l \<noteq> None \<and> lk_sid l \<noteq> None \<and> good_reset (reset_answer l) \<and> lk_ack_err l = None \<and> lk_tls l \<noteq> None \<and>
     lk_rnd l \<noteq> None \<and> lk_auth_err l = None \<and> lk_push_err l = None \<and> fst (consumeServerAuthPacket (lk_records l)) = None \<and>
     fst (control_stream l) = m @ NUL # rest \<and> NUL \<notin> set m \<and> int (length m) \<le> MaxControlMessageBytes"

lemma control_open_answers:
  assumes "answers l m rest"
  shows "\<exists>sid srv e. \<forall>c. control_open b l c = (Inr (), c\<lparr>cl_clientSID := sid, cl_serverSID := srv, cl_recvExp := e, cl_sendSeq := 1\<rparr>)"
proof -
  obtain p where p: "reset_answer l = Inr p" "9 \<le> length p" "OpcodeFromByte (p ! 0) = P_CONTROL_HARD_RESET_SERVER_V2"
    using assms by (auto simp: answers_def good_reset_def split: sum.splits)
  obtain sid where sid: "lk_sid l = Some sid" using assms by (auto simp: answers_def)
  obtain q e where q: "parseControlV1Payload p = Some (q, e)" using parseControlV1Payload_total [of p] by fastforce
  show ?thesis
    using p q sid assms
    by (intro exI [of _ sid] exI [of _ "slice p 1 9"] exI [of _ "e + 1"])
      (simp add: control_open_def reset_answer_def answers_def cbind_def attempt_def ret_def modify_def lift_err_def ok_unless_def of_opt_def)
qed

lemma auth_exchange_answers:
  assumes "answers l m rest"
  shows "auth_exchange l u pw c = (Inr (control_stream l), c\<lparr>cl_authLog := cl_authLog c @ [(u, pw)]\<rparr>)"
proof -
  obtain rnd where "lk_rnd l = Some rnd" using assms by (auto simp: answers_def)
  moreover obtain r where "consumeServerAuthPacket (lk_records l) = (None, r)" using assms by (metis answers_def prod.collapse)
  ultimately show ?thesis using assms
    by (simp add: auth_exchange_def answers_def control_stream_def cbind_def attempt_def ret_def ok_unless_def sendAuthPacket_def)
qed

lemma HandlePhase1_answers:
  assumes "answers l m rest" "ParseControlMsg m = Inr cm" "cm_Kind cm \<noteq> MsgKindAuthFailed"
  shows "HandlePhase1 (control_stream l) = ((Some cm, None), (rest, snd (control_stream l)))"
proof -
  have "WriteControlMsg m 0 = Inr (m @ [NUL])" using assms(1) by (simp add: WriteControlMsg_def answers_def)
  from ReadControlMsg_message [OF this, of rest "snd (control_stream l)"]
  have "ReadControlMsg (control_stream l) 0 = (ParseControlMsg m, rest, snd (control_stream l))"
    using assms(1) by (cases "control_stream l") (simp add: answers_def)
  then show ?thesis using assms(2,3) by (simp add: HandlePhase1_def)
qed

text \<open>The dialled host and what a connection leaves in the client.\<close>

definition host_addr :: "Client \<Rightarrow> string \<Rightarrow> string" where
  "host_addr c host = JoinHostPort host (Itoa (pf_Port (cl_prof c)))"

lemma dial_answers:
  assumes "lk_dial l = Some (h, ra)"
  shows "dial l host c = (Inr ra, c\<lparr>cl_dialLog := cl_dialLog c @ [host_addr c host], cl_rawConn := Some h, cl_conns := h # cl_conns c, cl_remote := ra\<rparr>)"
  using assms by (simp add: dial_def host_addr_def Let_def)

lemma phase1IP_if: "(if b then c\<lparr>cl_phase1IP := ip\<rparr> else c) = c\<lparr>cl_phase1IP := (if b then ip else cl_phase1IP c)\<rparr>"
  by simp

lemma connectPhase1_answers:
  assumes "answers l m rest" "lk_dial l = Some (h, ra)" "lk_tls l = Some tls" "ParseControlMsg m = Inr cm" "cl_state c = stateNew" "cl_conns c = []"
    and "cm_Kind cm = MsgKindAuthFailedCRV1 \<and> cm_Challenge cm = Some ch \<or>
      cm_Kind cm = MsgKindPushReply \<and> ch = \<lparr>ch_StateID = direct_state, ch_SAMLURL = [], ch_RemoteIP = []\<rparr>"
  obtains c' where "connectPhase1 l c = (Inr (if cm_Kind cm = MsgKindPushReply then None else Some ch), c')"
    "cl_state c' = stateConnecting" "cl_challenge c' = Some ch" "cl_prof c' = cl_prof c" "cl_rawConn c' = Some h" "cl_conns c' = [h]"
    "cl_tlsConn c' = Some tls" "cl_tlsSecrets c' = cl_tlsSecrets c" "cl_doneClosed c' = cl_doneClosed c"
    "cl_goroutines c' = cl_goroutines c" "cl_remote c' = ra"
    "cl_phase1IP c' = (if ch_RemoteIP ch \<noteq> [] then ch_RemoteIP ch else if addr_host ra \<noteq> [] then addr_host ra else cl_phase1IP c)"
    "cl_tlsRW c' = Some (if cm_Kind cm = MsgKindPushReply then prereadRW (cm_Raw cm) rest else rest, snd (control_stream l))"
    "cl_dialLog c' = cl_dialLog c @ [host_addr c (profile_host l (cl_prof c))]" "cl_authLog c' = cl_authLog c @ [(''N/A'', ''ACS::35001'')]"
    "cl_cachedStateID c' = cl_cachedStateID c" "cl_awsFormat c' = (cl_awsFormat c \<or> DetectFlow (cl_prof c) = FlowAWSSSO)"
proof -
  obtain sid srv e where op: "\<forall>c. control_open True l c = (Inr (), c\<lparr>cl_clientSID := sid, cl_serverSID := srv, cl_recvExp := e, cl_sendSeq := 1\<rparr>)"
    using control_open_answers [OF assms(1), of True] by (elim exE)
  have h: "HandlePhase1 (control_stream l) = ((Some cm, None), (rest, snd (control_stream l)))"
    using HandlePhase1_answers [OF assms(1,4)] assms(7) by auto
  note simps = connectPhase1_def cbind_def modify_def ret_def dial_answers [OF assms(2)] spec [OF op] tlsHandshake_def attempt_def of_opt_def
    auth_exchange_answers [OF assms(1)] h host_addr_def phase1IP_if
  let ?ip = "if addr_host ra \<noteq> [] then addr_host ra else cl_phase1IP c"
  let ?c = "\<lambda>ip rw. c\<lparr>cl_state := stateConnecting, cl_awsFormat := cl_awsFormat c \<or> DetectFlow (cl_prof c) = FlowAWSSSO,
      cl_dialLog := cl_dialLog c @ [host_addr c (profile_host l (cl_prof c))], cl_rawConn := Some h, cl_conns := [h], cl_remote := ra,
      cl_phase1IP := ip, cl_clientSID := sid, cl_serverSID := srv, cl_recvExp := e, cl_sendSeq := 1, cl_tlsConn := Some tls,
      cl_authLog := cl_authLog c @ [(''N/A'', ''ACS::35001'')], cl_challenge := Some ch, cl_tlsRW := Some (rw, snd (control_stream l))\<rparr>"
  show ?thesis
  proof (cases "cm_Kind cm = MsgKindPushReply")
    case True
    then have ch: "ch_RemoteIP ch = []" and "connectPhase1 l c = (Inr None, ?c ?ip (prereadRW (cm_Raw cm) rest))"
      using assms(3,5,6,7) by (simp_all add: simps split del: if_split cong: if_cong)
    then have E: "connectPhase1 l c = (Inr (if cm_Kind cm = MsgKindPushReply then None else Some ch), ?c ?ip (prereadRW (cm_Raw cm) rest))"
      using True by simp
    show ?thesis by (rule that [OF E]) (simp_all add: True ch)
  next
    case False
    then have "connectPhase1 l c = (Inr (Some ch), ?c (if ch_RemoteIP ch \<noteq> [] then ch_RemoteIP ch else ?ip) rest)"
      using assms(3,5,6,7) by (simp add: simps split del: if_split cong: if_cong)
    then have E: "connectPhase1 l c =
        (Inr (if cm_Kind cm = MsgKindPushReply then None else Some ch), ?c (if ch_RemoteIP ch \<noteq> [] then ch_RemoteIP ch else ?ip) rest)"
      using False by simp
    show ?thesis by (rule that [OF E]) (simp_all add: False)
  qed
qed

subsection \<open>From the reply to the tunnel\<close>

definition reply_options :: "string \<Rightarrow> Profile \<Rightarrow> PushOptions option" where
  "reply_options raw p =
     (case (ParsePushReply raw, dns_ParsePushReply raw) of (Inr po, Inr _) \<Rightarrow> Some (applyStaticProfileOptions po p) | _ \<Rightarrow> None)"

text \<open>The reply selects the exporter and a cipher whose keys the exported material gives, and the TUN device opens.\<close>

definition serves :: "link \<Rightarrow> tls_session \<Rightarrow> string \<Rightarrow> PushOptions \<Rightarrow> bool" where
  "serves l tls raw po \<longleftrightarrow>
     po_KeyDerivation po = KeyDerivationTLSEKM \<and> lk_tun_ok l \<and>
     (case ts_ekm tls of None \<Rightarrow> False | Some km \<Rightarrow> \<not> isl (newDataChannel (po_Cipher po) (parsePeerID raw) 0 km))"

definition same_session :: "Client \<Rightarrow> Client \<Rightarrow> bool" where
  "same_session c c' \<longleftrightarrow>
     cl_rawConn c' = cl_rawConn c \<and> cl_conns c' = cl_conns c \<and> cl_dialLog c' = cl_dialLog c \<and> cl_authLog c' = cl_authLog c \<and>
     cl_cachedSAMLToken c' = cl_cachedSAMLToken c \<and> cl_cachedSAMLExpiry c' = cl_cachedSAMLExpiry c \<and>
     cl_cachedStateID c' = cl_cachedStateID c \<and> cl_cachedPhase1IP c' = cl_cachedPhase1IP c \<and> cl_prof c' = cl_prof c \<and>
     cl_reauthRequired c' = cl_reauthRequired c \<and> cl_doneErr c' = cl_doneErr c \<and> cl_MaxReconnects c' = cl_MaxReconnects c \<and>
     cl_clearOnCleanup c' = cl_clearOnCleanup c"

lemma apply_reply_options:
  assumes "reply_options raw (cl_prof c) = Some po"
  obtains d where "apply_reply raw c = (Inr po, c\<lparr>cl_pushOpts := Some po, cl_dnsOpts := d, cl_peerID := parsePeerID raw\<rparr>)"
  using assms by (auto simp: reply_options_def apply_reply_def cbind_def attempt_def ret_def lift_err_def Let_def split: sum.splits)

lemma start_tunnel_serves:
  assumes "reply_options raw (cl_prof c) = Some po" "cl_tlsConn c = Some tls" "serves l tls raw po"
  shows "\<exists>c'. start_tunnel l raw c = (Inr (), c') \<and> cl_state c' = stateTunnelUp \<and> same_session c c'"
proof -
  obtain d where a: "apply_reply raw c = (Inr po, c\<lparr>cl_pushOpts := Some po, cl_dnsOpts := d, cl_peerID := parsePeerID raw\<rparr>)"
    by (rule apply_reply_options [OF assms(1)])
  obtain km ch where k: "ts_ekm tls = Some km" "newDataChannel (po_Cipher po) (parsePeerID raw) 0 km = Inr ch"
    using assms(3) by (cases "ts_ekm tls"; cases "newDataChannel (po_Cipher po) (parsePeerID raw) 0 (the (ts_ekm tls))") (auto simp: serves_def)
  obtain mf mm where m: "effectiveMSSFix (cl_prof c) (po_Mssfix po) (parseTunMTU raw (pf_TunMTU (cl_prof c))) (pf_Proto (cl_prof c)) (po_Cipher po)
      (po_Compression po) (cl_remote c) = (mf, mm)" by fastforce
  show ?thesis
  proof (cases "po_Ifconfig po \<noteq> None \<or> po_Ifconfig6 po \<noteq> None")
    case True
    then show ?thesis using assms(2,3) a k m
      by (simp add: serves_def start_tunnel_def cbind_def session_keys_def attempt_def ret_def of_opt_def lift_err_def modify_def Let_def
          emit_def same_session_def)
  next
    case False
    then show ?thesis using assms(2,3) a k m
      by (simp add: serves_def start_tunnel_def cbind_def session_keys_def attempt_def ret_def of_opt_def lift_err_def modify_def Let_def
          emit_def same_session_def)
  qed
qed

text \<open>The reply asks for the legacy key derivation but no TLS secrets were captured.\<close>

lemma start_tunnel_panics:
  assumes "reply_options raw (cl_prof c) = Some po" "cl_tlsConn c = Some tls" "po_KeyDerivation po = KeyDerivationOpenVPNPRF" "cl_tlsSecrets c = None"
  shows "fst (start_tunnel l raw c) = Inl (Panic ''nil TLS secrets'')"
proof -
  obtain d where "apply_reply raw c = (Inr po, c\<lparr>cl_pushOpts := Some po, cl_dnsOpts := d, cl_peerID := parsePeerID raw\<rparr>)"
    by (rule apply_reply_options [OF assms(1)])
  then show ?thesis using assms(2-) by (simp add: start_tunnel_def cbind_def session_keys_def)
qed

lemma ParseControlMsg_push:
  assumes "HasPrefix raw ''PUSH_REPLY''" "NUL \<notin> set raw"
  obtains cm where "ParseControlMsg raw = Inr cm" "cm_Kind cm = MsgKindPushReply" "cm_Raw cm = raw"
proof -
  have "TrimRightNUL raw = raw" using assms(2) by (metis TrimRightNUL_free)
  then show ?thesis using assms(1) that by (simp add: ParseControlMsg_def ClassifyMsg_def Let_def)
qed

subsection \<open>The direct flow\<close>

lemma direct_reply_preread:
  assumes "HasPrefix raw ''PUSH_REPLY''" "NUL \<notin> set raw" "int (length raw) \<le> MaxControlMessageBytes" "cl_tlsRW c = Some (prereadRW raw rest, fin)"
  shows "direct_reply c = (Inr raw, c\<lparr>cl_dataCh := True, cl_tlsRW := Some (rest, fin)\<rparr>)"
proof -
  have w: "WriteControlMsg raw 0 = Inr (raw @ [NUL])" using assms(2,3) by (simp add: WriteControlMsg_def)
  obtain cm where cm: "ParseControlMsg raw = Inr cm" "cm_Kind cm = MsgKindPushReply" "cm_Raw cm = raw"
    by (rule ParseControlMsg_push [OF assms(1,2)])
  have "HandlePhase1 (prereadRW raw rest, fin) = ((Some cm, None), (rest, fin))"
    using ReadControlMsg_message [OF w, of rest fin] cm by (simp add: HandlePhase1_def prereadRW_stream)
  then show ?thesis using assms(4) cm by (simp add: direct_reply_def cbind_def modify_def)
qed

lemma connectPhase2_direct:
  assumes "cl_state c = stateConnecting" "cl_challenge c = Some \<lparr>ch_StateID = direct_state, ch_SAMLURL = [], ch_RemoteIP = []\<rparr>"
    and "cl_tlsRW c = Some (prereadRW raw rest, fin)" "HasPrefix raw ''PUSH_REPLY''" "NUL \<notin> set raw" "int (length raw) \<le> MaxControlMessageBytes"
  shows "connectPhase2 l tok c = start_tunnel l raw (c\<lparr>cl_cachedSAMLToken := tok, cl_cachedSAMLExpiry := TokenExpiry tok,
     cl_cachedPhase1IP := cl_phase1IP c, cl_dataCh := True, cl_tlsRW := Some (rest, fin)\<rparr>)"
proof -
  have "direct_reply (c\<lparr>cl_cachedSAMLToken := tok, cl_cachedSAMLExpiry := TokenExpiry tok, cl_cachedStateID := cl_cachedStateID c,
      cl_cachedPhase1IP := cl_phase1IP c\<rparr>) =
    (Inr raw, c\<lparr>cl_cachedSAMLToken := tok, cl_cachedSAMLExpiry := TokenExpiry tok, cl_cachedStateID := cl_cachedStateID c,
      cl_cachedPhase1IP := cl_phase1IP c, cl_dataCh := True, cl_tlsRW := Some (rest, fin)\<rparr>)"
    using assms(3) by (intro direct_reply_preread assms(4-6)) simp
  then show ?thesis using assms(1,2) by (simp add: connectPhase2_def cbind_def modify_def)
qed

lemma start_Connect:
  "Connect l1 l2 f (New_Client p) =
     (let c0 = emit StateConnecting ((New_Client p)\<lparr>cl_reauthRequired := False, cl_awsFormat := (DetectFlow p = FlowAWSSSO)\<rparr>) in
      if DetectFlow p = FlowAWSSSO then
        (case f of
           None \<Rightarrow> (Inl MissingTokenFn, c0)
         | Some f \<Rightarrow>
             cbind (\<lambda>c. report (connectPhase1 l1 c)) (\<lambda>chal.
             cbind (case chal of
                 None \<Rightarrow> ret []
               | Some ch \<Rightarrow>
                   (\<lambda>c. case f ch of
                      None \<Rightarrow> (Inl TokenFnFailed, emit StateError (emit StateWaitingSAML c))
                    | Some t \<Rightarrow> (Inr t, emit StateConnecting (emit StateWaitingSAML c)))) (\<lambda>token.
             \<lambda>c. report (connectPhase2 l2 token c))) c0)
      else
        cbind (\<lambda>c. report (connectPhase1 l1 c)) (\<lambda>chal.
          case chal of Some ch \<Rightarrow> raise UnexpectedChallenge | None \<Rightarrow> (\<lambda>c. report (connectPhase2 l2 [] c))) c0)"
  by (simp add: Connect_def New_Client_def Let_def)

lemma started_fields:
  "c0 = emit StateConnecting ((New_Client p)\<lparr>cl_reauthRequired := False, cl_awsFormat := a\<rparr>) \<Longrightarrow>
    cl_state c0 = stateNew \<and> cl_conns c0 = [] \<and> cl_prof c0 = p \<and> cl_dialLog c0 = [] \<and> cl_authLog c0 = [] \<and> cl_tlsSecrets c0 = None \<and>
    cl_cachedStateID c0 = [] \<and> cl_phase1IP c0 = []"
  by (simp add: emit_def New_Client_def)

lemma direct_flow:
  assumes "DetectFlow p \<noteq> FlowAWSSSO" "answers l raw rest" "lk_dial l = Some (h, ra)" "lk_tls l = Some tls" "HasPrefix raw ''PUSH_REPLY''"
  obtains c where "\<forall>l2. Connect l l2 f (New_Client p) = report (start_tunnel l2 raw c)" "cl_prof c = p" "cl_conns c = [h]" "cl_tlsConn c = Some tls"
    "cl_tlsSecrets c = None" "cl_dialLog c = [JoinHostPort (profile_host l p) (Itoa (pf_Port p))]" "cl_authLog c = [(''N/A'', ''ACS::35001'')]"
    "cl_cachedSAMLToken c = []" "cl_cachedStateID c = []"
proof -
  have raw: "NUL \<notin> set raw" "int (length raw) \<le> MaxControlMessageBytes" using assms(2) by (simp_all add: answers_def)
  obtain cm where cm: "ParseControlMsg raw = Inr cm" "cm_Kind cm = MsgKindPushReply" "cm_Raw cm = raw"
    by (rule ParseControlMsg_push [OF assms(5) raw(1)])
  define c0 where "c0 = emit StateConnecting ((New_Client p)\<lparr>cl_reauthRequired := False, cl_awsFormat := False\<rparr>)"
  note c0 = started_fields [OF c0_def]
  define ch where "ch = \<lparr>ch_StateID = direct_state, ch_SAMLURL = [], ch_RemoteIP = []\<rparr>"
  have new: "cl_state c0 = stateNew" "cl_conns c0 = []" using c0 by simp_all
  have k: "cm_Kind cm = MsgKindAuthFailedCRV1 \<and> cm_Challenge cm = Some ch \<or>
      cm_Kind cm = MsgKindPushReply \<and> ch = \<lparr>ch_StateID = direct_state, ch_SAMLURL = [], ch_RemoteIP = []\<rparr>" using cm(2) by (simp add: ch_def)
  obtain c1 where c1: "connectPhase1 l c0 = (Inr None, c1)" "cl_state c1 = stateConnecting" "cl_challenge c1 = Some ch" "cl_prof c1 = p"
      "cl_conns c1 = [h]" "cl_tlsConn c1 = Some tls" "cl_tlsSecrets c1 = None" "cl_tlsRW c1 = Some (prereadRW raw rest, snd (control_stream l))"
      "cl_dialLog c1 = [host_addr c0 (profile_host l p)]" "cl_authLog c1 = [(''N/A'', ''ACS::35001'')]" "cl_cachedStateID c1 = []"
    by (rule connectPhase1_answers [OF assms(2-4) cm(1) new k]) (use c0 cm in simp)
  define c2 where "c2 = c1\<lparr>cl_cachedSAMLToken := [], cl_cachedSAMLExpiry := TokenExpiry [],
     cl_cachedPhase1IP := cl_phase1IP c1, cl_dataCh := True, cl_tlsRW := Some (rest, snd (control_stream l))\<rparr>"
  have C: "Connect l l2 f (New_Client p) = report (start_tunnel l2 raw c2)" for l2
    using assms(1) c1(1) connectPhase2_direct [OF c1(2) c1(3) [unfolded ch_def] c1(8) assms(5) raw]
    by (simp add: start_Connect c0_def [symmetric] cbind_def report_def c2_def)
  show ?thesis by (rule that [OF allI [OF C]]) (simp_all add: c2_def c1 c0 host_addr_def)
qed

lemma report_fst: "fst (report m) = fst m"
  by (simp add: report_def split: prod.split sum.split)

lemma report_ok: "m = (Inr x, c) \<Longrightarrow> report m = (Inr x, c)"
  by (simp add: report_def)


subsection \<open>The SAML flow\<close>

text \<open>The address of the server of phase 1: the one named in the challenge, or else the peer of the first connection.\<close>

definition sticky_host :: "link \<Rightarrow> Profile \<Rightarrow> Challenge \<Rightarrow> net_addr \<Rightarrow> string" where
  "sticky_host l2 p ch ra =
     (if ch_RemoteIP ch \<noteq> [] then ch_RemoteIP ch else if addr_host ra \<noteq> [] then addr_host ra else profile_host l2 p)"

lemma crv1_reply_answers:
  assumes "answers l raw rest" "lk_dial l = Some (h, ra)" "lk_tls l = Some tls" "HasPrefix raw ''PUSH_REPLY''" "conns_ok c"
  defines "host \<equiv> if cl_phase1IP c = [] then profile_host l (cl_prof c) else cl_phase1IP c"
  shows "\<exists>c'. crv1_reply l ch tok c = (Inr raw, c') \<and> cl_prof c' = cl_prof c \<and> cl_tlsConn c' = Some tls \<and> cl_conns c' = [h] \<and> cl_rawConn c' = Some h \<and>
     cl_dialLog c' = cl_dialLog c @ [host_addr c host] \<and> cl_authLog c' = cl_authLog c @ [(''N/A'', BuildPhase2Password (ch_StateID ch) tok)] \<and>
     cl_cachedSAMLToken c' = cl_cachedSAMLToken c \<and> cl_cachedSAMLExpiry c' = cl_cachedSAMLExpiry c \<and>
     cl_cachedStateID c' = cl_cachedStateID c \<and> cl_cachedPhase1IP c' = cl_cachedPhase1IP c \<and>
     cl_reauthRequired c' = cl_reauthRequired c \<and> cl_doneErr c' = cl_doneErr c \<and> cl_MaxReconnects c' = cl_MaxReconnects c \<and>
     cl_clearOnCleanup c' = cl_clearOnCleanup c"
proof -
  obtain sid srv e where op: "\<forall>c. control_open False l c = (Inr (), c\<lparr>cl_clientSID := sid, cl_serverSID := srv, cl_recvExp := e, cl_sendSeq := 1\<rparr>)"
    using control_open_answers [OF assms(1), of False] by (elim exE)
  have nul: "NUL \<notin> set raw" using assms(1) by (simp add: answers_def)
  obtain cm where cm: "ParseControlMsg raw = Inr cm" "cm_Kind cm = MsgKindPushReply" "cm_Raw cm = raw"
    by (rule ParseControlMsg_push [OF assms(4) nul])
  have h: "HandlePhase1 (control_stream l) = ((Some cm, None), (rest, snd (control_stream l)))"
    using HandlePhase1_answers [OF assms(1) cm(1)] cm(2) by auto
  define d where "d = (close_raw c)\<lparr>cl_rawConn := None, cl_tlsConn := None, cl_tlsRW := None, cl_sendSeq := 0, cl_recvExp := 0, cl_dataCh := True\<rparr>"
  have d: "cl_conns d = []" "cl_prof d = cl_prof c" "cl_phase1IP d = cl_phase1IP c" "cl_dialLog d = cl_dialLog c" "cl_authLog d = cl_authLog c"
      "cl_cachedSAMLToken d = cl_cachedSAMLToken c" "cl_cachedSAMLExpiry d = cl_cachedSAMLExpiry c"
      "cl_cachedStateID d = cl_cachedStateID c" "cl_cachedPhase1IP d = cl_cachedPhase1IP c"
      "cl_reauthRequired d = cl_reauthRequired c" "cl_doneErr d = cl_doneErr c" "cl_MaxReconnects d = cl_MaxReconnects c" "cl_clearOnCleanup d = cl_clearOnCleanup c"
    using assms(5) close_raw_conns [OF assms(5)] by (simp_all add: d_def close_raw_def split: option.splits)
  show ?thesis using cm d assms(3)
    by (simp add: crv1_reply_def cbind_def modify_def d_def [symmetric] dial_answers [OF assms(2)] spec [OF op] tlsHandshake_def attempt_def of_opt_def ret_def
        auth_exchange_answers [OF assms(1)] h host_addr_def host_def)
qed

text \<open>C2 (SAML flow). With an AWS profile, a server that answers the first connection with a challenge and the second with a push reply,
  and a callback that returns a token, \<open>Connect\<close> brings the tunnel up over the second connection; the first one is closed.  It
  has dialled the profile's host and then the server that issued the challenge, never resolving the host name again; it has
  sent the placeholder credentials and then the state id of the challenge with the token; and it has cached exactly that
  token with its expiry, that state id and that address for a reconnection.\<close>

theorem saml_connect:
  assumes "DetectFlow p = FlowAWSSSO" "answers l1 m rest1" "lk_dial l1 = Some (h1, ra1)" "lk_tls l1 = Some tls1"
    and "ParseControlMsg m = Inr cm" "cm_Kind cm = MsgKindAuthFailedCRV1" "cm_Challenge cm = Some ch" "ch_StateID ch \<noteq> direct_state" "f ch = Some tok"
    and "answers l2 raw rest2" "lk_dial l2 = Some (h2, ra2)" "lk_tls l2 = Some tls2" "HasPrefix raw ''PUSH_REPLY''"
    and "reply_options raw p = Some po" "serves l2 tls2 raw po"
  shows "\<exists>c. Connect l1 l2 (Some f) (New_Client p) = (Inr (), c) \<and> cl_state c = stateTunnelUp \<and> cl_conns c = [h2] \<and>
    cl_dialLog c = [JoinHostPort (profile_host l1 p) (Itoa (pf_Port p)), JoinHostPort (sticky_host l2 p ch ra1) (Itoa (pf_Port p))] \<and>
    cl_authLog c = [(''N/A'', ''ACS::35001''), (''N/A'', BuildPhase2Password (ch_StateID ch) tok)] \<and>
    cl_cachedSAMLToken c = tok \<and> cl_cachedSAMLExpiry c = TokenExpiry tok \<and> cl_cachedStateID c = ch_StateID ch \<and>
    (ch_RemoteIP ch \<noteq> [] \<or> addr_host ra1 \<noteq> [] \<longrightarrow> cl_cachedPhase1IP c = sticky_host l2 p ch ra1)"
proof -
  define c0 where "c0 = emit StateConnecting ((New_Client p)\<lparr>cl_reauthRequired := False, cl_awsFormat := True\<rparr>)"
  note c0 = started_fields [OF c0_def]
  have new: "cl_state c0 = stateNew" "cl_conns c0 = []" using c0 by simp_all
  have k: "cm_Kind cm = MsgKindAuthFailedCRV1 \<and> cm_Challenge cm = Some ch \<or>
      cm_Kind cm = MsgKindPushReply \<and> ch = \<lparr>ch_StateID = direct_state, ch_SAMLURL = [], ch_RemoteIP = []\<rparr>" using assms(6,7) by simp
  obtain c1 where c1: "connectPhase1 l1 c0 = (Inr (Some ch), c1)" "cl_state c1 = stateConnecting" "cl_challenge c1 = Some ch" "cl_prof c1 = p"
      "cl_rawConn c1 = Some h1" "cl_conns c1 = [h1]"
      "cl_phase1IP c1 = (if ch_RemoteIP ch \<noteq> [] then ch_RemoteIP ch else addr_host ra1)"
      "cl_dialLog c1 = [host_addr c0 (profile_host l1 p)]" "cl_authLog c1 = [(''N/A'', ''ACS::35001'')]"
    by (rule connectPhase1_answers [OF assms(2-5) new k]) (use c0 assms(6) in \<open>auto split: if_splits\<close>)
  define c2 where "c2 = emit StateConnecting (emit StateWaitingSAML c1)"
  have c2: "cl_state c2 = stateConnecting" "cl_challenge c2 = Some ch" using c1(2,3) by (simp_all add: c2_def emit_def)
  define c3 where "c3 = c2\<lparr>cl_cachedSAMLToken := tok, cl_cachedSAMLExpiry := TokenExpiry tok, cl_cachedStateID := ch_StateID ch, cl_cachedPhase1IP := cl_phase1IP c2\<rparr>"
  have c3: "conns_ok c3" "cl_prof c3 = p" "cl_phase1IP c3 = cl_phase1IP c1" "cl_dialLog c3 = cl_dialLog c1" "cl_authLog c3 = cl_authLog c1"
      "cl_cachedSAMLToken c3 = tok" "cl_cachedSAMLExpiry c3 = TokenExpiry tok" "cl_cachedStateID c3 = ch_StateID ch" "cl_cachedPhase1IP c3 = cl_phase1IP c1"
    using c1 by (simp_all add: c3_def c2_def emit_def conns_ok_def)
  obtain c4 where c4: "crv1_reply l2 ch tok c3 = (Inr raw, c4)" "cl_prof c4 = p" "cl_tlsConn c4 = Some tls2" "cl_conns c4 = [h2]"
      "cl_dialLog c4 = cl_dialLog c1 @ [host_addr c3 (sticky_host l2 p ch ra1)]"
      "cl_authLog c4 = cl_authLog c1 @ [(''N/A'', BuildPhase2Password (ch_StateID ch) tok)]"
      "cl_cachedSAMLToken c4 = tok" "cl_cachedSAMLExpiry c4 = TokenExpiry tok" "cl_cachedStateID c4 = ch_StateID ch" "cl_cachedPhase1IP c4 = cl_phase1IP c1"
    using crv1_reply_answers [OF assms(10-13) c3(1), of ch tok] c3 c1(7) by (auto simp: sticky_host_def)
  have P2: "connectPhase2 l2 tok c2 = start_tunnel l2 raw c4"
    using c2 assms(8) c4(1) by (simp add: connectPhase2_def cbind_def modify_def c3_def [symmetric])
  obtain c5 where "start_tunnel l2 raw c4 = (Inr (), c5)" "cl_state c5 = stateTunnelUp" "same_session c4 c5"
    using start_tunnel_serves [OF _ c4(3) assms(15)] assms(14) c4(2) by auto
  moreover have "Connect l1 l2 (Some f) (New_Client p) = report (start_tunnel l2 raw c4)"
    using assms(1,9) c1(1) P2 by (simp add: start_Connect c0_def [symmetric] cbind_def report_def c2_def [symmetric])
  ultimately show ?thesis using c0 c1 c3 c4 by (auto simp: report_def same_session_def host_addr_def sticky_host_def)
qed

text \<open>(failed token callback). When the callback that collects the SAML token fails, \<open>Connect\<close> returns its error but leaves the
  connection of phase 1 open and the client connecting: every further \<open>Connect\<close> is refused until the application calls
  \<open>Disconnect\<close>, unlike after every other failure of the set-up.\<close>

theorem token_failure_leaves_connection:
  assumes "DetectFlow p = FlowAWSSSO" "answers l1 m rest1" "lk_dial l1 = Some (h1, ra1)" "lk_tls l1 = Some tls1"
    and "ParseControlMsg m = Inr cm" "cm_Kind cm = MsgKindAuthFailedCRV1" "cm_Challenge cm = Some ch" "f ch = None"
  shows "\<exists>c. Connect l1 l2 (Some f) (New_Client p) = (Inl TokenFnFailed, c) \<and> cl_state c = stateConnecting \<and> cl_conns c = [h1] \<and>
    fst (Connect l3 l4 (Some g) c) = Inl (BadState stateConnecting)"
proof -
  define c0 where "c0 = emit StateConnecting ((New_Client p)\<lparr>cl_reauthRequired := False, cl_awsFormat := True\<rparr>)"
  note c0 = started_fields [OF c0_def]
  have new: "cl_state c0 = stateNew" "cl_conns c0 = []" using c0 by simp_all
  have k: "cm_Kind cm = MsgKindAuthFailedCRV1 \<and> cm_Challenge cm = Some ch \<or>
      cm_Kind cm = MsgKindPushReply \<and> ch = \<lparr>ch_StateID = direct_state, ch_SAMLURL = [], ch_RemoteIP = []\<rparr>" using assms(6,7) by simp
  obtain c1 where c1: "connectPhase1 l1 c0 = (Inr (Some ch), c1)" "cl_state c1 = stateConnecting" "cl_prof c1 = p" "cl_conns c1 = [h1]"
    by (rule connectPhase1_answers [OF assms(2-5) new k]) (use c0 assms(6) in \<open>auto split: if_splits\<close>)
  have "Connect l1 l2 (Some f) (New_Client p) = (Inl TokenFnFailed, emit StateError (emit StateWaitingSAML c1))"
    using assms(1,8) c1(1) by (simp add: start_Connect c0_def [symmetric] cbind_def report_def)
  moreover have "fst (Connect l3 l4 (Some g) (emit StateError (emit StateWaitingSAML c1))) = Inl (BadState stateConnecting)"
    using assms(1) c1(2,3) by (simp add: Connect_def Let_def cbind_def report_def connectPhase1_def)
  ultimately show ?thesis using c1 by (intro exI [of _ "emit StateError (emit StateWaitingSAML c1)"]) (simp add: emit_def)
qed

subsection \<open>Concrete runs\<close>

definition demo_reply :: string where
  "demo_reply = ''PUSH_REPLY,ifconfig 10.8.0.6 10.8.0.5,ping 10,key-derivation tls-ekm''"

definition demo_challenge :: string where
  "demo_challenge = ''AUTH_FAILED,CRV1:R,192.0.2.9:state-1:dXNlcg==:https://idp.example.org/saml''"

lemma demo_free: "NUL \<notin> set demo_reply" "NUL \<notin> set demo_challenge"
  by code_simp+

definition demo_tls :: tls_session where
  "demo_tls = \<lparr>ts_ekm = Some (replicate 256 3), ts_keylog = []\<rparr>"

definition demo_link :: "nat \<Rightarrow> string \<Rightarrow> link" where
  "demo_link h msg =
     \<lparr>lk_label = None, lk_dial = Some (h, UDPAddr [192, 0, 2, 1]), lk_sid = Some (replicate 8 1), lk_write_err = (\<lambda>_. None), lk_start = 0,
      lk_arrivals = [(10, Inr (0x40 # replicate 8 2 @ [0, 0, 0, 0, 0]))], lk_ack_err = None, lk_tls = Some demo_tls,
      lk_rnd = Some (replicate 112 4), lk_auth_err = None,
      lk_records = \<lparr>tr_recs = [[0, 0, 0, 0, 2], [0], bytes_of_string (msg @ [NUL])], tr_err = IO_EOF\<rparr>,
      lk_push_err = None, lk_tun_ok = True, lk_owns = False, lk_now = 0\<rparr>"

lemma demo_reset: "good_reset (reset_answer (demo_link h msg))"
proof -
  have "good_reset (fst (sendWithRetry (\<lambda>_. None) P_CONTROL_HARD_RESET_SERVER_V2 2000000000 8 0 [(10, Inr (0x40 # replicate 8 2 @ [0, 0, 0, 0, 0]))]))"
    by code_simp
  then show ?thesis by (simp add: reset_answer_def demo_link_def)
qed

lemma demo_stream:
  "fst (consumeServerAuthPacket (lk_records (demo_link h msg))) = None \<and> fst (control_stream (demo_link h msg)) = msg @ [NUL]"
proof -
  have r: "tr_recs (lk_records (demo_link h msg)) = ([0, 0, 0, 0, 2] @ []) # [[0], bytes_of_string (msg @ [NUL])]"
    by (simp add: demo_link_def)
  show ?thesis by (simp add: stock_auth_skipped [OF r] control_stream_def Let_def del: bytes_of_string_append)
qed

lemma demo_answers:
  "NUL \<notin> set msg \<Longrightarrow> int (length msg) \<le> MaxControlMessageBytes \<Longrightarrow> answers (demo_link h msg) msg []"
  by (simp add: answers_def demo_reset demo_stream) (simp add: demo_link_def)

lemma demo_options:
  obtains po where "reply_options demo_reply p = Some po" "po_KeyDerivation po = KeyDerivationTLSEKM" "po_Cipher po = []"
proof -
  have "case (ParsePushReply demo_reply, dns_ParsePushReply demo_reply) of (Inr po, Inr _) \<Rightarrow> po_KeyDerivation po = KeyDerivationTLSEKM \<and> po_Cipher po = [] | _ \<Rightarrow> False"
    by code_simp
  then show ?thesis
    by (intro that [of "applyStaticProfileOptions (projr (ParsePushReply demo_reply)) p"])
      (auto simp: reply_options_def applyStaticProfileOptions_def split: sum.splits option.splits)
qed

lemma demo_serves:
  assumes "po_KeyDerivation po = KeyDerivationTLSEKM" "po_Cipher po = []"
  shows "serves (demo_link h msg) demo_tls demo_reply po"
proof -
  have "slice (replicate 256 (3::byte)) a b = replicate (b - a) 3" if "b \<le> 256" for a b
    using that by (simp add: slice_def min_def)
  then have "\<not> isl (newDataChannel [] pid 0 (replicate 256 3))" for pid
    by (simp add: newDataChannel_def Let_def New_def NewGCMCipher_def lift_dc_def ToUpper_def aes_NewCipher_def)
  then show ?thesis using assms by (simp add: serves_def demo_link_def demo_tls_def)
qed

definition demo_profile :: Profile where
  "demo_profile = default_profile\<lparr>pf_Remote := ''vpn.example.org''\<rparr>"


theorem saml_connect_witness:
  "\<exists>c. Connect (demo_link 7 demo_challenge) (demo_link 8 demo_reply) (Some (\<lambda>_. Some ''dG9rZW4='')) (New_Client (demo_profile\<lparr>pf_ForceSAMLFlow := True\<rparr>)) = (Inr (), c) \<and>
     cl_state c = stateTunnelUp \<and> cl_conns c = [8] \<and> cl_cachedStateID c = ''state-1'' \<and> cl_cachedPhase1IP c = ''192.0.2.9''"
proof -
  let ?p = "demo_profile\<lparr>pf_ForceSAMLFlow := True\<rparr>"
  obtain po where po: "reply_options demo_reply ?p = Some po" "po_KeyDerivation po = KeyDerivationTLSEKM" "po_Cipher po = []"
    by (rule demo_options)
  define cm where "cm = projr (ParseControlMsg demo_challenge)"
  have "case ParseControlMsg demo_challenge of Inl _ \<Rightarrow> False | Inr cm \<Rightarrow> cm_Kind cm = MsgKindAuthFailedCRV1 \<and>
      (case cm_Challenge cm of None \<Rightarrow> False | Some ch \<Rightarrow> ch_StateID ch = ''state-1'' \<and> ch_RemoteIP ch = ''192.0.2.9'')" by code_simp
  then obtain ch where ch: "ParseControlMsg demo_challenge = Inr cm" "cm_Kind cm = MsgKindAuthFailedCRV1" "cm_Challenge cm = Some ch"
      "ch_StateID ch = ''state-1''" "ch_RemoteIP ch = ''192.0.2.9''"
    by (auto simp: cm_def split: sum.splits option.splits)
  have f: "DetectFlow ?p = FlowAWSSSO" "HasPrefix demo_reply ''PUSH_REPLY''" by code_simp+
  have a: "answers (demo_link 7 demo_challenge) demo_challenge []" "answers (demo_link 8 demo_reply) demo_reply []"
    by (rule demo_answers, simp add: demo_free, simp add: demo_reply_def demo_challenge_def MaxControlMessageBytes_def)+
  have d: "lk_dial (demo_link h m) = Some (h, UDPAddr [192, 0, 2, 1])" "lk_tls (demo_link h m) = Some demo_tls" for h m
    by (simp_all add: demo_link_def)
  show ?thesis
    using saml_connect [OF f(1) a(1) d(1) d(2) ch(1-3) _ _ a(2) d(1) d(2) f(2) po(1) demo_serves [OF po(2,3)], of "\<lambda>_. Some ''dG9rZW4=''" "''dG9rZW4=''"] ch(4,5)
    by (auto simp: direct_state_def sticky_host_def)
qed

theorem token_failure_leaves_connection_witness:
  "\<exists>c. Connect (demo_link 7 demo_challenge) (demo_link 8 demo_reply) (Some (\<lambda>_. None)) (New_Client (demo_profile\<lparr>pf_ForceSAMLFlow := True\<rparr>)) =
      (Inl TokenFnFailed, c) \<and> cl_conns c = [7]"
proof -
  define cm where "cm = projr (ParseControlMsg demo_challenge)"
  have "case ParseControlMsg demo_challenge of Inl _ \<Rightarrow> False | Inr cm \<Rightarrow> cm_Kind cm = MsgKindAuthFailedCRV1 \<and> cm_Challenge cm \<noteq> None" by code_simp
  then obtain ch where ch: "ParseControlMsg demo_challenge = Inr cm" "cm_Kind cm = MsgKindAuthFailedCRV1" "cm_Challenge cm = Some ch"
    by (auto simp: cm_def split: sum.splits)
  have f: "DetectFlow (demo_profile\<lparr>pf_ForceSAMLFlow := True\<rparr>) = FlowAWSSSO" by code_simp
  have a: "answers (demo_link 7 demo_challenge) demo_challenge []"
    by (rule demo_answers, simp add: demo_free, simp add: demo_challenge_def MaxControlMessageBytes_def)
  have d: "lk_dial (demo_link 7 demo_challenge) = Some (7, UDPAddr [192, 0, 2, 1])" "lk_tls (demo_link 7 demo_challenge) = Some demo_tls"
    by (simp_all add: demo_link_def)
  show ?thesis using token_failure_leaves_connection [OF f a d ch, of "\<lambda>_. None" "demo_link 8 demo_reply"] by blast
qed

lemma demo_connected:
  "\<exists>c. Connect (demo_link 7 demo_reply) (demo_link 7 demo_reply) None (New_Client demo_profile) = (Inr (), c) \<and> cl_state c = stateTunnelUp \<and> cl_conns c = [7]"
proof -
  obtain po where po: "reply_options demo_reply demo_profile = Some po" "po_KeyDerivation po = KeyDerivationTLSEKM" "po_Cipher po = []"
    by (rule demo_options)
  have f: "DetectFlow demo_profile \<noteq> FlowAWSSSO" "HasPrefix demo_reply ''PUSH_REPLY''" by code_simp+
  have a: "answers (demo_link 7 demo_reply) demo_reply []"
    by (rule demo_answers) (simp_all add: demo_free, simp add: demo_reply_def MaxControlMessageBytes_def)
  have d: "lk_dial (demo_link 7 demo_reply) = Some (7, UDPAddr [192, 0, 2, 1])" "lk_tls (demo_link 7 demo_reply) = Some demo_tls"
    by (simp_all add: demo_link_def)
  obtain c where c: "\<forall>l2. Connect (demo_link 7 demo_reply) l2 None (New_Client demo_profile) = report (start_tunnel l2 demo_reply c)"
      "cl_prof c = demo_profile" "cl_conns c = [7]" "cl_tlsConn c = Some demo_tls"
    by (rule direct_flow [OF f(1) a d f(2), of None])
  have r: "reply_options demo_reply (cl_prof c) = Some po" using po(1) c(2) by simp
  obtain c' where c': "start_tunnel (demo_link 7 demo_reply) demo_reply c = (Inr (), c')" "cl_state c' = stateTunnelUp" "same_session c c'"
    using start_tunnel_serves [OF r c(4) demo_serves [OF po(2,3), of 7 demo_reply]] by (elim exE conjE)
  show ?thesis using c'(2,3) c(3) by (intro exI [of _ c']) (simp add: spec [OF c(1)] report_ok [OF c'(1)] same_session_def)
qed

subsection \<open>Every run\<close>



end
