(* ===== verification/Client_Reconnect.thy ===== *)
theory Client_Reconnect
  imports Client_Flows
begin

section \<open>Reconnection and the cached credentials\<close>

text \<open>
  What \<open>Reconnect\<close> dials, sends and waits for, when the cached credentials are cleared, and the calls that leave a
  connection or a panic behind.  The locale \<open>frame\<close> states once that a fact about parts of the client which the set-up
  steps do not write survives them; it is interpreted for the logs and for the cached state id.
\<close>

subsection \<open>What the set-up steps do not write\<close>

locale frame =
  fixes I :: "Client \<Rightarrow> bool"
  assumes I_abort: "I c \<Longrightarrow> I (setDisconnected e (close_raw c))"
    and I_clientSID: "I c \<Longrightarrow> I (c\<lparr>cl_clientSID := a\<rparr>)"
    and I_serverSID: "I c \<Longrightarrow> I (c\<lparr>cl_serverSID := a\<rparr>)"
    and I_sequence: "I c \<Longrightarrow> I (c\<lparr>cl_recvExp := x, cl_sendSeq := y\<rparr>)"
    and I_tlsConn: "I c \<Longrightarrow> I (c\<lparr>cl_tlsConn := t\<rparr>)"
    and I_tlsRW: "I c \<Longrightarrow> I (c\<lparr>cl_tlsRW := r\<rparr>)"
    and I_tlsSecrets: "I c \<Longrightarrow> I (c\<lparr>cl_tlsSecrets := s\<rparr>)"
    and I_reply: "I c \<Longrightarrow> I (c\<lparr>cl_pushOpts := po, cl_dnsOpts := d, cl_peerID := i\<rparr>)"
    and I_manager: "I c \<Longrightarrow> I (c\<lparr>cl_manager := m, cl_mssFix := y1, cl_mssFixMTU := z\<rparr>)"
    and I_tunDev: "I c \<Longrightarrow> I (c\<lparr>cl_tunDev := b\<rparr>)"
    and I_up: "I c \<Longrightarrow> I ((emit StateConnected (c\<lparr>cl_state := stateTunnelUp, cl_connectedAt := w\<rparr>))\<lparr>cl_cancelFn := True, cl_lastRecv := n, cl_goroutines := g\<rparr>)"
begin

lemma attempt_frame: "triple I (attempt r) (\<lambda>_. I) (\<lambda>_. I)"
  by (rule triple_attempt) (auto intro: I_abort)

lemma abort_frame: "triple I (abort e) Q (\<lambda>_. I)"
  by (rule triple_abort) (rule I_abort)

lemma raise_frame: "triple I (raise e) Q (\<lambda>_. I)"
  by (rule triple_raise)

lemmas frame_rules = triple_cbind [where R = "\<lambda>_. I" and E = "\<lambda>_. I"] attempt_frame abort_frame raise_frame triple_if triple_option triple_prod

lemma control_open_frame: "triple I (control_open b l) (\<lambda>_. I) (\<lambda>_. I)"
  unfolding control_open_def
  by (intro frame_rules triple_modify I_clientSID I_serverSID I_sequence)

lemma tlsHandshake_frame: "triple I (tlsHandshake l) (\<lambda>_. I) (\<lambda>_. I)"
  unfolding tlsHandshake_def by (intro frame_rules triple_modify I_tlsConn)

lemma session_keys_frame: "triple I (session_keys kd) (\<lambda>_. I) (\<lambda>_. I)"
proof -
  have "case attempt r c of (Inr x, c') \<Rightarrow> I c' | (Inl e, c') \<Rightarrow> I c'" if "I c" for c and r :: "(client_error, bytes) result"
    using that I_abort by (cases r) (simp_all add: attempt_def abort_def ret_def)
  then show ?thesis unfolding triple_def session_keys_def by (auto split: option.splits KeyDerivation.splits)
qed

lemma apply_reply_frame: "triple I (apply_reply raw) (\<lambda>_. I) (\<lambda>_. I)"
  unfolding apply_reply_def
  by (intro frame_rules) (simp add: triple_def Let_def I_reply)

lemma start_tunnel_frame: "triple I (start_tunnel l raw) (\<lambda>_. I) (\<lambda>_. I)"
  unfolding start_tunnel_def
  by (rule triple_cbind [OF apply_reply_frame], rule triple_cbind [OF session_keys_frame], rule triple_at, intro frame_rules triple_modify triple_ret)
    (auto simp: Let_def intro: I_manager I_tunDev I_up split: prod.split)

end

text \<open>A fact that also survives a dial, an authentication and the update of the cache survives both phases.\<close>

locale full_frame = frame +
  assumes I_authLog: "I c \<Longrightarrow> I (c\<lparr>cl_authLog := a1\<rparr>)"
    and I_dialFailed: "I c \<Longrightarrow> I (setDisconnected e (c\<lparr>cl_dialLog := d1\<rparr>))"
    and I_dialled: "I c \<Longrightarrow> I (c\<lparr>cl_dialLog := d1, cl_rawConn := h, cl_conns := hs, cl_remote := ra\<rparr>)"
    and I_start: "I c \<Longrightarrow> I (c\<lparr>cl_state := stateConnecting, cl_awsFormat := b\<rparr>)"
    and I_phase1IP: "I c \<Longrightarrow> I (c\<lparr>cl_phase1IP := ip\<rparr>)"
    and I_challenge: "I c \<Longrightarrow> I (c\<lparr>cl_challenge := ch, cl_tlsRW := r\<rparr>)"
    and I_dataCh: "I c \<Longrightarrow> I (c\<lparr>cl_dataCh := b\<rparr>)"
    and I_closed: "I c \<Longrightarrow> I ((close_raw c)\<lparr>cl_rawConn := None, cl_tlsConn := None, cl_tlsRW := None, cl_sendSeq := 0, cl_recvExp := 0, cl_dataCh := True\<rparr>)"
    and I_cache: "I c \<Longrightarrow> w = cl_cachedStateID c \<or> w \<noteq> direct_state \<Longrightarrow>
      I (c\<lparr>cl_cachedSAMLToken := t1, cl_cachedSAMLExpiry := x1, cl_cachedStateID := w, cl_cachedPhase1IP := ip\<rparr>)"
begin

lemma dial_frame: "triple I (dial l host) (\<lambda>_. I) (\<lambda>_. I)"
  unfolding triple_def dial_def by (auto simp: Let_def intro: I_dialFailed I_dialled split: option.splits)

lemma auth_exchange_frame: "triple I (auth_exchange l u pw) (\<lambda>_. I) (\<lambda>_. I)"
proof -
  obtain res r where r: "consumeServerAuthPacket (lk_records l) = (res, r)" by fastforce
  have log: "I (if lk_rnd l \<noteq> None then c\<lparr>cl_authLog := cl_authLog c @ [(u, pw)]\<rparr> else c)" if "I c" for c
    using that by (simp add: I_authLog)
  show ?thesis unfolding auth_exchange_def r
    by (rule triple_cbind, rule triple_apply [OF log attempt_frame], assumption, cases res)
      (simp_all add: abort_frame triple_cbind [OF attempt_frame triple_ret])
qed

lemma connectPhase1_frame: "triple I (connectPhase1 l) (\<lambda>_. I) (\<lambda>_. I)"
proof -
  have f: "triple I (cbind (modify f) (\<lambda>_. ret x)) (\<lambda>_. I) (\<lambda>_. I)" if "\<And>c. I c \<Longrightarrow> I (f c)" for f and x :: "Challenge option"
    using that by (intro frame_rules triple_modify triple_ret)
  have "I (c\<lparr>cl_challenge := ch, cl_tlsRW := r, cl_phase1IP := ip\<rparr>)" if "I c" for c ch r ip
    using I_phase1IP [OF I_challenge [OF that]] by simp
  then have msg: "triple I
     (case HandlePhase1 r of
          ((_, Some e), _) \<Rightarrow> abort (ControlMsg e)
        | ((None, None), _) \<Rightarrow> raise (Panic ''nil control message'')
        | ((Some cm, None), r1) \<Rightarrow>
            (if cm_Kind cm = MsgKindAuthFailedCRV1 then
               (case cm_Challenge cm of
                  None \<Rightarrow> raise (Panic ''nil challenge'')
                | Some ch \<Rightarrow>
                    cbind (modify (\<lambda>c. c\<lparr>cl_challenge := Some ch, cl_tlsRW := Some r1,
                       cl_phase1IP := (if ch_RemoteIP ch \<noteq> [] then ch_RemoteIP ch else cl_phase1IP c)\<rparr>)) (\<lambda>_. ret (Some ch)))
             else if cm_Kind cm = MsgKindPushReply then
               cbind (modify (\<lambda>c. c\<lparr>cl_challenge := Some \<lparr>ch_StateID = direct_state, ch_SAMLURL = [], ch_RemoteIP = []\<rparr>,
                  cl_tlsRW := Some (prereadRW (cm_Raw cm) (fst r1), snd r1)\<rparr>)) (\<lambda>_. ret None)
             else abort (UnexpectedKind (cm_Kind cm)))) (\<lambda>_. I) (\<lambda>_. I)" for r
    by (auto intro!: f abort_frame raise_frame I_challenge split: prod.split option.split)
  have "triple I (\<lambda>c.
      cbind (modify (\<lambda>c. c\<lparr>cl_state := stateConnecting, cl_awsFormat := cl_awsFormat c \<or> DetectFlow (cl_prof c) = FlowAWSSSO\<rparr>)) (\<lambda>_.
      cbind (dial l (profile_host l p)) (\<lambda>ra.
      cbind (modify (\<lambda>c. if addr_host ra \<noteq> [] then c\<lparr>cl_phase1IP := addr_host ra\<rparr> else c)) (\<lambda>_.
      cbind (control_open True l) (\<lambda>_.
      cbind (tlsHandshake l) (\<lambda>_.
      cbind (auth_exchange l ''N/A'' ''ACS::35001'') (\<lambda>r. F r)))))) c) (\<lambda>_. I) (\<lambda>_. I)" if "\<And>r. triple I (F r) (\<lambda>_. I) (\<lambda>_. I)" for F p
    by (intro frame_rules(1) triple_modify dial_frame control_open_frame tlsHandshake_frame auth_exchange_frame that) (auto intro: I_start I_phase1IP)
  from this [OF msg] show ?thesis unfolding triple_def connectPhase1_def by simp
qed

lemma direct_reply_frame: "triple I direct_reply (\<lambda>_. I) (\<lambda>_. I)"
  unfolding direct_reply_def
  by (intro frame_rules(1) triple_modify I_dataCh) (auto simp: triple_def abort_def intro!: I_abort I_tlsRW split: option.splits prod.splits)

lemma crv1_reply_frame: "triple I (crv1_reply l ch tok) (\<lambda>_. I) (\<lambda>_. I)"
proof -
  have "triple I (cbind (modify (\<lambda>c. c\<lparr>cl_tlsRW := r1\<rparr>)) (\<lambda>_. ret x)) (\<lambda>_. I) (\<lambda>_. I)" for r1 and x :: string
    by (intro frame_rules triple_modify triple_ret I_tlsRW)
  then show ?thesis unfolding crv1_reply_def
    by (intro frame_rules(1) triple_modify triple_at [OF dial_frame] control_open_frame tlsHandshake_frame auth_exchange_frame)
      (auto intro!: I_closed I_tlsSecrets abort_frame raise_frame split: prod.split option.split)
qed

lemma connectPhase2_frame: "triple I (connectPhase2 l tok) (\<lambda>_. I) (\<lambda>_. I)"
proof -
  have "triple I (cbind (modify (\<lambda>c. c\<lparr>cl_cachedSAMLToken := tok, cl_cachedSAMLExpiry := TokenExpiry tok,
             cl_cachedStateID := (if ch_StateID ch \<noteq> direct_state then ch_StateID ch else cl_cachedStateID c),
             cl_cachedPhase1IP := cl_phase1IP c\<rparr>)) (\<lambda>_.
          cbind (if ch_StateID ch = direct_state then direct_reply else crv1_reply l ch tok) (start_tunnel l))) (\<lambda>_. I) (\<lambda>_. I)" for ch
    by (rule triple_cbind [where R = "\<lambda>_. I"], rule triple_modify, rule I_cache, assumption, simp, rule triple_cbind [OF triple_if start_tunnel_frame])
      (rule direct_reply_frame, rule crv1_reply_frame)
  then show ?thesis unfolding triple_def connectPhase2_def by (auto split: option.split)
qed

end

definition logs :: "Profile \<Rightarrow> int \<Rightarrow> string list \<Rightarrow> (string \<times> string) list \<Rightarrow> Client \<Rightarrow> bool" where
  "logs p mx d a c \<longleftrightarrow> cl_prof c = p \<and> cl_MaxReconnects c = mx \<and> cl_dialLog c = d \<and> cl_authLog c = a"

definition named :: "Client \<Rightarrow> bool" where
  "named c \<longleftrightarrow> cl_cachedStateID c \<noteq> direct_state"

lemma logs_keeps [simp]:
  "logs p mx d a (emit s c) = logs p mx d a c" "logs p mx d a (close_raw c) = logs p mx d a c"
  "logs p mx d a (setDisconnected e c) = logs p mx d a c" "logs p mx d a (clearCredentialsLocked c) = logs p mx d a c"
  "logs p mx d a (reset c) = logs p mx d a c" "logs p mx d a (reconnect_state sv c) = logs p mx d a c"
  by (auto simp: logs_def emit_def close_raw_def setDisconnected_def clearCredentialsLocked_def reset_def reconnect_state_def Let_def split: option.splits)

lemma named_keeps [simp]:
  "named (emit s c) = named c" "named (close_raw c) = named c" "named (clearCredentialsLocked c)" "named (reset c) = named c"
  "named c \<Longrightarrow> named (setDisconnected e c)"
  by (auto simp: named_def emit_def close_raw_def setDisconnected_def clearCredentialsLocked_def reset_def Let_def direct_state_def split: option.splits)

interpretation log: frame "logs p mx d a" for p mx d a
  by unfold_locales (simp_all add: logs_def emit_def close_raw_def setDisconnected_def clearCredentialsLocked_def Let_def split: option.splits)

interpretation sid: full_frame named
  by unfold_locales (auto simp: named_def emit_def close_raw_def setDisconnected_def clearCredentialsLocked_def Let_def direct_state_def split: option.splits)

subsection \<open>What phase 2 dials and sends\<close>

definition tried :: "Profile \<Rightarrow> int \<Rightarrow> string list \<Rightarrow> (string \<times> string) list \<Rightarrow> string \<Rightarrow> string \<times> string \<Rightarrow> Client \<Rightarrow> bool" where
  "tried p mx d a addr cred c \<longleftrightarrow> logs p mx (d @ [addr]) a c \<or> logs p mx (d @ [addr]) (a @ [cred]) c"

interpretation trial: frame "tried p mx d a addr cred" for p mx d a addr cred
  by unfold_locales (auto simp: tried_def logs_def emit_def close_raw_def setDisconnected_def clearCredentialsLocked_def Let_def split: option.splits)

lemma auth_exchange_tried:
  "triple (logs p mx (d @ [addr]) a) (auth_exchange l u pw) (\<lambda>_. tried p mx d a addr (u, pw)) (\<lambda>_. tried p mx d a addr (u, pw))"
proof -
  obtain res r where r: "consumeServerAuthPacket (lk_records l) = (res, r)" by fastforce
  have log: "tried p mx d a addr (u, pw) (if lk_rnd l \<noteq> None then c\<lparr>cl_authLog := cl_authLog c @ [(u, pw)]\<rparr> else c)" if "logs p mx (d @ [addr]) a c" for c
    using that by (simp add: tried_def logs_def)
  show ?thesis unfolding auth_exchange_def r
    by (rule triple_cbind, rule triple_apply [OF log trial.attempt_frame], assumption, cases res)
      (simp_all add: trial.abort_frame triple_cbind [OF trial.attempt_frame triple_ret])
qed

lemma crv1_message_tried:
  "triple (tried p mx d a addr cred)
      (case HandlePhase1 r of
         ((m, Some e), _) \<Rightarrow> abort (if isPhase2CredentialsRejected m then CredentialsRejected else ControlMsg e)
       | ((None, None), _) \<Rightarrow> raise (Panic ''nil control message'')
       | ((Some cm, None), r1) \<Rightarrow>
           (if cm_Kind cm \<noteq> MsgKindPushReply
            then abort (if isPhase2CredentialsRejected (Some cm) then CredentialsRejected else UnexpectedKind (cm_Kind cm))
            else cbind (modify (\<lambda>c. c\<lparr>cl_tlsRW := Some r1\<rparr>)) (\<lambda>_. ret (cm_Raw cm)))) (\<lambda>_. tried p mx d a addr cred) (\<lambda>_. tried p mx d a addr cred)"
proof -
  obtain m e r1 where h: "HandlePhase1 r = ((m, e), r1)" by (metis prod.collapse)
  have "triple (tried p mx d a addr cred) (cbind (modify (\<lambda>c. c\<lparr>cl_tlsRW := Some r1\<rparr>)) (\<lambda>_. ret x)) (\<lambda>_. tried p mx d a addr cred) (\<lambda>_. tried p mx d a addr cred)"
    for x :: string
    by (intro trial.frame_rules triple_modify triple_ret trial.I_tlsRW)
  then show ?thesis unfolding h by (cases e; cases m) (simp_all add: trial.abort_frame trial.raise_frame)
qed

lemma crv1_reply_tried:
  assumes "ip \<noteq> []" "addr = JoinHostPort ip (Itoa (pf_Port p))" "cred = (''N/A'', BuildPhase2Password (ch_StateID ch) tok)"
  shows "triple (\<lambda>c. logs p mx d a c \<and> cl_phase1IP c = ip) (crv1_reply l ch tok) (\<lambda>_. tried p mx d a addr cred) (\<lambda>_. tried p mx d a addr cred)"
proof -
  let ?D = "\<lambda>(_ :: net_addr). logs p mx (d @ [addr]) a" and ?T = "\<lambda>_. tried p mx d a addr cred"
  have w: "triple P m Q (\<lambda>_. logs p mx (d @ [addr]) a) \<Longrightarrow> triple P m Q ?T" for P Q and m :: "'z act"
    by (auto simp: triple_def tried_def split: prod.splits sum.splits; metis)
  have close: "triple (\<lambda>c. logs p mx d a c \<and> cl_phase1IP c = ip)
      (modify (\<lambda>c. (close_raw c)\<lparr>cl_rawConn := None, cl_tlsConn := None, cl_tlsRW := None, cl_sendSeq := 0, cl_recvExp := 0, cl_dataCh := True\<rparr>))
      (\<lambda>_ c. logs p mx d a c \<and> cl_phase1IP c = ip) ?T"
    by (rule triple_modify) (auto simp: logs_def close_raw_def split: option.splits)
  have dial: "triple (\<lambda>c. logs p mx d a c \<and> cl_phase1IP c = ip) (\<lambda>c. dial l (if cl_phase1IP c = [] then profile_host l (cl_prof c) else cl_phase1IP c) c) ?D ?T"
    using assms(1) unfolding triple_def
    by (auto simp: dial_def Let_def tried_def logs_def assms(2) setDisconnected_def clearCredentialsLocked_def split: option.splits)
  have sec: "triple (logs p mx (d @ [addr]) a) (modify (\<lambda>c. c\<lparr>cl_tlsSecrets := s\<rparr>)) (\<lambda>_. logs p mx (d @ [addr]) a) ?T" for s
    by (rule triple_modify) (rule log.I_tlsSecrets)
  have auth: "triple (logs p mx (d @ [addr]) a) (auth_exchange l ''N/A'' (BuildPhase2Password (ch_StateID ch) tok)) (\<lambda>_. tried p mx d a addr cred) ?T"
    unfolding assms(3) by (rule auth_exchange_tried)
  show ?thesis unfolding crv1_reply_def
    by (rule triple_cbind [OF close], rule triple_cbind [OF dial], rule triple_cbind [OF w [OF log.control_open_frame]],
        rule triple_cbind [OF sec], rule triple_cbind [OF w [OF log.tlsHandshake_frame]],
        rule triple_cbind [OF auth crv1_message_tried])
qed

lemma connectPhase2_tried:
  assumes "logs p mx d a c" "cl_phase1IP c = ip" "ip \<noteq> []" "cl_state c = stateConnecting" "cl_challenge c = Some ch" "ch_StateID ch \<noteq> direct_state"
  shows "tried p mx d a (JoinHostPort ip (Itoa (pf_Port p))) (''N/A'', BuildPhase2Password (ch_StateID ch) tok) (snd (connectPhase2 l tok c))"
proof -
  let ?T = "\<lambda>_. tried p mx d a (JoinHostPort ip (Itoa (pf_Port p))) (''N/A'', BuildPhase2Password (ch_StateID ch) tok)"
  let ?m = "cbind (crv1_reply l ch tok) (start_tunnel l)"
  let ?c = "c\<lparr>cl_cachedSAMLToken := tok, cl_cachedSAMLExpiry := TokenExpiry tok, cl_cachedStateID := ch_StateID ch, cl_cachedPhase1IP := ip\<rparr>"
  have t: "triple (\<lambda>c. logs p mx d a c \<and> cl_phase1IP c = ip) ?m ?T ?T"
    by (rule triple_cbind [OF crv1_reply_tried [OF assms(3) refl refl] trial.start_tunnel_frame])
  have e: "connectPhase2 l tok c = ?m ?c" using assms(2,4-6) by (simp add: connectPhase2_def cbind_def modify_def)
  have c: "logs p mx d a ?c \<and> cl_phase1IP ?c = ip" using assms(1,2) by (simp add: logs_def)
  show ?thesis using tripleD [OF t c] unfolding e by (cases "?m ?c"; cases "fst (?m ?c)") auto
qed

lemma disconnect_wait_logs: "disconnect_wait b c = Some c' \<Longrightarrow> logs p mx d a c' = logs p mx d a c"
  by (auto simp: disconnect_wait_def disconnect_def teardown_def cleanup_def close_done_def Let_def logs_def emit_def close_raw_def clearCredentialsLocked_def
      split: if_splits option.splits)

subsection \<open>The reconnection loop\<close>

text \<open>The waits that start at the \<open>n\<close>-th attempt.\<close>

definition backoff_wait :: "nat \<Rightarrow> int" where
  "backoff_wait n = min 30 (5 * 2 ^ n) * 10 ^ 9"

lemma backoff_wait_next: "next_backoff (backoff_wait n) = backoff_wait (Suc n)" "backoff_wait 0 = backoffBase"
  by (auto simp: next_backoff_def backoff_wait_def backoffMax_def backoffBase_def min_def)

text \<open>\<open>k\<close> dials to one address and \<open>j\<close> authentications with one credential, starting from the \<open>n\<close>-th attempt.\<close>

definition paced :: "nat \<Rightarrow> int list \<Rightarrow> bool" where
  "paced n ws \<longleftrightarrow> ws = map backoff_wait [n - 1..<n - 1 + length ws]"

lemma paced_Cons: "paced (Suc n) (backoff_wait n # ws) = paced (Suc (Suc n)) ws"
  by (simp add: paced_def upt_rec [of n] del: upt_Suc)

lemma reconnect_loop_bounded:
  assumes "client_inv c" "logs p mx d a c" "sv_stateID sv \<noteq> direct_state" "reconnect_loop at as n b sv c = ((r, ws), c')"
    and "b = backoff_wait (n - 1)" "0 < mx \<longrightarrow> int n \<le> mx"
  shows "\<exists>k j. logs p mx (d @ replicate k (JoinHostPort (sv_serverIP sv) (Itoa (pf_Port p))))
      (a @ replicate j (''N/A'', BuildPhase2Password (sv_stateID sv) (sv_token sv))) c' \<and>
    j \<le> k \<and> k \<le> length as \<and> (0 < mx \<longrightarrow> int (n + k) \<le> mx) \<and> paced n ws \<and> length ws \<le> k + 1 \<and> (0 < mx \<and> mx \<le> int (n + length as) \<longrightarrow> r \<noteq> None)"
  using assms
proof (induction as arbitrary: n b c d a ws)
  case Nil
  then show ?case by (intro exI [of _ 0]) (auto simp: reconnect_loop.simps [of at "[]"] paced_def logs_def split: if_splits)
next
  case (Cons x as)
  let ?addr = "JoinHostPort (sv_serverIP sv) (Itoa (pf_Port p))" and ?cred = "(''N/A'', BuildPhase2Password (sv_stateID sv) (sv_token sv))"
  have mx: "cl_MaxReconnects c = mx" using Cons.prems(2) by (simp add: logs_def)
  have one: "paced n (waited n b)" using Cons.prems(5) by (cases n) (simp_all add: paced_def waited_def)
  from Cons.prems(1,4) show ?case
  proof (cases rule: reconnect_loop_round)
    case (attempt e l as' c1)
    define c2 where "c2 = reconnect_state sv (reset c1)"
    have l2: "logs p mx d a c2" using disconnect_wait_logs [OF attempt(4)] Cons.prems(2) by (simp add: c2_def)
    have f2: "cl_phase1IP c2 = sv_serverIP sv" "cl_state c2 = stateConnecting" "cl_challenge c2 = Some \<lparr>ch_StateID = sv_stateID sv, ch_SAMLURL = [], ch_RemoteIP = []\<rparr>"
      by (simp_all add: c2_def reconnect_state_def emit_def)
    obtain r2 c4 where p2: "connectPhase2 l (sv_token sv) c2 = (r2, c4)" by fastforce
    have t: "tried p mx d a ?addr ?cred c4"
      using connectPhase2_tried [OF l2 f2(1) _ f2(2,3), of "sv_token sv" l] p2 attempt(3) Cons.prems(3) by (simp add: tokenValid_def)
    then obtain j where j: "logs p mx (d @ [?addr]) (a @ replicate j ?cred) c4" "j \<le> 1"
      by (auto simp: tried_def intro: that [of 0] that [of 1])
    have lim: "0 < mx \<longrightarrow> int (Suc n) \<le> mx" using attempt(2) mx by auto
    have as: "as' = as" using attempt(1) by simp
    note at = attempt(7) [folded c2_def, unfolded p2 attempted_def prod.case as]
    have i4: "client_inv c4" if "\<And>e. r2 = Inl e \<Longrightarrow> \<not> isPanic e"
      using connectPhase2_inv [OF client_inv_intros(2) [OF reconnect_state_setting_up [OF reset_fresh [OF attempt(5,6)]]] p2 [unfolded c2_def] that] .
    have stop: ?thesis if "logs p mx (d @ [?addr]) (a @ replicate j ?cred) c'" "ws = waited n b" "r \<noteq> None"
      using that one lim j(2) by (intro exI [of _ 1] exI [of _ j]) (simp add: waited_def)
    show ?thesis
    proof (cases r2)
      case (Inr u)
      then show ?thesis using at j(1) by (intro stop) (auto simp: logs_def)
    next
      case (Inl err)
      consider (panic) "isPanic err" | (rejected) "\<not> isPanic err" "err = CredentialsRejected \<or> at err" | (again) "\<not> isPanic err" "err \<noteq> CredentialsRejected" "\<not> at err"
        by blast
      then show ?thesis
      proof cases
        case panic
        then show ?thesis using at Inl j(1) by (intro stop) simp_all
      next
        case rejected
        obtain c5 where "disconnect_wait False c4 = Some c5" using disconnect_wait_down [OF i4] Inl rejected by auto
        then show ?thesis using at Inl rejected j(1) disconnect_wait_logs by (intro stop) auto
      next
        case again
        obtain ws' where rl: "reconnect_loop at as (n + 1) (if 0 < n then next_backoff b else b) sv c4 = ((r, ws'), c')" "ws = waited n b @ ws'"
          using at Inl again by (auto split: prod.splits)
        have b': "(if 0 < n then next_backoff b else b) = backoff_wait (n + 1 - 1)"
          using Cons.prems(5) backoff_wait_next(1) [of "n - 1"] by (cases n) simp_all
        have i: "client_inv c4" using i4 Inl again by simp
        obtain k j' where kj: "logs p mx ((d @ [?addr]) @ replicate k ?addr) ((a @ replicate j ?cred) @ replicate j' ?cred) c'" "j' \<le> k" "k \<le> length as"
            "0 < mx \<longrightarrow> int (n + 1 + k) \<le> mx" "paced (n + 1) ws'" "length ws' \<le> k + 1" "0 < mx \<and> mx \<le> int (n + 1 + length as) \<longrightarrow> r \<noteq> None"
          using Cons.IH [OF i j(1) Cons.prems(3) rl(1) b'] lim by auto
        have "paced n ws" using kj(5) rl(2) Cons.prems(5) paced_Cons [of "n - 1" ws'] by (cases n) (simp_all add: waited_def paced_def)
        then show ?thesis using kj rl(2) j(2)
          by (intro exI [of _ "Suc k"] exI [of _ "j + j'"]) (auto simp: replicate_add waited_def)
      qed
    qed
  next
    case (invalid e l as' c1)
    then show ?thesis using one Cons.prems(2,6) disconnect_wait_logs [OF invalid(6)] by (intro exI [of _ 0]) (simp add: waited_def)
  qed (use one Cons.prems(2,6) in \<open>auto intro!: exI [of _ 0] simp: waited_def paced_def\<close>)
qed

subsection \<open>The cached state id of every run\<close>

lemma named_updates [simp]:
  "named (c\<lparr>cl_reauthRequired := x, cl_awsFormat := b\<rparr>) = named c" "named (c\<lparr>cl_reauthRequired := x\<rparr>) = named c" "named (c\<lparr>cl_doneErr := e\<rparr>) = named c"
  "named (c\<lparr>cl_clearOnCleanup := x\<rparr>) = named c" "named (c\<lparr>cl_reconnectCount := n\<rparr>) = named c" "named (c\<lparr>cl_doneClosed := x\<rparr>) = named c"
  "named (c\<lparr>cl_MaxReconnects := m\<rparr>) = named c" "named (reconnect_state sv c) = named c" "named (SetRelayPhase2 ip st c) = named c"
  by (simp_all add: named_def reconnect_state_def SetRelayPhase2_def emit_def)

lemma triple_snd: "triple I m (\<lambda>_. I) (\<lambda>_. I) \<Longrightarrow> I c \<Longrightarrow> m c = (r, c') \<Longrightarrow> I c'"
  by (cases r) (auto dest: tripleD)

lemma triple_same: "triple I m (\<lambda>_. I) (\<lambda>_. I) \<longleftrightarrow> (\<forall>c. I c \<longrightarrow> I (snd (m c)))"
  by (auto simp: triple_def split: prod.split sum.split) (metis prod.collapse)+

lemma report_named: "named (snd (report m)) = named (snd m)"
  by (cases m; cases "fst m") (auto simp: report_def)

lemma disconnect_named: "named c \<Longrightarrow> named (disconnect p c)"
  by (auto simp: disconnect_def Let_def) (auto simp: named_def emit_def)

lemma teardown_named: "named c \<Longrightarrow> close_done (teardown c) = Some c' \<Longrightarrow> named c'"
  by (auto simp: close_done_def teardown_def cleanup_def Let_def named_def emit_def clearCredentialsLocked_def direct_state_def split: if_splits)

lemma disconnect_wait_named: "named c \<Longrightarrow> disconnect_wait p c = Some c' \<Longrightarrow> named c'"
  by (auto simp: disconnect_wait_def Let_def dest: teardown_named [OF disconnect_named] intro: disconnect_named split: if_splits)

lemma reconnect_loop_named: "client_inv c \<Longrightarrow> named c \<Longrightarrow> reconnect_loop at as n b sv c = ((r, ws), c') \<Longrightarrow> (\<And>e. r = Some (Inl e) \<Longrightarrow> \<not> isPanic e) \<Longrightarrow> named c'"
proof (induction as arbitrary: n b c ws)
  case (Cons a as)
  from Cons.prems(1,3) show ?case
  proof (cases rule: reconnect_loop_round)
    case (attempt d l as' c1)
    obtain r2 c4 where p2: "connectPhase2 l (sv_token sv) (reconnect_state sv (reset c1)) = (r2, c4)" by fastforce
    have n4: "named c4" using triple_snd [OF sid.connectPhase2_frame _ p2] disconnect_wait_named [OF Cons.prems(2) attempt(4)] by simp
    note at = attempt(7) [unfolded p2 attempted_def prod.case]
    note i4 = connectPhase2_inv [OF client_inv_intros(2) [OF reconnect_state_setting_up [OF reset_fresh [OF attempt(5,6)]]] p2]
    show ?thesis
    proof (cases r2)
      case (Inl e)
      show ?thesis
      proof (cases "isPanic e")
        case True
        then show ?thesis using at Inl Cons.prems(4) by auto
      next
        case False
        then have i: "client_inv c4" using i4 Inl by simp
        then obtain c5 where "disconnect_wait False c4 = Some c5" using disconnect_wait_down by blast
        then show ?thesis using at Inl False Cons.IH [OF i n4] Cons.prems(4) attempt(1) disconnect_wait_named [OF n4]
          by (auto split: if_splits prod.splits)
      qed
    qed (use at n4 in auto)
  qed (use Cons.prems disconnect_wait_named in auto)
qed (auto simp: reconnect_loop.simps [of at "[]"] split: if_splits)

lemma Connect_named:
  assumes "named c" "Connect l1 l2 f c = (r, c')"
  shows "named c'"
proof -
  have rep: "triple named m (\<lambda>_. named) (\<lambda>_. named) \<Longrightarrow> triple named (\<lambda>c. report (m c)) (\<lambda>_. named) (\<lambda>_. named)" for m :: "'z act"
    by (simp add: triple_same report_named)
  have tok: "triple named (case chal of None \<Rightarrow> ret []
      | Some ch \<Rightarrow> (\<lambda>c. case g ch of None \<Rightarrow> (Inl TokenFnFailed, emit StateError (emit StateWaitingSAML c))
          | Some t \<Rightarrow> (Inr t, emit StateConnecting (emit StateWaitingSAML c)))) (\<lambda>_. named) (\<lambda>_. named)" for chal and g :: "Challenge \<Rightarrow> string option"
    by (auto simp: triple_def ret_def split: option.splits)
  have saml: "triple named (cbind (\<lambda>c. report (connectPhase1 l1 c)) (\<lambda>chal.
      cbind (case chal of None \<Rightarrow> ret []
      | Some ch \<Rightarrow> (\<lambda>c. case g ch of None \<Rightarrow> (Inl TokenFnFailed, emit StateError (emit StateWaitingSAML c))
          | Some t \<Rightarrow> (Inr t, emit StateConnecting (emit StateWaitingSAML c)))) (\<lambda>token c. report (connectPhase2 l2 token c)))) (\<lambda>_. named) (\<lambda>_. named)" for g
    by (rule triple_cbind [OF rep [OF sid.connectPhase1_frame]], rule triple_cbind [OF tok rep [OF sid.connectPhase2_frame]])
  have direct: "triple named (cbind (\<lambda>c. report (connectPhase1 l1 c)) (\<lambda>chal.
          case chal of Some ch \<Rightarrow> raise UnexpectedChallenge | None \<Rightarrow> (\<lambda>c. report (connectPhase2 l2 [] c)))) (\<lambda>_. named) (\<lambda>_. named)"
    by (rule triple_cbind [OF rep [OF sid.connectPhase1_frame]], rule triple_option [OF rep [OF sid.connectPhase2_frame]], rule triple_raise)
  have n: "named (emit StateConnecting (c\<lparr>cl_reauthRequired := False, cl_awsFormat := b\<rparr>))" for b using assms(1) by simp
  consider "c' = emit StateConnecting (c\<lparr>cl_reauthRequired := False, cl_awsFormat := True\<rparr>)"
    | g where "cbind (\<lambda>c. report (connectPhase1 l1 c)) (\<lambda>chal.
      cbind (case chal of None \<Rightarrow> ret []
      | Some ch \<Rightarrow> (\<lambda>c. case g ch of None \<Rightarrow> (Inl TokenFnFailed, emit StateError (emit StateWaitingSAML c))
          | Some t \<Rightarrow> (Inr t, emit StateConnecting (emit StateWaitingSAML c)))) (\<lambda>token c. report (connectPhase2 l2 token c)))
        (emit StateConnecting (c\<lparr>cl_reauthRequired := False, cl_awsFormat := True\<rparr>)) = (r, c')"
    | "cbind (\<lambda>c. report (connectPhase1 l1 c)) (\<lambda>chal.
          case chal of Some ch \<Rightarrow> raise UnexpectedChallenge | None \<Rightarrow> (\<lambda>c. report (connectPhase2 l2 [] c)))
        (emit StateConnecting (c\<lparr>cl_reauthRequired := False, cl_awsFormat := False\<rparr>)) = (r, c')"
    using assms(2) by (cases f) (simp_all add: Connect_def Let_def split: if_splits)
  then show ?thesis
  proof cases
    case 1
    then show ?thesis using n by simp
  next
    case 2
    then show ?thesis by (rule triple_snd [OF saml n])
  next
    case 3
    then show ?thesis by (rule triple_snd [OF direct n])
  qed
qed

lemma api_step_named:
  assumes "api_step c c'" "client_inv c" "named c"
  shows "named c'"
  using assms(1)
proof cases
  case connect
  then show ?thesis using Connect_named assms(3) by blast
next
  case phase2
  then show ?thesis using triple_snd [OF sid.connectPhase2_frame assms(3)] by blast
next
  case (expired e)
  then show ?thesis using assms(3) by (auto simp: sessionMonitorFor_def Let_def intro!: disconnect_named)
next
  case torn_down
  then show ?thesis using teardown_named assms(3) by blast
next
  case (reconnect at as r ws)
  have "named (reset c2)" if "disconnect_wait False (clearCredentialsLocked c) = Some c2" for c2
    using disconnect_wait_named [OF _ that] by simp
  then show ?thesis using reconnect reconnect_loop_named [OF assms(2,3)] disconnect_wait_down [OF clear_inv [OF assms(2)]]
    by (auto simp: Reconnect_def Let_def split: if_splits option.splits)
qed (use assms(3) in \<open>simp_all add: disconnect_named session_down_def\<close>)

lemma reachable_named: "api_step\<^sup>*\<^sup>* (New_Client p) c \<Longrightarrow> named c"
proof (induction rule: rtranclp_induct)
  case base
  then show ?case by (simp add: named_def New_Client_def direct_state_def)
next
  case (step c c')
  then show ?case using api_step_named reachable_inv by blast
qed

subsection \<open>Properties\<close>

definition needs_reauth :: "Client \<Rightarrow> bool" where
  "needs_reauth c \<longleftrightarrow> cl_reauthRequired c \<or> (\<exists>k. cl_doneErr c = Some (SessionEnded (SessionExpired k)))"

lemma Reconnect_cases:
  "Reconnect at as c = (if needs_reauth c then (case disconnect_wait False (clearCredentialsLocked c) of
        None \<Rightarrow> ((Some (Inl (Panic ''close of closed channel'')), []), clearCredentialsLocked c)
      | Some c2 \<Rightarrow> ((Some (Inl ErrReauthRequired), []), reset c2))
    else reconnect_loop at as 0 backoffBase \<lparr>sv_token = cl_cachedSAMLToken c, sv_expiry = cl_cachedSAMLExpiry c,
      sv_stateID = cl_cachedStateID c, sv_serverIP = cl_cachedPhase1IP c\<rparr> c)"
proof -
  have "(cl_reauthRequired c \<or> (case cl_doneErr c of Some (SessionEnded (SessionExpired _)) \<Rightarrow> True | _ \<Rightarrow> False)) = needs_reauth c"
    by (auto simp: needs_reauth_def split: option.splits client_error.splits saml_error.splits)
  then show ?thesis by (simp add: Reconnect_def Let_def)
qed

lemma doneErr_no_credentials [simp]: "no_credentials (c\<lparr>cl_doneErr := e\<rparr>) = no_credentials c"
  by (simp add: no_credentials_def)

lemma reset_no_credentials: "no_credentials c \<Longrightarrow> no_credentials (reset c)"
  by (simp add: no_credentials_def reset_def)

text \<open>C8 (reconnection). From any state of the client that needs no new authentication, \<open>Reconnect\<close> dials only the server
  it was connected to and sends only the cached state id with the cached token, at most once per dial; with a positive
  \<open>MaxReconnects\<close> it makes at most that many attempts and returns; before the second, third, \<open>\<dots>\<close> attempt it waits 5, 10, 20, 30,
  30, \<open>\<dots>\<close> seconds, and nothing before the first.  When the session was ended by the server's rejection, it dials nothing,
  clears every credential and returns \<open>ErrReauthRequired\<close> with the client new.\<close>

theorem reconnect_policy:
  assumes "api_step\<^sup>*\<^sup>* (New_Client p0) c" "Reconnect at as c = ((r, ws), c')"
  shows "(needs_reauth c \<longrightarrow> r = Some (Inl ErrReauthRequired) \<and> ws = [] \<and> cl_dialLog c' = cl_dialLog c \<and> cl_authLog c' = cl_authLog c \<and>
      no_credentials c' \<and> cl_state c' = stateNew) \<and>
    (\<not> needs_reauth c \<longrightarrow>
      (\<exists>k j. cl_dialLog c' = cl_dialLog c @ replicate k (JoinHostPort (cl_cachedPhase1IP c) (Itoa (pf_Port (cl_prof c)))) \<and>
        cl_authLog c' = cl_authLog c @ replicate j (''N/A'', BuildPhase2Password (cl_cachedStateID c) (cl_cachedSAMLToken c)) \<and> j \<le> k \<and>
        (0 < cl_MaxReconnects c \<longrightarrow> int k \<le> cl_MaxReconnects c \<and> (cl_MaxReconnects c \<le> int (length as) \<longrightarrow> r \<noteq> None)) \<and>
        ws = map (\<lambda>i. min 30 (5 * 2 ^ i) * 10 ^ 9) [0..<length ws] \<and> length ws \<le> k + 1))"
proof (cases "needs_reauth c")
  case True
  obtain c1 where c1: "disconnect_wait False (clearCredentialsLocked c) = Some c1" "no_credentials c1"
    using disconnect_wait_down [OF clear_inv [OF reachable_inv [OF assms(1)]]] by blast
  have "logs p mx d a c1 = logs p mx d a c" for p mx d a using disconnect_wait_logs [OF c1(1)] by simp
  from this [of "cl_prof c" "cl_MaxReconnects c" "cl_dialLog c" "cl_authLog c"] show ?thesis
    using assms(2) True c1 reset_no_credentials by (auto simp: Reconnect_cases logs_def reset_def)
next
  case False
  have l: "logs (cl_prof c) (cl_MaxReconnects c) (cl_dialLog c) (cl_authLog c) c" by (simp add: logs_def)
  define sv where "sv = \<lparr>sv_token = cl_cachedSAMLToken c, sv_expiry = cl_cachedSAMLExpiry c, sv_stateID = cl_cachedStateID c, sv_serverIP = cl_cachedPhase1IP c\<rparr>"
  have sv: "sv_stateID sv \<noteq> direct_state" using reachable_named [OF assms(1)] by (simp add: sv_def named_def)
  have r: "reconnect_loop at as 0 backoffBase sv c = ((r, ws), c')" using assms(2) False by (simp add: Reconnect_cases sv_def)
  have b: "backoffBase = backoff_wait (0 - 1)" using backoff_wait_next(2) by simp
  obtain k j where "logs (cl_prof c) (cl_MaxReconnects c) (cl_dialLog c @ replicate k (JoinHostPort (sv_serverIP sv) (Itoa (pf_Port (cl_prof c)))))
      (cl_authLog c @ replicate j (''N/A'', BuildPhase2Password (sv_stateID sv) (sv_token sv))) c'" "j \<le> k" "0 < cl_MaxReconnects c \<longrightarrow> int (0 + k) \<le> cl_MaxReconnects c"
      "paced 0 ws" "length ws \<le> k + 1" "0 < cl_MaxReconnects c \<and> cl_MaxReconnects c \<le> int (0 + length as) \<longrightarrow> r \<noteq> None"
    using reconnect_loop_bounded [OF reachable_inv [OF assms(1)] l sv r b] by auto
  moreover have "backoff_wait = (\<lambda>i. min 30 (5 * 2 ^ i) * 10 ^ 9)" by (simp add: fun_eq_iff backoff_wait_def)
  ultimately show ?thesis using False
    by (intro conjI impI; (rule exI [of _ k], rule exI [of _ j])?; simp add: logs_def sv_def paced_def)
qed

text \<open>(reconnection without a usable token). A session without a token, without a known expiry or whose token expires within
  30 seconds is never resumed: the first attempt returns \<open>ErrReauthRequired\<close> without dialling, with the client new.  So a
  session of the direct flow, and a token whose assertion states no expiry (which the comments call unlimited), cannot be
  resumed; and when the tunnel was up and no \<open>Disconnect\<close> was called, the token, state id and address stay cached.\<close>

theorem reconnect_without_token:
  assumes "api_step\<^sup>*\<^sup>* (New_Client p0) c" "\<not> needs_reauth c"
    and "cl_cachedSAMLToken c = [] \<or> cl_cachedSAMLExpiry c = zero_time \<or> cl_cachedSAMLExpiry c \<le> lk_now l + samlExpiryMargin"
  shows "\<exists>c'. Reconnect at ((b, l) # as) c = ((Some (Inl ErrReauthRequired), []), c') \<and> cl_state c' = stateNew \<and>
    cl_dialLog c' = cl_dialLog c \<and> cl_authLog c' = cl_authLog c \<and>
    (cl_state c = stateTunnelUp \<and> \<not> cl_clearOnCleanup c \<longrightarrow> cl_cachedSAMLToken c' = cl_cachedSAMLToken c \<and>
      cl_cachedStateID c' = cl_cachedStateID c \<and> cl_cachedPhase1IP c' = cl_cachedPhase1IP c)"
proof -
  obtain c1 where c1: "disconnect_wait True c = Some c1" using disconnect_wait_down [OF reachable_inv [OF assms(1)]] by blast
  have "logs p mx d a c1 = logs p mx d a c" for p mx d a using disconnect_wait_logs [OF c1] by simp
  from this [of "cl_prof c" "cl_MaxReconnects c" "cl_dialLog c" "cl_authLog c"]
  have "cl_dialLog (reset c1) = cl_dialLog c \<and> cl_authLog (reset c1) = cl_authLog c \<and> cl_state (reset c1) = stateNew" by (simp add: logs_def reset_def)
  moreover have "cl_cachedSAMLToken (reset c1) = cl_cachedSAMLToken c \<and> cl_cachedStateID (reset c1) = cl_cachedStateID c \<and> cl_cachedPhase1IP (reset c1) = cl_cachedPhase1IP c"
    if "cl_state c = stateTunnelUp" "\<not> cl_clearOnCleanup c"
    using c1 that by (auto simp: reset_def disconnect_wait_def disconnect_def teardown_def cleanup_def close_done_def Let_def emit_def close_raw_def split: if_splits option.splits)
  moreover have "reconnect_loop at ((b, l) # as) 0 backoffBase sv c = ((Some (Inl ErrReauthRequired), []), reset c1)" if "\<not> tokenValid (lk_now l) sv" for sv
    using that c1 by (simp add: reconnect_loop.simps [of at "(b, l) # as"])
  then have "Reconnect at ((b, l) # as) c = ((Some (Inl ErrReauthRequired), []), reset c1)"
    using assms(2,3) by (auto simp: Reconnect_cases tokenValid_def)
  ultimately show ?thesis by (intro exI [of _ "reset c1"]) simp
qed

text \<open>C18 (credentials). \<open>Disconnect\<close> followed by \<open>WaitForDisconnect\<close> leaves no credential (token, state id, address, challenge, pushed
  authentication token, TLS secrets) in the client, whatever it was doing; neither does a second phase that fails, which
  also leaves no socket open; and when the server ends the session the credentials are gone before the teardown starts.\<close>

theorem credentials_cleared:
  assumes "api_step\<^sup>*\<^sup>* (New_Client p) c"
  shows "(\<exists>c'. disconnect_wait False c = Some c' \<and> no_credentials c') \<and>
    (\<forall>l tok e c'. connectPhase2 l tok c = (Inl e, c') \<and> cl_state c = stateConnecting \<and> cl_challenge c \<noteq> None \<and> \<not> isPanic e \<longrightarrow>
      no_credentials c' \<and> cl_conns c' = [] \<and> cl_state c' = stateDisconnected) \<and>
    (\<forall>k. no_credentials (sessionMonitorFor (SessionExpired k) c))"
proof -
  note i = reachable_inv [OF assms]
  have "no_credentials c' \<and> cl_conns c' = [] \<and> cl_state c' = stateDisconnected"
    if "connectPhase2 l tok c = (Inl e, c')" "cl_state c = stateConnecting" "cl_challenge c \<noteq> None" "\<not> isPanic e" for l tok e c'
    using connectPhase2_ok [OF client_inv_dests(2) [OF i that(2)] that(1)] that(3,4) failed_inv by (auto simp: set_down_def)
  moreover have "no_credentials (disconnect True d)" if "no_credentials d" for d
    using that by (auto simp: disconnect_def Let_def no_credentials_def emit_def close_raw_def split: option.splits)
  then have "no_credentials (sessionMonitorFor (SessionExpired k) c)" for k
    by (simp add: sessionMonitorFor_def Let_def)
  ultimately show ?thesis using disconnect_wait_down [OF i, of False] by blast
qed

text \<open>(disconnecting during set-up). When \<open>Disconnect\<close> is called while a connection is being set up, it closes the socket, so
  that the step in progress fails and calls \<open>setDisconnected\<close>; when that runs before the teardown goroutine closes the
  completion channel, the goroutine closes it a second time and the process panics.\<close>

theorem disconnect_race:
  assumes "api_step\<^sup>*\<^sup>* (New_Client p) c" "cl_state c = stateConnecting"
  shows "cl_conns (disconnect b c) = [] \<and> close_done (teardown (setDisconnected e (disconnect b c))) = None \<and>
    close_done (setDisconnected e (teardown (disconnect b c))) \<noteq> None"
proof -
  note i = reachable_inv [OF assms(1)]
  have s: "cl_state (disconnect b c) = stateDisconnecting" using assms(2) by (simp add: disconnect_def Let_def)
  have d: "\<not> cl_doneClosed (disconnect b c)" using disconnect_inv [OF i, of b] s by (simp add: client_inv_def)
  have "cl_conns (disconnect b c) = []" using disconnect_inv [OF i, of b] s by (simp add: client_inv_def)
  moreover have "cl_doneClosed (teardown (setDisconnected e (disconnect b c)))"
    using s by (simp add: setDisconnected_def teardown_def cleanup_def Let_def)
  moreover have "\<not> cl_doneClosed (setDisconnected e (teardown (disconnect b c)))"
    using d by (simp add: setDisconnected_def teardown_def cleanup_def Let_def)
  ultimately show ?thesis by (simp add: close_done_def)
qed

subsection \<open>Concrete runs\<close>

definition demo_relay :: Client where
  "demo_relay = SetRelayPhase2 ''192.0.2.9'' ''state-1'' ((New_Client demo_profile)\<lparr>cl_MaxReconnects := 2\<rparr>)"

lemma demo_expiry: "TokenExpiry sample_token = 1767323044 * 10 ^ 9 + 500000000"
proof -
  have ok: "list_all seg_ok sample_segs" "next_expiry ''/>'' = None"
    "StdEncoding_Decode False sample_token = Some (bytes_of_string (expiry_doc sample_segs ''/>''))" by code_simp+
  show ?thesis using earliest_loop_doc [OF ok(1,2), of zero_time] ok(3) least_time_Min [of zero_time]
    by (simp add: TokenExpiry_def earliestNotOnOrAfter_def sample_segs_def sample_times zero_time_def)
qed

lemma demo_relay_reachable: "api_step\<^sup>*\<^sup>* (New_Client demo_profile) demo_relay"
proof -
  have "api_step (New_Client demo_profile) ((New_Client demo_profile)\<lparr>cl_MaxReconnects := 2\<rparr>)" by (rule limit)
  moreover have "api_step ((New_Client demo_profile)\<lparr>cl_MaxReconnects := 2\<rparr>) demo_relay"
    unfolding demo_relay_def by (rule relay) (simp add: New_Client_def)
  ultimately show ?thesis by (meson rtranclp.simps)
qed

lemma demo_relay_connected:
  obtains c where "api_step\<^sup>*\<^sup>* (New_Client demo_profile) c" "cl_state c = stateTunnelUp" "\<not> needs_reauth c" "cl_MaxReconnects c = 2"
    "cl_cachedSAMLToken c = sample_token" "cl_cachedStateID c = ''state-1''" "cl_cachedPhase1IP c = ''192.0.2.9''" "cl_dialLog c = [''192.0.2.9:1194'']"
    "cl_prof c = demo_profile" "cl_cachedSAMLExpiry c = TokenExpiry sample_token" "\<not> cl_clearOnCleanup c"
proof -
  let ?l = "demo_link 8 demo_reply" and ?ch = "\<lparr>ch_StateID = ''state-1'', ch_SAMLURL = [], ch_RemoteIP = ''192.0.2.9''\<rparr>"
  define c1 where "c1 = demo_relay\<lparr>cl_cachedSAMLToken := sample_token, cl_cachedSAMLExpiry := TokenExpiry sample_token, cl_cachedStateID := ''state-1'',
    cl_cachedPhase1IP := ''192.0.2.9''\<rparr>"
  have P2: "connectPhase2 ?l sample_token demo_relay = cbind (crv1_reply ?l ?ch sample_token) (start_tunnel ?l) c1"
    by (simp add: c1_def demo_relay_def SetRelayPhase2_def connectPhase2_def cbind_def modify_def direct_state_def)
  have c1: "conns_ok c1" "cl_prof c1 = demo_profile" "cl_phase1IP c1 = ''192.0.2.9''" "cl_dialLog c1 = []" "cl_cachedSAMLToken c1 = sample_token"
      "cl_cachedStateID c1 = ''state-1''" "cl_cachedPhase1IP c1 = ''192.0.2.9''" "\<not> cl_reauthRequired c1" "cl_doneErr c1 = None" "cl_MaxReconnects c1 = 2"
      "cl_cachedSAMLExpiry c1 = TokenExpiry sample_token" "\<not> cl_clearOnCleanup c1"
    by (simp_all add: c1_def demo_relay_def SetRelayPhase2_def New_Client_def conns_ok_def)
  have a: "answers ?l demo_reply []"
    by (rule demo_answers) (simp_all add: demo_free, simp add: demo_reply_def MaxControlMessageBytes_def)
  have d: "lk_dial ?l = Some (8, UDPAddr [192, 0, 2, 1])" "lk_tls ?l = Some demo_tls" by (simp_all add: demo_link_def)
  have f: "HasPrefix demo_reply ''PUSH_REPLY''" "JoinHostPort ''192.0.2.9'' (Itoa (pf_Port demo_profile)) = ''192.0.2.9:1194''" by code_simp+
  obtain c2 where c2: "crv1_reply ?l ?ch sample_token c1 = (Inr demo_reply, c2)" "cl_prof c2 = demo_profile" "cl_tlsConn c2 = Some demo_tls"
      "cl_dialLog c2 = [''192.0.2.9:1194'']" "cl_cachedSAMLToken c2 = sample_token" "cl_cachedStateID c2 = ''state-1''" "cl_cachedPhase1IP c2 = ''192.0.2.9''"
      "\<not> cl_reauthRequired c2" "cl_doneErr c2 = None" "cl_MaxReconnects c2 = 2"
      "cl_cachedSAMLExpiry c2 = TokenExpiry sample_token" "\<not> cl_clearOnCleanup c2"
    using crv1_reply_answers [OF a d f(1) c1(1), of ?ch sample_token] c1 f(2) by (auto simp: host_addr_def)
  obtain po where po: "reply_options demo_reply (cl_prof c2) = Some po" "po_KeyDerivation po = KeyDerivationTLSEKM" "po_Cipher po = []"
    by (rule demo_options)
  obtain c3 where c3: "start_tunnel ?l demo_reply c2 = (Inr (), c3)" "cl_state c3 = stateTunnelUp" "same_session c2 c3"
    using start_tunnel_serves [OF po(1) c2(3) demo_serves [OF po(2,3), of 8 demo_reply]] by (elim exE conjE)
  have "connectPhase2 ?l sample_token demo_relay = (Inr (), c3)" using P2 c2(1) c3(1) by (simp add: cbind_def)
  then have "api_step demo_relay c3" by (rule phase2) simp
  then have "api_step\<^sup>*\<^sup>* (New_Client demo_profile) c3" using demo_relay_reachable by (rule rtranclp.rtrancl_into_rtrancl [rotated])
  then show ?thesis by (rule that) (use c2 c3 in \<open>auto simp: same_session_def needs_reauth_def\<close>)
qed

theorem reconnect_policy_witness:
  "\<exists>c r ws c' k. Reconnect (\<lambda>_. False) (replicate 2 (False, (demo_link 8 [])\<lparr>lk_dial := None\<rparr>)) c = ((r, ws), c') \<and> r \<noteq> None \<and>
     cl_cachedSAMLToken c = sample_token \<and> cl_dialLog c' = ''192.0.2.9:1194'' # replicate k ''192.0.2.9:1194'' \<and> k \<le> 2"
proof -
  let ?as = "replicate 2 (False, (demo_link 8 [])\<lparr>lk_dial := None\<rparr>)"
  obtain c where c: "api_step\<^sup>*\<^sup>* (New_Client demo_profile) c" "\<not> needs_reauth c" "cl_MaxReconnects c = 2"
    "cl_cachedSAMLToken c = sample_token" "cl_cachedPhase1IP c = ''192.0.2.9''" "cl_dialLog c = [''192.0.2.9:1194'']" "cl_prof c = demo_profile"
    by (rule demo_relay_connected)
  obtain r ws c' where R: "Reconnect (\<lambda>_. False) ?as c = ((r, ws), c')" by (metis prod.collapse)
  have f: "JoinHostPort ''192.0.2.9'' (Itoa (pf_Port demo_profile)) = ''192.0.2.9:1194''" by code_simp
  have "\<exists>k. cl_dialLog c' = ''192.0.2.9:1194'' # replicate k ''192.0.2.9:1194'' \<and> k \<le> 2" "r \<noteq> None"
    using reconnect_policy [OF c(1) R] c(2-) f by auto
  then show ?thesis using R c(4) by blast
qed

theorem reconnect_without_token_witness:
  "\<exists>c c'. cl_cachedSAMLToken c = sample_token \<and>
     Reconnect (\<lambda>_. False) [(False, (demo_link 8 demo_reply)\<lparr>lk_now := 1767323044 * 10 ^ 9 + 500000000\<rparr>)] c = ((Some (Inl ErrReauthRequired), []), c') \<and>
     cl_cachedSAMLToken c' = sample_token"
proof -
  obtain c where c: "api_step\<^sup>*\<^sup>* (New_Client demo_profile) c" "cl_state c = stateTunnelUp" "\<not> needs_reauth c" "cl_cachedSAMLToken c = sample_token"
      "cl_cachedSAMLExpiry c = TokenExpiry sample_token" "\<not> cl_clearOnCleanup c"
    by (rule demo_relay_connected)
  have "cl_cachedSAMLExpiry c \<le> lk_now ((demo_link 8 demo_reply)\<lparr>lk_now := 1767323044 * 10 ^ 9 + 500000000\<rparr>) + samlExpiryMargin"
    using c(5) demo_expiry by (simp add: samlExpiryMargin_def)
  then show ?thesis
    using reconnect_without_token [OF c(1,3), of "(demo_link 8 demo_reply)\<lparr>lk_now := 1767323044 * 10 ^ 9 + 500000000\<rparr>" "\<lambda>_. False" False "[]"] c(2,4,6) by auto
qed

theorem credentials_cleared_witness:
  "\<exists>c c'. cl_cachedSAMLToken c = sample_token \<and> disconnect_wait False c = Some c' \<and> cl_cachedSAMLToken c' = [] \<and>
     cl_cachedSAMLToken (sessionMonitorFor (SessionExpired MsgKindAuthFailed) c) = []"
proof -
  obtain c where c: "api_step\<^sup>*\<^sup>* (New_Client demo_profile) c" "cl_cachedSAMLToken c = sample_token"
    by (rule demo_relay_connected)
  note C = credentials_cleared [OF c(1)]
  obtain c' where "disconnect_wait False c = Some c'" "no_credentials c'" using conjunct1 [OF C] by (elim exE conjE)
  then show ?thesis using c(2) spec [OF conjunct2 [OF conjunct2 [OF C]], of MsgKindAuthFailed]
    by (intro exI [of _ c] exI [of _ c']) (simp add: no_credentials_def)
qed

theorem disconnect_race_witness: "close_done (teardown (setDisconnected TLSFailed (disconnect False demo_relay))) = None"
proof -
  have "cl_state demo_relay = stateConnecting" by (simp add: demo_relay_def SetRelayPhase2_def)
  from disconnect_race [OF demo_relay_reachable this, of False TLSFailed] show ?thesis by blast
qed

end
