(* ===== verification/Rekey.thy ===== *)
theory Rekey
  imports Control_Relay Lifecycle
begin

section \<open>Key renegotiation\<close>

text \<open>
  Models \<open>rekeyLoop\<close>, \<open>doRekey\<close>, \<open>waitForRekeyReset\<close>, \<open>waitForControlAcks\<close>, \<open>rekeyAuthCredentials\<close>,
  \<open>rekeyPromotionDelay\<close> and \<open>scheduleRekeyPromotion\<close> of \<^verbatim>\<open>client.go\<close> over the client of \<open>Lifecycle\<close> and the relay of
  \<open>Control_Relay\<close>.  What happens outside during one renegotiation is a record \<open>rekey_link\<close>: which branch each
  \<^verbatim>\<open>select\<close> takes, the events of the relay between two steps of \<open>doRekey\<close>, and the TLS session.  The session that
  \<open>doRekey\<close> shares with the relay is the one the relay has registered under the key id.  A result \<open>None\<close> says that
  the listed events do not end the wait, or that the dispatcher of the relay blocks in one of them.
\<close>

subsection \<open>Waiting for the peer\<close>

datatype wait_ev =
    WRelay relay_ev \<comment> \<open>the relay makes a step\<close>
  | WCtx \<comment> \<open>the context is done\<close>
  | WTimer \<comment> \<open>the deadline is reached\<close>
  | WPeer \<comment> \<open>the branch on \<open>peerReset\<close>\<close>
  | WAcked \<comment> \<open>the branch on \<open>resetAcked\<close>\<close>
  | WPoll \<comment> \<open>the ticker\<close>

datatype rekey_error =
    NoConnection | RekeyContext | QueueReset | SendReset frame_error | ResetDeadline bool bool | RekeyTLSConfig | RekeyHandshake
  | RekeySendAuth auth_error | RekeyServerAuth server_auth_error | AckDeadline nat
  | RekeyExport | RekeyPRF session_error | RekeyChannel session_error

text \<open>A step of the relay, whichever session it concerns.\<close>

definition relay_step :: "relay_ev \<Rightarrow> relay \<Rightarrow> relay option" where
  "relay_step e r = map_option snd (relay_run 0 [e] r)"

fun relay_steps :: "relay_ev list \<Rightarrow> relay \<Rightarrow> relay option" where
  "relay_steps [] r = Some r"
| "relay_steps (e # es) r = (case relay_step e r of None \<Rightarrow> None | Some r1 \<Rightarrow> relay_steps es r1)"

definition chan_closed :: "(controlSession \<Rightarrow> bool option) \<Rightarrow> byte \<Rightarrow> relay \<Rightarrow> bool" where
  "chan_closed ch k r \<longleftrightarrow> (case r_sessions r k of None \<Rightarrow> False | Some s \<Rightarrow> ch s = Some True)"

text \<open>A branch of the \<^verbatim>\<open>select\<close> is only taken when its channel is closed; after that the local channel variable is nil and the
  branch is never taken again.\<close>

fun waitForRekeyReset :: "byte \<Rightarrow> bool \<Rightarrow> bool \<Rightarrow> wait_ev list \<Rightarrow> relay \<Rightarrow> ((rekey_error, unit) result \<times> relay) option" where
  "waitForRekeyReset k gotPeerReset gotResetAck evs r =
     (if gotPeerReset \<and> gotResetAck then Some (Inr (), r)
      else case evs of
        [] \<Rightarrow> None
      | WCtx # _ \<Rightarrow> Some (Inl RekeyContext, r)
      | WTimer # _ \<Rightarrow> Some (Inl (ResetDeadline gotPeerReset gotResetAck), r)
      | WPeer # evs' \<Rightarrow> waitForRekeyReset k (gotPeerReset \<or> chan_closed cs_peerReset k r) gotResetAck evs' r
      | WAcked # evs' \<Rightarrow> waitForRekeyReset k gotPeerReset (gotResetAck \<or> chan_closed cs_resetAcked k r) evs' r
      | WPoll # evs' \<Rightarrow> waitForRekeyReset k gotPeerReset gotResetAck evs' r
      | WRelay e # evs' \<Rightarrow>
          (case relay_step e r of None \<Rightarrow> None | Some r1 \<Rightarrow> waitForRekeyReset k gotPeerReset gotResetAck evs' r1))"

declare waitForRekeyReset.simps [simp del]

definition queue_len :: "byte \<Rightarrow> relay \<Rightarrow> nat" where
  "queue_len k r = (case r_sessions r k of None \<Rightarrow> 0 | Some s \<Rightarrow> Len (cs_sendQueue s))"

fun ack_poll :: "byte \<Rightarrow> wait_ev list \<Rightarrow> relay \<Rightarrow> ((rekey_error, unit) result \<times> relay) option" where
  "ack_poll k [] r = None"
| "ack_poll k (WCtx # _) r = Some (Inl RekeyContext, r)"
| "ack_poll k (WTimer # _) r = Some (Inl (AckDeadline (queue_len k r)), r)"
| "ack_poll k (WPoll # evs) r = (if queue_len k r = 0 then Some (Inr (), r) else ack_poll k evs r)"
| "ack_poll k (WRelay e # evs) r = (case relay_step e r of None \<Rightarrow> None | Some r1 \<Rightarrow> ack_poll k evs r1)"
| "ack_poll k (_ # evs) r = ack_poll k evs r"

definition waitForControlAcks :: "byte \<Rightarrow> wait_ev list \<Rightarrow> relay \<Rightarrow> ((rekey_error, unit) result \<times> relay) option" where
  "waitForControlAcks k evs r = (if queue_len k r = 0 then Some (Inr (), r) else ack_poll k evs r)"

subsection \<open>One renegotiation\<close>

definition next_key_id :: "byte \<Rightarrow> byte" where
  "next_key_id k = (let n = (k + 1) AND 0x07 in if n = 0 then 1 else n)"

definition rekey_session :: "byte \<Rightarrow> controlSession" where
  "rekey_session k =
     \<lparr>cs_keyID = k, cs_transport = NewControlTransport 64, cs_sendQueue = NewSendQueue 0, cs_recvWindow = NewRecvWindow,
      cs_registered = Some False, cs_peerReset = Some False, cs_resetAcked = Some False\<rparr>"

text \<open>The outcome of the two \<^verbatim>\<open>select\<close> statements around the registration; the context can also be chosen when the relay has already
  registered the session.\<close>

datatype registration = NotOffered | NotRegistered | RegisteredButDone | Registered

record rekey_link =
  rk_before :: "relay_ev list"
  rk_registration :: registration
  rk_write :: "frame_error option"
  rk_sent :: int
  rk_reset :: "wait_ev list"
  rk_config :: bool
  rk_tls :: "tls_session option"
  rk_handshake :: "relay_ev list"
  rk_rnd :: "bytes option"
  rk_auth_err :: "io_error option"
  rk_records :: tls_reader
  rk_auth :: "relay_ev list"
  rk_acks :: "wait_ev list"
  rk_now :: int

definition close_session :: "byte \<Rightarrow> relay \<Rightarrow> relay" where
  "close_session k r =
     r\<lparr>r_sessions := (\<lambda>j. if j = k then map_option (\<lambda>s. s\<lparr>cs_transport := Close (cs_transport s)\<rparr>) (r_sessions r j) else r_sessions r j)\<rparr>"

text \<open>\<^verbatim>\<open>rekey.sendQueue.Enqueue\<close>, which never fails.\<close>

definition enqueue_reset :: "int \<Rightarrow> byte \<Rightarrow> bytes \<Rightarrow> relay \<Rightarrow> relay" where
  "enqueue_reset now k pkt r =
     (case r_sessions r k of
        None \<Rightarrow> r
      | Some s \<Rightarrow> r\<lparr>r_sessions := (r_sessions r)(k \<mapsto> s\<lparr>cs_sendQueue := snd (Enqueue pkt now (cs_sendQueue s))\<rparr>)\<rparr>)"

definition rekeyAuthCredentials :: "Client \<Rightarrow> string \<times> string" where
  "rekeyAuthCredentials c =
     (if (case cl_pushOpts c of None \<Rightarrow> False | Some po \<Rightarrow> po_AuthToken po \<noteq> [])
      then (''N/A'', (case cl_pushOpts c of None \<Rightarrow> [] | Some po \<Rightarrow> po_AuthToken po))
      else if cl_cachedStateID c \<noteq> [] \<and> cl_cachedSAMLToken c \<noteq> []
      then (''N/A'', BuildPhase2Password (cl_cachedStateID c) (cl_cachedSAMLToken c))
      else ([], []))"

text \<open>Registration, SOFT_RESET and the wait for the reset exchange.\<close>

definition rekey_reset :: "rekey_link \<Rightarrow> bytes \<Rightarrow> byte \<Rightarrow> relay \<Rightarrow> ((rekey_error, unit) result \<times> relay) option" where
  "rekey_reset l sid k r0 =
     (case relay_steps (rk_before l) r0 of
        None \<Rightarrow> None
      | Some r \<Rightarrow>
          (if rk_registration l = NotOffered \<or> rk_registration l = NotRegistered then Some (Inl RekeyContext, r)
           else case relay_register (Some (rekey_session k)) r of
             None \<Rightarrow> None
           | Some r1 \<Rightarrow>
               (if rk_registration l = RegisteredButDone then Some (Inl RekeyContext, close_session k r1)
                else let softReset = buildSoftReset sid k; r2 = enqueue_reset (rk_sent l) k softReset r1 in
                  case rk_write l of
                    Some e \<Rightarrow> Some (Inl (SendReset e), close_session k r2)
                  | None \<Rightarrow>
                      (case waitForRekeyReset k False False (rk_reset l) (r2\<lparr>r_wire := r_wire r2 @ [softReset]\<rparr>) of
                         None \<Rightarrow> None
                       | Some (Inl e, r3) \<Rightarrow> Some (Inl e, close_session k r3)
                       | Some (Inr u, r3) \<Rightarrow> Some (Inr u, r3)))))"

text \<open>The TLS session on the registered transport and the authentication exchange.\<close>

definition rekey_auth :: "rekey_link \<Rightarrow> byte \<Rightarrow> Client \<Rightarrow> relay \<Rightarrow> ((rekey_error, tls_session) result \<times> Client \<times> relay) option" where
  "rekey_auth l k c r =
     (if \<not> rk_config l then Some (Inl RekeyTLSConfig, c, close_session k r)
      else case relay_steps (rk_handshake l) r of
        None \<Rightarrow> None
      | Some r1 \<Rightarrow>
          (case rk_tls l of
             None \<Rightarrow> Some (Inl RekeyHandshake, c, close_session k r1)
           | Some tls \<Rightarrow>
               (let (username, password) = rekeyAuthCredentials c;
                    c1 = (if rk_rnd l \<noteq> None then c\<lparr>cl_authLog := cl_authLog c @ [(username, password)]\<rparr> else c) in
                case fst (sendAuthPacket (\<lambda>_ w. (rk_auth_err l, w)) (rk_rnd l) (pf_Proto (cl_prof c)) (pf_TunMTU (cl_prof c))
                       username password (cl_awsFormat c) ()) of
                  Some e \<Rightarrow> Some (Inl (RekeySendAuth e), c1, close_session k r1)
                | None \<Rightarrow>
                    (case relay_steps (rk_auth l) r1 of
                       None \<Rightarrow> None
                     | Some r2 \<Rightarrow>
                         (case consumeServerAuthPacket (rk_records l) of
                            (Some e, _) \<Rightarrow> Some (Inl (RekeyServerAuth e), c1, close_session k r2)
                          | (None, _) \<Rightarrow>
                              (case waitForControlAcks k (rk_acks l) r2 of
                                 None \<Rightarrow> None
                               | Some (Inl e, r3) \<Rightarrow> Some (Inl e, c1, close_session k r3)
                               | Some (Inr _, r3) \<Rightarrow> Some (Inr tls, c1, r3)))))))"

text \<open>The keys of the new epoch: key derivation and cipher of the push reply, or the defaults without one.\<close>

definition rekey_channel :: "byte \<Rightarrow> tls_session \<Rightarrow> Client \<Rightarrow> (rekey_error, Channel) result" where
  "rekey_channel k tls c =
     (let keyDeriv = (case cl_pushOpts c of None \<Rightarrow> KeyDerivationTLSEKM | Some po \<Rightarrow> po_KeyDerivation po);
          cipherName = (case cl_pushOpts c of None \<Rightarrow> [] | Some po \<Rightarrow> po_Cipher po)
      in case key_material keyDeriv (ts_ekm tls) (captured (ts_keylog tls)) of
           Inl e \<Rightarrow> Inl (if keyDeriv = KeyDerivationTLSEKM then RekeyExport else RekeyPRF e)
         | Inr mat \<Rightarrow>
             (case newDataChannel cipherName (cl_peerID c) k mat of
                Inl e \<Rightarrow> Inl (RekeyChannel e)
              | Inr ch \<Rightarrow> Inr ch))"

text \<open>On success the new channel is the secondary of the manager and a monitor reads the new TLS session; the result is what the
  promotion timer keeps.  A client without a manager would dereference nil (\<open>None\<close>).\<close>

definition doRekey :: "rekey_link \<Rightarrow> Client \<Rightarrow> relay \<Rightarrow> ((rekey_error, byte \<times> tls_session) result \<times> Client \<times> relay) option" where
  "doRekey l c0 r =
     (let k = cl_nextKeyID c0; c = c0\<lparr>cl_nextKeyID := next_key_id k\<rparr> in
      if cl_rawConn c = None then Some (Inl NoConnection, c, r)
      else case rekey_reset l (cl_clientSID c) k r of
        None \<Rightarrow> None
      | Some (Inl e, r1) \<Rightarrow> Some (Inl e, c, r1)
      | Some (Inr _, r1) \<Rightarrow>
          (case rekey_auth l k c r1 of
             None \<Rightarrow> None
           | Some (Inl e, c1, r2) \<Rightarrow> Some (Inl e, c1, r2)
           | Some (Inr tls, c1, r2) \<Rightarrow>
               (case rekey_channel k tls c1 of
                  Inl e \<Rightarrow> Some (Inl e, c1, close_session k r2)
                | Inr ch \<Rightarrow>
                    (case cl_manager c1 of
                       None \<Rightarrow> None
                     | Some m \<Rightarrow>
                         Some (Inr (k, tls),
                           c1\<lparr>cl_manager := Some (Prepare (rk_now l) m ch), cl_goroutines := cl_goroutines c1 @ [''sessionMonitorFor'']\<rparr>, r2)))))"

subsection \<open>Promotion and the loop\<close>

text \<open>In nanoseconds.  Go divides towards zero; the product wraps around.\<close>

definition rekeyPromotionDelay :: "Profile \<Rightarrow> int" where
  "rekeyPromotionDelay p =
     (if 0 < pf_BecomePrimarySec p then duration (of_int (pf_BecomePrimarySec p))
      else let renegSec = (if pf_RenegSec p = 0 then sint DefaultRenegSec else pf_RenegSec p);
               delaySec = (if renegSec < 0 then - (- renegSec div 2) else renegSec div 2)
           in duration (of_int (if 60 < delaySec then 60 else delaySec)))"

text \<open>The timer goroutine when its timer fires before the context is done.  The control messages of the promoted epoch come from
  its own TLS session, \<open>rw\<close>.\<close>

definition scheduleRekeyPromotion :: "byte \<Rightarrow> tls_session \<Rightarrow> Saml.reader \<Rightarrow> Client \<Rightarrow> Client" where
  "scheduleRekeyPromotion k control rw c =
     (case cl_manager c of
        None \<Rightarrow> c
      | Some m \<Rightarrow>
          (case Promote m k of
             (False, _) \<Rightarrow> c
           | (True, m1) \<Rightarrow>
               (let c1 = c\<lparr>cl_manager := Some m1\<rparr> in
                if cl_state c1 = stateTunnelUp then c1\<lparr>cl_tlsConn := Some control, cl_tlsRW := Some rw\<rparr> else c1)))"

text \<open>A tick of \<open>rekeyLoop\<close> at time \<open>now\<close>; an error of \<open>doRekey\<close> is only logged.\<close>

definition rekeyLoop :: "int \<Rightarrow> rekey_link \<Rightarrow> Client \<Rightarrow> relay \<Rightarrow> ((rekey_error, byte \<times> tls_session) result option \<times> Client \<times> relay) option" where
  "rekeyLoop now l c r =
     (case cl_manager c of
        None \<Rightarrow> None
      | Some m \<Rightarrow>
          (if \<not> NeedsRekey now m then Some (None, c, r)
           else map_option (\<lambda>(res, c1, r1). (Some res, c1, r1)) (doRekey l c r)))"

subsection \<open>Key ids\<close>

lemma byte_cases8: "unat (k :: byte) < 8 \<Longrightarrow> k \<in> {0, 1, 2, 3, 4, 5, 6, 7}"
proof -
  assume "unat k < 8"
  then have "unat k \<in> {0, 1, 2, 3, 4, 5, 6, 7}" by auto
  then have "(of_nat (unat k) :: byte) \<in> of_nat ` {0, 1, 2, 3, 4, 5, 6, 7}" by blast
  then show ?thesis by simp
qed

lemma next_key_id_step:
  assumes "1 \<le> unat k" "unat k \<le> 7"
  shows "unat (next_key_id k) = (if unat k = 7 then 1 else unat k + 1)"
proof -
  have "k \<in> {0, 1, 2, 3, 4, 5, 6, 7}" by (rule byte_cases8) (use assms in simp)
  then show ?thesis using assms by (auto simp: next_key_id_def Let_def)
qed

lemma next_key_id_iterate: "unat ((next_key_id ^^ n) 1) = 1 + n mod 7"
proof (induction n)
  case (Suc n)
  have b: "n mod 7 < 7" by simp
  have "unat ((next_key_id ^^ Suc n) 1) = (if 1 + n mod 7 = 7 then 1 else 1 + n mod 7 + 1)"
    using next_key_id_step [of "(next_key_id ^^ n) 1"] Suc.IH b by simp
  also have "\<dots> = 1 + Suc n mod 7" using b by (simp add: mod_Suc)
  finally show ?case .
qed simp

lemma next_key_id_period:
  assumes "1 \<le> unat k" "unat k \<le> 7"
  shows "(next_key_id ^^ 7) k = k"
proof -
  have "k \<in> {0, 1, 2, 3, 4, 5, 6, 7}" by (rule byte_cases8) (use assms in simp)
  moreover have "(next_key_id ^^ 7) j = next_key_id (next_key_id (next_key_id (next_key_id (next_key_id (next_key_id (next_key_id j))))))" for j
    by (simp add: eval_nat_numeral)
  ultimately show ?thesis using assms by (elim insertE) (simp_all add: next_key_id_def)
qed

subsection \<open>Steps of the relay and the reset flags\<close>

lemma relay_step_cases:
  assumes "relay_step e r = Some r'"
  shows "(\<exists>pkt. e = EvPacket pkt \<and> relay_packet pkt r = Some r') \<or>
     (\<exists>k now n. e = EvRead k now n \<and> r' = snd (relay_read k now n r)) \<or>
     (\<exists>now k chunk. e = EvSend now k chunk \<and> r' = send_chunk now k chunk r) \<or>
     (\<exists>now order. e = EvTick now order \<and> r' = retransmit_tick now order r)"
  using assms by (cases e) (auto simp: relay_step_def split: option.splits prod.splits)

definition flags :: "controlSession \<Rightarrow> bool option \<times> bool option" where
  "flags s = (cs_peerReset s, cs_resetAcked s)"

lemma flags_updates [simp]:
  "flags (s\<lparr>cs_sendQueue := q\<rparr>) = flags s" "flags (s\<lparr>cs_recvWindow := w\<rparr>) = flags s"
  "flags (s\<lparr>cs_transport := t\<rparr>) = flags s" "flags (s\<lparr>cs_registered := x\<rparr>) = flags s"
  by (simp_all add: flags_def)

lemma receiveControl_flags: "receiveControl i p s = Some s' \<Longrightarrow> flags s' = flags s"
  by (auto simp: receiveControl_def Let_def split: prod.splits)

lemma send_chunk_flags:
  assumes "r_sessions r k = Some s"
  shows "\<exists>s'. r_sessions (send_chunk now k' chunk r) k = Some s' \<and> flags s' = flags s"
proof -
  have seg: "r_sessions r k = Some s \<Longrightarrow> \<exists>s'. r_sessions (send_segment now k' x r) k = Some s' \<and> flags s' = flags s" for x r s
    by (auto simp: send_segment_def Let_def split: option.splits)
  have "r_sessions r k = Some s \<Longrightarrow>
    \<exists>s'. r_sessions (fold (send_segment now k') xs r) k = Some s' \<and> flags s' = flags s" for xs r s
  proof (induction xs arbitrary: r s)
    case (Cons x xs)
    then show ?case using seg [OF Cons.prems, of x] by force
  qed simp
  then show ?thesis using assms by (simp add: send_chunk_def)
qed

lemma retransmit_tick_flags:
  assumes "r_sessions r k = Some s"
  shows "\<exists>s'. r_sessions (retransmit_tick now order r) k = Some s' \<and> flags s' = flags s"
proof -
  let ?f = "\<lambda>k (due, r). case r_sessions r k of None \<Rightarrow> (due, r)
            | Some sess \<Rightarrow> (let (d, q) = DueForRetransmit now (cs_sendQueue sess)
                 in (due @ d, r\<lparr>r_sessions := (r_sessions r)(k \<mapsto> sess\<lparr>cs_sendQueue := q\<rparr>)\<rparr>))"
  have "\<exists>s'. r_sessions (snd (fold ?f order x)) k = Some s' \<and> flags s' = flags s"
    if "\<exists>s'. r_sessions (snd x) k = Some s' \<and> flags s' = flags s" for x
    using that
  proof (induction order arbitrary: x)
    case (Cons j js)
    have "\<exists>s'. r_sessions (snd (?f j x)) k = Some s' \<and> flags s' = flags s"
      using Cons.prems by (cases x) (auto simp: Let_def split: option.splits prod.splits)
    then show ?case using Cons.IH [of "?f j x"] by simp
  qed simp
  from this [of "([], r)"] show ?thesis
    using assms by (auto simp: retransmit_tick_def Let_def split: prod.splits)
qed

text \<open>The packets that a session of key id \<open>k\<close> counts as the peer's reset and as the acknowledgement of its own.\<close>

fun ack_ids :: "nat \<Rightarrow> nat \<Rightarrow> bytes \<Rightarrow> u32 list" where
  "ack_ids 0 off pkt = []"
| "ack_ids (Suc n) off pkt =
     (if off + 4 \<le> length pkt then the (Uint32 (drop off pkt)) # ack_ids n (off + 4) pkt else [])"

definition opcode_key :: "byte \<Rightarrow> byte \<Rightarrow> bytes \<Rightarrow> bool" where
  "opcode_key op k pkt \<longleftrightarrow> pkt \<noteq> [] \<and> drop_bit 3 (pkt ! 0) = op \<and> (pkt ! 0) AND 0x07 = k"

definition peer_resets :: "byte \<Rightarrow> bytes \<Rightarrow> bool" where
  "peer_resets k pkt \<longleftrightarrow> opcode_key P_CONTROL_SOFT_RESET_V1 k pkt"

definition acks_reset :: "byte \<Rightarrow> bytes \<Rightarrow> bool" where
  "acks_reset k pkt \<longleftrightarrow>
     opcode_key P_CONTROL_SOFT_RESET_V1 k pkt \<and> 0 \<in> set (the (parseControlV1AckIDs pkt)) \<or>
     opcode_key P_ACK_V1 k pkt \<and> 11 \<le> length pkt \<and> 0 \<in> set (ack_ids (unat (pkt ! 9)) 10 pkt)"

lemma ack_loop_ids: "ack_loop n off pkt s = Some (fold ack_one (ack_ids n off pkt) s)"
proof (induction n off pkt s rule: ack_loop.induct)
  case (2 n off pkt s)
  show ?case
  proof (cases "off + 4 \<le> length pkt")
    case True
    then obtain pid where p: "Uint32 (drop off pkt) = Some pid" by (cases "Uint32 (drop off pkt)") auto
    then show ?thesis using 2 [OF True p] True by simp
  qed simp
qed simp

lemma fold_ack_one_flags:
  "flags (fold ack_one ids s) = (cs_peerReset s, if 0 \<in> set ids then close_once (cs_resetAcked s) else cs_resetAcked s)"
proof -
  have "cs_peerReset (fold ack_one ids s) = cs_peerReset s"
    by (induction ids arbitrary: s) (simp_all add: ack_one_def Let_def)
  then show ?thesis by (simp add: flags_def fold_ack_one_fields)
qed

definition new_flags :: "byte \<Rightarrow> bytes \<Rightarrow> bool option \<times> bool option \<Rightarrow> bool option \<times> bool option" where
  "new_flags k pkt f =
     (if fst f = None then (None, if acks_reset k pkt \<and> opcode_key P_ACK_V1 k pkt then close_once (snd f) else snd f)
      else (if peer_resets k pkt then close_once (fst f) else fst f, if acks_reset k pkt then close_once (snd f) else snd f))"

lemma relay_packet_flags:
  assumes "relay_packet pkt r = Some r'" "r_sessions r k = Some s"
  shows "\<exists>s'. r_sessions r' k = Some s' \<and> flags s' = new_flags k pkt (flags s)"
proof (cases "pkt = []")
  case True
  then show ?thesis using assms
    by (simp add: relay_packet_def new_flags_def acks_reset_def peer_resets_def opcode_key_def prod_eq_iff)
next
  case False
  define op where "op = drop_bit 3 (pkt ! 0)"
  define kid where "kid = (pkt ! 0) AND 0x07"
  note parts = op_def [symmetric] kid_def [symmetric]
  have ok: "opcode_key o' k pkt \<longleftrightarrow> op = o' \<and> kid = k" for o' using False by (simp add: opcode_key_def parts)
  obtain payload i where pp: "parseControlV1Payload pkt = Some (payload, i)"
    using parseControlV1Payload_total [of pkt] by auto
  obtain ids where ids: "parseControlV1AckIDs pkt = Some ids" using parseControlV1AckIDs_total [of pkt] by auto
  note new = new_flags_def acks_reset_def peer_resets_def ok ids opcode_defs
  consider (data) "op = P_DATA_V2" | (control) "op = P_CONTROL_V1" | (reset) "op = P_CONTROL_SOFT_RESET_V1"
    | (ack) "op = P_ACK_V1" | (other) "op \<notin> {P_DATA_V2, P_CONTROL_V1, P_CONTROL_SOFT_RESET_V1, P_ACK_V1}" by blast
  then show ?thesis
  proof cases
    case data
    then show ?thesis using assms False
      by (auto simp: relay_packet_def Let_def parts relay_data_def new prod_eq_iff split: option.splits if_splits)
  next
    case control
    then have rc: "relay_control kid pkt r = Some r'"
      using assms(1) False by (simp add: relay_packet_def Let_def parts opcode_defs)
    then show ?thesis using control pp ids assms(2)
      by (cases "kid = k")
        (auto simp: relay_control_def Let_def new prod_eq_iff dest!: receiveControl_flags split: option.splits)
  next
    case reset
    then have rc: "relay_soft_reset kid pkt r = Some r'"
      using assms(1) False by (simp add: relay_packet_def Let_def parts opcode_defs)
    show ?thesis
    proof (cases "kid = k \<and> cs_peerReset s \<noteq> None")
      case True
      then obtain s1 where s1: "receiveControl i [] s = Some s1"
        and s': "r_sessions r' k = Some ((fold ack_one ids s1)\<lparr>cs_peerReset := close_once (cs_peerReset (fold ack_one ids s1))\<rparr>)"
        using rc pp ids assms(2) by (auto simp: relay_soft_reset_def Let_def split: option.splits)
      have "flags s1 = flags s" by (rule receiveControl_flags [OF s1])
      then show ?thesis using s' True reset fold_ack_one_flags [of ids s1] by (auto simp: new flags_def)
    next
      case out: False
      then show ?thesis using rc pp ids assms(2) reset
        by (auto simp: relay_soft_reset_def Let_def new flags_def split: option.splits if_splits)
    qed
  next
    case ack
    then have rc: "relay_ack kid pkt r = Some r'"
      using assms(1) False by (simp add: relay_packet_def Let_def parts opcode_defs)
    show ?thesis
    proof (cases "kid = k \<and> 11 \<le> length pkt")
      case True
      then have "r_sessions r' k = Some (fold ack_one (ack_ids (unat (pkt ! 9)) 10 pkt) s)"
        using rc assms(2) by (auto simp: relay_ack_def Let_def ack_loop_ids)
      then show ?thesis using True ack fold_ack_one_flags [of "ack_ids (unat (pkt ! 9)) 10 pkt" s] by (auto simp: new flags_def)
    next
      case out: False
      then show ?thesis using rc assms(2) ack
        by (auto simp: relay_ack_def Let_def new flags_def ack_loop_ids split: option.splits if_splits)
    qed
  next
    case other
    then show ?thesis using assms False
      by (auto simp: relay_packet_def Let_def parts new prod_eq_iff split: if_splits)
  qed
qed

lemma relay_step_flags:
  assumes "relay_step e r = Some r'" "r_sessions r k = Some s"
  shows "\<exists>s'. r_sessions r' k = Some s' \<and>
     flags s' = (case e of EvPacket pkt \<Rightarrow> new_flags k pkt (flags s) | _ \<Rightarrow> flags s)"
  using relay_step_cases [OF assms(1)]
proof (elim disjE exE conjE)
  fix k' now n
  assume "e = EvRead k' now n" "r' = snd (relay_read k' now n r)"
  then show ?thesis using assms(2) by (auto simp: relay_read_def split: option.splits)
qed (use assms relay_packet_flags send_chunk_flags retransmit_tick_flags in auto)

text \<open>The flags of a session after a run of the relay: each is set exactly by the packets that set it.\<close>

lemma new_flags_some:
  "new_flags k pkt (Some a, Some b) = (Some (a \<or> peer_resets k pkt), Some (b \<or> acks_reset k pkt))"
  by (simp add: new_flags_def close_once_def)

lemma relay_steps_flags:
  "relay_steps es r = Some r' \<Longrightarrow> r_sessions r k = Some s \<Longrightarrow> flags s = (Some a, Some b) \<Longrightarrow>
   \<exists>s'. r_sessions r' k = Some s' \<and>
     flags s' = (Some (a \<or> (\<exists>pkt. EvPacket pkt \<in> set es \<and> peer_resets k pkt)),
                 Some (b \<or> (\<exists>pkt. EvPacket pkt \<in> set es \<and> acks_reset k pkt)))"
proof (induction es arbitrary: r s a b)
  case Nil
  then show ?case by simp
next
  case (Cons e es)
  obtain r1 where r1: "relay_step e r = Some r1" "relay_steps es r1 = Some r'"
    using Cons.prems(1) by (auto split: option.splits)
  obtain s1 where s1: "r_sessions r1 k = Some s1"
    and f: "flags s1 = (case e of EvPacket pkt \<Rightarrow> new_flags k pkt (flags s) | _ \<Rightarrow> flags s)"
    using relay_step_flags [OF r1(1) Cons.prems(2)] by blast
  show ?case
  proof (cases e)
    case (EvPacket pkt)
    then show ?thesis using Cons.IH [OF r1(2) s1] f Cons.prems(3) by (auto simp: new_flags_some)
  qed (use Cons.IH [OF r1(2) s1] f Cons.prems(3) in auto)
qed

lemma chan_closed_flags:
  "r_sessions r k = Some s \<Longrightarrow> chan_closed cs_peerReset k r \<longleftrightarrow> fst (flags s) = Some True"
  "r_sessions r k = Some s \<Longrightarrow> chan_closed cs_resetAcked k r \<longleftrightarrow> snd (flags s) = Some True"
  by (simp_all add: chan_closed_def flags_def)

subsection \<open>The waits\<close>

fun relay_evs :: "wait_ev list \<Rightarrow> relay_ev list" where
  "relay_evs [] = []"
| "relay_evs (WRelay e # evs) = e # relay_evs evs"
| "relay_evs (_ # evs) = relay_evs evs"

lemma relay_evs_append [simp]: "relay_evs (a @ b) = relay_evs a @ relay_evs b"
  by (induction a rule: relay_evs.induct) simp_all

lemma relay_evs_map [simp]: "relay_evs (map WRelay es) = es"
  by (induction es) simp_all

text \<open>A wait that succeeds has seen both packets.\<close>

lemma waitForRekeyReset_safe:
  "waitForRekeyReset k gp ga evs r = Some (Inr u, r') \<Longrightarrow> r_sessions r k = Some s \<Longrightarrow> flags s = (Some a, Some b) \<Longrightarrow>
   \<exists>n. relay_steps (take n (relay_evs evs)) r = Some r' \<and>
     (gp \<or> a \<or> (\<exists>pkt. EvPacket pkt \<in> set (take n (relay_evs evs)) \<and> peer_resets k pkt)) \<and>
     (ga \<or> b \<or> (\<exists>pkt. EvPacket pkt \<in> set (take n (relay_evs evs)) \<and> acks_reset k pkt))"
proof (induction evs arbitrary: gp ga r s a b)
  case Nil
  then show ?case by (auto simp: waitForRekeyReset.simps split: if_splits intro: exI [of _ 0])
next
  case (Cons e evs)
  show ?case
  proof (cases "gp \<and> ga")
    case True
    then show ?thesis using Cons.prems(1) by (auto simp: waitForRekeyReset.simps intro: exI [of _ 0])
  next
    case False
    show ?thesis
    proof (cases e)
      case (WRelay x)
      obtain r1 where r1: "relay_step x r = Some r1" "waitForRekeyReset k gp ga evs r1 = Some (Inr u, r')"
        using Cons.prems(1) WRelay False by (subst (asm) waitForRekeyReset.simps) (auto split: option.splits)
      obtain s1 where s1: "r_sessions r1 k = Some s1"
        "flags s1 = (Some (a \<or> (\<exists>pkt. EvPacket pkt = x \<and> peer_resets k pkt)), Some (b \<or> (\<exists>pkt. EvPacket pkt = x \<and> acks_reset k pkt)))"
        using relay_steps_flags [of "[x]" r r1 k s a b] r1(1) Cons.prems(2,3) by auto
      from Cons.IH [OF r1(2) s1] obtain n where
        "relay_steps (take n (relay_evs evs)) r1 = Some r'"
        "gp \<or> (a \<or> (\<exists>pkt. EvPacket pkt = x \<and> peer_resets k pkt)) \<or> (\<exists>pkt. EvPacket pkt \<in> set (take n (relay_evs evs)) \<and> peer_resets k pkt)"
        "ga \<or> (b \<or> (\<exists>pkt. EvPacket pkt = x \<and> acks_reset k pkt)) \<or> (\<exists>pkt. EvPacket pkt \<in> set (take n (relay_evs evs)) \<and> acks_reset k pkt)"
        by blast
      then show ?thesis using r1(1) WRelay by (intro exI [of _ "Suc n"]) auto
    next
      case WPeer
      then have "waitForRekeyReset k (gp \<or> chan_closed cs_peerReset k r) ga evs r = Some (Inr u, r')"
        using Cons.prems(1) False by (subst (asm) waitForRekeyReset.simps) auto
      from Cons.IH [OF this Cons.prems(2,3)] show ?thesis
        using WPeer chan_closed_flags(1) [OF Cons.prems(2)] Cons.prems(3) by auto
    next
      case WAcked
      then have "waitForRekeyReset k gp (ga \<or> chan_closed cs_resetAcked k r) evs r = Some (Inr u, r')"
        using Cons.prems(1) False by (subst (asm) waitForRekeyReset.simps) auto
      from Cons.IH [OF this Cons.prems(2,3)] show ?thesis
        using WAcked chan_closed_flags(2) [OF Cons.prems(2)] Cons.prems(3) by auto
    next
      case WPoll
      then have "waitForRekeyReset k gp ga evs r = Some (Inr u, r')"
        using Cons.prems(1) False by (subst (asm) waitForRekeyReset.simps) auto
      from Cons.IH [OF this Cons.prems(2,3)] show ?thesis using WPoll by auto
    qed (use Cons.prems(1) False in \<open>subst (asm) waitForRekeyReset.simps, simp\<close>)+
  qed
qed

text \<open>A wait in which both packets arrive ends.\<close>

lemma waitForRekeyReset_relay:
  "\<not> (gp \<and> ga) \<Longrightarrow> relay_steps es r = Some r' \<Longrightarrow>
   waitForRekeyReset k gp ga (map WRelay es @ evs) r = waitForRekeyReset k gp ga evs r'"
  by (induction es arbitrary: r) (auto simp: waitForRekeyReset.simps [of k gp ga "WRelay _ # _"] split: option.splits)

lemma waitForRekeyReset_completes:
  assumes "relay_steps es r = Some r'" "r_sessions r k = Some s" "flags s = (Some a, Some b)"
    and "\<exists>pkt. EvPacket pkt \<in> set es \<and> peer_resets k pkt" "\<exists>pkt. EvPacket pkt \<in> set es \<and> acks_reset k pkt"
  shows "waitForRekeyReset k False False (map WRelay es @ [WPeer, WAcked]) r = Some (Inr (), r')"
proof -
  obtain s' where s': "r_sessions r' k = Some s'" "flags s' = (Some True, Some True)"
    using relay_steps_flags [OF assms(1-3)] assms(4,5) by auto
  have "waitForRekeyReset k False False [WPeer, WAcked] r' = Some (Inr (), r')"
    using s' chan_closed_flags [OF s'(1)] by (simp add: waitForRekeyReset.simps)
  then show ?thesis using waitForRekeyReset_relay [of False False es r r' k "[WPeer, WAcked]"] assms(1) by simp
qed

lemma waitForControlAcks_completes:
  assumes "relay_steps es r = Some r'" "queue_len k r' = 0"
  shows "\<exists>n. waitForControlAcks k (map WRelay es @ [WPoll]) r = Some (Inr (), the (relay_steps (take n es) r))"
proof (cases "queue_len k r = 0")
  case True
  then show ?thesis by (auto simp: waitForControlAcks_def intro: exI [of _ 0])
next
  case False
  have "relay_steps es r = Some r' \<Longrightarrow> queue_len k r' = 0 \<Longrightarrow> ack_poll k (map WRelay es @ [WPoll]) r = Some (Inr (), r')" for r
    by (induction es arbitrary: r) (auto split: option.splits)
  then show ?thesis using assms False
    by (auto simp: waitForControlAcks_def intro!: exI [of _ "length es"])
qed

lemma ack_poll_queue: "ack_poll k evs r = Some (Inr u, r') \<Longrightarrow> queue_len k r' = 0"
  by (induction k evs r rule: ack_poll.induct) (auto split: if_splits option.splits)

lemma waitForControlAcks_queue: "waitForControlAcks k evs r = Some (Inr u, r') \<Longrightarrow> queue_len k r' = 0"
  by (auto simp: waitForControlAcks_def dest: ack_poll_queue split: if_splits)

subsection \<open>What a renegotiation does\<close>

text \<open>The relay when the wait for the reset exchange starts.\<close>

definition reset_sent :: "rekey_link \<Rightarrow> bytes \<Rightarrow> byte \<Rightarrow> relay \<Rightarrow> relay" where
  "reset_sent l sid k r =
     r\<lparr>r_sessions := (r_sessions r)(k \<mapsto> (rekey_session k)\<lparr>cs_registered := Some True,
         cs_sendQueue := snd (Enqueue (buildSoftReset sid k) (rk_sent l) (NewSendQueue 0))\<rparr>),
       r_wire := r_wire r @ [buildSoftReset sid k]\<rparr>"

lemma rekey_reset_eq:
  assumes "relay_steps (rk_before l) r = Some r0" "rk_registration l = Registered" "rk_write l = None"
  shows "rekey_reset l sid k r =
    (case waitForRekeyReset k False False (rk_reset l) (reset_sent l sid k r0) of
       None \<Rightarrow> None
     | Some (Inl e, r3) \<Rightarrow> Some (Inl e, close_session k r3)
     | Some (Inr u, r3) \<Rightarrow> Some (Inr u, r3))"
  using assms by (simp add: rekey_reset_def relay_register_def rekey_session_def enqueue_reset_def reset_sent_def Let_def)

lemma rekey_reset_Inr:
  assumes "rekey_reset l sid k r = Some (Inr u, r1)"
  shows "\<exists>r0. relay_steps (rk_before l) r = Some r0 \<and>
    waitForRekeyReset k False False (rk_reset l) (reset_sent l sid k r0) = Some (Inr u, r1)"
proof -
  obtain r0 where r0: "relay_steps (rk_before l) r = Some r0" using assms by (auto simp: rekey_reset_def split: option.splits)
  have reg: "rk_registration l = Registered" using assms r0
    by (cases "rk_registration l") (auto simp: rekey_reset_def split: option.splits)
  have w: "rk_write l = None" using assms r0 reg
    by (auto simp: rekey_reset_def Let_def relay_register_def rekey_session_def split: option.splits)
  show ?thesis using assms r0 rekey_reset_eq [OF r0 reg w, of sid k] by (auto split: option.splits sum.splits)
qed

lemma sendAuthPacket_rnd: "fst (sendAuthPacket w None proto mtu u p aws x) = Some RandFailed"
  by (simp add: sendAuthPacket_def)

lemma rekey_auth_client:
  assumes "rekey_auth l k c r = Some (res, c1, r3)"
  shows "c1 = c \<or> c1 = c\<lparr>cl_authLog := cl_authLog c @ [rekeyAuthCredentials c]\<rparr>"
  using assms by (cases "rekeyAuthCredentials c")
    (auto simp: rekey_auth_def Let_def split: if_splits option.splits prod.splits sum.splits)

lemma rekey_auth_Inr:
  assumes "rekey_auth l k c r = Some (Inr tls, c1, r3)"
  shows "rk_tls l = Some tls \<and> c1 = c\<lparr>cl_authLog := cl_authLog c @ [rekeyAuthCredentials c]\<rparr> \<and> queue_len k r3 = 0"
proof (cases "rk_rnd l")
  case None
  then show ?thesis using assms
    by (cases "rekeyAuthCredentials c") (auto simp: rekey_auth_def Let_def sendAuthPacket_rnd split: if_splits option.splits prod.splits sum.splits)
next
  case (Some rnd)
  then show ?thesis using assms
    by (cases "rekeyAuthCredentials c")
      (auto simp: rekey_auth_def Let_def dest: waitForControlAcks_queue split: if_splits option.splits prod.splits sum.splits)
qed

lemma doRekey_Inr:
  assumes "doRekey l c r = Some (Inr (k, tls), c', r')"
  obtains r1 m ch where "k = cl_nextKeyID c" "rekey_reset l (cl_clientSID c) k r = Some (Inr (), r1)"
    "rekey_auth l k (c\<lparr>cl_nextKeyID := next_key_id k\<rparr>) r1 =
       Some (Inr tls, c\<lparr>cl_nextKeyID := next_key_id k, cl_authLog := cl_authLog c @ [rekeyAuthCredentials c]\<rparr>, r')"
    "rekey_channel k tls c = Inr ch" "cl_manager c = Some m"
    "c' = c\<lparr>cl_nextKeyID := next_key_id k, cl_authLog := cl_authLog c @ [rekeyAuthCredentials c],
       cl_manager := Some (Prepare (rk_now l) m ch), cl_goroutines := cl_goroutines c @ [''sessionMonitorFor'']\<rparr>"
proof -
  let ?c = "c\<lparr>cl_nextKeyID := next_key_id (cl_nextKeyID c)\<rparr>"
  have cred: "rekeyAuthCredentials ?c = rekeyAuthCredentials c" by (simp add: rekeyAuthCredentials_def)
  from assms obtain r1 c1 r2 m ch where
    a: "k = cl_nextKeyID c" "rekey_reset l (cl_clientSID c) k r = Some (Inr (), r1)"
      "rekey_auth l k ?c r1 = Some (Inr tls, c1, r2)" and b: "rekey_channel k tls c1 = Inr ch" "cl_manager c1 = Some m"
      "c' = c1\<lparr>cl_manager := Some (Prepare (rk_now l) m ch), cl_goroutines := cl_goroutines c1 @ [''sessionMonitorFor'']\<rparr>" "r' = r2"
    by (auto simp: doRekey_def Let_def split: if_splits option.splits prod.splits sum.splits)
  have c1: "c1 = ?c\<lparr>cl_authLog := cl_authLog c @ [rekeyAuthCredentials c]\<rparr>" using rekey_auth_Inr [OF a(3)] cred by simp
  have eqs: "cl_pushOpts c1 = cl_pushOpts c" "cl_peerID c1 = cl_peerID c" by (simp_all add: c1)
  have "rekey_channel k tls c1 = rekey_channel k tls c" unfolding rekey_channel_def eqs ..
  then show thesis using a b c1 by (intro that [of r1 ch m]) auto
qed

lemma doRekey_Inl:
  assumes "doRekey l c r = Some (Inl e, c', r')"
  shows "c' = c\<lparr>cl_nextKeyID := next_key_id (cl_nextKeyID c)\<rparr> \<or>
    c' = c\<lparr>cl_nextKeyID := next_key_id (cl_nextKeyID c), cl_authLog := cl_authLog c @ [rekeyAuthCredentials c]\<rparr>"
proof -
  let ?c = "c\<lparr>cl_nextKeyID := next_key_id (cl_nextKeyID c)\<rparr>"
  have cred: "rekeyAuthCredentials ?c = rekeyAuthCredentials c" by (simp add: rekeyAuthCredentials_def)
  have "c' = ?c \<or> c' = ?c\<lparr>cl_authLog := cl_authLog c @ [rekeyAuthCredentials c]\<rparr>"
    using assms rekey_auth_client [of l "cl_nextKeyID c" ?c] unfolding doRekey_def Let_def
    by (auto simp: cred split: if_splits option.splits prod.splits sum.splits)
  then show ?thesis by simp
qed

lemma doRekey_nextKeyID: "doRekey l c r = Some (res, c', r') \<Longrightarrow> cl_nextKeyID c' = next_key_id (cl_nextKeyID c)"
  by (cases res) (auto dest!: doRekey_Inl elim!: doRekey_Inr)

lemma rekey_channel_wf:
  assumes "rekey_channel k tls c = Inr ch"
  shows "Channel_wf ch \<and> ch_keyID ch = k AND 7 \<and> ch_peerID ch = cl_peerID c AND 0x00FFFFFF"
proof -
  from assms obtain cipher mat where n: "newDataChannel cipher (cl_peerID c) k mat = Inr ch"
    by (auto simp: rekey_channel_def Let_def split: sum.splits)
  then have "ch_keyID ch = k AND 7 \<and> ch_peerID ch = cl_peerID c AND 0x00FFFFFF"
    by (rule newDataChannel_cases) (auto simp: New_def NewCBC_def newWithCiphers_def split: sum.splits)
  then show ?thesis using newDataChannel_wf [OF n] by simp
qed

lemma key_id_small: "1 \<le> unat k \<Longrightarrow> unat k \<le> 7 \<Longrightarrow> (k :: byte) AND 7 = k"
  using byte_cases8 [of k] by auto

subsection \<open>An abandoned session\<close>

text \<open>The packets a session still has to have acknowledged.\<close>

definition unacked :: "byte \<Rightarrow> relay \<Rightarrow> bytes list option" where
  "unacked k r = map_option (\<lambda>s. map e_Payload (sq_entries (cs_sendQueue s))) (r_sessions r k)"

text \<open>Events that do not come from the peer's or the client's side of session \<open>k\<close>.\<close>

definition silent :: "byte \<Rightarrow> relay_ev \<Rightarrow> bool" where
  "silent k e = (case e of EvPacket pkt \<Rightarrow> pkt = [] \<or> (pkt ! 0) AND 0x07 \<noteq> k | EvSend _ j _ \<Rightarrow> j \<noteq> k | _ \<Rightarrow> True)"

lemma scan_payloads: "map e_Payload (snd (retransmit_scan now es)) = map e_Payload es"
  by (induction es) (auto simp: Let_def split: prod.splits)

lemma scan_all_due: "\<forall>e\<in>set es. e_NextRetry e < now \<Longrightarrow> map e_Payload (fst (retransmit_scan now es)) = map e_Payload es"
  by (induction es) (auto simp: Let_def split: prod.splits)

definition tick_one :: "int \<Rightarrow> byte \<Rightarrow> Entry list \<times> relay \<Rightarrow> Entry list \<times> relay" where
  "tick_one now k = (\<lambda>(due, r). case r_sessions r k of None \<Rightarrow> (due, r)
            | Some sess \<Rightarrow> (let (d, q) = DueForRetransmit now (cs_sendQueue sess)
                 in (due @ d, r\<lparr>r_sessions := (r_sessions r)(k \<mapsto> sess\<lparr>cs_sendQueue := q\<rparr>)\<rparr>)))"

lemma retransmit_tick_eq:
  "retransmit_tick now order r = (case fold (tick_one now) order ([], r) of (due, r') \<Rightarrow> r'\<lparr>r_wire := r_wire r' @ map e_Payload due\<rparr>)"
proof -
  have "tick_one now = (\<lambda>k (due, r). case r_sessions r k of None \<Rightarrow> (due, r)
            | Some sess \<Rightarrow> (let (d, q) = DueForRetransmit now (cs_sendQueue sess)
                 in (due @ d, r\<lparr>r_sessions := (r_sessions r)(k \<mapsto> sess\<lparr>cs_sendQueue := q\<rparr>)\<rparr>)))"
    by (rule ext) (simp only: tick_one_def)
  then show ?thesis by (simp only: retransmit_tick_def Let_def)
qed

lemma tick_one_unacked: "unacked k (snd (tick_one now j x)) = unacked k (snd x)"
proof (cases x)
  case (Pair due r)
  then show ?thesis using scan_payloads [of now]
    by (auto simp: tick_one_def unacked_def DueForRetransmit_def Let_def split_beta split: option.splits)
qed

lemma fold_tick_unacked: "unacked k (snd (fold (tick_one now) order x)) = unacked k (snd x)"
  by (induction order arbitrary: x) (simp_all add: tick_one_unacked)

lemma unacked_tick: "unacked k (retransmit_tick now order r) = unacked k r"
  using fold_tick_unacked [of k now order "([], r)"]
  by (simp add: retransmit_tick_eq split_beta) (simp add: unacked_def)

lemma fold_tick_due:
  "\<exists>due. fst (fold (tick_one now) order x) = fst x @ due"
proof (induction order arbitrary: x)
  case (Cons j js)
  have "\<exists>d. fst (tick_one now j x) = fst x @ d"
    by (cases x) (auto simp: tick_one_def Let_def split: option.splits prod.splits)
  then show ?case using Cons [of "tick_one now j x"] by auto
qed simp

lemma fold_tick_wire: "r_wire (snd (fold (tick_one now) order x)) = r_wire (snd x)"
proof (induction order arbitrary: x)
  case (Cons j js)
  have "r_wire (snd (tick_one now j x)) = r_wire (snd x)"
    by (cases x) (auto simp: tick_one_def Let_def split: option.splits prod.splits)
  then show ?case using Cons by simp
qed simp

lemma fold_tick_other: "k \<notin> set order \<Longrightarrow> r_sessions (snd (fold (tick_one now) order x)) k = r_sessions (snd x) k"
proof (induction order arbitrary: x)
  case (Cons j js)
  have "r_sessions (snd (tick_one now j x)) k = r_sessions (snd x) k"
    using Cons.prems by (cases x) (auto simp: tick_one_def Let_def split: option.splits prod.splits)
  then show ?case using Cons by simp
qed simp

lemma tick_resends:
  assumes "r_sessions r k = Some s" "k \<in> set order" "\<forall>e\<in>set (sq_entries (cs_sendQueue s)). e_NextRetry e < now"
  shows "\<exists>more. r_wire (retransmit_tick now order r) = r_wire r @ more \<and> set (map e_Payload (sq_entries (cs_sendQueue s))) \<subseteq> set more"
proof -
  obtain a b where order: "order = a @ k # b" "k \<notin> set a" using assms(2) by (meson split_list_first)
  let ?x = "fold (tick_one now) a ([], r)"
  have "r_sessions (snd ?x) k = Some s" using fold_tick_other [OF order(2)] assms(1) by simp
  then have "fst (tick_one now k ?x) = fst ?x @ fst (retransmit_scan now (sq_entries (cs_sendQueue s)))"
    by (cases ?x) (simp add: tick_one_def DueForRetransmit_def Let_def split_beta)
  moreover obtain d where "fst (fold (tick_one now) b (tick_one now k ?x)) = fst (tick_one now k ?x) @ d"
    using fold_tick_due [of now b "tick_one now k ?x"] by blast
  ultimately have "fst (fold (tick_one now) order ([], r)) =
      fst ?x @ fst (retransmit_scan now (sq_entries (cs_sendQueue s))) @ d" by (simp add: order)
  then show ?thesis using scan_all_due [OF assms(3)] fold_tick_wire [of now order "([], r)"]
    by (auto simp: retransmit_tick_eq split_beta simp del: set_map)
qed

lemma relay_packet_other:
  assumes "relay_packet pkt r = Some r'" "pkt = [] \<or> (pkt ! 0) AND 0x07 \<noteq> k"
  shows "r_sessions r' k = r_sessions r k"
proof (cases "pkt = []")
  case True
  then show ?thesis using assms by (simp add: relay_packet_def)
next
  case False
  define kid where "kid = (pkt ! 0) AND 0x07"
  have ne: "k \<noteq> kid" using assms(2) False by (simp add: kid_def)
  have "relay_control kid pkt r = Some r' \<Longrightarrow> ?thesis" "relay_soft_reset kid pkt r = Some r' \<Longrightarrow> ?thesis"
    "relay_ack kid pkt r = Some r' \<Longrightarrow> ?thesis" "relay_data pkt r = r' \<Longrightarrow> ?thesis"
    using ne by (auto simp: relay_control_def relay_soft_reset_def relay_ack_def relay_data_def Let_def split: option.splits if_splits)
  then show ?thesis using assms(1) False by (auto simp: relay_packet_def Let_def kid_def split: if_splits)
qed

lemma silent_step: "relay_step e r = Some r' \<Longrightarrow> silent k e \<Longrightarrow> unacked k r' = unacked k r"
proof (drule relay_step_cases, elim disjE exE conjE)
  fix now j chunk
  assume e: "e = EvSend now j chunk" "r' = send_chunk now j chunk r" "silent k e"
  then have "j \<noteq> k" by (simp add: silent_def)
  then have "r_sessions (fold (send_segment now j) xs r) k = r_sessions r k" for xs
    by (induction xs arbitrary: r) (simp_all add: send_segment_def Let_def split: option.splits)
  then show ?thesis using e by (simp add: send_chunk_def unacked_def)
next
  fix now order
  assume "r' = retransmit_tick now order r"
  then show ?thesis by (simp add: unacked_tick)
qed (auto simp: silent_def relay_packet_other unacked_def relay_read_def split: option.splits)

lemma silent_steps:
  "relay_steps es r = Some r' \<Longrightarrow> \<forall>e\<in>set es. silent k e \<Longrightarrow> unacked k r' = unacked k r"
  by (induction es arbitrary: r) (auto simp: silent_step split: option.splits)

lemma silent_no_flags: "silent k (EvPacket pkt) \<Longrightarrow> \<not> peer_resets k pkt \<and> \<not> acks_reset k pkt"
  by (auto simp: silent_def peer_resets_def acks_reset_def opcode_key_def)

subsection \<open>Properties\<close>

lemma reset_sent_session:
  "r_sessions (reset_sent l sid k r) k = Some ((rekey_session k)\<lparr>cs_registered := Some True,
     cs_sendQueue := snd (Enqueue (buildSoftReset sid k) (rk_sent l) (NewSendQueue 0))\<rparr>)"
  by (simp add: reset_sent_def)

lemma rekey_session_flags [simp]: "flags (rekey_session k) = (Some False, Some False)"
  by (simp add: flags_def rekey_session_def)

text \<open>C7 (a renegotiation installs a new key epoch).  When \<open>doRekey\<close> succeeds, the peer's SOFT_RESET and its acknowledgement of
  the client's own reset have both arrived for this key id before TLS was started, every control packet of the new session is
  acknowledged, exactly the credentials of \<open>rekeyAuthCredentials\<close> were sent, and the channel made from the new TLS session is
  the secondary key while the old one still encrypts.  When the promotion timer fires, the new key becomes the current one and
  the old one is kept for packets in flight, and control messages go to the new TLS session.  With a key id that differs from
  the current one the invariant of the manager holds at every step.\<close>

theorem rekey_epoch:
  assumes "doRekey l c r = Some (Inr (k, tls), c', r')" "cl_manager c = Some m" "Manager_inv m"
    and "1 \<le> unat (cl_nextKeyID c)" "unat (cl_nextKeyID c) \<le> 7" "cl_nextKeyID c \<noteq> ch_keyID (current m)"
  shows "k = cl_nextKeyID c \<and> queue_len k r' = 0 \<and> cl_authLog c' = cl_authLog c @ [rekeyAuthCredentials c] \<and>
     (\<exists>pkt. EvPacket pkt \<in> set (relay_evs (rk_reset l)) \<and> peer_resets k pkt) \<and>
     (\<exists>pkt. EvPacket pkt \<in> set (relay_evs (rk_reset l)) \<and> acks_reset k pkt) \<and>
     (\<exists>ch m1 m2. rekey_channel k tls c = Inr ch \<and> ch_keyID ch = k \<and>
        cl_manager c' = Some m1 \<and> Manager_inv m1 \<and> current m1 = current m \<and> secondary m1 = Some ch \<and>
        cl_manager (scheduleRekeyPromotion k tls rw c') = Some m2 \<and> Manager_inv m2 \<and> current m2 = ch \<and>
        previous m2 = Some (current m) \<and>
        (cl_state c = stateTunnelUp \<longrightarrow> cl_tlsRW (scheduleRekeyPromotion k tls rw c') = Some rw))"
proof -
  obtain r1 m' ch where k: "k = cl_nextKeyID c" and rs: "rekey_reset l (cl_clientSID c) k r = Some (Inr (), r1)"
    and ra: "rekey_auth l k (c\<lparr>cl_nextKeyID := next_key_id k\<rparr>) r1 =
      Some (Inr tls, c\<lparr>cl_nextKeyID := next_key_id k, cl_authLog := cl_authLog c @ [rekeyAuthCredentials c]\<rparr>, r')"
    and ch: "rekey_channel k tls c = Inr ch" and m': "cl_manager c = Some m'"
    and c': "c' = c\<lparr>cl_nextKeyID := next_key_id k, cl_authLog := cl_authLog c @ [rekeyAuthCredentials c],
       cl_manager := Some (Prepare (rk_now l) m' ch), cl_goroutines := cl_goroutines c @ [''sessionMonitorFor'']\<rparr>"
    using assms(1) by (rule doRekey_Inr)
  have m'm: "m' = m" using m' assms(2) by simp
  have chk: "Channel_wf ch" "ch_keyID ch = k" "k AND 7 = k"
    using rekey_channel_wf [OF ch] key_id_small [of k] assms(4,5) k by simp_all
  have inv1: "Manager_inv (Prepare (rk_now l) m ch)" using assms(3,6) chk k by (intro Prepare_inv) auto
  have prom: "Promote (Prepare (rk_now l) m ch) k =
      (True, (Prepare (rk_now l) m ch)\<lparr>previous := Some (current m), current := ch, secondary := None\<rparr>)"
    using chk by (simp add: Promote_def Prepare_def)
  then have inv2: "Manager_inv ((Prepare (rk_now l) m ch)\<lparr>previous := Some (current m), current := ch, secondary := None\<rparr>)"
    using Promote_inv [OF inv1, of k] by simp
  obtain r0 where w: "waitForRekeyReset k False False (rk_reset l) (reset_sent l (cl_clientSID c) k r0) = Some (Inr (), r1)"
    using rekey_reset_Inr [OF rs] by blast
  obtain n where
    seen: "\<exists>pkt. EvPacket pkt \<in> set (take n (relay_evs (rk_reset l))) \<and> peer_resets k pkt"
      "\<exists>pkt. EvPacket pkt \<in> set (take n (relay_evs (rk_reset l))) \<and> acks_reset k pkt"
    using waitForRekeyReset_safe [OF w reset_sent_session] by fastforce
  have q: "queue_len k r' = 0" using rekey_auth_Inr [OF ra] by simp
  have "cl_manager c' = Some (Prepare (rk_now l) m ch)" "cl_state c' = cl_state c"
    by (simp_all add: c' m'm)
  then have p: "cl_manager (scheduleRekeyPromotion k tls rw c') =
        Some ((Prepare (rk_now l) m ch)\<lparr>previous := Some (current m), current := ch, secondary := None\<rparr>)"
      "cl_state c = stateTunnelUp \<longrightarrow> cl_tlsRW (scheduleRekeyPromotion k tls rw c') = Some rw"
    using prom by (simp_all add: scheduleRekeyPromotion_def Let_def)
  show ?thesis using k q seen ch chk(2) inv1 inv2 p by (auto simp: c' m'm Prepare_def dest: in_set_takeD)
qed

lemma doRekey_succeeds:
  assumes "cl_rawConn c \<noteq> None" "cl_manager c = Some m" "k = cl_nextKeyID c"
    and "rk_registration l = Registered" "rk_write l = None" "relay_steps (rk_before l) r = Some r0"
    and "rk_reset l = map WRelay es @ [WPeer, WAcked]" "relay_steps es (reset_sent l (cl_clientSID c) k r0) = Some r1"
    and "\<exists>pkt. EvPacket pkt \<in> set es \<and> peer_resets k pkt" "\<exists>pkt. EvPacket pkt \<in> set es \<and> acks_reset k pkt"
    and "rk_config l" "rk_tls l = Some tls" "relay_steps (rk_handshake l @ rk_auth l) r1 = Some r2"
    and "rk_rnd l \<noteq> None" "rk_auth_err l = None" "fst (consumeServerAuthPacket (rk_records l)) = None"
    and "rk_acks l = map WRelay as @ [WPoll]" "relay_steps as r2 = Some r3" "queue_len k r3 = 0"
    and "rekey_channel k tls c = Inr ch"
  shows "\<exists>c' r'. doRekey l c r = Some (Inr (k, tls), c', r')"
proof -
  let ?c = "c\<lparr>cl_nextKeyID := next_key_id k\<rparr>"
  obtain user pw where cr: "rekeyAuthCredentials ?c = (user, pw)" by fastforce
  have "waitForRekeyReset k False False (rk_reset l) (reset_sent l (cl_clientSID c) k r0) = Some (Inr (), r1)"
    unfolding assms(7)
    by (rule waitForRekeyReset_completes [where a = False and b = False, OF assms(8) reset_sent_session _ assms(9,10)]) simp
  then have rs: "rekey_reset l (cl_clientSID c) k r = Some (Inr (), r1)"
    using rekey_reset_eq [OF assms(6,4,5)] by simp
  have app: "relay_steps (xs @ ys) q = (case relay_steps xs q of None \<Rightarrow> None | Some q1 \<Rightarrow> relay_steps ys q1)" for xs ys q
    by (induction xs arbitrary: q) (simp_all split: option.splits)
  obtain rh where rh: "relay_steps (rk_handshake l) r1 = Some rh" "relay_steps (rk_auth l) rh = Some r2"
    using assms(13) by (auto simp: app split: option.splits)
  obtain n where w: "waitForControlAcks k (rk_acks l) r2 = Some (Inr (), the (relay_steps (take n as) r2))"
    using waitForControlAcks_completes [OF assms(18,19)] assms(17) by auto
  have sent: "fst (sendAuthPacket (\<lambda>_ w. (rk_auth_err l, w)) (rk_rnd l) p mtu user pw aws ()) = None" for p mtu aws
    using assms(14,15) by (auto simp: sendAuthPacket_def Let_def split: option.splits)
  obtain rest where sa: "consumeServerAuthPacket (rk_records l) = (None, rest)" using assms(16) by (metis prod.collapse)
  have ra: "rekey_auth l k ?c r1 = Some (Inr tls, ?c\<lparr>cl_authLog := cl_authLog ?c @ [(user, pw)]\<rparr>, the (relay_steps (take n as) r2))"
    unfolding rekey_auth_def using assms(11,12,14) rh w cr sent sa by simp
  let ?c1 = "?c\<lparr>cl_authLog := cl_authLog ?c @ [(user, pw)]\<rparr>"
  have eqs: "cl_pushOpts ?c1 = cl_pushOpts c" "cl_peerID ?c1 = cl_peerID c" by simp_all
  have rc: "rekey_channel k tls ?c1 = Inr ch" using assms(20) unfolding rekey_channel_def eqs .
  show ?thesis using assms(1-3) rs ra rc by (auto simp: doRekey_def Let_def)
qed


text \<open>A client with a running tunnel, and a server that answers; packet 1 of the new epoch carries TLS bytes.\<close>

definition running_manager :: Manager where
  "running_manager = NewManager 0 (zero_channel\<lparr>ch_keyID := 0\<rparr>) None"

definition running_client :: Client where
  "running_client = (New_Client default_profile)\<lparr>cl_state := stateTunnelUp, cl_rawConn := Some 1, cl_conns := [1], cl_peerID := 7,
     cl_manager := Some running_manager, cl_cachedStateID := ''sid'', cl_cachedSAMLToken := ''tok''\<rparr>"

definition running_relay :: relay where
  "running_relay = \<lparr>r_sessions = [0 \<mapsto> fresh_session 0 1 1], r_clientSID = replicate 8 0, r_serverSID = replicate 8 2, r_wire = [], r_dataCh = None\<rparr>"

definition server_reset :: "byte \<Rightarrow> bytes" where
  "server_reset k = FirstByte P_CONTROL_SOFT_RESET_V1 k # replicate 8 2 @ [1] @ be32 0 @ replicate 8 0 @ be32 0"

definition rekeyed_tls :: tls_session where
  "rekeyed_tls = \<lparr>ts_ekm = Some zero_material, ts_keylog = []\<rparr>"

definition answered :: "byte \<Rightarrow> rekey_link" where
  "answered k =
     \<lparr>rk_before = [EvTick 1 [0]], rk_registration = Registered, rk_write = None, rk_sent = 2,
      rk_reset = map WRelay [EvPacket (server_reset k)] @ [WPeer, WAcked], rk_config = True, rk_tls = Some rekeyed_tls,
      rk_handshake = [EvSend 3 k [22, 3, 1]], rk_rnd = Some (replicate 112 0), rk_auth_err = None,
      rk_records = \<lparr>tr_recs = [[0, 0, 0, 0, 2] @ [1]], tr_err = IO_EOF\<rparr>, rk_auth = [],
      rk_acks = map WRelay [EvPacket (buildAck (replicate 8 2) (replicate 8 0) k [1])] @ [WPoll], rk_now = 9\<rparr>"

lemma answered_steps:
  "map_option (queue_len 1) (relay_steps [EvPacket (buildAck (replicate 8 2) (replicate 8 0) 1 [1])]
     (the (relay_steps (rk_handshake (answered 1) @ rk_auth (answered 1))
       (the (relay_steps [EvPacket (server_reset 1)] (reset_sent (answered 1) (replicate 8 0) 1
         (the (relay_steps (rk_before (answered 1)) running_relay)))))))) = Some 0"
  "relay_steps (rk_handshake (answered 1) @ rk_auth (answered 1))
       (the (relay_steps [EvPacket (server_reset 1)] (reset_sent (answered 1) (replicate 8 0) 1
         (the (relay_steps (rk_before (answered 1)) running_relay))))) \<noteq> None"
  "relay_steps [EvPacket (server_reset 1)] (reset_sent (answered 1) (replicate 8 0) 1
         (the (relay_steps (rk_before (answered 1)) running_relay))) \<noteq> None"
  "relay_steps (rk_before (answered 1)) running_relay \<noteq> None"
  by code_simp+

lemma answered_packets: "peer_resets 1 (server_reset 1)" "acks_reset 1 (server_reset 1)"
  by code_simp+

lemma answered_channel: "rekey_channel 1 rekeyed_tls running_client = Inr zero_channel"
  using zero_material_channel
  by (simp add: rekey_channel_def running_client_def rekeyed_tls_def New_Client_def key_material_def)

lemma answered_facts:
  "cl_rawConn running_client \<noteq> None" "cl_manager running_client = Some running_manager" "1 = cl_nextKeyID running_client"
  "cl_clientSID running_client = replicate 8 0" "rk_registration (answered 1) = Registered" "rk_write (answered 1) = None"
  "rk_config (answered 1)" "rk_reset (answered 1) = map WRelay [EvPacket (server_reset 1)] @ [WPeer, WAcked]"
  "rk_tls (answered 1) = Some rekeyed_tls" "rk_rnd (answered 1) \<noteq> None" "rk_auth_err (answered 1) = None"
  "rk_acks (answered 1) = map WRelay [EvPacket (buildAck (replicate 8 2) (replicate 8 0) 1 [1])] @ [WPoll]"
  "fst (consumeServerAuthPacket (rk_records (answered 1))) = None"
  "\<exists>pkt. EvPacket pkt \<in> set [EvPacket (server_reset 1)] \<and> peer_resets 1 pkt"
  "\<exists>pkt. EvPacket pkt \<in> set [EvPacket (server_reset 1)] \<and> acks_reset 1 pkt"
proof -
  show "fst (consumeServerAuthPacket (rk_records (answered 1))) = None"
    using stock_auth_skipped [of "rk_records (answered 1)" "[1]" "[]"] by (simp add: answered_def)
qed (use answered_packets in \<open>auto simp: running_client_def New_Client_def answered_def\<close>)

lemma answered_relays:
  obtains r0 r1 r2 r3 where "relay_steps (rk_before (answered 1)) running_relay = Some r0"
    "relay_steps [EvPacket (server_reset 1)] (reset_sent (answered 1) (cl_clientSID running_client) 1 r0) = Some r1"
    "relay_steps (rk_handshake (answered 1) @ rk_auth (answered 1)) r1 = Some r2"
    "relay_steps [EvPacket (buildAck (replicate 8 2) (replicate 8 0) 1 [1])] r2 = Some r3" "queue_len 1 r3 = 0"
  using answered_steps answered_facts(4) by auto


lemma answered_run:
  "\<exists>c' r'. doRekey (answered 1) running_client running_relay = Some (Inr (1, rekeyed_tls), c', r')"
proof -
  obtain r0 r1 r2 r3 where r: "relay_steps (rk_before (answered 1)) running_relay = Some r0"
    "relay_steps [EvPacket (server_reset 1)] (reset_sent (answered 1) (cl_clientSID running_client) 1 r0) = Some r1"
    "relay_steps (rk_handshake (answered 1) @ rk_auth (answered 1)) r1 = Some r2"
    "relay_steps [EvPacket (buildAck (replicate 8 2) (replicate 8 0) 1 [1])] r2 = Some r3" "queue_len 1 r3 = 0"
    by (rule answered_relays)
  note f = answered_facts
  show ?thesis
    by (rule doRekey_succeeds [OF f(1,2,3) f(5,6) r(1) f(8) r(2) f(14,15) f(7,9) r(3) f(10,11,13,12) r(4,5) answered_channel])
qed

lemma running_manager_inv: "Manager_inv running_manager" "ch_keyID (current running_manager) = 0"
proof -
  have "Channel_wf (zero_channel\<lparr>ch_keyID := 0\<rparr>)" using zero_channel_wf by (simp add: Channel_wf_def)
  then show "Manager_inv running_manager" unfolding running_manager_def by (rule NewManager_inv)
  show "ch_keyID (current running_manager) = 0" by (simp add: running_manager_def NewManager_def)
qed

theorem rekey_epoch_witness:
  "\<exists>c' r' m. doRekey (answered 1) running_client running_relay = Some (Inr (1, rekeyed_tls), c', r') \<and>
     cl_authLog c' = [(''N/A'', BuildPhase2Password ''sid'' ''tok'')] \<and>
     cl_manager (scheduleRekeyPromotion 1 rekeyed_tls ([], EndEOF) c') = Some m \<and> current m = zero_channel \<and> Manager_inv m"
proof -
  obtain c' r' where d: "doRekey (answered 1) running_client running_relay = Some (Inr (1, rekeyed_tls), c', r')"
    using answered_run by blast
  have c: "cl_manager running_client = Some running_manager" "cl_nextKeyID running_client = 1" "cl_authLog running_client = []"
    "rekeyAuthCredentials running_client = (''N/A'', BuildPhase2Password ''sid'' ''tok'')"
    by (simp_all add: running_client_def New_Client_def rekeyAuthCredentials_def)
  show ?thesis
    using rekey_epoch [OF d c(1) running_manager_inv(1), of "([], EndEOF)"] c running_manager_inv(2) answered_channel d by auto
qed

text \<open>(a failed renegotiation is harmless for the tunnel, but not cleaned up).  A failed \<open>doRekey\<close> changes only the next key id and,
  when the authentication packet was sent, the list of credentials sent: the keys, the connection, the TLS session and the state
  of the client stay.  When the peer stays silent until the deadline, the error says that neither message of the exchange has
  arrived, and the session of the failed attempt stays registered with the reset in its queue: the retransmission goroutine
  writes it again at every tick after its time, for as long as the connection lives.\<close>

theorem rekey_failure:
  "(doRekey l c r = Some (Inl e, c', r') \<longrightarrow>
      c'\<lparr>cl_nextKeyID := cl_nextKeyID c, cl_authLog := cl_authLog c\<rparr> = c \<and>
      (cl_authLog c' = cl_authLog c \<or> cl_authLog c' = cl_authLog c @ [rekeyAuthCredentials c])) \<and>
   (cl_rawConn c \<noteq> None \<and> rk_registration l = Registered \<and> rk_write l = None \<and>
      relay_steps (rk_before l) r = Some r0 \<and> rk_reset l = map WRelay es @ [WTimer] \<and> k = cl_nextKeyID c \<and>
      relay_steps es (reset_sent l (cl_clientSID c) k r0) = Some r1 \<and> (\<forall>e\<in>set es. silent k e) \<longrightarrow>
      (\<exists>c' s. doRekey l c r = Some (Inl (ResetDeadline False False), c', close_session k r1) \<and>
        r_sessions (close_session k r1) k = Some s \<and>
        map e_Payload (sq_entries (cs_sendQueue s)) = [buildSoftReset (cl_clientSID c) k] \<and>
        (\<forall>now order. k \<in> set order \<and> (\<forall>e\<in>set (sq_entries (cs_sendQueue s)). e_NextRetry e < now) \<longrightarrow>
           (\<exists>sent. r_wire (retransmit_tick now order (close_session k r1)) = r_wire r1 @ sent \<and>
             buildSoftReset (cl_clientSID c) k \<in> set sent))))"
proof (intro conjI impI)
  assume "doRekey l c r = Some (Inl e, c', r')"
  from doRekey_Inl [OF this] show "c'\<lparr>cl_nextKeyID := cl_nextKeyID c, cl_authLog := cl_authLog c\<rparr> = c"
    and "cl_authLog c' = cl_authLog c \<or> cl_authLog c' = cl_authLog c @ [rekeyAuthCredentials c]" by auto
next
  assume "cl_rawConn c \<noteq> None \<and> rk_registration l = Registered \<and> rk_write l = None \<and>
      relay_steps (rk_before l) r = Some r0 \<and> rk_reset l = map WRelay es @ [WTimer] \<and> k = cl_nextKeyID c \<and>
      relay_steps es (reset_sent l (cl_clientSID c) k r0) = Some r1 \<and> (\<forall>e\<in>set es. silent k e)"
  then have "cl_rawConn c \<noteq> None" "rk_registration l = Registered" "rk_write l = None" "relay_steps (rk_before l) r = Some r0"
    "rk_reset l = map WRelay es @ [WTimer]" "k = cl_nextKeyID c" "relay_steps es (reset_sent l (cl_clientSID c) k r0) = Some r1"
    "\<forall>e\<in>set es. silent k e" by blast+
  note a = this
  let ?sid = "cl_clientSID c"
  have "waitForRekeyReset k False False (rk_reset l) (reset_sent l ?sid k r0) = Some (Inl (ResetDeadline False False), r1)"
    using waitForRekeyReset_relay [OF _ a(7), of False False k "[WTimer]"] a(5) by (simp add: waitForRekeyReset.simps)
  then have d: "doRekey l c r = Some (Inl (ResetDeadline False False), c\<lparr>cl_nextKeyID := next_key_id k\<rparr>, close_session k r1)"
    using a(1,6) rekey_reset_eq [OF a(4,2,3)] by (simp add: doRekey_def Let_def)
  have "unacked k r1 = Some [buildSoftReset ?sid k]"
    using silent_steps [OF a(7,8)] by (simp add: unacked_def reset_sent_session Enqueue_def NewSendQueue_def Let_def)
  then obtain s where s: "r_sessions (close_session k r1) k = Some s"
      "map e_Payload (sq_entries (cs_sendQueue s)) = [buildSoftReset ?sid k]"
    by (auto simp: unacked_def close_session_def)
  have w: "r_wire (close_session k r1) = r_wire r1" by (simp add: close_session_def)
  have "\<exists>sent. r_wire (retransmit_tick now order (close_session k r1)) = r_wire r1 @ sent \<and> buildSoftReset ?sid k \<in> set sent"
    if "k \<in> set order \<and> (\<forall>e\<in>set (sq_entries (cs_sendQueue s)). e_NextRetry e < now)" for now order
    using tick_resends [OF s(1), of order now] that s(2) w by auto
  then show "\<exists>c' s. doRekey l c r = Some (Inl (ResetDeadline False False), c', close_session k r1) \<and>
        r_sessions (close_session k r1) k = Some s \<and> map e_Payload (sq_entries (cs_sendQueue s)) = [buildSoftReset ?sid k] \<and>
        (\<forall>now order. k \<in> set order \<and> (\<forall>e\<in>set (sq_entries (cs_sendQueue s)). e_NextRetry e < now) \<longrightarrow>
           (\<exists>sent. r_wire (retransmit_tick now order (close_session k r1)) = r_wire r1 @ sent \<and> buildSoftReset ?sid k \<in> set sent))"
    using d s by (intro exI [of _ "c\<lparr>cl_nextKeyID := next_key_id k\<rparr>"] exI [of _ s] conjI allI impI)
qed

text \<open>A peer that never answers; only ticks and a data packet of another key happen before the deadline.\<close>

definition unanswered :: "byte \<Rightarrow> rekey_link" where
  "unanswered k = (answered k)\<lparr>rk_reset := map WRelay [EvTick 5 [0, k], EvPacket [FirstByte P_DATA_V2 0, 0, 0, 0]] @ [WTimer]\<rparr>"

lemma unanswered_steps:
  "relay_steps [EvTick 5 [0, 1], EvPacket [FirstByte P_DATA_V2 0, 0, 0, 0]]
     (reset_sent (unanswered 1) (replicate 8 0) 1 (the (relay_steps (rk_before (unanswered 1)) running_relay))) \<noteq> None"
  "relay_steps (rk_before (unanswered 1)) running_relay \<noteq> None"
  by code_simp+

theorem rekey_failure_witness:
  "\<exists>c' r' s. doRekey (unanswered 1) running_client running_relay = Some (Inl (ResetDeadline False False), c', r') \<and>
     r_sessions r' 1 = Some s \<and> map e_Payload (sq_entries (cs_sendQueue s)) = [buildSoftReset (replicate 8 0) 1]"
proof -
  let ?es = "[EvTick 5 [0, 1], EvPacket [FirstByte P_DATA_V2 0, 0, 0, 0]]"
  obtain r0 where r0: "relay_steps (rk_before (unanswered 1)) running_relay = Some r0" using unanswered_steps(2) by blast
  obtain r1 where r1: "relay_steps ?es (reset_sent (unanswered 1) (cl_clientSID running_client) 1 r0) = Some r1"
    using unanswered_steps(1) r0 answered_facts(4) by auto
  have s: "\<forall>e\<in>set ?es. silent 1 e" by code_simp
  have l: "rk_registration (unanswered 1) = Registered" "rk_write (unanswered 1) = None"
    "rk_reset (unanswered 1) = map WRelay ?es @ [WTimer]" by (simp_all add: unanswered_def answered_def)
  show ?thesis
    using rekey_failure [of "unanswered 1" running_client running_relay undefined undefined undefined r0 ?es 1 r1] l r0 r1 s answered_facts(1,3,4)
    by auto
qed

text \<open>A sequence of renegotiations, whatever their outcome, and of promotions.\<close>

datatype epoch_ev = Attempt rekey_link | Fire byte tls_session Saml.reader

fun epochs :: "epoch_ev list \<Rightarrow> Client \<Rightarrow> relay \<Rightarrow> (Client \<times> relay) option" where
  "epochs [] c r = Some (c, r)"
| "epochs (Attempt l # es) c r = (case doRekey l c r of None \<Rightarrow> None | Some (_, c1, r1) \<Rightarrow> epochs es c1 r1)"
| "epochs (Fire k tls rw # es) c r = epochs es (scheduleRekeyPromotion k tls rw c) r"

definition attempts :: "epoch_ev list \<Rightarrow> nat" where
  "attempts es = length [() . Attempt l \<leftarrow> es]"

fun all_fail :: "rekey_link list \<Rightarrow> Client \<Rightarrow> relay \<Rightarrow> (Client \<times> relay) option" where
  "all_fail [] c r = Some (c, r)"
| "all_fail (l # ls) c r = (case doRekey l c r of Some (Inl _, c1, r1) \<Rightarrow> all_fail ls c1 r1 | _ \<Rightarrow> None)"

lemma epochs_key: "epochs es c r = Some (c', r') \<Longrightarrow> cl_nextKeyID c' = (next_key_id ^^ attempts es) (cl_nextKeyID c)"
proof (induction es c r rule: epochs.induct)
  case (2 l es c r)
  then obtain res c1 r1 where d: "doRekey l c r = Some (res, c1, r1)" "epochs es c1 r1 = Some (c', r')"
    by (auto split: option.splits)
  have "cl_nextKeyID c' = (next_key_id ^^ attempts es) (cl_nextKeyID c1)" using 2 d by simp
  then show ?case using doRekey_nextKeyID [OF d(1)] by (simp add: attempts_def funpow_Suc_right del: funpow.simps)
next
  case (3 k tls rw es c r)
  have "cl_nextKeyID (scheduleRekeyPromotion k tls rw c) = cl_nextKeyID c"
    by (simp add: scheduleRekeyPromotion_def Let_def split: option.splits prod.splits bool.splits)
  then show ?case using 3 by (simp add: attempts_def)
qed (simp add: attempts_def)

lemma all_fail_client:
  "all_fail ls c r = Some (c', r') \<Longrightarrow> cl_manager c' = cl_manager c \<and> cl_nextKeyID c' = (next_key_id ^^ length ls) (cl_nextKeyID c)"
proof (induction ls arbitrary: c r)
  case (Cons l ls)
  then obtain e c1 r1 where d: "doRekey l c r = Some (Inl e, c1, r1)" "all_fail ls c1 r1 = Some (c', r')"
    by (auto split: option.splits sum.splits)
  have "cl_manager c1 = cl_manager c" using doRekey_Inl [OF d(1)] by auto
  then show ?case using Cons.IH [OF d(2)] doRekey_nextKeyID [OF d(1)] by (simp add: funpow_Suc_right del: funpow.simps)
qed simp

text \<open>(key ids).  The key ids of a session run through 1 to 7 again and again, with one id for every attempt, successful or not; id 0
  of the first key is never used again.  Because a failed attempt uses up an id as well, six failures after a successful
  renegotiation bring back the id of the current key: the next success prepares a second channel with that id, and
  \<open>decryptChannel\<close> then hands every packet of the peer's new key to the old channel.\<close>

theorem rekey_key_ids:
  "(cl_nextKeyID c = 1 \<and> epochs es c r = Some (c', r') \<longrightarrow> unat (cl_nextKeyID c') = 1 + attempts es mod 7) \<and>
   (cl_manager c = Some m \<and> 1 \<le> unat (ch_keyID (current m)) \<and> unat (ch_keyID (current m)) \<le> 7 \<and>
      cl_nextKeyID c = next_key_id (ch_keyID (current m)) \<and> length ls = 6 \<and> all_fail ls c r = Some (c1, r1) \<and>
      doRekey l c1 r1 = Some (Inr (k, tls), c2, r2) \<longrightarrow>
      k = ch_keyID (current m) \<and>
      (\<exists>m2 ch. cl_manager c2 = Some m2 \<and> secondary m2 = Some ch \<and> ch_keyID ch = ch_keyID (current m2) \<and>
         \<not> Manager_inv m2 \<and> (\<forall>pkt. decryptChannel m2 pkt \<noteq> Inr Secondary)))"
proof (intro conjI impI)
  assume "cl_nextKeyID c = 1 \<and> epochs es c r = Some (c', r')"
  then show "unat (cl_nextKeyID c') = 1 + attempts es mod 7"
    using epochs_key [of es c r c' r'] next_key_id_iterate by simp
next
  assume a: "cl_manager c = Some m \<and> 1 \<le> unat (ch_keyID (current m)) \<and> unat (ch_keyID (current m)) \<le> 7 \<and>
      cl_nextKeyID c = next_key_id (ch_keyID (current m)) \<and> length ls = 6 \<and> all_fail ls c r = Some (c1, r1) \<and>
      doRekey l c1 r1 = Some (Inr (k, tls), c2, r2)"
  have c1: "cl_manager c1 = Some m" "cl_nextKeyID c1 = (next_key_id ^^ 6) (next_key_id (ch_keyID (current m)))"
    using all_fail_client [of ls c r c1 r1] a by auto
  have "(next_key_id ^^ 6) (next_key_id j) = (next_key_id ^^ 7) j" for j by (simp add: eval_nat_numeral)
  then have cyc: "cl_nextKeyID c1 = ch_keyID (current m)"
    using c1(2) next_key_id_period [of "ch_keyID (current m)"] a by simp
  obtain ch where ch: "rekey_channel k tls c1 = Inr ch" "k = ch_keyID (current m)" "cl_manager c2 = Some (Prepare (rk_now l) m ch)"
    using a c1(1) cyc by (auto elim!: doRekey_Inr)
  have "ch_keyID ch = ch_keyID (current m)"
    using rekey_channel_wf [OF ch(1)] ch(2) key_id_small [of k] a by simp
  then have "secondary (Prepare (rk_now l) m ch) = Some ch \<and> ch_keyID ch = ch_keyID (current (Prepare (rk_now l) m ch)) \<and>
     \<not> Manager_inv (Prepare (rk_now l) m ch) \<and> (\<forall>pkt. decryptChannel (Prepare (rk_now l) m ch) pkt \<noteq> Inr Secondary)"
    by (auto simp: Prepare_def Manager_inv_def slots_def decryptChannel_def Let_def split: list.splits if_splits)
  then show "k = ch_keyID (current m)"
    and "\<exists>m2 ch. cl_manager c2 = Some m2 \<and> secondary m2 = Some ch \<and> ch_keyID ch = ch_keyID (current m2) \<and>
         \<not> Manager_inv m2 \<and> (\<forall>pkt. decryptChannel m2 pkt \<noteq> Inr Secondary)"
    using ch by blast+
qed

text \<open>Attempts whose reset cannot be written, after which the client renegotiates with the id of its current key.\<close>

definition refused :: rekey_link where
  "refused = (answered 1)\<lparr>rk_before := [], rk_write := Some WriteZeroLength\<rparr>"

definition refused_relay :: "byte \<Rightarrow> relay \<Rightarrow> relay" where
  "refused_relay k r = close_session k (enqueue_reset 2 k (buildSoftReset (replicate 8 0) k)
     (r\<lparr>r_sessions := (r_sessions r)(k \<mapsto> (rekey_session k)\<lparr>cs_registered := Some True\<rparr>)\<rparr>))"

lemma doRekey_refused:
  assumes "cl_rawConn c \<noteq> None" "cl_clientSID c = replicate 8 0"
  shows "doRekey refused c r = Some (Inl (SendReset WriteZeroLength), c\<lparr>cl_nextKeyID := next_key_id (cl_nextKeyID c)\<rparr>, refused_relay (cl_nextKeyID c) r)"
proof -
  have "relay_register (Some (rekey_session k)) r = Some (r\<lparr>r_sessions := (r_sessions r)(k \<mapsto> (rekey_session k)\<lparr>cs_registered := Some True\<rparr>)\<rparr>)" for k
    by (simp add: relay_register_def rekey_session_def)
  then show ?thesis using assms
    by (simp add: doRekey_def rekey_reset_def refused_def answered_def Let_def refused_relay_def)
qed

definition promoted_client :: Client where
  "promoted_client = running_client\<lparr>cl_manager := Some (running_manager\<lparr>current := zero_channel\<rparr>), cl_nextKeyID := 2\<rparr>"

definition worn_relay :: relay where
  "worn_relay = fold refused_relay [2, 3, 4, 5, 6, 7] running_relay"

lemma six_refusals: "all_fail (replicate 6 refused) promoted_client running_relay = Some (promoted_client\<lparr>cl_nextKeyID := 1\<rparr>, worn_relay)"
proof -
  have "all_fail (replicate n refused) (promoted_client\<lparr>cl_nextKeyID := k\<rparr>) r =
     Some (promoted_client\<lparr>cl_nextKeyID := (next_key_id ^^ n) k\<rparr>, fold refused_relay (map (\<lambda>i. (next_key_id ^^ i) k) [0..<n]) r)" for n k r
  proof (induction n arbitrary: k r)
    case (Suc n)
    have c: "cl_rawConn (promoted_client\<lparr>cl_nextKeyID := k\<rparr>) \<noteq> None" "cl_clientSID (promoted_client\<lparr>cl_nextKeyID := k\<rparr>) = replicate 8 0"
      by (simp_all add: promoted_client_def running_client_def New_Client_def)
    have "map (\<lambda>i. (next_key_id ^^ i) k) [0..<Suc n] = k # map (\<lambda>i. (next_key_id ^^ i) (next_key_id k)) [0..<n]"
      by (simp add: upt_conv_Cons map_Suc_upt [symmetric] funpow_swap1 del: upt_Suc)
    then show ?case using Suc.IH [of "next_key_id k" "refused_relay k r"] doRekey_refused [OF c, of r]
      by (simp add: funpow_swap1 del: upt_Suc)
  qed simp
  from this [of 6 2 running_relay]
  have "all_fail (replicate 6 refused) (promoted_client\<lparr>cl_nextKeyID := 2\<rparr>) running_relay =
     Some (promoted_client\<lparr>cl_nextKeyID := (next_key_id ^^ 6) 2\<rparr>, fold refused_relay (map (\<lambda>i. (next_key_id ^^ i) 2) [0..<6]) running_relay)" .
  moreover have "map (\<lambda>i. (next_key_id ^^ i) 2) [0..<6] = [2, 3, 4, 5, 6, 7]" "(next_key_id ^^ 6) 2 = 1" by code_simp+
  ultimately show ?thesis by (simp add: promoted_client_def worn_relay_def)
qed

lemma worn_steps:
  "map_option (queue_len 1) (relay_steps [EvPacket (buildAck (replicate 8 2) (replicate 8 0) 1 [1])]
     (the (relay_steps (rk_handshake (answered 1) @ rk_auth (answered 1))
       (the (relay_steps [EvPacket (server_reset 1)] (reset_sent (answered 1) (replicate 8 0) 1
         (the (relay_steps (rk_before (answered 1)) worn_relay)))))))) = Some 0"
  "relay_steps (rk_handshake (answered 1) @ rk_auth (answered 1))
       (the (relay_steps [EvPacket (server_reset 1)] (reset_sent (answered 1) (replicate 8 0) 1
         (the (relay_steps (rk_before (answered 1)) worn_relay))))) \<noteq> None"
  "relay_steps [EvPacket (server_reset 1)] (reset_sent (answered 1) (replicate 8 0) 1
         (the (relay_steps (rk_before (answered 1)) worn_relay))) \<noteq> None"
  "relay_steps (rk_before (answered 1)) worn_relay \<noteq> None"
  by code_simp+

lemma seventh_attempt: "\<exists>c' r'. doRekey (answered 1) (promoted_client\<lparr>cl_nextKeyID := 1\<rparr>) worn_relay = Some (Inr (1, rekeyed_tls), c', r')"
proof -
  let ?c = "promoted_client\<lparr>cl_nextKeyID := 1\<rparr>"
  have c: "cl_rawConn ?c \<noteq> None" "cl_manager ?c = Some (running_manager\<lparr>current := zero_channel\<rparr>)" "1 = cl_nextKeyID ?c"
    "cl_clientSID ?c = replicate 8 0" and ch: "rekey_channel 1 rekeyed_tls ?c = Inr zero_channel"
    using zero_material_channel
    by (simp_all add: promoted_client_def running_client_def New_Client_def rekey_channel_def rekeyed_tls_def key_material_def)
  obtain r0 r1 r2 r3 where r: "relay_steps (rk_before (answered 1)) worn_relay = Some r0"
    "relay_steps [EvPacket (server_reset 1)] (reset_sent (answered 1) (cl_clientSID ?c) 1 r0) = Some r1"
    "relay_steps (rk_handshake (answered 1) @ rk_auth (answered 1)) r1 = Some r2"
    "relay_steps [EvPacket (buildAck (replicate 8 2) (replicate 8 0) 1 [1])] r2 = Some r3" "queue_len 1 r3 = 0"
    using worn_steps c(4) by auto
  note f = answered_facts
  show ?thesis by (rule doRekey_succeeds [OF c(1-3) f(5,6) r(1) f(8) r(2) f(14,15) f(7,9) r(3) f(10,11,13,12) r(4,5) ch])
qed

theorem rekey_key_ids_witness:
  "\<exists>c2 r2 m2. doRekey (answered 1) (promoted_client\<lparr>cl_nextKeyID := 1\<rparr>) worn_relay = Some (Inr (1, rekeyed_tls), c2, r2) \<and>
     cl_manager c2 = Some m2 \<and> \<not> Manager_inv m2"
proof -
  obtain c2 r2 where d: "doRekey (answered 1) (promoted_client\<lparr>cl_nextKeyID := 1\<rparr>) worn_relay = Some (Inr (1, rekeyed_tls), c2, r2)"
    using seventh_attempt by blast
  let ?m = "running_manager\<lparr>current := zero_channel\<rparr>"
  have k: "ch_keyID (current ?m) = 1" using rekey_channel_wf [OF answered_channel] by simp
  have "cl_manager promoted_client = Some ?m" "cl_nextKeyID promoted_client = next_key_id (ch_keyID (current ?m))"
    unfolding k by (simp_all add: promoted_client_def next_key_id_def)
  then show ?thesis
    using rekey_key_ids [of promoted_client "[]" running_relay undefined undefined ?m "replicate 6 refused" "promoted_client\<lparr>cl_nextKeyID := 1\<rparr>" worn_relay "answered 1" 1 rekeyed_tls c2 r2]
      six_refusals d k by auto
qed

text \<open>(promotion delay).  Without a \<^verbatim>\<open>become-primary\<close> directive the new key is promoted after half the renegotiation interval, at most
  sixty seconds; the directive is taken as it is, and above 9223372036 seconds its conversion to nanoseconds wraps around, so
  that the delay can be zero or negative and the key is promoted at once.\<close>

theorem promotion_delay:
  "(pf_BecomePrimarySec p = 0 \<and> 0 \<le> pf_RenegSec p \<longrightarrow>
      0 \<le> rekeyPromotionDelay p \<and> rekeyPromotionDelay p \<le> 60 * 10 ^ 9 \<and>
      rekeyPromotionDelay p = 10 ^ 9 * min 60 ((if pf_RenegSec p = 0 then 3600 else pf_RenegSec p) div 2)) \<and>
   (0 < pf_BecomePrimarySec p \<and> pf_BecomePrimarySec p \<le> 9223372036 \<longrightarrow> rekeyPromotionDelay p = pf_BecomePrimarySec p * 10 ^ 9) \<and>
   (pf_BecomePrimarySec p = 9223372037 \<longrightarrow> rekeyPromotionDelay p < 0)"
proof -
  have "duration (of_int 9223372037) < 0" by code_simp
  moreover have "sint DefaultRenegSec = 3600" by code_simp
  ultimately show ?thesis using seconds_exact(2) [of "pf_BecomePrimarySec p"] seconds_exact(2) [of "min 60 ((if pf_RenegSec p = 0 then 3600 else pf_RenegSec p) div 2)"]
    by (auto simp: rekeyPromotionDelay_def Let_def min_def)
qed

theorem promotion_delay_witness:
  "rekeyPromotionDelay default_profile = 60 * 10 ^ 9 \<and> rekeyPromotionDelay (default_profile\<lparr>pf_BecomePrimarySec := 9223372037\<rparr>) < 0"
  using promotion_delay [of default_profile] promotion_delay [of "default_profile\<lparr>pf_BecomePrimarySec := 9223372037\<rparr>"]
  by (simp add: default_profile_def)

end
