(* ===== verification/Ownership.thy ===== *)
theory Ownership
  imports Dns Auth_Exchange
begin

section \<open>Ownership of routes and DNS settings\<close>

text \<open>
  Models \<^verbatim>\<open>routing/ownership.go\<close>, \<^verbatim>\<open>dns/ownership.go\<close> and the drift monitor of \<^verbatim>\<open>client.go\<close> (\<open>resourceMonitor\<close>,
  \<open>checkResourceDrift\<close>).  The callbacks of the platform backend are functions on the state \<open>'h\<close> of the host and are
  optional as in Go, where nil is allowed; calling nil panics, which is the result \<open>None\<close>.  A joined error is the list of its
  parts, empty for nil.  The mutexes of the ledgers make each operation one step.
\<close>

datatype DriftKind = NoDrift | DriftMissing | DriftChanged

record Drift =
  dr_Kind :: DriftKind
  dr_Destination :: string

record RouteIdentity =
  ri_Destination :: string
  ri_Gateway :: string
  ri_Interface :: int

subsection \<open>Routes\<close>

record ('h, 'e) Ownership =
  ow_owned :: "RouteIdentity list"
  ow_lookup :: "(string \<Rightarrow> 'h \<Rightarrow> ('e, RouteIdentity option) result) option"
  ow_add :: "(RouteIdentity \<Rightarrow> 'h \<Rightarrow> 'e option \<times> 'h) option"
  ow_remove :: "(RouteIdentity \<Rightarrow> 'h \<Rightarrow> 'e option \<times> 'h) option"
  ow_closed :: bool

datatype 'e own_error = InspectRoute string 'e | RestoreRoute string 'e | PlainError 'e

definition NewOwnership where
  "NewOwnership owned lookup add remove =
     \<lparr>ow_owned = owned, ow_lookup = lookup, ow_add = add, ow_remove = remove, ow_closed = False\<rparr>"

fun check_owned :: "(string \<Rightarrow> 'h \<Rightarrow> ('e, RouteIdentity option) result) \<Rightarrow> RouteIdentity list \<Rightarrow> 'h \<Rightarrow> ('e own_error, Drift list) result" where
  "check_owned lookup [] h = Inr []"
| "check_owned lookup (expected # es) h =
     (case lookup (ri_Destination expected) h of
        Inl e \<Rightarrow> Inl (InspectRoute (ri_Destination expected) e)
      | Inr cur \<Rightarrow>
          (case check_owned lookup es h of
             Inl e \<Rightarrow> Inl e
           | Inr drift \<Rightarrow>
               Inr ((case cur of
                       None \<Rightarrow> [\<lparr>dr_Kind = DriftMissing, dr_Destination = ri_Destination expected\<rparr>]
                     | Some r \<Rightarrow> (if r \<noteq> expected then [\<lparr>dr_Kind = DriftChanged, dr_Destination = ri_Destination expected\<rparr>] else [])) @ drift)))"

definition checkLocked :: "('h, 'e) Ownership \<Rightarrow> 'h \<Rightarrow> ('e own_error, Drift list) result" where
  "checkLocked o1 h =
     (if ow_closed o1 then Inr []
      else case ow_lookup o1 of None \<Rightarrow> Inr [] | Some lookup \<Rightarrow> check_owned lookup (ow_owned o1) h)"

definition Check :: "('h, 'e) Ownership option \<Rightarrow> 'h \<Rightarrow> ('e own_error, Drift list) result" where
  "Check o1 h = (case o1 of None \<Rightarrow> Inr [] | Some ow \<Rightarrow> checkLocked ow h)"

text \<open>The inner loop adds the first route of the ledger with the missing destination and breaks.\<close>

fun restore :: "(RouteIdentity \<Rightarrow> 'h \<Rightarrow> 'e option \<times> 'h) option \<Rightarrow> string \<Rightarrow> RouteIdentity list \<Rightarrow> 'h \<Rightarrow> 'e own_error list \<times> 'h" where
  "restore add d [] h = ([], h)"
| "restore add d (expected # es) h =
     (case add of
        Some f \<Rightarrow> (if ri_Destination expected = d
                  then (case f expected h of (None, h1) \<Rightarrow> ([], h1) | (Some e, h1) \<Rightarrow> ([RestoreRoute d e], h1))
                  else restore add d es h)
      | None \<Rightarrow> restore add d es h)"

fun restore_all :: "('h, 'e) Ownership \<Rightarrow> Drift list \<Rightarrow> 'h \<Rightarrow> 'e own_error list \<times> 'h" where
  "restore_all o1 [] h = ([], h)"
| "restore_all o1 (item # items) h =
     (if dr_Kind item \<noteq> DriftMissing then restore_all o1 items h
      else case restore (ow_add o1) (dr_Destination item) (ow_owned o1) h of
        (errs, h1) \<Rightarrow> (case restore_all o1 items h1 of (errs2, h2) \<Rightarrow> (errs @ errs2, h2)))"

definition Repair :: "('h, 'e) Ownership option \<Rightarrow> 'h \<Rightarrow> (Drift list \<times> 'e own_error list) \<times> 'h" where
  "Repair o1 h =
     (case o1 of
        None \<Rightarrow> (([], []), h)
      | Some ow \<Rightarrow>
          (if ow_closed ow then (([], []), h)
           else case checkLocked ow h of
             Inl e \<Rightarrow> (([], [e]), h)
           | Inr drift \<Rightarrow> (case restore_all ow drift h of (errs, h1) \<Rightarrow> ((drift, errs), h1))))"

text \<open>Unlike \<open>checkLocked\<close>, \<open>Cleanup\<close> calls the lookup without asking whether there is one.\<close>

fun cleanup_all :: "('h, 'e) Ownership \<Rightarrow> RouteIdentity list \<Rightarrow> 'h \<Rightarrow> ('e own_error list \<times> 'h) option" where
  "cleanup_all o1 [] h = Some ([], h)"
| "cleanup_all o1 (expected # es) h =
     (case ow_lookup o1 of
        None \<Rightarrow> None
      | Some lookup \<Rightarrow>
          (let (errs, h1) =
             (case lookup (ri_Destination expected) h of
                Inl e \<Rightarrow> ([PlainError e], h)
              | Inr cur \<Rightarrow>
                  (case (cur, ow_remove o1) of
                     (Some r, Some remove) \<Rightarrow>
                       (if r = expected then (case remove expected h of (None, h2) \<Rightarrow> ([], h2) | (Some e, h2) \<Rightarrow> ([PlainError e], h2)) else ([], h))
                   | _ \<Rightarrow> ([], h)))
           in map_option (\<lambda>(errs2, h2). (errs @ errs2, h2)) (cleanup_all o1 es h1)))"

definition Cleanup :: "('h, 'e) Ownership option \<Rightarrow> 'h \<Rightarrow> ('e own_error list \<times> ('h, 'e) Ownership option \<times> 'h) option" where
  "Cleanup o1 h =
     (case o1 of
        None \<Rightarrow> Some ([], None, h)
      | Some ow \<Rightarrow>
          (if ow_closed ow then Some ([], o1, h)
           else map_option (\<lambda>(errs, h1). (errs, Some (ow\<lparr>ow_closed := True\<rparr>), h1)) (cleanup_all ow (ow_owned ow) h)))"

subsection \<open>DNS\<close>

text \<open>\<open>readable\<close> and \<open>writable\<close> say for which paths the file operations fail for another reason than a missing file.  The closures of a ledger see
  the files and the rest of the host, whose type is a parameter.\<close>

type_synonym 'r host = "files \<times> 'r"

record 'r dns_Ownership =
  do_path :: string
  do_backup :: string
  do_expected :: string
  do_closed :: bool
  do_inspect :: "('r host \<Rightarrow> (dns_error, DriftKind \<times> bool) result) option"
  do_repair :: "('r host \<Rightarrow> dns_error option \<times> 'r host) option"
  do_cleanup :: "('r host \<Rightarrow> dns_error option \<times> 'r host) option"

definition dns_NewOwnership where
  "dns_NewOwnership inspect repair cleanup =
     \<lparr>do_path = [], do_backup = [], do_expected = [], do_closed = False, do_inspect = inspect, do_repair = repair, do_cleanup = cleanup\<rparr>"

definition NewFileOwnership :: "string \<Rightarrow> string \<Rightarrow> string \<Rightarrow> 'r dns_Ownership" where
  "NewFileOwnership path backup expected =
     \<lparr>do_path = path, do_backup = backup, do_expected = expected, do_closed = False, do_inspect = None, do_repair = None, do_cleanup = None\<rparr>"

datatype Backend = BackendNone | BackendResolved | BackendResolvConf

definition OwnershipForBackend :: "(string \<Rightarrow> bool) \<Rightarrow> string \<Rightarrow> Backend \<Rightarrow> string \<Rightarrow> files \<Rightarrow> (dns_error, 'r dns_Ownership option) result" where
  "OwnershipForBackend readable ResolvConfPath backend backupPath fs =
     (if backend \<noteq> BackendResolvConf then Inr None
      else case (if readable ResolvConfPath then fs ResolvConfPath else None) of
        None \<Rightarrow> Inl (ReadBackup ResolvConfPath)
      | Some expected \<Rightarrow> Inr (Some (NewFileOwnership ResolvConfPath backupPath expected)))"

definition dns_checkLocked :: "(string \<Rightarrow> bool) \<Rightarrow> 'r dns_Ownership \<Rightarrow> 'r host \<Rightarrow> (dns_error, DriftKind \<times> bool) result" where
  "dns_checkLocked readable ow h =
     (if do_closed ow then Inr (NoDrift, False)
      else case do_inspect ow of
        Some inspect \<Rightarrow> inspect h
      | None \<Rightarrow>
          (case fst h (do_path ow) of
             None \<Rightarrow> Inr (DriftMissing, True)
           | Some cur \<Rightarrow>
               (if \<not> readable (do_path ow) then Inl (ReadBackup (do_path ow))
                else if cur \<noteq> do_expected ow then Inr (DriftChanged, True) else Inr (NoDrift, False))))"

definition dns_Check :: "(string \<Rightarrow> bool) \<Rightarrow> 'r dns_Ownership option \<Rightarrow> 'r host \<Rightarrow> (dns_error, DriftKind \<times> bool) result" where
  "dns_Check readable o1 h = (case o1 of None \<Rightarrow> Inr (NoDrift, False) | Some ow \<Rightarrow> dns_checkLocked readable ow h)"

definition dns_Repair :: "(string \<Rightarrow> bool) \<Rightarrow> (string \<Rightarrow> bool) \<Rightarrow> 'r dns_Ownership option \<Rightarrow> 'r host \<Rightarrow> ((DriftKind \<times> bool) \<times> dns_error option) \<times> 'r host" where
  "dns_Repair readable writable o1 h =
     (case o1 of
        None \<Rightarrow> (((NoDrift, False), None), h)
      | Some ow \<Rightarrow>
          (case dns_checkLocked readable ow h of
             Inl e \<Rightarrow> (((NoDrift, False), Some e), h)
           | Inr (kind, drifted) \<Rightarrow>
               (if \<not> drifted \<or> kind = DriftChanged then (((kind, drifted), None), h)
                else case do_repair ow of
                  Some f \<Rightarrow> (case f h of (e, h1) \<Rightarrow> (((kind, True), e), h1))
                | None \<Rightarrow>
                    (case write_file writable (do_path ow) (do_expected ow) (fst h) of
                       Inl e \<Rightarrow> (((kind, True), Some e), h)
                     | Inr fs1 \<Rightarrow> (((kind, True), None), (fs1, snd h))))))"

text \<open>Removing a backup that does not exist is no error.\<close>

definition remove_backup :: "(string \<Rightarrow> bool) \<Rightarrow> string \<Rightarrow> files \<Rightarrow> dns_error option \<times> files" where
  "remove_backup writable backup fs =
     (if backup = [] \<or> fs backup = None then (None, fs)
      else if writable backup then (None, fs(backup := None)) else (Some (RemoveFailed backup), fs))"

definition file_cleanup :: "(string \<Rightarrow> bool) \<Rightarrow> (string \<Rightarrow> bool) \<Rightarrow> 'r dns_Ownership \<Rightarrow> files \<Rightarrow> dns_error option \<times> files" where
  "file_cleanup readable writable ow fs =
     (if fs (do_path ow) = Some (do_expected ow) \<and> readable (do_path ow) \<and> do_backup ow \<noteq> [] then
        (case (if readable (do_backup ow) then fs (do_backup ow) else None) of
           None \<Rightarrow> (Some (ReadBackup (do_backup ow)), fs)
         | Some backup \<Rightarrow>
             (case write_file writable (do_path ow) backup fs of
                Inl e \<Rightarrow> (Some e, fs)
              | Inr fs1 \<Rightarrow> remove_backup writable (do_backup ow) fs1))
      else remove_backup writable (do_backup ow) fs)"

definition dns_Cleanup :: "(string \<Rightarrow> bool) \<Rightarrow> (string \<Rightarrow> bool) \<Rightarrow> 'r dns_Ownership option \<Rightarrow> 'r host \<Rightarrow> dns_error option \<times> 'r dns_Ownership option \<times> 'r host" where
  "dns_Cleanup readable writable o1 h =
     (case o1 of
        None \<Rightarrow> (None, None, h)
      | Some ow \<Rightarrow>
          (if do_closed ow then (None, o1, h)
           else let o2 = Some (ow\<lparr>do_closed := True\<rparr>) in
             case do_cleanup ow of
               Some f \<Rightarrow> (case f h of (e, h1) \<Rightarrow> (e, o2, h1))
             | None \<Rightarrow> (case file_cleanup readable writable ow (fst h) of (e, fs1) \<Rightarrow> (e, o2, (fs1, snd h)))))"

subsection \<open>The drift monitor\<close>

datatype drift_event = RouteDrift string string | DNSDrift string | RouteRestoreFailed | DNSRestoreFailed

definition kind_number :: "DriftKind \<Rightarrow> int" where
  "kind_number k = (case k of NoDrift \<Rightarrow> 0 | DriftMissing \<Rightarrow> 1 | DriftChanged \<Rightarrow> 2)"

definition routeDriftName :: "DriftKind \<Rightarrow> string" where
  "routeDriftName k = (if k = DriftMissing then ''missing'' else ''changed'')"

definition dnsDriftName :: "DriftKind \<Rightarrow> string" where
  "dnsDriftName k = (if k = DriftMissing then ''missing'' else ''changed'')"

definition route_key :: "Drift \<Rightarrow> string" where
  "route_key item = ''route:'' @ Itoa (kind_number (dr_Kind item)) @ '':'' @ dr_Destination item"

definition dns_key :: "DriftKind \<Rightarrow> string" where
  "dns_key kind = ''dns:'' @ Itoa (kind_number kind)"

text \<open>\<open>reported\<close> is the set of keys of the Go map.\<close>

definition route_drift :: "Drift list \<times> 'e own_error list \<Rightarrow> string set \<Rightarrow> drift_event list \<times> string set" where
  "route_drift r reported =
     (let (drift, errs) = r;
          active = set (map route_key drift);
          events = (if errs \<noteq> [] then [RouteRestoreFailed] else []) @
            map (\<lambda>item. RouteDrift (dr_Destination item)
                   (if dr_Kind item = DriftMissing \<and> errs = [] then ''restored'' else routeDriftName (dr_Kind item)))
              (filter (\<lambda>item. route_key item \<notin> reported) drift)
      in (events, {key \<in> reported. \<not> (HasPrefix key ''route:'' \<and> key \<notin> active)} \<union> active))"

definition dns_drift :: "(DriftKind \<times> bool) \<times> dns_error option \<Rightarrow> string set \<Rightarrow> drift_event list \<times> string set" where
  "dns_drift r reported =
     (let ((kind, drifted), err) = r; key = dns_key kind;
          fresh = (drifted \<and> key \<notin> reported);
          events = (if err \<noteq> None then [DNSRestoreFailed] else []) @
            (if fresh then [DNSDrift (if kind = DriftMissing \<and> err = None then ''restored'' else dnsDriftName kind)] else []);
          reported1 = (if fresh then insert key reported else reported)
      in (events, if drifted then reported1 else {k \<in> reported1. \<not> HasPrefix k ''dns:''}))"

text \<open>One tick: the routes, then the DNS settings; a ledger that is nil is skipped.\<close>

definition checkResourceDrift where
  "checkResourceDrift readable writable routes dns st =
     (let (h, fs, reported) = st;
          (ev1, h1, rep1) =
        (case routes of
           None \<Rightarrow> ([], h, reported)
         | Some _ \<Rightarrow> (let (r, h1) = Repair routes h; (ev, rep) = route_drift r reported in (ev, h1, rep)));
          (ev2, fs1, rep2) =
        (case dns of
           None \<Rightarrow> ([], fs, rep1)
         | Some _ \<Rightarrow> (let (r, fs1) = dns_Repair readable writable dns fs; (ev, rep) = dns_drift r rep1 in (ev, fs1, rep)))
      in (ev1 @ ev2, (h1, fs1, rep2)))"

subsection \<open>A closed ledger\<close>

text \<open>The contract both ledgers offer to the client: clean-up closes the ledger, and a closed ledger never acts on the host again.  In the
  interface a ledger is one value \<open>'o\<close>; \<open>quiet\<close> is the answer of a repair that finds nothing to do.\<close>

datatype 'h ledger_op = OpRepair | OpCleanup | OpForeign "'h \<Rightarrow> 'h"

fun ledger_run where
  "ledger_run repair cleanup [] (ow, h) = Some (ow, h)"
| "ledger_run repair cleanup (OpRepair # ops) (ow, h) = ledger_run repair cleanup ops (ow, snd (repair ow h))"
| "ledger_run repair cleanup (OpCleanup # ops) (ow, h) =
     (case cleanup ow h of None \<Rightarrow> None | Some (_, ow1, h1) \<Rightarrow> ledger_run repair cleanup ops (ow1, h1))"
| "ledger_run repair cleanup (OpForeign f # ops) (ow, h) = ledger_run repair cleanup ops (ow, f h)"

fun foreign :: "'h ledger_op list \<Rightarrow> 'h \<Rightarrow> 'h" where
  "foreign [] h = h"
| "foreign (OpForeign f # ops) h = foreign ops (f h)"
| "foreign (_ # ops) h = foreign ops h"

locale ledger =
  fixes repair :: "'o \<Rightarrow> 'h \<Rightarrow> 'r \<times> 'h"
    and cleanup :: "'o \<Rightarrow> 'h \<Rightarrow> ('e \<times> 'o \<times> 'h) option"
    and closed :: "'o \<Rightarrow> bool"
    and quiet :: 'r
    and fine :: 'e
  assumes closed_repair: "closed ow \<Longrightarrow> repair ow h = (quiet, h)"
    and closed_cleanup: "closed ow \<Longrightarrow> cleanup ow h = Some (fine, ow, h)"
    and cleanup_closes: "cleanup ow h = Some (e, ow', h') \<Longrightarrow> closed ow'"
begin

lemma closed_run: "closed ow \<Longrightarrow> ledger_run repair cleanup ops (ow, h) = Some (ow, foreign ops h)"
proof (induction ops arbitrary: h)
  case (Cons op ops)
  then show ?case by (cases op) (simp_all add: closed_repair closed_cleanup)
qed simp

lemma run_after_cleanup:
  assumes "cleanup ow h = Some (e, ow', h')"
  shows "ledger_run repair cleanup (OpCleanup # ops) (ow, h) = Some (ow', foreign ops h')"
  using assms closed_run [OF cleanup_closes [OF assms]] by simp

end

definition ledger_closed :: "('h, 'e) Ownership option \<Rightarrow> bool" where
  "ledger_closed o1 \<longleftrightarrow> (case o1 of None \<Rightarrow> True | Some ow \<Rightarrow> ow_closed ow)"

definition dns_closed :: "'r dns_Ownership option \<Rightarrow> bool" where
  "dns_closed o1 \<longleftrightarrow> (case o1 of None \<Rightarrow> True | Some ow \<Rightarrow> do_closed ow)"

interpretation rl: ledger Repair Cleanup ledger_closed "([], [])" "[]"
  by unfold_locales (auto simp: ledger_closed_def Repair_def Cleanup_def split: option.splits if_splits)

interpretation dl: ledger "dns_Repair readable writable" "\<lambda>ow fs. Some (dns_Cleanup readable writable ow fs)" dns_closed "((NoDrift, False), None)" None
  for readable writable
  by unfold_locales
    (auto simp: dns_closed_def dns_Repair_def dns_Cleanup_def dns_checkLocked_def Let_def split: option.splits if_splits prod.splits sum.splits)

subsection \<open>Routes the ledger touches\<close>

text \<open>What the ledger relies on of the platform: \<open>view h d\<close> is the route to destination \<open>d\<close> on host \<open>h\<close>.  A lookup that succeeds
  returns it, an addition that succeeds adds a route where there was none, a removal that succeeds removes the route; an
  operation that fails changes nothing.\<close>

definition route_table :: "('h \<Rightarrow> string \<Rightarrow> RouteIdentity option) \<Rightarrow> ('h, 'e) Ownership \<Rightarrow> bool" where
  "route_table view ow \<longleftrightarrow>
     (\<forall>lookup d h x. ow_lookup ow = Some lookup \<longrightarrow> lookup d h = Inr x \<longrightarrow> x = view h d) \<and>
     (\<forall>add r h e h'. ow_add ow = Some add \<longrightarrow> add r h = (e, h') \<longrightarrow>
        (case e of None \<Rightarrow> view h (ri_Destination r) = None \<and> view h' = (view h)(ri_Destination r \<mapsto> r) | Some _ \<Rightarrow> view h' = view h)) \<and>
     (\<forall>remove r h e h'. ow_remove ow = Some remove \<longrightarrow> remove r h = (e, h') \<longrightarrow>
        (case e of None \<Rightarrow> view h' = (view h)(ri_Destination r := None) | Some _ \<Rightarrow> view h' = view h))"

lemma route_table_lookup: "route_table view ow \<Longrightarrow> ow_lookup ow = Some lookup \<Longrightarrow> lookup d h = Inr x \<Longrightarrow> x = view h d"
  unfolding route_table_def by blast

lemma route_table_add:
  "route_table view ow \<Longrightarrow> ow_add ow = Some add \<Longrightarrow> add r h = (None, h') \<Longrightarrow> view h (ri_Destination r) = None \<and> view h' = (view h)(ri_Destination r \<mapsto> r)"
  "route_table view ow \<Longrightarrow> ow_add ow = Some add \<Longrightarrow> add r h = (Some e, h') \<Longrightarrow> view h' = view h"
  unfolding route_table_def by fastforce+

lemma route_table_remove:
  "route_table view ow \<Longrightarrow> ow_remove ow = Some remove \<Longrightarrow> remove r h = (None, h') \<Longrightarrow> view h' = (view h)(ri_Destination r := None)"
  "route_table view ow \<Longrightarrow> ow_remove ow = Some remove \<Longrightarrow> remove r h = (Some e, h') \<Longrightarrow> view h' = view h"
  unfolding route_table_def by fastforce+

definition owned_drift :: "('h \<Rightarrow> string \<Rightarrow> RouteIdentity option) \<Rightarrow> 'h \<Rightarrow> RouteIdentity \<Rightarrow> Drift list" where
  "owned_drift view h r =
     (case view h (ri_Destination r) of
        None \<Rightarrow> [\<lparr>dr_Kind = DriftMissing, dr_Destination = ri_Destination r\<rparr>]
      | Some cur \<Rightarrow> (if cur \<noteq> r then [\<lparr>dr_Kind = DriftChanged, dr_Destination = ri_Destination r\<rparr>] else []))"

lemma check_owned_drift:
  assumes "route_table view ow" "ow_lookup ow = Some lookup"
  shows "check_owned lookup rs h = Inr drift \<Longrightarrow> drift = concat (map (owned_drift view h) rs)"
proof (induction rs arbitrary: drift)
  case (Cons r rs)
  then obtain x d where x: "lookup (ri_Destination r) h = Inr x" "check_owned lookup rs h = Inr d"
    by (auto split: sum.splits)
  have "x = view h (ri_Destination r)" by (rule route_table_lookup [OF assms x(1)])
  then show ?case using Cons x by (auto simp: owned_drift_def)
qed simp

lemma restore_table:
  assumes "route_table view ow" "restore (ow_add ow) d rs h = (errs, h')" "distinct (map ri_Destination rs)"
  shows "(\<forall>d'. view h' d' = view h d' \<or> (view h d' = None \<and> d' = d \<and> (\<exists>r\<in>set rs. ri_Destination r = d \<and> view h' d = Some r))) \<and>
     (errs = [] \<and> ow_add ow \<noteq> None \<longrightarrow> (\<forall>r\<in>set rs. ri_Destination r = d \<longrightarrow> view h' d = Some r))"
  using assms(2,3)
proof (induction rs arbitrary: h)
  case (Cons r rs)
  show ?case
  proof (cases "ow_add ow")
    case None
    then show ?thesis using Cons by force
  next
    case (Some add)
    show ?thesis
    proof (cases "ri_Destination r = d")
      case False
      then show ?thesis using Cons Some by force
    next
      case True
      obtain e h1 where a: "add r h = (e, h1)" by fastforce
      then show ?thesis
        using Cons.prems True Some route_table_add [OF assms(1) Some, of r h] by (cases e) (auto, metis image_eqI)
    qed
  qed
qed simp

lemma restore_all_table:
  assumes "route_table view ow" "distinct (map ri_Destination (ow_owned ow))"
  shows "restore_all ow drift h = (errs, h') \<Longrightarrow>
     (\<forall>d. view h' d = view h d \<or> (view h d = None \<and> (\<exists>r\<in>set (ow_owned ow). ri_Destination r = d \<and> view h' d = Some r))) \<and>
     (errs = [] \<and> ow_add ow \<noteq> None \<longrightarrow>
       (\<forall>r\<in>set (ow_owned ow). \<lparr>dr_Kind = DriftMissing, dr_Destination = ri_Destination r\<rparr> \<in> set drift \<longrightarrow> view h' (ri_Destination r) = Some r))"
proof (induction drift arbitrary: h errs)
  case (Cons item items)
  show ?case
  proof (cases "dr_Kind item = DriftMissing")
    case False
    then have "restore_all ow items h = (errs, h')" using Cons.prems by simp
    from Cons.IH [OF this] False show ?thesis by auto
  next
    case True
    obtain e1 h1 e2 where r: "restore (ow_add ow) (dr_Destination item) (ow_owned ow) h = (e1, h1)"
      "restore_all ow items h1 = (e2, h')" "errs = e1 @ e2"
      using Cons.prems True by (auto split: prod.splits)
    note t = restore_table [OF assms(1) r(1) assms(2)] and ih = Cons.IH [OF r(2)]
    show ?thesis
    proof (intro conjI allI impI ballI)
      fix d
      show "view h' d = view h d \<or> (view h d = None \<and> (\<exists>r\<in>set (ow_owned ow). ri_Destination r = d \<and> view h' d = Some r))"
        using t ih by (metis option.distinct(1))
    next
      fix rt
      assume a: "errs = [] \<and> ow_add ow \<noteq> None" "rt \<in> set (ow_owned ow)"
        "\<lparr>dr_Kind = DriftMissing, dr_Destination = ri_Destination rt\<rparr> \<in> set (item # items)"
      show "view h' (ri_Destination rt) = Some rt"
      proof (cases "item = \<lparr>dr_Kind = DriftMissing, dr_Destination = ri_Destination rt\<rparr>")
        case here: True
        then have "view h1 (ri_Destination rt) = Some rt" using t a r(3) by auto
        then show ?thesis using ih by (metis option.distinct(1))
      next
        case later: False
        then show ?thesis using ih a r(3) by simp
      qed
    qed
  qed
qed simp

lemma cleanup_all_table:
  assumes "route_table view ow" "ow_lookup ow = Some lookup"
  shows "\<exists>errs h'. cleanup_all ow rs h = Some (errs, h') \<and>
     (\<forall>d. view h' d = view h d \<or> (\<exists>r\<in>set rs. ri_Destination r = d \<and> view h d = Some r \<and> view h' d = None)) \<and>
     (errs = [] \<and> ow_remove ow \<noteq> None \<longrightarrow> (\<forall>r\<in>set rs. view h (ri_Destination r) = Some r \<longrightarrow> view h' (ri_Destination r) = None))"
proof (induction rs arbitrary: h)
  case (Cons r rs)
  define step where "step = (case lookup (ri_Destination r) h of
                Inl e \<Rightarrow> ([PlainError e], h)
              | Inr cur \<Rightarrow>
                  (case (cur, ow_remove ow) of
                     (Some x, Some remove) \<Rightarrow>
                       (if x = r then (case remove r h of (None, h2) \<Rightarrow> ([], h2) | (Some e, h2) \<Rightarrow> ([PlainError e], h2)) else ([], h))
                   | _ \<Rightarrow> ([], h)))"
  obtain e1 h1 where st: "step = (e1, h1)" by fastforce
  have one: "(view h1 = view h \<and> (e1 = [] \<and> ow_remove ow \<noteq> None \<longrightarrow> view h (ri_Destination r) \<noteq> Some r)) \<or>
      (view h (ri_Destination r) = Some r \<and> view h1 = (view h)(ri_Destination r := None))"
  proof (cases "lookup (ri_Destination r) h")
    case (Inl e)
    then show ?thesis using st by (auto simp: step_def)
  next
    case (Inr cur)
    have c: "cur = view h (ri_Destination r)" by (rule route_table_lookup [OF assms Inr])
    show ?thesis
    proof (cases "ow_remove ow")
      case None
      then show ?thesis using st Inr by (auto simp: step_def split: option.splits)
    next
      case (Some remove)
      obtain e h2 where "remove r h = (e, h2)" by fastforce
      then show ?thesis using st Inr Some c route_table_remove [OF assms(1) Some, of r h]
        by (cases e) (auto simp: step_def split: option.splits if_splits)
    qed
  qed
  obtain e2 h' where ih: "cleanup_all ow rs h1 = Some (e2, h')"
    "\<forall>d. view h' d = view h1 d \<or> (\<exists>r\<in>set rs. ri_Destination r = d \<and> view h1 d = Some r \<and> view h' d = None)"
    "e2 = [] \<and> ow_remove ow \<noteq> None \<longrightarrow> (\<forall>r\<in>set rs. view h1 (ri_Destination r) = Some r \<longrightarrow> view h' (ri_Destination r) = None)"
    using Cons.IH [of h1] by blast
  have "cleanup_all ow (r # rs) h = Some (e1 @ e2, h')"
    using assms(2) ih(1) st by (simp add: step_def Let_def)
  moreover have "view h' d = view h d \<or> (\<exists>x\<in>set (r # rs). ri_Destination x = d \<and> view h d = Some x \<and> view h' d = None)" for d
    using one ih(2) [rule_format, of d] by (cases "d = ri_Destination r") auto
  moreover have "view h' (ri_Destination x) = None"
    if "e1 @ e2 = [] \<and> ow_remove ow \<noteq> None" "x \<in> set (r # rs)" "view h (ri_Destination x) = Some x" for x
    using one ih(2) [rule_format, of "ri_Destination x"] ih(3) that by (cases "ri_Destination x = ri_Destination r") auto
  ultimately show ?case by blast
qed simp

subsection \<open>Properties\<close>


text \<open>A routing table as a map, with an addition that refuses a destination it already has.\<close>

definition map_ledger :: "RouteIdentity list \<Rightarrow> (string \<Rightarrow> RouteIdentity option, unit) Ownership" where
  "map_ledger owned = NewOwnership owned (Some (\<lambda>d h. Inr (h d)))
     (Some (\<lambda>r h. if h (ri_Destination r) = None then (None, h(ri_Destination r \<mapsto> r)) else (Some (), h)))
     (Some (\<lambda>r h. (None, h(ri_Destination r := None))))"

lemma map_ledger_table: "route_table (\<lambda>h. h) (map_ledger owned)"
  by (auto simp: route_table_def map_ledger_def NewOwnership_def split: option.splits if_splits)

definition vpn_route :: "string \<Rightarrow> RouteIdentity" where
  "vpn_route d = \<lparr>ri_Destination = d, ri_Gateway = ''10.8.0.1'', ri_Interface = 5\<rparr>"


text \<open>The message of a drift event depends on whether any restoration failed, not on its own: with two missing routes of which one
  cannot be added, the route that was restored is reported as missing.\<close>

lemma restored_reported_missing:
  "\<exists>(ow :: (string \<Rightarrow> RouteIdentity option, unit) Ownership) h1 r ev rep. Repair (Some ow) Map.empty = (r, h1) \<and> h1 ''10.0.0.0/8'' \<noteq> None \<and>
     route_drift r {} = (ev, rep) \<and> RouteDrift ''10.0.0.0/8'' ''missing'' \<in> set ev"
proof -
  let ?add = "\<lambda>r h :: string \<Rightarrow> RouteIdentity option. if ri_Destination r = ''0.0.0.0/0'' then (Some (), h) else (None, h(ri_Destination r \<mapsto> r))"
  let ?ow = "NewOwnership [vpn_route ''10.0.0.0/8'', vpn_route ''0.0.0.0/0''] (Some (\<lambda>d h. Inr (h d))) (Some ?add) None"
  have r: "Repair (Some ?ow) Map.empty =
     (([\<lparr>dr_Kind = DriftMissing, dr_Destination = ''10.0.0.0/8''\<rparr>, \<lparr>dr_Kind = DriftMissing, dr_Destination = ''0.0.0.0/0''\<rparr>],
       [RestoreRoute ''0.0.0.0/0'' ()]), [''10.0.0.0/8'' \<mapsto> vpn_route ''10.0.0.0/8''])"
    by (simp add: Repair_def NewOwnership_def checkLocked_def vpn_route_def)
  show ?thesis by (intro exI [of _ ?ow] exI conjI, rule r) (auto simp: route_drift_def Let_def routeDriftName_def)
qed

text \<open>(ownership of resolv.conf).  A file ledger that was taken after the settings were written reports the file as missing or changed
  exactly when it is; \<open>Repair\<close> writes the owned text when the file is gone and never over another text; \<open>Cleanup\<close> puts the backup
  back when the file still has the owned text, leaves it alone otherwise, and removes the backup.  No other file is touched.  So
  taking the backup, applying the settings and cleaning up gives the original text, unless somebody else has written the file,
  whose text then stays.\<close>

theorem dns_ledger:
  assumes "ow = NewFileOwnership path backup expected" "readable path" "readable backup" "writable path" "writable backup"
    and "path \<noteq> backup" "backup \<noteq> []" "fs backup = Some original"
    and "Servers cfg \<noteq> []" "host path = Some before"
  shows "dns_Check readable (Some ow) (fs, r) =
       Inr (case fs path of None \<Rightarrow> (DriftMissing, True) | Some t \<Rightarrow> (if t = expected then (NoDrift, False) else (DriftChanged, True))) \<and>
     snd (dns_Repair readable writable (Some ow) (fs, r)) = ((case fs path of None \<Rightarrow> fs(path \<mapsto> expected) | Some _ \<Rightarrow> fs), r) \<and>
     dns_Cleanup readable writable (Some ow) (fs, r) =
       (None, Some (ow\<lparr>do_closed := True\<rparr>), ((if fs path = Some expected then fs(path \<mapsto> original) else fs)(backup := None), r)) \<and>
     ledger_run (dns_Repair readable writable) (\<lambda>ow h. Some (dns_Cleanup readable writable ow h)) (OpCleanup # ops) (Some ow, (fs, r)) =
       Some (Some (ow\<lparr>do_closed := True\<rparr>), foreign ops (((if fs path = Some expected then fs(path \<mapsto> original) else fs)(backup := None), r))) \<and>
     (\<exists>fs1 fs2 ow2. BackupResolvConf writable path backup host = Inr fs1 \<and> ApplyResolvConf writable path (Some cfg) fs1 = Inr fs2 \<and>
        OwnershipForBackend readable path BackendResolvConf backup fs2 = Inr (Some ow2) \<and>
        snd (snd (dns_Cleanup readable writable (Some ow2) (fs2, r))) = (host(backup := None), r) \<and>
        (\<forall>other. other \<noteq> resolv_text cfg \<longrightarrow>
           snd (snd (dns_Cleanup readable writable (Some ow2) (fs2(path \<mapsto> other), r))) = (host(path \<mapsto> other, backup := None), r)))"
proof -
  have cl: "dns_Cleanup readable writable (Some (NewFileOwnership path backup t)) (g, r) =
       (None, Some ((NewFileOwnership path backup t)\<lparr>do_closed := True\<rparr>), ((if g path = Some t then g(path \<mapsto> b) else g)(backup := None), r))"
    if "g backup = Some b" for t g b
    using assms that by (simp add: dns_Cleanup_def file_cleanup_def NewFileOwnership_def Let_def write_file_def remove_backup_def)
  have c: "dns_Cleanup readable writable (Some ow) (fs, r) =
       (None, Some (ow\<lparr>do_closed := True\<rparr>), ((if fs path = Some expected then fs(path \<mapsto> original) else fs)(backup := None), r))"
    using cl [of fs original expected] assms(1,8) by simp
  have run: "ledger_run (dns_Repair readable writable) (\<lambda>ow h. Some (dns_Cleanup readable writable ow h)) (OpCleanup # ops) (Some ow, (fs, r)) =
       Some (Some (ow\<lparr>do_closed := True\<rparr>), foreign ops (((if fs path = Some expected then fs(path \<mapsto> original) else fs)(backup := None), r)))"
    by (rule dl.run_after_cleanup) (simp add: c)
  have chk: "dns_Check readable (Some ow) (fs, r) =
       Inr (case fs path of None \<Rightarrow> (DriftMissing, True) | Some t \<Rightarrow> (if t = expected then (NoDrift, False) else (DriftChanged, True)))"
    and rep: "snd (dns_Repair readable writable (Some ow) (fs, r)) = ((case fs path of None \<Rightarrow> fs(path \<mapsto> expected) | Some _ \<Rightarrow> fs), r)"
    using assms by (auto simp: dns_Check_def dns_checkLocked_def dns_Repair_def NewFileOwnership_def write_file_def split: option.splits)
  let ?fs1 = "host(backup \<mapsto> before)" and ?fs2 = "host(backup \<mapsto> before, path \<mapsto> resolv_text cfg)"
  have "BackupResolvConf writable path backup host = Inr ?fs1" "ApplyResolvConf writable path (Some cfg) ?fs1 = Inr ?fs2"
    "OwnershipForBackend readable path BackendResolvConf backup ?fs2 = Inr (Some (NewFileOwnership path backup (resolv_text cfg)))"
    using assms by (simp_all add: BackupResolvConf_def ApplyResolvConf_def write_file_def OwnershipForBackend_def)
  moreover have "snd (snd (dns_Cleanup readable writable (Some (NewFileOwnership path backup (resolv_text cfg))) (?fs2, r))) = (host(backup := None), r)"
    using cl [of ?fs2 before "resolv_text cfg"] assms(6,10) by (simp add: fun_upd_twist fun_upd_idem)
  moreover have "snd (snd (dns_Cleanup readable writable (Some (NewFileOwnership path backup (resolv_text cfg))) (?fs2(path \<mapsto> other), r))) =
      (host(path \<mapsto> other, backup := None), r)" if "other \<noteq> resolv_text cfg" for other
    using cl [of "?fs2(path \<mapsto> other)" before "resolv_text cfg"] assms(6,10) that by (simp add: fun_upd_twist)
  ultimately show ?thesis using c run chk rep by blast
qed

theorem dns_ledger_witness:
  "\<exists>fs1 fs2 ow. BackupResolvConf (\<lambda>_. True) ''/etc/resolv.conf'' ''/tmp/b'' [''/etc/resolv.conf'' \<mapsto> ''nameserver 1.1.1.1''] = Inr fs1 \<and>
     ApplyResolvConf (\<lambda>_. True) ''/etc/resolv.conf'' (Some \<lparr>Servers = [[10, 0, 0, 2]], SearchDomains = [], RouteDomains = []\<rparr>) fs1 = Inr fs2 \<and>
     OwnershipForBackend (\<lambda>_. True) ''/etc/resolv.conf'' BackendResolvConf ''/tmp/b'' fs2 = Inr (Some ow) \<and>
     snd (snd (dns_Cleanup (\<lambda>_. True) (\<lambda>_. True) (Some ow) (fs2, ()))) = ([''/etc/resolv.conf'' \<mapsto> ''nameserver 1.1.1.1''], ())"
proof -
  let ?P = "''/etc/resolv.conf''" and ?B = "''/tmp/b''" and ?t = "''nameserver 1.1.1.1''"
  let ?cfg = "\<lparr>Servers = [[10, 0, 0, 2]], SearchDomains = [], RouteDomains = []\<rparr>"
  have "?P \<noteq> ?B" "?B \<noteq> []" "[?B \<mapsto> ''x''] ?B = Some ''x''" "Servers ?cfg \<noteq> []" "[?P \<mapsto> ?t] ?P = Some ?t" by simp_all
  from dns_ledger [where readable = "\<lambda>_. True" and writable = "\<lambda>_. True" and path = ?P and backup = ?B and fs = "[?B \<mapsto> ''x'']" and
      original = "''x''" and cfg = ?cfg and host = "[?P \<mapsto> ?t]" and before = ?t and r = "()", OF refl TrueI TrueI TrueI TrueI this]
  obtain fs1 fs2 ow2 where "BackupResolvConf (\<lambda>_. True) ?P ?B [?P \<mapsto> ?t] = Inr fs1" "ApplyResolvConf (\<lambda>_. True) ?P (Some ?cfg) fs1 = Inr fs2"
    "OwnershipForBackend (\<lambda>_. True) ?P BackendResolvConf ?B fs2 = Inr (Some ow2)"
    "snd (snd (dns_Cleanup (\<lambda>_. True) (\<lambda>_. True) (Some ow2) (fs2, ()))) = ([?P \<mapsto> ?t](?B := None), ())" by blast
  moreover have "[?P \<mapsto> ?t](?B := None) = [?P \<mapsto> ?t]" by (auto simp: fun_eq_iff)
  ultimately show ?thesis by metis
qed

subsection \<open>Reporting\<close>

lemma route_key_prefix: "HasPrefix (route_key item) ''route:''"
  by (simp add: HasPrefix_def route_key_def)

lemma dns_key_prefix: "\<not> HasPrefix (dns_key kind) ''route:''" "HasPrefix (dns_key kind) ''dns:''"
  by (simp_all add: HasPrefix_def dns_key_def)

definition route_keys :: "string set \<Rightarrow> string set" where
  "route_keys S = {k \<in> S. HasPrefix k ''route:''}"

lemma route_drift_keys: "route_keys (snd (route_drift (drift, errs) reported)) = set (map route_key drift)"
  by (auto simp: route_drift_def Let_def route_keys_def route_key_prefix)

lemma prefix_disjoint: "HasPrefix k ''route:'' \<Longrightarrow> \<not> HasPrefix k ''dns:''"
  by (cases k) (auto simp: HasPrefix_def)

lemma dns_drift_keys: "route_keys (snd (dns_drift r reported)) = route_keys reported"
  by (cases r) (auto simp: dns_drift_def Let_def route_keys_def dns_key_prefix dest: prefix_disjoint split: if_splits prod.splits)

text \<open>The ticks of \<open>resourceMonitor\<close>: each gives the answers of the two repairs and the events it emits.\<close>

fun monitor_ticks where
  "monitor_ticks [] reported = []"
| "monitor_ticks ((r, d) # rs) reported =
     (let (ev1, rep1) = route_drift r reported; (ev2, rep2) = dns_drift d rep1 in (ev1 @ ev2) # monitor_ticks rs rep2)"

definition is_route :: "drift_event \<Rightarrow> bool" where
  "is_route ev = (case ev of RouteDrift _ _ \<Rightarrow> True | _ \<Rightarrow> False)"

definition drift_message :: "'e own_error list \<Rightarrow> Drift \<Rightarrow> drift_event" where
  "drift_message errs item = RouteDrift (dr_Destination item)
     (if dr_Kind item = DriftMissing \<and> errs = [] then ''restored'' else routeDriftName (dr_Kind item))"

lemma route_drift_events:
  "filter is_route (fst (route_drift (drift, errs) reported)) = map (drift_message errs) (filter (\<lambda>item. route_key item \<notin> route_keys reported) drift)"
  by (auto simp: route_drift_def Let_def is_route_def drift_message_def route_keys_def route_key_prefix filter_map o_def)

lemma dns_drift_events: "filter is_route (fst (dns_drift r reported)) = []"
  by (cases r) (auto simp: dns_drift_def Let_def is_route_def split: prod.splits if_splits)

lemma monitor_ticks_nth:
  "n < length rs \<Longrightarrow> filter is_route (monitor_ticks rs reported ! n) =
     map (drift_message (snd (fst (rs ! n))))
       (filter (\<lambda>item. route_key item \<notin> (if n = 0 then route_keys reported else set (map route_key (fst (fst (rs ! (n - 1)))))))
         (fst (fst (rs ! n))))"
proof (induction rs arbitrary: n reported)
  case (Cons x rs)
  obtain drift errs d where x: "x = ((drift, errs), d)" by (metis prod.exhaust)
  obtain ev1 rep1 where r1: "route_drift (drift, errs) reported = (ev1, rep1)" by fastforce
  obtain ev2 rep2 where r2: "dns_drift d rep1 = (ev2, rep2)" by fastforce
  have k: "route_keys rep2 = set (map route_key drift)"
    using route_drift_keys [of drift errs reported] dns_drift_keys [of d rep1] r1 r2 by simp
  show ?case
  proof (cases n)
    case 0
    then show ?thesis using route_drift_events [of drift errs reported] dns_drift_events [of d rep1] r1 r2 by (simp add: x)
  next
    case (Suc m)
    then have "m < length rs" using Cons.prems by simp
    from Cons.IH [OF this, of rep2] show ?thesis using r1 r2 k Suc by (cases m) (simp_all add: x)
  qed
qed simp

text \<open>(a drift is reported when it appears).  Over any sequence of ticks of the monitor, the route events of a tick are exactly the
  drifted routes that had not drifted in the same way at the tick before: a drift that lasts is reported once, one that goes away
  and comes back is reported again.  What the DNS ledger reports in between does not disturb this.\<close>

theorem drift_reported_on_onset:
  assumes "n < length rs"
  shows "filter is_route (monitor_ticks rs {} ! n) =
     map (drift_message (snd (fst (rs ! n))))
       (filter (\<lambda>item. n = 0 \<or> route_key item \<notin> set (map route_key (fst (fst (rs ! (n - 1)))))) (fst (fst (rs ! n))))"
  using monitor_ticks_nth [OF assms, of "{}"] by (simp add: route_keys_def)

theorem drift_reported_on_onset_witness:
  "filter is_route (monitor_ticks (replicate 2 ((([\<lparr>dr_Kind = DriftChanged, dr_Destination = ''0.0.0.0/0''\<rparr>], []) :: Drift list \<times> unit own_error list),
      ((DriftMissing, True), None))) {} ! 1) = []"
  using drift_reported_on_onset [of 1 "replicate 2 ((([\<lparr>dr_Kind = DriftChanged, dr_Destination = ''0.0.0.0/0''\<rparr>], []) :: Drift list \<times> unit own_error list),
      ((DriftMissing, True), None))"]
  by (simp add: numeral_2_eq_2)

end
