(* ===== verification/Netlink.thy ===== *)
theory Netlink
  imports Ownership Push_Reply
begin

section \<open>Routes over netlink\<close>

text \<open>
  Models \<^verbatim>\<open>routing/netlink.go\<close> byte by byte: the messages it builds, the answers it parses and the operations on the routing table.
  The kernel is the argument \<open>sys\<close>: whether \<^verbatim>\<open>socket\<close> and \<^verbatim>\<open>bind\<close> fail and, for one request, the error of \<^verbatim>\<open>sendto\<close>, the answers
  that \<^verbatim>\<open>recvfrom\<close> returns one after the other and the new state.  The numbers are those of the Linux interface
  (\<^verbatim>\<open>linux/rtnetlink.h\<close>).  An error \<open>NoAnswer\<close> stands for a call that waits for ever, \<open>NlPanic\<close> for an index out of range.
\<close>

subsection \<open>Bytes\<close>

definition le16 :: "u16 \<Rightarrow> bytes" where "le16 w = rev (be16 w)"

definition LE16 :: "bytes \<Rightarrow> u16" where "LE16 xs = (case xs of a # b # _ \<Rightarrow> u16_of b a | _ \<Rightarrow> 0)"

definition LE32 :: "bytes \<Rightarrow> u32" where "LE32 xs = (case xs of a # b # c # d # _ \<Rightarrow> u32_of d c b a | _ \<Rightarrow> 0)"

definition pad4 :: "bytes \<Rightarrow> bytes" where
  "pad4 xs = xs @ replicate ((4 - length xs mod 4) mod 4) 0"

text \<open>\<^verbatim>\<open>(n+3) &^ 3\<close>\<close>

definition align4 :: "nat \<Rightarrow> nat" where "align4 n = (n + 3) div 4 * 4"

definition AF_INET :: byte where "AF_INET = 2"
definition AF_INET6 :: byte where "AF_INET6 = 10"
definition RT_TABLE_MAIN :: byte where "RT_TABLE_MAIN = 254"
definition RTM_NEWADDR :: u16 where "RTM_NEWADDR = 20"
definition RTM_NEWROUTE :: u16 where "RTM_NEWROUTE = 24"
definition RTM_DELROUTE :: u16 where "RTM_DELROUTE = 25"
definition RTM_GETROUTE :: u16 where "RTM_GETROUTE = 26"
definition NLMSG_ERROR :: u16 where "NLMSG_ERROR = 2"
definition NLMSG_DONE :: u16 where "NLMSG_DONE = 3"
definition RTA_DST :: u16 where "RTA_DST = 1"
definition RTA_OIF :: u16 where "RTA_OIF = 4"
definition RTA_GATEWAY :: u16 where "RTA_GATEWAY = 5"
definition EEXIST :: int where "EEXIST = 17"
definition ESRCH :: int where "ESRCH = 3"
definition ENOENT :: int where "ENOENT = 2"

lemmas netlink_numbers = AF_INET_def AF_INET6_def RT_TABLE_MAIN_def RTM_NEWADDR_def RTM_NEWROUTE_def RTM_DELROUTE_def RTM_GETROUTE_def
  NLMSG_ERROR_def NLMSG_DONE_def RTA_DST_def RTA_OIF_def RTA_GATEWAY_def

definition nlmsgHdrSize :: nat where "nlmsgHdrSize = 16"

record NlMsghdr =
  nh_Len :: u32
  nh_Type :: u16
  nh_Flags :: u16
  nh_Seq :: u32
  nh_Pid :: u32

record RtMsg =
  rm_Family :: byte
  rm_Dst_len :: byte
  rm_Src_len :: byte
  rm_Tos :: byte
  rm_Table :: byte
  rm_Protocol :: byte
  rm_Scope :: byte
  rm_Type :: byte
  rm_Flags :: u32

record ifAddrMsg =
  ia_Family :: byte
  ia_Prefixlen :: byte
  ia_Flags :: byte
  ia_Scope :: byte
  ia_Index :: u32

definition nlAttr :: "u16 \<Rightarrow> bytes \<Rightarrow> bytes" where
  "nlAttr typ data = pad4 (le16 (of_nat (4 + length data)) @ le16 typ @ data)"

definition marshalNlHdr :: "NlMsghdr \<Rightarrow> bytes" where
  "marshalNlHdr h = le32 (nh_Len h) @ le16 (nh_Type h) @ le16 (nh_Flags h) @ le32 (nh_Seq h) @ le32 (nh_Pid h)"

definition marshalRtMsg :: "RtMsg \<Rightarrow> bytes" where
  "marshalRtMsg m =
     [rm_Family m, rm_Dst_len m, rm_Src_len m, rm_Tos m, rm_Table m, rm_Protocol m, rm_Scope m, rm_Type m,
      ucast (rm_Flags m), ucast (drop_bit 8 (rm_Flags m)), ucast (drop_bit 16 (rm_Flags m)), ucast (drop_bit 24 (rm_Flags m))]"

definition marshalIfAddrMsg :: "ifAddrMsg \<Rightarrow> bytes" where
  "marshalIfAddrMsg m = [ia_Family m, ia_Prefixlen m, ia_Flags m, ia_Scope m] @ le32 (ia_Index m)"

subsection \<open>Talking to the kernel\<close>

datatype nl_error =
    NlSocket int | NlBind int | OnlyIPv4Masks nat | InvalidIPv4Mask | NlSend int | NlRecv int | ResponseTooShort nat | ErrorTooShort
  | Kernel int | MalformedDump | MalformedAlignment | ShortNetlinkError | IPv4Required | NlPanic | NoAnswer

text \<open>\<^verbatim>\<open>errors.Is(err, errno)\<close>: these errors wrap the number.\<close>

definition Is_errno :: "nl_error \<Rightarrow> int \<Rightarrow> bool" where
  "Is_errno e n = (case e of NlSocket m \<Rightarrow> m = n | NlBind m \<Rightarrow> m = n | NlSend m \<Rightarrow> m = n | NlRecv m \<Rightarrow> m = n | Kernel m \<Rightarrow> m = n | _ \<Rightarrow> False)"

record 'k sys =
  sy_socket :: "int option"
  sy_bind :: "int option"
  sy_pid :: u32
  sy_exchange :: "bytes \<Rightarrow> 'k \<Rightarrow> int option \<times> (int, bytes) result list \<times> 'k"

definition parseNlError :: "bytes \<Rightarrow> nl_error option" where
  "parseNlError buf =
     (if length buf < nlmsgHdrSize then Some (ResponseTooShort (length buf))
      else if LE16 (drop 4 buf) \<noteq> NLMSG_ERROR then None
      else if length buf < nlmsgHdrSize + 4 then Some ErrorTooShort
      else let errCode = LE32 (drop nlmsgHdrSize buf)
           in if errCode = 0 then None else Some (Kernel (sint (- errCode))))"

text \<open>The first answer, at most \<open>cap\<close> bytes of it.\<close>

definition first_answer :: "nat \<Rightarrow> (int, bytes) result list \<Rightarrow> (nl_error, bytes) result" where
  "first_answer cap as = (case as of [] \<Rightarrow> Inl NoAnswer | Inl e # _ \<Rightarrow> Inl (NlRecv e) | Inr buf # _ \<Rightarrow> Inr (take cap buf))"

definition nl_request :: "'k sys \<Rightarrow> u16 \<Rightarrow> u16 \<Rightarrow> u32 \<Rightarrow> bytes \<Rightarrow> bytes" where
  "nl_request sys msgType flags seq payload =
     marshalNlHdr \<lparr>nh_Len = of_nat (nlmsgHdrSize + length payload), nh_Type = msgType, nh_Flags = flags, nh_Seq = seq, nh_Pid = sy_pid sys\<rparr> @ payload"

definition sendNetlinkMsg :: "'k sys \<Rightarrow> u16 \<Rightarrow> u16 \<Rightarrow> bytes \<Rightarrow> 'k \<Rightarrow> nl_error option \<times> 'k" where
  "sendNetlinkMsg sys msgType flags payload k =
     (case sy_exchange sys (pad4 (nl_request sys msgType (1 OR 4 OR flags) 1 payload)) k of
        (Some e, _, k1) \<Rightarrow> (Some (NlSend e), k1)
      | (None, answers, k1) \<Rightarrow>
          (case first_answer 4096 answers of Inl e \<Rightarrow> (Some e, k1) | Inr buf \<Rightarrow> (parseNlError buf, k1)))"

definition with_socket :: "'k sys \<Rightarrow> 'k \<Rightarrow> (nl_error option \<times> 'k) \<Rightarrow> nl_error option \<times> 'k" where
  "with_socket sys k r =
     (case sy_socket sys of
        Some e \<Rightarrow> (Some (NlSocket e), k)
      | None \<Rightarrow> (case sy_bind sys of Some e \<Rightarrow> (Some (NlBind e), k) | None \<Rightarrow> r))"

text \<open>\<^verbatim>\<open>IPMask.Size\<close>\<close>

definition mask_Size :: "ipmask \<Rightarrow> nat \<times> nat" where
  "mask_Size m =
     (let bs = concat (map byte_bits m); n = length (takeWhile id bs)
      in if list_all Not (drop n bs) then (n, 8 * length m) else (0, 0))"

definition To16 :: "ip \<Rightarrow> ip" where
  "To16 i = (if length i = 4 then v4InV6Prefix @ i else if length i = 16 then i else [])"

definition route_rtmsg :: "byte \<Rightarrow> nat \<Rightarrow> bool \<Rightarrow> RtMsg" where
  "route_rtmsg family ones link =
     \<lparr>rm_Family = family, rm_Dst_len = of_nat ones, rm_Src_len = 0, rm_Tos = 0, rm_Table = RT_TABLE_MAIN, rm_Protocol = 4,
      rm_Scope = (if link then 253 else 0), rm_Type = 1, rm_Flags = 0\<rparr>"

definition route_payload4 :: "int \<Rightarrow> ip \<Rightarrow> nat \<Rightarrow> ip \<Rightarrow> bytes" where
  "route_payload4 ifIndex dst ones gw =
     marshalRtMsg (route_rtmsg AF_INET ones (ones = 32 \<and> gw = [])) @
     nlAttr RTA_DST (To4 dst) @
     (if gw \<noteq> [] then nlAttr RTA_GATEWAY (To4 gw) else []) @
     (if 0 < ifIndex then nlAttr RTA_OIF (le32 (of_int ifIndex)) else [])"

definition netlinkRouteMsg :: "'k sys \<Rightarrow> u16 \<Rightarrow> u16 \<Rightarrow> int \<Rightarrow> ip \<Rightarrow> ipmask \<Rightarrow> ip \<Rightarrow> 'k \<Rightarrow> nl_error option \<times> 'k" where
  "netlinkRouteMsg sys msgType flags ifIndex dst msk gw k =
     with_socket sys k
       (case mask_Size msk of (ones, bits) \<Rightarrow>
          if bits \<noteq> 32 then (Some (OnlyIPv4Masks bits), k)
          else sendNetlinkMsg sys msgType flags (route_payload4 ifIndex dst ones gw) k)"

definition route_payload6 :: "int \<Rightarrow> ip \<Rightarrow> nat \<Rightarrow> ip \<Rightarrow> bytes" where
  "route_payload6 ifIndex dst prefixLen gw =
     marshalRtMsg (route_rtmsg AF_INET6 prefixLen (prefixLen = 128 \<and> gw = [])) @
     nlAttr RTA_DST (To16 dst) @
     (if gw \<noteq> [] then nlAttr RTA_GATEWAY (To16 gw) else []) @
     nlAttr RTA_OIF (le32 (of_int ifIndex))"

definition netlinkRouteMsg6 :: "'k sys \<Rightarrow> u16 \<Rightarrow> u16 \<Rightarrow> int \<Rightarrow> ip \<Rightarrow> nat \<Rightarrow> ip \<Rightarrow> 'k \<Rightarrow> nl_error option \<times> 'k" where
  "netlinkRouteMsg6 sys msgType flags ifIndex dst prefixLen gw k =
     with_socket sys k (sendNetlinkMsg sys msgType flags (route_payload6 ifIndex dst prefixLen gw) k)"

definition create_excl :: u16 where "create_excl = 0x400 OR 0x200"

definition addRoute :: "'k sys \<Rightarrow> int \<Rightarrow> ip \<Rightarrow> ipmask \<Rightarrow> ip \<Rightarrow> 'k \<Rightarrow> nl_error option \<times> 'k" where
  "addRoute sys ifIndex dst msk gw = netlinkRouteMsg sys RTM_NEWROUTE create_excl ifIndex dst msk gw"

definition delRoute :: "'k sys \<Rightarrow> int \<Rightarrow> ip \<Rightarrow> ipmask \<Rightarrow> ip \<Rightarrow> 'k \<Rightarrow> nl_error option \<times> 'k" where
  "delRoute sys ifIndex dst msk gw = netlinkRouteMsg sys RTM_DELROUTE 0 ifIndex dst msk gw"

definition addRoute6 :: "'k sys \<Rightarrow> int \<Rightarrow> ip \<Rightarrow> nat \<Rightarrow> ip \<Rightarrow> 'k \<Rightarrow> nl_error option \<times> 'k" where
  "addRoute6 sys ifIndex dst prefixLen gw = netlinkRouteMsg6 sys RTM_NEWROUTE create_excl ifIndex dst prefixLen gw"

definition delRoute6 :: "'k sys \<Rightarrow> int \<Rightarrow> ip \<Rightarrow> nat \<Rightarrow> ip \<Rightarrow> 'k \<Rightarrow> nl_error option \<times> 'k" where
  "delRoute6 sys ifIndex dst prefixLen gw = netlinkRouteMsg6 sys RTM_DELROUTE 0 ifIndex dst prefixLen gw"

definition AddIPv6Addr :: "'k sys \<Rightarrow> int \<Rightarrow> ip \<Rightarrow> nat \<Rightarrow> 'k \<Rightarrow> nl_error option \<times> 'k" where
  "AddIPv6Addr sys ifIndex local prefix k =
     with_socket sys k
       (let ifaMsg = \<lparr>ia_Family = AF_INET6, ia_Prefixlen = of_nat prefix, ia_Flags = 0, ia_Scope = 0, ia_Index = of_int ifIndex\<rparr>
        in sendNetlinkMsg sys RTM_NEWADDR (0x400 OR 0x100)
             (marshalIfAddrMsg ifaMsg @ nlAttr 1 (To16 local) @ nlAttr 2 (To16 local)) k)"

subsection \<open>Reading routes\<close>

definition ipString :: "ip \<Rightarrow> string" where
  "ipString i = (if i = [] then [] else IP_String i)"

definition routeIdentity :: "ip \<Rightarrow> ipmask \<Rightarrow> ip \<Rightarrow> int \<Rightarrow> RouteIdentity" where
  "routeIdentity dst msk gw ifIndex =
     \<lparr>ri_Destination = IP_String (To4 dst) @ ''/'' @ nat_digits (fst (mask_Size msk)), ri_Gateway = ipString gw, ri_Interface = ifIndex\<rparr>"

definition routeIdentity6 :: "ip \<Rightarrow> nat \<Rightarrow> ip \<Rightarrow> int \<Rightarrow> RouteIdentity" where
  "routeIdentity6 dst prefix gw ifIndex =
     \<lparr>ri_Destination = IP_String (To16 dst) @ ''/'' @ nat_digits prefix, ri_Gateway = ipString gw, ri_Interface = ifIndex\<rparr>"

text \<open>The attributes read so far: gateway, interface and destination.  \<^verbatim>\<open>copy\<close> overwrites the front of the destination.\<close>

type_synonym route_attrs = "ip \<times> int \<times> ip"

definition go_copy :: "bytes \<Rightarrow> bytes \<Rightarrow> bytes" where
  "go_copy dst src = take (length dst) src @ drop (length src) dst"

definition route_attr :: "u16 \<Rightarrow> bytes \<Rightarrow> route_attrs \<Rightarrow> route_attrs" where
  "route_attr typ value st =
     (case st of (gateway, ifIndex, actualDst) \<Rightarrow>
        if typ = RTA_DST then (gateway, ifIndex, go_copy actualDst value)
        else if typ = RTA_GATEWAY then (value, ifIndex, actualDst)
        else if typ = RTA_OIF then (gateway, (if 4 \<le> length value then int (unat (LE32 value)) else ifIndex), actualDst)
        else st)"

function route_attrs_loop :: "bytes \<Rightarrow> route_attrs \<Rightarrow> route_attrs option" where
  "route_attrs_loop attrs st =
     (if length attrs < 4 then Some st
      else let len = unat (LE16 attrs) in
        if len < 4 \<or> length attrs < len then Some st
        else if length attrs < align4 len then None
        else route_attrs_loop (drop (align4 len) attrs) (route_attr (LE16 (drop 2 attrs)) (take (len - 4) (drop 4 attrs)) st))"
  by pat_completeness auto
termination by (relation "measure (\<lambda>(attrs, _). length attrs)") (auto simp: align4_def)

declare route_attrs_loop.simps [simp del]

definition IP_Equal :: "ip \<Rightarrow> ip \<Rightarrow> bool" where
  "IP_Equal a b \<longleftrightarrow>
     (if length a = length b then a = b
      else if length a = 4 \<and> length b = 16 then take 12 b = v4InV6Prefix \<and> a = drop 12 b
      else if length a = 16 \<and> length b = 4 then take 12 a = v4InV6Prefix \<and> drop 12 a = b
      else False)"

definition parseRouteIdentity :: "bytes \<Rightarrow> bytes \<Rightarrow> nat \<Rightarrow> (nl_error, RouteIdentity option) result" where
  "parseRouteIdentity buf expectedDst expectedPrefix =
     (if length buf < nlmsgHdrSize + 12 then Inr None
      else let isError = (LE16 (drop 4 buf) = NLMSG_ERROR); errno = sint (LE32 (drop nlmsgHdrSize buf)) in
        if isError \<and> (errno = - ESRCH \<or> errno = - ENOENT) then Inr None
        else if isError \<and> errno \<noteq> 0 then Inl (Kernel (sint (- LE32 (drop nlmsgHdrSize buf))))
        else let rt = drop nlmsgHdrSize buf in
          if unat (rt ! 1) \<noteq> expectedPrefix then Inr None
          else case route_attrs_loop (drop (nlmsgHdrSize + 12) buf) ([], 0, replicate (length expectedDst) 0) of
            None \<Rightarrow> Inl NlPanic
          | Some (gateway, ifIndex, actualDst) \<Rightarrow>
              (if 0 < expectedPrefix \<and> \<not> IP_Equal actualDst expectedDst then Inr None
               else let d = (if rt ! 0 = AF_INET then To4 expectedDst else expectedDst)
                 in Inr (Some \<lparr>ri_Destination = IP_String d @ ''/'' @ nat_digits expectedPrefix, ri_Gateway = ipString gateway, ri_Interface = ifIndex\<rparr>)))"

text \<open>The result also says whether the dump is done.\<close>

function findRouteIdentity :: "bytes \<Rightarrow> bytes \<Rightarrow> nat \<Rightarrow> (nl_error, RouteIdentity option \<times> bool) result" where
  "findRouteIdentity buf expectedDst expectedPrefix =
     (if length buf < nlmsgHdrSize then Inr (None, False)
      else let len = unat (LE32 buf) in
        if len < nlmsgHdrSize \<or> length buf < len then Inl MalformedDump
        else let msg = take len buf; typ = LE16 (drop 4 msg);
                 continue = (if length buf < align4 len then Inl MalformedAlignment
                             else findRouteIdentity (drop (align4 len) buf) expectedDst expectedPrefix) in
          if typ = NLMSG_DONE then Inr (None, True)
          else if typ = NLMSG_ERROR then
            (if length msg < nlmsgHdrSize + 4 then Inl ShortNetlinkError
             else if LE32 (drop nlmsgHdrSize msg) \<noteq> 0 then Inl (Kernel (sint (- LE32 (drop nlmsgHdrSize msg))))
             else continue)
          else if typ = RTM_NEWROUTE \<and> nlmsgHdrSize + 12 \<le> length msg \<and> msg ! (nlmsgHdrSize + 4) = RT_TABLE_MAIN then
            (case parseRouteIdentity msg expectedDst expectedPrefix of
               Inl e \<Rightarrow> Inl e
             | Inr (Some i) \<Rightarrow> Inr (Some i, False)
             | Inr None \<Rightarrow> continue)
          else continue)"
  by pat_completeness auto
termination by (relation "measure (\<lambda>(buf, _). length buf)") (auto simp: align4_def nlmsgHdrSize_def)

declare findRouteIdentity.simps [simp del]

fun query_loop :: "(int, bytes) result list \<Rightarrow> bytes \<Rightarrow> nat \<Rightarrow> (nl_error, RouteIdentity option) result" where
  "query_loop [] dst prefix = Inl NoAnswer"
| "query_loop (Inl e # _) dst prefix = (if e = ESRCH \<or> e = ENOENT then Inr None else Inl (Kernel e))"
| "query_loop (Inr buf # as) dst prefix =
     (case findRouteIdentity (take 65536 buf) dst prefix of
        Inl e \<Rightarrow> Inl e
      | Inr (Some i, _) \<Rightarrow> Inr (Some i)
      | Inr (None, True) \<Rightarrow> Inr None
      | Inr (None, False) \<Rightarrow> query_loop as dst prefix)"

definition dump_request :: "'k sys \<Rightarrow> byte \<Rightarrow> bytes" where
  "dump_request sys family =
     nl_request sys RTM_GETROUTE (1 OR 0x300) 3
       (marshalRtMsg \<lparr>rm_Family = family, rm_Dst_len = 0, rm_Src_len = 0, rm_Tos = 0, rm_Table = RT_TABLE_MAIN, rm_Protocol = 0, rm_Scope = 0,
          rm_Type = 0, rm_Flags = 0\<rparr>)"

definition queryRouteIdentity :: "'k sys \<Rightarrow> ip \<Rightarrow> nat \<Rightarrow> byte \<Rightarrow> 'k \<Rightarrow> (nl_error, RouteIdentity option) result" where
  "queryRouteIdentity sys dst prefix family k =
     (case sy_socket sys of
        Some e \<Rightarrow> Inl (Kernel e)
      | None \<Rightarrow>
          (case sy_bind sys of
             Some e \<Rightarrow> Inl (Kernel e)
           | None \<Rightarrow>
               (case sy_exchange sys (dump_request sys family) k of
                  (Some e, _, _) \<Rightarrow> Inl (Kernel e)
                | (None, answers, _) \<Rightarrow> query_loop answers dst prefix)))"

definition lookupRouteIdentity :: "'k sys \<Rightarrow> ip \<Rightarrow> ipmask \<Rightarrow> 'k \<Rightarrow> (nl_error, RouteIdentity option) result" where
  "lookupRouteIdentity sys dst msk k =
     (case mask_Size msk of (ones, bits) \<Rightarrow> if bits \<noteq> 32 then Inl InvalidIPv4Mask else queryRouteIdentity sys (To4 dst) ones AF_INET k)"

definition lookupRouteIdentity6 :: "'k sys \<Rightarrow> ip \<Rightarrow> nat \<Rightarrow> 'k \<Rightarrow> (nl_error, RouteIdentity option) result" where
  "lookupRouteIdentity6 sys dst prefix k = queryRouteIdentity sys (To16 dst) prefix AF_INET6 k"

subsection \<open>The gateway of a route and the bypass route\<close>

text \<open>\<open>spare\<close> is the capacity of the buffer beyond its length; that part is zero, and a slice may reach into it.\<close>

function gateway_loop :: "nat \<Rightarrow> bytes \<Rightarrow> (nl_error, ip) result" where
  "gateway_loop spare attrs =
     (if length attrs < 4 then Inr []
      else let attrLen = unat (LE16 attrs) in
        if attrLen < 4 then Inr []
        else if LE16 (drop 2 attrs) = RTA_GATEWAY \<and> 8 \<le> attrLen then
          (if length attrs + spare < attrLen then Inl NlPanic else Inr (take 4 (drop 4 (attrs @ replicate spare 0))))
        else if length attrs < align4 attrLen then Inr []
        else gateway_loop spare (drop (align4 attrLen) attrs))"
  by pat_completeness auto
termination by (relation "measure (\<lambda>(_, attrs). length attrs)") (auto simp: align4_def)

declare gateway_loop.simps [simp del]

definition parseRouteGateway :: "nat \<Rightarrow> bytes \<Rightarrow> (nl_error, ip) result" where
  "parseRouteGateway spare buf =
     (if length buf < nlmsgHdrSize then Inl (ResponseTooShort (length buf))
      else if LE16 (drop 4 buf) = NLMSG_ERROR then
        (if length buf < nlmsgHdrSize + 4 then Inl ErrorTooShort
         else if LE32 (drop nlmsgHdrSize buf) \<noteq> 0 then Inl (Kernel (sint (- LE32 (drop nlmsgHdrSize buf)))) else Inr [])
      else if length buf < nlmsgHdrSize + 12 then Inr []
      else gateway_loop spare (drop (nlmsgHdrSize + 12) buf))"

definition LookupGateway :: "'k sys \<Rightarrow> ip \<Rightarrow> 'k \<Rightarrow> (nl_error, ip) result" where
  "LookupGateway sys dst k =
     (if To4 dst = [] then Inl IPv4Required
      else case sy_socket sys of
        Some e \<Rightarrow> Inl (NlSocket e)
      | None \<Rightarrow>
          (case sy_bind sys of
             Some e \<Rightarrow> Inl (NlBind e)
           | None \<Rightarrow>
               (let payload = marshalRtMsg \<lparr>rm_Family = AF_INET, rm_Dst_len = 32, rm_Src_len = 0, rm_Tos = 0, rm_Table = RT_TABLE_MAIN,
                      rm_Protocol = 0, rm_Scope = 0, rm_Type = 0, rm_Flags = 0\<rparr> @ nlAttr RTA_DST (To4 dst)
                in case sy_exchange sys (pad4 (nl_request sys RTM_GETROUTE 1 2 payload)) k of
                     (Some e, _, _) \<Rightarrow> Inl (NlSend e)
                   | (None, answers, _) \<Rightarrow>
                       (case first_answer 4096 answers of Inl e \<Rightarrow> Inl e | Inr buf \<Rightarrow> parseRouteGateway (4096 - length buf) buf))))"

definition AddBypassRouteOwned :: "'k sys \<Rightarrow> ip \<Rightarrow> ip \<Rightarrow> 'k \<Rightarrow> (nl_error, bool) result \<times> 'k" where
  "AddBypassRouteOwned sys serverIP gw k =
     (if gw = [] then (Inr False, k)
      else case netlinkRouteMsg sys RTM_NEWROUTE create_excl 0 serverIP (CIDRMask 32 32) gw k of
        (None, k1) \<Rightarrow> (Inr True, k1)
      | (Some e, k1) \<Rightarrow> (if Is_errno e EEXIST then (Inr False, k1) else (Inl e, k1)))"

definition AddBypassRoute :: "'k sys \<Rightarrow> ip \<Rightarrow> ip \<Rightarrow> 'k \<Rightarrow> nl_error option \<times> 'k" where
  "AddBypassRoute sys serverIP gw k =
     (case AddBypassRouteOwned sys serverIP gw k of (Inl e, k1) \<Rightarrow> (Some e, k1) | (Inr _, k1) \<Rightarrow> (None, k1))"

definition DeleteBypassRoute :: "'k sys \<Rightarrow> ip \<Rightarrow> ip \<Rightarrow> 'k \<Rightarrow> nl_error option \<times> 'k" where
  "DeleteBypassRoute sys serverIP gw k =
     (if gw = [] then (None, k)
      else case netlinkRouteMsg sys RTM_DELROUTE 0 0 serverIP (CIDRMask 32 32) gw k of
        (None, k1) \<Rightarrow> (None, k1)
      | (Some e, k1) \<Rightarrow> (if Is_errno e ESRCH then (None, k1) else (Some e, k1)))"

subsection \<open>Encoding and decoding\<close>

lemma LE16_le16 [simp]: "LE16 (le16 w @ xs) = w"
  using u16_of_be16 [of w] by (simp add: le16_def LE16_def be16_def)

lemma LE32_le32 [simp]: "LE32 (le32 w @ xs) = w"
  using u32_of_be32 [of w] by (simp add: le32_def LE32_def be32_def)

lemma LE_only [simp]: "LE16 (le16 w) = w" "LE32 (le32 v) = v"
  using LE16_le16 [of w "[]"] LE32_le32 [of v "[]"] by simp_all

lemma length_le [simp]: "length (le16 w) = 2" "length (le32 v) = 4"
  by (simp_all add: le16_def le32_def)

lemma align4_add: "align4 n = n + (4 - n mod 4) mod 4"
proof -
  obtain q r where n: "n = 4 * q + r" "r < 4" by (metis mod_less_divisor mult_div_mod_eq zero_less_numeral)
  then have "r \<in> {0, 1, 2, 3}" by auto
  then show ?thesis by (auto simp: n align4_def)
qed

lemma length_pad4: "length (pad4 xs) = align4 (length xs)"
  by (simp add: pad4_def align4_add)

lemma length_nlAttr: "length (nlAttr t d) = align4 (4 + length d)"
  unfolding nlAttr_def length_pad4 by (rule arg_cong [of _ _ align4]) simp

lemma nlAttr_parts:
  assumes "4 + length d < 2 ^ 16"
  shows "unat (LE16 (nlAttr t d @ rest)) = 4 + length d" "LE16 (drop 2 (nlAttr t d @ rest)) = t"
    "take (length d) (drop 4 (nlAttr t d @ rest)) = d" "drop (align4 (4 + length d)) (nlAttr t d @ rest) = rest"
proof -
  have "unat (of_nat (4 + length d) :: u16) = 4 + length d" using assms by (intro unat_len) simp
  then show "unat (LE16 (nlAttr t d @ rest)) = 4 + length d" by (simp add: nlAttr_def pad4_def del: of_nat_add)
  show "LE16 (drop 2 (nlAttr t d @ rest)) = t" "take (length d) (drop 4 (nlAttr t d @ rest)) = d"
    by (simp_all add: nlAttr_def pad4_def)
  show "drop (align4 (4 + length d)) (nlAttr t d @ rest) = rest" by (simp add: length_nlAttr)
qed

text \<open>The format of the kernel's answers: a route is a header, an rtmsg and attributes; a dump mixes routes of all tables with other
  messages and ends with a done message.\<close>

type_synonym attrs = "(u16 \<times> bytes) list"

definition enc_attrs :: "attrs \<Rightarrow> bytes" where
  "enc_attrs as = concat (map (\<lambda>(t, d). nlAttr t d) as)"

definition attrs_ok :: "attrs \<Rightarrow> bool" where
  "attrs_ok as \<longleftrightarrow> list_all (\<lambda>(t, d). 4 + length d < 2 ^ 16) as"

definition read_attrs :: "nat \<Rightarrow> attrs \<Rightarrow> route_attrs" where
  "read_attrs n as = fold (\<lambda>(t, d). route_attr t d) as ([], 0, replicate n 0)"

lemma route_attrs_loop_enc:
  "attrs_ok as \<Longrightarrow> route_attrs_loop (enc_attrs as) st = Some (fold (\<lambda>(t, d). route_attr t d) as st)"
proof (induction as arbitrary: st)
  case Nil
  then show ?case by (simp add: enc_attrs_def route_attrs_loop.simps)
next
  case (Cons a as)
  obtain t d where a: "a = (t, d)" by fastforce
  have ok: "4 + length d < 2 ^ 16" "attrs_ok as" using Cons.prems by (auto simp: attrs_ok_def a)
  note parts = nlAttr_parts [OF ok(1), of t "enc_attrs as"]
  have e: "enc_attrs (a # as) = nlAttr t d @ enc_attrs as" by (simp add: enc_attrs_def a)
  have l: "4 + length d \<le> align4 (4 + length d)" by (simp add: align4_add)
  have "length (nlAttr t d @ enc_attrs as) = align4 (4 + length d) + length (enc_attrs as)" by (simp add: length_nlAttr)
  then have "route_attrs_loop (enc_attrs (a # as)) st =
      route_attrs_loop (drop (align4 (4 + length d)) (nlAttr t d @ enc_attrs as)) (route_attr t d st)"
    using l parts(1,2,3) by (subst route_attrs_loop.simps) (simp add: e Let_def del: drop_append take_append)
  then show ?case using Cons.IH [OF ok(2), of "route_attr t d st"] parts(4) by (simp add: a)
qed

datatype kmsg = KRoute RtMsg attrs | KDone | KOther u16 bytes

record nl_meta =
  nm_flags :: u16
  nm_seq :: u32
  nm_pid :: u32

definition enc_raw :: "nl_meta \<Rightarrow> u16 \<Rightarrow> bytes \<Rightarrow> bytes" where
  "enc_raw meta typ payload =
     pad4 (marshalNlHdr \<lparr>nh_Len = of_nat (nlmsgHdrSize + length payload), nh_Type = typ, nh_Flags = nm_flags meta, nh_Seq = nm_seq meta, nh_Pid = nm_pid meta\<rparr> @ payload)"

definition enc_kmsg :: "nl_meta \<Rightarrow> kmsg \<Rightarrow> bytes" where
  "enc_kmsg meta m =
     (case m of
        KRoute rt as \<Rightarrow> enc_raw meta RTM_NEWROUTE (marshalRtMsg rt @ enc_attrs as)
      | KDone \<Rightarrow> enc_raw meta NLMSG_DONE (le32 0)
      | KOther typ payload \<Rightarrow> enc_raw meta typ payload)"

definition kmsg_ok :: "kmsg \<Rightarrow> bool" where
  "kmsg_ok m \<longleftrightarrow>
     (case m of
        KRoute rt as \<Rightarrow> attrs_ok as \<and> 28 + length (enc_attrs as) < 2 ^ 32
      | KDone \<Rightarrow> True
      | KOther typ payload \<Rightarrow> typ \<notin> {NLMSG_DONE, NLMSG_ERROR, RTM_NEWROUTE} \<and> 16 + length payload < 2 ^ 32)"

text \<open>Which route a message describes, and the first one of the main table in a dump.\<close>

definition route_match :: "RtMsg \<Rightarrow> attrs \<Rightarrow> bytes \<Rightarrow> nat \<Rightarrow> RouteIdentity option" where
  "route_match rt as dst prefix =
     (case read_attrs (length dst) as of (gateway, ifIndex, actual) \<Rightarrow>
        if unat (rm_Dst_len rt) = prefix \<and> (prefix = 0 \<or> IP_Equal actual dst)
        then Some \<lparr>ri_Destination = IP_String (if rm_Family rt = AF_INET then To4 dst else dst) @ ''/'' @ nat_digits prefix,
                   ri_Gateway = ipString gateway, ri_Interface = ifIndex\<rparr>
        else None)"

fun find_spec :: "kmsg list \<Rightarrow> bytes \<Rightarrow> nat \<Rightarrow> RouteIdentity option \<times> bool" where
  "find_spec [] dst prefix = (None, False)"
| "find_spec (KDone # ms) dst prefix = (None, True)"
| "find_spec (KOther _ _ # ms) dst prefix = find_spec ms dst prefix"
| "find_spec (KRoute rt as # ms) dst prefix =
     (if rm_Table rt = RT_TABLE_MAIN then
        (case route_match rt as dst prefix of Some i \<Rightarrow> (Some i, False) | None \<Rightarrow> find_spec ms dst prefix)
      else find_spec ms dst prefix)"

lemma length_marshal [simp]: "length (marshalNlHdr h) = 16" "length (marshalRtMsg m) = 12"
  by (simp_all add: marshalNlHdr_def marshalRtMsg_def)

lemma align4_multiple: "n mod 4 = 0 \<Longrightarrow> align4 n = n"
  by (simp add: align4_add)

lemma enc_attrs_mod: "length (enc_attrs as) mod 4 = 0"
proof (induction as)
  case (Cons a as)
  obtain t d where a: "a = (t, d)" by fastforce
  have "align4 (4 + length d) mod 4 = 0" by (simp add: align4_def)
  then show ?case using Cons by (simp add: enc_attrs_def a length_nlAttr mod_add_eq [symmetric])
qed (simp add: enc_attrs_def)

lemma enc_raw_parts:
  assumes "16 + length payload < 2 ^ 32"
  shows "unat (LE32 (enc_raw meta typ payload @ rest)) = 16 + length payload"
    "drop (align4 (16 + length payload)) (enc_raw meta typ payload @ rest) = rest"
    "length (enc_raw meta typ payload) = align4 (16 + length payload)"
    "LE16 (drop 4 (take (16 + length payload) (enc_raw meta typ payload @ rest))) = typ"
    "drop 16 (take (16 + length payload) (enc_raw meta typ payload @ rest)) = payload"
proof -
  let ?h = "marshalNlHdr \<lparr>nh_Len = of_nat (nlmsgHdrSize + length payload), nh_Type = typ, nh_Flags = nm_flags meta, nh_Seq = nm_seq meta, nh_Pid = nm_pid meta\<rparr>"
  have "unat (of_nat (16 + length payload) :: u32) = 16 + length payload" using assms by (intro unat_len) simp
  then show "unat (LE32 (enc_raw meta typ payload @ rest)) = 16 + length payload"
    by (simp add: enc_raw_def pad4_def marshalNlHdr_def nlmsgHdrSize_def del: of_nat_add)
  show len: "length (enc_raw meta typ payload) = align4 (16 + length payload)" by (simp add: enc_raw_def length_pad4)
  then show "drop (align4 (16 + length payload)) (enc_raw meta typ payload @ rest) = rest" by simp
  have t: "take (16 + length payload) (enc_raw meta typ payload @ rest) = ?h @ payload"
    by (simp add: enc_raw_def pad4_def)
  show "LE16 (drop 4 (take (16 + length payload) (enc_raw meta typ payload @ rest))) = typ" unfolding t by (simp add: marshalNlHdr_def)
  show "drop 16 (take (16 + length payload) (enc_raw meta typ payload @ rest)) = payload" unfolding t by simp
qed

lemma parseRouteIdentity_enc:
  assumes "attrs_ok as" "length hdr = 16" "LE16 (drop 4 hdr) = RTM_NEWROUTE"
  shows "parseRouteIdentity (hdr @ marshalRtMsg rt @ enc_attrs as) dst prefix = Inr (route_match rt as dst prefix)"
proof -
  have t: "LE16 (drop 4 (hdr @ marshalRtMsg rt @ enc_attrs as)) = RTM_NEWROUTE"
  proof -
    obtain a b rest where "drop 4 hdr = a # b # rest"
      using assms(2) by (cases "drop 4 hdr"; cases "tl (drop 4 hdr)") (auto dest!: arg_cong [where f = length])
    then show ?thesis using assms by (simp add: LE16_def)
  qed
  have d: "drop 28 (hdr @ marshalRtMsg rt @ enc_attrs as) = enc_attrs as" using assms(2) by simp
  have r: "drop 16 (hdr @ marshalRtMsg rt @ enc_attrs as) = marshalRtMsg rt @ enc_attrs as" using assms(2) by simp
  have n: "(marshalRtMsg rt @ enc_attrs as) ! Suc 0 = rm_Dst_len rt" "(marshalRtMsg rt @ enc_attrs as) ! 0 = rm_Family rt"
    by (simp_all add: marshalRtMsg_def)
  obtain gw ifx actual where ra: "read_attrs (length dst) as = (gw, ifx, actual)" by (metis prod.exhaust)
  have "route_attrs_loop (enc_attrs as) ([], 0, replicate (length dst) 0) = Some (gw, ifx, actual)"
    using route_attrs_loop_enc [OF assms(1)] ra by (simp add: read_attrs_def)
  then show ?thesis
    using t assms(2) unfolding parseRouteIdentity_def Let_def nlmsgHdrSize_def
    by (auto simp: d r n ra route_match_def netlink_numbers simp del: drop_append nth_append split: if_splits)
qed

lemma find_continue:
  assumes "16 + length payload < 2 ^ 32" "typ \<noteq> NLMSG_DONE" "typ \<noteq> NLMSG_ERROR"
    and "typ = RTM_NEWROUTE \<Longrightarrow> 12 \<le> length payload \<Longrightarrow> payload ! 4 = RT_TABLE_MAIN \<Longrightarrow>
      parseRouteIdentity (take (16 + length payload) (enc_raw meta typ payload @ rest)) dst prefix = Inr None"
  shows "findRouteIdentity (enc_raw meta typ payload @ rest) dst prefix = findRouteIdentity rest dst prefix"
proof -
  have pieces: "unat (LE32 (enc_raw meta typ payload @ rest)) = 16 + length payload"
    "drop (align4 (16 + length payload)) (enc_raw meta typ payload @ rest) = rest"
    "length (enc_raw meta typ payload) = align4 (16 + length payload)"
    "LE16 (drop 4 (take (16 + length payload) (enc_raw meta typ payload @ rest))) = typ"
    "drop 16 (take (16 + length payload) (enc_raw meta typ payload @ rest)) = payload"
    by (rule enc_raw_parts [OF assms(1)])+
  have l: "length (enc_raw meta typ payload @ rest) = align4 (16 + length payload) + length rest" using pieces(3) by simp
  have a: "16 + length payload \<le> align4 (16 + length payload)" by (simp add: align4_add)
  let ?msg = "take (16 + length payload) (enc_raw meta typ payload @ rest)"
  have lm: "length ?msg = 16 + length payload" using l a by simp
  have nth: "?msg ! 20 = payload ! 4" if "12 \<le> length payload"
    using pieces(5) nth_drop [of 16 ?msg 4] lm that by simp
  show ?thesis
    using l a pieces(1,2,4) assms(2-4) lm nth
    by (subst findRouteIdentity.simps) (auto simp: Let_def nlmsgHdrSize_def simp del: drop_append take_append length_append)
qed

lemma take_enc_raw:
  "16 + length payload < 2 ^ 32 \<Longrightarrow> \<exists>hdr. length hdr = 16 \<and> LE16 (drop 4 hdr) = typ \<and> take (16 + length payload) (enc_raw meta typ payload @ rest) = hdr @ payload"
  by (intro exI [of _ "marshalNlHdr \<lparr>nh_Len = of_nat (nlmsgHdrSize + length payload), nh_Type = typ, nh_Flags = nm_flags meta, nh_Seq = nm_seq meta, nh_Pid = nm_pid meta\<rparr>"])
    (simp add: enc_raw_def pad4_def marshalNlHdr_def)

lemma marshal_table: "(marshalRtMsg rt @ xs) ! 4 = rm_Table rt"
  by (simp add: marshalRtMsg_def)

lemma find_hit:
  assumes "16 \<le> length buf" "unat (LE32 buf) = n" "28 \<le> n" "n \<le> length buf" "LE16 (drop 4 (take n buf)) = RTM_NEWROUTE"
    and "take n buf ! 20 = RT_TABLE_MAIN" "parseRouteIdentity (take n buf) dst prefix = Inr (Some i)"
  shows "findRouteIdentity buf dst prefix = Inr (Some i, False)"
proof -
  have "RTM_NEWROUTE \<noteq> NLMSG_DONE" "RTM_NEWROUTE \<noteq> NLMSG_ERROR" by (simp_all add: netlink_numbers)
  then show ?thesis using assms by (subst findRouteIdentity.simps) (simp add: Let_def nlmsgHdrSize_def del: drop_take)
qed

lemma find_route:
  assumes "kmsg_ok (KRoute rt as)"
  shows "findRouteIdentity (enc_kmsg meta (KRoute rt as) @ rest) dst prefix =
    (if rm_Table rt = RT_TABLE_MAIN \<and> route_match rt as dst prefix \<noteq> None then Inr (route_match rt as dst prefix, False)
     else findRouteIdentity rest dst prefix)"
proof -
  let ?p = "marshalRtMsg rt @ enc_attrs as"
  have ok: "attrs_ok as" "16 + length ?p < 2 ^ 32" using assms by (simp_all add: kmsg_ok_def)
  have e: "enc_kmsg meta (KRoute rt as) = enc_raw meta RTM_NEWROUTE ?p" by (simp add: enc_kmsg_def)
  obtain hdr where h: "length hdr = 16" "LE16 (drop 4 hdr) = RTM_NEWROUTE" "take (16 + length ?p) (enc_raw meta RTM_NEWROUTE ?p @ rest) = hdr @ ?p"
    using take_enc_raw [OF ok(2)] by blast
  have parse: "parseRouteIdentity (take (16 + length ?p) (enc_raw meta RTM_NEWROUTE ?p @ rest)) dst prefix = Inr (route_match rt as dst prefix)"
    unfolding h(3) by (rule parseRouteIdentity_enc [OF ok(1) h(1,2)])
  show ?thesis
  proof (cases "rm_Table rt = RT_TABLE_MAIN \<and> route_match rt as dst prefix \<noteq> None")
    case False
    have "findRouteIdentity (enc_raw meta RTM_NEWROUTE ?p @ rest) dst prefix = findRouteIdentity rest dst prefix"
    proof (rule find_continue [OF ok(2)])
      assume "?p ! 4 = RT_TABLE_MAIN"
      then show "parseRouteIdentity (take (16 + length ?p) (enc_raw meta RTM_NEWROUTE ?p @ rest)) dst prefix = Inr None"
        using parse False by (simp add: marshal_table)
    qed (simp_all add: netlink_numbers)
    then show ?thesis using False unfolding e by auto
  next
    case True
    have l: "length (enc_raw meta RTM_NEWROUTE ?p) = align4 (16 + length ?p)" "unat (LE32 (enc_raw meta RTM_NEWROUTE ?p @ rest)) = 16 + length ?p"
      "LE16 (drop 4 (take (16 + length ?p) (enc_raw meta RTM_NEWROUTE ?p @ rest))) = RTM_NEWROUTE"
      by (rule enc_raw_parts [OF ok(2)])+
    have a: "16 + length ?p \<le> align4 (16 + length ?p)" by (simp add: align4_add)
    have n: "(hdr @ ?p) ! 20 = rm_Table rt" using h(1) marshal_table [of rt "enc_attrs as"] nth_append [of hdr ?p 20] by simp
    have lm: "length (hdr @ ?p) = 28 + length (enc_attrs as)" using h(1) by simp
    have t: "LE16 (drop 4 (hdr @ ?p)) = RTM_NEWROUTE" using l(3) unfolding h(3) .
    obtain i where i: "route_match rt as dst prefix = Some i" using True by blast
    have "findRouteIdentity (enc_raw meta RTM_NEWROUTE ?p @ rest) dst prefix = Inr (Some i, False)"
    proof (rule find_hit [OF _ l(2)])
      show "16 \<le> length (enc_raw meta RTM_NEWROUTE ?p @ rest)" "16 + length ?p \<le> length (enc_raw meta RTM_NEWROUTE ?p @ rest)"
        using l(1) a by simp_all
      show "28 \<le> 16 + length ?p" by simp
      show "take (16 + length ?p) (enc_raw meta RTM_NEWROUTE ?p @ rest) ! 20 = RT_TABLE_MAIN" unfolding h(3) using n True by simp
      show "parseRouteIdentity (take (16 + length ?p) (enc_raw meta RTM_NEWROUTE ?p @ rest)) dst prefix = Inr (Some i)" using parse i by simp
    qed (rule l(3))
    then show ?thesis using True i unfolding e by simp
  qed
qed

lemma find_dump:
  "list_all kmsg_ok ms \<Longrightarrow> findRouteIdentity (concat (map (enc_kmsg meta) ms)) dst prefix = Inr (find_spec ms dst prefix)"
proof (induction ms)
  case Nil
  then show ?case by (simp add: findRouteIdentity.simps nlmsgHdrSize_def)
next
  case (Cons m ms)
  show ?case
  proof (cases m)
    case (KRoute rt as)
    then show ?thesis using find_route [of rt as "meta" "concat (map (enc_kmsg meta) ms)" dst prefix] Cons
      by (auto split: option.splits)
  next
    case KDone
    let ?rest = "concat (map (enc_kmsg meta) ms)"
    have s: "16 + length (le32 0) < 2 ^ 32" by simp
    have l: "length (enc_raw meta NLMSG_DONE (le32 0)) = align4 (16 + length (le32 0))" "unat (LE32 (enc_raw meta NLMSG_DONE (le32 0) @ ?rest)) = 16 + length (le32 0)"
      "LE16 (drop 4 (take (16 + length (le32 0)) (enc_raw meta NLMSG_DONE (le32 0) @ ?rest))) = NLMSG_DONE"
      by (rule enc_raw_parts [OF s])+
    have "align4 20 = 20" by (simp add: align4_def)
    then show ?thesis using l KDone
      by (subst findRouteIdentity.simps) (simp add: enc_kmsg_def Let_def nlmsgHdrSize_def del: drop_append take_append)
  next
    case (KOther t payload)
    then have "findRouteIdentity (enc_raw meta t payload @ concat (map (enc_kmsg meta) ms)) dst prefix = findRouteIdentity (concat (map (enc_kmsg meta) ms)) dst prefix"
      using Cons.prems by (intro find_continue) (auto simp: kmsg_ok_def)
    moreover have "enc_kmsg meta m = enc_raw meta t payload" by (simp add: KOther enc_kmsg_def)
    ultimately show ?thesis using Cons KOther by simp
  qed
qed

text \<open>The datagrams of a dump: the first match over all of them.\<close>

lemma find_spec_append:
  "find_spec (xs @ ys) dst prefix = (case find_spec xs dst prefix of (None, False) \<Rightarrow> find_spec ys dst prefix | r \<Rightarrow> r)"
  by (induction xs dst prefix rule: find_spec.induct) (auto split: option.splits)

lemma query_loop_dump:
  assumes "\<forall>ms\<in>set dgs. list_all kmsg_ok ms \<and> length (concat (map (enc_kmsg meta) ms)) \<le> 65536"
    and "snd (find_spec (concat dgs) dst prefix) \<or> fst (find_spec (concat dgs) dst prefix) \<noteq> None"
  shows "query_loop (map (\<lambda>ms. Inr (concat (map (enc_kmsg meta) ms))) dgs) dst prefix = Inr (fst (find_spec (concat dgs) dst prefix))"
  using assms
proof (induction dgs)
  case (Cons ms dgs)
  have f: "findRouteIdentity (take 65536 (concat (map (enc_kmsg meta) ms))) dst prefix = Inr (find_spec ms dst prefix)"
    using find_dump [of ms "meta" dst prefix] Cons.prems(1) by simp
  obtain i b where fs: "find_spec ms dst prefix = (i, b)" by fastforce
  show ?case
  proof (cases "i = None \<and> \<not> b")
    case True
    then have "find_spec (concat (ms # dgs)) dst prefix = find_spec (concat dgs) dst prefix" using fs by (simp add: find_spec_append)
    then show ?thesis using Cons f fs True by (simp del: take_all_iff)
  next
    case False
    then have "find_spec (concat (ms # dgs)) dst prefix = (i, b)" using fs by (auto simp: find_spec_append split: option.splits bool.splits)
    then show ?thesis using f fs False by (cases i; cases b) auto
  qed
qed simp

end
