(* ===== verification/Routes.thy ===== *)
theory Routes
  imports Netlink
begin

section \<open>Applying and removing pushed routes\<close>

text \<open>
  Models \<open>ApplyRoutesOwned\<close>, \<open>ApplyRoutes\<close> and \<open>DeleteRoutes\<close> of \<^verbatim>\<open>routing/netlink.go\<close>.  The closures of a \<open>routeOp\<close> are given by its
  data, the map from destinations to operations is a map.  The sequence of routes that both functions walk through is \<open>route_ops\<close>.
\<close>

datatype route_op = V4 ip ipmask ip | V6 ip nat ip

definition op_identity :: "int \<Rightarrow> route_op \<Rightarrow> RouteIdentity" where
  "op_identity ifIndex op = (case op of V4 dst msk gw \<Rightarrow> routeIdentity dst msk gw ifIndex | V6 dst prefix gw \<Rightarrow> routeIdentity6 dst prefix gw ifIndex)"

definition op_add :: "'k sys \<Rightarrow> int \<Rightarrow> route_op \<Rightarrow> 'k \<Rightarrow> nl_error option \<times> 'k" where
  "op_add sys ifIndex op = (case op of V4 dst msk gw \<Rightarrow> addRoute sys ifIndex dst msk gw | V6 dst prefix gw \<Rightarrow> addRoute6 sys ifIndex dst prefix gw)"

definition op_remove :: "'k sys \<Rightarrow> int \<Rightarrow> route_op \<Rightarrow> 'k \<Rightarrow> nl_error option \<times> 'k" where
  "op_remove sys ifIndex op = (case op of V4 dst msk gw \<Rightarrow> delRoute sys ifIndex dst msk gw | V6 dst prefix gw \<Rightarrow> delRoute6 sys ifIndex dst prefix gw)"

definition op_lookup :: "'k sys \<Rightarrow> route_op \<Rightarrow> 'k \<Rightarrow> (nl_error, RouteIdentity option) result" where
  "op_lookup sys op = (case op of V4 dst msk gw \<Rightarrow> lookupRouteIdentity sys dst msk | V6 dst prefix gw \<Rightarrow> lookupRouteIdentity6 sys dst prefix)"

definition or_default :: "ip \<Rightarrow> ip \<Rightarrow> ip" where "or_default gw d = (if gw = [] then d else gw)"

definition route_ops :: "PushOptions \<Rightarrow> route_op list" where
  "route_ops opts =
     (let defaultGW = (case po_Ifconfig opts of None \<Rightarrow> [] | Some i \<Rightarrow> ifc_Gateway i);
          defaultGW6 = (case po_Ifconfig6 opts of None \<Rightarrow> [] | Some i \<Rightarrow> ifc6_Gateway i)
      in (case po_Ifconfig opts of Some i \<Rightarrow> (if po_Topology opts = TopologyNet30 then [V4 (ifc_Gateway i) (CIDRMask 32 32) []] else []) | None \<Rightarrow> []) @
         map (\<lambda>r. V4 (rt_Network r) (rt_Mask r) (or_default (rt_Gateway r) defaultGW)) (po_Routes opts) @
         (if po_RedirectGateway opts then [V4 (v4InV6Prefix @ replicate 4 0) (CIDRMask 0 32) defaultGW] else []) @
         map (\<lambda>r. V6 (rt6_Network r) (rt6_Prefix r) (or_default (rt6_Gateway r) defaultGW6)) (po_Routes6 opts) @
         (if po_RedirectGateway6 opts then [V6 (replicate 16 0) 0 defaultGW6] else []))"

text \<open>The routes created so far and the operations by destination.\<close>

record applied =
  ap_owned :: "RouteIdentity list"
  ap_ops :: "string \<Rightarrow> route_op option"

fun apply_ops :: "'k sys \<Rightarrow> int \<Rightarrow> route_op list \<Rightarrow> applied \<Rightarrow> 'k \<Rightarrow> nl_error option \<times> applied \<times> 'k" where
  "apply_ops sys ifIndex [] ap k = (None, ap, k)"
| "apply_ops sys ifIndex (op # ops) ap k =
     (case op_add sys ifIndex op k of
        (None, k1) \<Rightarrow>
          (let i = op_identity ifIndex op
           in apply_ops sys ifIndex ops (ap\<lparr>ap_owned := ap_owned ap @ [i], ap_ops := (ap_ops ap)(ri_Destination i \<mapsto> op)\<rparr>) k1)
      | (Some e, k1) \<Rightarrow> (if Is_errno e EEXIST then apply_ops sys ifIndex ops ap k1 else (Some e, ap, k1)))"

definition makeOwner :: "'k sys \<Rightarrow> int \<Rightarrow> applied \<Rightarrow> ('k, nl_error) Ownership" where
  "makeOwner sys ifIndex ap =
     NewOwnership (ap_owned ap)
       (Some (\<lambda>d k. case ap_ops ap d of None \<Rightarrow> Inl NlPanic | Some op \<Rightarrow> op_lookup sys op k))
       (Some (\<lambda>i k. case ap_ops ap (ri_Destination i) of None \<Rightarrow> (Some NlPanic, k) | Some op \<Rightarrow> op_add sys ifIndex op k))
       (Some (\<lambda>i k. case ap_ops ap (ri_Destination i) of None \<Rightarrow> (Some NlPanic, k) | Some op \<Rightarrow> op_remove sys ifIndex op k))"

definition ApplyRoutesOwned :: "'k sys \<Rightarrow> PushOptions option \<Rightarrow> int \<Rightarrow> 'k \<Rightarrow> nl_error option \<times> ('k, nl_error) Ownership \<times> 'k" where
  "ApplyRoutesOwned sys opts ifIndex k =
     (case opts of
        None \<Rightarrow> (None, NewOwnership [] None None None, k)
      | Some po \<Rightarrow>
          (case apply_ops sys ifIndex (route_ops po) \<lparr>ap_owned = [], ap_ops = Map.empty\<rparr> k of
             (e, ap, k1) \<Rightarrow> (e, makeOwner sys ifIndex ap, k1)))"

definition ApplyRoutes :: "'k sys \<Rightarrow> PushOptions option \<Rightarrow> int \<Rightarrow> 'k \<Rightarrow> nl_error option \<times> 'k" where
  "ApplyRoutes sys opts ifIndex k = (case ApplyRoutesOwned sys opts ifIndex k of (e, _, k1) \<Rightarrow> (e, k1))"

text \<open>Every route is tried; the first error is kept.\<close>

fun delete_ops :: "'k sys \<Rightarrow> int \<Rightarrow> route_op list \<Rightarrow> nl_error option \<Rightarrow> 'k \<Rightarrow> nl_error option \<times> 'k" where
  "delete_ops sys ifIndex [] firstErr k = (firstErr, k)"
| "delete_ops sys ifIndex (op # ops) firstErr k =
     (case op_remove sys ifIndex op k of
        (e, k1) \<Rightarrow> delete_ops sys ifIndex ops (if firstErr = None then e else firstErr) k1)"

definition DeleteRoutes :: "'k sys \<Rightarrow> PushOptions option \<Rightarrow> int \<Rightarrow> 'k \<Rightarrow> nl_error option \<times> 'k" where
  "DeleteRoutes sys opts ifIndex k = (case opts of None \<Rightarrow> (None, k) | Some po \<Rightarrow> delete_ops sys ifIndex (route_ops po) None k)"

subsection \<open>The routing table\<close>

text \<open>What the code relies on of the kernel.  \<open>dump k f\<close> lists the routes of address family \<open>f\<close>, in all tables; a dump request is answered
  with datagrams that together contain them and end with a done message.  A request to add a route is answered with an error
  number: zero, and the route with the requested destination, gateway and interface is now listed somewhere, where there was no
  route to that destination in the main table; or another number, \<open>EEXIST\<close> exactly if there was one, and nothing has changed.  A request to
  delete a route that is listed as requested removes it.  The host has at most one route to a destination in the main table.\<close>

type_synonym rkey = "byte \<times> bytes \<times> nat"

definition op_key :: "route_op \<Rightarrow> rkey" where
  "op_key op = (case op of V4 dst msk gw \<Rightarrow> (AF_INET, To4 dst, fst (mask_Size msk)) | V6 dst prefix gw \<Rightarrow> (AF_INET6, To16 dst, prefix))"

definition op_gateway :: "route_op \<Rightarrow> ip" where
  "op_gateway op = (case op of V4 dst msk gw \<Rightarrow> (if gw = [] then [] else To4 gw) | V6 dst prefix gw \<Rightarrow> (if gw = [] then [] else To16 gw))"

definition op_payload :: "int \<Rightarrow> route_op \<Rightarrow> bytes" where
  "op_payload ifIndex op = (case op of V4 dst msk gw \<Rightarrow> route_payload4 ifIndex dst (fst (mask_Size msk)) gw | V6 dst prefix gw \<Rightarrow> route_payload6 ifIndex dst prefix gw)"

definition op_ok :: "route_op \<Rightarrow> bool" where
  "op_ok op \<longleftrightarrow>
     (case op of
        V4 dst msk gw \<Rightarrow> length (To4 dst) = 4 \<and> snd (mask_Size msk) = 32 \<and> (gw = [] \<or> To4 gw \<noteq> []) \<and>
          (fst (mask_Size msk) = 0 \<longrightarrow> To4 dst = replicate 4 0)
      | V6 dst prefix gw \<Rightarrow> length (To16 dst) = 16 \<and> prefix \<le> 128 \<and> (gw = [] \<or> To16 gw \<noteq> []) \<and> (prefix = 0 \<longrightarrow> To16 dst = replicate 16 0))"

definition key_ok :: "rkey \<Rightarrow> bool" where
  "key_ok key \<longleftrightarrow> (case key of (f, d, p) \<Rightarrow> (f = AF_INET \<and> length d = 4 \<or> f = AF_INET6 \<and> length d = 16) \<and> (p = 0 \<longrightarrow> d = replicate (length d) 0))"

text \<open>The route of the main table to a destination.\<close>

definition hit :: "bytes \<times> nat \<Rightarrow> RtMsg \<times> attrs \<Rightarrow> RouteIdentity option" where
  "hit dp r = (if rm_Table (fst r) = RT_TABLE_MAIN then route_match (fst r) (snd r) (fst dp) (snd dp) else None)"

fun first_hit :: "bytes \<times> nat \<Rightarrow> (RtMsg \<times> attrs) list \<Rightarrow> RouteIdentity option" where
  "first_hit dp [] = None"
| "first_hit dp (r # rs) = (case hit dp r of Some i \<Rightarrow> Some i | None \<Rightarrow> first_hit dp rs)"

definition found :: "('k \<Rightarrow> byte \<Rightarrow> (RtMsg \<times> attrs) list) \<Rightarrow> 'k \<Rightarrow> rkey \<Rightarrow> RouteIdentity option" where
  "found dump k key = (case key of (f, dp) \<Rightarrow> first_hit dp (dump k f))"

definition describes :: "int \<Rightarrow> route_op \<Rightarrow> RtMsg \<times> attrs \<Rightarrow> bool" where
  "describes ifIndex op r \<longleftrightarrow>
     (case op_key op of (f, d, p) \<Rightarrow>
        rm_Table (fst r) = RT_TABLE_MAIN \<and> rm_Family (fst r) = f \<and> unat (rm_Dst_len (fst r)) = p \<and>
        (\<exists>actual. read_attrs (length d) (snd r) = (op_gateway op, ifIndex, actual) \<and> (p = 0 \<or> actual = d)))"

definition add_request :: "'k sys \<Rightarrow> int \<Rightarrow> route_op \<Rightarrow> bytes" where
  "add_request sys ifIndex op = pad4 (nl_request sys RTM_NEWROUTE (1 OR 4 OR create_excl) 1 (op_payload ifIndex op))"

definition del_request :: "'k sys \<Rightarrow> int \<Rightarrow> route_op \<Rightarrow> bytes" where
  "del_request sys ifIndex op = pad4 (nl_request sys RTM_DELROUTE (1 OR 4 OR 0) 1 (op_payload ifIndex op))"

definition answers_dump :: "'k sys \<Rightarrow> ('k \<Rightarrow> byte \<Rightarrow> (RtMsg \<times> attrs) list) \<Rightarrow> bool" where
  "answers_dump sys dump \<longleftrightarrow>
     (\<forall>k f. \<exists>meta dgs. sy_exchange sys (dump_request sys f) k = (None, map (\<lambda>ms. Inr (concat (map (enc_kmsg meta) ms))) dgs, k) \<and>
        concat dgs = map (\<lambda>(rt, as). KRoute rt as) (dump k f) @ [KDone] \<and>
        (\<forall>ms\<in>set dgs. list_all kmsg_ok ms \<and> length (concat (map (enc_kmsg meta) ms)) \<le> 65536))"

definition answers_add :: "'k sys \<Rightarrow> int \<Rightarrow> route_op list \<Rightarrow> ('k \<Rightarrow> byte \<Rightarrow> (RtMsg \<times> attrs) list) \<Rightarrow> bool" where
  "answers_add sys ifIndex ops dump \<longleftrightarrow>
     (\<forall>k. \<forall>op\<in>set ops. (\<exists>meta errno extra k'.
        sy_exchange sys (add_request sys ifIndex op) k = (None, Inr (enc_raw meta NLMSG_ERROR (le32 errno @ extra)) # [], k') \<and> length extra < 4000 \<and>
        (if errno = 0 then found dump k (op_key op) = None \<and>
           (\<exists>pre r post. dump k (fst (op_key op)) = pre @ post \<and> describes ifIndex op r \<and>
              dump k' = (dump k)(fst (op_key op) := pre @ r # post))
         else dump k' = dump k \<and> (found dump k (op_key op) \<noteq> None \<longleftrightarrow> sint (- errno) = EEXIST))))"

definition answers_del :: "'k sys \<Rightarrow> int \<Rightarrow> route_op list \<Rightarrow> ('k \<Rightarrow> byte \<Rightarrow> (RtMsg \<times> attrs) list) \<Rightarrow> bool" where
  "answers_del sys ifIndex ops dump \<longleftrightarrow>
     (\<forall>k. \<forall>op\<in>set ops. (\<exists>meta errno extra k'.
        sy_exchange sys (del_request sys ifIndex op) k = (None, Inr (enc_raw meta NLMSG_ERROR (le32 errno @ extra)) # [], k') \<and> length extra < 4000 \<and>
        (if errno = 0 then (\<exists>pre r post. dump k (fst (op_key op)) = pre @ r # post \<and> describes ifIndex op r \<and> dump k' = (dump k)(fst (op_key op) := pre @ post))
         else dump k' = dump k \<and> (\<forall>r\<in>set (dump k (fst (op_key op))). \<not> describes ifIndex op r))))"

definition single_routes :: "('k \<Rightarrow> byte \<Rightarrow> (RtMsg \<times> attrs) list) \<Rightarrow> bool" where
  "single_routes dump \<longleftrightarrow> (\<forall>k f dp. length (filter (\<lambda>r. hit dp r \<noteq> None) (dump k f)) \<le> 1)"

definition kernel_routes :: "'k sys \<Rightarrow> int \<Rightarrow> route_op list \<Rightarrow> ('k \<Rightarrow> byte \<Rightarrow> (RtMsg \<times> attrs) list) \<Rightarrow> bool" where
  "kernel_routes sys ifIndex ops dump \<longleftrightarrow>
     sy_socket sys = None \<and> sy_bind sys = None \<and> 0 < ifIndex \<and> ifIndex < 2 ^ 31 \<and> list_all op_ok ops \<and> answers_dump sys dump \<and> answers_add sys ifIndex ops dump \<and>
     answers_del sys ifIndex ops dump \<and> single_routes dump"

subsection \<open>What the operations do to the table\<close>

lemma find_spec_routes:
  "find_spec (map (\<lambda>(rt, as). KRoute rt as) rs @ [KDone]) d p = (first_hit (d, p) rs, first_hit (d, p) rs = None)"
  by (induction rs) (auto simp: hit_def split: option.splits)

lemma queryRouteIdentity_found:
  assumes "sy_socket sys = None" "sy_bind sys = None" "answers_dump sys dump"
  shows "queryRouteIdentity sys d p f k = Inr (found dump k (f, d, p))"
proof -
  obtain meta dgs where e: "sy_exchange sys (dump_request sys f) k = (None, map (\<lambda>ms. Inr (concat (map (enc_kmsg meta) ms))) dgs, k)"
    "concat dgs = map (\<lambda>(rt, as). KRoute rt as) (dump k f) @ [KDone]"
    "\<forall>ms\<in>set dgs. list_all kmsg_ok ms \<and> length (concat (map (enc_kmsg meta) ms)) \<le> 65536"
    using assms(3) unfolding answers_dump_def by blast
  have "query_loop (map (\<lambda>ms. Inr (concat (map (enc_kmsg meta) ms))) dgs) d p = Inr (fst (find_spec (concat dgs) d p))"
    using e(3) by (intro query_loop_dump) (auto simp: e(2) find_spec_routes)
  then show ?thesis using assms(1,2) e(1,2) by (simp add: queryRouteIdentity_def find_spec_routes found_def)
qed

lemma op_lookup_found:
  assumes "kernel_routes sys ifIndex ops dump" "op \<in> set ops"
  shows "op_lookup sys op k = Inr (found dump k (op_key op))"
proof -
  have "op_ok op" "sy_socket sys = None" "sy_bind sys = None" "answers_dump sys dump"
    using assms by (auto simp: kernel_routes_def list_all_iff)
  then show ?thesis using queryRouteIdentity_found
    by (cases op) (auto simp: op_lookup_def op_key_def op_ok_def lookupRouteIdentity_def lookupRouteIdentity6_def split: prod.splits)
qed

lemma ack_errno:
  assumes "length extra < 4000"
  shows "parseNlError (take 4096 (enc_raw meta NLMSG_ERROR (le32 errno @ extra))) = (if errno = 0 then None else Some (Kernel (sint (- errno))))"
proof -
  let ?p = "le32 errno @ extra"
  have s: "16 + length ?p < 2 ^ 32" using assms by simp
  have l: "length (enc_raw meta NLMSG_ERROR ?p) = align4 (16 + length ?p)" by (rule enc_raw_parts [OF s])
  moreover have "align4 (16 + length ?p) \<le> 4096" using assms by (simp add: align4_def)
  ultimately have t: "take 4096 (enc_raw meta NLMSG_ERROR ?p) = enc_raw meta NLMSG_ERROR ?p" by simp
  have "LE16 (drop 4 (enc_raw meta NLMSG_ERROR ?p)) = NLMSG_ERROR" "LE32 (drop 16 (enc_raw meta NLMSG_ERROR ?p)) = errno"
    by (simp_all add: enc_raw_def pad4_def marshalNlHdr_def)
  moreover have "20 \<le> length (enc_raw meta NLMSG_ERROR ?p)" using l by (simp add: align4_add)
  ultimately show ?thesis unfolding t by (simp add: parseNlError_def nlmsgHdrSize_def)
qed

lemma op_add_send:
  assumes "kernel_routes sys ifIndex ops dump" "op \<in> set ops"
  shows "op_add sys ifIndex op k = sendNetlinkMsg sys RTM_NEWROUTE create_excl (op_payload ifIndex op) k"
    "op_remove sys ifIndex op k = sendNetlinkMsg sys RTM_DELROUTE 0 (op_payload ifIndex op) k"
proof -
  have "op_ok op" "sy_socket sys = None" "sy_bind sys = None" using assms by (auto simp: kernel_routes_def list_all_iff)
  then show "op_add sys ifIndex op k = sendNetlinkMsg sys RTM_NEWROUTE create_excl (op_payload ifIndex op) k"
    "op_remove sys ifIndex op k = sendNetlinkMsg sys RTM_DELROUTE 0 (op_payload ifIndex op) k"
    by (cases op; auto simp: op_add_def op_remove_def op_payload_def op_ok_def addRoute_def addRoute6_def delRoute_def delRoute6_def
        netlinkRouteMsg_def netlinkRouteMsg6_def with_socket_def split: prod.splits)+
qed

text \<open>The identity under which an operation is recorded is the one a lookup finds for the route it creates.\<close>

lemma IP_String_To4: "length (To4 i) = 4 \<Longrightarrow> IP_String (To4 i) = IP_String i"
  by (auto simp: IP_String_def To4_def split: if_splits)

lemma IP_String_To16: "To16 i \<noteq> [] \<Longrightarrow> IP_String (To16 i) = IP_String i"
  by (auto simp: IP_String_def To16_def To4_def v4InV6Prefix_def split: if_splits)

lemma describes_hit:
  assumes "describes ifIndex op r" "op_ok op" "key_ok (f, d, p)" "f = fst (op_key op)"
  shows "hit (d, p) r = (if (f, d, p) = op_key op then Some (op_identity ifIndex op) else None)"
proof -
  obtain rt as where r: "r = (rt, as)" by fastforce
  obtain d0 p0 where k: "op_key op = (f, d0, p0)" using assms(4) by (metis prod.collapse)
  have ok0: "key_ok (f, d0, p0)" using assms(2) k by (cases op) (auto simp: op_ok_def key_ok_def op_key_def)
  obtain actual where m: "rm_Table rt = RT_TABLE_MAIN" "rm_Family rt = f" "unat (rm_Dst_len rt) = p0"
    "read_attrs (length d0) as = (op_gateway op, ifIndex, actual)" "p0 = 0 \<or> actual = d0"
    using assms(1) by (auto simp: describes_def k r)
  have len: "length d = length d0" using ok0 assms(3) by (auto simp: key_ok_def netlink_numbers)
  have zero: "p = 0 \<Longrightarrow> p0 = 0 \<Longrightarrow> d = d0" using ok0 assms(3) len by (auto simp: key_ok_def)
  have h: "hit (d, p) r = (if p0 = p \<and> (p = 0 \<or> IP_Equal actual d)
      then Some \<lparr>ri_Destination = IP_String (if f = AF_INET then To4 d else d) @ ''/'' @ nat_digits p, ri_Gateway = ipString (op_gateway op), ri_Interface = ifIndex\<rparr> else None)"
    using m len by (simp add: hit_def r route_match_def)
  have id: "\<lparr>ri_Destination = IP_String (if f = AF_INET then To4 d0 else d0) @ ''/'' @ nat_digits p0, ri_Gateway = ipString (op_gateway op), ri_Interface = ifIndex\<rparr> = op_identity ifIndex op"
  proof (cases op)
    case (V4 dst msk gw)
    have t: "To4 (To4 dst) = To4 dst" using assms(2) by (simp add: op_ok_def V4 To4_def)
    have "gw \<noteq> [] \<Longrightarrow> To4 gw \<noteq> [] \<and> IP_String (To4 gw) = IP_String gw"
      using assms(2) IP_String_To4 [of gw] To4_length [of gw] by (auto simp: op_ok_def V4)
    then show ?thesis using k t by (auto simp: V4 op_key_def op_identity_def routeIdentity_def op_gateway_def ipString_def)
  next
    case (V6 dst prefix gw)
    have "gw \<noteq> [] \<Longrightarrow> To16 gw \<noteq> [] \<and> IP_String (To16 gw) = IP_String gw"
      using assms(2) IP_String_To16 [of gw] by (auto simp: op_ok_def V6)
    then show ?thesis using k by (auto simp: V6 op_key_def op_identity_def routeIdentity6_def op_gateway_def ipString_def netlink_numbers)
  qed
  show ?thesis
  proof (cases "d = d0 \<and> p = p0")
    case True
    then show ?thesis using h id m(5) k by (auto simp: IP_Equal_def)
  next
    case False
    have "\<not> (p0 = p \<and> (p = 0 \<or> IP_Equal actual d))" using False zero m(5) len by (auto simp: IP_Equal_def)
    then show ?thesis using h k False by auto
  qed
qed

lemma first_hit_insert: "hit dp r = None \<Longrightarrow> first_hit dp (pre @ r # post) = first_hit dp (pre @ post)"
  by (induction pre) (auto split: option.splits)

lemma first_hit_new: "first_hit dp (pre @ post) = None \<Longrightarrow> first_hit dp (pre @ r # post) = hit dp r"
  by (induction pre) (auto split: option.splits)

lemma first_hit_none: "first_hit dp rs = None \<longleftrightarrow> (\<forall>r\<in>set rs. hit dp r = None)"
  by (induction rs) (auto split: option.splits)

lemma first_hit_single:
  assumes "length (filter (\<lambda>r. hit dp r \<noteq> None) (pre @ r # post)) \<le> 1" "hit dp r \<noteq> None"
  shows "first_hit dp (pre @ r # post) = hit dp r" "first_hit dp (pre @ post) = None"
proof -
  have "filter (\<lambda>r. hit dp r \<noteq> None) pre = []" "filter (\<lambda>r. hit dp r \<noteq> None) post = []"
    using assms by (auto simp flip: length_0_conv)
  then have "\<forall>r\<in>set (pre @ post). hit dp r = None" by (auto simp: filter_empty_conv)
  then show "first_hit dp (pre @ post) = None" by (simp add: first_hit_none)
  then show "first_hit dp (pre @ r # post) = hit dp r" by (rule first_hit_new)
qed

lemma kernel_op_ok: "kernel_routes sys ifIndex ops dump \<Longrightarrow> op \<in> set ops \<Longrightarrow> op_ok op"
  by (simp add: kernel_routes_def list_all_iff)

lemma op_key_ok: "op_ok op \<Longrightarrow> key_ok (op_key op)"
  by (cases op) (auto simp: op_ok_def key_ok_def op_key_def)

definition listed :: "int \<Rightarrow> ('k \<Rightarrow> byte \<Rightarrow> (RtMsg \<times> attrs) list) \<Rightarrow> 'k \<Rightarrow> route_op \<Rightarrow> bool" where
  "listed ifIndex dump k op \<longleftrightarrow> (\<exists>r\<in>set (dump k (fst (op_key op))). describes ifIndex op r)"

lemma describes_own: "describes ifIndex op r \<Longrightarrow> op_ok op \<Longrightarrow> hit (snd (op_key op)) r = Some (op_identity ifIndex op)"
  using describes_hit [of ifIndex op r "fst (op_key op)" "fst (snd (op_key op))" "snd (snd (op_key op))"] op_key_ok [of op] by simp

lemma listed_found:
  assumes "kernel_routes sys ifIndex ops dump" "op \<in> set ops" "listed ifIndex dump k op"
  shows "found dump k (op_key op) = Some (op_identity ifIndex op)"
proof -
  obtain r pre post where r: "dump k (fst (op_key op)) = pre @ r # post" "describes ifIndex op r"
    using assms(3) unfolding listed_def by (meson split_list)
  have "length (filter (\<lambda>r. hit (snd (op_key op)) r \<noteq> None) (pre @ r # post)) \<le> 1"
    using assms(1) r(1) unfolding kernel_routes_def single_routes_def by metis
  then have "first_hit (snd (op_key op)) (pre @ r # post) = Some (op_identity ifIndex op)"
    using first_hit_single(1) [of "snd (op_key op)" pre r post] describes_own [OF r(2) kernel_op_ok [OF assms(1,2)]] by simp
  then show ?thesis using r(1) by (auto simp: found_def split: prod.splits)
qed

lemma op_add_effect:
  assumes "kernel_routes sys ifIndex ops dump" "op \<in> set ops"
  obtains (added) k' where "op_add sys ifIndex op k = (None, k')" "found dump k (op_key op) = None" "listed ifIndex dump k' op"
      "\<And>key. key_ok key \<Longrightarrow> found dump k' key = (if key = op_key op then Some (op_identity ifIndex op) else found dump k key)"
      "\<And>op'. listed ifIndex dump k op' \<Longrightarrow> listed ifIndex dump k' op'"
  | (refused) e k' where "op_add sys ifIndex op k = (Some e, k')" "dump k' = dump k" "found dump k (op_key op) \<noteq> None \<longleftrightarrow> Is_errno e EEXIST"
proof -
  have ok: "op_ok op" by (rule kernel_op_ok [OF assms])
  from assms obtain meta errno extra k' where
    x: "sy_exchange sys (add_request sys ifIndex op) k = (None, [Inr (enc_raw meta NLMSG_ERROR (le32 errno @ extra))], k')" and ex: "length extra < 4000" and
    c: "if errno = 0 then found dump k (op_key op) = None \<and>
           (\<exists>pre r post. dump k (fst (op_key op)) = pre @ post \<and> describes ifIndex op r \<and> dump k' = (dump k)(fst (op_key op) := pre @ r # post))
         else dump k' = dump k \<and> (found dump k (op_key op) \<noteq> None \<longleftrightarrow> sint (- errno) = EEXIST)"
    unfolding kernel_routes_def answers_add_def by blast
  have add: "op_add sys ifIndex op k = ((if errno = 0 then None else Some (Kernel (sint (- errno)))), k')"
    using x ack_errno [OF ex, of "meta" errno] unfolding op_add_send(1) [OF assms] add_request_def
    by (simp add: sendNetlinkMsg_def first_answer_def)
  show thesis
  proof (cases "errno = 0")
    case False
    then show thesis using add c by (intro refused [of "Kernel (sint (- errno))" k']) (auto simp: Is_errno_def)
  next
    case True
    then obtain pre r post where d: "dump k (fst (op_key op)) = pre @ post" "describes ifIndex op r" "dump k' = (dump k)(fst (op_key op) := pre @ r # post)"
      and none: "found dump k (op_key op) = None" using c by auto
    have f: "found dump k' key = (if key = op_key op then Some (op_identity ifIndex op) else found dump k key)" if "key_ok key" for key
    proof (cases "fst key = fst (op_key op)")
      case same: True
      obtain dp where key: "key = (fst (op_key op), dp)" using same by (metis prod.collapse)
      have h: "hit dp r = (if key = op_key op then Some (op_identity ifIndex op) else None)"
        using describes_hit [OF d(2) ok, of "fst (op_key op)" "fst dp" "snd dp"] that key by simp
      show ?thesis using h d none key first_hit_insert [of dp r pre post] first_hit_new [of dp pre post r]
        by (auto simp: found_def split: prod.splits)
    next
      case False
      then show ?thesis using d(3) by (auto simp: found_def split: prod.splits)
    qed
    have "listed ifIndex dump k' op" using d by (simp add: listed_def)
    moreover have "listed ifIndex dump k op' \<Longrightarrow> listed ifIndex dump k' op'" for op' using d(1,3) by (auto simp: listed_def)
    ultimately show thesis using add True none f by (intro added [of k']) auto
  qed
qed

lemma op_remove_effect:
  assumes "kernel_routes sys ifIndex ops dump" "op \<in> set ops" "listed ifIndex dump k op"
  obtains k' where "op_remove sys ifIndex op k = (None, k')"
    "\<And>key. key_ok key \<Longrightarrow> found dump k' key = (if key = op_key op then None else found dump k key)"
    "\<And>op'. op_ok op' \<Longrightarrow> op_key op' \<noteq> op_key op \<Longrightarrow> listed ifIndex dump k op' \<Longrightarrow> listed ifIndex dump k' op'"
proof -
  have ok: "op_ok op" by (rule kernel_op_ok [OF assms(1,2)])
  from assms(1,2) obtain meta errno extra k' where
    x: "sy_exchange sys (del_request sys ifIndex op) k = (None, [Inr (enc_raw meta NLMSG_ERROR (le32 errno @ extra))], k')" and ex: "length extra < 4000" and
    c: "if errno = 0 then (\<exists>pre r post. dump k (fst (op_key op)) = pre @ r # post \<and> describes ifIndex op r \<and> dump k' = (dump k)(fst (op_key op) := pre @ post))
         else dump k' = dump k \<and> (\<forall>r\<in>set (dump k (fst (op_key op))). \<not> describes ifIndex op r)"
    unfolding kernel_routes_def answers_del_def by blast
  have z: "errno = 0" using c assms(3) by (auto simp: listed_def split: if_splits)
  then obtain pre r post where d: "dump k (fst (op_key op)) = pre @ r # post" "describes ifIndex op r" "dump k' = (dump k)(fst (op_key op) := pre @ post)"
    using c by auto
  have rm: "op_remove sys ifIndex op k = (None, k')"
    using x ack_errno [OF ex, of "meta" errno] z unfolding op_add_send(2) [OF assms(1,2)] del_request_def
    by (simp add: sendNetlinkMsg_def first_answer_def)
  have f: "found dump k' key = (if key = op_key op then None else found dump k key)" if "key_ok key" for key
  proof (cases "fst key = fst (op_key op)")
    case same: True
    obtain dp where key: "key = (fst (op_key op), dp)" using same by (metis prod.collapse)
    have h: "hit dp r = (if key = op_key op then Some (op_identity ifIndex op) else None)"
      using describes_hit [OF d(2) ok, of "fst (op_key op)" "fst dp" "snd dp"] that key by simp
    have "length (filter (\<lambda>r. hit dp r \<noteq> None) (pre @ r # post)) \<le> 1"
      using assms(1) d(1) unfolding kernel_routes_def single_routes_def by metis
    then show ?thesis using h d key first_hit_insert [of dp r pre post] first_hit_single(2) [of dp pre r post]
      by (auto simp: found_def split: prod.splits)
  next
    case False
    then show ?thesis using d(3) by (auto simp: found_def split: prod.splits)
  qed
  have "listed ifIndex dump k' op'" if o: "op_ok op'" "op_key op' \<noteq> op_key op" "listed ifIndex dump k op'" for op'
  proof -
    obtain r' where r': "r' \<in> set (dump k (fst (op_key op')))" "describes ifIndex op' r'" using o(3) by (auto simp: listed_def)
    show ?thesis
    proof (cases "fst (op_key op') = fst (op_key op)")
      case True
      obtain g d2 p2 where k2: "op_key op' = (g, d2, p2)" by (metis prod.exhaust)
      have "hit (d2, p2) r = None"
        using describes_hit [OF d(2) ok, of g d2 p2] op_key_ok [OF o(1)] o(2) True by (simp add: k2)
      then have "hit (snd (op_key op')) r = None" by (simp add: k2)
      then have "r' \<noteq> r" using describes_own [OF r'(2) o(1)] by auto
      then show ?thesis using r' d(1,3) True by (auto simp: listed_def)
    next
      case False
      then show ?thesis using r' d(3) by (auto simp: listed_def)
    qed
  qed
  then show thesis using rm f by (intro that [of k']) auto
qed

subsection \<open>Applying and cleaning up\<close>

abbreviation dest :: "int \<Rightarrow> route_op \<Rightarrow> string" where
  "dest ifIndex op \<equiv> ri_Destination (op_identity ifIndex op)"

text \<open>After some routes have been applied on host \<open>k0\<close>: the ledger holds exactly the operations \<open>mine\<close> that created a route.\<close>

definition applied_inv :: "int \<Rightarrow> route_op list \<Rightarrow> ('k \<Rightarrow> byte \<Rightarrow> (RtMsg \<times> attrs) list) \<Rightarrow> 'k \<Rightarrow> route_op list \<Rightarrow> applied \<Rightarrow> 'k \<Rightarrow> bool" where
  "applied_inv ifIndex ops dump k0 mine ap k \<longleftrightarrow>
     set mine \<subseteq> set ops \<and> distinct (map op_key mine) \<and> ap_owned ap = map (op_identity ifIndex) mine \<and>
     (\<forall>op\<in>set mine. ap_ops ap (dest ifIndex op) = Some op \<and> listed ifIndex dump k op \<and> found dump k0 (op_key op) = None) \<and>
     (\<forall>key. key_ok key \<and> key \<notin> op_key ` set mine \<longrightarrow> found dump k key = found dump k0 key)"

lemma applied_inv_outside:
  "applied_inv ifIndex ops dump k0 mine ap k \<Longrightarrow> key_ok key \<Longrightarrow> key \<notin> op_key ` set mine \<Longrightarrow> found dump k key = found dump k0 key"
  unfolding applied_inv_def by blast

definition distinct_names :: "int \<Rightarrow> route_op list \<Rightarrow> bool" where
  "distinct_names ifIndex ops \<longleftrightarrow> (\<forall>op\<in>set ops. \<forall>op'\<in>set ops. dest ifIndex op = dest ifIndex op' \<longrightarrow> op_key op = op_key op')"

lemma applied_inv_add:
  assumes "kernel_routes sys ifIndex ops dump" "distinct_names ifIndex ops" "applied_inv ifIndex ops dump k0 mine ap k" "op \<in> set ops"
    and "found dump k (op_key op) = None" "listed ifIndex dump k' op"
    and f: "\<And>key. key_ok key \<Longrightarrow> found dump k' key = (if key = op_key op then Some (op_identity ifIndex op) else found dump k key)"
    and l: "\<And>op'. listed ifIndex dump k op' \<Longrightarrow> listed ifIndex dump k' op'"
  shows "applied_inv ifIndex ops dump k0 (mine @ [op])
    (ap\<lparr>ap_owned := ap_owned ap @ [op_identity ifIndex op], ap_ops := (ap_ops ap)(dest ifIndex op \<mapsto> op)\<rparr>) k'"
proof -
  note i = assms(3) [unfolded applied_inv_def]
  have new: "op_key op \<notin> op_key ` set mine"
  proof
    assume "op_key op \<in> op_key ` set mine"
    then obtain o2 where o2: "o2 \<in> set mine" "op_key o2 = op_key op" by auto
    then have "found dump k (op_key o2) = Some (op_identity ifIndex o2)" using i by (intro listed_found [OF assms(1)]) auto
    then show False using o2 assms(5) by simp
  qed
  have k0: "found dump k0 (op_key op) = None"
    using applied_inv_outside [OF assms(3) op_key_ok [OF kernel_op_ok [OF assms(1,4)]] new] assms(5) by simp
  have "dest ifIndex o2 \<noteq> dest ifIndex op" if "o2 \<in> set mine" for o2
    using that new i assms(2,4) unfolding distinct_names_def by (metis image_eqI subsetD)
  then have "\<forall>o2\<in>set (mine @ [op]). ((ap_ops ap)(dest ifIndex op \<mapsto> op)) (dest ifIndex o2) = Some o2 \<and> listed ifIndex dump k' o2 \<and> found dump k0 (op_key o2) = None"
    using i l assms(6) k0 by auto
  then show ?thesis using i new assms(4) f by (auto simp: applied_inv_def)
qed

lemma applied_inv_dump: "applied_inv ifIndex ops dump k0 mine ap k \<Longrightarrow> dump k' = dump k \<Longrightarrow> applied_inv ifIndex ops dump k0 mine ap k'"
  by (auto simp: applied_inv_def listed_def found_def split: prod.splits)

lemma applied_inv_present:
  assumes "kernel_routes sys ifIndex ops dump" "applied_inv ifIndex ops dump k0 mine ap k" "op \<in> set ops"
  shows "found dump k (op_key op) \<noteq> None \<longleftrightarrow> op_key op \<in> op_key ` set mine \<or> found dump k0 (op_key op) \<noteq> None"
proof (cases "op_key op \<in> op_key ` set mine")
  case True
  then obtain o2 where "o2 \<in> set mine" "op_key o2 = op_key op" by auto
  moreover from this have "found dump k (op_key o2) = Some (op_identity ifIndex o2)"
    using assms(2) by (intro listed_found [OF assms(1)]) (auto simp: applied_inv_def)
  ultimately show ?thesis using True by simp
next
  case False
  then show ?thesis using applied_inv_outside [OF assms(2) op_key_ok [OF kernel_op_ok [OF assms(1,3)]]] by simp
qed

lemma apply_ops_inv:
  assumes "kernel_routes sys ifIndex ops dump" "distinct_names ifIndex ops"
  shows "apply_ops sys ifIndex todo ap k = (e, ap', k') \<Longrightarrow> set todo \<subseteq> set ops \<Longrightarrow> applied_inv ifIndex ops dump k0 mine ap k \<Longrightarrow>
    \<exists>mine'. applied_inv ifIndex ops dump k0 (mine @ mine') ap' k' \<and>
      (e = None \<longrightarrow> (\<forall>op\<in>set todo. found dump k' (op_key op) \<noteq> None))"
proof (induction todo arbitrary: ap k mine)
  case Nil
  then show ?case by (intro exI [of _ "[]"]) simp
next
  case (Cons op todo)
  have op: "op \<in> set ops" "set todo \<subseteq> set ops" using Cons.prems(2) by simp_all
  have later: "found dump k' (op_key op) \<noteq> None"
    if "found dump k1 (op_key op) \<noteq> None" "applied_inv ifIndex ops dump k0 m1 ap1 k1" "applied_inv ifIndex ops dump k0 (m1 @ m2) ap' k'" for k1 m1 ap1 m2
    using that applied_inv_present [OF assms(1) that(2) op(1)] applied_inv_present [OF assms(1) that(3) op(1)] by auto
  show ?case
  proof (rule op_add_effect [OF assms(1) op(1), of k])
    fix k1
    assume a: "op_add sys ifIndex op k = (None, k1)" "found dump k (op_key op) = None" "listed ifIndex dump k1 op"
      "\<And>key. key_ok key \<Longrightarrow> found dump k1 key = (if key = op_key op then Some (op_identity ifIndex op) else found dump k key)"
      "\<And>op'. listed ifIndex dump k op' \<Longrightarrow> listed ifIndex dump k1 op'"
    let ?ap = "ap\<lparr>ap_owned := ap_owned ap @ [op_identity ifIndex op], ap_ops := (ap_ops ap)(dest ifIndex op \<mapsto> op)\<rparr>"
    have inv: "applied_inv ifIndex ops dump k0 (mine @ [op]) ?ap k1" by (rule applied_inv_add [OF assms Cons.prems(3) op(1) a(2,3,4,5)])
    have r: "apply_ops sys ifIndex todo ?ap k1 = (e, ap', k')" using Cons.prems(1) a(1) by (simp add: Let_def)
    from Cons.IH [OF r op(2) inv] obtain m where
      m: "applied_inv ifIndex ops dump k0 ((mine @ [op]) @ m) ap' k'" "e = None \<longrightarrow> (\<forall>op\<in>set todo. found dump k' (op_key op) \<noteq> None)" by blast
    have "found dump k1 (op_key op) \<noteq> None" using a(4) op_key_ok [OF kernel_op_ok [OF assms(1) op(1)]] by simp
    from later [OF this inv m(1)] show ?thesis using m by (intro exI [of _ "op # m"]) auto
  next
    fix e1 k1
    assume a: "op_add sys ifIndex op k = (Some e1, k1)" "dump k1 = dump k" "found dump k (op_key op) \<noteq> None \<longleftrightarrow> Is_errno e1 EEXIST"
    have inv: "applied_inv ifIndex ops dump k0 mine ap k1" by (rule applied_inv_dump [OF Cons.prems(3) a(2)])
    show ?thesis
    proof (cases "Is_errno e1 EEXIST")
      case False
      then have "e = Some e1 \<and> ap' = ap \<and> k' = k1" using Cons.prems(1) a(1) by simp
      then show ?thesis using inv by (intro exI [of _ "[]"]) simp
    next
      case True
      then have r: "apply_ops sys ifIndex todo ap k1 = (e, ap', k')" using Cons.prems(1) a(1) by simp
      from Cons.IH [OF r op(2) inv] obtain m where
        m: "applied_inv ifIndex ops dump k0 (mine @ m) ap' k'" "e = None \<longrightarrow> (\<forall>op\<in>set todo. found dump k' (op_key op) \<noteq> None)" by blast
      have "found dump k1 (op_key op) \<noteq> None" using a(2,3) True by (simp add: found_def split: prod.splits)
      from later [OF this inv m(1)] show ?thesis using m by (intro exI [of _ m]) auto
    qed
  qed
qed

lemma cleanup_mine:
  assumes "kernel_routes sys ifIndex ops dump" "ow = makeOwner sys ifIndex ap"
  shows "set mine \<subseteq> set ops \<Longrightarrow> distinct (map op_key mine) \<Longrightarrow> \<forall>op\<in>set mine. ap_ops ap (dest ifIndex op) = Some op \<and> listed ifIndex dump k op \<Longrightarrow>
    \<exists>k'. cleanup_all ow (map (op_identity ifIndex) mine) k = Some ([], k') \<and>
      (\<forall>key. key_ok key \<longrightarrow> found dump k' key = (if key \<in> op_key ` set mine then None else found dump k key))"
proof (induction mine arbitrary: k)
  case (Cons op mine)
  have op: "op \<in> set ops" "ap_ops ap (dest ifIndex op) = Some op" "listed ifIndex dump k op" using Cons.prems by auto
  have look: "op_lookup sys op k = Inr (Some (op_identity ifIndex op))"
    using op_lookup_found [OF assms(1) op(1)] listed_found [OF assms(1) op(1,3)] by simp
  show ?case
  proof (rule op_remove_effect [OF assms(1) op(1,3)])
    fix k1
    assume a: "op_remove sys ifIndex op k = (None, k1)"
      "\<And>key. key_ok key \<Longrightarrow> found dump k1 key = (if key = op_key op then None else found dump k key)"
      "\<And>op'. op_ok op' \<Longrightarrow> op_key op' \<noteq> op_key op \<Longrightarrow> listed ifIndex dump k op' \<Longrightarrow> listed ifIndex dump k1 op'"
    have "listed ifIndex dump k1 o2" if "o2 \<in> set mine" for o2
    proof (rule a(3))
      show "op_ok o2" "listed ifIndex dump k o2" using that Cons.prems kernel_op_ok [OF assms(1), of o2] by auto
      show "op_key o2 \<noteq> op_key op" using that Cons.prems(2) by (metis (no_types, lifting) distinct.simps(2) image_eqI list.set_map list.simps(9))
    qed
    then have "\<forall>op\<in>set mine. ap_ops ap (dest ifIndex op) = Some op \<and> listed ifIndex dump k1 op" using Cons.prems(3) by simp
    moreover have "set mine \<subseteq> set ops" "distinct (map op_key mine)" using Cons.prems(1,2) by simp_all
    ultimately obtain k' where k': "cleanup_all ow (map (op_identity ifIndex) mine) k1 = Some ([], k')"
      "\<forall>key. key_ok key \<longrightarrow> found dump k' key = (if key \<in> op_key ` set mine then None else found dump k1 key)"
      using Cons.IH by blast
    have "cleanup_all ow (map (op_identity ifIndex) (op # mine)) k = Some ([], k')"
      using k'(1) a(1) op(2) look assms(2) by (simp add: makeOwner_def NewOwnership_def)
    then show ?thesis using k'(2) a(2) by auto
  qed
qed simp

subsection \<open>Properties\<close>

lemma check_mine:
  assumes "kernel_routes sys ifIndex ops dump"
  shows "set mine \<subseteq> set ops \<Longrightarrow> \<forall>op\<in>set mine. ap_ops ap (dest ifIndex op) = Some op \<and> listed ifIndex dump k op \<Longrightarrow>
    check_owned (\<lambda>d k. case ap_ops ap d of None \<Rightarrow> Inl NlPanic | Some op \<Rightarrow> op_lookup sys op k) (map (op_identity ifIndex) mine) k = Inr []"
  using op_lookup_found [OF assms] listed_found [OF assms] by (induction mine) auto


text \<open>A kernel with one route, by its requests.\<close>

definition lone_op :: route_op where
  "lone_op = V4 (v4InV6Prefix @ [10, 0, 0, 0]) (CIDRMask 8 32) (v4InV6Prefix @ [10, 8, 0, 1])"

definition lone_options :: PushOptions where
  "lone_options = zero_options\<lparr>po_Routes := [\<lparr>rt_Network = v4InV6Prefix @ [10, 0, 0, 0], rt_Mask = CIDRMask 8 32, rt_Gateway = v4InV6Prefix @ [10, 8, 0, 1]\<rparr>]\<rparr>"

definition probe :: "bool sys" where
  "probe = \<lparr>sy_socket = None, sy_bind = None, sy_pid = 7, sy_exchange = \<lambda>_ k. (None, [], k)\<rparr>"

definition lone_route :: "RtMsg \<times> attrs" where
  "lone_route = (route_rtmsg AF_INET 8 False, [(RTA_DST, [10, 0, 0, 0]), (RTA_GATEWAY, [10, 8, 0, 1]), (RTA_OIF, le32 5)])"

definition lone_dump :: "bool \<Rightarrow> byte \<Rightarrow> (RtMsg \<times> attrs) list" where
  "lone_dump k f = (if k \<and> f = AF_INET then [lone_route] else [])"

definition plain_meta :: nl_meta where
  "plain_meta = \<lparr>nm_flags = 2, nm_seq = 3, nm_pid = 7\<rparr>"

definition lone_ack :: "u32 \<Rightarrow> (int, bytes) result list" where
  "lone_ack errno = [Inr (enc_raw plain_meta NLMSG_ERROR (le32 errno @ []))]"

definition lone_sys :: "bool sys" where
  "lone_sys = probe\<lparr>sy_exchange := \<lambda>m k.
     if m = add_request probe 5 lone_op then (None, lone_ack (if k then - 17 else 0), True)
     else if m = del_request probe 5 lone_op then (None, lone_ack (if k then 0 else - 3), False)
     else (None, [Inr (concat (map (enc_kmsg plain_meta) (map (\<lambda>(rt, as). KRoute rt as) (lone_dump k (m ! 16)) @ [KDone])))], k)\<rparr>"

lemma lone_requests:
  "add_request lone_sys 5 op = add_request probe 5 op" "del_request lone_sys 5 op = del_request probe 5 op" "dump_request lone_sys f = dump_request probe f"
  by (simp_all add: add_request_def del_request_def dump_request_def nl_request_def lone_sys_def)

lemma dump_request_shape: "length (dump_request probe f) = 28" "dump_request probe f ! 16 = f"
  by (simp_all add: dump_request_def nl_request_def nth_append) (simp add: marshalRtMsg_def)

lemma lone_distinct: "length (add_request probe 5 lone_op) = 52" "length (del_request probe 5 lone_op) = 52"
  "add_request probe 5 lone_op \<noteq> del_request probe 5 lone_op"
  by code_simp+

lemma lone_exchange:
  "sy_exchange lone_sys (add_request probe 5 lone_op) k = (None, lone_ack (if k then - 17 else 0), True)"
  "sy_exchange lone_sys (del_request probe 5 lone_op) k = (None, lone_ack (if k then 0 else - 3), False)"
  "sy_exchange lone_sys (dump_request probe f) k =
     (None, [Inr (concat (map (enc_kmsg plain_meta) (map (\<lambda>(rt, as). KRoute rt as) (lone_dump k f) @ [KDone])))], k)"
proof -
  have "dump_request probe f \<noteq> add_request probe 5 lone_op" "dump_request probe f \<noteq> del_request probe 5 lone_op"
    using dump_request_shape(1) [of f] lone_distinct(1,2) by auto
  then show "sy_exchange lone_sys (dump_request probe f) k =
     (None, [Inr (concat (map (enc_kmsg plain_meta) (map (\<lambda>(rt, as). KRoute rt as) (lone_dump k f) @ [KDone])))], k)"
    by (simp add: lone_sys_def dump_request_shape(2))
qed (use lone_distinct(3) in \<open>auto simp: lone_sys_def\<close>)

lemma lone_ops: "route_ops lone_options = [lone_op]"
  by (simp add: route_ops_def lone_options_def lone_op_def zero_options_def or_default_def v4InV6Prefix_def)

lemma lone_facts: "op_ok lone_op" "op_key lone_op = (AF_INET, [10, 0, 0, 0], 8)" "hit ([10, 0, 0, 0], 8) lone_route \<noteq> None"
  "read_attrs 4 (snd lone_route) = (op_gateway lone_op, 5, [10, 0, 0, 0])"
  by code_simp+

lemma lone_errnos: "sint (- (- 17 :: u32)) = EEXIST" "sint (- (- 3 :: u32)) \<noteq> EEXIST" "(- 17 :: u32) \<noteq> 0" "(- 3 :: u32) \<noteq> 0"
  by (simp_all add: EEXIST_def)

lemma lone_messages:
  "list_all kmsg_ok [KRoute (fst lone_route) (snd lone_route), KDone]"
  "length (concat (map (enc_kmsg plain_meta) [KRoute (fst lone_route) (snd lone_route), KDone])) = 72"
  "length (concat (map (enc_kmsg plain_meta) [KDone])) = 20"
proof -
  have "length (enc_attrs (snd lone_route)) = 24" by code_simp
  then show "list_all kmsg_ok [KRoute (fst lone_route) (snd lone_route), KDone]"
    by (simp add: kmsg_ok_def attrs_ok_def) (simp add: lone_route_def)
qed (code_simp+)

lemma lone_describes: "describes 5 lone_op lone_route"
  using lone_facts(2,4) by (simp add: describes_def numeral_eq_Suc) (simp add: lone_route_def route_rtmsg_def)

lemma lone_kernel: "kernel_routes lone_sys 5 [lone_op] lone_dump"
proof -
  have d: "answers_dump lone_sys lone_dump"
  proof -
    have "\<exists>meta dgs. sy_exchange lone_sys (dump_request lone_sys f) k = (None, map (\<lambda>ms. Inr (concat (map (enc_kmsg meta) ms))) dgs, k) \<and>
        concat dgs = map (\<lambda>(rt, as). KRoute rt as) (lone_dump k f) @ [KDone] \<and>
        (\<forall>ms\<in>set dgs. list_all kmsg_ok ms \<and> length (concat (map (enc_kmsg meta) ms)) \<le> 65536)" for k f
      using lone_messages
      by (intro exI [of _ plain_meta] exI [of _ "[map (\<lambda>(rt, as). KRoute rt as) (lone_dump k f) @ [KDone]]"])
        (auto simp: lone_requests lone_exchange lone_dump_def split_beta)
    then show ?thesis unfolding answers_dump_def by blast
  qed
  have f: "found lone_dump k (op_key lone_op) = None \<longleftrightarrow> \<not> k" for k
    using lone_facts(2,3) by (auto simp: found_def lone_dump_def split: option.splits)
  have upd: "lone_dump True = (lone_dump False)(fst (op_key lone_op) := [] @ lone_route # [])" "lone_dump False (fst (op_key lone_op)) = [] @ []"
    "lone_dump False = (lone_dump True)(fst (op_key lone_op) := [] @ [])" "lone_dump True (fst (op_key lone_op)) = [] @ lone_route # []"
    by (auto simp: lone_dump_def fun_eq_iff lone_facts(2))
  have a: "answers_add lone_sys 5 [lone_op] lone_dump"
    unfolding answers_add_def
  proof (intro allI ballI)
    fix k op
    assume "op \<in> set [lone_op]"
    then have op: "op = lone_op" by simp
    have x: "sy_exchange lone_sys (add_request lone_sys 5 op) k =
        (None, [Inr (enc_raw plain_meta NLMSG_ERROR (le32 (if k then - 17 else 0) @ []))], True)"
      unfolding op lone_requests lone_exchange lone_ack_def ..
    have "if (if k then - 17 else 0 :: u32) = 0 then found lone_dump k (op_key op) = None \<and>
           (\<exists>pre r post. lone_dump k (fst (op_key op)) = pre @ post \<and> describes 5 op r \<and> lone_dump True = (lone_dump k)(fst (op_key op) := pre @ r # post))
         else lone_dump True = lone_dump k \<and> ((found lone_dump k (op_key op) \<noteq> None) = (sint (- (if k then - 17 else 0 :: u32)) = EEXIST))"
    proof (cases k)
      case True
      then show ?thesis using f [of k] by (simp add: op EEXIST_def)
    next
      case False
      have "lone_dump k (fst (op_key op)) = [] @ [] \<and> describes 5 op lone_route \<and> lone_dump True = (lone_dump k)(fst (op_key op) := [] @ lone_route # [])"
        using upd(1,2) lone_describes False by (simp add: op)
      then show ?thesis using f [of k] False unfolding op by (auto simp del: append.simps split_paired_Ex)
    qed
    then show "\<exists>meta errno extra k'. sy_exchange lone_sys (add_request lone_sys 5 op) k = (None, [Inr (enc_raw meta NLMSG_ERROR (le32 errno @ extra))], k') \<and> length extra < 4000 \<and>
        (if errno = 0 then found lone_dump k (op_key op) = None \<and>
           (\<exists>pre r post. lone_dump k (fst (op_key op)) = pre @ post \<and> describes 5 op r \<and> lone_dump k' = (lone_dump k)(fst (op_key op) := pre @ r # post))
         else lone_dump k' = lone_dump k \<and> ((found lone_dump k (op_key op) \<noteq> None) = (sint (- errno) = EEXIST)))"
      using x by (intro exI [of _ plain_meta] exI [of _ "if k then - 17 else 0"] exI [of _ "[]"] exI [of _ True] conjI) simp_all
  qed
  have r: "answers_del lone_sys 5 [lone_op] lone_dump"
    unfolding answers_del_def
  proof (intro allI ballI)
    fix k op
    assume "op \<in> set [lone_op]"
    then have op: "op = lone_op" by simp
    have x: "sy_exchange lone_sys (del_request lone_sys 5 op) k =
        (None, [Inr (enc_raw plain_meta NLMSG_ERROR (le32 (if k then 0 else - 3) @ []))], False)"
      unfolding op lone_requests lone_exchange lone_ack_def ..
    have "if (if k then 0 else - 3 :: u32) = 0
         then \<exists>pre r post. lone_dump k (fst (op_key op)) = pre @ r # post \<and> describes 5 op r \<and> lone_dump False = (lone_dump k)(fst (op_key op) := pre @ post)
         else lone_dump False = lone_dump k \<and> (\<forall>r\<in>set (lone_dump k (fst (op_key op))). \<not> describes 5 op r)"
    proof (cases k)
      case True
      have "lone_dump k (fst (op_key op)) = [] @ lone_route # [] \<and> describes 5 op lone_route \<and> lone_dump False = (lone_dump k)(fst (op_key op) := [] @ [])"
        using upd(3,4) lone_describes True by (simp add: op)
      then have "\<exists>pre r post. lone_dump k (fst (op_key op)) = pre @ r # post \<and> describes 5 op r \<and> lone_dump False = (lone_dump k)(fst (op_key op) := pre @ post)"
        by blast
      then show ?thesis using True by (simp only: if_True refl)
    next
      case False
      then show ?thesis using lone_errnos(4) upd(2) by (simp add: op)
    qed
    then show "\<exists>meta errno extra k'. sy_exchange lone_sys (del_request lone_sys 5 op) k = (None, [Inr (enc_raw meta NLMSG_ERROR (le32 errno @ extra))], k') \<and> length extra < 4000 \<and>
        (if errno = 0 then \<exists>pre r post. lone_dump k (fst (op_key op)) = pre @ r # post \<and> describes 5 op r \<and> lone_dump k' = (lone_dump k)(fst (op_key op) := pre @ post)
         else lone_dump k' = lone_dump k \<and> (\<forall>r\<in>set (lone_dump k (fst (op_key op))). \<not> describes 5 op r))"
      using x by (intro exI [of _ plain_meta] exI [of _ "if k then 0 else - 3"] exI [of _ "[]"] exI [of _ False] conjI) simp_all
  qed
  have "single_routes lone_dump" by (auto simp: single_routes_def lone_dump_def)
  then show ?thesis using d a r lone_facts(1) by (simp add: kernel_routes_def) (simp add: lone_sys_def probe_def)
qed


text \<open>With two routes to one destination that differ in their metric, the lookup sees the first one only: a ledger whose route comes second
  reports it as changed, and does not remove it when it cleans up.\<close>

lemma other_metric_hides_route:
  assumes "sy_socket sys = None" "sy_bind sys = None" "answers_dump sys dump" "op_ok op" "dump k (fst (op_key op)) = other # rest"
    and "hit (snd (op_key op)) other = Some i" "i \<noteq> op_identity ifIndex op"
    and "ap = \<lparr>ap_owned = [op_identity ifIndex op], ap_ops = [dest ifIndex op \<mapsto> op]\<rparr>"
  shows "Check (Some (makeOwner sys ifIndex ap)) k = Inr [\<lparr>dr_Kind = DriftChanged, dr_Destination = dest ifIndex op\<rparr>] \<and>
     Cleanup (Some (makeOwner sys ifIndex ap)) k = Some ([], Some ((makeOwner sys ifIndex ap)\<lparr>ow_closed := True\<rparr>), k)"
proof -
  have "op_lookup sys op k = Inr (found dump k (op_key op))"
    using queryRouteIdentity_found [OF assms(1-3)] assms(4)
    by (cases op) (auto simp: op_lookup_def op_key_def op_ok_def lookupRouteIdentity_def lookupRouteIdentity6_def split: prod.splits)
  moreover have "found dump k (op_key op) = Some i" using assms(5,6) by (auto simp: found_def split: prod.splits)
  ultimately show ?thesis using assms(7,8)
    by (simp add: Check_def checkLocked_def Cleanup_def makeOwner_def NewOwnership_def)
qed

text \<open>A last attribute that is not padded makes the parser slice past the end of the message.\<close>

lemma unpadded_attribute_panics: "route_attrs_loop [5, 0, 1, 0, 9] st = None"
  by (simp add: route_attrs_loop.simps LE16_def u16_of_def align4_def)

fun first_gateway :: "attrs \<Rightarrow> ip" where
  "first_gateway [] = []"
| "first_gateway ((t, d) # as) = (if t = RTA_GATEWAY \<and> 4 \<le> length d then take 4 d else first_gateway as)"

lemma gateway_loop_enc: "attrs_ok as \<Longrightarrow> gateway_loop spare (enc_attrs as) = Inr (first_gateway as)"
proof (induction as)
  case Nil
  then show ?case by (simp add: enc_attrs_def gateway_loop.simps)
next
  case (Cons a as)
  obtain t d where a: "a = (t, d)" by fastforce
  have ok: "4 + length d < 2 ^ 16" "attrs_ok as" using Cons.prems by (auto simp: attrs_ok_def a)
  define X where "X = nlAttr t d @ enc_attrs as"
  have e: "enc_attrs (a # as) = X" by (simp add: enc_attrs_def a X_def)
  have parts: "unat (LE16 X) = 4 + length d" "LE16 (drop 2 X) = t" "drop (align4 (4 + length d)) X = enc_attrs as"
    unfolding X_def by (rule nlAttr_parts [OF ok(1)])+
  have l: "length X = align4 (4 + length d) + length (enc_attrs as)" by (simp add: X_def length_nlAttr)
  have al: "4 + length d \<le> align4 (4 + length d)" by (simp add: align4_add)
  have tk: "take 4 (drop 4 (X @ replicate spare 0)) = take 4 d" if "4 \<le> length d"
    using that by (simp add: X_def nlAttr_def pad4_def)
  show ?case
  proof (cases "t = RTA_GATEWAY \<and> 4 \<le> length d")
    case True
    then have "gateway_loop spare X = Inr (take 4 d)" using parts(1,2) l al tk
      by (subst gateway_loop.simps) (simp add: Let_def del: drop_append take_append)
    then show ?thesis using True by (simp add: e, simp add: a)
  next
    case False
    then have "gateway_loop spare X = gateway_loop spare (enc_attrs as)" using parts l al
      by (subst gateway_loop.simps) (auto simp: Let_def simp del: drop_append take_append)
    then show ?thesis using Cons.IH [OF ok(2)] False by (simp add: e) (auto simp: a)
  qed
qed

lemma own_attrs:
  assumes "op_ok op" "0 < ifIndex" "ifIndex < 2 ^ 31"
  shows "\<exists>rt as. op_payload ifIndex op = marshalRtMsg rt @ enc_attrs as \<and> attrs_ok as \<and> describes ifIndex op (rt, as)"
proof -
  have w: "int (unat (of_int ifIndex :: u32)) = ifIndex" using assms(2,3) by (simp add: unsigned_of_int take_bit_int_eq_self)
  have small: "p \<le> 255 \<Longrightarrow> unat (of_nat p :: byte) = p" for p by (simp add: unat_byte_of_nat)
  show ?thesis
  proof (cases op)
    case (V4 dst msk gw)
    have "snd (mask_Size msk) = 32" using assms(1) by (simp add: op_ok_def V4)
    then obtain ones where m: "mask_Size msk = (ones, 32)" by (metis prod.collapse)
    have o: "ones \<le> 32"
    proof -
      have "length (takeWhile id (concat (map byte_bits msk))) \<le> 8 * length msk"
        using length_takeWhile_le [of id "concat (map byte_bits msk)"] by (simp add: length_concat byte_bits_def comp_def sum_list_triv)
      then show ?thesis using m by (auto simp: mask_Size_def Let_def split: if_splits)
    qed
    define as where "as = [(RTA_DST, To4 dst)] @ (if gw \<noteq> [] then [(RTA_GATEWAY, To4 gw)] else []) @ [(RTA_OIF, le32 (of_int ifIndex))]"
    let ?rt = "route_rtmsg AF_INET ones (ones = 32 \<and> gw = [])"
    have pay: "op_payload ifIndex op = marshalRtMsg ?rt @ enc_attrs as"
      using assms(2) by (simp add: op_payload_def V4 m route_payload4_def enc_attrs_def as_def)
    have "length (To4 i) < 65532" for i using To4_cases [of i] by linarith
    then have ok: "attrs_ok as" by (simp add: attrs_ok_def as_def)
    have len: "length (To4 dst) = 4" using assms(1) unfolding op_ok_def V4 route_op.case by blast
    then have "take 4 (To4 dst) = To4 dst" "4 - length (To4 dst) = 0" by (metis order_refl take_all, metis diff_self_eq_0)
    then have "read_attrs 4 as = (op_gateway op, ifIndex, To4 dst)"
      using assms(1) w by (simp add: read_attrs_def route_attr_def V4 op_ok_def op_gateway_def go_copy_def netlink_numbers as_def)
    then have rd: "read_attrs (length (To4 dst)) as = (op_gateway op, ifIndex, To4 dst)" by (simp only: len)
    have "describes ifIndex op (?rt, as)" using rd o small [of ones] by (simp add: describes_def V4 op_key_def m route_rtmsg_def)
    then show ?thesis using pay ok by blast
  next
    case (V6 dst prefix gw)
    let ?as = "[(RTA_DST, To16 dst)] @ (if gw \<noteq> [] then [(RTA_GATEWAY, To16 gw)] else []) @ [(RTA_OIF, le32 (of_int ifIndex))]"
    have "op_payload ifIndex op = marshalRtMsg (route_rtmsg AF_INET6 prefix (prefix = 128 \<and> gw = [])) @ enc_attrs ?as"
      by (simp add: op_payload_def V6 route_payload6_def enc_attrs_def)
    moreover have "length (To16 gw) \<le> 16" by (simp add: To16_def v4InV6Prefix_def)
    then have "attrs_ok ?as" using assms(1) by (simp add: attrs_ok_def op_ok_def V6)
    moreover have "read_attrs 16 ?as = (op_gateway op, ifIndex, To16 dst)"
      using assms(1) w by (simp add: read_attrs_def route_attr_def V6 op_ok_def op_gateway_def go_copy_def netlink_numbers)
    ultimately show ?thesis using assms(1) small
      by (intro exI [of _ "route_rtmsg AF_INET6 prefix (prefix = 128 \<and> gw = [])"] exI [of _ ?as])
        (simp add: describes_def V6 op_key_def op_ok_def route_rtmsg_def)
  qed
qed

text \<open>C34 (netlink messages).  The request for a pushed route consists of an rtmsg and attributes that describe exactly its destination,
  prefix length, gateway and interface.  A dump, in which routes of all tables and other messages are mixed, is searched for the
  first route of the main table with the wanted destination and prefix length and for nothing else, up to the done message.  The
  answer to a route query gives the first gateway attribute.\<close>

theorem netlink_messages:
  "(op_ok op \<and> 0 < ifIndex \<and> ifIndex < 2 ^ 31 \<longrightarrow>
      (\<exists>rt as. op_payload ifIndex op = marshalRtMsg rt @ enc_attrs as \<and> describes ifIndex op (rt, as) \<and>
         hit (snd (op_key op)) (rt, as) = Some (op_identity ifIndex op))) \<and>
   (list_all kmsg_ok ms \<longrightarrow> findRouteIdentity (concat (map (enc_kmsg meta) ms)) dst prefix = Inr (find_spec ms dst prefix)) \<and>
   (kmsg_ok (KRoute rt as) \<longrightarrow> parseRouteGateway spare (enc_kmsg meta (KRoute rt as)) = Inr (first_gateway as))"
proof (intro conjI impI)
  assume a: "op_ok op \<and> 0 < ifIndex \<and> ifIndex < 2 ^ 31"
  then obtain rt as where r: "op_payload ifIndex op = marshalRtMsg rt @ enc_attrs as" "describes ifIndex op (rt, as)" using own_attrs [of op ifIndex] by auto
  have "hit (snd (op_key op)) (rt, as) = Some (op_identity ifIndex op)" using describes_own [OF r(2)] a by blast
  then show "\<exists>rt as. op_payload ifIndex op = marshalRtMsg rt @ enc_attrs as \<and> describes ifIndex op (rt, as) \<and>
         hit (snd (op_key op)) (rt, as) = Some (op_identity ifIndex op)" using r by blast
next
  assume "list_all kmsg_ok ms"
  then show "findRouteIdentity (concat (map (enc_kmsg meta) ms)) dst prefix = Inr (find_spec ms dst prefix)" by (rule find_dump)
next
  assume k: "kmsg_ok (KRoute rt as)"
  have "length (marshalRtMsg rt @ enc_attrs as) mod 4 = 0"
    using enc_attrs_mod [of as] by simp presburger
  then have "enc_kmsg meta (KRoute rt as) = marshalNlHdr \<lparr>nh_Len = of_nat (nlmsgHdrSize + length (marshalRtMsg rt @ enc_attrs as)), nh_Type = RTM_NEWROUTE,
      nh_Flags = nm_flags meta, nh_Seq = nm_seq meta, nh_Pid = nm_pid meta\<rparr> @ marshalRtMsg rt @ enc_attrs as" (is "_ = ?h @ _")
    using enc_attrs_mod [of as] by (simp add: enc_kmsg_def enc_raw_def pad4_def) presburger
  moreover have "LE16 (drop 4 (?h @ marshalRtMsg rt @ enc_attrs as)) \<noteq> NLMSG_ERROR" by (simp add: marshalNlHdr_def netlink_numbers)
  ultimately show "parseRouteGateway spare (enc_kmsg meta (KRoute rt as)) = Inr (first_gateway as)"
    using gateway_loop_enc [of as spare] k by (simp add: parseRouteGateway_def nlmsgHdrSize_def kmsg_ok_def)
qed

theorem netlink_messages_witness:
  "parseRouteGateway 100 (enc_kmsg plain_meta (KRoute (fst lone_route) (snd lone_route))) = Inr [10, 8, 0, 1] \<and>
   findRouteIdentity (concat (map (enc_kmsg plain_meta) [KRoute (fst lone_route) (snd lone_route), KDone])) [10, 0, 0, 0] 8 = Inr (find_spec [KRoute (fst lone_route) (snd lone_route), KDone] [10, 0, 0, 0] 8)"
proof -
  have "kmsg_ok (KRoute (fst lone_route) (snd lone_route))" using lone_messages(1) by simp
  moreover have "first_gateway (snd lone_route) = [10, 8, 0, 1]" by code_simp
  ultimately show ?thesis
    using netlink_messages [of lone_op 5 "[KRoute (fst lone_route) (snd lone_route), KDone]" plain_meta "[10, 0, 0, 0]" 8 "fst lone_route" "snd lone_route" 100] lone_messages(1)
    by simp
qed

end
