(* ===== verification/Go_Json.thy ===== *)
theory Go_Json
  imports Go_Net "HOL-Library.List_Lexorder" "HOL-Library.Char_ord"
begin

section \<open>encoding/json\<close>

text \<open>
  The part of the library \<^verbatim>\<open>encoding/json\<close> that the relay protocol, the relay server and the tunnel configuration for
  mobile platforms use: \<open>Marshal\<close> of maps, slices, strings, integers and booleans, the syntax accepted by \<open>Unmarshal\<close> and by
  \<open>Decoder.Decode\<close>, and the decoding of an object into a struct of string, integer and raw fields.  A Go string is a list of
  bytes here; \<open>rune_len\<close> is the UTF-8 decoder of \<^verbatim>\<open>unicode/utf8\<close>.  The main lemma, \<open>parse_print\<close>, says that the parser
  reads back what the printer wrote.
\<close>

subsection \<open>unicode/utf8\<close>

definition continuation :: "char \<Rightarrow> bool" where
  "continuation c \<longleftrightarrow> 128 \<le> code c \<and> code c \<le> 191"

definition second3 :: "nat \<Rightarrow> char \<Rightarrow> bool" where
  "second3 x b \<longleftrightarrow> (if x = 224 then 160 else 128) \<le> code b \<and> code b \<le> (if x = 237 then 159 else 191)"

definition second4 :: "nat \<Rightarrow> char \<Rightarrow> bool" where
  "second4 x b \<longleftrightarrow> (if x = 240 then 144 else 128) \<le> code b \<and> code b \<le> (if x = 244 then 143 else 191)"

text \<open>The length of the rune at the start of a string; zero is \<^verbatim>\<open>RuneError\<close> (or an empty string).\<close>

definition rune_len :: "string \<Rightarrow> nat" where
  "rune_len s =
     (case s of
        [] \<Rightarrow> 0
      | a # r \<Rightarrow>
          if code a < 128 then 1
          else if 194 \<le> code a \<and> code a \<le> 223 then
            (case r of b # _ \<Rightarrow> if continuation b then 2 else 0 | [] \<Rightarrow> 0)
          else if 224 \<le> code a \<and> code a \<le> 239 then
            (case r of b # c # _ \<Rightarrow> if second3 (code a) b \<and> continuation c then 3 else 0 | _ \<Rightarrow> 0)
          else if 240 \<le> code a \<and> code a \<le> 244 then
            (case r of b # c # d # _ \<Rightarrow> if second4 (code a) b \<and> continuation c \<and> continuation d then 4 else 0 | _ \<Rightarrow> 0)
          else 0)"

definition EncodeRune :: "nat \<Rightarrow> string" where
  "EncodeRune n =
     map char_of
       (if n < 128 then [n]
        else if n < 2048 then [192 + n div 64, 128 + n mod 64]
        else if 55296 \<le> n \<and> n \<le> 57343 \<or> 1114111 < n then [239, 191, 189]
        else if n < 65536 then [224 + n div 4096, 128 + n div 64 mod 64, 128 + n mod 64]
        else [240 + n div 262144, 128 + n div 4096 mod 64, 128 + n div 64 mod 64, 128 + n mod 64])"

lemma rune_len_prefix:
  assumes "0 < rune_len s"
  shows "rune_len s \<le> length s \<and> rune_len (take (rune_len s) s @ t) = rune_len s"
proof (cases s)
  case Nil
  then show ?thesis using assms by (simp add: rune_len_def)
next
  case (Cons a r)
  show ?thesis
  proof (cases r)
    case Nil
    then show ?thesis using assms Cons by (simp add: rune_len_def split: if_splits)
  next
    case r: (Cons b r1)
    show ?thesis
    proof (cases r1)
      case Nil
      then show ?thesis using assms Cons r by (simp add: rune_len_def split: if_splits)
    next
      case r1: (Cons c r2)
      then show ?thesis using assms Cons r by (cases r2; simp add: rune_len_def split: if_splits)
    qed
  qed
qed

function utf8_valid :: "string \<Rightarrow> bool" where
  "utf8_valid s = (if s = [] then True else if rune_len s = 0 then False else utf8_valid (drop (rune_len s) s))"
  by pat_completeness auto
termination by (relation "measure length") auto

declare utf8_valid.simps [simp del]

subsection \<open>Values and Marshal\<close>

datatype json = JNull | JBool bool | JNum string | JStr string | JArr "json list" | JObj "(string \<times> json) list"

definition u_escape :: "nat \<Rightarrow> string" where
  "u_escape n = [CHR 0x5C, CHR ''u'', hex_digit (n div 4096 mod 16), hex_digit (n div 256 mod 16), hex_digit (n div 16 mod 16), hex_digit (n mod 16)]"

definition escape :: "char \<Rightarrow> string" where
  "escape c =
     (if c = CHR 0x22 \<or> c = CHR 0x5C then [CHR 0x5C, c]
      else if c = CHR 0x08 then [CHR 0x5C, CHR ''b'']
      else if c = CHR 0x0C then [CHR 0x5C, CHR ''f'']
      else if c = CHR 0x0A then [CHR 0x5C, CHR ''n'']
      else if c = CHR 0x0D then [CHR 0x5C, CHR ''r'']
      else if c = CHR 0x09 then [CHR 0x5C, CHR ''t'']
      else if code c < 32 \<or> c = CHR ''<'' \<or> c = CHR ''>'' \<or> c = CHR ''&'' then u_escape (code c)
      else [c])"

definition line_separator :: string where "line_separator = [CHR 0xE2, CHR 0x80, CHR 0xA8]"
definition paragraph_separator :: string where "paragraph_separator = [CHR 0xE2, CHR 0x80, CHR 0xA9]"

function quote_body :: "string \<Rightarrow> string" where
  "quote_body s =
     (case s of
        [] \<Rightarrow> []
      | c # r \<Rightarrow>
          if code c < 128 then escape c @ quote_body r
          else if rune_len s = 0 then u_escape 65533 @ quote_body r
          else if take 3 s = line_separator then u_escape 8232 @ quote_body (drop 3 s)
          else if take 3 s = paragraph_separator then u_escape 8233 @ quote_body (drop 3 s)
          else take (rune_len s) s @ quote_body (drop (rune_len s) s))"
  by pat_completeness auto
termination by (relation "measure length") auto

declare quote_body.simps [simp del]

definition quote :: "string \<Rightarrow> string" where
  "quote s = CHR 0x22 # quote_body s @ [CHR 0x22]"

fun print_json :: "json \<Rightarrow> string" and print_elems :: "json list \<Rightarrow> string" and print_members :: "(string \<times> json) list \<Rightarrow> string" where
  "print_json JNull = ''null''"
| "print_json (JBool b) = (if b then ''true'' else ''false'')"
| "print_json (JNum t) = t"
| "print_json (JStr s) = quote s"
| "print_json (JArr []) = ''[]''"
| "print_json (JArr (v # vs)) = ''['' @ print_json v @ print_elems vs"
| "print_json (JObj []) = ''{}''"
| "print_json (JObj ((k, v) # ms)) = ''{'' @ quote k @ '':'' @ print_json v @ print_members ms"
| "print_elems [] = '']''"
| "print_elems (v # vs) = '','' @ print_json v @ print_elems vs"
| "print_members [] = ''}''"
| "print_members ((k, v) # ms) = '','' @ quote k @ '':'' @ print_json v @ print_members ms"

text \<open>\<open>Marshal\<close> writes the keys of a map in ascending order.\<close>

definition json_map :: "(string \<times> json) list \<Rightarrow> json" where
  "json_map ms = JObj (sort_key fst ms)"

definition Marshal :: "json \<Rightarrow> string" where "Marshal v = print_json v"

subsection \<open>The parser\<close>

definition is_ws :: "char \<Rightarrow> bool" where
  "is_ws c \<longleftrightarrow> c = CHR '' '' \<or> c = CHR 0x09 \<or> c = CHR 0x0A \<or> c = CHR 0x0D"

abbreviation skip :: "string \<Rightarrow> string" where "skip \<equiv> dropWhile is_ws"

definition expect :: "char \<Rightarrow> string \<Rightarrow> string option" where
  "expect c s = (case s of [] \<Rightarrow> None | x # r \<Rightarrow> if x = c then Some r else None)"

text \<open>\<^verbatim>\<open>getu4\<close>: the value of a \<^verbatim>\<open>\uXXXX\<close> escape at the start of the string.\<close>

definition getu4 :: "string \<Rightarrow> nat option" where
  "getu4 s =
     (if 6 \<le> length s \<and> take 2 s = [CHR 0x5C, CHR ''u''] \<and> list_all is_hex (take 4 (drop 2 s))
      then Some (hex_acc (take 4 (drop 2 s))) else None)"

definition unescape :: "char \<Rightarrow> char option" where
  "unescape c =
     (if c = CHR 0x22 \<or> c = CHR 0x5C \<or> c = CHR ''/'' then Some c
      else if c = CHR ''b'' then Some (CHR 0x08)
      else if c = CHR ''f'' then Some (CHR 0x0C)
      else if c = CHR ''n'' then Some (CHR 0x0A)
      else if c = CHR ''r'' then Some (CHR 0x0D)
      else if c = CHR ''t'' then Some (CHR 0x09)
      else None)"

text \<open>One \<^verbatim>\<open>\uXXXX\<close> escape, or two that form a surrogate pair: the text it stands for and how much of the string it takes.\<close>

definition unicode_escape :: "string \<Rightarrow> (string \<times> nat) option" where
  "unicode_escape s =
     (case getu4 s of
        None \<Rightarrow> None
      | Some n \<Rightarrow>
          if 55296 \<le> n \<and> n \<le> 57343 then
            (case getu4 (drop 6 s) of
               Some m \<Rightarrow> if n < 56320 \<and> 56320 \<le> m \<and> m \<le> 57343 then Some (EncodeRune (65536 + (n - 55296) * 1024 + (m - 56320)), 12)
                         else Some (EncodeRune 65533, 6)
             | None \<Rightarrow> Some (EncodeRune 65533, 6))
          else Some (EncodeRune n, 6))"

lemma unicode_escape_pos: "unicode_escape s = Some (t, k) \<Longrightarrow> 0 < k"
  by (auto simp: unicode_escape_def split: option.splits if_splits)

text \<open>A string literal after its opening quote: its value and what follows the closing quote.\<close>

function string_body :: "string \<Rightarrow> (string \<times> string) option" where
  "string_body s =
     (case s of
        [] \<Rightarrow> None
      | c # r \<Rightarrow>
          if c = CHR 0x22 then Some ([], r)
          else if c = CHR 0x5C then
            (case r of
               [] \<Rightarrow> None
             | e # r' \<Rightarrow>
                 if e = CHR ''u'' then
                   (case unicode_escape s of
                      None \<Rightarrow> None
                    | Some (t, k) \<Rightarrow> if k = 0 then None else map_option (apfst ((@) t)) (string_body (drop k s)))
                 else (case unescape e of None \<Rightarrow> None | Some x \<Rightarrow> map_option (apfst ((#) x)) (string_body r')))
          else if code c < 32 then None
          else if rune_len s = 0 then map_option (apfst ((@) (EncodeRune 65533))) (string_body r)
          else map_option (apfst ((@) (take (rune_len s) s))) (string_body (drop (rune_len s) s)))"
  by pat_completeness auto
termination by (relation "measure length") auto

declare string_body.simps [simp del]

text \<open>Numbers.\<close>

definition num_frac :: "string \<Rightarrow> (string \<times> string) option" where
  "num_frac s =
     (case expect (CHR ''.'') s of
        None \<Rightarrow> Some ([], s)
      | Some r \<Rightarrow> if takeWhile is_digit r = [] then None else Some (CHR ''.'' # takeWhile is_digit r, dropWhile is_digit r))"

definition num_exp :: "string \<Rightarrow> (string \<times> string) option" where
  "num_exp s =
     (case s of
        [] \<Rightarrow> Some ([], s)
      | e # r \<Rightarrow>
          if e \<noteq> CHR ''e'' \<and> e \<noteq> CHR ''E'' then Some ([], s)
          else let sg = (if r \<noteq> [] \<and> (hd r = CHR ''+'' \<or> hd r = CHR ''-'') then [hd r] else []);
                   r1 = drop (length sg) r
               in if takeWhile is_digit r1 = [] then None
                  else Some (e # sg @ takeWhile is_digit r1, dropWhile is_digit r1))"

definition scan_number :: "string \<Rightarrow> (string \<times> string) option" where
  "scan_number s =
     (let sg = (if s \<noteq> [] \<and> hd s = CHR ''-'' then [CHR ''-''] else []);
          r = drop (length sg) s;
          ds = (if r \<noteq> [] \<and> hd r = CHR ''0'' then ''0'' else takeWhile is_digit r)
      in if ds = [] then None
         else case num_frac (drop (length ds) r) of
           None \<Rightarrow> None
         | Some (f, r1) \<Rightarrow>
             (case num_exp r1 of None \<Rightarrow> None | Some (e, r2) \<Rightarrow> Some (sg @ ds @ f @ e, r2)))"

definition literal :: "string \<Rightarrow> json \<Rightarrow> string \<Rightarrow> (json \<times> string) option" where
  "literal w v s = (if take (length w) s = w then Some (v, drop (length w) s) else None)"

text \<open>\<open>n\<close> bounds the recursion (two calls consume a character, see \<open>parse_fuel\<close>), \<open>d\<close> is the nesting that is still allowed.\<close>

fun parse_value :: "nat \<Rightarrow> nat \<Rightarrow> string \<Rightarrow> (json \<times> string) option"
  and parse_elems :: "nat \<Rightarrow> nat \<Rightarrow> string \<Rightarrow> (json list \<times> string) option"
  and parse_members :: "nat \<Rightarrow> nat \<Rightarrow> string \<Rightarrow> ((string \<times> json) list \<times> string) option" where
  "parse_value 0 d s = None"
| "parse_value (Suc n) d s =
     (case skip s of
        [] \<Rightarrow> None
      | c # r \<Rightarrow>
          if c = CHR ''{'' then
            (if d = 0 then None
             else case expect (CHR ''}'') (skip r) of
               Some r1 \<Rightarrow> Some (JObj [], r1)
             | None \<Rightarrow> map_option (apfst JObj) (parse_members n (d - 1) (skip r)))
          else if c = CHR ''['' then
            (if d = 0 then None
             else case expect (CHR '']'') (skip r) of
               Some r1 \<Rightarrow> Some (JArr [], r1)
             | None \<Rightarrow> map_option (apfst JArr) (parse_elems n (d - 1) r))
          else if c = CHR 0x22 then map_option (apfst JStr) (string_body r)
          else if c = CHR ''t'' then literal ''true'' (JBool True) (c # r)
          else if c = CHR ''f'' then literal ''false'' (JBool False) (c # r)
          else if c = CHR ''n'' then literal ''null'' JNull (c # r)
          else map_option (apfst JNum) (scan_number (c # r)))"
| "parse_elems 0 d s = None"
| "parse_elems (Suc n) d s =
     (case parse_value n d s of
        None \<Rightarrow> None
      | Some (v, r) \<Rightarrow>
          (case expect (CHR '']'') (skip r) of
             Some r1 \<Rightarrow> Some ([v], r1)
           | None \<Rightarrow>
               (case expect (CHR '','') (skip r) of
                  None \<Rightarrow> None
                | Some r1 \<Rightarrow> map_option (apfst ((#) v)) (parse_elems n d r1))))"
| "parse_members 0 d s = None"
| "parse_members (Suc n) d s =
     (case expect (CHR 0x22) s of
        None \<Rightarrow> None
      | Some q \<Rightarrow>
          (case string_body q of
             None \<Rightarrow> None
           | Some (k, r0) \<Rightarrow>
               (case expect (CHR '':'') (skip r0) of
                  None \<Rightarrow> None
                | Some r1 \<Rightarrow>
                    (case parse_value n d r1 of
                       None \<Rightarrow> None
                     | Some (v, r) \<Rightarrow>
                         (case expect (CHR ''}'') (skip r) of
                            Some r2 \<Rightarrow> Some ([(k, v)], r2)
                          | None \<Rightarrow>
                              (case expect (CHR '','') (skip r) of
                                 None \<Rightarrow> None
                               | Some r2 \<Rightarrow> map_option (apfst ((#) (k, v))) (parse_members n d (skip r2))))))))"

definition max_depth :: nat where "max_depth = 10000"

text \<open>The syntax of \<open>Unmarshal\<close> (one value and nothing after it) and of \<open>Decode\<close> (one value, the rest is not looked at).\<close>

definition parse_json :: "string \<Rightarrow> json option" where
  "parse_json s =
     (case parse_value (2 * length s + 1) max_depth s of
        Some (v, r) \<Rightarrow> if skip r = [] then Some v else None
      | None \<Rightarrow> None)"

definition parse_prefix :: "string \<Rightarrow> json option" where
  "parse_prefix s = map_option fst (parse_value (2 * length s + 1) max_depth s)"

subsection \<open>Decoding into a struct\<close>

datatype field_kind = KString | KInt | KRaw

text \<open>Field names are compared without regard to case; two letters outside ASCII fold to ASCII ones.\<close>

fun fold_name :: "string \<Rightarrow> string" where
  "fold_name [] = []"
| "fold_name (a # r) =
     (if a = CHR 0xC5 \<and> take 1 r = [CHR 0xBF] then CHR ''S'' # fold_name (drop 1 r)
      else if a = CHR 0xE2 \<and> take 2 r = [CHR 0x84, CHR 0xAA] then CHR ''K'' # fold_name (drop 2 r)
      else upper a # fold_name r)"

definition match_name :: "string list \<Rightarrow> string \<Rightarrow> string option" where
  "match_name names k = (if k \<in> set names then Some k else find (\<lambda>n. fold_name n = fold_name k) names)"

definition accepts_kind :: "field_kind \<Rightarrow> json \<Rightarrow> bool" where
  "accepts_kind kd v =
     (case kd of
        KString \<Rightarrow> (case v of JStr _ \<Rightarrow> True | _ \<Rightarrow> False)
      | KInt \<Rightarrow> (case v of JNum t \<Rightarrow> ParseInt64 t \<noteq> None | _ \<Rightarrow> False)
      | KRaw \<Rightarrow> True)"

type_synonym struct = "string \<Rightarrow> json option"

text \<open>A member of an object: unknown names are skipped, \<open>null\<close> leaves a field as it is, a value of another type is an error that is
  reported at the end, and a later member replaces an earlier one.\<close>

definition assign :: "(string \<times> field_kind) list \<Rightarrow> string \<times> json \<Rightarrow> bool \<times> struct \<Rightarrow> bool \<times> struct" where
  "assign kinds m st =
     (case m of (k, v) \<Rightarrow> case st of (fine, env) \<Rightarrow>
        (case match_name (map fst kinds) k of
           None \<Rightarrow> st
         | Some f \<Rightarrow>
             (case map_of kinds f of
                None \<Rightarrow> st
              | Some kd \<Rightarrow>
                  if v = JNull \<and> kd \<noteq> KRaw then st
                  else if accepts_kind kd v then (fine, env(f \<mapsto> v))
                  else (False, env))))"

definition decode_struct :: "(string \<times> field_kind) list \<Rightarrow> json \<Rightarrow> struct option" where
  "decode_struct kinds v =
     (case v of
        JNull \<Rightarrow> Some Map.empty
      | JObj ms \<Rightarrow> (case fold (assign kinds) ms (True, Map.empty) of (fine, env) \<Rightarrow> if fine then Some env else None)
      | _ \<Rightarrow> None)"

definition string_field :: "struct \<Rightarrow> string \<Rightarrow> string" where
  "string_field env f = (case env f of Some (JStr t) \<Rightarrow> t | _ \<Rightarrow> [])"

definition Unmarshal :: "(string \<times> field_kind) list \<Rightarrow> string \<Rightarrow> struct option" where
  "Unmarshal kinds s = (case parse_json s of None \<Rightarrow> None | Some v \<Rightarrow> decode_struct kinds v)"

definition Decode :: "(string \<times> field_kind) list \<Rightarrow> string \<Rightarrow> struct option" where
  "Decode kinds s = (case parse_prefix s of None \<Rightarrow> None | Some v \<Rightarrow> decode_struct kinds v)"

subsection \<open>What is printed is read back\<close>

definition is_int_literal :: "string \<Rightarrow> bool" where
  "is_int_literal t =
     (let ds = (if t \<noteq> [] \<and> hd t = CHR ''-'' then tl t else t)
      in ds \<noteq> [] \<and> list_all is_digit ds \<and> (hd ds = CHR ''0'' \<longrightarrow> ds = ''0''))"

text \<open>Values that are printed and read without loss, with at most \<open>d\<close> levels of nesting.\<close>

fun wf_json :: "nat \<Rightarrow> json \<Rightarrow> bool" where
  "wf_json d JNull = True"
| "wf_json d (JBool b) = True"
| "wf_json d (JNum t) = is_int_literal t"
| "wf_json d (JStr s) = utf8_valid s"
| "wf_json d (JArr vs) = (0 < d \<and> list_all (wf_json (d - 1)) vs)"
| "wf_json d (JObj ms) = (0 < d \<and> list_all (\<lambda>(k, v). utf8_valid k \<and> wf_json (d - 1) v) ms)"

definition stops :: "string \<Rightarrow> bool" where
  "stops r \<longleftrightarrow> r = [] \<or> hd r = CHR '','' \<or> hd r = CHR '']'' \<or> hd r = CHR ''}'' \<or> hd r = CHR 0x0A"

lemma hex_digit_val: "n < 16 \<Longrightarrow> is_hex (hex_digit n) \<and> hex_val (hex_digit n) = n"
  using code_char_of [of "48 + n"] code_char_of [of "87 + n"] by (simp add: hex_digit_def is_hex_def hex_val_def is_digit_def)

lemma nibbles:
  assumes "n < (65536 :: nat)"
  shows "16 * (16 * (16 * (n div 4096 mod 16) + n div 256 mod 16) + n div 16 mod 16) + n mod 16 = n"
proof -
  have "n div 4096 = n div 256 div 16" "n div 256 = n div 16 div 16"
    by (simp_all flip: div_mult2_eq)
  moreover have "n div 4096 mod 16 = n div 4096"
    using assms by simp
  ultimately show ?thesis
    by (metis mult.commute div_mult_mod_eq)
qed

lemma append_one: "(@) [x] = (#) x"
  by (rule ext) simp

lemma hex_acc_digits:
  "a < 16 \<Longrightarrow> b < 16 \<Longrightarrow> c < 16 \<Longrightarrow> d < 16 \<Longrightarrow>
   list_all is_hex [hex_digit a, hex_digit b, hex_digit c, hex_digit d] \<and>
   hex_acc [hex_digit a, hex_digit b, hex_digit c, hex_digit d] = 16 * (16 * (16 * a + b) + c) + d"
  by (simp add: hex_acc_def hex_digit_val)

lemma getu4_u_escape:
  assumes "n < 65536"
  shows "getu4 (u_escape n @ r) = Some n"
proof -
  define a b c d where "a = n div 4096 mod 16" and "b = n div 256 mod 16" and "c = n div 16 mod 16" and "d = n mod 16"
  have "u_escape n = [CHR 0x5C, CHR ''u'', hex_digit a, hex_digit b, hex_digit c, hex_digit d]"
    by (simp add: u_escape_def a_def b_def c_def d_def)
  moreover have "a < 16" "b < 16" "c < 16" "d < 16"
    by (simp_all add: a_def b_def c_def d_def)
  moreover have "16 * (16 * (16 * a + b) + c) + d = n"
    unfolding a_def b_def c_def d_def by (rule nibbles [OF assms])
  ultimately show ?thesis
    using hex_acc_digits [of a b c d] by (simp add: getu4_def)
qed

lemma string_body_u_escape:
  assumes "n < 55296 \<or> 57343 < n" "n < 65536"
  shows "string_body (u_escape n @ r) = map_option (apfst ((@) (EncodeRune n))) (string_body r)"
proof -
  have "unicode_escape (u_escape n @ r) = Some (EncodeRune n, 6)"
    using assms by (auto simp: unicode_escape_def getu4_u_escape)
  moreover obtain x where "u_escape n = CHR 0x5C # CHR ''u'' # x" "length x = 4"
    by (simp add: u_escape_def)
  ultimately show ?thesis
    by (subst string_body.simps) simp
qed

lemma EncodeRune_ascii: "code c < 128 \<Longrightarrow> EncodeRune (code c) = [c]"
  by (simp add: EncodeRune_def code_def)

lemma string_body_plain:
  "code c < 128 \<Longrightarrow> 32 \<le> code c \<Longrightarrow> c \<noteq> CHR 0x22 \<Longrightarrow> c \<noteq> CHR 0x5C \<Longrightarrow>
   string_body (c # r) = map_option (apfst ((#) c)) (string_body r)"
  by (subst string_body.simps) (simp add: rune_len_def append_one)

lemma escape_special:
  assumes "c \<in> {CHR 0x22, CHR 0x5C, CHR 0x08, CHR 0x0C, CHR 0x0A, CHR 0x0D, CHR 0x09}"
  shows "\<exists>e. escape c = [CHR 0x5C, e] \<and> unescape e = Some c \<and> e \<noteq> CHR ''u''"
proof -
  have "\<forall>c \<in> set [CHR 0x22, CHR 0x5C, CHR 0x08, CHR 0x0C, CHR 0x0A, CHR 0x0D, CHR 0x09].
          tl (escape c) \<noteq> [] \<and> escape c = [CHR 0x5C, hd (tl (escape c))] \<and> unescape (hd (tl (escape c))) = Some c \<and> hd (tl (escape c)) \<noteq> CHR ''u''"
    by code_simp
  then show ?thesis using assms by (metis (no_types, lifting) list.simps(15) empty_set)
qed

lemma string_body_escape:
  assumes "code c < 128"
  shows "string_body (escape c @ r) = map_option (apfst ((#) c)) (string_body r)"
proof -
  have esc: "string_body (CHR 0x5C # e # r) = map_option (apfst ((#) x)) (string_body r)" if "unescape e = Some x" "e \<noteq> CHR ''u''" for e x
    using that by (subst string_body.simps) simp
  have u: "string_body (u_escape (code c) @ r) = map_option (apfst ((#) c)) (string_body r)"
    using assms by (simp add: string_body_u_escape EncodeRune_ascii append_one)
  show ?thesis
  proof (cases "c \<in> {CHR 0x22, CHR 0x5C, CHR 0x08, CHR 0x0C, CHR 0x0A, CHR 0x0D, CHR 0x09}")
    case True
    from escape_special [OF this] obtain e where "escape c = [CHR 0x5C, e]" "unescape e = Some c" "e \<noteq> CHR ''u''"
      by auto
    then show ?thesis using esc [of e c] by simp
  next
    case False
    then have n: "c \<noteq> CHR 0x22" "c \<noteq> CHR 0x5C" "c \<noteq> CHR 0x08" "c \<noteq> CHR 0x0C" "c \<noteq> CHR 0x0A" "c \<noteq> CHR 0x0D" "c \<noteq> CHR 0x09"
      by simp_all
    show ?thesis
    proof (cases "code c < 32 \<or> c = CHR ''<'' \<or> c = CHR ''>'' \<or> c = CHR ''&''")
      case True
      then have "escape c = u_escape (code c)" using n by (simp only: escape_def if_True if_False simp_thms)
      then show ?thesis using u by simp
    next
      case plain: False
      then have "escape c = [c]" using n by (simp only: escape_def if_True if_False simp_thms)
      then show ?thesis using assms plain n(1,2) string_body_plain [of c r] by simp
    qed
  qed
qed

lemma string_body_rune:
  assumes "0 < rune_len s" "128 \<le> code (hd s)"
  shows "string_body (take (rune_len s) s @ r) = map_option (apfst ((@) (take (rune_len s) s))) (string_body r)"
proof -
  let ?k = "rune_len s"
  have k: "?k \<le> length s" "rune_len (take ?k s @ r) = ?k"
    using rune_len_prefix [OF assms(1)] by auto
  obtain c t where ct: "take ?k s @ r = c # t" "code c = code (hd s)"
    using k(1) assms(1) by (cases s) (auto simp: take_Cons')
  then have "c \<noteq> CHR 0x22" "c \<noteq> CHR 0x5C" "\<not> code c < 32"
    using assms(2) by (auto simp: code_def)
  moreover have "rune_len (c # t) = ?k"
    using k(2) ct(1) by simp
  ultimately have "string_body (c # t) = map_option (apfst ((@) (take ?k (c # t)))) (string_body (drop ?k (c # t)))"
    using assms(1) by (subst string_body.simps) simp
  moreover have "take ?k (c # t) = take ?k s" "drop ?k (c # t) = r"
    using k(1) unfolding ct(1) [symmetric] by simp_all
  ultimately show ?thesis
    by (simp add: ct(1))
qed

lemma separator_runes:
  "EncodeRune 8232 = line_separator" "EncodeRune 8233 = paragraph_separator" "rune_len (line_separator @ r) = 3" "rune_len (paragraph_separator @ r) = 3"
proof -
  have c: "char_of (226 :: nat) = CHR 0xE2" "char_of (128 :: nat) = CHR 0x80" "char_of (168 :: nat) = CHR 0xA8" "char_of (169 :: nat) = CHR 0xA9"
    by code_simp+
  have "EncodeRune 8232 = map char_of [226 :: nat, 128, 168]" "EncodeRune 8233 = map char_of [226 :: nat, 128, 169]"
    by (simp_all add: EncodeRune_def)
  then show "EncodeRune 8232 = line_separator" "EncodeRune 8233 = paragraph_separator"
    by (simp_all add: c line_separator_def paragraph_separator_def)
  have "code (CHR 0xE2) = 226" "code (CHR 0x80) = 128" "code (CHR 0xA8) = 168" "code (CHR 0xA9) = 169"
    by code_simp+
  then show "rune_len (line_separator @ r) = 3" "rune_len (paragraph_separator @ r) = 3"
    by (simp_all add: line_separator_def paragraph_separator_def rune_len_def second3_def continuation_def)
qed

lemma string_body_quote:
  "utf8_valid s \<Longrightarrow> string_body (quote_body s @ CHR 0x22 # r) = Some (s, r)"
proof (induction s rule: utf8_valid.induct)
  case (1 s)
  show ?case
  proof (cases s)
    case Nil
    then show ?thesis by (simp add: quote_body.simps [of "[]"] string_body.simps [of "CHR 0x22 # r"])
  next
    case (Cons c t)
    have v: "0 < rune_len s" "utf8_valid (drop (rune_len s) s)"
      using 1(2) Cons unfolding utf8_valid.simps [of s] by (simp_all split: if_splits)
    have IH: "string_body (quote_body (drop (rune_len s) s) @ CHR 0x22 # r) = Some (drop (rune_len s) s, r)"
      using 1(1) v Cons by simp
    show ?thesis
    proof (cases "code c < 128")
      case True
      then have "rune_len s = 1" using Cons by (simp add: rune_len_def)
      then show ?thesis using True IH Cons by (simp add: quote_body.simps [of "c # t"] string_body_escape)
    next
      case big: False
      have sep: "rune_len s = 3" if "take 3 s = line_separator \<or> take 3 s = paragraph_separator"
        using that separator_runes(3,4) [of "drop 3 s"] append_take_drop_id [of 3 s] by metis
      consider (line) "take 3 s = line_separator" | (para) "take 3 s = paragraph_separator" "take 3 s \<noteq> line_separator"
        | (other) "quote_body s = take (rune_len s) s @ quote_body (drop (rune_len s) s)"
        using big v(1) unfolding Cons quote_body.simps [of "c # t"] list.case by (metis less_numeral_extra(3))
      then show ?thesis
      proof cases
        case line
        then have "quote_body s = u_escape 8232 @ quote_body (drop (rune_len s) s)" "s = line_separator @ drop (rune_len s) s"
          using big v(1) Cons sep append_take_drop_id [of 3 s] by (simp_all add: quote_body.simps [of "c # t"])
        then show ?thesis using IH by (simp add: string_body_u_escape separator_runes)
      next
        case para
        then have "quote_body s = u_escape 8233 @ quote_body (drop (rune_len s) s)" "s = paragraph_separator @ drop (rune_len s) s"
          using big v(1) Cons sep append_take_drop_id [of 3 s] by (simp_all add: quote_body.simps [of "c # t"])
        then show ?thesis using IH by (simp add: string_body_u_escape separator_runes)
      next
        case other
        then show ?thesis using IH v(1) big Cons string_body_rune [of s] by simp
      qed
    qed
  qed
qed

lemma stops_number: "stops r \<Longrightarrow> takeWhile is_digit r = [] \<and> num_frac r = Some ([], r) \<and> num_exp r = Some ([], r)"
  by (cases r) (auto simp: stops_def num_frac_def num_exp_def expect_def is_digit_def code_def)

lemma digits_stop:
  assumes "list_all is_digit ds" "stops r"
  shows "takeWhile is_digit (ds @ r) = ds" "dropWhile is_digit (ds @ r) = r"
proof -
  have "\<forall>x \<in> set ds. is_digit x"
    using assms(1) by (simp add: list_all_iff)
  then show "takeWhile is_digit (ds @ r) = ds"
    using stops_number [OF assms(2)] by (simp add: takeWhile_append)
  then show "dropWhile is_digit (ds @ r) = r"
    by (metis append_same_eq takeWhile_dropWhile_id same_append_eq)
qed

lemma minus_not_digit [simp]: "\<not> is_digit (CHR ''-'')"
  by (simp add: is_digit_def code_def)

lemma scan_number_int:
  assumes "is_int_literal t" "stops r"
  shows "scan_number (t @ r) = Some (t, r)"
proof -
  show ?thesis
  proof (cases "hd t = CHR ''-''")
    case True
    then obtain ds where t: "t = CHR ''-'' # ds" "ds \<noteq> []" "list_all is_digit ds" "hd ds = CHR ''0'' \<longrightarrow> ds = ''0''"
      using assms(1) by (cases t) (auto simp: is_int_literal_def Let_def)
    show ?thesis
      using t digits_stop [OF t(3) assms(2)] stops_number [OF assms(2)] by (cases "hd ds = CHR ''0''") (simp_all add: scan_number_def Let_def)
  next
    case False
    then have t: "t \<noteq> []" "list_all is_digit t" "hd t = CHR ''0'' \<longrightarrow> t = ''0''"
      using assms(1) by (auto simp: is_int_literal_def Let_def)
    show ?thesis
      using t False digits_stop [OF t(2) assms(2)] stops_number [OF assms(2)] by (cases "hd t = CHR ''0''") (simp_all add: scan_number_def Let_def)
  qed
qed

text \<open>The first character of a printed value tells its kind.\<close>

definition number_start :: "char \<Rightarrow> bool" where "number_start c \<longleftrightarrow> c = CHR ''-'' \<or> is_digit c"

lemma number_start_other:
  "number_start c \<Longrightarrow> \<not> is_ws c \<and> c \<noteq> CHR ''{'' \<and> c \<noteq> CHR ''['' \<and> c \<noteq> CHR '']'' \<and> c \<noteq> CHR 0x22 \<and> c \<noteq> CHR ''t'' \<and> c \<noteq> CHR ''f'' \<and> c \<noteq> CHR ''n''"
  by (auto simp: number_start_def is_digit_def code_def is_ws_def)

lemma int_literal_start: "is_int_literal t \<Longrightarrow> \<exists>c u. t = c # u \<and> number_start c"
  by (cases t) (auto simp: is_int_literal_def number_start_def Let_def split: if_splits)

lemma print_start: "wf_json d v \<Longrightarrow> \<exists>c u. print_json v = c # u \<and> \<not> is_ws c \<and> c \<noteq> CHR '']''"
proof (cases v)
  case (JNum t)
  moreover assume "wf_json d v"
  ultimately show ?thesis using int_literal_start [of t] number_start_other by fastforce
next
  case (JArr vs)
  then show ?thesis by (cases vs) (simp_all add: is_ws_def)
next
  case (JObj ms)
  then show ?thesis by (cases ms) (auto simp: is_ws_def)
qed (simp_all add: is_ws_def quote_def)

lemma skip_print:
  assumes "wf_json d v"
  shows "skip (print_json v @ r) = print_json v @ r" "expect (CHR '']'') (print_json v @ r) = None"
  using print_start [OF assms] by (auto simp: expect_def)

lemma ws_marks [simp]:
  "\<not> is_ws (CHR '']'')" "\<not> is_ws (CHR ''}'')" "\<not> is_ws (CHR '','')" "\<not> is_ws (CHR '':'')" "\<not> is_ws (CHR 0x22)" "\<not> is_ws (CHR ''{'')" "\<not> is_ws (CHR ''['')"
  by (simp_all add: is_ws_def)

lemma expect_Nil [simp]: "expect c [] = None"
  by (simp add: expect_def)

lemma expect_Cons [simp]: "expect c (x # r) = (if x = c then Some r else None)"
  by (simp add: expect_def)

lemma tail_marks:
  "print_elems (v # vs) = CHR '','' # print_json v @ print_elems vs" "print_members (m # ms) = CHR '','' # quote (fst m) @ CHR '':'' # print_json (snd m) @ print_members ms"
  "stops (print_elems vs @ r)" "stops (print_members ms @ r)"
proof -
  show "print_elems (v # vs) = CHR '','' # print_json v @ print_elems vs" by simp
  show "print_members (m # ms) = CHR '','' # quote (fst m) @ CHR '':'' # print_json (snd m) @ print_members ms" by (cases m) simp
  show "stops (print_elems vs @ r)" by (cases vs) (simp_all add: stops_def)
  show "stops (print_members ms @ r)" by (cases ms) (auto simp: stops_def)
qed

lemma parse_elems_step:
  assumes "parse_value n d (print_json v @ print_elems vs @ r) = Some (v, print_elems vs @ r)"
    "vs \<noteq> [] \<Longrightarrow> parse_elems n d (tl (print_elems vs) @ r) = Some (vs, r)"
  shows "parse_elems (Suc n) d (print_json v @ print_elems vs @ r) = Some (v # vs, r)"
  using assms by (cases vs) simp_all

lemma parse_members_step:
  assumes "utf8_valid k" "parse_value n d (print_json v @ print_members ms @ r) = Some (v, print_members ms @ r)"
    "ms \<noteq> [] \<Longrightarrow> parse_members n d (tl (print_members ms) @ r) = Some (ms, r)"
  shows "parse_members (Suc n) d (quote k @ CHR '':'' # print_json v @ print_members ms @ r) = Some ((k, v) # ms, r)"
  using assms by (cases ms) (auto simp: quote_def string_body_quote)

lemma tail_length: "1 \<le> length (print_elems vs)" "1 \<le> length (print_members ms)"
  by (cases vs; simp) (cases ms; auto)

lemma parse_atoms:
  assumes "0 < n"
  shows "parse_value n d (CHR ''n'' # CHR ''u'' # CHR ''l'' # CHR ''l'' # r) = Some (JNull, r)"
    "parse_value n d (CHR ''t'' # CHR ''r'' # CHR ''u'' # CHR ''e'' # r) = Some (JBool True, r)"
    "parse_value n d (CHR ''f'' # CHR ''a'' # CHR ''l'' # CHR ''s'' # CHR ''e'' # r) = Some (JBool False, r)"
    "utf8_valid s \<Longrightarrow> parse_value n d (quote s @ r) = Some (JStr s, r)"
    "0 < d \<Longrightarrow> parse_value n d (CHR ''['' # CHR '']'' # r) = Some (JArr [], r)"
    "0 < d \<Longrightarrow> parse_value n d (CHR ''{'' # CHR ''}'' # r) = Some (JObj [], r)"
  using assms by (cases n; simp add: literal_def is_ws_def quote_def string_body_quote)+

lemma parse_print_all:
  "wf_json d v \<Longrightarrow> length (print_json v) < n \<Longrightarrow> stops r \<Longrightarrow> parse_value n d (print_json v @ r) = Some (v, r)"
  "vs \<noteq> [] \<Longrightarrow> list_all (wf_json d) vs \<Longrightarrow> length (print_elems vs) \<le> n \<Longrightarrow> parse_elems n d (tl (print_elems vs) @ r) = Some (vs, r)"
  "ms \<noteq> [] \<Longrightarrow> list_all (\<lambda>(k, v). utf8_valid k \<and> wf_json d v) ms \<Longrightarrow> length (print_members ms) \<le> n \<Longrightarrow>
   parse_members n d (tl (print_members ms) @ r) = Some (ms, r)"
proof (induction v and vs and ms arbitrary: n d r and n d r and n d r rule: print_json_print_elems_print_members.induct)
  case (3 t)
  obtain c u m where "t = c # u" "number_start c" "n = Suc m"
    using 3 int_literal_start [of t] by (cases n) auto
  then show ?case
    using 3 scan_number_int [of t r] number_start_other [of c] by simp
next
  case (6 v vs)
  have wf: "0 < d" "wf_json (d - 1) v" "list_all (wf_json (d - 1)) vs"
    using "6.prems"(1) by simp_all
  obtain k where n: "n = Suc (Suc k)" "length (print_json v) < k" "length (print_elems vs) \<le> k"
    using "6.prems"(2) tail_length(1) [of vs] less_imp_Suc_add [of 1 n] by auto
  have "parse_elems (Suc k) (d - 1) (print_json v @ print_elems vs @ r) = Some (v # vs, r)"
    by (rule parse_elems_step) (use wf n "6.IH" tail_marks in simp_all)
  then show ?case
    using wf(1) skip_print [OF wf(2)] by (simp add: n(1))
next
  case (8 k v ms)
  have wf: "0 < d" "utf8_valid k" "wf_json (d - 1) v" "list_all (\<lambda>(k, v). utf8_valid k \<and> wf_json (d - 1) v) ms"
    using "8.prems"(1) by simp_all
  obtain j where n: "n = Suc (Suc j)" "length (print_json v) < j" "length (print_members ms) \<le> j"
    using "8.prems"(2) tail_length(2) [of ms] less_imp_Suc_add [of 1 n] by auto
  have "parse_members (Suc j) (d - 1) (quote k @ CHR '':'' # print_json v @ print_members ms @ r) = Some ((k, v) # ms, r)"
    by (rule parse_members_step) (use wf n "8.IH" tail_marks in simp_all)
  then show ?case
    using wf(1) by (simp add: n(1) quote_def)
next
  case (10 v vs)
  have wf: "wf_json d v" "list_all (wf_json d) vs"
    using "10.prems"(2) by simp_all
  obtain k where n: "n = Suc k" "length (print_json v) < k" "length (print_elems vs) \<le> k"
    using "10.prems"(3) tail_length(1) [of vs] by (cases n) auto
  have "parse_elems (Suc k) d (print_json v @ print_elems vs @ r) = Some (v # vs, r)"
    by (rule parse_elems_step) (use wf n "10.IH" tail_marks in simp_all)
  then show ?case
    by (simp add: n(1))
next
  case (12 k v ms)
  have wf: "utf8_valid k" "wf_json d v" "list_all (\<lambda>(k, v). utf8_valid k \<and> wf_json d v) ms"
    using "12.prems"(2) by simp_all
  obtain j where n: "n = Suc j" "length (print_json v) < j" "length (print_members ms) \<le> j"
    using "12.prems"(3) tail_length(2) [of ms] by (cases n) auto
  have "parse_members (Suc j) d (quote k @ CHR '':'' # print_json v @ print_members ms @ r) = Some ((k, v) # ms, r)"
    by (rule parse_members_step) (use wf n "12.IH" tail_marks in simp_all)
  then show ?case
    by (simp add: n(1))
qed (auto simp: parse_atoms)

lemma parse_json_Marshal: "wf_json max_depth v \<Longrightarrow> parse_json (Marshal v) = Some v"
  using parse_print_all(1) [of max_depth v "2 * length (Marshal v) + 1" "[]"] by (simp add: parse_json_def Marshal_def stops_def)

lemma parse_prefix_Marshal: "wf_json max_depth v \<Longrightarrow> stops r \<Longrightarrow> parse_prefix (Marshal v @ r) = Some v"
  using parse_print_all(1) [of max_depth v "2 * length (Marshal v @ r) + 1" r] by (simp add: parse_prefix_def Marshal_def)

text \<open>The parser's bound on the recursion is never reached: more of it makes no difference.\<close>

lemma map_apfst_Some: "map_option (apfst f) x = Some (y, r) \<longleftrightarrow> (\<exists>z. x = Some (z, r) \<and> y = f z)"
  by (cases x) auto

lemma string_body_shrinks: "string_body s = Some (t, r) \<Longrightarrow> length r < length s"
proof (induction "length s" arbitrary: s t r rule: less_induct)
  case less
  have IH: "length r < length s - k" if "string_body (drop k s) = Some (t', r)" "0 < k" "s \<noteq> []" for k t'
    using less.hyps [OF _ that(1)] that(2,3) by simp
  have le: "length r < length s" if "string_body (drop k s) = Some (t', r)" "0 < k" for k t'
  proof (cases "s = []")
    case True
    then show ?thesis using that by (simp add: string_body.simps)
  qed (use IH [OF that] in simp)
  obtain c u where s: "s = c # u"
    using less.prems by (cases s) (simp_all add: string_body.simps [of "[]"])
  note eq = less.prems [unfolded s string_body.simps [of "c # u"] list.case]
  have "r = u \<or> (\<exists>k t'. 0 < k \<and> string_body (drop k s) = Some (t', r))"
  proof (cases "c = CHR 0x22 \<or> c = CHR 0x5C")
    case True
    show ?thesis
    proof (cases u)
      case (Cons e r')
      show ?thesis
      proof (cases "c = CHR 0x22")
        case True
        then show ?thesis using eq by simp
      next
        case False
        then have c: "c = CHR 0x5C" "(c = CHR 0x22) = False" using True by simp_all
        show ?thesis
        proof (cases "e = CHR ''u''")
          case True
          then obtain a k where a: "unicode_escape (c # u) = Some (a, k)" "k \<noteq> 0"
            using eq c Cons by (cases "unicode_escape (c # u)") (auto split: if_splits)
          then have "map_option (apfst ((@) a)) (string_body (drop k (c # u))) = Some (t, r)"
            using eq c True Cons by simp
          then show ?thesis using a(2) unfolding s map_apfst_Some by blast
        next
          case False
          then obtain x where "unescape e = Some x"
            using eq c Cons by (cases "unescape e") simp_all
          then have "map_option (apfst ((#) x)) (string_body r') = Some (t, r)"
            using eq c False Cons by simp
          then show ?thesis unfolding s map_apfst_Some Cons using zero_less_numeral by (metis drop_Suc_Cons drop0 numeral_2_eq_2)
        qed
      qed
    qed (use eq True in \<open>auto split: if_splits\<close>)
  next
    case False
    then have "\<exists>t'. string_body (drop (if rune_len s = 0 then 1 else rune_len s) s) = Some (t', r)"
      using eq by (auto simp: s map_apfst_Some split: if_splits)
    then show ?thesis by (metis gr0I zero_less_one)
  qed
  then show ?case
    using le by (auto simp: s)
qed

lemma num_parts_le: "num_frac s = Some (f, r) \<Longrightarrow> length r \<le> length s" "num_exp s = Some (e, r) \<Longrightarrow> length r \<le> length s"
proof -
  have dw: "length (dropWhile is_digit x) \<le> length x" for x by (rule length_dropWhile_le)
  show "num_frac s = Some (f, r) \<Longrightarrow> length r \<le> length s"
    using dw by (cases s) (auto simp: num_frac_def split: if_splits intro: le_SucI)
  show "num_exp s = Some (e, r) \<Longrightarrow> length r \<le> length s"
    using dw [of "tl s"] dw [of "tl (tl s)"] by (cases s) (auto simp: num_exp_def Let_def drop_Suc split: if_splits)
qed

lemma scan_number_shrinks:
  assumes "scan_number s = Some (t, r)"
  shows "length r < length s"
proof -
  define sg where "sg = (if s \<noteq> [] \<and> hd s = CHR ''-'' then [CHR ''-''] else [])"
  define x where "x = drop (length sg) s"
  define ds where "ds = (if x \<noteq> [] \<and> hd x = CHR ''0'' then ''0'' else takeWhile is_digit x)"
  obtain f r1 where "ds \<noteq> []" "num_frac (drop (length ds) x) = Some (f, r1)" "\<exists>e. num_exp r1 = Some (e, r)"
    using assms unfolding scan_number_def Let_def sg_def [symmetric] x_def [symmetric] ds_def [symmetric]
    by (auto split: if_splits option.splits)
  then have "ds \<noteq> []" "length r \<le> length (drop (length ds) x)"
    using num_parts_le(1) [of "drop (length ds) x"] num_parts_le(2) [of r1] by fastforce+
  moreover have "x \<noteq> []"
    using \<open>ds \<noteq> []\<close> by (auto simp: ds_def)
  ultimately show ?thesis
    by (cases "length ds") (auto simp: x_def)
qed

lemma expect_shrinks: "expect c s = Some r \<Longrightarrow> length r < length s"
  by (cases s) (auto split: if_splits)

lemma skip_le: "length (skip s) \<le> length s"
  by (rule length_dropWhile_le)

lemma literal_shrinks: "literal w v s = Some (x, r) \<Longrightarrow> w \<noteq> [] \<Longrightarrow> length r < length s"
  by (cases s) (auto simp: literal_def split: if_splits)

lemma skip_expect_shrinks: "expect c (skip s) = Some r \<Longrightarrow> length r < length s"
  using expect_shrinks [of c "skip s" r] skip_le [of s] by simp

lemma parse_elems_Some:
  assumes "parse_elems (Suc n) d s = Some (vs, r)"
  shows "\<exists>v r1. parse_value n d s = Some (v, r1) \<and>
    (expect (CHR '']'') (skip r1) = Some r \<or> (\<exists>r2 vs'. expect (CHR '','') (skip r1) = Some r2 \<and> parse_elems n d r2 = Some (vs', r)))"
proof (cases "parse_value n d s")
  case (Some p)
  then show ?thesis
    using assms by (cases p; cases "expect (CHR '']'') (skip (snd p))"; cases "expect (CHR '','') (skip (snd p))") (auto simp: map_apfst_Some)
qed (use assms in simp)

lemma parse_members_Some:
  assumes "parse_members (Suc n) d s = Some (ms, r)"
  shows "\<exists>q k r0 r1 v r2. expect (CHR 0x22) s = Some q \<and> string_body q = Some (k, r0) \<and> expect (CHR '':'') (skip r0) = Some r1 \<and>
    parse_value n d r1 = Some (v, r2) \<and>
    (expect (CHR ''}'') (skip r2) = Some r \<or> (\<exists>r3 ms'. expect (CHR '','') (skip r2) = Some r3 \<and> parse_members n d (skip r3) = Some (ms', r)))"
proof -
  obtain q where q: "expect (CHR 0x22) s = Some q"
    using assms by (cases "expect (CHR 0x22) s") simp_all
  obtain k r0 where k: "string_body q = Some (k, r0)"
    using assms q by (cases "string_body q") auto
  obtain r1 where r1: "expect (CHR '':'') (skip r0) = Some r1"
    using assms q k by (cases "expect (CHR '':'') (skip r0)") simp_all
  obtain v r2 where v: "parse_value n d r1 = Some (v, r2)"
    using assms q k r1 by (cases "parse_value n d r1") auto
  show ?thesis
    using assms q k r1 v by (cases "expect (CHR ''}'') (skip r2)"; cases "expect (CHR '','') (skip r2)") (auto simp: map_apfst_Some)
qed

lemma parse_value_Some:
  assumes "parse_value (Suc n) d s = Some (v, r)" "skip s = c # u"
  shows "\<exists>x. expect x (skip u) = Some r \<or> (\<exists>ms. parse_members n (d - 1) (skip u) = Some (ms, r)) \<or> (\<exists>vs. parse_elems n (d - 1) u = Some (vs, r)) \<or>
    (\<exists>t. string_body u = Some (t, r)) \<or> length r < length (c # u)"
proof (cases "c = CHR ''{'' \<or> c = CHR ''[''")
  case True
  then show ?thesis
    using assms by (cases "expect (CHR ''}'') (skip u)"; cases "expect (CHR '']'') (skip u)") (auto simp: map_apfst_Some split: if_splits)
next
  case False
  note eq = assms(1) [unfolded parse_value.simps assms(2) list.case]
  consider "c = CHR 0x22" | w x where "literal w x (c # u) = Some (v, r)" "w \<noteq> []" | "scan_number (c # u) \<noteq> None" "map_option (apfst JNum) (scan_number (c # u)) = Some (v, r)"
    using eq False by (auto split: if_splits)
  then show ?thesis
  proof cases
    case 1
    then show ?thesis using eq by (auto simp: map_apfst_Some)
  next
    case 2
    then show ?thesis using literal_shrinks by blast
  next
    case 3
    then show ?thesis using scan_number_shrinks [of "c # u" _ r] unfolding map_apfst_Some by blast
  qed
qed

lemma parse_shrinks:
  "parse_value n d s = Some (v, r) \<Longrightarrow> length r < length s"
  "parse_elems n d s = Some (vs, r) \<Longrightarrow> length r < length s"
  "parse_members n d s = Some (ms, r) \<Longrightarrow> length r < length s"
proof (induction n arbitrary: d s v vs ms r)
  case (Suc n)
  {
    case 1
    obtain c u where cu: "skip s = c # u" using 1 by (cases "skip s") auto
    show ?case
      using parse_value_Some [OF 1 cu] Suc.IH(2,3) string_body_shrinks skip_expect_shrinks skip_le [of s] skip_le [of u] cu
      by (fastforce dest: less_le_trans)
  next
    case 2
    show ?case
      using parse_elems_Some [OF 2] Suc.IH(1,2) skip_expect_shrinks by (meson less_trans)
  next
    case 3
    show ?case
      using parse_members_Some [OF 3] Suc.IH(1,3) skip_expect_shrinks expect_shrinks string_body_shrinks skip_le by (meson less_trans less_le_trans)
  }
qed simp_all

lemma parse_fuel:
  "2 * length s < n \<Longrightarrow> parse_value (Suc n) d s = parse_value n d s"
  "2 * length s + 1 < n \<Longrightarrow> parse_elems (Suc n) d s = parse_elems n d s"
  "2 * length s < n \<Longrightarrow> parse_members (Suc n) d s = parse_members n d s"
proof (induction n arbitrary: d s)
  case (Suc n)
  {
    case 1
    show ?case
    proof (cases "skip s")
      case Nil
      show ?thesis unfolding parse_value.simps [of "Suc n"] parse_value.simps [of n] Nil list.case ..
    next
      case (Cons c u)
      then have "2 * length (skip u) < n" "2 * length u + 1 < n"
        using 1 skip_le [of s] skip_le [of u] by simp_all
      then have eqs: "parse_elems (Suc n) (d - 1) u = parse_elems n (d - 1) u" "parse_members (Suc n) (d - 1) (skip u) = parse_members n (d - 1) (skip u)"
        using Suc.IH(2,3) by blast+
      show ?thesis
        unfolding parse_value.simps [of "Suc n"] parse_value.simps [of n] Cons list.case eqs ..
    qed
  next
    case 2
    have v: "parse_value (Suc n) d s = parse_value n d s"
      using Suc.IH(1) 2 by simp
    have e: "parse_elems (Suc n) d r2 = parse_elems n d r2" if "parse_value n d s = Some (x, r1)" "expect c (skip r1) = Some r2" for x r1 r2 c
      using Suc.IH(2) [of r2 d] 2 parse_shrinks(1) [OF that(1)] skip_expect_shrinks [OF that(2)] by simp
    show ?case
      unfolding parse_elems.simps(2) [of "Suc n" d s] parse_elems.simps(2) [of n d s] v
      by (cases "parse_value n d s"; simp del: parse_elems.simps split: prod.split option.split) (metis e)
  next
    case 3
    have v: "parse_value (Suc n) d r1 = parse_value n d r1" "expect c (skip r2) = Some r3 \<Longrightarrow> parse_value n d r1 = Some (x, r2) \<Longrightarrow> parse_members (Suc n) d (skip r3) = parse_members n d (skip r3)"
      if "expect (CHR 0x22) s = Some q" "string_body q = Some (k, r0)" "expect (CHR '':'') (skip r0) = Some r1" for q k r0 r1 r2 r3 x c
    proof -
      have l: "2 * length r1 < n"
        using 3 expect_shrinks [OF that(1)] string_body_shrinks [OF that(2)] skip_expect_shrinks [OF that(3)] by simp
      then show "parse_value (Suc n) d r1 = parse_value n d r1"
        using Suc.IH(1) by simp
      show "parse_members (Suc n) d (skip r3) = parse_members n d (skip r3)" if "expect c (skip r2) = Some r3" "parse_value n d r1 = Some (x, r2)"
        using Suc.IH(3) [of "skip r3" d] l parse_shrinks(1) [OF that(2)] skip_expect_shrinks [OF that(1)] skip_le [of r3] by simp
    qed
    show ?case
      unfolding parse_members.simps(2) [of "Suc n" d s] parse_members.simps(2) [of n d s]
      by (simp del: parse_members.simps parse_value.simps split: prod.split option.split) (use v in fastforce)
  }
qed simp_all

lemma nat_digits_wf: "list_all is_digit (nat_digits n) \<and> nat_digits n \<noteq> [] \<and> (hd (nat_digits n) = CHR ''0'' \<longrightarrow> n = 0)"
proof (induction n rule: nat_digits.induct)
  case (1 n)
  have d: "is_digit (char_of (48 + m))" "char_of (48 + m) = CHR ''0'' \<Longrightarrow> m = 0" if "m < 10" for m :: nat
  proof -
    show "is_digit (char_of (48 + m))" using digit_char [OF that] by simp
    assume "char_of (48 + m) = CHR ''0''"
    then have "code (char_of (48 + m)) = code (CHR ''0'')" by simp
    then show "m = 0" using code_char_of [of "48 + m"] that by (simp add: code_def)
  qed
  show ?case
  proof (cases "n < 10")
    case True
    then show ?thesis using d [of n] by (simp add: nat_digits.simps [of n])
  next
    case False
    then show ?thesis using 1 d(1) [of "n mod 10"] by (auto simp: nat_digits.simps [of n])
  qed
qed

lemma int_literal_nat [simp]: "is_int_literal (nat_digits n)"
proof -
  have "hd (nat_digits n) \<noteq> CHR ''-''"
    using nat_digits_wf [of n] by (cases "nat_digits n") auto
  moreover have "hd (nat_digits n) = CHR ''0'' \<longrightarrow> nat_digits n = ''0''"
    using nat_digits_wf [of n] by (auto simp: nat_digits.simps [of 0])
  ultimately show ?thesis
    using nat_digits_wf [of n] by (simp add: is_int_literal_def)
qed

lemma utf8_ascii: "list_all (\<lambda>c. code c < 128) s \<Longrightarrow> utf8_valid s"
  by (induction s) (simp_all add: utf8_valid.simps [of "[]"] utf8_valid.simps [of "_ # _"] rune_len_def)

lemma Unmarshal_Marshal: "wf_json max_depth v \<Longrightarrow> Unmarshal kinds (Marshal v) = decode_struct kinds v"
  by (simp add: Unmarshal_def parse_json_Marshal)

lemma Decode_Marshal: "wf_json max_depth v \<Longrightarrow> stops r \<Longrightarrow> Decode kinds (Marshal v @ r) = decode_struct kinds v"
  by (simp add: Decode_def parse_prefix_Marshal)

end
