(* ===== verification/Web_Socket.thy ===== *)
theory Web_Socket
  imports Framing
begin

section \<open>relay: the WebSocket connection\<close>

text \<open>
  The WebSocket framing of \<^verbatim>\<open>relay/relay.go\<close> (\<open>sendFrame\<close>, \<open>readMessage\<close>, the agent's side) and of
  \<^verbatim>\<open>cmd/relay-server/main.go\<close> (\<open>wsReadFrame\<close>, \<open>wsSendFrame\<close>, the server's side), on one model of a connection.

  What a connection delivers is a list of events: a byte, the expiry of the read deadline while the reader waits, or the
  cancellation of the context; the end of the list is the end of the connection.  \<open>ws_ReadFull\<close> is \<^verbatim>\<open>io.ReadFull\<close> on the buffered
  reader: when the deadline expires, the bytes read so far are gone.  The mask keys of the frames sent come from a source of
  random bytes, of which the connection keeps the number of keys drawn.
\<close>

datatype net_event = Byte byte | Idle | Cancel

datatype fault = FTimeout | FClosed

fun ws_ReadFull :: "nat \<Rightarrow> bool \<Rightarrow> net_event list \<Rightarrow> (fault, bytes) result \<times> bool \<times> net_event list" where
  "ws_ReadFull 0 cx es = (Inr [], cx, es)"
| "ws_ReadFull (Suc n) cx [] = (Inl FClosed, cx, [])"
| "ws_ReadFull (Suc n) cx (Byte b # es) =
     (case ws_ReadFull n cx es of (Inl e, r) \<Rightarrow> (Inl e, r) | (Inr bs, r) \<Rightarrow> (Inr (b # bs), r))"
| "ws_ReadFull (Suc n) cx (Idle # es) = (Inl FTimeout, cx, es)"
| "ws_ReadFull (Suc n) cx (Cancel # es) = ws_ReadFull (Suc n) True es"

datatype ws_error = WsContext | WsHeader fault | WsLength16 fault | WsLength64 fault | WsMaskKey fault | WsPayload fault | WsServerClosed | WsWrite io_error

subsection \<open>Frames\<close>

definition mask_bytes :: "bytes \<Rightarrow> bytes \<Rightarrow> bytes" where
  "mask_bytes key payload = map (\<lambda>(i, b). b XOR key ! (i mod 4)) (enumerate 0 payload)"

text \<open>The length of the payload, in the second byte and an extension; \<open>m\<close> is the mask bit.\<close>

definition len_bytes :: "byte \<Rightarrow> nat \<Rightarrow> bytes" where
  "len_bytes m n =
     (if n < 126 then [m OR of_nat n]
      else if n < 65536 then [m OR 126, of_nat (n div 256), of_nat n]
      else [m OR 127, 0, 0, 0, 0, of_nat (n div 2 ^ 24), of_nat (n div 2 ^ 16), of_nat (n div 256), of_nat n])"

definition ext16 :: "bytes \<Rightarrow> nat" where "ext16 ext = unat (ext ! 0) * 256 + unat (ext ! 1)"

definition ext64 :: "bytes \<Rightarrow> nat" where
  "ext64 ext = unat (ext ! 4) * 2 ^ 24 + unat (ext ! 5) * 2 ^ 16 + unat (ext ! 6) * 256 + unat (ext ! 7)"

type_synonym 'a read = "(ws_error, 'a) result \<times> bool \<times> net_event list"

definition rd_bind :: "'a read \<Rightarrow> ('a \<Rightarrow> bool \<Rightarrow> net_event list \<Rightarrow> 'b read) \<Rightarrow> 'b read" where
  "rd_bind x f = (case x of (Inl e, r) \<Rightarrow> (Inl e, r) | (Inr a, cx, es) \<Rightarrow> f a cx es)"

definition read_bytes :: "(fault \<Rightarrow> ws_error) \<Rightarrow> nat \<Rightarrow> bool \<Rightarrow> net_event list \<Rightarrow> bytes read" where
  "read_bytes err n cx es = (case ws_ReadFull n cx es of (Inl e, r) \<Rightarrow> (Inl (err e), r) | (Inr bs, r) \<Rightarrow> (Inr bs, r))"

definition read_length :: "byte \<Rightarrow> bool \<Rightarrow> net_event list \<Rightarrow> nat read" where
  "read_length h1 cx es =
     (let payloadLen = unat (h1 AND 0x7F) in
      if payloadLen = 126 then rd_bind (read_bytes WsLength16 2 cx es) (\<lambda>ext cx es. (Inr (ext16 ext), cx, es))
      else if payloadLen = 127 then rd_bind (read_bytes WsLength64 8 cx es) (\<lambda>ext cx es. (Inr (ext64 ext), cx, es))
      else (Inr payloadLen, cx, es))"

definition read_key :: "byte \<Rightarrow> bool \<Rightarrow> net_event list \<Rightarrow> bytes option read" where
  "read_key h1 cx es =
     (if h1 AND 0x80 \<noteq> 0 then rd_bind (read_bytes WsMaskKey 4 cx es) (\<lambda>key cx es. (Inr (Some key), cx, es))
      else (Inr None, cx, es))"

text \<open>One frame: its FIN bit, its opcode and its payload.\<close>

definition read_frame :: "bool \<Rightarrow> net_event list \<Rightarrow> (bool \<times> byte \<times> bytes) read" where
  "read_frame cx es =
     rd_bind (read_bytes WsHeader 2 cx es) (\<lambda>header cx es.
     rd_bind (read_length (header ! 1) cx es) (\<lambda>payloadLen cx es.
     rd_bind (read_key (header ! 1) cx es) (\<lambda>key cx es.
     rd_bind (read_bytes WsPayload payloadLen cx es) (\<lambda>payload cx es.
       (Inr (header ! 0 AND 0x80 \<noteq> 0, header ! 0 AND 0x0F, case key of None \<Rightarrow> payload | Some k \<Rightarrow> mask_bytes k payload), cx, es)))))"

subsection \<open>The agent's connection\<close>

record 'w wsConn =
  ws_in :: "net_event list"
  ws_ctx :: bool
  ws_out :: 'w
  ws_keys :: nat

definition sendFrame :: "(nat \<Rightarrow> bytes) \<Rightarrow> 'w write_fn \<Rightarrow> byte \<Rightarrow> bytes \<Rightarrow> 'w wsConn \<Rightarrow> ws_error option \<times> 'w wsConn" where
  "sendFrame rnd write opcode payload c =
     (let maskKey = rnd (ws_keys c);
          header = (0x80 OR opcode) # len_bytes 0x80 (length payload) @ maskKey;
          c1 = c\<lparr>ws_keys := ws_keys c + 1\<rparr>
      in case write (header @ mask_bytes maskKey payload) (ws_out c1) of
           (None, w) \<Rightarrow> (None, c1\<lparr>ws_out := w\<rparr>)
         | (Some e, w) \<Rightarrow> (Some (WsWrite e), c1\<lparr>ws_out := w\<rparr>))"

definition sendText :: "(nat \<Rightarrow> bytes) \<Rightarrow> 'w write_fn \<Rightarrow> bytes \<Rightarrow> 'w wsConn \<Rightarrow> ws_error option \<times> 'w wsConn" where
  "sendText rnd write payload = sendFrame rnd write 0x1 payload"

definition sendPing :: "(nat \<Rightarrow> bytes) \<Rightarrow> 'w write_fn \<Rightarrow> 'w wsConn \<Rightarrow> ws_error option \<times> 'w wsConn" where
  "sendPing rnd write = sendFrame rnd write 0x9 []"

lemma ws_ReadFull_le: "ws_ReadFull n cx es = (x, cx', r) \<Longrightarrow> length r \<le> length es"
  by (induction n cx es arbitrary: x rule: ws_ReadFull.induct) (auto split: prod.splits sum.splits intro: le_SucI)

lemma ws_ReadFull_less: "ws_ReadFull n cx es = (x, cx', r) \<Longrightarrow> 0 < n \<Longrightarrow> x \<noteq> Inl FClosed \<Longrightarrow> length r < length es"
  by (induction n cx es arbitrary: x rule: ws_ReadFull.induct) (auto split: prod.splits sum.splits dest!: ws_ReadFull_le intro: less_SucI)

definition within :: "nat \<Rightarrow> 'a read \<Rightarrow> bool" where "within n x \<longleftrightarrow> length (snd (snd x)) \<le> n"

lemma within_bytes: "length es \<le> n \<Longrightarrow> within n (read_bytes err k cx es)"
  using ws_ReadFull_le [of k cx es] by (fastforce simp: within_def read_bytes_def split: prod.splits sum.splits)

lemma within_pure: "length es \<le> n \<Longrightarrow> within n (x, cx, es)"
  by (simp add: within_def)

lemma within_bind: "within n x \<Longrightarrow> (\<And>a cx es. length es \<le> n \<Longrightarrow> within n (f a cx es)) \<Longrightarrow> within n (rd_bind x f)"
  by (cases x; cases "fst x") (auto simp: within_def rd_bind_def)

lemmas within_intros = within_bytes within_pure within_bind

lemma within_parts: "length es \<le> n \<Longrightarrow> within n (read_length h cx es)" "length es \<le> n \<Longrightarrow> within n (read_key h cx es)"
  by (auto simp: read_length_def read_key_def Let_def intro!: within_intros)

lemma read_frame_less:
  assumes "read_frame cx es = (x, cx', r)" "x = Inr f \<or> x = Inl (WsHeader FTimeout)"
  shows "length r < length es"
proof -
  obtain y cy ry where y: "ws_ReadFull 2 cx es = (y, cy, ry)" by (cases "ws_ReadFull 2 cx es") auto
  show ?thesis
  proof (cases y)
    case (Inl e)
    then show ?thesis using assms y ws_ReadFull_less [OF y] by (auto simp: read_frame_def rd_bind_def read_bytes_def)
  next
    case (Inr h)
    then have head: "read_bytes WsHeader 2 cx es = (Inr h, cy, ry)" using y by (simp add: read_bytes_def)
    have "within (length ry) (read_frame cx es)"
      unfolding read_frame_def head rd_bind_def [of "(Inr h, cy, ry)"] by (auto intro!: within_intros within_parts)
    then show ?thesis using assms(1) ws_ReadFull_less [OF y] Inr by (simp add: within_def)
  qed
qed

text \<open>\<open>msg\<close> holds the fragments so far.  The opcode of the first one is stored by the code but never read.\<close>

function readMessage :: "(nat \<Rightarrow> bytes) \<Rightarrow> 'w write_fn \<Rightarrow> bytes \<Rightarrow> 'w wsConn \<Rightarrow> (ws_error, bytes) result \<times> 'w wsConn" where
  "readMessage rnd write msg c =
     (if ws_ctx c then (Inl WsContext, c)
      else case read_frame (ws_ctx c) (ws_in c) of
        (Inl e, cx, es) \<Rightarrow>
          (let c1 = c\<lparr>ws_ctx := cx, ws_in := es\<rparr> in
           case e of
             WsHeader f \<Rightarrow>
               if cx then (Inl WsContext, c1)
               else if f = FTimeout then readMessage rnd write msg c1
               else (Inl e, c1)
           | _ \<Rightarrow> (Inl e, c1))
      | (Inr (fin, opcode, payload), cx, es) \<Rightarrow>
          (let c1 = c\<lparr>ws_ctx := cx, ws_in := es\<rparr> in
           if opcode = 0x0 then
             (if fin then (if msg @ payload = [] then readMessage rnd write [] c1 else (Inr (msg @ payload), c1))
              else readMessage rnd write (msg @ payload) c1)
           else if opcode = 0x1 \<or> opcode = 0x2 then
             (if fin then (if payload = [] then readMessage rnd write msg c1 else (Inr payload, c1))
              else readMessage rnd write payload c1)
           else if opcode = 0x8 then (Inl WsServerClosed, c1)
           else if opcode = 0x9 then readMessage rnd write msg (snd (sendFrame rnd write 0xA payload c1))
           else readMessage rnd write msg c1))"
  by pat_completeness auto
termination
proof (relation "measure (\<lambda>(rnd, write, msg, c). length (ws_in c))", goal_cases)
  case 1
  show ?case by simp
qed (auto simp: sendFrame_def Let_def split: prod.splits option.splits dest: read_frame_less [OF sym] intro: read_frame_less [OF sym])

declare readMessage.simps [simp del]

subsection \<open>The server's side\<close>

definition wsReadFrame :: "net_event list \<Rightarrow> (ws_error, bytes \<times> byte) result \<times> net_event list" where
  "wsReadFrame es =
     (case read_frame False es of
        (Inl e, _, r) \<Rightarrow> (Inl e, r)
      | (Inr (_, opcode, payload), _, r) \<Rightarrow> (Inr (payload, opcode), r))"

definition wsSendFrame :: "'w write_fn \<Rightarrow> byte \<Rightarrow> bytes \<Rightarrow> 'w \<Rightarrow> io_error option \<times> 'w" where
  "wsSendFrame write opcode payload w =
     write ((0x80 OR opcode) # len_bytes 0 (length payload) @ payload) w"

definition wsSendText :: "'w write_fn \<Rightarrow> bytes \<Rightarrow> 'w \<Rightarrow> io_error option \<times> 'w" where
  "wsSendText write payload = wsSendFrame write 0x1 payload"

subsection \<open>Frames are read back\<close>

definition enc_frame :: "bool \<Rightarrow> byte \<Rightarrow> bytes option \<Rightarrow> bytes \<Rightarrow> bytes" where
  "enc_frame fin opcode key payload =
     ((if fin then 0x80 else 0) OR opcode) #
     (case key of
        None \<Rightarrow> len_bytes 0 (length payload) @ payload
      | Some k \<Rightarrow> len_bytes 0x80 (length payload) @ k @ mask_bytes k payload)"

definition key_fits :: "bytes option \<Rightarrow> bool" where
  "key_fits key \<longleftrightarrow> (case key of None \<Rightarrow> True | Some k \<Rightarrow> length k = 4)"

lemma length_mask_bytes [simp]: "length (mask_bytes k p) = length p"
  by (simp add: mask_bytes_def)

lemma mask_bytes_twice [simp]: "mask_bytes k (mask_bytes k p) = p"
  by (rule nth_equalityI) (simp_all add: mask_bytes_def nth_enumerate_eq xor.assoc)

lemma ws_ReadFull_bytes: "length bs = n \<Longrightarrow> ws_ReadFull n cx (map Byte bs @ es) = (Inr bs, cx, es)"
  by (induction bs arbitrary: n) auto

lemma read_bytes_bytes: "length bs = n \<Longrightarrow> read_bytes err n cx (map Byte bs @ es) = (Inr bs, cx, es)"
  by (simp add: read_bytes_def ws_ReadFull_bytes)

lemma low7:
  assumes "n < 128"
  shows "(of_nat n :: byte) AND 0x7F = of_nat n" "unat (of_nat n :: byte) = n"
proof -
  show u: "unat (of_nat n :: byte) = n" using assms by (simp add: unat_of_nat)
  have m: "(0x7F :: byte) = mask 7" by (simp add: mask_eq_exp_minus_1)
  have "bit (of_nat n :: byte) i \<Longrightarrow> i < 7" for i
    using bit_byte_small [of "of_nat n" 7 i] u assms by (cases "7 \<le> i") simp_all
  then show "(of_nat n :: byte) AND 0x7F = of_nat n"
    unfolding m by (intro bit_eqI) (auto simp: bit_and_iff bit_mask_iff)
qed

lemma len_byte:
  assumes "n < 128" "m = 0 \<or> m = 0x80"
  shows "unat ((m OR of_nat n :: byte) AND 0x7F) = n" "((m OR of_nat n :: byte) AND 0x80 \<noteq> 0) = (m = 0x80)"
proof -
  let ?w = "of_nat n :: byte"
  have "(m OR ?w) AND 0x7F = (m AND 0x7F) OR ?w"
    using low7(1) [OF assms(1)] by (metis word_ao_dist)
  also have "\<dots> = ?w" using assms(2) by auto
  finally show "unat ((m OR ?w) AND 0x7F) = n" using low7(2) [OF assms(1)] by simp
  have "?w AND 0x80 = ?w AND (0x7F AND 0x80)"
    using low7(1) [OF assms(1)] by (metis and.assoc)
  then have z: "?w AND 0x80 = 0" by simp
  have "(m OR ?w) AND 0x80 = m AND 0x80"
    unfolding word_ao_dist z by simp
  then show "((m OR ?w) AND 0x80 \<noteq> 0) = (m = 0x80)" using assms(2) by auto
qed

lemma bytes_of_nat:
  assumes "n < (2 ^ 32 :: nat)"
  shows "n div 2 ^ 24 mod 256 * 2 ^ 24 + n div 2 ^ 16 mod 256 * 2 ^ 16 + n div 256 mod 256 * 256 + n mod 256 = n"
proof -
  define a where "a = n div 256"
  define b where "b = a div 256"
  define q where "q = b div 256"
  have e: "n div 2 ^ 16 = b" "n div 2 ^ 24 = q"
    by (simp_all add: a_def b_def q_def flip: div_mult2_eq)
  have q: "q mod 256 = q"
    using assms unfolding e(2) [symmetric] by simp
  have n: "n = a * 256 + n mod 256" unfolding a_def by (simp add: div_mult_mod_eq)
  have "a = b * 256 + a mod 256" unfolding b_def by (simp add: div_mult_mod_eq)
  moreover have "b = q * 256 + b mod 256" unfolding q_def by (simp add: div_mult_mod_eq)
  moreover have "n = (a * 256 + n mod 256)" by (rule n)
  ultimately have "n = ((q * 256 + b mod 256) * 256 + a mod 256) * 256 + n mod 256" by presburger
  then show ?thesis
    unfolding e q a_def [symmetric] by (simp add: algebra_simps)
qed

lemma ext_values:
  "n < 65536 \<Longrightarrow> ext16 [of_nat (n div 256), of_nat n] = n"
  "n < 2 ^ 32 \<Longrightarrow> ext64 [a, b, c, d, of_nat (n div 2 ^ 24), of_nat (n div 2 ^ 16), of_nat (n div 256), of_nat n] = n"
proof -
  have u: "unat (of_nat k :: byte) = k mod 256" for k by (simp add: unat_of_nat)
  show "n < 65536 \<Longrightarrow> ext16 [of_nat (n div 256), of_nat n] = n"
    by (simp add: ext16_def u)
  show "n < 2 ^ 32 \<Longrightarrow> ext64 [a, b, c, d, of_nat (n div 2 ^ 24), of_nat (n div 2 ^ 16), of_nat (n div 256), of_nat n] = n"
    using bytes_of_nat [of n] by (simp add: ext64_def u)
qed

lemma read_length_len_bytes:
  assumes "n < 2 ^ 32" "m = 0 \<or> m = 0x80"
  shows "\<exists>h ext. len_bytes m n = h # ext \<and> (\<forall>cx es. read_length h cx (map Byte ext @ es) = (Inr n, cx, es)) \<and> (h AND 0x80 \<noteq> 0) = (m = 0x80)"
proof -
  consider "n < 126" | "126 \<le> n" "n < 65536" | "65536 \<le> n" by linarith
  then show ?thesis
  proof cases
    case 1
    then show ?thesis using len_byte [of n m] assms(2) by (simp add: len_bytes_def read_length_def)
  next
    case 2
    then show ?thesis
      using len_byte [of 126 m] assms(2) read_bytes_bytes [of "[of_nat (n div 256), of_nat n]" 2 WsLength16] ext_values(1) [of n]
      by (simp add: len_bytes_def read_length_def rd_bind_def)
  next
    case 3
    then show ?thesis
      using len_byte [of 127 m] assms(2) read_bytes_bytes [of "[0, 0, 0, 0, of_nat (n div 2 ^ 24), of_nat (n div 2 ^ 16), of_nat (n div 256), of_nat n]" 8 WsLength64]
        ext_values(2) [OF assms(1), of 0 0 0 0]
      by (simp add: len_bytes_def read_length_def rd_bind_def)
  qed
qed

lemma first_byte:
  assumes "opcode AND 0x0F = (opcode :: byte)"
  shows "(((if fin then 0x80 else 0) OR opcode) AND 0x80 \<noteq> 0) = fin" "((if fin then 0x80 else 0) OR opcode) AND 0x0F = opcode"
proof -
  have "opcode AND 0x80 = opcode AND (0x0F AND 0x80)" using assms by (metis and.assoc)
  then have "opcode AND 0x80 = 0" by simp
  then show "(((if fin then 0x80 else 0) OR opcode) AND 0x80 \<noteq> 0) = fin" by (simp add: word_ao_dist)
  show "((if fin then 0x80 else 0) OR opcode) AND 0x0F = opcode" using assms by (simp add: word_ao_dist)
qed

lemma read_frame_enc:
  assumes "opcode AND 0x0F = opcode" "key_fits key" "length payload < 2 ^ 32"
  shows "read_frame cx (map Byte (enc_frame fin opcode key payload) @ es) = (Inr (fin, opcode, payload), cx, es)"
proof -
  define m :: byte where "m = (if key = None then 0 else 0x80)"
  define body where "body = (case key of None \<Rightarrow> payload | Some k \<Rightarrow> mask_bytes k payload)"
  define kb where "kb = (case key of None \<Rightarrow> [] | Some k \<Rightarrow> k)"
  have "m = 0 \<or> m = 0x80" by (simp add: m_def)
  then obtain h ext where h: "len_bytes m (length payload) = h # ext" "(h AND 0x80 \<noteq> 0) = (m = 0x80)"
    "\<And>cx es. read_length h cx (map Byte ext @ es) = (Inr (length payload), cx, es)"
    using read_length_len_bytes [OF assms(3), of m] by blast
  let ?b = "(if fin then 0x80 else 0) OR opcode"
  have enc: "map Byte (enc_frame fin opcode key payload) @ es = map Byte [?b, h] @ map Byte ext @ map Byte kb @ map Byte body @ es"
    using h(1) by (cases key) (simp_all add: enc_frame_def m_def kb_def body_def)
  have k: "read_key h cx (map Byte kb @ map Byte body @ es) = (Inr key, cx, map Byte body @ es)"
    using h(2) assms(2) by (cases key) (simp_all add: read_key_def m_def kb_def key_fits_def read_bytes_bytes rd_bind_def)
  have p: "read_bytes WsPayload (length payload) cx (map Byte body @ es) = (Inr body, cx, es)"
    by (rule read_bytes_bytes) (cases key; simp add: body_def)
  have "read_frame cx (map Byte (enc_frame fin opcode key payload) @ es) =
      (Inr (?b AND 0x80 \<noteq> 0, ?b AND 0x0F, case key of None \<Rightarrow> body | Some k \<Rightarrow> mask_bytes k body), cx, es)"
    unfolding read_frame_def enc read_bytes_bytes [of "[?b, h]" 2, simplified] by (simp add: rd_bind_def h(3) k p read_bytes_bytes [of "[?b, h]" 2, simplified])
  then show ?thesis
    using first_byte [OF assms(1), of fin] by (cases key) (simp_all add: body_def)
qed

subsection \<open>Messages\<close>

text \<open>What a peer may send between the fragments of a message: nothing for a while, control frames and empty messages.\<close>

datatype noise = Quiet | Ping "bytes option" bytes | Pong "bytes option" bytes | Blank "bytes option"

definition enc_noise :: "noise \<Rightarrow> net_event list" where
  "enc_noise x =
     (case x of
        Quiet \<Rightarrow> [Idle]
      | Ping k p \<Rightarrow> map Byte (enc_frame True 0x9 k p)
      | Pong k p \<Rightarrow> map Byte (enc_frame True 0xA k p)
      | Blank k \<Rightarrow> map Byte (enc_frame True 0x1 k []))"

definition noise_ok :: "noise \<Rightarrow> bool" where
  "noise_ok x =
     (case x of
        Quiet \<Rightarrow> True
      | Ping k p \<Rightarrow> key_fits k \<and> length p < 2 ^ 32
      | Pong k p \<Rightarrow> key_fits k \<and> length p < 2 ^ 32
      | Blank k \<Rightarrow> key_fits k)"

definition answer :: "(nat \<Rightarrow> bytes) \<Rightarrow> 'w write_fn \<Rightarrow> noise \<Rightarrow> 'w wsConn \<Rightarrow> 'w wsConn" where
  "answer rnd write x c = (case x of Ping k p \<Rightarrow> snd (sendFrame rnd write 0xA p c) | _ \<Rightarrow> c)"

type_synonym piece = "noise list \<times> bytes option \<times> bytes"

text \<open>A message in pieces: the first has the opcode, the others zero, the last the FIN bit; noise before each of them.\<close>

fun enc_message :: "byte \<Rightarrow> piece list \<Rightarrow> net_event list" where
  "enc_message opcode [] = []"
| "enc_message opcode ((ns, k, p) # ps) =
     concat (map enc_noise ns) @ map Byte (enc_frame (ps = []) opcode k p) @ enc_message 0 ps"

definition piece_ok :: "piece \<Rightarrow> bool" where
  "piece_ok x = (case x of (ns, k, p) \<Rightarrow> list_all noise_ok ns \<and> key_fits k \<and> length p < 2 ^ 32)"

definition message_of :: "piece list \<Rightarrow> bytes" where
  "message_of ps = concat (map (\<lambda>(_, _, p). p) ps)"

definition noise_of :: "piece list \<Rightarrow> noise list" where
  "noise_of ps = concat (map fst ps)"

lemma sendFrame_keeps [simp]:
  "ws_in (snd (sendFrame rnd write opc p c)) = ws_in c" "ws_ctx (snd (sendFrame rnd write opc p c)) = ws_ctx c"
  "snd (sendFrame rnd write opc p (c\<lparr>ws_in := es\<rparr>)) = (snd (sendFrame rnd write opc p c))\<lparr>ws_in := es\<rparr>"
  by (simp_all add: sendFrame_def Let_def split: prod.splits option.splits)

lemma answer_keeps [simp]:
  "ws_in (answer rnd write x c) = ws_in c" "ws_ctx (answer rnd write x c) = ws_ctx c" "answer rnd write x (c\<lparr>ws_in := es\<rparr>) = (answer rnd write x c)\<lparr>ws_in := es\<rparr>"
  by (cases x; simp add: answer_def)+

lemma opcodes: "(0x9 :: byte) AND 0x0F = 0x9" "(0xA :: byte) AND 0x0F = 0xA" "(0x1 :: byte) AND 0x0F = 0x1" "(0x2 :: byte) AND 0x0F = 0x2" "(0 :: byte) AND 0x0F = 0"
  by simp_all

lemma ctx_same: "\<not> ws_ctx c \<Longrightarrow> c\<lparr>ws_ctx := False\<rparr> = c"
  by (cases c) simp

lemma readMessage_frame:
  assumes "\<not> ws_ctx c" "opcode AND 0x0F = opcode" "key_fits k" "length p < 2 ^ 32"
  shows "readMessage rnd write msg (c\<lparr>ws_in := map Byte (enc_frame fin opcode k p) @ es\<rparr>) =
    (let c1 = c\<lparr>ws_in := es\<rparr> in
     if opcode = 0x0 then
       (if fin then (if msg @ p = [] then readMessage rnd write [] c1 else (Inr (msg @ p), c1)) else readMessage rnd write (msg @ p) c1)
     else if opcode = 0x1 \<or> opcode = 0x2 then
       (if fin then (if p = [] then readMessage rnd write msg c1 else (Inr p, c1)) else readMessage rnd write p c1)
     else if opcode = 0x8 then (Inl WsServerClosed, c1)
     else if opcode = 0x9 then readMessage rnd write msg (snd (sendFrame rnd write 0xA p c1))
     else readMessage rnd write msg c1)"
  using read_frame_enc [OF assms(2-4), of False fin es] assms(1)
  by (subst readMessage.simps) (simp add: Let_def ctx_same)

lemma readMessage_noise:
  assumes "\<not> ws_ctx c" "noise_ok x"
  shows "readMessage rnd write msg (c\<lparr>ws_in := enc_noise x @ es\<rparr>) = readMessage rnd write msg ((answer rnd write x c)\<lparr>ws_in := es\<rparr>)"
proof (cases x)
  case Quiet
  have "read_frame False (Idle # es) = (Inl (WsHeader FTimeout), False, es)"
    by (simp add: read_frame_def rd_bind_def read_bytes_def numeral_2_eq_2)
  then show ?thesis
    using assms(1) by (subst readMessage.simps) (simp add: Quiet enc_noise_def answer_def ctx_same)
qed (use assms readMessage_frame [of c] opcodes in \<open>simp_all add: enc_noise_def answer_def noise_ok_def Let_def\<close>)

lemma readMessage_noises:
  "\<not> ws_ctx c \<Longrightarrow> list_all noise_ok ns \<Longrightarrow>
   readMessage rnd write msg (c\<lparr>ws_in := concat (map enc_noise ns) @ es\<rparr>) = readMessage rnd write msg ((fold (answer rnd write) ns c)\<lparr>ws_in := es\<rparr>)"
proof (induction ns arbitrary: c)
  case (Cons x ns)
  then show ?case using readMessage_noise [of c x] by simp
qed simp

lemma fold_answer_ctx [simp]: "ws_ctx (fold (answer rnd write) ns c) = ws_ctx c"
  by (induction ns arbitrary: c) simp_all

lemma readMessage_rest:
  "\<not> ws_ctx c \<Longrightarrow> list_all piece_ok ps \<Longrightarrow> ps \<noteq> [] \<Longrightarrow> msg @ message_of ps \<noteq> [] \<Longrightarrow>
   readMessage rnd write msg (c\<lparr>ws_in := enc_message 0 ps @ es\<rparr>) =
   (Inr (msg @ message_of ps), (fold (answer rnd write) (noise_of ps) c)\<lparr>ws_in := es\<rparr>)"
proof (induction ps arbitrary: c msg)
  case (Cons x ps)
  obtain ns k p where x: "x = (ns, k, p)" by (cases x)
  have ok: "list_all noise_ok ns" "key_fits k" "length p < 2 ^ 32"
    using Cons.prems(2) by (simp_all add: x piece_ok_def)
  show ?case
    using Cons.prems Cons.IH [of "fold (answer rnd write) ns c" "msg @ p"] readMessage_noises [of c ns] ok
      readMessage_frame [of "fold (answer rnd write) ns c" 0 k p] opcodes
    by (cases "ps = []") (auto simp: x message_of_def noise_of_def Let_def)
qed simp

lemma readMessage_message:
  assumes "\<not> ws_ctx c" "list_all piece_ok ps" "message_of ps \<noteq> []" "opcode = 0x1 \<or> opcode = 0x2" "ws_in c = enc_message opcode ps @ es"
  shows "readMessage rnd write [] c = (Inr (message_of ps), (fold (answer rnd write) (noise_of ps) c)\<lparr>ws_in := es\<rparr>)"
proof -
  obtain ns k p qs where ps: "ps = (ns, k, p) # qs" using assms(3) by (cases ps) (auto simp: message_of_def)
  have ok: "list_all noise_ok ns" "key_fits k" "length p < 2 ^ 32" "list_all piece_ok qs"
    using assms(2) by (simp_all add: ps piece_ok_def)
  let ?c = "fold (answer rnd write) ns c" and ?r = "map Byte (enc_frame (qs = []) opcode k p) @ enc_message 0 qs @ es"
  have "c = c\<lparr>ws_in := concat (map enc_noise ns) @ ?r\<rparr>"
    using assms(5) by (cases c) (simp add: ps)
  then have "readMessage rnd write [] c = readMessage rnd write [] (?c\<lparr>ws_in := ?r\<rparr>)"
    using readMessage_noises [OF assms(1) ok(1)] by metis
  also have "\<dots> = (if qs = [] then (Inr p, ?c\<lparr>ws_in := es\<rparr>) else readMessage rnd write p (?c\<lparr>ws_in := enc_message 0 qs @ es\<rparr>))"
    using readMessage_frame [of ?c opcode k p] assms(1,3,4) ok opcodes by (auto simp: Let_def ps message_of_def)
  also have "\<dots> = (Inr (message_of ps), (fold (answer rnd write) (noise_of ps) c)\<lparr>ws_in := es\<rparr>)"
    using readMessage_rest [of ?c qs p] assms(1,3) ok(4) by (auto simp: ps message_of_def noise_of_def)
  finally show ?thesis .
qed

text \<open>C21 (WebSocket messages).  A message that the peer sends in any number of fragments, masked or not, with pings, pongs, empty messages
  and pauses before each fragment, is returned by \<open>readMessage\<close> as it was sent, unless the context is cancelled: every ping is answered with a pong
  that carries its payload, in order, whatever happens to the writes, and the bytes after the message are left for the next call.
  And what \<open>sendFrame\<close> writes on either side is one such frame: the other side's reader returns its payload and opcode.\<close>

theorem websocket_messages:
  assumes "\<not> ws_ctx c" "list_all piece_ok ps" "message_of ps \<noteq> []" "opcode = 0x1 \<or> opcode = 0x2" "ws_in c = enc_message opcode ps @ es"
    and "length payload < 2 ^ 32" "length (rnd (ws_keys s)) = 4" "opc AND 0x0F = opc"
  shows "readMessage rnd wr [] c = (Inr (message_of ps), (fold (answer rnd wr) (noise_of ps) c)\<lparr>ws_in := es\<rparr>) \<and>
    (\<exists>frame. sendFrame rnd stream_write opc payload s = (None, s\<lparr>ws_keys := ws_keys s + 1, ws_out := ws_out s @ frame\<rparr>) \<and>
       wsReadFrame (map Byte frame @ es) = (Inr (payload, opc), es)) \<and>
    (\<exists>frame. wsSendFrame stream_write opc payload w = (None, w @ frame) \<and> read_frame False (map Byte frame @ es) = (Inr (True, opc, payload), False, es))"
proof (intro conjI)
  show "readMessage rnd wr [] c = (Inr (message_of ps), (fold (answer rnd wr) (noise_of ps) c)\<lparr>ws_in := es\<rparr>)"
    by (rule readMessage_message) (use assms in simp_all)
  have rd: "read_frame False (map Byte (enc_frame True opc key payload) @ es) = (Inr (True, opc, payload), False, es)" if "key_fits key" for key
    by (rule read_frame_enc) (use assms that in simp_all)
  show "\<exists>frame. sendFrame rnd stream_write opc payload s = (None, s\<lparr>ws_keys := ws_keys s + 1, ws_out := ws_out s @ frame\<rparr>) \<and>
      wsReadFrame (map Byte frame @ es) = (Inr (payload, opc), es)"
    using rd [of "Some (rnd (ws_keys s))"] assms(7)
    by (auto simp: sendFrame_def wsReadFrame_def Let_def stream_write_def enc_frame_def key_fits_def)
  show "\<exists>frame. wsSendFrame stream_write opc payload w = (None, w @ frame) \<and> read_frame False (map Byte frame @ es) = (Inr (True, opc, payload), False, es)"
    using rd [of None] by (auto simp: wsSendFrame_def stream_write_def enc_frame_def key_fits_def)
qed

definition sample_key :: bytes where "sample_key = [1, 2, 3, 4]"

definition sample_pieces :: "piece list" where
  "sample_pieces = [([Quiet], None, [104, 101]), ([Ping None [7], Quiet], Some sample_key, [108]), ([Pong None [], Blank None], None, [111])]"

definition sample_conn :: "bytes wsConn" where
  "sample_conn = \<lparr>ws_in = enc_message 0x1 sample_pieces @ [Idle], ws_ctx = False, ws_out = [], ws_keys = 0\<rparr>"

theorem websocket_messages_witness:
  "readMessage (\<lambda>_. sample_key) stream_write [] sample_conn =
     (Inr [104, 101, 108, 111], \<lparr>ws_in = [Idle], ws_ctx = False, ws_out = [0x8A, 0x81, 1, 2, 3, 4, 6], ws_keys = 1\<rparr>) \<and>
   (\<exists>frame. sendFrame (\<lambda>_. sample_key) stream_write 0x1 [5, 6] sample_conn =
      (None, sample_conn\<lparr>ws_keys := ws_keys sample_conn + 1, ws_out := ws_out sample_conn @ frame\<rparr>) \<and>
      wsReadFrame (map Byte frame @ [Idle]) = (Inr ([5, 6], 0x1), [Idle]))"
proof -
  have ok: "list_all piece_ok sample_pieces" "message_of sample_pieces = [104, 101, 108, 111]"
    by (simp_all add: sample_pieces_def piece_ok_def noise_ok_def key_fits_def sample_key_def message_of_def)
  have final: "(fold (answer (\<lambda>_. sample_key) stream_write) (noise_of sample_pieces) sample_conn)\<lparr>ws_in := [Idle]\<rparr> =
      \<lparr>ws_in = [Idle], ws_ctx = False, ws_out = [0x8A, 0x81, 1, 2, 3, 4, 6], ws_keys = 1\<rparr>"
    by (simp add: noise_of_def sample_pieces_def answer_def sample_conn_def sendFrame_def Let_def stream_write_def len_bytes_def sample_key_def mask_bytes_def)
  show ?thesis
    using websocket_messages [where c = sample_conn and ps = sample_pieces and opcode = "0x1" and es = "[Idle]" and payload = "[5, 6]"
      and rnd = "\<lambda>_. sample_key" and s = sample_conn and opc = "0x1" and wr = stream_write and w = "[]"] ok
    unfolding final by (simp add: sample_conn_def sample_key_def)
qed

text \<open>The read deadline is set once per frame, and its expiry while the reader waits for a header is taken for an idle connection.  When it expires
  after the first byte of the header, that byte is lost: the same message, one byte of it late, is not received, and the bytes that follow are read
  as if they were a header.\<close>

lemma header_timeout_loses_byte:
  "fst (readMessage rnd write [] (sample_conn\<lparr>ws_in := map Byte [0x81, 2, 104, 105]\<rparr>)) = Inr [104, 105]"
  "fst (readMessage rnd write [] (sample_conn\<lparr>ws_in := Byte 0x81 # Idle # map Byte [2, 104, 105]\<rparr>)) = Inl (WsPayload FClosed)"
proof -
  have rf: "read_frame False (map Byte [0x81, 2, 104, 105]) = (Inr (True, 0x1, [104, 105]), False, [])"
    "read_frame False (Byte 0x81 # Idle # map Byte [2, 104, 105]) = (Inl (WsHeader FTimeout), False, map Byte [2, 104, 105])"
    "read_frame False (map Byte [2, 104, 105]) = (Inl (WsPayload FClosed), False, [])"
    by code_simp+
  show "fst (readMessage rnd write [] (sample_conn\<lparr>ws_in := map Byte [0x81, 2, 104, 105]\<rparr>)) = Inr [104, 105]"
    using rf(1) by (subst readMessage.simps) (simp add: sample_conn_def)
  show "fst (readMessage rnd write [] (sample_conn\<lparr>ws_in := Byte 0x81 # Idle # map Byte [2, 104, 105]\<rparr>)) = Inl (WsPayload FClosed)"
    using rf(2,3) by (subst readMessage.simps, simp add: sample_conn_def) (subst readMessage.simps, simp)
qed

text \<open>Of a 64-bit length only the lower half is used: a frame that announces \<open>2 ^ 32 + 2\<close> bytes is taken to have two.\<close>

lemma long_length_truncated:
  "read_frame False (map Byte [0x82, 127, 0, 0, 0, 1, 0, 0, 0, 2, 5, 6] @ es) = (Inr (True, 0x2, [5, 6]), False, es)"
proof -
  note steps = read_bytes_bytes [of "[0x82, 127]" 2 WsHeader False, simplified] read_bytes_bytes [of "[0, 0, 0, 1, 0, 0, 0, 2]" 8 WsLength64 False, simplified]
    read_bytes_bytes [of "[5, 6]" "Suc (Suc 0)" WsPayload False, simplified]
  show ?thesis
    by (simp add: read_frame_def rd_bind_def read_length_def read_key_def ext64_def steps)
qed

end
