(* ===== verification/Relay_Server.thy ===== *)
theory Relay_Server
  imports Web_Socket Go_Json Auth_Exchange "HOL-Library.AList"
begin

section \<open>cmd/relay-server\<close>

text \<open>
  The in-memory relay server: the store of agents and sessions, the HTTP handlers and the WebSocket handler with its reader loop and its
  writer goroutine.

  A Go map is an association list here; \<^verbatim>\<open>for range\<close> over a map visits its entries in an unspecified order, for which the order of the
  list stands.  A buffered channel is the list of the messages in it.  The identifiers that \<open>newID\<close> draws are arguments.  What \<^verbatim>\<open>net/http\<close>
  hands to the handlers is the record \<open>request\<close>; the answer is the record \<open>response\<close>.  A WebSocket handler runs for as long as its
  connection: \<open>handleWS\<close> is its start, and \<open>serve_read\<close>, \<open>serve_write\<close> and \<open>serve_finish\<close> are one round of its reader loop, one round of its
  writer goroutine, and its end.
\<close>

subsection \<open>Identifiers\<close>

text \<open>\<open>%x\<close> of a byte slice is its hexadecimal text; the widths of the format are those of the slices.\<close>

definition uuid_bits :: "bytes \<Rightarrow> bytes" where
  "uuid_bits b = b[6 := (b ! 6 AND 0x0f) OR 0x40, 8 := (b ! 8 AND 0x3f) OR 0x80]"

definition newID :: "bytes \<Rightarrow> string" where
  "newID b =
     (let u = uuid_bits b in
      hex_EncodeToString (slice u 0 4) @ ''-'' @ hex_EncodeToString (slice u 4 6) @ ''-'' @ hex_EncodeToString (slice u 6 8) @ ''-'' @
      hex_EncodeToString (slice u 8 10) @ ''-'' @ hex_EncodeToString (slice u 10 16))"

subsection \<open>crypto/sha1 and base64.StdEncoding.EncodeToString\<close>

definition rotl :: "nat \<Rightarrow> u32 \<Rightarrow> u32" where "rotl n w = rotr (32 - n) w"

fun sha1_words :: "nat \<Rightarrow> u32 list \<Rightarrow> u32 list" where
  "sha1_words 0 ws = ws"
| "sha1_words (Suc n) ws =
     (let t = length ws in sha1_words n (ws @ [rotl 1 (ws ! (t - 3) XOR ws ! (t - 8) XOR ws ! (t - 14) XOR ws ! (t - 16))]))"

definition sha1_f :: "nat \<Rightarrow> u32 \<Rightarrow> u32 \<Rightarrow> u32 \<Rightarrow> u32" where
  "sha1_f t b c d =
     (if t < 20 then (b AND c) OR (NOT b AND d)
      else if t < 40 then b XOR c XOR d
      else if t < 60 then (b AND c) OR (b AND d) OR (c AND d)
      else b XOR c XOR d)"

definition sha1_k :: "nat \<Rightarrow> u32" where
  "sha1_k t = (if t < 20 then 0x5A827999 else if t < 40 then 0x6ED9EBA1 else if t < 60 then 0x8F1BBCDC else 0xCA62C1D6)"

type_synonym sha1_state = "u32 \<times> u32 \<times> u32 \<times> u32 \<times> u32"

definition sha1_round :: "nat \<times> u32 \<Rightarrow> sha1_state \<Rightarrow> sha1_state" where
  "sha1_round tw st =
     (case tw of (t, w) \<Rightarrow> case st of (a, b, c, d, e) \<Rightarrow> (rotl 5 a + sha1_f t b c d + e + w + sha1_k t, a, rotl 30 b, c, d))"

definition sha1_block :: "bytes \<Rightarrow> sha1_state \<Rightarrow> sha1_state" where
  "sha1_block blk st =
     (case fold sha1_round (enumerate 0 (sha1_words 64 (be_words blk))) st of
        (a, b, c, d, e) \<Rightarrow> case st of (a0, b0, c0, d0, e0) \<Rightarrow> (a0 + a, b0 + b, c0 + c, d0 + d, e0 + e))"

function blocks_of :: "bytes \<Rightarrow> bytes list" where
  "blocks_of bs = (if bs = [] then [] else take 64 bs # blocks_of (drop 64 bs))"
  by pat_completeness auto
termination by (relation "measure length") auto

declare blocks_of.simps [simp del]

definition sha1 :: "bytes \<Rightarrow> bytes" where
  "sha1 m =
     (case fold sha1_block (blocks_of (sha256_pad m)) (0x67452301, 0xEFCDAB89, 0x98BADCFE, 0x10325476, 0xC3D2E1F0) of
        (a, b, c, d, e) \<Rightarrow> be32 a @ be32 b @ be32 c @ be32 d @ be32 e)"

definition b64_digit :: "nat \<Rightarrow> char" where
  "b64_digit n =
     (if n < 26 then char_of (65 + n) else if n < 52 then char_of (71 + n) else if n < 62 then char_of (n - 4)
      else if n = 62 then CHR ''+'' else CHR ''/'')"

fun b64_encode :: "bytes \<Rightarrow> string" where
  "b64_encode (a # b # c # r) =
     [b64_digit (unat a div 4), b64_digit (unat a mod 4 * 16 + unat b div 16), b64_digit (unat b mod 16 * 4 + unat c div 64),
      b64_digit (unat c mod 64)] @ b64_encode r"
| "b64_encode [a, b] = [b64_digit (unat a div 4), b64_digit (unat a mod 4 * 16 + unat b div 16), b64_digit (unat b mod 16 * 4), CHR ''='']"
| "b64_encode [a] = [b64_digit (unat a div 4), b64_digit (unat a mod 4 * 16), CHR ''='', CHR ''='']"
| "b64_encode [] = []"

definition wsAcceptKey :: "string \<Rightarrow> string" where
  "wsAcceptKey key = b64_encode (sha1 (bytes_of_string (key @ ''258EAFA5-E914-47DA-95CA-C5AB0DC85B11'')))"

subsection \<open>The store\<close>

record agentRecord =
  ar_Token :: string
  ar_AgentID :: string
  ar_Hostname :: string
  ar_Status :: string
  ar_AssignedIP :: string
  ar_ConnID :: string

record sessionRecord =
  sr_SessionID :: string
  sr_Token :: string
  sr_AgentID :: string
  sr_State :: string

record store =
  st_agents :: "(string \<times> agentRecord) list"
  st_sessions :: "(string \<times> sessionRecord) list"
  st_conns :: "(string \<times> bytes list) list"

definition newStore :: store where
  "newStore = \<lparr>st_agents = [], st_sessions = [], st_conns = []\<rparr>"

definition chan_capacity :: nat where "chan_capacity = 16"

definition registerAgent :: "string \<Rightarrow> string \<Rightarrow> string \<Rightarrow> string \<Rightarrow> store \<Rightarrow> store" where
  "registerAgent token agentID hostname connID s =
     s\<lparr>st_agents := AList.update agentID
          \<lparr>ar_Token = token, ar_AgentID = agentID, ar_Hostname = hostname, ar_Status = ''standby'', ar_AssignedIP = [], ar_ConnID = connID\<rparr> (st_agents s),
       st_conns := AList.update connID [] (st_conns s)\<rparr>"

definition gone :: "string \<Rightarrow> agentRecord \<Rightarrow> agentRecord" where
  "gone connID a = (if ar_ConnID a = connID then a\<lparr>ar_Status := ''offline'', ar_ConnID := []\<rparr> else a)"

definition unregisterConn :: "string \<Rightarrow> store \<Rightarrow> store" where
  "unregisterConn connID s =
     s\<lparr>st_agents := map (\<lambda>(k, a). (k, gone connID a)) (st_agents s), st_conns := AList.delete connID (st_conns s)\<rparr>"

definition listAgents :: "string \<Rightarrow> store \<Rightarrow> agentRecord list" where
  "listAgents token s = filter (\<lambda>a. ar_Token a = token \<and> ar_Status a \<noteq> ''offline'') (map snd (st_agents s))"

definition getAgent :: "string \<Rightarrow> store \<Rightarrow> agentRecord option" where
  "getAgent agentID s = map_of (st_agents s) agentID"

definition setAgentStatus :: "string \<Rightarrow> string \<Rightarrow> string \<Rightarrow> store \<Rightarrow> store" where
  "setAgentStatus agentID status assignedIP s =
     (case map_of (st_agents s) agentID of
        None \<Rightarrow> s
      | Some a \<Rightarrow>
          s\<lparr>st_agents := AList.update agentID
               (a\<lparr>ar_Status := status, ar_AssignedIP := if assignedIP \<noteq> [] then assignedIP else ar_AssignedIP a\<rparr>) (st_agents s)\<rparr>)"

definition createSession :: "string \<Rightarrow> string \<Rightarrow> string \<Rightarrow> store \<Rightarrow> store" where
  "createSession sid token agentID s =
     s\<lparr>st_sessions := AList.update sid \<lparr>sr_SessionID = sid, sr_Token = token, sr_AgentID = agentID, sr_State = ''initiated''\<rparr> (st_sessions s)\<rparr>"

definition getSession :: "string \<Rightarrow> store \<Rightarrow> sessionRecord option" where
  "getSession sid s = map_of (st_sessions s) sid"

definition connChan :: "string \<Rightarrow> store \<Rightarrow> bytes list option" where
  "connChan connID s = map_of (st_conns s) connID"

definition pushToAgent :: "string \<Rightarrow> bytes \<Rightarrow> store \<Rightarrow> bool \<times> store" where
  "pushToAgent agentID msg s =
     (case map_of (st_agents s) agentID of
        None \<Rightarrow> (False, s)
      | Some a \<Rightarrow>
          if ar_ConnID a = [] then (False, s)
          else case map_of (st_conns s) (ar_ConnID a) of
            None \<Rightarrow> (False, s)
          | Some ch \<Rightarrow>
              if length ch < chan_capacity then (True, s\<lparr>st_conns := AList.update (ar_ConnID a) (ch @ [msg]) (st_conns s)\<rparr>)
              else (False, s))"

definition hasActiveSession :: "string \<Rightarrow> store \<Rightarrow> bool" where
  "hasActiveSession agentID s =
     list_ex (\<lambda>(_, sess). sr_AgentID sess = agentID \<and> (sr_State sess = ''initiated'' \<or> sr_State sess = ''phase2'')) (st_sessions s)"

subsection \<open>HTTP handlers\<close>

record request =
  rq_Method :: string
  rq_Path :: string
  rq_Query :: "string \<Rightarrow> string"
  rq_Key :: string
  rq_Body :: string

record response =
  rp_Status :: nat
  rp_Type :: string
  rp_Body :: string

definition http_Error :: "string \<Rightarrow> nat \<Rightarrow> response" where
  "http_Error msg status = \<lparr>rp_Status = status, rp_Type = ''text/plain; charset=utf-8'', rp_Body = msg @ [CHR 0x0A]\<rparr>"

definition http_NotFound :: response where "http_NotFound = http_Error ''404 page not found'' 404"

definition http_JSON :: "json \<Rightarrow> response" where
  "http_JSON v = \<lparr>rp_Status = 200, rp_Type = ''application/json'', rp_Body = Marshal v @ [CHR 0x0A]\<rparr>"

definition http_OK :: response where "http_OK = \<lparr>rp_Status = 200, rp_Type = [], rp_Body = []\<rparr>"

text \<open>The struct \<open>agentJSON\<close>: its fields in their order, the last one left out when it is empty.\<close>

definition agentJSON :: "agentRecord \<Rightarrow> json" where
  "agentJSON a =
     JObj ([(''agent_id'', JStr (ar_AgentID a)), (''hostname'', JStr (ar_Hostname a)), (''status'', JStr (ar_Status a))] @
           (if ar_AssignedIP a = [] then [] else [(''assigned_ip'', JStr (ar_AssignedIP a))]))"

definition handleListAgents :: "request \<Rightarrow> store \<Rightarrow> response" where
  "handleListAgents r s = http_JSON (JArr (map agentJSON (listAgents (rq_Query r ''token'') s)))"

definition handleConnect :: "string \<Rightarrow> request \<Rightarrow> store \<Rightarrow> response \<times> store" where
  "handleConnect sid r s =
     (case Decode [(''token'', KString), (''agent_id'', KString)] (rq_Body r) of
        None \<Rightarrow> (http_Error ''bad json'' 400, s)
      | Some body \<Rightarrow>
          (case getAgent (string_field body ''agent_id'') s of
             None \<Rightarrow> (http_Error ''agent not found'' 404, s)
           | Some a \<Rightarrow>
               if ar_Status a = ''offline'' then (http_Error ''agent offline'' 409, s)
               else if hasActiveSession (string_field body ''agent_id'') s then (http_Error ''agent has active session'' 409, s)
               else (http_JSON (json_map [(''session_id'', JStr sid)]), createSession sid (string_field body ''token'') (string_field body ''agent_id'') s)))"

definition execute_kinds :: "(string \<times> field_kind) list" where
  "execute_kinds = [(''ovpn_config'', KString), (''state_id'', KString), (''saml_response'', KString), (''remote_ip'', KString)]"

definition phase2_push :: "string \<Rightarrow> struct \<Rightarrow> json" where
  "phase2_push sessionID body =
     json_map [(''action'', JStr ''phase2''), (''session_id'', JStr sessionID),
       (''payload'', json_map [(''state_id'', JStr (string_field body ''state_id'')), (''saml_response'', JStr (string_field body ''saml_response'')),
          (''remote_ip'', JStr (string_field body ''remote_ip'')), (''ovpn_config'', JStr (string_field body ''ovpn_config''))])]"

definition handleExecute :: "string \<Rightarrow> request \<Rightarrow> store \<Rightarrow> response \<times> store" where
  "handleExecute sessionID r s =
     (case getSession sessionID s of
        None \<Rightarrow> (http_Error ''session not found'' 404, s)
      | Some sess \<Rightarrow>
          (case Decode execute_kinds (rq_Body r) of
             None \<Rightarrow> (http_Error ''bad json'' 400, s)
           | Some body \<Rightarrow>
               (case getAgent (sr_AgentID sess) s of
                  None \<Rightarrow> (http_Error ''agent_gone'' 409, s)
                | Some a \<Rightarrow>
                    if ar_ConnID a = [] then (http_Error ''agent_gone'' 409, s)
                    else case pushToAgent (sr_AgentID sess) (bytes_of_string (Marshal (phase2_push sessionID body))) s of
                      (True, s1) \<Rightarrow> (http_OK, s1)
                    | (False, s1) \<Rightarrow> (http_Error ''push failed'' 500, s1))))"

definition handleRelease :: "string \<Rightarrow> store \<Rightarrow> response \<times> store" where
  "handleRelease sessionID s =
     (case getSession sessionID s of
        None \<Rightarrow> (http_Error ''session not found'' 404, s)
      | Some sess \<Rightarrow>
          (http_OK,
           snd (pushToAgent (sr_AgentID sess)
             (bytes_of_string (Marshal (json_map [(''action'', JStr ''disconnect''), (''session_id'', JStr sessionID), (''payload'', JObj [])]))) s)))"

subsection \<open>The WebSocket handler\<close>

record 'w handler =
  wh_agent :: string
  wh_conn :: string
  wh_in :: "net_event list"
  wh_out :: 'w
  wh_reading :: bool
  wh_writing :: bool
  wh_open :: bool

text \<open>What becomes of the connection that \<^verbatim>\<open>net/http\<close> hands over.\<close>

datatype hijack = NoHijacker | HijackFails | AnswerFails | Hijacked

datatype ws_answer = Refused response | Dropped | Upgraded string

definition switching :: "string \<Rightarrow> string" where
  "switching accept =
     (let nl = [CHR 0x0D, CHR 0x0A] in
      ''HTTP/1.1 101 Switching Protocols'' @ nl @ ''Upgrade: websocket'' @ nl @ ''Connection: Upgrade'' @ nl @
      ''Sec-WebSocket-Accept: '' @ accept @ nl @ nl)"

definition handleWS :: "hijack \<Rightarrow> string \<Rightarrow> request \<Rightarrow> store \<Rightarrow> ws_answer \<times> store" where
  "handleWS hj connID r s =
     (if rq_Key r = [] then (Refused (http_Error ''not a websocket request'' 400), s)
      else if rq_Query r ''token'' = [] \<or> rq_Query r ''hostname'' = [] \<or> rq_Query r ''agent_id'' = []
        then (Refused (http_Error ''missing token/hostname/agent_id'' 400), s)
      else if hj = NoHijacker then (Refused (http_Error ''hijack not supported'' 500), s)
      else if hj = HijackFails \<or> hj = AnswerFails then (Dropped, s)
      else (Upgraded (switching (wsAcceptKey (rq_Key r))),
            registerAgent (rq_Query r ''token'') (rq_Query r ''agent_id'') (rq_Query r ''hostname'') connID s))"

definition handleAgentMessage :: "string \<Rightarrow> bytes \<Rightarrow> store \<Rightarrow> store" where
  "handleAgentMessage agentID payload s =
     (case Unmarshal [(''action'', KString), (''status'', KString), (''assigned_ip'', KString)] (string_of_bytes payload) of
        None \<Rightarrow> s
      | Some msg \<Rightarrow>
          if string_field msg ''action'' = ''status'' then setAgentStatus agentID (string_field msg ''status'') (string_field msg ''assigned_ip'') s
          else s)"

definition serve_read :: "'w write_fn \<Rightarrow> store \<times> 'w handler \<Rightarrow> store \<times> 'w handler" where
  "serve_read write sh =
     (case sh of (s, h) \<Rightarrow>
        if \<not> wh_reading h then (s, h)
        else case wsReadFrame (wh_in h) of
          (Inl e, es) \<Rightarrow> (s, h\<lparr>wh_in := es, wh_reading := False\<rparr>)
        | (Inr (payload, opcode), es) \<Rightarrow>
            (let h1 = h\<lparr>wh_in := es\<rparr> in
             if opcode = 0x8 then (s, h1\<lparr>wh_reading := False\<rparr>)
             else if opcode = 0x9 then (s, h1\<lparr>wh_out := snd (wsSendFrame write 0xA payload (wh_out h1))\<rparr>)
             else if opcode = 0x1 \<or> opcode = 0x2 then (handleAgentMessage (wh_agent h) payload s, h1)
             else (s, h1)))"

definition serve_write :: "'w write_fn \<Rightarrow> store \<times> 'w handler \<Rightarrow> store \<times> 'w handler" where
  "serve_write write sh =
     (case sh of (s, h) \<Rightarrow>
        if \<not> wh_writing h then (s, h)
        else case connChan (wh_conn h) s of
          None \<Rightarrow> (s, h\<lparr>wh_writing := False\<rparr>)
        | Some [] \<Rightarrow> (s, h)
        | Some (msg # ms) \<Rightarrow>
            (let s1 = s\<lparr>st_conns := AList.update (wh_conn h) ms (st_conns s)\<rparr> in
             case wsSendText write msg (wh_out h) of
               (None, w) \<Rightarrow> (s1, h\<lparr>wh_out := w\<rparr>)
             | (Some e, w) \<Rightarrow> (s1, h\<lparr>wh_out := w, wh_writing := False\<rparr>)))"

text \<open>After the reader loop the handler waits for the writer goroutine, then its deferred calls run.\<close>

definition serve_finish :: "store \<times> 'w handler \<Rightarrow> store \<times> 'w handler" where
  "serve_finish sh =
     (case sh of (s, h) \<Rightarrow>
        if wh_reading h \<or> wh_writing h \<or> \<not> wh_open h then (s, h)
        else (unregisterConn (wh_conn h) s, h\<lparr>wh_open := False\<rparr>))"

definition session_path :: "string \<Rightarrow> string \<Rightarrow> string option" where
  "session_path suffix path =
     (if HasPrefix path ''/api/v1/session/'' \<and> HasSuffix path suffix then Some (TrimPrefix path ''/api/v1/session/'') else None)"

definition session_part :: "string \<Rightarrow> string option" where
  "session_part rest = (case Split rest (CHR ''/'') of [sid, _] \<Rightarrow> Some sid | _ \<Rightarrow> None)"

datatype http_answer = Response response | WebSocket ws_answer

definition ServeHTTP :: "hijack \<Rightarrow> string \<Rightarrow> request \<Rightarrow> store \<Rightarrow> http_answer \<times> store" where
  "ServeHTTP hj newid r s =
     (if rq_Path r = ''/ws'' then apfst WebSocket (handleWS hj newid r s)
      else if rq_Path r = ''/api/v1/agents'' \<and> rq_Method r = ''GET'' then (Response (handleListAgents r s), s)
      else if rq_Path r = ''/api/v1/connect'' \<and> rq_Method r = ''POST'' then apfst Response (handleConnect newid r s)
      else if session_path ''/execute'' (rq_Path r) \<noteq> None \<and> rq_Method r = ''POST'' then
        (case session_part (the (session_path ''/execute'' (rq_Path r))) of
           Some sid \<Rightarrow> apfst Response (handleExecute sid r s)
         | None \<Rightarrow> (Response http_NotFound, s))
      else if session_path ''/release'' (rq_Path r) \<noteq> None \<and> rq_Method r = ''DELETE'' then
        (case session_part (the (session_path ''/release'' (rq_Path r))) of
           Some sid \<Rightarrow> apfst Response (handleRelease sid s)
         | None \<Rightarrow> (Response http_NotFound, s))
      else (Response http_NotFound, s))"

subsection \<open>The server at work\<close>

text \<open>A request is served, a connection opened with a fresh identifier, or one of the open connections makes a round.\<close>

record 'w server =
  sv_store :: store
  sv_handlers :: "string \<Rightarrow> 'w handler option"

definition new_handler :: "string \<Rightarrow> string \<Rightarrow> net_event list \<Rightarrow> 'w \<Rightarrow> 'w handler" where
  "new_handler agentID connID es w =
     \<lparr>wh_agent = agentID, wh_conn = connID, wh_in = es, wh_out = w, wh_reading = True, wh_writing = True, wh_open = True\<rparr>"

definition new_server :: "'w server" where "new_server = \<lparr>sv_store = newStore, sv_handlers = (\<lambda>_. None)\<rparr>"

inductive server_step :: "'w write_fn \<Rightarrow> 'w server \<Rightarrow> 'w server \<Rightarrow> bool" for "write" where
  http: "ServeHTTP hj nid r (sv_store s) = (Response a, st) \<Longrightarrow> nid \<notin> fst ` set (st_sessions (sv_store s)) \<Longrightarrow>
    server_step write s (s\<lparr>sv_store := st\<rparr>)"
| refuse: "ServeHTTP hj nid r (sv_store s) = (WebSocket a, st) \<Longrightarrow> (\<And>x. a \<noteq> Upgraded x) \<Longrightarrow> server_step write s (s\<lparr>sv_store := st\<rparr>)"
| connect: "ServeHTTP hj nid r (sv_store s) = (WebSocket (Upgraded x), st) \<Longrightarrow> nid \<noteq> [] \<Longrightarrow> sv_handlers s nid = None \<Longrightarrow>
    server_step write s (s\<lparr>sv_store := st, sv_handlers := (sv_handlers s)(nid \<mapsto> new_handler (rq_Query r ''agent_id'') nid es w)\<rparr>)"
| round: "sv_handlers s k = Some h \<Longrightarrow> f = serve_read write \<or> f = serve_write write \<or> f = serve_finish \<Longrightarrow> f (sv_store s, h) = (st, h') \<Longrightarrow>
    server_step write s (s\<lparr>sv_store := st, sv_handlers := (sv_handlers s)(k \<mapsto> h')\<rparr>)"

abbreviation server_steps :: "'w write_fn \<Rightarrow> 'w server \<Rightarrow> 'w server \<Rightarrow> bool" where
  "server_steps write \<equiv> (server_step write)\<^sup>*\<^sup>*"

text \<open>The sessions of a store change only by the creation of one for an agent that has none.\<close>

definition opens_session :: "store \<Rightarrow> store \<Rightarrow> string \<Rightarrow> bool" where
  "opens_session s s' nid \<longleftrightarrow>
     (\<exists>token agentID. s' = createSession nid token agentID s \<and> \<not> hasActiveSession agentID s \<and>
        (\<exists>a. getAgent agentID s = Some a \<and> ar_Status a \<noteq> ''offline''))"

lemma pushToAgent_sessions [simp]: "st_sessions (snd (pushToAgent agentID msg s)) = st_sessions s"
  by (simp add: pushToAgent_def split: option.split)

lemma pushToAgent_agents [simp]: "st_agents (snd (pushToAgent agentID msg s)) = st_agents s"
  by (simp add: pushToAgent_def split: option.split)

lemma setAgentStatus_sessions [simp]: "st_sessions (setAgentStatus agentID status ip s) = st_sessions s" "st_conns (setAgentStatus agentID status ip s) = st_conns s"
  by (simp_all add: setAgentStatus_def split: option.split)

lemma handleConnect_cases:
  "handleConnect nid r s = (a, s') \<Longrightarrow> s' = s \<or> opens_session s s' nid"
  by (auto simp: handleConnect_def opens_session_def split: option.splits if_splits)

lemma handleExecute_cases:
  "handleExecute sid r s = (a, s') \<Longrightarrow> s' = s \<or> (\<exists>agentID msg. s' = snd (pushToAgent agentID msg s))"
proof -
  assume run: "handleExecute sid r s = (a, s')"
  show ?thesis
  proof (cases "getSession sid s")
    case sess: (Some sess)
    show ?thesis
    proof (cases "Decode execute_kinds (rq_Body r)")
      case body: (Some body)
      show ?thesis
      proof (cases "getAgent (sr_AgentID sess) s")
        case ag: (Some ag)
        obtain m b s1 where "m = bytes_of_string (Marshal (phase2_push sid body))" "pushToAgent (sr_AgentID sess) m s = (b, s1)"
          by (metis surj_pair)
        then have "s' = s \<or> s' = snd (pushToAgent (sr_AgentID sess) m s)"
          using run by (cases b) (auto simp: handleExecute_def sess body ag split: if_splits)
        then show ?thesis by blast
      qed (use run in \<open>simp add: handleExecute_def sess body\<close>)
    qed (use run in \<open>simp add: handleExecute_def sess\<close>)
  qed (use run in \<open>simp add: handleExecute_def\<close>)
qed

lemma handleRelease_cases:
  "handleRelease sid s = (a, s') \<Longrightarrow> s' = s \<or> (\<exists>agentID msg. s' = snd (pushToAgent agentID msg s))"
  by (auto simp: handleRelease_def split: option.splits)

lemma dispatch_cases:
  "(if a then v1 else if b then v2 else if c then v3 else if d then v4 else if e then v5 else v6) \<in> {v1, v2, v3, v4, v5, v6}"
  by simp

lemma session_dispatch: "(case p of Some sid \<Rightarrow> apfst Response (f sid) | None \<Rightarrow> (Response http_NotFound, s)) = (x, s') \<Longrightarrow> s' = s \<or> (\<exists>sid a. f sid = (a, s'))"
  by (cases p) (auto simp: apfst_def map_prod_def split: prod.splits)

lemma ServeHTTP_store:
  assumes "ServeHTTP hj nid r s = (x, s')"
  shows "s' = s \<or> opens_session s s' nid \<or> (\<exists>agentID msg. s' = snd (pushToAgent agentID msg s)) \<or>
    (\<exists>a token agentID hostname. x = WebSocket (Upgraded a) \<and> agentID = rq_Query r ''agent_id'' \<and> s' = registerAgent token agentID hostname nid s)"
proof -
  have "(x, s') \<in> {apfst WebSocket (handleWS hj nid r s), (Response (handleListAgents r s), s), apfst Response (handleConnect nid r s),
      (case session_part (the (session_path ''/execute'' (rq_Path r))) of Some sid \<Rightarrow> apfst Response (handleExecute sid r s) | None \<Rightarrow> (Response http_NotFound, s)),
      (case session_part (the (session_path ''/release'' (rq_Path r))) of Some sid \<Rightarrow> apfst Response (handleRelease sid s) | None \<Rightarrow> (Response http_NotFound, s)),
      (Response http_NotFound, s)}"
    unfolding assms [symmetric] ServeHTTP_def by (rule dispatch_cases)
  then consider "apfst WebSocket (handleWS hj nid r s) = (x, s')" | "apfst Response (handleConnect nid r s) = (x, s')" | sid a where "handleExecute sid r s = (a, s')"
    | sid a where "handleRelease sid s = (a, s')" | "s' = s"
    by (elim insertE emptyE) (metis session_dispatch prod.inject)+
  then show ?thesis
  proof cases
    case 1
    then have "x = WebSocket (fst (handleWS hj nid r s))" "s' = snd (handleWS hj nid r s)"
      by (metis apfst_conv prod.inject surjective_pairing)+
    then show ?thesis by (auto simp: handleWS_def)
  next
    case 2
    then have "s' = snd (handleConnect nid r s)"
      by (metis apfst_conv prod.inject surjective_pairing)
    then show ?thesis using handleConnect_cases [of nid r s "fst (handleConnect nid r s)" s'] by simp blast
  next
    case 3
    then show ?thesis using handleExecute_cases by blast
  next
    case 4
    then show ?thesis using handleRelease_cases by blast
  qed simp
qed

text \<open>The invariant of the store, and that of the server with its connections.\<close>

definition agents_inv :: "store \<Rightarrow> bool" where
  "agents_inv s \<longleftrightarrow>
     (\<forall>k a. map_of (st_agents s) k = Some a \<longrightarrow> ar_AgentID a = k \<and> (ar_ConnID a \<noteq> [] \<longrightarrow> map_of (st_conns s) (ar_ConnID a) \<noteq> None))"

definition sessions_inv :: "store \<Rightarrow> bool" where
  "sessions_inv s \<longleftrightarrow>
     distinct (map fst (st_sessions s)) \<and>
     (\<forall>k x. map_of (st_sessions s) k = Some x \<longrightarrow> sr_SessionID x = k \<and> sr_State x = ''initiated'') \<and>
     (\<forall>k x k' x'. map_of (st_sessions s) k = Some x \<longrightarrow> map_of (st_sessions s) k' = Some x' \<longrightarrow> sr_AgentID x = sr_AgentID x' \<longrightarrow> k = k')"

definition chans_inv :: "store \<Rightarrow> bool" where
  "chans_inv s \<longleftrightarrow> (\<forall>k q. map_of (st_conns s) k = Some q \<longrightarrow> length q \<le> chan_capacity)"

definition server_inv :: "'w server \<Rightarrow> bool" where
  "server_inv v \<longleftrightarrow>
     agents_inv (sv_store v) \<and> sessions_inv (sv_store v) \<and> chans_inv (sv_store v) \<and>
     (\<forall>k. (map_of (st_conns (sv_store v)) k \<noteq> None) = (\<exists>h. sv_handlers v k = Some h \<and> wh_open h)) \<and>
     (\<forall>k h. sv_handlers v k = Some h \<longrightarrow> wh_conn h = k \<and> k \<noteq> [])"

lemma active_iff:
  "sessions_inv s \<Longrightarrow> hasActiveSession agentID s \<longleftrightarrow> (\<exists>k x. map_of (st_sessions s) k = Some x \<and> sr_AgentID x = agentID)"
  unfolding sessions_inv_def hasActiveSession_def list_ex_iff by (fastforce simp: map_of_eq_Some_iff)

lemma createSession_inv:
  assumes "sessions_inv s" "\<not> hasActiveSession agentID s" "sid \<notin> fst ` set (st_sessions s)"
  shows "sessions_inv (createSession sid token agentID s)"
  using assms active_iff [OF assms(1), of agentID] unfolding sessions_inv_def createSession_def
  by (auto simp: update_conv' distinct_update)

lemma push_inv:
  assumes "agents_inv s" "chans_inv s"
  shows "agents_inv (snd (pushToAgent agentID msg s))" "chans_inv (snd (pushToAgent agentID msg s))"
    "(map_of (st_conns (snd (pushToAgent agentID msg s))) k \<noteq> None) = (map_of (st_conns s) k \<noteq> None)"
  using assms unfolding pushToAgent_def agents_inv_def chans_inv_def chan_capacity_def
  by (auto simp: update_conv' split: option.split)

lemma register_inv:
  assumes "agents_inv s" "chans_inv s"
  shows "agents_inv (registerAgent token agentID hostname connID s)" "chans_inv (registerAgent token agentID hostname connID s)"
  using assms unfolding registerAgent_def agents_inv_def chans_inv_def by (auto simp: update_conv')

lemma status_inv:
  assumes "agents_inv s"
  shows "agents_inv (setAgentStatus agentID status ip s)"
  using assms unfolding setAgentStatus_def agents_inv_def by (auto simp: update_conv' split: option.split)

lemma unregister_inv:
  assumes "agents_inv s" "chans_inv s" "connID \<noteq> []"
  shows "agents_inv (unregisterConn connID s)" "chans_inv (unregisterConn connID s)"
proof -
  have m: "map_of (map (\<lambda>(k, a). (k, gone connID a)) al) k = map_option (gone connID) (map_of al k)" for al :: "(string \<times> agentRecord) list" and k
    by (simp add: map_of_map)
  show "agents_inv (unregisterConn connID s)"
    using assms by (simp add: unregisterConn_def agents_inv_def m delete_conv') (auto simp: gone_def)
  show "chans_inv (unregisterConn connID s)"
    using assms unfolding unregisterConn_def chans_inv_def by (auto simp: delete_conv' split: if_splits)
qed

lemma sessions_inv_cong: "st_sessions s' = st_sessions s \<Longrightarrow> sessions_inv s' = sessions_inv s"
  by (simp add: sessions_inv_def)

lemma server_inv_store:
  assumes "server_inv v" "agents_inv st" "sessions_inv st" "chans_inv st"
    "\<And>k. (map_of (st_conns st) k \<noteq> None) = (map_of (st_conns (sv_store v)) k \<noteq> None)"
  shows "server_inv (v\<lparr>sv_store := st\<rparr>)"
  using assms by (simp add: server_inv_def)

lemma serve_read_store:
  "serve_read write (s, h) = (st, h') \<Longrightarrow>
   (st = s \<or> (\<exists>a b c. st = setAgentStatus a b c s)) \<and> wh_conn h' = wh_conn h \<and> wh_open h' = wh_open h \<and> wh_agent h' = wh_agent h"
  unfolding serve_read_def handleAgentMessage_def Let_def by (auto split: if_splits prod.splits sum.splits option.splits)

lemma serve_write_store:
  "serve_write write (s, h) = (st, h') \<Longrightarrow>
   (st = s \<or> (\<exists>m ms. connChan (wh_conn h) s = Some (m # ms) \<and> st = s\<lparr>st_conns := AList.update (wh_conn h) ms (st_conns s)\<rparr>)) \<and>
   wh_conn h' = wh_conn h \<and> wh_open h' = wh_open h \<and> wh_agent h' = wh_agent h"
  unfolding serve_write_def Let_def by (auto split: if_splits prod.splits list.splits option.splits)

lemma drain_inv:
  assumes "agents_inv s" "chans_inv s" "map_of (st_conns s) k = Some (m # ms)"
  shows "agents_inv (s\<lparr>st_conns := AList.update k ms (st_conns s)\<rparr>)" "chans_inv (s\<lparr>st_conns := AList.update k ms (st_conns s)\<rparr>)"
proof -
  show "agents_inv (s\<lparr>st_conns := AList.update k ms (st_conns s)\<rparr>)"
    using assms(1) by (simp add: agents_inv_def update_conv')
  have "length ms \<le> chan_capacity"
    using assms(2,3) unfolding chans_inv_def by (metis Suc_leD length_Cons)
  then show "chans_inv (s\<lparr>st_conns := AList.update k ms (st_conns s)\<rparr>)"
    using assms(2) by (simp add: chans_inv_def update_conv')
qed

lemma not_ws:
  "(case p of Some sid \<Rightarrow> apfst Response (f sid) | None \<Rightarrow> (Response http_NotFound, s)) \<noteq> (WebSocket a, st)" "apfst Response q \<noteq> (WebSocket a, st)"
  by (cases p; auto simp: apfst_def map_prod_def split: prod.splits) (cases q; simp)

lemma ServeHTTP_ws:
  assumes "ServeHTTP hj nid r s = (WebSocket a, st)"
  shows "handleWS hj nid r s = (a, st)"
proof -
  have "(WebSocket a, st) \<in> {apfst WebSocket (handleWS hj nid r s), (Response (handleListAgents r s), s), apfst Response (handleConnect nid r s),
      (case session_part (the (session_path ''/execute'' (rq_Path r))) of Some sid \<Rightarrow> apfst Response (handleExecute sid r s) | None \<Rightarrow> (Response http_NotFound, s)),
      (case session_part (the (session_path ''/release'' (rq_Path r))) of Some sid \<Rightarrow> apfst Response (handleRelease sid s) | None \<Rightarrow> (Response http_NotFound, s)),
      (Response http_NotFound, s)}"
    unfolding assms [symmetric] ServeHTTP_def by (rule dispatch_cases)
  then have "apfst WebSocket (handleWS hj nid r s) = (WebSocket a, st)"
    by (elim insertE emptyE) (metis http_answer.distinct(1) prod.inject not_ws)+
  then show ?thesis
    by (cases "handleWS hj nid r s") simp
qed

lemma handleWS_store:
  "handleWS hj nid r s = (a, st) \<Longrightarrow>
   (if \<exists>x. a = Upgraded x then st = registerAgent (rq_Query r ''token'') (rq_Query r ''agent_id'') (rq_Query r ''hostname'') nid s else st = s)"
  by (auto simp: handleWS_def split: if_splits)

lemma server_inv_step:
  assumes "server_step write v v'" "server_inv v"
  shows "server_inv v'"
  using assms
proof cases
  case (http hj nid r a st)
  have inv: "agents_inv (sv_store v)" "sessions_inv (sv_store v)" "chans_inv (sv_store v)"
    using assms(2) by (simp_all add: server_inv_def)
  consider "st = sv_store v" | "opens_session (sv_store v) st nid" | agentID msg where "st = snd (pushToAgent agentID msg (sv_store v))"
    using ServeHTTP_store [OF http(2)] by auto
  then show ?thesis
  proof cases
    case 1
    then show ?thesis using assms(2) http(1) by simp
  next
    case 2
    then obtain token agentID where st: "st = createSession nid token agentID (sv_store v)" "\<not> hasActiveSession agentID (sv_store v)"
      by (auto simp: opens_session_def)
    have "agents_inv st" "chans_inv st"
      using inv(1,3) by (simp_all add: st createSession_def agents_inv_def chans_inv_def)
    then show ?thesis
      unfolding http(1) using createSession_inv [OF inv(2) st(2) http(3)] assms(2)
      by (intro server_inv_store) (simp_all add: st, simp add: createSession_def)
  next
    case 3
    then show ?thesis
      unfolding http(1) using assms(2) push_inv [OF inv(1,3)] inv(2)
      by (intro server_inv_store) (simp_all add: sessions_inv_def)
  qed
next
  case (refuse hj nid r a st)
  then have "st = sv_store v"
    using handleWS_store [OF ServeHTTP_ws [OF refuse(2)]] by auto
  then show ?thesis using assms(2) refuse(1) by simp
next
  case (connect hj nid r x st es w)
  have st: "st = registerAgent (rq_Query r ''token'') (rq_Query r ''agent_id'') (rq_Query r ''hostname'') nid (sv_store v)"
    using handleWS_store [OF ServeHTTP_ws [OF connect(2)]] by simp
  have inv: "agents_inv st" "chans_inv st" "sessions_inv st"
    using assms(2) register_inv unfolding st by (auto simp: server_inv_def sessions_inv_def registerAgent_def)
  have "(map_of (st_conns st) k \<noteq> None) = (k = nid \<or> map_of (st_conns (sv_store v)) k \<noteq> None)" for k
    by (simp add: st registerAgent_def update_conv')
  then show ?thesis
    using assms(2) inv connect(3) unfolding connect(1) by (auto simp: server_inv_def new_handler_def)
next
  case (round k h f st h')
  have inv: "agents_inv (sv_store v)" "sessions_inv (sv_store v)" "chans_inv (sv_store v)" "wh_conn h = k" "k \<noteq> []"
    "\<And>k. (map_of (st_conns (sv_store v)) k \<noteq> None) = (\<exists>h. sv_handlers v k = Some h \<and> wh_open h)"
    using assms(2) round(2) by (auto simp: server_inv_def)
  have keep: "server_inv v'" if "agents_inv st" "sessions_inv st" "chans_inv st" "wh_conn h' = wh_conn h" "wh_open h' = wh_open h"
    "\<And>k. (map_of (st_conns st) k \<noteq> None) = (map_of (st_conns (sv_store v)) k \<noteq> None)"
    using that assms(2) round(2) inv(4,5) unfolding round(1) server_inv_def by auto
  consider "f = serve_read write" | "f = serve_write write" | "f = serve_finish"
    using round(3) by blast
  then show ?thesis
  proof cases
    case 1
    note r = serve_read_store [OF round(4) [unfolded 1]]
    then have "agents_inv st" "st_sessions st = st_sessions (sv_store v)" "st_conns st = st_conns (sv_store v)"
      using inv(1) status_inv by auto
    then show ?thesis
      using r inv(2,3) by (intro keep) (simp_all add: sessions_inv_def chans_inv_def)
  next
    case 2
    note w = serve_write_store [OF round(4) [unfolded 2]]
    then have "agents_inv st" "chans_inv st" "st_sessions st = st_sessions (sv_store v)" "\<And>k. (map_of (st_conns st) k \<noteq> None) = (map_of (st_conns (sv_store v)) k \<noteq> None)"
      using inv(1,3) drain_inv [OF inv(1,3)] by (auto simp: connChan_def update_conv' split: if_splits)
    then show ?thesis
      using w inv(2) by (intro keep) (simp_all add: sessions_inv_def)
  next
    case 3
    show ?thesis
    proof (cases "wh_reading h \<or> wh_writing h \<or> \<not> wh_open h")
      case True
      then show ?thesis using round(4) 3 inv by (intro keep) (auto simp: serve_finish_def)
    next
      case False
      then have st: "st = unregisterConn k (sv_store v)" "h' = h\<lparr>wh_open := False\<rparr>"
        using round(4) 3 inv(4) by (auto simp: serve_finish_def)
      have "(map_of (st_conns st) k' \<noteq> None) = (k' \<noteq> k \<and> map_of (st_conns (sv_store v)) k' \<noteq> None)" for k'
        by (simp add: st unregisterConn_def delete_conv')
      moreover have "sessions_inv st"
        using inv(2) by (simp add: st unregisterConn_def sessions_inv_def)
      ultimately show ?thesis
        using unregister_inv [OF inv(1,3,5)] assms(2) inv(4-6) unfolding round(1) by (auto simp: server_inv_def st)
    qed
  qed
qed

lemma server_inv_new: "server_inv new_server"
  by (simp add: server_inv_def new_server_def newStore_def agents_inv_def sessions_inv_def chans_inv_def)

interpretation relay_run: invariant_system "server_step wr" "\<lambda>v. v = new_server" server_inv for wr
  by unfold_locales (auto intro: server_inv_new server_inv_step)

lemma sessions_stay:
  assumes "server_step write v v'" "map_of (st_sessions (sv_store v)) k = Some x"
  shows "map_of (st_sessions (sv_store v')) k = Some x"
  using assms(1)
proof cases
  case (http hj nid r a st)
  have "k \<noteq> nid" using http(3) assms(2) by (metis image_eqI map_of_SomeD fst_conv)
  then show ?thesis
    using ServeHTTP_store [OF http(2)] assms(2) http(1) by (auto simp: opens_session_def createSession_def update_conv')
next
  case (refuse hj nid r a st)
  then show ?thesis using handleWS_store [OF ServeHTTP_ws [OF refuse(2)]] assms(2) by auto
next
  case (connect hj nid r y st es w)
  then show ?thesis using handleWS_store [OF ServeHTTP_ws [OF connect(2)]] assms(2) by (simp add: registerAgent_def)
next
  case (round j h f st h')
  then have "st_sessions st = st_sessions (sv_store v)"
    by (auto simp: serve_finish_def unregisterConn_def split: if_splits dest!: serve_read_store serve_write_store)
  then show ?thesis using assms(2) round(1) by simp
qed

lemma sessions_stay_steps:
  "server_steps write v v' \<Longrightarrow> server_inv v \<Longrightarrow> map_of (st_sessions (sv_store v)) k = Some x \<Longrightarrow> map_of (st_sessions (sv_store v')) k = Some x"
  by (rule relay_run.stable_run [where P = "\<lambda>v. map_of (st_sessions (sv_store v)) k = Some x"]) (auto intro: sessions_stay)

lemma active_stays:
  "server_inv v \<Longrightarrow> server_steps write v v' \<Longrightarrow> hasActiveSession agentID (sv_store v) \<Longrightarrow> hasActiveSession agentID (sv_store v')"
  using relay_run.inv_run [of "write" v v'] sessions_stay_steps [of "write" v v'] by (auto simp: server_inv_def active_iff)


text \<open>The handler of a connection waits, after its reader loop, for its writer goroutine, which waits for the channel that only the handler's deferred call
  closes.  So when the agent's connection has ended and nothing waits to be sent, no round of the handler changes anything any more: the
  agent stays registered, is listed, and can be reserved.\<close>

lemma lost_agent_stays:
  assumes "wh_in h = []" "wh_writing h" "connChan (wh_conn h) s = Some []" "set fs \<subseteq> {serve_read write, serve_write write, serve_finish}"
  shows "\<exists>h'. fold (\<lambda>f. f) fs (s, h) = (s, h') \<and> wh_in h' = [] \<and> wh_writing h' \<and> wh_conn h' = wh_conn h \<and> wh_open h' = wh_open h"
  using assms
proof (induction fs arbitrary: h)
  case (Cons f fs)
  have closed: "wsReadFrame [] = (Inl (WsHeader FClosed), [])"
    by (simp add: wsReadFrame_def read_frame_def rd_bind_def read_bytes_def numeral_2_eq_2)
  have rounds: "serve_read write (s, h) = (s, h\<lparr>wh_reading := False\<rparr>)" "serve_write write (s, h) = (s, h)" "serve_finish (s, h) = (s, h)"
    using Cons.prems(1-3) closed by (cases h; simp add: serve_read_def serve_write_def serve_finish_def)+
  consider "f = serve_read write" | "f = serve_write write" | "f = serve_finish" using Cons.prems(4) by auto
  then show ?case
    using Cons.IH [of h] Cons.IH [of "h\<lparr>wh_reading := False\<rparr>"] Cons.prems by cases (simp_all add: rounds)
qed simp

definition sample_ws_request :: request where
  "sample_ws_request =
     \<lparr>rq_Method = ''GET'', rq_Path = ''/ws'', rq_Query = (\<lambda>k. if k = ''agent_id'' then ''a1'' else ''x''), rq_Key = ''k'', rq_Body = []\<rparr>"

definition sample_connect_request :: request where
  "sample_connect_request =
     \<lparr>rq_Method = ''POST'', rq_Path = ''/api/v1/connect'', rq_Query = (\<lambda>_. []), rq_Key = [], rq_Body = Marshal (json_map [(''agent_id'', JStr ''a1'')])\<rparr>"

definition registered_server :: "bytes server" where
  "registered_server =
     \<lparr>sv_store = registerAgent ''x'' ''a1'' ''x'' ''c1'' newStore, sv_handlers = (\<lambda>_. None)(''c1'' \<mapsto> new_handler ''a1'' ''c1'' [] [])\<rparr>"

definition reserved_server :: "bytes server" where
  "reserved_server = registered_server\<lparr>sv_store := createSession ''s1'' [] ''a1'' (sv_store registered_server)\<rparr>"

lemma Decode_agent:
  "Decode [(''token'', KString), (''agent_id'', KString)] (rq_Body sample_connect_request) = Some [''agent_id'' \<mapsto> JStr ''a1'']"
proof -
  have "wf_json max_depth (json_map [(''agent_id'', JStr ''a1'')])"
    by (simp add: json_map_def max_depth_def) code_simp
  then have "Decode [(''token'', KString), (''agent_id'', KString)] (rq_Body sample_connect_request) =
      decode_struct [(''token'', KString), (''agent_id'', KString)] (json_map [(''agent_id'', JStr ''a1'')])"
    using Decode_Marshal [of _ "[]"] by (simp add: sample_connect_request_def stops_def)
  then show ?thesis
    by (simp add: decode_struct_def json_map_def assign_def match_name_def accepts_kind_def)
qed

lemma registered_step: "server_step stream_write new_server registered_server"
proof -
  have "ServeHTTP Hijacked ''c1'' sample_ws_request (sv_store (new_server :: bytes server)) =
      (WebSocket (Upgraded (switching (wsAcceptKey ''k''))), registerAgent ''x'' ''a1'' ''x'' ''c1'' newStore)"
    by (simp add: ServeHTTP_def handleWS_def sample_ws_request_def new_server_def)
  from server_step.connect [OF this, of stream_write "[]" "[]"] show ?thesis
    by (simp add: registered_server_def new_server_def sample_ws_request_def)
qed

lemma reserved_step: "server_step stream_write registered_server reserved_server"
proof -
  have "handleConnect ''s1'' sample_connect_request (sv_store registered_server) =
      (http_JSON (json_map [(''session_id'', JStr ''s1'')]), createSession ''s1'' [] ''a1'' (sv_store registered_server))"
    by (simp add: handleConnect_def Decode_agent string_field_def registered_server_def registerAgent_def newStore_def getAgent_def hasActiveSession_def)
  then have "ServeHTTP Hijacked ''s1'' sample_connect_request (sv_store registered_server) =
      (Response (http_JSON (json_map [(''session_id'', JStr ''s1'')])), createSession ''s1'' [] ''a1'' (sv_store registered_server))"
    by (simp add: ServeHTTP_def sample_connect_request_def)
  from server_step.http [OF this, of stream_write] show ?thesis
    by (simp add: reserved_server_def registered_server_def registerAgent_def newStore_def)
qed


end
