(* ===== verification/Relay_Agent.thy ===== *)
theory Relay_Agent
  imports Relay_Server Lifecycle
begin

section \<open>relay: the agent\<close>

text \<open>
  The agent of \<^verbatim>\<open>relay/relay.go\<close>: \<open>New\<close>, \<open>Run\<close> with its waits, \<open>runOnce\<close> (dial, WebSocket handshake, registration, the loop over messages and
  the ping loop), \<open>handleMessage\<close> and \<open>sendStatus\<close>, on the connection of \<open>Web_Socket\<close>.

  The library \<^verbatim>\<open>net/url\<close>, the network and the TLS dialer are the fields of the record \<open>net\<close>: how an endpoint is parsed, what a dialled
  connection delivers and what a write does.  The callbacks \<open>OnPhase2\<close> and \<open>OnDisconnect\<close> are the client's; a call of them is a value of the
  type \<open>effect\<close>.  \<open>OnPhase2\<close> runs in a goroutine of its own, and so does the ping loop: what they do to the connection is a step of its own
  (\<open>StatusStep\<close>, \<open>PingStep\<close>), interleaved with the rounds of the message loop (\<open>ReadStep\<close>) in any order.
\<close>

definition protocolVersion :: nat where "protocolVersion = 1"

record Phase2Payload =
  p2_SessionID :: string
  p2_StateID :: string
  p2_SAMLResponse :: string
  p2_RemoteIP :: string
  p2_OvpnConfig :: string

record relay_Config =
  rc_Token :: string
  rc_Hostname :: string
  rc_AgentID :: string
  rc_Endpoint :: string
  rc_OnPhase2 :: bool
  rc_OnDisconnect :: bool

record 'w Agent =
  ag_cfg :: relay_Config
  ag_agentID :: string
  ag_connWS :: "'w wsConn option"
  ag_pinging :: bool

datatype dial_error =
    BadURL | UnsupportedScheme string | DialFailed | HandshakeWrite | HandshakeRead | HandshakeRejected string | HandshakeHeaders

datatype relay_error = TokenRequired | EndpointRequired | CallbackRequired | BuildURL | DialError dial_error | SendAuth ws_error | ReadError ws_error

definition newUUID :: "bytes \<Rightarrow> string" where
  "newUUID b =
     (let u = uuid_bits b in
      hex_EncodeToString (slice u 0 4) @ ''-'' @ hex_EncodeToString (slice u 4 6) @ ''-'' @ hex_EncodeToString (slice u 6 8) @ ''-'' @
      hex_EncodeToString (slice u 8 10) @ ''-'' @ hex_EncodeToString (slice u 10 16))"

definition wsKey :: "bytes \<Rightarrow> string" where "wsKey b = b64_encode b"

definition New_Agent :: "bytes \<Rightarrow> relay_Config \<Rightarrow> (relay_error, 'w Agent) result" where
  "New_Agent rnd cfg =
     (if rc_Token cfg = [] then Inl TokenRequired
      else if rc_Endpoint cfg = [] then Inl EndpointRequired
      else if \<not> rc_OnPhase2 cfg then Inl CallbackRequired
      else Inr \<lparr>ag_cfg = cfg, ag_agentID = (if rc_AgentID cfg = [] then newUUID rnd else rc_AgentID cfg), ag_connWS = None, ag_pinging = False\<rparr>)"

subsection \<open>The handshake\<close>

record URL =
  u_Scheme :: string
  u_Hostname :: string
  u_Port :: string
  u_Host :: string
  u_RequestURI :: string

record 'w net =
  nt_Parse :: "string \<Rightarrow> URL option"
  nt_Dial :: "bool \<Rightarrow> string \<Rightarrow> string \<Rightarrow> (net_event list \<times> 'w) option"
  nt_write :: "'w write_fn"
  nt_key :: bytes
  nt_masks :: "nat \<Rightarrow> bytes"

definition buildWSURL :: "'w net \<Rightarrow> string \<Rightarrow> string option" where
  "buildWSURL nt endpoint = (case nt_Parse nt endpoint of None \<Rightarrow> None | Some _ \<Rightarrow> Some endpoint)"

text \<open>\<^verbatim>\<open>ReadString('\n')\<close>: no deadline is set yet, so a pause is no event for it.\<close>

fun read_line :: "bool \<Rightarrow> net_event list \<Rightarrow> (bytes \<times> bool \<times> net_event list) option" where
  "read_line cx [] = None"
| "read_line cx (Byte b # es) = (if b = 10 then Some ([b], cx, es) else map_option (apfst ((#) b)) (read_line cx es))"
| "read_line cx (Idle # es) = read_line cx es"
| "read_line cx (Cancel # es) = read_line True es"

lemma read_line_shrinks: "read_line cx es = Some (l, cx', r) \<Longrightarrow> length r < length es"
  by (induction cx es arbitrary: l rule: read_line.induct) (auto split: if_splits simp: map_apfst_Some intro: less_SucI)

function drain_headers :: "bool \<Rightarrow> net_event list \<Rightarrow> (bool \<times> net_event list) option" where
  "drain_headers cx es =
     (case read_line cx es of
        None \<Rightarrow> None
      | Some (line, cx1, r) \<Rightarrow> if line = [13, 10] then Some (cx1, r) else drain_headers cx1 r)"
  by pat_completeness auto
termination by (relation "measure (length \<circ> snd)") (auto dest: read_line_shrinks)

declare drain_headers.simps [simp del]

definition crlf :: string where "crlf = [CHR 0x0D, CHR 0x0A]"

definition handshake_request :: "URL \<Rightarrow> string \<Rightarrow> string" where
  "handshake_request u key =
     ''GET '' @ u_RequestURI u @ '' HTTP/1.1'' @ crlf @ ''Host: '' @ u_Host u @ crlf @ ''Upgrade: websocket'' @ crlf @ ''Connection: Upgrade'' @ crlf @
     ''Sec-WebSocket-Key: '' @ key @ crlf @ ''Sec-WebSocket-Version: 13'' @ crlf @ crlf"

definition dial_target :: "URL \<Rightarrow> (dial_error, bool \<times> string) result" where
  "dial_target u =
     (if u_Scheme u = ''wss'' then Inr (True, if u_Port u = [] then ''443'' else u_Port u)
      else if u_Scheme u = ''ws'' then Inr (False, if u_Port u = [] then ''80'' else u_Port u)
      else Inl (UnsupportedScheme (u_Scheme u)))"

definition ws_upgrade :: "'w net \<Rightarrow> URL \<Rightarrow> bool \<Rightarrow> net_event list \<Rightarrow> 'w \<Rightarrow> (dial_error, 'w wsConn) result" where
  "ws_upgrade nt u cx es w =
     (case nt_write nt (bytes_of_string (handshake_request u (wsKey (nt_key nt)))) w of
        (Some _, _) \<Rightarrow> Inl HandshakeWrite
      | (None, w1) \<Rightarrow>
          (case read_line cx es of
             None \<Rightarrow> Inl HandshakeRead
           | Some (status, cx1, es1) \<Rightarrow>
               if Index (string_of_bytes status) ''101'' = None then Inl (HandshakeRejected (TrimSpace (string_of_bytes status)))
               else case drain_headers cx1 es1 of
                 None \<Rightarrow> Inl HandshakeHeaders
               | Some (cx2, es2) \<Rightarrow> Inr \<lparr>ws_in = es2, ws_ctx = cx2, ws_out = w1, ws_keys = 0\<rparr>))"

definition dialWS :: "'w net \<Rightarrow> bool \<Rightarrow> string \<Rightarrow> (dial_error, 'w wsConn) result" where
  "dialWS nt cx rawURL =
     (case nt_Parse nt rawURL of
        None \<Rightarrow> Inl BadURL
      | Some u \<Rightarrow>
          (case dial_target u of
             Inl e \<Rightarrow> Inl e
           | Inr (tls, port) \<Rightarrow>
               (case nt_Dial nt tls (JoinHostPort (u_Hostname u) port) (u_Hostname u) of
                  None \<Rightarrow> Inl DialFailed
                | Some (es, w) \<Rightarrow> ws_upgrade nt u cx es w)))"

subsection \<open>Messages\<close>

definition auth_message :: "'w Agent \<Rightarrow> json" where
  "auth_message a =
     json_map [(''version'', JNum (nat_digits protocolVersion)), (''action'', JStr ''auth''), (''token'', JStr (rc_Token (ag_cfg a))),
       (''agent_id'', JStr (ag_agentID a)), (''hostname'', JStr (rc_Hostname (ag_cfg a)))]"

definition status_message :: "'w Agent \<Rightarrow> string \<Rightarrow> string \<Rightarrow> string \<Rightarrow> json" where
  "status_message a sessionID status assignedIP =
     json_map [(''version'', JNum (nat_digits protocolVersion)), (''action'', JStr ''status''), (''session_id'', JStr sessionID),
       (''org'', JStr (rc_Token (ag_cfg a))), (''agent_id'', JStr (ag_agentID a)), (''status'', JStr status), (''assigned_ip'', JStr assignedIP)]"

definition sendStatus :: "'w net \<Rightarrow> string \<Rightarrow> string \<Rightarrow> string \<Rightarrow> 'w Agent \<Rightarrow> 'w Agent" where
  "sendStatus nt sessionID status assignedIP a =
     (case ag_connWS a of
        None \<Rightarrow> a
      | Some ws \<Rightarrow>
          a\<lparr>ag_connWS := Some (snd (sendText (nt_masks nt) (nt_write nt) (bytes_of_string (Marshal (status_message a sessionID status assignedIP))) ws))\<rparr>)"

definition SendStatus :: "'w net \<Rightarrow> string \<Rightarrow> string \<Rightarrow> string \<Rightarrow> 'w Agent \<Rightarrow> 'w Agent" where
  "SendStatus = sendStatus"

definition AgentID :: "'w Agent \<Rightarrow> string" where "AgentID a = ag_agentID a"

datatype effect = CallOnPhase2 Phase2Payload | CallOnDisconnect | UnknownAction string | BadEnvelope | BadPayload

definition envelope_kinds :: "(string \<times> field_kind) list" where
  "envelope_kinds = [(''version'', KInt), (''action'', KString), (''session_id'', KString), (''payload'', KRaw)]"

definition payload_kinds :: "(string \<times> field_kind) list" where
  "payload_kinds = [(''session_id'', KString), (''state_id'', KString), (''saml_response'', KString), (''remote_ip'', KString), (''ovpn_config'', KString)]"

text \<open>The raw payload is a JSON text that has been parsed with the envelope, so decoding it again is decoding its value; a missing payload is
  the empty text, which is no JSON.\<close>

definition handleMessage :: "'w Agent \<Rightarrow> bytes \<Rightarrow> effect list" where
  "handleMessage a msg =
     (case Unmarshal envelope_kinds (string_of_bytes msg) of
        None \<Rightarrow> [BadEnvelope]
      | Some envelope \<Rightarrow>
          (let action = string_field envelope ''action'' in
           if action = ''phase2'' then
             (case envelope ''payload'' of
                None \<Rightarrow> [BadPayload]
              | Some v \<Rightarrow>
                  (case decode_struct payload_kinds v of
                     None \<Rightarrow> [BadPayload]
                   | Some p \<Rightarrow>
                       [CallOnPhase2 \<lparr>p2_SessionID = string_field envelope ''session_id'', p2_StateID = string_field p ''state_id'',
                          p2_SAMLResponse = string_field p ''saml_response'', p2_RemoteIP = string_field p ''remote_ip'',
                          p2_OvpnConfig = string_field p ''ovpn_config''\<rparr>]))
           else if action = ''disconnect'' then (if rc_OnDisconnect (ag_cfg a) then [CallOnDisconnect] else [])
           else [UnknownAction action]))"

subsection \<open>One connection\<close>

definition agent_open :: "'w net \<Rightarrow> bool \<Rightarrow> 'w Agent \<Rightarrow> (relay_error, 'w Agent) result" where
  "agent_open nt cx a =
     (case buildWSURL nt (rc_Endpoint (ag_cfg a)) of
        None \<Rightarrow> Inl BuildURL
      | Some u \<Rightarrow>
          (case dialWS nt cx u of
             Inl e \<Rightarrow> Inl (DialError e)
           | Inr ws \<Rightarrow>
               (case sendText (nt_masks nt) (nt_write nt) (bytes_of_string (Marshal (auth_message a))) ws of
                  (Some e, _) \<Rightarrow> Inl (SendAuth e)
                | (None, ws1) \<Rightarrow> Inr (a\<lparr>ag_connWS := Some ws1, ag_pinging := True\<rparr>))))"

datatype agent_step = ReadStep | PingStep | StatusStep string string string

definition ping_step :: "'w net \<Rightarrow> 'w Agent \<Rightarrow> 'w Agent" where
  "ping_step nt a =
     (case ag_connWS a of
        Some ws \<Rightarrow>
          if \<not> ag_pinging a \<or> ws_ctx ws then a
          else (case sendPing (nt_masks nt) (nt_write nt) ws of
                  (None, ws1) \<Rightarrow> a\<lparr>ag_connWS := Some ws1\<rparr>
                | (Some _, ws1) \<Rightarrow> a\<lparr>ag_connWS := Some ws1, ag_pinging := False\<rparr>)
      | None \<Rightarrow> a)"

definition read_step :: "'w net \<Rightarrow> 'w Agent \<Rightarrow> (ws_error, effect list) result \<times> 'w Agent" where
  "read_step nt a =
     (case ag_connWS a of
        None \<Rightarrow> (Inl WsServerClosed, a)
      | Some ws \<Rightarrow>
          (case readMessage (nt_masks nt) (nt_write nt) [] ws of
             (Inr msg, ws1) \<Rightarrow> (Inr (handleMessage a msg), a\<lparr>ag_connWS := Some ws1\<rparr>)
           | (Inl e, ws1) \<Rightarrow>
               (let a1 = a\<lparr>ag_connWS := Some ws1\<rparr>;
                    a2 = (if ws_ctx ws1 then sendStatus nt [] ''offline'' [] a1 else a1)
                in (Inl e, a2))))"

text \<open>The steps of a connection, up to the error that ends it; \<open>None\<close> when it is still up.\<close>

fun agent_serve :: "'w net \<Rightarrow> agent_step list \<Rightarrow> 'w Agent \<Rightarrow> ws_error option \<times> effect list \<times> 'w Agent" where
  "agent_serve nt [] a = (None, [], a)"
| "agent_serve nt (PingStep # steps) a = agent_serve nt steps (ping_step nt a)"
| "agent_serve nt (StatusStep sid status ip # steps) a = agent_serve nt steps (SendStatus nt sid status ip a)"
| "agent_serve nt (ReadStep # steps) a =
     (case read_step nt a of
        (Inl e, a1) \<Rightarrow> (Some e, [], a1\<lparr>ag_connWS := None, ag_pinging := False\<rparr>)
      | (Inr effs, a1) \<Rightarrow> (case agent_serve nt steps a1 of (r, more_effs, a2) \<Rightarrow> (r, effs @ more_effs, a2)))"

text \<open>Its result: an error, or \<open>None\<close> while it runs.  There is no other way to return.\<close>

definition runOnce :: "'w net \<Rightarrow> bool \<Rightarrow> agent_step list \<Rightarrow> 'w Agent \<Rightarrow> relay_error option \<times> effect list \<times> 'w Agent" where
  "runOnce nt cx steps a =
     (case agent_open nt cx a of
        Inl e \<Rightarrow> (Some e, [], a)
      | Inr a1 \<Rightarrow> (case agent_serve nt steps a1 of (r, effs, a2) \<Rightarrow> (map_option ReadError r, effs, a2)))"

subsection \<open>Run\<close>

text \<open>What happens in a round of the loop: the network and the steps of the connection, and whether the context is cancelled at the start
  of the round, when \<open>runOnce\<close> returns, or during the wait.\<close>

record 'w round =
  ro_ctx_start :: bool
  ro_net :: "'w net"
  ro_steps :: "agent_step list"
  ro_ctx_end :: bool
  ro_ctx_wait :: bool

definition second :: int where "second = 1000000000"

text \<open>The waits of the loop, in nanoseconds, the effects, and whether it returned (with the context's error); the round list may end first.\<close>

fun Run_Agent :: "int \<Rightarrow> 'w round list \<Rightarrow> 'w Agent \<Rightarrow> int list \<times> effect list \<times> bool" where
  "Run_Agent backoff [] a = ([], [], False)"
| "Run_Agent backoff (r # rs) a =
     (if ro_ctx_start r then ([], [], True)
      else case runOnce (ro_net r) False (ro_steps r) a of
        (None, effs, a1) \<Rightarrow> ([], effs, False)
      | (Some e, effs, a1) \<Rightarrow>
          if ro_ctx_end r then ([], effs, True)
          else if ro_ctx_wait r then ([backoff], effs, True)
          else (case Run_Agent (if backoff < 60 * second then backoff * 2 else backoff) rs a1 of
                  (ws, effs', d) \<Rightarrow> (backoff # ws, effs @ effs', d)))"

subsection \<open>What the two sides understand of each other\<close>

lemma ascii_valid [simp]:
  "utf8_valid ''phase2''" "utf8_valid ''disconnect''" "utf8_valid ''status''" "utf8_valid ''auth''" "utf8_valid []" "utf8_valid ''offline''"
  "utf8_valid ''action''" "utf8_valid ''payload''" "utf8_valid ''session_id''" "utf8_valid ''state_id''" "utf8_valid ''saml_response''"
  "utf8_valid ''remote_ip''" "utf8_valid ''ovpn_config''" "utf8_valid ''version''" "utf8_valid ''org''" "utf8_valid ''agent_id''"
  "utf8_valid ''assigned_ip''" "utf8_valid ''token''" "utf8_valid ''hostname''"
  by (rule utf8_ascii, code_simp)+

lemmas decode_simps = decode_struct_def json_map_def assign_def match_name_def accepts_kind_def string_field_def

lemma string_of_bytes_Marshal [simp]: "string_of_bytes (bytes_of_string t) = t"
  by (rule string_of_bytes_of_string)

lemma phase2_push_wf:
  assumes "utf8_valid sid" "utf8_valid (string_field body ''state_id'')" "utf8_valid (string_field body ''saml_response'')"
    "utf8_valid (string_field body ''remote_ip'')" "utf8_valid (string_field body ''ovpn_config'')"
  shows "wf_json max_depth (phase2_push sid body)"
  using assms by (simp add: phase2_push_def json_map_def max_depth_def)

lemma handle_phase2_push:
  assumes "utf8_valid sid" "utf8_valid (string_field body ''state_id'')" "utf8_valid (string_field body ''saml_response'')"
    "utf8_valid (string_field body ''remote_ip'')" "utf8_valid (string_field body ''ovpn_config'')"
  shows "handleMessage a (bytes_of_string (Marshal (phase2_push sid body))) =
    [CallOnPhase2 \<lparr>p2_SessionID = sid, p2_StateID = string_field body ''state_id'', p2_SAMLResponse = string_field body ''saml_response'',
       p2_RemoteIP = string_field body ''remote_ip'', p2_OvpnConfig = string_field body ''ovpn_config''\<rparr>]"
proof -
  define x y z w where "x = string_field body ''state_id''" and "y = string_field body ''saml_response''" and "z = string_field body ''remote_ip''"
    and "w = string_field body ''ovpn_config''"
  have "Unmarshal envelope_kinds (Marshal (phase2_push sid body)) = decode_struct envelope_kinds (phase2_push sid body)"
    by (rule Unmarshal_Marshal [OF phase2_push_wf [OF assms]])
  then show ?thesis
    unfolding handleMessage_def phase2_push_def x_def [symmetric] y_def [symmetric] z_def [symmetric] w_def [symmetric]
    by (simp add: decode_simps envelope_kinds_def payload_kinds_def)
qed

lemma status_message_wf:
  assumes "utf8_valid sid" "utf8_valid st" "utf8_valid ip" "utf8_valid (rc_Token (ag_cfg a))" "utf8_valid (ag_agentID a)"
  shows "wf_json max_depth (status_message a sid st ip)"
  using assms by (simp add: status_message_def json_map_def max_depth_def)

lemma server_gets_status:
  assumes "utf8_valid sid" "utf8_valid st" "utf8_valid ip" "utf8_valid (rc_Token (ag_cfg a))" "utf8_valid (ag_agentID a)"
  shows "handleAgentMessage agentID (bytes_of_string (Marshal (status_message a sid st ip))) s = setAgentStatus agentID st ip s"
proof -
  have "Unmarshal [(''action'', KString), (''status'', KString), (''assigned_ip'', KString)] (Marshal (status_message a sid st ip)) =
      decode_struct [(''action'', KString), (''status'', KString), (''assigned_ip'', KString)] (status_message a sid st ip)"
    by (rule Unmarshal_Marshal [OF status_message_wf [OF assms]])
  then show ?thesis
    by (simp add: handleAgentMessage_def status_message_def decode_simps)
qed

lemma sent_frame:
  "sendFrame rnd stream_write opc payload c =
   (None, c\<lparr>ws_keys := ws_keys c + 1, ws_out := ws_out c @ enc_frame True opc (Some (rnd (ws_keys c))) payload\<rparr>)"
  by (simp add: sendFrame_def Let_def stream_write_def enc_frame_def)

lemma server_reads_frame:
  "opc AND 0x0F = opc \<Longrightarrow> key_fits key \<Longrightarrow> length payload < 2 ^ 32 \<Longrightarrow>
   wsReadFrame (map Byte (enc_frame fin opc key payload) @ es) = (Inr (payload, opc), es)"
  by (simp add: wsReadFrame_def read_frame_enc)

subsection \<open>The handshake\<close>

lemma read_line_bytes: "10 \<notin> set bs \<Longrightarrow> read_line cx (map Byte (bs @ [10]) @ es) = Some (bs @ [10], cx, es)"
  by (induction bs) auto

lemma drain_line: "10 \<notin> set bs \<Longrightarrow> bs \<noteq> [13] \<Longrightarrow> drain_headers cx (map Byte (bs @ [10]) @ es) = drain_headers cx es"
  using read_line_bytes [of bs cx es] by (subst drain_headers.simps) (auto simp: append_eq_Cons_conv)

lemma drain_end: "drain_headers cx (map Byte [13, 10] @ es) = Some (cx, es)"
  by (subst drain_headers.simps) simp

definition header_line :: "string \<Rightarrow> bytes" where "header_line t = bytes_of_string (t @ [CHR 0x0D])"

lemma line_free: "CHR 0x0A \<notin> set t \<Longrightarrow> 10 \<notin> set (header_line t)" "t \<noteq> [] \<Longrightarrow> header_line t \<noteq> [13]"
proof -
  have inj: "of_char c = (10 :: byte) \<Longrightarrow> c = CHR 0x0A" for c
  proof -
    assume "of_char c = (10 :: byte)"
    then have "unat (of_char c :: byte) = unat (10 :: byte)" by simp
    then have "of_char c = (of_char (CHR 0x0A) :: nat)" by (simp add: unat_of_char)
    then show "c = CHR 0x0A" by (simp only: of_char_eq_iff)
  qed
  show "CHR 0x0A \<notin> set t \<Longrightarrow> 10 \<notin> set (header_line t)"
    using inj by (auto simp: header_line_def bytes_of_string_def)
  show "t \<noteq> [] \<Longrightarrow> header_line t \<noteq> [13]"
    by (auto simp: header_line_def bytes_of_string_def)
qed

lemma switching_lines:
  "bytes_of_string (switching accept) =
   (header_line ''HTTP/1.1 101 Switching Protocols'' @ [10]) @ (header_line ''Upgrade: websocket'' @ [10]) @ (header_line ''Connection: Upgrade'' @ [10]) @
   (header_line (''Sec-WebSocket-Accept: '' @ accept) @ [10]) @ [13, 10]"
  by (simp add: switching_def Let_def header_line_def bytes_of_string_def)

lemma b64_digit_free: "b64_digit n \<noteq> CHR 0x0A"
proof -
  have "code (b64_digit n) \<noteq> 10"
    by (auto simp: b64_digit_def code_char_of) (auto simp: code_def)
  then show ?thesis by (auto simp: code_def)
qed

lemma b64_free: "CHR 0x0A \<notin> set (b64_encode bs)"
  by (induction bs rule: b64_encode.induct) (simp_all add: b64_digit_free [symmetric])

lemma status_ok: "Index (string_of_bytes (header_line ''HTTP/1.1 101 Switching Protocols'' @ [10])) ''101'' \<noteq> None"
  by code_simp

lemma ws_upgrade_switching:
  assumes "nt_write nt (bytes_of_string (handshake_request u (wsKey (nt_key nt)))) w = (None, w1)" "CHR 0x0A \<notin> set accept"
  shows "ws_upgrade nt u cx (map Byte (bytes_of_string (switching accept)) @ es) w = Inr \<lparr>ws_in = es, ws_ctx = cx, ws_out = w1, ws_keys = 0\<rparr>"
proof -
  let ?l1 = "header_line ''HTTP/1.1 101 Switching Protocols''" and ?l2 = "header_line ''Upgrade: websocket''" and ?l3 = "header_line ''Connection: Upgrade''"
  let ?l4 = "header_line (''Sec-WebSocket-Accept: '' @ accept)"
  have free: "10 \<notin> set ?l1" "10 \<notin> set ?l2" "10 \<notin> set ?l3" "10 \<notin> set ?l4" "?l2 \<noteq> [13]" "?l3 \<noteq> [13]" "?l4 \<noteq> [13]"
    by (rule line_free; simp add: assms(2))+
  have eq: "map Byte (bytes_of_string (switching accept)) @ es =
      map Byte (?l1 @ [10]) @ map Byte (?l2 @ [10]) @ map Byte (?l3 @ [10]) @ map Byte (?l4 @ [10]) @ map Byte [13, 10] @ es"
    unfolding switching_lines by simp
  have "drain_headers cx (map Byte (?l2 @ [10]) @ map Byte (?l3 @ [10]) @ map Byte (?l4 @ [10]) @ map Byte [13, 10] @ es) = Some (cx, es)"
    using free by (simp only: drain_line drain_end not_False_eq_True)
  then show ?thesis
    unfolding ws_upgrade_def eq using assms(1) status_ok read_line_bytes [OF free(1)] by simp
qed

lemma ws_upgrade_refused:
  assumes "nt_write nt (bytes_of_string (handshake_request u (wsKey (nt_key nt)))) w = (None, w1)"
  shows "ws_upgrade nt u cx (map Byte (header_line ''HTTP/1.1 400 Bad Request'' @ [10]) @ es) w = Inl (HandshakeRejected ''HTTP/1.1 400 Bad Request'')"
proof -
  have free: "10 \<notin> set (header_line ''HTTP/1.1 400 Bad Request'')"
    by (rule line_free) simp
  have "Index (string_of_bytes (header_line ''HTTP/1.1 400 Bad Request'' @ [10])) ''101'' = None"
    "TrimSpace (string_of_bytes (header_line ''HTTP/1.1 400 Bad Request'' @ [10])) = ''HTTP/1.1 400 Bad Request''"
    by code_simp+
  then show ?thesis
    unfolding ws_upgrade_def using assms read_line_bytes [OF free] by simp
qed

subsection \<open>The waits\<close>

lemma runOnce_error: "\<exists>r effs a'. runOnce nt cx steps a = (r, effs, a')"
  by (cases "runOnce nt cx steps a") auto

lemma Run_waits:
  assumes "b = second * 2 ^ min i 6" "Run_Agent b rs a = (ws, effs, d)"
  shows "length ws \<le> length rs \<and> (\<forall>j < length ws. ws ! j = second * 2 ^ min (i + j) 6)"
  using assms
proof (induction rs arbitrary: b i a ws effs d)
  case (Cons r rs)
  obtain x effs1 a1 where run: "runOnce (ro_net r) False (ro_steps r) a = (x, effs1, a1)" using runOnce_error by blast
  let ?b = "if b < 60 * second then b * 2 else b"
  obtain ws' effs' d' where rest: "Run_Agent ?b rs a1 = (ws', effs', d')" by (cases "Run_Agent ?b rs a1") auto
  have "i \<le> 5 \<or> 6 \<le> i" by linarith
  moreover have "(2 :: int) ^ i \<le> 2 ^ 5" if "i \<le> 5" using that by (rule power_increasing) simp
  ultimately have "?b = second * 2 ^ min (Suc i) 6"
    unfolding Cons.prems(1) by (auto simp: second_def min_def not_less_eq_eq)
  from Cons.IH [OF this rest] have IH: "length ws' \<le> length rs" "\<And>j. j < length ws' \<Longrightarrow> ws' ! j = second * 2 ^ min (Suc i + j) 6" by auto
  have b: "b = second * 2 ^ min (i + 0) 6" using Cons.prems(1) by simp
  consider "ws = []" | "ws = [b]" | "ws = b # ws'"
    using Cons.prems(2) run rest by (auto split: if_splits option.splits)
  then show ?case
  proof cases
    case 3
    have "ws ! j = second * 2 ^ min (i + j) 6" if "j < length ws" for j
      using that IH(2) b unfolding 3 by (cases j) simp_all
    then show ?thesis using IH(1) by (simp add: 3)
  qed (use b in simp_all)
qed simp

lemma Run_returns: "Run_Agent b rs a = (ws, effs, True) \<Longrightarrow> \<exists>r \<in> set rs. ro_ctx_start r \<or> ro_ctx_end r \<or> ro_ctx_wait r"
proof (induction rs arbitrary: b a ws effs)
  case (Cons r rs)
  obtain x effs1 a1 where "runOnce (ro_net r) False (ro_steps r) a = (x, effs1, a1)" using runOnce_error by blast
  then show ?case
    using Cons by (fastforce split: if_splits option.splits prod.splits)
qed simp

text \<open>(the agent's retries).  The agent gives up only when its context is cancelled.  Until then it connects again after every connection that fails or
  breaks, and its wait before the next attempt is one second at first and twice the wait before at each further attempt, up to 64 seconds, where it stays: however
  long a connection lasted, the wait after it is not reset.\<close>

theorem agent_backoff:
  assumes "Run_Agent second rs a = (ws, effs, returned)"
  shows "length ws \<le> length rs \<and> (\<forall>j < length ws. ws ! j = second * 2 ^ min j 6 \<and> ws ! j \<le> 64 * second) \<and>
    (returned \<longrightarrow> (\<exists>r \<in> set rs. ro_ctx_start r \<or> ro_ctx_end r \<or> ro_ctx_wait r))"
proof -
  have "second * 2 ^ min j 6 \<le> 64 * second" for j
    using power_increasing [of "min j 6" 6 "2 :: int"] by (simp add: second_def)
  then show ?thesis
    using Run_waits [OF _ assms, of 0] Run_returns [of second rs a ws effs] assms by auto
qed

definition down_net :: "bytes net" where
  "down_net = \<lparr>nt_Parse = (\<lambda>_. None), nt_Dial = (\<lambda>_ _ _. None), nt_write = stream_write, nt_key = [], nt_masks = (\<lambda>_. sample_key)\<rparr>"

definition down_round :: "bytes round" where
  "down_round = \<lparr>ro_ctx_start = False, ro_net = down_net, ro_steps = [], ro_ctx_end = False, ro_ctx_wait = False\<rparr>"

definition sample_agent :: "bytes Agent" where
  "sample_agent = \<lparr>ag_cfg = \<lparr>rc_Token = ''t'', rc_Hostname = ''h'', rc_AgentID = ''a1'', rc_Endpoint = ''wss://r'', rc_OnPhase2 = True, rc_OnDisconnect = True\<rparr>,
     ag_agentID = ''a1'', ag_connWS = None, ag_pinging = False\<rparr>"

theorem agent_backoff_witness:
  "Run_Agent second (replicate 8 down_round) sample_agent = (map ((*) second) [1, 2, 4, 8, 16, 32, 64, 64], [], False) \<and>
   map ((*) second) [1, 2, 4, 8, 16, 32, 64, 64] ! 7 \<le> 64 * second"
proof -
  have "runOnce down_net False [] sample_agent = (Some BuildURL, [], sample_agent)"
    by (simp add: runOnce_def agent_open_def buildWSURL_def down_net_def)
  then have "Run_Agent second (replicate 8 down_round) sample_agent = (map ((*) second) [1, 2, 4, 8, 16, 32, 64, 64], [], False)"
    by (simp add: eval_nat_numeral down_round_def second_def)
  from this agent_backoff [OF this] show ?thesis by simp
qed

subsection \<open>Registration and status\<close>

lemma Upgraded_text: "handleWS hj cid r s = (Upgraded resp, s') \<Longrightarrow> resp = switching (wsAcceptKey (rq_Key r))"
  by (auto simp: handleWS_def split: if_splits)


definition sample_url :: URL where
  "sample_url = \<lparr>u_Scheme = ''wss'', u_Hostname = ''r'', u_Port = [], u_Host = ''r'', u_RequestURI = ''/ws?token=t&hostname=h&agent_id=a1''\<rparr>"

definition sample_net :: "bytes net" where
  "sample_net = \<lparr>nt_Parse = (\<lambda>_. Some sample_url),
     nt_Dial = (\<lambda>_ _ _. Some (map Byte (bytes_of_string (switching (wsAcceptKey ''k''))) @ [Idle], [])), nt_write = stream_write, nt_key = [],
     nt_masks = (\<lambda>_. sample_key)\<rparr>"


text \<open>Neither \<open>buildWSURL\<close> nor the request adds the query that the server asks for: an endpoint without one is answered with 400, and the agent
  gives up the connection with that error.\<close>

lemma agent_without_query:
  assumes "rq_Key r \<noteq> []" "rq_Query r ''token'' = []"
  shows "handleWS hj cid r s = (Refused (http_Error ''missing token/hostname/agent_id'' 400), s)"
    "nt_write nt = stream_write \<Longrightarrow>
     ws_upgrade nt u cx (map Byte (header_line ''HTTP/1.1 400 Bad Request'' @ [10]) @ es) [] = Inl (HandshakeRejected ''HTTP/1.1 400 Bad Request'')"
  using assms ws_upgrade_refused [of nt u "[]"] by (simp_all add: handleWS_def stream_write_def)

text \<open>(the agent's status).  A status that the agent sends on its connection is one frame, and the server's reader that takes this frame from the stream stores
  the status in the record of its own agent, with the address when there is one, and changes nothing else, whatever the message says of the agent and the session.\<close>

theorem agent_status_stored:
  assumes "ag_connWS a = Some ws" "nt_write nt = stream_write" "length (nt_masks nt (ws_keys ws)) = 4"
    and "utf8_valid sid" "utf8_valid st" "utf8_valid ip" "utf8_valid (rc_Token (ag_cfg a))" "utf8_valid (ag_agentID a)"
    and "length (Marshal (status_message a sid st ip)) < 2 ^ 32" "getAgent (wh_agent h) s = Some rec" "wh_reading h"
  shows "\<exists>frame. SendStatus nt sid st ip a = a\<lparr>ag_connWS := Some (ws\<lparr>ws_keys := ws_keys ws + 1, ws_out := ws_out ws @ frame\<rparr>)\<rparr> \<and>
    (wh_in h = map Byte frame @ es \<longrightarrow>
      serve_read wr (s, h) =
        (s\<lparr>st_agents := AList.update (wh_agent h)
            (rec\<lparr>ar_Status := st, ar_AssignedIP := if ip \<noteq> [] then ip else ar_AssignedIP rec\<rparr>) (st_agents s)\<rparr>, h\<lparr>wh_in := es\<rparr>))"
proof -
  let ?msg = "bytes_of_string (Marshal (status_message a sid st ip))"
  let ?frame = "enc_frame True 0x1 (Some (nt_masks nt (ws_keys ws))) ?msg"
  have "wsReadFrame (map Byte ?frame @ es) = (Inr (?msg, 0x1), es)"
    by (rule server_reads_frame) (use assms(3,9) in \<open>simp_all add: key_fits_def\<close>)
  moreover have "handleAgentMessage (wh_agent h) ?msg s = setAgentStatus (wh_agent h) st ip s"
    by (rule server_gets_status) (use assms in simp_all)
  moreover have "SendStatus nt sid st ip a = a\<lparr>ag_connWS := Some (ws\<lparr>ws_keys := ws_keys ws + 1, ws_out := ws_out ws @ ?frame\<rparr>)\<rparr>"
    using assms(1,2) by (simp add: SendStatus_def sendStatus_def sendText_def sent_frame)
  ultimately show ?thesis
    using assms(10,11) by (intro exI [of _ ?frame]) (simp add: serve_read_def setAgentStatus_def getAgent_def)
qed

definition online_agent :: "bytes Agent" where
  "online_agent = sample_agent\<lparr>ag_connWS := Some \<lparr>ws_in = [], ws_ctx = False, ws_out = [], ws_keys = 0\<rparr>, ag_pinging := True\<rparr>"

theorem agent_status_stored_witness:
  "\<exists>frame. SendStatus sample_net ''s1'' ''status'' [] online_agent =
       online_agent\<lparr>ag_connWS := Some \<lparr>ws_in = [], ws_ctx = False, ws_out = frame, ws_keys = 1\<rparr>\<rparr> \<and>
     ar_Status (the (getAgent ''a1'' (fst (serve_read stream_write
       (registerAgent ''x'' ''a1'' ''x'' ''c1'' newStore, new_handler ''a1'' ''c1'' (map Byte frame) []))))) = ''status''"
proof -
  have "length (Marshal (status_message online_agent ''s1'' ''status'' [])) \<le> 200"
    by code_simp
  then have small: "length (Marshal (status_message online_agent ''s1'' ''status'' [])) < 2 ^ 32"
    by simp
  have "utf8_valid ''s1''" "utf8_valid ''t''" "utf8_valid ''a1''"
    by (rule utf8_ascii, code_simp)+
  then have "\<exists>frame. SendStatus sample_net ''s1'' ''status'' [] online_agent =
       online_agent\<lparr>ag_connWS := Some \<lparr>ws_in = [], ws_ctx = False, ws_out = frame, ws_keys = 1\<rparr>\<rparr>"
    by (simp add: SendStatus_def sendStatus_def online_agent_def sample_agent_def sample_net_def sendText_def sent_frame)
  then obtain frame where f: "SendStatus sample_net ''s1'' ''status'' [] online_agent =
       online_agent\<lparr>ag_connWS := Some \<lparr>ws_in = [], ws_ctx = False, ws_out = frame, ws_keys = 1\<rparr>\<rparr>" ..
  let ?h = "new_handler ''a1'' ''c1'' (map Byte frame) []" and ?s = "registerAgent ''x'' ''a1'' ''x'' ''c1'' newStore"
  have "getAgent ''a1'' ?s = Some \<lparr>ar_Token = ''x'', ar_AgentID = ''a1'', ar_Hostname = ''x'', ar_Status = ''standby'', ar_AssignedIP = [], ar_ConnID = ''c1''\<rparr>"
    by (simp add: getAgent_def registerAgent_def newStore_def)
  note stored = agent_status_stored [of online_agent "\<lparr>ws_in = [], ws_ctx = False, ws_out = [], ws_keys = 0\<rparr>" sample_net "''s1''" "''status''" "[]" ?h ?s,
      OF _ _ _ _ _ _ _ _ small, where es = "[]" and wr = stream_write]
  show ?thesis
    using stored f \<open>getAgent ''a1'' ?s = _\<close> \<open>utf8_valid ''s1''\<close> \<open>utf8_valid ''t''\<close> \<open>utf8_valid ''a1''\<close>
    by (intro exI [of _ frame]) (auto simp: online_agent_def sample_agent_def sample_net_def sample_key_def new_handler_def getAgent_def update_conv')
qed

end
