(* ===== verification/Relay_Client.thy ===== *)
theory Relay_Client
  imports Relay_Agent
begin

section \<open>cmd/daemon: the client of the relay's HTTP interface\<close>

text \<open>
  \<^verbatim>\<open>cmd/daemon/relay_client.go\<close>: reserving an agent, delivering the credentials of the second phase to it, releasing it and listing the agents.
  The package \<^verbatim>\<open>net/http\<close> is the record \<open>http\<close>: whether a request can be built, and what the other side answers, with its state.

  The last part puts the relay together: the client's requests served by the server of \<open>Relay_Server\<close>, the server's connection, and the agent of
  \<open>Relay_Agent\<close> at its other end.
\<close>

record http_request =
  hr_Method :: string
  hr_URL :: string
  hr_Headers :: "(string \<times> string) list"
  hr_Body :: string

record 'n http =
  hc_NewRequest :: "string \<Rightarrow> string \<Rightarrow> bool"
  hc_Do :: "http_request \<Rightarrow> 'n \<Rightarrow> (nat \<times> string) option \<times> 'n"

datatype rc_error = RcBuild | RcDo string | RcStatus string nat string | RcNoSession

definition relayDefaultBase :: string where "relayDefaultBase = ''https://api.relay.openlawsvpn.com/api/v1''"

definition bearer :: "string \<Rightarrow> string \<times> string" where "bearer orgToken = (''Authorization'', ''Bearer '' @ orgToken)"

text \<open>\<^verbatim>\<open>json.Unmarshal\<close> into a map: a later key overwrites an earlier one, and what is no object leaves the map empty.\<close>

definition decode_map :: "string \<Rightarrow> string \<Rightarrow> json option" where
  "decode_map raw = (case parse_json raw of Some (JObj ms) \<Rightarrow> map_of (rev ms) | _ \<Rightarrow> Map.empty)"

definition relayPost :: "'n http \<Rightarrow> string \<Rightarrow> string \<Rightarrow> string \<Rightarrow> 'n \<Rightarrow> (rc_error, string \<Rightarrow> json option) result \<times> 'n" where
  "relayPost hc url orgToken body n =
     (if \<not> hc_NewRequest hc ''POST'' url then (Inl RcBuild, n)
      else case hc_Do hc \<lparr>hr_Method = ''POST'', hr_URL = url, hr_Headers = [(''Content-Type'', ''application/json''), bearer orgToken], hr_Body = body\<rparr> n of
        (None, n1) \<Rightarrow> (Inl (RcDo url), n1)
      | (Some (status, raw), n1) \<Rightarrow>
          if status < 200 \<or> 300 \<le> status then (Inl (RcStatus url status raw), n1)
          else (Inr (if raw = [] then Map.empty else decode_map raw), n1))"

definition relayConnect :: "'n http \<Rightarrow> string \<Rightarrow> string \<Rightarrow> string \<Rightarrow> 'n \<Rightarrow> (rc_error, string) result \<times> 'n" where
  "relayConnect hc baseURL orgToken agentID n =
     (case relayPost hc (baseURL @ ''/connect'') orgToken (Marshal (json_map [(''agent_id'', JStr agentID)])) n of
        (Inl e, n1) \<Rightarrow> (Inl e, n1)
      | (Inr resp, n1) \<Rightarrow>
          (case resp ''session_id'' of
             Some (JStr sid) \<Rightarrow> (if sid = [] then Inl RcNoSession else Inr sid, n1)
           | _ \<Rightarrow> (Inl RcNoSession, n1)))"

definition execute_body :: "string \<Rightarrow> string \<Rightarrow> string \<Rightarrow> string \<Rightarrow> json" where
  "execute_body ovpnConfig stateID samlResponse remoteIP =
     json_map [(''ovpn_config'', JStr ovpnConfig), (''state_id'', JStr stateID), (''saml_response'', JStr samlResponse), (''remote_ip'', JStr remoteIP)]"

definition relayExecute :: "'n http \<Rightarrow> string \<Rightarrow> string \<Rightarrow> string \<Rightarrow> string \<Rightarrow> string \<Rightarrow> string \<Rightarrow> string \<Rightarrow> 'n \<Rightarrow> rc_error option \<times> 'n" where
  "relayExecute hc baseURL orgToken sessionID ovpnConfig stateID samlResponse remoteIP n =
     (case relayPost hc (baseURL @ ''/session/'' @ sessionID @ ''/execute'') orgToken (Marshal (execute_body ovpnConfig stateID samlResponse remoteIP)) n of
        (Inl e, n1) \<Rightarrow> (Some e, n1)
      | (Inr _, n1) \<Rightarrow> (None, n1))"

definition relayRelease :: "'n http \<Rightarrow> string \<Rightarrow> string \<Rightarrow> string \<Rightarrow> 'n \<Rightarrow> rc_error option \<times> 'n" where
  "relayRelease hc baseURL orgToken sessionID n =
     (let url = baseURL @ ''/session/'' @ sessionID @ ''/release'' in
      if \<not> hc_NewRequest hc ''DELETE'' url then (Some RcBuild, n)
      else case hc_Do hc \<lparr>hr_Method = ''DELETE'', hr_URL = url, hr_Headers = [(''Content-Type'', ''application/json''), bearer orgToken], hr_Body = ''{}''\<rparr> n of
        (None, n1) \<Rightarrow> (Some (RcDo url), n1)
      | (Some (status, raw), n1) \<Rightarrow> (if 300 \<le> status then Some (RcStatus url status raw) else None, n1))"

definition relayListAgents :: "'n http \<Rightarrow> string \<Rightarrow> string \<Rightarrow> 'n \<Rightarrow> (rc_error, string) result \<times> 'n" where
  "relayListAgents hc baseURL orgToken n =
     (let url = baseURL @ ''/agents'' in
      if \<not> hc_NewRequest hc ''GET'' url then (Inl RcBuild, n)
      else case hc_Do hc \<lparr>hr_Method = ''GET'', hr_URL = url, hr_Headers = [bearer orgToken], hr_Body = []\<rparr> n of
        (None, n1) \<Rightarrow> (Inl (RcDo url), n1)
      | (Some (status, raw), n1) \<Rightarrow> (if status \<noteq> 200 then Inl (RcStatus url status raw) else Inr raw, n1))"

subsection \<open>The client's requests at the server\<close>

text \<open>\<open>locate\<close> is what the server's URL parser makes of a URL: the path and the query.\<close>

definition server_http :: "(string \<Rightarrow> string \<times> (string \<Rightarrow> string)) \<Rightarrow> string \<Rightarrow> store http" where
  "server_http locate newid =
     \<lparr>hc_NewRequest = (\<lambda>_ _. True),
      hc_Do = (\<lambda>req s.
        case ServeHTTP Hijacked newid \<lparr>rq_Method = hr_Method req, rq_Path = fst (locate (hr_URL req)), rq_Query = snd (locate (hr_URL req)), rq_Key = [],
            rq_Body = hr_Body req\<rparr> s of
          (Response a, s1) \<Rightarrow> (Some (rp_Status a, rp_Body a), s1)
        | (WebSocket (Refused a), s1) \<Rightarrow> (Some (rp_Status a, rp_Body a), s1)
        | (WebSocket _, s1) \<Rightarrow> (None, s1))\<rparr>"

lemma parse_json_Marshal_newline: "wf_json max_depth v \<Longrightarrow> parse_json (Marshal v @ [CHR 0x0A]) = Some v"
  using parse_print_all(1) [of max_depth v "2 * length (Marshal v @ [CHR 0x0A]) + 1" "[CHR 0x0A]"]
  by (simp add: parse_json_def Marshal_def stops_def is_ws_def)

lemma decode_session: "utf8_valid sid \<Longrightarrow> decode_map (Marshal (json_map [(''session_id'', JStr sid)]) @ [CHR 0x0A]) ''session_id'' = Some (JStr sid)"
  using parse_json_Marshal_newline [of "json_map [(''session_id'', JStr sid)]"] by (simp add: decode_map_def json_map_def max_depth_def)

lemma prefix_trimmed: "HasPrefix (p @ s) p" "TrimPrefix (p @ s) p = s" "HasSuffix (s @ p) p"
  by (simp_all add: HasPrefix_def TrimPrefix_def HasSuffix_def)

lemma session_paths:
  assumes "CHR ''/'' \<notin> set sid" "CHR ''/'' \<notin> set t"
  shows "session_path (CHR ''/'' # t) (''/api/v1/session/'' @ sid @ CHR ''/'' # t) = Some (sid @ CHR ''/'' # t)" "session_part (sid @ CHR ''/'' # t) = Some sid"
  using prefix_trimmed [of "''/api/v1/session/''" "sid @ CHR ''/'' # t"] prefix_trimmed(3) [of "''/api/v1/session/'' @ sid" "CHR ''/'' # t"] assms
  by (simp_all add: session_path_def session_part_def Split_append_sep Split_free)

lemma ServeHTTP_connect:
  "rq_Path r = ''/api/v1/connect'' \<Longrightarrow> rq_Method r = ''POST'' \<Longrightarrow> ServeHTTP hj nid r s = apfst Response (handleConnect nid r s)"
  by (simp add: ServeHTTP_def)

lemma ServeHTTP_execute:
  assumes "rq_Path r = ''/api/v1/session/'' @ sid @ ''/execute''" "rq_Method r = ''POST''" "CHR ''/'' \<notin> set sid"
  shows "ServeHTTP hj nid r s = apfst Response (handleExecute sid r s)"
proof -
  have "CHR ''/'' \<notin> set ''execute''" by simp
  note sp = session_paths [OF assms(3) this]
  have "rq_Path r \<noteq> ''/ws''" "rq_Path r \<noteq> ''/api/v1/agents''" "rq_Path r \<noteq> ''/api/v1/connect''"
    by (simp_all add: assms(1))
  then show ?thesis
    unfolding ServeHTTP_def assms(1,2) using sp by simp
qed

lemma ServeHTTP_release:
  assumes "rq_Path r = ''/api/v1/session/'' @ sid @ ''/release''" "rq_Method r = ''DELETE''" "CHR ''/'' \<notin> set sid"
  shows "ServeHTTP hj nid r s = apfst Response (handleRelease sid s)"
proof -
  have "CHR ''/'' \<notin> set ''release''" by simp
  note sp = session_paths [OF assms(3) this]
  have "rq_Path r \<noteq> ''/ws''" "rq_Path r \<noteq> ''/api/v1/agents''" "rq_Path r \<noteq> ''/api/v1/connect''"
    by (simp_all add: assms(1))
  then show ?thesis
    unfolding ServeHTTP_def assms(1,2) using sp by simp
qed

definition disconnect_push :: "string \<Rightarrow> json" where
  "disconnect_push sid = json_map [(''action'', JStr ''disconnect''), (''session_id'', JStr sid), (''payload'', JObj [])]"

lemma relayRelease_served:
  assumes "locate (base @ ''/session/'' @ sid @ ''/release'') = (''/api/v1/session/'' @ sid @ ''/release'', qf)" "CHR ''/'' \<notin> set sid"
    "getSession sid s = Some sess" "getAgent (sr_AgentID sess) s = Some rec" "ar_ConnID rec \<noteq> []" "connChan (ar_ConnID rec) s = Some q" "length q < 16"
  shows "relayRelease (server_http locate nid) base tok sid s =
    (None, s\<lparr>st_conns := AList.update (ar_ConnID rec) (q @ [bytes_of_string (Marshal (disconnect_push sid))]) (st_conns s)\<rparr>)"
  using assms
  by (simp add: relayRelease_def server_http_def ServeHTTP_release handleRelease_def pushToAgent_def getAgent_def connChan_def chan_capacity_def http_OK_def
      disconnect_push_def Let_def)

lemma relayConnect_served:
  assumes "locate (base @ ''/connect'') = (''/api/v1/connect'', qf)" "getAgent agentID s = Some rec" "ar_Status rec \<noteq> ''offline''"
    "\<not> hasActiveSession agentID s" "utf8_valid agentID" "utf8_valid sid" "sid \<noteq> []"
  shows "relayConnect (server_http locate sid) base tok agentID s = (Inr sid, createSession sid [] agentID s)"
proof -
  let ?kinds = "[(''token'', KString), (''agent_id'', KString)]" and ?v = "json_map [(''agent_id'', JStr agentID)]"
  have "wf_json max_depth ?v" using assms(5) by (simp add: json_map_def max_depth_def)
  from Decode_Marshal [OF this, of "[]" ?kinds] have dec: "Decode ?kinds (Marshal ?v) = Some [''agent_id'' \<mapsto> JStr agentID]"
    by (simp add: stops_def decode_simps)
  have "handleConnect sid \<lparr>rq_Method = ''POST'', rq_Path = ''/api/v1/connect'', rq_Query = qf, rq_Key = [], rq_Body = Marshal ?v\<rparr> s =
      (http_JSON (json_map [(''session_id'', JStr sid)]), createSession sid [] agentID s)"
    using assms(2-4) by (simp add: handleConnect_def dec string_field_def)
  then show ?thesis
    using assms(1,7) decode_session [OF assms(6)]
    by (simp add: relayConnect_def relayPost_def server_http_def ServeHTTP_connect http_JSON_def)
qed

lemma relayExecute_served:
  assumes "locate (base @ ''/session/'' @ sid @ ''/execute'') = (''/api/v1/session/'' @ sid @ ''/execute'', qf)" "CHR ''/'' \<notin> set sid"
    "getSession sid s = Some sess" "getAgent (sr_AgentID sess) s = Some rec" "ar_ConnID rec \<noteq> []" "connChan (ar_ConnID rec) s = Some q" "length q < 16"
    and ok: "utf8_valid config" "utf8_valid stateID" "utf8_valid token" "utf8_valid ip"
  shows "\<exists>body. relayExecute (server_http locate nid) base tok sid config stateID token ip s =
      (None, s\<lparr>st_conns := AList.update (ar_ConnID rec) (q @ [bytes_of_string (Marshal (phase2_push sid body))]) (st_conns s)\<rparr>) \<and>
    string_field body ''ovpn_config'' = config \<and> string_field body ''state_id'' = stateID \<and> string_field body ''saml_response'' = token \<and>
    string_field body ''remote_ip'' = ip"
proof -
  let ?v = "execute_body config stateID token ip"
  have "wf_json max_depth ?v" using ok by (simp add: execute_body_def json_map_def max_depth_def)
  from Decode_Marshal [OF this, of "[]" execute_kinds] obtain body where body: "Decode execute_kinds (Marshal ?v) = Some body"
    "string_field body ''ovpn_config'' = config" "string_field body ''state_id'' = stateID" "string_field body ''saml_response'' = token"
    "string_field body ''remote_ip'' = ip"
    by (simp add: stops_def decode_simps execute_body_def execute_kinds_def)
  have "handleExecute sid \<lparr>rq_Method = ''POST'', rq_Path = ''/api/v1/session/'' @ sid @ ''/execute'', rq_Query = qf, rq_Key = [], rq_Body = Marshal ?v\<rparr> s =
      (http_OK, s\<lparr>st_conns := AList.update (ar_ConnID rec) (q @ [bytes_of_string (Marshal (phase2_push sid body))]) (st_conns s)\<rparr>)"
    using assms(3-7) by (simp add: handleExecute_def body(1) pushToAgent_def getAgent_def connChan_def chan_capacity_def)
  then show ?thesis
    using assms(1,2) body
    by (intro exI [of _ body]) (simp add: relayExecute_def relayPost_def server_http_def ServeHTTP_execute http_OK_def)
qed

subsection \<open>From the server's channel to the agent\<close>

abbreviation text_frames :: "bytes list \<Rightarrow> bytes" where
  "text_frames ms \<equiv> concat (map (enc_frame True 0x1 None) ms)"

lemma serve_write_message:
  assumes "wh_writing h" "connChan (wh_conn h) s = Some (m # ms)"
  shows "serve_write stream_write (s, h) =
    (s\<lparr>st_conns := AList.update (wh_conn h) ms (st_conns s)\<rparr>, h\<lparr>wh_out := wh_out h @ enc_frame True 0x1 None m\<rparr>)"
  using assms by (simp add: serve_write_def wsSendText_def wsSendFrame_def stream_write_def enc_frame_def)

lemma serve_writes:
  "wh_writing h \<Longrightarrow> connChan (wh_conn h) s = Some (ms @ rest) \<Longrightarrow>
   \<exists>s'. (serve_write stream_write ^^ length ms) (s, h) = (s', h\<lparr>wh_out := wh_out h @ text_frames ms\<rparr>) \<and> connChan (wh_conn h) s' = Some rest"
proof (induction ms arbitrary: s h)
  case (Cons m ms)
  let ?s = "s\<lparr>st_conns := AList.update (wh_conn h) (ms @ rest) (st_conns s)\<rparr>" and ?h = "h\<lparr>wh_out := wh_out h @ enc_frame True 0x1 None m\<rparr>"
  have "connChan (wh_conn ?h) ?s = Some (ms @ rest)" by (simp add: connChan_def update_conv')
  from Cons.IH [OF _ this] Cons.prems(1) obtain s' where
    "(serve_write stream_write ^^ length ms) (?s, ?h) = (s', ?h\<lparr>wh_out := wh_out ?h @ text_frames ms\<rparr>)" "connChan (wh_conn h) s' = Some rest"
    by auto
  then show ?case
    using serve_write_message [OF Cons.prems(1), of s m "ms @ rest"] Cons.prems(2) by (simp add: funpow_Suc_right del: funpow.simps)
qed simp

lemma handleMessage_conn [simp]: "handleMessage (a\<lparr>ag_connWS := x\<rparr>) m = handleMessage a m"
  by (simp add: handleMessage_def cong: option.case_cong)

lemma read_step_message:
  assumes "ag_connWS a = Some ws" "\<not> ws_ctx ws" "ws_in ws = map Byte (enc_frame True 0x1 None m) @ es" "m \<noteq> []" "length m < 2 ^ 32"
  shows "read_step nt a = (Inr (handleMessage a m), a\<lparr>ag_connWS := Some (ws\<lparr>ws_in := es\<rparr>)\<rparr>)"
proof -
  have ws: "ws\<lparr>ws_in := map Byte (enc_frame True 0x1 None m) @ es\<rparr> = ws" using assms(3) by (cases ws) simp
  have "readMessage (nt_masks nt) (nt_write nt) [] ws = (Inr m, ws\<lparr>ws_in := es\<rparr>)"
    using readMessage_frame [OF assms(2) opcodes(3) _ assms(5), of None "nt_masks nt" "nt_write nt" "[]" True es] assms(4)
    unfolding ws by (simp add: key_fits_def)
  then show ?thesis by (simp add: read_step_def assms(1))
qed

lemma agent_reads:
  "ag_connWS a = Some ws \<Longrightarrow> \<not> ws_ctx ws \<Longrightarrow> ws_in ws = map Byte (text_frames ms) @ es \<Longrightarrow> \<forall>m \<in> set ms. m \<noteq> [] \<and> length m < 2 ^ 32 \<Longrightarrow>
   agent_serve nt (replicate (length ms) ReadStep) a = (None, concat (map (handleMessage a) ms), a\<lparr>ag_connWS := Some (ws\<lparr>ws_in := es\<rparr>)\<rparr>)"
proof (induction ms arbitrary: a ws)
  case Nil
  have "ws\<lparr>ws_in := es\<rparr> = ws" using Nil.prems(3) by (cases ws) simp
  then show ?case using Nil.prems(1) by (cases a) simp
next
  case (Cons m ms)
  have step: "read_step nt a = (Inr (handleMessage a m), a\<lparr>ag_connWS := Some (ws\<lparr>ws_in := map Byte (text_frames ms) @ es\<rparr>)\<rparr>)"
    by (rule read_step_message [OF Cons.prems(1,2)]) (use Cons.prems(3,4) in simp_all)
  show ?case
    using Cons.IH [of "a\<lparr>ag_connWS := Some (ws\<lparr>ws_in := map Byte (text_frames ms) @ es\<rparr>)\<rparr>" "ws\<lparr>ws_in := map Byte (text_frames ms) @ es\<rparr>"] Cons.prems
    by (simp add: step)
qed

definition sent_fields :: "string \<Rightarrow> string \<Rightarrow> string \<Rightarrow> string \<Rightarrow> struct" where
  "sent_fields config stateID token ip =
     [''ovpn_config'' \<mapsto> JStr config, ''state_id'' \<mapsto> JStr stateID, ''saml_response'' \<mapsto> JStr token, ''remote_ip'' \<mapsto> JStr ip]"

lemma phase2_push_fields:
  "string_field body ''ovpn_config'' = config \<Longrightarrow> string_field body ''state_id'' = stateID \<Longrightarrow> string_field body ''saml_response'' = token \<Longrightarrow>
   string_field body ''remote_ip'' = ip \<Longrightarrow> phase2_push sid body = phase2_push sid (sent_fields config stateID token ip)"
  by (simp add: phase2_push_def sent_fields_def) (simp add: string_field_def)

lemma Marshal_nonempty: "bytes_of_string (Marshal (phase2_push sid body)) \<noteq> []"
  by (simp add: phase2_push_def json_map_def Marshal_def bytes_of_string_def)

text \<open>C10 (credentials through the relay).  For an agent that is connected and free, with at most fifteen messages waiting for it: the daemon's request to
  reserve it gives the new session, its request to deliver the credentials succeeds, and once the server's writer has sent what waits on the connection, the agent
  at the other end has handled the earlier messages in their order and then calls its callback, once, with exactly the profile, the state identifier, the
  SAML response and the address that the daemon sent, for this session.\<close>

theorem relay_delivers_phase2:
  assumes "locate (base @ ''/connect'') = (''/api/v1/connect'', qf)"
    and "locate (base @ ''/session/'' @ sid @ ''/execute'') = (''/api/v1/session/'' @ sid @ ''/execute'', qf')"
    and "sid \<noteq> []" "CHR ''/'' \<notin> set sid" "utf8_valid sid" "utf8_valid agentID"
    and "getAgent agentID s = Some rec" "ar_Status rec \<noteq> ''offline''" "\<not> hasActiveSession agentID s"
    and "ar_ConnID rec = wh_conn h" "wh_conn h \<noteq> []" "wh_writing h" "connChan (wh_conn h) s = Some q" "length q < 16"
    and "\<forall>m \<in> set q. m \<noteq> [] \<and> length m < 2 ^ 32"
    and "utf8_valid config" "utf8_valid stateID" "utf8_valid token" "utf8_valid ip"
    and "length (Marshal (phase2_push sid (sent_fields config stateID token ip))) < 2 ^ 32"
  shows "\<exists>s1 s2 s3 sent.
    relayConnect (server_http locate sid) base tok agentID s = (Inr sid, s1) \<and>
    relayExecute (server_http locate nid) base tok sid config stateID token ip s1 = (None, s2) \<and>
    (serve_write stream_write ^^ (length q + 1)) (s2, h) = (s3, h\<lparr>wh_out := wh_out h @ sent\<rparr>) \<and> connChan (wh_conn h) s3 = Some [] \<and>
    (\<forall>a ws es. ag_connWS a = Some ws \<and> \<not> ws_ctx ws \<and> ws_in ws = map Byte sent @ es \<longrightarrow>
      agent_serve nt (replicate (length q + 1) ReadStep) a =
        (None, concat (map (handleMessage a) q) @ [CallOnPhase2 \<lparr>p2_SessionID = sid, p2_StateID = stateID, p2_SAMLResponse = token, p2_RemoteIP = ip,
           p2_OvpnConfig = config\<rparr>], a\<lparr>ag_connWS := Some (ws\<lparr>ws_in := es\<rparr>)\<rparr>))"
proof -
  let ?s1 = "createSession sid [] agentID s"
  have connect: "relayConnect (server_http locate sid) base tok agentID s = (Inr sid, ?s1)"
    by (rule relayConnect_served [of locate base qf agentID s rec sid]) (use assms in simp_all)
  have s1: "getSession sid ?s1 = Some \<lparr>sr_SessionID = sid, sr_Token = [], sr_AgentID = agentID, sr_State = ''initiated''\<rparr>"
    "getAgent agentID ?s1 = Some rec" "connChan (ar_ConnID rec) ?s1 = Some q"
    using assms(7,10,13) by (simp_all add: createSession_def getSession_def getAgent_def connChan_def update_conv')
  obtain body where ex: "relayExecute (server_http locate nid) base tok sid config stateID token ip ?s1 =
      (None, ?s1\<lparr>st_conns := AList.update (ar_ConnID rec) (q @ [bytes_of_string (Marshal (phase2_push sid body))]) (st_conns ?s1)\<rparr>)"
    (is "_ = (None, ?s2)") and
    body: "string_field body ''ovpn_config'' = config" "string_field body ''state_id'' = stateID" "string_field body ''saml_response'' = token"
    "string_field body ''remote_ip'' = ip"
    using relayExecute_served [of locate base sid qf' ?s1 _ rec q config stateID token ip nid tok, OF assms(2,4) s1(1)] s1(2,3) assms(10,11,14,16-19) by auto
  let ?ms = "q @ [bytes_of_string (Marshal (phase2_push sid body))]"
  have "connChan (wh_conn h) ?s2 = Some (?ms @ [])" by (simp add: connChan_def update_conv' assms(10))
  from serve_writes [OF assms(12) this] obtain s3 where
    writes: "(serve_write stream_write ^^ (length q + 1)) (?s2, h) = (s3, h\<lparr>wh_out := wh_out h @ text_frames ?ms\<rparr>)" "connChan (wh_conn h) s3 = Some []"
    by (auto simp del: map_append concat_append funpow.simps)
  have sizes: "\<forall>m \<in> set ?ms. m \<noteq> [] \<and> length m < 2 ^ 32"
    using assms(15) assms(20) Marshal_nonempty [of sid body] phase2_push_fields [OF body, of sid] by (simp add: bytes_of_string_def)
  have "agent_serve nt (replicate (length q + 1) ReadStep) a =
      (None, concat (map (handleMessage a) q) @ [CallOnPhase2 \<lparr>p2_SessionID = sid, p2_StateID = stateID, p2_SAMLResponse = token, p2_RemoteIP = ip,
         p2_OvpnConfig = config\<rparr>], a\<lparr>ag_connWS := Some (ws\<lparr>ws_in := es\<rparr>)\<rparr>)"
    if "ag_connWS a = Some ws" "\<not> ws_ctx ws" "ws_in ws = map Byte (text_frames ?ms) @ es" for a ws es
    using agent_reads [OF that sizes, of nt] handle_phase2_push [of sid body a] assms(5,16-19) by (simp add: body)
  with connect ex writes show ?thesis by blast
qed

definition sample_base :: string where "sample_base = ''http://r/api/v1''"

definition sample_locate :: "string \<Rightarrow> string \<times> (string \<Rightarrow> string)" where
  "sample_locate url = (TrimPrefix url ''http://r'', \<lambda>_. [])"

definition sample_store :: store where "sample_store = registerAgent ''x'' ''a1'' ''x'' ''c1'' newStore"

definition sample_handler :: "bytes handler" where "sample_handler = new_handler ''a1'' ''c1'' [] []"

theorem relay_delivers_phase2_witness:
  "\<exists>s1 s2 s3 sent.
    relayConnect (server_http sample_locate ''s1'') sample_base ''t'' ''a1'' sample_store = (Inr ''s1'', s1) \<and>
    relayExecute (server_http sample_locate ''n'') sample_base ''t'' ''s1'' ''cfg'' ''st'' ''tok'' ''ip'' s1 = (None, s2) \<and>
    (serve_write stream_write ^^ (length ([] :: bytes list) + 1)) (s2, sample_handler) = (s3, sample_handler\<lparr>wh_out := wh_out sample_handler @ sent\<rparr>) \<and>
    fst (snd (agent_serve sample_net (replicate (length ([] :: bytes list) + 1) ReadStep)
       (online_agent\<lparr>ag_connWS := Some \<lparr>ws_in = map Byte sent @ [Idle], ws_ctx = False, ws_out = [], ws_keys = 0\<rparr>\<rparr>))) =
    [CallOnPhase2 \<lparr>p2_SessionID = ''s1'', p2_StateID = ''st'', p2_SAMLResponse = ''tok'', p2_RemoteIP = ''ip'', p2_OvpnConfig = ''cfg''\<rparr>]"
proof -
  have v: "utf8_valid ''s1''" "utf8_valid ''a1''" "utf8_valid ''cfg''" "utf8_valid ''st''" "utf8_valid ''tok''" "utf8_valid ''ip''"
    by (rule utf8_ascii, code_simp)+
  have l: "sample_locate (sample_base @ ''/connect'') = (''/api/v1/connect'', \<lambda>_. [])"
    "sample_locate (sample_base @ ''/session/'' @ ''s1'' @ ''/execute'') = (''/api/v1/session/'' @ ''s1'' @ ''/execute'', \<lambda>_. [])"
    by (simp_all add: sample_locate_def sample_base_def TrimPrefix_def HasPrefix_def)
  have "length (Marshal (phase2_push ''s1'' (sent_fields ''cfg'' ''st'' ''tok'' ''ip''))) \<le> 300"
    by code_simp
  then have n: "length (Marshal (phase2_push ''s1'' (sent_fields ''cfg'' ''st'' ''tok'' ''ip''))) < 2 ^ 32"
    by simp
  have s: "getAgent ''a1'' sample_store = Some \<lparr>ar_Token = ''x'', ar_AgentID = ''a1'', ar_Hostname = ''x'', ar_Status = ''standby'', ar_AssignedIP = [], ar_ConnID = ''c1''\<rparr>"
    "\<not> hasActiveSession ''a1'' sample_store" "connChan ''c1'' sample_store = Some []"
    by (simp_all add: sample_store_def registerAgent_def newStore_def getAgent_def hasActiveSession_def connChan_def)
  have h: "wh_conn sample_handler = ''c1''" "wh_writing sample_handler" by (simp_all add: sample_handler_def new_handler_def)
  let ?a = "\<lambda>sent. online_agent\<lparr>ag_connWS := Some \<lparr>ws_in = map Byte sent @ [Idle], ws_ctx = False, ws_out = [], ws_keys = 0\<rparr>\<rparr>"
  obtain s1 s2 s3 sent where d: "relayConnect (server_http sample_locate ''s1'') sample_base ''t'' ''a1'' sample_store = (Inr ''s1'', s1)"
    "relayExecute (server_http sample_locate ''n'') sample_base ''t'' ''s1'' ''cfg'' ''st'' ''tok'' ''ip'' s1 = (None, s2)"
    "(serve_write stream_write ^^ (length ([] :: bytes list) + 1)) (s2, sample_handler) = (s3, sample_handler\<lparr>wh_out := wh_out sample_handler @ sent\<rparr>)"
    "\<And>a ws es. ag_connWS a = Some ws \<Longrightarrow> \<not> ws_ctx ws \<Longrightarrow> ws_in ws = map Byte sent @ es \<Longrightarrow>
      agent_serve sample_net (replicate (length ([] :: bytes list) + 1) ReadStep) a = (None, concat (map (handleMessage a) []) @
        [CallOnPhase2 \<lparr>p2_SessionID = ''s1'', p2_StateID = ''st'', p2_SAMLResponse = ''tok'', p2_RemoteIP = ''ip'', p2_OvpnConfig = ''cfg''\<rparr>],
        a\<lparr>ag_connWS := Some (ws\<lparr>ws_in := es\<rparr>)\<rparr>)"
    using relay_delivers_phase2 [OF l _ _ v(1,2) s(1) _ s(2) _ _ _ _ _ _ v(3-6) n, where h = sample_handler and q = "[]" and tok = "''t''" and nid = "''n''"
      and nt = sample_net] s(3) h by (auto simp del: replicate.simps funpow.simps)
  from d(4) [of "?a sent" "\<lparr>ws_in = map Byte sent @ [Idle], ws_ctx = False, ws_out = [], ws_keys = 0\<rparr>" "[Idle]"] d(1-3) show ?thesis
    by (intro exI conjI) (assumption, assumption, assumption, simp del: replicate.simps)
qed

subsection \<open>Release and listing\<close>

text \<open>A release pushes a disconnect to the agent, which calls its callback.\<close>

lemma handle_disconnect_push:
  assumes "utf8_valid sid"
  shows "handleMessage a (bytes_of_string (Marshal (disconnect_push sid))) = (if rc_OnDisconnect (ag_cfg a) then [CallOnDisconnect] else [])"
proof -
  have "wf_json max_depth (disconnect_push sid)" using assms by (simp add: disconnect_push_def json_map_def max_depth_def)
  from Unmarshal_Marshal [OF this, of envelope_kinds] show ?thesis
    by (simp add: handleMessage_def decode_simps envelope_kinds_def disconnect_push_def)
qed

text \<open>The client sends its token in the header, the server takes it from the query, and no agent is registered with an empty token: the list that the client
  gets is always empty.\<close>

lemma listed_agents_empty:
  assumes "locate (base @ ''/agents'') = (''/api/v1/agents'', \<lambda>_. [])" "\<forall>(k, a) \<in> set (st_agents s). ar_Token a \<noteq> []"
  shows "relayListAgents (server_http locate nid) base tok s = (Inr (''[]'' @ [CHR 0x0A]), s)"
proof -
  have "listAgents [] s = []" using assms(2) by (auto simp: listAgents_def filter_empty_conv)
  then show ?thesis
    using assms(1) by (simp add: relayListAgents_def server_http_def ServeHTTP_def handleListAgents_def http_JSON_def Marshal_def)
qed

end
