(* ===== verification/Daemon.thy ===== *)
theory Daemon
  imports Relay_Client
begin

section \<open>cmd/daemon: the D-Bus service\<close>

text \<open>
  \<^verbatim>\<open>cmd/daemon/service.go\<close>: the calls \<open>Connect\<close>, \<open>ConnectRelay\<close>, \<open>Disconnect\<close> and \<open>Status\<close> that the bus makes, and the goroutines that they start, as
  one state and one function per step.  The field \<open>ds_job\<close> says where the goroutine of the active connection is: in \<open>client.Connect\<close>, in the loop of the
  statistics, stopping, or at one of the points of the relay flow.  \<open>ds_ctx\<close> says whether its context is cancelled; \<open>ds_releases\<close> are the calls of \<open>Disconnect\<close> that
  are releasing a relay session; \<open>ds_signals\<close> lists the signals emitted on the bus.  The two channels of the relay flow, \<open>captured\<close> and \<open>phase1Done\<close>,
  are the fields \<open>rj_captured\<close> and \<open>rj_phase1\<close> of its job.

  The client moves by itself while its goroutine runs (\<open>client_moves\<close>, \<open>client_event\<close>, and the results that \<open>Connect\<close> and \<open>WaitForDisconnect\<close> return); the
  relay is the record \<open>http\<close> of \<open>Relay_Client\<close>, with its state \<open>ds_net\<close>.  The texts of errors are the parameters \<open>ctext\<close> and \<open>rtext\<close>.
  Steps of different goroutines interleave in any order; the lock of the service makes each of them one step.
\<close>

subsection \<open>State\<close>

datatype vpn_event =
    EventLog string
  | EventStateChanged client_state string string
  | EventStatsUpdate
  | EventRouteDrift string string
  | EventDNSDrift string

definition state_String :: "client_state \<Rightarrow> string" where
  "state_String s =
     (case s of
        StateIdle \<Rightarrow> ''idle''
      | StateConnecting \<Rightarrow> ''connecting''
      | StateWaitingSAML \<Rightarrow> ''waiting_saml''
      | StateConnected \<Rightarrow> ''connected''
      | StateDisconnecting \<Rightarrow> ''disconnecting''
      | StateReauthRequired \<Rightarrow> ''reauth_required''
      | StateError \<Rightarrow> ''error'')"

datatype dsignal = StateChanged string string string | LogLine string | StatsUpdate nat nat nat | SAMLRequired string

datatype dbus_error = Busy | InvalidProfile profile_error

record samlCapture =
  sc_stateID :: string
  sc_samlToken :: string

record relay_job =
  rj_base :: string
  rj_org :: string
  rj_agent :: string
  rj_content :: string
  rj_captured :: "samlCapture option"
  rj_phase1 :: "client_error option option"
  rj_suppress :: bool

datatype relay_pc = RelayReserve | RelayWait string | RelayDrain string samlCapture | RelayDeliver string samlCapture

datatype job = NoJob | ConnectJob | ServeJob | StopJob | RelayJob relay_pc relay_job

record 'n DaemonService =
  ds_client :: "Client option"
  ds_cancel :: bool
  ds_state :: client_state
  ds_profilePath :: string
  ds_relaySessionID :: string
  ds_relayBaseURL :: string
  ds_relayOrgToken :: string
  ds_ctx :: bool
  ds_job :: job
  ds_releases :: "(string \<times> string \<times> string) list"
  ds_signals :: "dsignal list"
  ds_net :: 'n

definition stateRelayDelivering :: string where "stateRelayDelivering = ''relay_delivering''"
definition stateRelayConnected :: string where "stateRelayConnected = ''relay_connected''"

definition newDaemonService :: "'n \<Rightarrow> 'n DaemonService" where
  "newDaemonService n =
     \<lparr>ds_client = None, ds_cancel = False, ds_state = StateIdle, ds_profilePath = [], ds_relaySessionID = [], ds_relayBaseURL = [], ds_relayOrgToken = [],
      ds_ctx = False, ds_job = NoJob, ds_releases = [], ds_signals = [], ds_net = n\<rparr>"

subsection \<open>Signals and events\<close>

definition emit_signal :: "dsignal \<Rightarrow> 'n DaemonService \<Rightarrow> 'n DaemonService" where
  "emit_signal x d = d\<lparr>ds_signals := ds_signals d @ [x]\<rparr>"

definition emitStateChangedStr :: "string \<Rightarrow> string \<Rightarrow> string \<Rightarrow> 'n DaemonService \<Rightarrow> 'n DaemonService" where
  "emitStateChangedStr state serverIP assignedIP = emit_signal (StateChanged state serverIP assignedIP)"

definition emitStateChanged :: "client_state \<Rightarrow> string \<Rightarrow> string \<Rightarrow> 'n DaemonService \<Rightarrow> 'n DaemonService" where
  "emitStateChanged s = emitStateChangedStr (state_String s)"

definition emitLogLine :: "string \<Rightarrow> 'n DaemonService \<Rightarrow> 'n DaemonService" where
  "emitLogLine line = emit_signal (LogLine line)"

definition emitStatsUpdate :: "nat \<Rightarrow> nat \<Rightarrow> nat \<Rightarrow> 'n DaemonService \<Rightarrow> 'n DaemonService" where
  "emitStatsUpdate nsent nrecv uptime = emit_signal (StatsUpdate nsent nrecv uptime)"

definition emitSAMLRequired :: "string \<Rightarrow> 'n DaemonService \<Rightarrow> 'n DaemonService" where
  "emitSAMLRequired url = emit_signal (SAMLRequired url)"

definition forward_event :: "vpn_event \<Rightarrow> 'n DaemonService \<Rightarrow> 'n DaemonService" where
  "forward_event e d =
     (case e of
        EventStateChanged st serverIP msg \<Rightarrow> emitStateChanged st serverIP msg (d\<lparr>ds_state := st\<rparr>)
      | EventLog msg \<Rightarrow> emitLogLine msg d
      | EventRouteDrift resource msg \<Rightarrow> emitLogLine (''vpn: route '' @ msg @ '': '' @ resource) d
      | EventDNSDrift msg \<Rightarrow> emitLogLine (''vpn: DNS '' @ msg) d
      | EventStatsUpdate \<Rightarrow> d)"

definition connect_EventFn :: "vpn_event \<Rightarrow> 'n DaemonService \<Rightarrow> 'n DaemonService" where
  "connect_EventFn = forward_event"

definition relay_EventFn :: "bool \<Rightarrow> vpn_event \<Rightarrow> 'n DaemonService \<Rightarrow> 'n DaemonService" where
  "relay_EventFn suppress e d =
     (case e of
        EventStateChanged st serverIP msg \<Rightarrow> if suppress then d else forward_event e d
      | _ \<Rightarrow> forward_event e d)"

definition client_event :: "vpn_event \<Rightarrow> 'n DaemonService \<Rightarrow> 'n DaemonService" where
  "client_event e d =
     (case ds_job d of
        NoJob \<Rightarrow> d
      | RelayJob pc j \<Rightarrow> relay_EventFn (rj_suppress j) e d
      | _ \<Rightarrow> connect_EventFn e d)"

subsection \<open>Connect\<close>

definition Daemon_Connect :: "string \<Rightarrow> string \<Rightarrow> 'n DaemonService \<Rightarrow> dbus_error option \<times> 'n DaemonService" where
  "Daemon_Connect profilePath profileContent d =
     (if ds_client d \<noteq> None then (Some Busy, d)
      else case ParseFile profileContent of
        Inl e \<Rightarrow> (Some (InvalidProfile e), d)
      | Inr p \<Rightarrow>
          (None, d\<lparr>ds_client := Some (New_Client p), ds_cancel := True, ds_ctx := False, ds_profilePath := profilePath, ds_job := ConnectJob\<rparr>))"

definition end_job :: "'n DaemonService \<Rightarrow> 'n DaemonService" where
  "end_job d = d\<lparr>ds_client := None, ds_cancel := False, ds_profilePath := [], ds_job := NoJob\<rparr>"

text \<open>\<open>SAMLTokenFn\<close> of a connection: the ACS server starts and the signal is emitted; the wait for the browser changes nothing here.\<close>

definition saml_required :: "bool \<Rightarrow> string \<Rightarrow> 'n DaemonService \<Rightarrow> 'n DaemonService" where
  "saml_required acs_ok url d = (if acs_ok then emitSAMLRequired url d else d)"

definition connect_returns :: "(client_error \<Rightarrow> string) \<Rightarrow> client_error option \<Rightarrow> 'n DaemonService \<Rightarrow> 'n DaemonService" where
  "connect_returns ctext r d =
     (case r of
        Some e \<Rightarrow>
          end_job (if ds_ctx d then d else emitStateChanged StateError [] (ctext e) (emitLogLine (''daemon: connect error: '' @ ctext e) d))
      | None \<Rightarrow> d\<lparr>ds_job := ServeJob\<rparr>)"

definition serve_done :: "(client_error \<Rightarrow> string) \<Rightarrow> client_error option \<Rightarrow> 'n DaemonService \<Rightarrow> 'n DaemonService" where
  "serve_done ctext r d =
     end_job (case r of Some e \<Rightarrow> if ds_ctx d then d else emitLogLine (''daemon: disconnected: '' @ ctext e) d | None \<Rightarrow> d)"

definition serve_tick :: "nat \<Rightarrow> nat \<Rightarrow> nat \<Rightarrow> 'n DaemonService \<Rightarrow> 'n DaemonService" where
  "serve_tick = emitStatsUpdate"

definition serve_cancelled :: "'n DaemonService \<Rightarrow> 'n DaemonService" where
  "serve_cancelled d = (if ds_ctx d then d\<lparr>ds_job := StopJob\<rparr> else d)"

subsection \<open>Disconnect and Status\<close>

definition Daemon_Disconnect :: "'n DaemonService \<Rightarrow> 'n DaemonService" where
  "Daemon_Disconnect d =
     (let sessionID = ds_relaySessionID d;
          d1 = (if sessionID \<noteq> [] then d\<lparr>ds_relaySessionID := [], ds_relayBaseURL := [], ds_relayOrgToken := []\<rparr> else d);
          d2 = (if ds_cancel d then d1\<lparr>ds_ctx := True\<rparr> else d1)
      in if sessionID \<noteq> [] then d2\<lparr>ds_releases := ds_releases d2 @ [(ds_relayBaseURL d, ds_relayOrgToken d, sessionID)]\<rparr> else d2)"

definition release_step :: "'n http \<Rightarrow> 'n DaemonService \<Rightarrow> 'n DaemonService" where
  "release_step hc d =
     (case ds_releases d of
        [] \<Rightarrow> d
      | (baseURL, orgToken, sessionID) # rs \<Rightarrow>
          emitStateChangedStr (state_String StateIdle) [] []
            (d\<lparr>ds_releases := rs, ds_net := snd (relayRelease hc baseURL orgToken sessionID (ds_net d))\<rparr>))"

definition Phase1IP :: "Client \<Rightarrow> string" where "Phase1IP c = cl_phase1IP c"

definition Status :: "'n DaemonService \<Rightarrow> string \<times> string \<times> string \<times> string" where
  "Status d =
     (state_String (ds_state d), case ds_client d of None \<Rightarrow> [] | Some c \<Rightarrow> Phase1IP c, case ds_client d of None \<Rightarrow> [] | Some c \<Rightarrow> LocalIP c,
      ds_profilePath d)"

subsection \<open>The relay flow\<close>

definition ConnectRelay :: "string \<Rightarrow> string \<Rightarrow> string \<Rightarrow> string \<Rightarrow> string \<Rightarrow> 'n DaemonService \<Rightarrow> dbus_error option \<times> 'n DaemonService" where
  "ConnectRelay profilePath profileContent agentID orgToken relayBaseURL d =
     (let base = (if relayBaseURL = [] then relayDefaultBase else relayBaseURL) in
      if ds_client d \<noteq> None then (Some Busy, d)
      else case ParseFile profileContent of
        Inl e \<Rightarrow> (Some (InvalidProfile e), d)
      | Inr p \<Rightarrow>
          (None, d\<lparr>ds_client := Some (New_Client p), ds_cancel := True, ds_ctx := False, ds_profilePath := profilePath,
             ds_job := RelayJob RelayReserve \<lparr>rj_base = base, rj_org = orgToken, rj_agent = agentID, rj_content = profileContent,
               rj_captured = None, rj_phase1 = None, rj_suppress = False\<rparr>\<rparr>))"

definition end_relay :: "'n DaemonService \<Rightarrow> 'n DaemonService" where
  "end_relay d = (end_job d)\<lparr>ds_state := StateIdle\<rparr>"

definition relay_reserve :: "'n http \<Rightarrow> (rc_error \<Rightarrow> string) \<Rightarrow> relay_job \<Rightarrow> 'n DaemonService \<Rightarrow> 'n DaemonService" where
  "relay_reserve hc rtext j d =
     (case relayConnect hc (rj_base j) (rj_org j) (rj_agent j) (ds_net d) of
        (Inl e, n) \<Rightarrow>
          end_relay (emitStateChangedStr (state_String StateError) [] (rtext e)
            (emitLogLine (''relay: reserve agent: '' @ rtext e) (d\<lparr>ds_net := n, ds_ctx := True\<rparr>)))
      | (Inr sessionID, n) \<Rightarrow> d\<lparr>ds_net := n, ds_job := RelayJob (RelayWait sessionID) j\<rparr>)"

text \<open>\<open>SAMLTokenFn\<close> of the relay flow, once the browser has delivered a token: the channel has room for one.\<close>

definition relay_saml_token :: "string \<Rightarrow> string \<Rightarrow> 'n DaemonService \<Rightarrow> 'n DaemonService" where
  "relay_saml_token stateID token d =
     (case ds_job d of
        RelayJob pc j \<Rightarrow>
          if rj_captured j = None then d\<lparr>ds_job := RelayJob pc (j\<lparr>rj_captured := Some \<lparr>sc_stateID = stateID, sc_samlToken = token\<rparr>\<rparr>)\<rparr> else d
      | _ \<Rightarrow> d)"

text \<open>\<open>phase1Done\<close> gets the result of \<open>client.Connect\<close>, which is called once the agent is reserved.\<close>

definition relay_phase1 :: "client_error option \<Rightarrow> 'n DaemonService \<Rightarrow> 'n DaemonService" where
  "relay_phase1 r d =
     (case ds_job d of
        RelayJob pc j \<Rightarrow> if pc \<noteq> RelayReserve \<and> rj_phase1 j = None then d\<lparr>ds_job := RelayJob pc (j\<lparr>rj_phase1 := Some r\<rparr>)\<rparr> else d
      | _ \<Rightarrow> d)"

definition relay_take :: "string \<Rightarrow> relay_job \<Rightarrow> 'n DaemonService \<Rightarrow> 'n DaemonService" where
  "relay_take sessionID j d =
     (case rj_captured j of
        None \<Rightarrow> d
      | Some cap \<Rightarrow> d\<lparr>ds_ctx := True, ds_job := RelayJob (RelayDrain sessionID cap) (j\<lparr>rj_captured := None, rj_suppress := True\<rparr>)\<rparr>)"

definition relay_failed :: "(client_error \<Rightarrow> string) \<Rightarrow> relay_job \<Rightarrow> 'n DaemonService \<Rightarrow> 'n DaemonService" where
  "relay_failed ctext j d =
     (case rj_phase1 j of
        None \<Rightarrow> d
      | Some r \<Rightarrow>
          end_relay (if ds_ctx d then d
            else emitStateChangedStr (state_String StateError) [] (case r of None \<Rightarrow> [] | Some e \<Rightarrow> ctext e) d))"

definition relay_cancelled :: "relay_job \<Rightarrow> 'n DaemonService \<Rightarrow> 'n DaemonService" where
  "relay_cancelled j d = (if ds_ctx d \<and> rj_phase1 j \<noteq> None then end_relay d else d)"

definition relay_drained :: "string \<Rightarrow> samlCapture \<Rightarrow> relay_job \<Rightarrow> 'n DaemonService \<Rightarrow> 'n DaemonService" where
  "relay_drained sessionID cap j d =
     (if rj_phase1 j = None then d
      else emitStateChangedStr stateRelayDelivering [] [] (d\<lparr>ds_job := RelayJob (RelayDeliver sessionID cap) j\<rparr>))"

definition relay_deliver :: "'n http \<Rightarrow> (rc_error \<Rightarrow> string) \<Rightarrow> string \<Rightarrow> samlCapture \<Rightarrow> relay_job \<Rightarrow> 'n DaemonService \<Rightarrow> 'n DaemonService" where
  "relay_deliver hc rtext sessionID cap j d =
     (let remoteIP = (case ds_client d of None \<Rightarrow> [] | Some c \<Rightarrow> Phase1IP c) in
      case relayExecute hc (rj_base j) (rj_org j) sessionID (rj_content j) (sc_stateID cap) (sc_samlToken cap) remoteIP (ds_net d) of
        (Some e, n) \<Rightarrow>
          end_relay (emitStateChangedStr (state_String StateError) [] (rtext e)
            (emitLogLine (''relay: deliver credentials: '' @ rtext e) (d\<lparr>ds_net := n\<rparr>)))
      | (None, n) \<Rightarrow>
          end_relay (emitStateChangedStr stateRelayConnected (rj_agent j) []
            (d\<lparr>ds_net := n, ds_relaySessionID := sessionID, ds_relayBaseURL := rj_base j, ds_relayOrgToken := rj_org j\<rparr>)))"

subsection \<open>The service at work\<close>

inductive daemon_step :: "'n http \<Rightarrow> (client_error \<Rightarrow> string) \<Rightarrow> (rc_error \<Rightarrow> string) \<Rightarrow> 'n DaemonService \<Rightarrow> 'n DaemonService \<Rightarrow> bool"
  for hc ctext rtext where
  call_Connect: "daemon_step hc ctext rtext d (snd (Daemon_Connect path content d))"
| call_ConnectRelay: "daemon_step hc ctext rtext d (snd (ConnectRelay path content agentID orgToken baseURL d))"
| call_Disconnect: "daemon_step hc ctext rtext d (Daemon_Disconnect d)"
| release: "daemon_step hc ctext rtext d (release_step hc d)"
| client_moves: "ds_client d = Some c \<Longrightarrow> daemon_step hc ctext rtext d (d\<lparr>ds_client := Some c'\<rparr>)"
| event: "daemon_step hc ctext rtext d (client_event e d)"
| saml: "ds_job d \<noteq> NoJob \<Longrightarrow> daemon_step hc ctext rtext d (saml_required acs_ok url d)"
| saml_token: "daemon_step hc ctext rtext d (relay_saml_token stateID token d)"
| phase1: "daemon_step hc ctext rtext d (relay_phase1 r d)"
| connect: "ds_job d = ConnectJob \<Longrightarrow> daemon_step hc ctext rtext d (connect_returns ctext r d)"
| serve_done: "ds_job d = ServeJob \<Longrightarrow> daemon_step hc ctext rtext d (serve_done ctext r d)"
| tick: "ds_job d = ServeJob \<Longrightarrow> daemon_step hc ctext rtext d (serve_tick x y z d)"
| cancelled: "ds_job d = ServeJob \<Longrightarrow> daemon_step hc ctext rtext d (serve_cancelled d)"
| stopped: "ds_job d = StopJob \<Longrightarrow> daemon_step hc ctext rtext d (end_job d)"
| reserve: "ds_job d = RelayJob RelayReserve j \<Longrightarrow> daemon_step hc ctext rtext d (relay_reserve hc rtext j d)"
| take: "ds_job d = RelayJob (RelayWait sid) j \<Longrightarrow> daemon_step hc ctext rtext d (relay_take sid j d)"
| failed: "ds_job d = RelayJob (RelayWait sid) j \<Longrightarrow> daemon_step hc ctext rtext d (relay_failed ctext j d)"
| relay_cancelled: "ds_job d = RelayJob (RelayWait sid) j \<Longrightarrow> daemon_step hc ctext rtext d (relay_cancelled j d)"
| drained: "ds_job d = RelayJob (RelayDrain sid cap) j \<Longrightarrow> daemon_step hc ctext rtext d (relay_drained sid cap j d)"
| deliver: "ds_job d = RelayJob (RelayDeliver sid cap) j \<Longrightarrow> daemon_step hc ctext rtext d (relay_deliver hc rtext sid cap j d)"

abbreviation daemon_steps :: "'n http \<Rightarrow> (client_error \<Rightarrow> string) \<Rightarrow> (rc_error \<Rightarrow> string) \<Rightarrow> 'n DaemonService \<Rightarrow> 'n DaemonService \<Rightarrow> bool" where
  "daemon_steps hc ctext rtext \<equiv> (daemon_step hc ctext rtext)\<^sup>*\<^sup>*"

lemmas daemon_signals = emit_signal_def emitStateChangedStr_def emitStateChanged_def emitLogLine_def emitStatsUpdate_def emitSAMLRequired_def

lemmas daemon_defs = daemon_signals Daemon_Connect_def ConnectRelay_def Daemon_Disconnect_def release_step_def client_event_def connect_EventFn_def relay_EventFn_def
  forward_event_def saml_required_def relay_saml_token_def relay_phase1_def connect_returns_def serve_done_def serve_tick_def serve_cancelled_def end_job_def end_relay_def
  relay_reserve_def relay_take_def relay_failed_def relay_cancelled_def relay_drained_def relay_deliver_def

fun pc_inv :: "relay_pc \<Rightarrow> relay_job \<Rightarrow> bool \<Rightarrow> bool" where
  "pc_inv RelayReserve j ctx = (\<not> rj_suppress j \<and> rj_phase1 j = None)"
| "pc_inv (RelayWait sid) j ctx = (sid \<noteq> [] \<and> \<not> rj_suppress j)"
| "pc_inv (RelayDrain sid cap) j ctx = (sid \<noteq> [] \<and> rj_suppress j \<and> ctx)"
| "pc_inv (RelayDeliver sid cap) j ctx = (sid \<noteq> [] \<and> rj_suppress j \<and> ctx \<and> rj_phase1 j \<noteq> None)"

lemma pc_inv_keeps:
  "pc_inv pc j ctx \<Longrightarrow> pc_inv pc j True"
  "pc_inv pc j ctx \<Longrightarrow> pc_inv pc (j\<lparr>rj_captured := x\<rparr>) ctx"
  "pc_inv pc j ctx \<Longrightarrow> pc \<noteq> RelayReserve \<Longrightarrow> pc_inv pc (j\<lparr>rj_phase1 := Some r\<rparr>) ctx"
  by (cases pc; simp)+

definition daemon_inv :: "'n DaemonService \<Rightarrow> bool" where
  "daemon_inv d \<longleftrightarrow>
     (ds_client d \<noteq> None) = (ds_job d \<noteq> NoJob) \<and> ds_cancel d = (ds_job d \<noteq> NoJob) \<and> (ds_job d = NoJob \<longrightarrow> ds_profilePath d = []) \<and>
     (ds_job d = StopJob \<longrightarrow> ds_ctx d) \<and> (\<forall>pc j. ds_job d = RelayJob pc j \<longrightarrow> pc_inv pc j (ds_ctx d)) \<and>
     (ds_relaySessionID d = [] \<longrightarrow> ds_relayBaseURL d = [] \<and> ds_relayOrgToken d = []) \<and> (\<forall>(b, t, sid) \<in> set (ds_releases d). sid \<noteq> [])"

lemma relayConnect_session: "relayConnect hc b t a n = (Inr sid, n') \<Longrightarrow> sid \<noteq> []"
  by (auto simp: relayConnect_def split: prod.splits sum.splits option.splits json.splits if_splits)

lemma Connect_cases:
  "Daemon_Connect path content d =
     (if ds_client d \<noteq> None then (Some Busy, d)
      else case ParseFile content of
        Inl e \<Rightarrow> (Some (InvalidProfile e), d)
      | Inr p \<Rightarrow> (None, snd (Daemon_Connect path content d)))"
  "ConnectRelay path content agentID orgToken baseURL d =
     (if ds_client d \<noteq> None then (Some Busy, d)
      else case ParseFile content of
        Inl e \<Rightarrow> (Some (InvalidProfile e), d)
      | Inr p \<Rightarrow> (None, snd (ConnectRelay path content agentID orgToken baseURL d)))"
  by (simp_all add: Daemon_Connect_def ConnectRelay_def Let_def split: sum.split)

lemma calls_inv:
  assumes "daemon_inv d"
  shows "daemon_inv (snd (Daemon_Connect path content d))" "daemon_inv (snd (ConnectRelay path content agentID orgToken baseURL d))"
  using assms by (cases "ds_client d"; cases "ParseFile content"; simp add: Daemon_Connect_def ConnectRelay_def daemon_inv_def)+

lemma Disconnect_keeps_inv:
  assumes "daemon_inv d"
  shows "daemon_inv (Daemon_Disconnect d)"
  using assms by (cases "ds_job d"; cases "ds_relaySessionID d = []") (auto simp: Daemon_Disconnect_def daemon_inv_def Let_def intro: pc_inv_keeps)

lemma end_inv: "daemon_inv d \<Longrightarrow> daemon_inv (end_job d)" "daemon_inv d \<Longrightarrow> daemon_inv (end_relay d)"
  by (simp_all add: daemon_inv_def end_job_def end_relay_def)

lemma signal_inv [simp]: "daemon_inv (emit_signal x d) = daemon_inv d" "ds_job (emit_signal x d) = ds_job d" "ds_ctx (emit_signal x d) = ds_ctx d"
  "ds_client (emit_signal x d) = ds_client d" "ds_state (emit_signal x d) = ds_state d" "ds_relaySessionID (emit_signal x d) = ds_relaySessionID d"
  "ds_releases (emit_signal x d) = ds_releases d" "ds_net (emit_signal x d) = ds_net d"
  by (simp_all add: emit_signal_def daemon_inv_def)

lemmas emits = emitStateChangedStr_def emitStateChanged_def emitLogLine_def emitStatsUpdate_def emitSAMLRequired_def

lemma net_inv [simp]: "daemon_inv (d\<lparr>ds_net := n\<rparr>) = daemon_inv d" "daemon_inv (d\<lparr>ds_state := s\<rparr>) = daemon_inv d"
  by (simp_all add: daemon_inv_def)

lemma event_inv: "daemon_inv d \<Longrightarrow> daemon_inv (client_event e d)"
  by (cases "ds_job d"; cases e) (simp_all add: client_event_def connect_EventFn_def relay_EventFn_def forward_event_def emits)

lemma relay_inv:
  assumes "daemon_inv d"
  shows "daemon_inv (relay_saml_token st tok d)" "daemon_inv (relay_phase1 r d)"
  using assms by (cases "ds_job d"; simp add: relay_saml_token_def relay_phase1_def daemon_inv_def pc_inv_keeps)+

lemma end_inv_ctx: "daemon_inv d \<Longrightarrow> daemon_inv (end_relay (d\<lparr>ds_net := n, ds_ctx := True\<rparr>))"
  by (simp add: daemon_inv_def end_job_def end_relay_def)

lemma end_relay_emit: "end_relay (emit_signal x d) = emit_signal x (end_relay d)"
  by (simp add: end_relay_def end_job_def emit_signal_def)

lemma reserve_inv:
  assumes "daemon_inv d" "ds_job d = RelayJob RelayReserve j"
  shows "daemon_inv (relay_reserve hc rtext j d)"
proof -
  obtain r n where r: "relayConnect hc (rj_base j) (rj_org j) (rj_agent j) (ds_net d) = (r, n)" by fastforce
  show ?thesis
  proof (cases r)
    case (Inl e)
    then show ?thesis using assms(1) r by (simp add: relay_reserve_def emits end_relay_emit end_inv_ctx)
  next
    case (Inr sid)
    then have "sid \<noteq> []" using r relayConnect_session by fast
    then show ?thesis using assms r Inr by (simp add: relay_reserve_def daemon_inv_def)
  qed
qed

lemma deliver_inv:
  assumes "daemon_inv d" "ds_job d = RelayJob (RelayDeliver sid cap) j"
  shows "daemon_inv (relay_deliver hc rtext sid cap j d)"
proof -
  let ?ip = "case ds_client d of None \<Rightarrow> [] | Some c \<Rightarrow> Phase1IP c"
  obtain r n where r: "relayExecute hc (rj_base j) (rj_org j) sid (rj_content j) (sc_stateID cap) (sc_samlToken cap) ?ip (ds_net d) = (r, n)" by fastforce
  have "sid \<noteq> []" using assms by (simp add: daemon_inv_def)
  then have "daemon_inv (end_relay (d\<lparr>ds_net := n, ds_relaySessionID := sid, ds_relayBaseURL := rj_base j, ds_relayOrgToken := rj_org j\<rparr>))"
    using assms(1) by (simp add: daemon_inv_def end_relay_def end_job_def)
  then show ?thesis
    using assms(1) r by (cases r) (simp_all add: relay_deliver_def Let_def emits end_relay_emit end_inv)
qed

lemma daemon_inv_step:
  assumes "daemon_step hc ctext rtext d d'" "daemon_inv d"
  shows "daemon_inv d'"
  using assms
proof cases
  case (release)
  then show ?thesis
    using assms(2) by (cases "ds_releases d") (auto simp: release_step_def emits, auto simp: daemon_inv_def)
next
  case (client_moves c c')
  then show ?thesis using assms(2) by (auto simp: daemon_inv_def)
next
  case (saml ok url)
  then show ?thesis using assms(2) by (simp add: saml_required_def emits)
next
  case (connect r)
  then show ?thesis
    using assms(2) end_inv(1) [of d] by (cases r) (auto simp: connect_returns_def emits daemon_inv_def end_job_def emit_signal_def)
next
  case (serve_done r)
  then show ?thesis
    using assms(2) by (cases r) (auto simp: serve_done_def emits daemon_inv_def end_job_def emit_signal_def)
next
  case (tick x y z)
  then show ?thesis using assms(2) by (simp add: serve_tick_def emits)
next
  case cancelled
  then show ?thesis using assms(2) by (simp add: serve_cancelled_def daemon_inv_def)
next
  case (take sid j)
  then show ?thesis using assms(2) by (cases "rj_captured j") (simp_all add: relay_take_def daemon_inv_def)
next
  case (failed sid j)
  then show ?thesis using assms(2) by (cases "rj_phase1 j") (simp_all add: relay_failed_def emits end_relay_emit end_inv)
next
  case (relay_cancelled sid j)
  then show ?thesis using assms(2) by (simp add: relay_cancelled_def end_inv)
next
  case (drained sid cap j)
  then show ?thesis using assms(2) by (cases "rj_phase1 j") (simp_all add: relay_drained_def emits, simp add: daemon_inv_def)
qed (use assms(2) in \<open>simp_all add: calls_inv Disconnect_keeps_inv event_inv relay_inv end_inv reserve_inv deliver_inv\<close>)

lemma daemon_inv_new: "daemon_inv (newDaemonService n)"
  by (simp add: daemon_inv_def newDaemonService_def)

interpretation daemon_run: invariant_system "daemon_step hc ctext rtext" "\<lambda>d. \<exists>n. d = newDaemonService n" daemon_inv for hc ctext rtext
  by unfold_locales (auto intro: daemon_inv_new daemon_inv_step)

subsection \<open>One connection at a time\<close>

text \<open>The next step of the active goroutine, once the client's \<open>Connect\<close> returns \<open>r\<close> and its context is cancelled.\<close>

definition advance :: "'n http \<Rightarrow> (client_error \<Rightarrow> string) \<Rightarrow> (rc_error \<Rightarrow> string) \<Rightarrow> client_error option \<Rightarrow> 'n DaemonService \<Rightarrow> 'n DaemonService" where
  "advance hc ctext rtext r d =
     (case ds_job d of
        NoJob \<Rightarrow> d
      | ConnectJob \<Rightarrow> connect_returns ctext r d
      | ServeJob \<Rightarrow> serve_cancelled d
      | StopJob \<Rightarrow> end_job d
      | RelayJob RelayReserve j \<Rightarrow> relay_reserve hc rtext j d
      | RelayJob (RelayWait sid) j \<Rightarrow> if rj_phase1 j = None then relay_phase1 r d else relay_failed ctext j d
      | RelayJob (RelayDrain sid cap) j \<Rightarrow> if rj_phase1 j = None then relay_phase1 r d else relay_drained sid cap j d
      | RelayJob (RelayDeliver sid cap) j \<Rightarrow> relay_deliver hc rtext sid cap j d)"

lemma advance_step: "ds_job d \<noteq> NoJob \<Longrightarrow> daemon_step hc ctext rtext d (advance hc ctext rtext r d)"
  by (cases "ds_job d"; (cases "case ds_job d of RelayJob pc j \<Rightarrow> pc | _ \<Rightarrow> RelayReserve")?)
    (auto simp: advance_def intro: daemon_step.intros)

lemma advance_idle: "ds_job d = NoJob \<Longrightarrow> advance hc ctext rtext r d = d"
  by (simp add: advance_def)

lemma advance_steps: "daemon_steps hc ctext rtext d ((advance hc ctext rtext r ^^ k) d)"
proof (induction k)
  case (Suc k)
  let ?d = "(advance hc ctext rtext r ^^ k) d"
  show ?case
  proof (cases "ds_job ?d = NoJob")
    case True
    then show ?thesis using Suc by (simp add: advance_idle)
  next
    case False
    then show ?thesis using Suc advance_step [of ?d hc ctext rtext r] by (simp add: rtranclp.rtrancl_into_rtrancl)
  qed
qed simp

lemma ended [simp]: "ds_job (end_job d) = NoJob" "ds_job (end_relay d) = NoJob"
  by (simp_all add: end_job_def end_relay_def)

lemma advance_deliver: "ds_job d = RelayJob (RelayDeliver sid cap) j \<Longrightarrow> ds_job (advance hc ctext rtext r d) = NoJob"
  by (simp add: advance_def relay_deliver_def Let_def split: prod.split option.split)

lemma advance_drain:
  "ds_job d = RelayJob (RelayDrain sid cap) j \<Longrightarrow> rj_phase1 j \<noteq> None \<Longrightarrow> ds_job (advance hc ctext rtext r d) = RelayJob (RelayDeliver sid cap) j"
  "ds_job d = RelayJob (RelayDrain sid cap) j \<Longrightarrow> rj_phase1 j = None \<Longrightarrow>
   ds_job (advance hc ctext rtext r d) = RelayJob (RelayDrain sid cap) (j\<lparr>rj_phase1 := Some r\<rparr>)"
  by (simp_all add: advance_def relay_drained_def relay_phase1_def emits)

lemma advance_wait:
  "ds_job d = RelayJob (RelayWait sid) j \<Longrightarrow> rj_phase1 j \<noteq> None \<Longrightarrow> ds_job (advance hc ctext rtext r d) = NoJob"
  "ds_job d = RelayJob (RelayWait sid) j \<Longrightarrow> rj_phase1 j = None \<Longrightarrow> ds_job (advance hc ctext rtext r d) = RelayJob (RelayWait sid) (j\<lparr>rj_phase1 := Some r\<rparr>)"
  by (auto simp: advance_def relay_failed_def relay_phase1_def)

lemma advance_reserve:
  assumes "ds_job d = RelayJob RelayReserve j"
  obtains "ds_job (advance hc ctext rtext r d) = NoJob" | sid where "ds_job (advance hc ctext rtext r d) = RelayJob (RelayWait sid) j"
  using assms by (cases "relayConnect hc (rj_base j) (rj_org j) (rj_agent j) (ds_net d)"; cases "fst (relayConnect hc (rj_base j) (rj_org j) (rj_agent j) (ds_net d))")
    (auto simp: advance_def relay_reserve_def emits)

lemma advance_ends:
  assumes "daemon_inv d" "ds_ctx d"
  shows "ds_job ((advance hc ctext rtext r ^^ 3) d) = NoJob"
proof -
  let ?f = "advance hc ctext rtext r"
  have 3: "(?f ^^ 3) d = ?f (?f (?f d))" by (simp add: numeral_3_eq_3)
  show ?thesis
  proof (cases "ds_job d")
    case ConnectJob
    then show ?thesis unfolding 3 using assms(2) by (cases r) (simp_all add: advance_def connect_returns_def serve_cancelled_def)
  next
    case ServeJob
    then show ?thesis unfolding 3 using assms(2) by (simp add: advance_def serve_cancelled_def)
  next
    case StopJob
    then show ?thesis unfolding 3 by (simp add: advance_def)
  next
    case NoJob
    then show ?thesis unfolding 3 by (simp add: advance_idle)
  next
    case (RelayJob pc j)
    have wait: "ds_job (?f (?f x)) = NoJob" if "ds_job x = RelayJob (RelayWait sid) i" for x sid i
      using that advance_wait [of x] advance_wait [of "?f x"] by (cases "rj_phase1 i") (simp_all add: advance_idle)
    show ?thesis
    proof (cases pc)
      case RelayReserve
      then show ?thesis
        using RelayJob wait [of "?f d"] advance_reserve [of d j hc ctext rtext r thesis] unfolding 3
        by (metis advance_idle advance_reserve)
    next
      case (RelayWait sid)
      then show ?thesis unfolding 3 using RelayJob wait [of d] by (simp add: advance_idle)
    next
      case (RelayDrain sid cap)
      then show ?thesis
        unfolding 3 using RelayJob advance_drain [of d sid cap j] advance_drain [of "?f d" sid cap] advance_deliver [of "?f d" sid cap] advance_deliver [of "?f (?f d)" sid cap]
        by (cases "rj_phase1 j") (simp_all add: advance_idle)
    next
      case (RelayDeliver sid cap)
      then show ?thesis unfolding 3 using RelayJob advance_deliver [of d sid cap j] by (simp add: advance_idle)
    qed
  qed
qed


lemma sample_parsed: "\<exists>p. ParseFile sample_profile = Inr p"
proof -
  have "map_sum id pf_Port (ParseFile sample_profile) = Inr 443" by code_simp
  then show ?thesis by (cases "ParseFile sample_profile") auto
qed

definition sample_http :: "store http" where "sample_http = server_http sample_locate ''s1''"

definition busy_daemon :: "store DaemonService" where
  "busy_daemon = snd (Daemon_Connect ''/p.ovpn'' sample_profile (newDaemonService sample_store))"


subsection \<open>What the bus sees of the relay flow\<close>

definition relay_states :: "string set" where
  "relay_states = {stateRelayDelivering, stateRelayConnected, state_String StateError}"

text \<open>The signals that a step adds: none of them tells of a state that is not allowed.\<close>

definition adds_quietly :: "string set \<Rightarrow> 'n DaemonService \<Rightarrow> 'n DaemonService \<Rightarrow> bool" where
  "adds_quietly allowed d d' \<longleftrightarrow>
     (\<exists>xs. ds_signals d' = ds_signals d @ xs \<and> (\<forall>st ip msg. StateChanged st ip msg \<in> set xs \<longrightarrow> st \<in> allowed)) \<and> ds_state d' \<in> {ds_state d, StateIdle}"

lemma quietly_refl [simp]: "adds_quietly A d d"
  by (simp add: adds_quietly_def)

lemma quietly_emit:
  "adds_quietly A d d' \<Longrightarrow> (\<And>st ip msg. x = StateChanged st ip msg \<Longrightarrow> st \<in> A) \<Longrightarrow> adds_quietly A d (emit_signal x d')"
  by (force simp: adds_quietly_def emit_signal_def)

lemma quietly_fields: "ds_signals d' = ds_signals d \<Longrightarrow> ds_state d' \<in> {ds_state d, StateIdle} \<Longrightarrow> adds_quietly A d d'"
  by (auto simp: adds_quietly_def)

lemma suppressed_event:
  assumes "ds_job d = RelayJob pc j" "rj_suppress j"
  shows "adds_quietly A d (client_event e d)"
  using assms by (cases e) (auto simp: client_event_def relay_EventFn_def forward_event_def emits intro!: quietly_emit)

lemma quietly_end: "ds_signals d' = ds_signals d \<Longrightarrow> adds_quietly A d (end_relay d')"
  by (rule quietly_fields) (simp_all add: end_relay_def end_job_def)

lemma deliver_quiet:
  assumes "ds_job d = RelayJob (RelayDeliver sid cap) j"
  shows "adds_quietly relay_states d (relay_deliver hc rtext sid cap j d)"
proof -
  let ?ip = "case ds_client d of None \<Rightarrow> [] | Some c \<Rightarrow> Phase1IP c"
  obtain r n where r: "relayExecute hc (rj_base j) (rj_org j) sid (rj_content j) (sc_stateID cap) (sc_samlToken cap) ?ip (ds_net d) = (r, n)" by fastforce
  show ?thesis
    using r by (cases r) (auto simp: relay_deliver_def Let_def emits end_relay_emit relay_states_def quietly_end intro!: quietly_emit)
qed

lemma release_quiet:
  "adds_quietly (if ds_releases d = [] then relay_states else insert (state_String StateIdle) relay_states) d (release_step hc d)"
proof (cases "ds_releases d")
  case (Cons x xs)
  have "adds_quietly A d (d\<lparr>ds_releases := ys, ds_net := m\<rparr>)" for A ys m by (rule quietly_fields) simp_all
  then show ?thesis using Cons by (cases x) (auto simp: release_step_def emits intro!: quietly_emit)
qed (simp add: release_step_def)

lemma quietly_mono: "adds_quietly A d d' \<Longrightarrow> A \<subseteq> B \<Longrightarrow> adds_quietly B d d'"
  by (fastforce simp: adds_quietly_def)

text \<open>(the relay flow keeps the VPN's states to itself).  From the moment at which the daemon has taken the SAML token and cancels its own client, until its goroutine ends,
  no step of any part of it announces a state of that client on the bus or stores one: what is announced is the delivery, its success or an error, and
  idle only for a release of an earlier session that is under way; and this stays so until the goroutine ends.\<close>

theorem relay_flow_quiet:
  assumes "daemon_steps hc ctext rtext (newDaemonService n) d" "daemon_step hc ctext rtext d d'"
    and "ds_job d = RelayJob pc j" "rj_suppress j"
  shows "(\<exists>xs. ds_signals d' = ds_signals d @ xs \<and>
      (\<forall>st ip msg. StateChanged st ip msg \<in> set xs \<longrightarrow> st \<in> {stateRelayDelivering, stateRelayConnected, ''error''} \<or> st = ''idle'' \<and> ds_releases d \<noteq> [])) \<and>
    ds_state d' \<in> {ds_state d, StateIdle} \<and> ds_ctx d' \<and>
    (ds_job d' = NoJob \<or> (\<exists>pc' j'. ds_job d' = RelayJob pc' j' \<and> rj_suppress j'))"
proof -
  let ?A = "if ds_releases d = [] then relay_states else insert (state_String StateIdle) relay_states"
  have inv: "daemon_inv d" by (rule daemon_run.inv_reachable [OF _ assms(1)]) blast
  then have ctx: "ds_ctx d" "ds_client d \<noteq> None" "(\<exists>sid cap. pc = RelayDrain sid cap) \<or> (\<exists>sid cap. pc = RelayDeliver sid cap)"
    using assms(3,4) by (cases pc; simp add: daemon_inv_def)+
  have sub: "relay_states \<subseteq> ?A" by auto
  have "adds_quietly ?A d d' \<and> ds_ctx d' \<and> (ds_job d' = NoJob \<or> (\<exists>pc' j'. ds_job d' = RelayJob pc' j' \<and> rj_suppress j'))"
    using assms(2)
  proof cases
    case release
    then show ?thesis
      using release_quiet [of d hc] assms(3,4) ctx(1) by (cases "ds_releases d") (auto simp: release_step_def emits)
  next
    case (event e)
    then show ?thesis
      using suppressed_event [OF assms(3,4), of ?A e] assms(3,4) ctx(1)
      by (cases e) (auto simp: client_event_def relay_EventFn_def forward_event_def emits)
  next
    case (deliver sid cap j')
    then show ?thesis
      using quietly_mono [OF deliver_quiet [OF deliver(2), of hc rtext] sub] ctx(1)
      by (auto simp: relay_deliver_def Let_def emits end_relay_emit end_relay_def end_job_def split: prod.splits option.splits)
  next
    case (drained sid cap j')
    have "adds_quietly relay_states d (emit_signal (StateChanged stateRelayDelivering [] []) (d\<lparr>ds_job := RelayJob (RelayDeliver sid cap) j'\<rparr>))"
      by (rule quietly_emit) (auto simp: relay_states_def intro: quietly_fields)
    then show ?thesis
      using drained quietly_mono [OF _ sub] ctx(1) assms(3,4) by (auto simp: relay_drained_def emits)
  next
    case call_Disconnect
    then show ?thesis
      using assms(3,4) ctx(1) by (auto simp: Daemon_Disconnect_def Let_def intro!: quietly_fields)
  next
    case (saml ok url)
    then show ?thesis
      using assms(3,4) ctx(1) by (auto simp: saml_required_def emits intro!: quietly_emit)
  qed (use assms(3,4) ctx in \<open>auto simp: Daemon_Connect_def ConnectRelay_def Let_def relay_saml_token_def relay_phase1_def intro!: quietly_fields\<close>)
  then show ?thesis
    by (auto simp: adds_quietly_def relay_states_def state_String_def split: if_splits)
qed

subsection \<open>A session through the relay\<close>

definition relay_job_of :: "string \<Rightarrow> string \<Rightarrow> string \<Rightarrow> string \<Rightarrow> relay_job" where
  "relay_job_of base org agentID content =
     \<lparr>rj_base = base, rj_org = org, rj_agent = agentID, rj_content = content, rj_captured = None, rj_phase1 = None, rj_suppress = False\<rparr>"

text \<open>The flow up to the capture of the token, and from there to the delivery.\<close>

lemma relay_run_captured:
  fixes d :: "'n DaemonService"
  assumes "ds_client d = None" "ParseFile content = Inr p" "base \<noteq> []" "relayConnect hc base org agentID (ds_net d) = (Inr sid, n1)"
  shows "\<exists>d'. daemon_steps hc ctext rtext d d' \<and>
    d' = d\<lparr>ds_client := Some (New_Client p), ds_cancel := True, ds_ctx := True, ds_profilePath := path, ds_net := n1,
      ds_job := RelayJob (RelayDrain sid \<lparr>sc_stateID = st, sc_samlToken = tok\<rparr>) ((relay_job_of base org agentID content)\<lparr>rj_suppress := True\<rparr>)\<rparr>"
proof -
  let ?j = "relay_job_of base org agentID content" and ?cap = "\<lparr>sc_stateID = st, sc_samlToken = tok\<rparr>" and ?R = "daemon_step hc ctext rtext"
  let ?d1 = "d\<lparr>ds_client := Some (New_Client p), ds_cancel := True, ds_ctx := False, ds_profilePath := path, ds_job := RelayJob RelayReserve ?j\<rparr>"
  let ?d2 = "?d1\<lparr>ds_net := n1, ds_job := RelayJob (RelayWait sid) ?j\<rparr>"
  let ?d3 = "?d2\<lparr>ds_job := RelayJob (RelayWait sid) (?j\<lparr>rj_captured := Some ?cap\<rparr>)\<rparr>"
  let ?d4 = "?d3\<lparr>ds_ctx := True, ds_job := RelayJob (RelayDrain sid ?cap) (?j\<lparr>rj_captured := None, rj_suppress := True\<rparr>)\<rparr>"
  have eqs: "snd (ConnectRelay path content agentID org base d) = ?d1" "relay_reserve hc rtext ?j ?d1 = ?d2" "relay_saml_token st tok ?d2 = ?d3"
    "relay_take sid (?j\<lparr>rj_captured := Some ?cap\<rparr>) ?d3 = ?d4"
    using assms by (simp_all add: ConnectRelay_def relay_job_of_def relay_reserve_def relay_saml_token_def relay_take_def)
  have "?R d ?d1" "?R ?d1 ?d2" "?R ?d2 ?d3" "?R ?d3 ?d4"
    using daemon_step.call_ConnectRelay [of hc ctext rtext d path content agentID org base] daemon_step.reserve [of ?d1 ?j hc ctext rtext]
      daemon_step.saml_token [of hc ctext rtext ?d2 st tok] daemon_step.take [of ?d3 sid "?j\<lparr>rj_captured := Some ?cap\<rparr>" hc ctext rtext]
    unfolding eqs by simp_all
  then have "daemon_steps hc ctext rtext d ?d4" by (meson r_into_rtranclp rtranclp.rtrancl_into_rtrancl)
  then show ?thesis by (intro exI [of _ ?d4]) (simp add: relay_job_of_def)
qed

lemma relay_run_delivered:
  fixes d :: "'n DaemonService"
  assumes "ds_job d = RelayJob (RelayDrain sid cap) j" "rj_phase1 j = None" "ds_client d = Some c0"
    "relayExecute hc (rj_base j) (rj_org j) sid (rj_content j) (sc_stateID cap) (sc_samlToken cap) (Phase1IP c) (ds_net d) = (None, n2)"
  shows "\<exists>d'. daemon_steps hc ctext rtext d d' \<and> ds_job d' = NoJob \<and> ds_client d' = None \<and> ds_cancel d' = False \<and> ds_state d' = StateIdle \<and> ds_net d' = n2 \<and>
    ds_releases d' = ds_releases d \<and> ds_relaySessionID d' = sid \<and> ds_relayBaseURL d' = rj_base j \<and> ds_relayOrgToken d' = rj_org j \<and>
    ds_signals d' = ds_signals d @ [StateChanged stateRelayDelivering [] [], StateChanged stateRelayConnected (rj_agent j) []]"
proof -
  let ?R = "daemon_step hc ctext rtext"
  let ?j = "j\<lparr>rj_phase1 := Some r\<rparr>"
  let ?d1 = "d\<lparr>ds_client := Some c\<rparr>"
  let ?d2 = "?d1\<lparr>ds_job := RelayJob (RelayDrain sid cap) ?j\<rparr>"
  let ?d3 = "emit_signal (StateChanged stateRelayDelivering [] []) (?d2\<lparr>ds_job := RelayJob (RelayDeliver sid cap) ?j\<rparr>)"
  let ?d4 = "relay_deliver hc rtext sid cap ?j ?d3"
  have eqs: "relay_phase1 r ?d1 = ?d2" "relay_drained sid cap ?j ?d2 = ?d3"
    using assms(1,2) by (simp_all add: relay_phase1_def relay_drained_def emits)
  have "?R d ?d1" "?R ?d1 ?d2" "?R ?d2 ?d3" "?R ?d3 ?d4"
    using daemon_step.client_moves [OF assms(3), of hc ctext rtext c] daemon_step.phase1 [of hc ctext rtext ?d1 r] daemon_step.drained [of ?d2 sid cap ?j hc ctext rtext]
      daemon_step.deliver [of ?d3 sid cap ?j hc ctext rtext] unfolding eqs by simp_all
  then have "daemon_steps hc ctext rtext d ?d4" by (meson r_into_rtranclp rtranclp.rtrancl_into_rtrancl)
  then show ?thesis
    using assms(4) by (intro exI [of _ ?d4]) (simp add: relay_deliver_def emits end_relay_def end_job_def emit_signal_def)
qed

text \<open>C12 (a session through the relay, from call to release).  An idle daemon that is asked to connect through the relay to an agent that is connected and free, and whose
  browser flow gives a token, reaches a state in which it is idle again, has announced the delivery and the connection, and remembers the session; and the
  message that waits for the agent is one on which the agent calls its callback with the profile, the state identifier, the token and the address that
  the daemon's own first phase found.  \<open>Disconnect\<close> then forgets the session and releases it, and the message that this puts behind the first makes the agent call its
  disconnect callback.\<close>

theorem daemon_relay_session:
  fixes d :: "store DaemonService" and path org :: string
  assumes "ds_client d = None" "ds_releases d = []" "ParseFile content = Inr p" "base \<noteq> []"
    and "locate (base @ ''/connect'') = (''/api/v1/connect'', qf)"
    and "locate (base @ ''/session/'' @ sid @ ''/execute'') = (''/api/v1/session/'' @ sid @ ''/execute'', qf)"
    and "locate (base @ ''/session/'' @ sid @ ''/release'') = (''/api/v1/session/'' @ sid @ ''/release'', qf)"
    and "sid \<noteq> []" "CHR ''/'' \<notin> set sid" "utf8_valid sid" "utf8_valid agentID"
    and "getAgent agentID (ds_net d) = Some rec" "ar_Status rec \<noteq> ''offline''" "\<not> hasActiveSession agentID (ds_net d)"
    and "ar_ConnID rec \<noteq> []" "connChan (ar_ConnID rec) (ds_net d) = Some q" "length q < 15"
    and "utf8_valid content" "utf8_valid st" "utf8_valid tok" "utf8_valid (Phase1IP c)"
  shows "fst (ConnectRelay path content agentID org base d) = None \<and>
    (\<exists>d' m1 m2. daemon_steps (server_http locate sid) ctext rtext d d' \<and> ds_job d' = NoJob \<and> ds_relaySessionID d' = sid \<and>
      ds_relayOrgToken d' = org \<and>
    ds_signals d' = ds_signals d @ [StateChanged stateRelayDelivering [] [], StateChanged stateRelayConnected agentID []] \<and>
    connChan (ar_ConnID rec) (ds_net d') = Some (q @ [m1]) \<and>
    handleMessage a m1 = [CallOnPhase2 \<lparr>p2_SessionID = sid, p2_StateID = st, p2_SAMLResponse = tok, p2_RemoteIP = Phase1IP c, p2_OvpnConfig = content\<rparr>] \<and>
    (let d'' = release_step (server_http locate sid) (Daemon_Disconnect d') in
     ds_relaySessionID d'' = [] \<and> ds_releases d'' = [] \<and> connChan (ar_ConnID rec) (ds_net d'') = Some (q @ [m1, m2]) \<and>
     handleMessage a m2 = (if rc_OnDisconnect (ag_cfg a) then [CallOnDisconnect] else [])))"
proof -
  let ?hc = "server_http locate sid" and ?cap = "\<lparr>sc_stateID = st, sc_samlToken = tok\<rparr>" and ?s1 = "createSession sid [] agentID (ds_net d)"
  let ?j = "(relay_job_of base org agentID content)\<lparr>rj_suppress := True\<rparr>"
  have "relayConnect ?hc base org agentID (ds_net d) = (Inr sid, ?s1)"
    by (rule relayConnect_served [of locate base qf agentID _ rec]) (use assms in simp_all)
  from relay_run_captured [OF assms(1,3,4) this, where path = path and st = st and tok = tok and ctext = ctext and rtext = rtext] obtain d4 where
    d4: "daemon_steps ?hc ctext rtext d d4" "ds_job d4 = RelayJob (RelayDrain sid ?cap) ?j" "ds_client d4 = Some (New_Client p)" "ds_net d4 = ?s1"
    "ds_signals d4 = ds_signals d" "ds_releases d4 = []"
    using assms(2) by auto
  have s1: "getSession sid ?s1 = Some \<lparr>sr_SessionID = sid, sr_Token = [], sr_AgentID = agentID, sr_State = ''initiated''\<rparr>"
    "getAgent agentID ?s1 = Some rec" "connChan (ar_ConnID rec) ?s1 = Some q"
    using assms(12,16) by (simp_all add: createSession_def getSession_def getAgent_def connChan_def update_conv')
  obtain body where ex: "relayExecute ?hc base org sid content st tok (Phase1IP c) ?s1 =
      (None, ?s1\<lparr>st_conns := AList.update (ar_ConnID rec) (q @ [bytes_of_string (Marshal (phase2_push sid body))]) (st_conns ?s1)\<rparr>)" (is "_ = (None, ?s2)") and
    body: "string_field body ''ovpn_config'' = content" "string_field body ''state_id'' = st" "string_field body ''saml_response'' = tok"
    "string_field body ''remote_ip'' = Phase1IP c"
    using relayExecute_served [of locate base sid qf ?s1 _ rec q content st tok "Phase1IP c" sid org, OF assms(6,9) s1(1)] s1(2,3) assms(15,17-21) by auto
  let ?m1 = "bytes_of_string (Marshal (phase2_push sid body))" and ?m2 = "bytes_of_string (Marshal (disconnect_push sid))"
  have "relayExecute ?hc (rj_base ?j) (rj_org ?j) sid (rj_content ?j) (sc_stateID ?cap) (sc_samlToken ?cap) (Phase1IP c) (ds_net d4) = (None, ?s2)"
    using ex d4(4) by (simp add: relay_job_of_def)
  from relay_run_delivered [OF d4(2) _ d4(3) this, of ctext rtext] obtain d' where
    d': "daemon_steps ?hc ctext rtext d4 d'" "ds_job d' = NoJob" "ds_net d' = ?s2" "ds_releases d' = []" "ds_relaySessionID d' = sid" "ds_relayBaseURL d' = base"
    "ds_cancel d' = False" "ds_relayOrgToken d' = org" "ds_signals d' = ds_signals d @ [StateChanged stateRelayDelivering [] [], StateChanged stateRelayConnected agentID []]"
    using d4(5,6) by (auto simp: relay_job_of_def)
  have s2: "getSession sid ?s2 = getSession sid ?s1" "getAgent agentID ?s2 = Some rec" "connChan (ar_ConnID rec) ?s2 = Some (q @ [?m1])"
    using s1(2) by (simp_all add: getSession_def getAgent_def connChan_def update_conv')
  have rel: "relayRelease ?hc base (ds_relayOrgToken d') sid ?s2 =
      (None, ?s2\<lparr>st_conns := AList.update (ar_ConnID rec) ((q @ [?m1]) @ [?m2]) (st_conns ?s2)\<rparr>)"
    by (rule relayRelease_served [where sess = "\<lparr>sr_SessionID = sid, sr_Token = [], sr_AgentID = agentID, sr_State = ''initiated''\<rparr>"])
      (use assms(7,9,15,17) s1(1) s2 in simp_all)
  have "ds_relaySessionID (release_step ?hc (Daemon_Disconnect d')) = []" "ds_releases (release_step ?hc (Daemon_Disconnect d')) = []"
    "connChan (ar_ConnID rec) (ds_net (release_step ?hc (Daemon_Disconnect d'))) = Some (q @ [?m1, ?m2])"
    using d'(3-7) assms(8) rel by (simp_all add: Daemon_Disconnect_def release_step_def emits connChan_def update_conv')
  moreover have "handleMessage a ?m1 = [CallOnPhase2 \<lparr>p2_SessionID = sid, p2_StateID = st, p2_SAMLResponse = tok, p2_RemoteIP = Phase1IP c, p2_OvpnConfig = content\<rparr>]"
    using handle_phase2_push [of sid body a] assms(10,18-21) by (simp add: body)
  moreover have "connChan (ar_ConnID rec) (ds_net d') = Some (q @ [?m1])" using d'(3) s2(3) by simp
  moreover have connects: "fst (ConnectRelay path content agentID org base d) = None"
    using assms(1,3) by (simp add: ConnectRelay_def)
  ultimately show ?thesis
    using rtranclp_trans [OF d4(1) d'(1)] d'(2,5,8,9) handle_disconnect_push [OF assms(10), of a] connects unfolding Let_def by blast
qed

lemma sample_located:
  "sample_locate (sample_base @ ''/connect'') = (''/api/v1/connect'', \<lambda>_. [])"
  "sample_locate (sample_base @ ''/session/'' @ ''s1'' @ ''/execute'') = (''/api/v1/session/'' @ ''s1'' @ ''/execute'', \<lambda>_. [])"
  "sample_locate (sample_base @ ''/session/'' @ ''s1'' @ ''/release'') = (''/api/v1/session/'' @ ''s1'' @ ''/release'', \<lambda>_. [])"
  by (simp_all add: sample_locate_def sample_base_def TrimPrefix_def HasPrefix_def)

lemma sample_registered:
  "getAgent ''a1'' sample_store = Some \<lparr>ar_Token = ''x'', ar_AgentID = ''a1'', ar_Hostname = ''x'', ar_Status = ''standby'', ar_AssignedIP = [], ar_ConnID = ''c1''\<rparr>"
  "\<not> hasActiveSession ''a1'' sample_store" "connChan ''c1'' sample_store = Some []"
  by (simp_all add: sample_store_def registerAgent_def newStore_def getAgent_def hasActiveSession_def connChan_def)

lemma sample_valid: "utf8_valid ''s1''" "utf8_valid ''a1''" "utf8_valid ''st''" "utf8_valid ''tok''" "utf8_valid sample_profile"
  by (rule utf8_ascii, code_simp)+

theorem daemon_relay_session_witness:
  "\<exists>d' m1. daemon_steps (server_http sample_locate ''s1'') (\<lambda>_. []) (\<lambda>_. []) (newDaemonService sample_store) d' \<and> ds_relaySessionID d' = ''s1'' \<and>
     connChan ''c1'' (ds_net d') = Some [m1] \<and>
     handleMessage online_agent m1 = [CallOnPhase2 \<lparr>p2_SessionID = ''s1'', p2_StateID = ''st'', p2_SAMLResponse = ''tok'', p2_RemoteIP = [], p2_OvpnConfig = sample_profile\<rparr>]"
proof -
  obtain p where p: "ParseFile sample_profile = Inr p" using sample_parsed by blast
  have ip: "Phase1IP (New_Client p) = []" by (simp add: Phase1IP_def New_Client_def)
  show ?thesis
    using daemon_relay_session [of "newDaemonService sample_store" sample_profile p sample_base sample_locate "\<lambda>_. []" "''s1''" "''a1''" _ "[]" "''st''" "''tok''" "New_Client p"
        "''/p''" "''t''" "\<lambda>_. []" "\<lambda>_. []" online_agent, OF _ _ p _ sample_located] sample_registered sample_valid ip
    by (auto simp: newDaemonService_def sample_base_def)
qed

theorem relay_flow_quiet_witness:
  "\<exists>d j. daemon_steps sample_http (\<lambda>_. []) (\<lambda>_. []) (newDaemonService sample_store) d \<and>
     ds_job d = RelayJob (RelayDrain ''s1'' \<lparr>sc_stateID = ''st'', sc_samlToken = ''tok''\<rparr>) j \<and>
     ds_state (client_event (EventStateChanged StateDisconnecting [] []) d) \<in> {ds_state d, StateIdle}"
proof -
  obtain p where p: "ParseFile sample_profile = Inr p" using sample_parsed by blast
  have c: "relayConnect sample_http sample_base ''t'' ''a1'' sample_store = (Inr ''s1'', createSession ''s1'' [] ''a1'' sample_store)"
    unfolding sample_http_def
    by (rule relayConnect_served [of sample_locate sample_base "\<lambda>_. []", OF sample_located(1) sample_registered(1) _ sample_registered(2) sample_valid(2,1)]) simp_all
  let ?d = "newDaemonService sample_store"
  obtain d where d: "daemon_steps sample_http (\<lambda>_. []) (\<lambda>_. []) ?d d"
    "ds_job d = RelayJob (RelayDrain ''s1'' \<lparr>sc_stateID = ''st'', sc_samlToken = ''tok''\<rparr>) ((relay_job_of sample_base ''t'' ''a1'' sample_profile)\<lparr>rj_suppress := True\<rparr>)"
    using relay_run_captured [of ?d sample_profile p sample_base sample_http "''t''" "''a1''" "''s1''" _ "\<lambda>_. []" "\<lambda>_. []" "''st''" "''tok''" "''/p''"] p c
    by (auto simp: newDaemonService_def sample_base_def)
  from relay_flow_quiet [OF d(1) daemon_step.event d(2)] d show ?thesis by auto
qed

subsection \<open>What the flow leaves behind\<close>

text \<open>While the credentials are on their way, \<open>Disconnect\<close> has nothing to cancel and no session to release: the delivery goes on, and the session is announced as connected.\<close>

lemma disconnect_lost:
  assumes "ds_job d = RelayJob (RelayDeliver sid cap) j" "ds_relaySessionID d = []"
    "relayExecute hc (rj_base j) (rj_org j) sid (rj_content j) (sc_stateID cap) (sc_samlToken cap) (case ds_client d of None \<Rightarrow> [] | Some c \<Rightarrow> Phase1IP c) (ds_net d) = (None, n)"
  shows "ds_relaySessionID (relay_deliver hc rtext sid cap j (Daemon_Disconnect d)) = sid \<and>
    ds_releases (relay_deliver hc rtext sid cap j (Daemon_Disconnect d)) = ds_releases d \<and>
    last (ds_signals (relay_deliver hc rtext sid cap j (Daemon_Disconnect d))) = StateChanged stateRelayConnected (rj_agent j) []"
  using assms by (simp add: relay_deliver_def Daemon_Disconnect_def Let_def emits end_relay_def end_job_def emit_signal_def)

text \<open>A second flow overwrites the session of the first, which is then never released.\<close>

lemma session_overwritten:
  assumes "relayExecute hc (rj_base j) (rj_org j) sid (rj_content j) (sc_stateID cap) (sc_samlToken cap) (case ds_client d of None \<Rightarrow> [] | Some c \<Rightarrow> Phase1IP c) (ds_net d) = (None, n)"
    "old = ds_relaySessionID d" "old \<noteq> sid"
  shows "ds_relaySessionID (relay_deliver hc rtext sid cap j d) = sid \<and> ds_releases (relay_deliver hc rtext sid cap j d) = ds_releases d"
  using assms by (simp add: relay_deliver_def Let_def emits end_relay_def end_job_def emit_signal_def)

text \<open>A client that connects without SAML is forgotten while its context is not cancelled: nothing can disconnect it any more.  And the reserved session is not released.\<close>

lemma client_orphaned:
  assumes "\<not> ds_ctx d" "rj_phase1 j = Some None"
  shows "ds_client (relay_failed ctext j d) = None \<and> \<not> ds_ctx (relay_failed ctext j d) \<and> \<not> ds_cancel (relay_failed ctext j d) \<and>
    ds_releases (relay_failed ctext j d) = ds_releases d \<and> ds_relaySessionID (relay_failed ctext j d) = ds_relaySessionID d"
  using assms by (simp add: relay_failed_def emits end_relay_def end_job_def emit_signal_def)

text \<open>\<open>Disconnect\<close> returns before anything is torn down; \<open>main\<close> exits right after it.\<close>

lemma shutdown_tears_nothing_down: "ds_job (Daemon_Disconnect d) = ds_job d" "ds_client (Daemon_Disconnect d) = ds_client d"
  by (simp_all add: Daemon_Disconnect_def Let_def)

end
