(* ===== verification/Cli.thy ===== *)
theory Cli
  imports Relay_Agent Client_Flows
begin

section \<open>cmd/cli: the command line\<close>

text \<open>
  \<^verbatim>\<open>cmd/cli/main.go\<close>: where secrets come from (\<open>resolveSecret\<close>, \<open>readBoundedSecret\<close>, \<open>validateDaemonSecretSources\<close>), what \<open>main\<close> decides from its flags, the
  background start with its pipe, the SAML token from the browser or the terminal, the loop of the direct mode, and the callbacks of the relay mode on
  the client of \<open>Lifecycle\<close>.  Files, descriptors, the terminal, processes and the network are arguments.  Messages to the terminal are left out, and the names that
  only occur in them.
\<close>

subsection \<open>Secrets\<close>

datatype secret_error =
    SeveralSources | OpenSecret | StatSecret | NotRegular | ExposedMode u32 | BadDescriptor int | ReadSecret | SecretTooLong nat | SecretEmpty

text \<open>A file: whether \<open>Stat\<close> succeeds, whether it is regular, its permissions, and what reading it gives (\<open>None\<close> an error).\<close>

record secret_file =
  sf_stat :: bool
  sf_regular :: bool
  sf_perm :: u32
  sf_data :: "string option"

definition readBoundedSecret :: "string option \<Rightarrow> nat \<Rightarrow> (secret_error, string) result" where
  "readBoundedSecret r maxBytes =
     (case r of
        None \<Rightarrow> Inl ReadSecret
      | Some data \<Rightarrow>
          (let raw = take (maxBytes + 1) data in
           if maxBytes < length raw then Inl (SecretTooLong maxBytes)
           else let secret = TrimSpace raw in if secret = [] then Inl SecretEmpty else Inr secret))"

text \<open>The first component tells whether the warning about the process list is printed.\<close>

definition resolveSecret ::
    "(string \<Rightarrow> secret_file option) \<Rightarrow> (int \<Rightarrow> string option option) \<Rightarrow> string \<Rightarrow> string \<Rightarrow> int \<Rightarrow> nat \<Rightarrow> bool \<Rightarrow> bool \<times> (secret_error, string) result" where
  "resolveSecret files fds given path fd maxBytes warnLiteral =
     (let sources = (if given \<noteq> [] then 1 else 0) + (if path \<noteq> [] then 1 else 0) + (if 0 \<le> fd then 1 else 0 :: nat) in
      if 1 < sources then (False, Inl SeveralSources)
      else if given \<noteq> [] then (warnLiteral, Inr given)
      else if path \<noteq> [] then
        (False, case files path of
           None \<Rightarrow> Inl OpenSecret
         | Some f \<Rightarrow>
             if \<not> sf_stat f then Inl StatSecret
             else if \<not> sf_regular f then Inl NotRegular
             else if sf_perm f AND 0x3F \<noteq> 0 then Inl (ExposedMode (sf_perm f))
             else readBoundedSecret (sf_data f) maxBytes)
      else if 0 \<le> fd then
        (False, case fds fd of None \<Rightarrow> Inl (BadDescriptor fd) | Some r \<Rightarrow> readBoundedSecret r maxBytes)
      else (False, Inr []))"

datatype daemon_source_error = LiteralAssertion | DescriptorInput

definition validateDaemonSecretSources :: "string \<Rightarrow> string \<Rightarrow> int \<Rightarrow> int \<Rightarrow> daemon_source_error option" where
  "validateDaemonSecretSources samlLiteral relayLiteral samlFD relayFD =
     (if samlLiteral \<noteq> [] then Some LiteralAssertion
      else if 0 \<le> samlFD \<or> 0 \<le> relayFD then Some DescriptorInput
      else None)"

subsection \<open>main\<close>

record cli_flags =
  fl_config :: string
  fl_samlToken :: string
  fl_samlTokenFile :: string
  fl_samlTokenFD :: int
  fl_relay :: string
  fl_relayTokenFile :: string
  fl_relayTokenFD :: int
  fl_relayEndpoint :: string
  fl_agentID :: string
  fl_hostname :: string
  fl_daemon :: bool
  fl_debug :: bool

record os_env =
  oe_readyFD :: string
  oe_files :: "string \<Rightarrow> secret_file option"
  oe_fds :: "int \<Rightarrow> string option option"
  oe_profiles :: "string \<Rightarrow> string option"
  oe_hostname :: "string option"

datatype exit_reason =
    InvalidReadyFD | DaemonSource daemon_source_error | SamlSecret secret_error | RelaySecret secret_error | ConfigRequired | ParseConfig

datatype plan = ExitOne exit_reason | SpawnDaemon | RelayMode "Profile option" relay_Config int | DirectMode Profile string int

definition ParsePath :: "(string \<Rightarrow> string option) \<Rightarrow> string \<Rightarrow> Profile option" where
  "ParsePath profiles path =
     (case profiles path of None \<Rightarrow> None | Some t \<Rightarrow> (case ParseFile t of Inl _ \<Rightarrow> None | Inr p \<Rightarrow> Some p))"

definition debug_verb :: "bool \<Rightarrow> Profile \<Rightarrow> Profile" where
  "debug_verb debug p = (if debug \<and> pf_Verb p < 4 then p\<lparr>pf_Verb := 4\<rparr> else p)"

definition ready_fd :: "string \<Rightarrow> int option" where
  "ready_fd v =
     (if v = [] then Some 0
      else case Atoi v of None \<Rightarrow> None | Some fd \<Rightarrow> if fd \<le> 2 then None else Some fd)"

definition relay_plan :: "cli_flags \<Rightarrow> os_env \<Rightarrow> string \<Rightarrow> int \<Rightarrow> plan" where
  "relay_plan fl os relayToken readyFD =
     (let hostname = (if fl_hostname fl \<noteq> [] then fl_hostname fl else case oe_hostname os of Some h \<Rightarrow> h | None \<Rightarrow> ''unknown'');
          cfg = \<lparr>rc_Token = relayToken, rc_Hostname = hostname, rc_AgentID = fl_agentID fl, rc_Endpoint = fl_relayEndpoint fl, rc_OnPhase2 = True, rc_OnDisconnect = True\<rparr>
      in if fl_config fl = [] then RelayMode None cfg readyFD
         else case ParsePath (oe_profiles os) (fl_config fl) of
           None \<Rightarrow> ExitOne ParseConfig
         | Some p \<Rightarrow> RelayMode (Some (debug_verb (fl_debug fl) p)) cfg readyFD)"

definition direct_plan :: "cli_flags \<Rightarrow> os_env \<Rightarrow> string \<Rightarrow> int \<Rightarrow> plan" where
  "direct_plan fl os samlToken readyFD =
     (if fl_config fl = [] then ExitOne ConfigRequired
      else case ParsePath (oe_profiles os) (fl_config fl) of
        None \<Rightarrow> ExitOne ParseConfig
      | Some p \<Rightarrow> DirectMode (debug_verb (fl_debug fl) p) samlToken readyFD)"

definition cli_main :: "cli_flags \<Rightarrow> os_env \<Rightarrow> plan" where
  "cli_main fl os =
     (case ready_fd (oe_readyFD os) of
        None \<Rightarrow> ExitOne InvalidReadyFD
      | Some readyFD \<Rightarrow>
          if fl_daemon fl \<and> readyFD = 0 then
            (case validateDaemonSecretSources (fl_samlToken fl) (fl_relay fl) (fl_samlTokenFD fl) (fl_relayTokenFD fl) of
               Some e \<Rightarrow> ExitOne (DaemonSource e)
             | None \<Rightarrow> SpawnDaemon)
          else
            (case snd (resolveSecret (oe_files os) (oe_fds os) (fl_samlToken fl) (fl_samlTokenFile fl) (fl_samlTokenFD fl) MaxSAMLResponseBytes True) of
               Inl e \<Rightarrow> ExitOne (SamlSecret e)
             | Inr samlToken \<Rightarrow>
                 (case snd (resolveSecret (oe_files os) (oe_fds os) (fl_relay fl) (fl_relayTokenFile fl) (fl_relayTokenFD fl) (64 * 1024)
                    (fl_relay fl \<noteq> [] \<and> fl_relay fl \<noteq> ''default'')) of
                    Inl e \<Rightarrow> ExitOne (RelaySecret e)
                  | Inr relayToken \<Rightarrow>
                      if relayToken \<noteq> [] then relay_plan fl os relayToken readyFD else direct_plan fl os samlToken readyFD)))"

subsection \<open>The background start\<close>

definition notifyReady :: "int \<Rightarrow> string \<Rightarrow> string" where
  "notifyReady readyFD localIP = (if readyFD = 0 then [] else ''ok local='' @ localIP @ [CHR 0x0A])"

record spawn_env =
  se_pipe :: bool
  se_log :: "string \<Rightarrow> bool"
  se_executable :: bool
  se_start :: "nat option"
  se_pidfile :: bool
  se_said :: string

text \<open>The exit code, what is written to the pid file, and whether the child is killed; \<open>se_said\<close> is what the parent reads from the pipe, empty when the child ends first.\<close>

definition spawnDaemon :: "spawn_env \<Rightarrow> string \<Rightarrow> string \<Rightarrow> nat \<times> (string \<times> string) list \<times> bool" where
  "spawnDaemon e pidFile logFile =
     (if \<not> se_pipe e \<or> \<not> se_log e (if logFile \<noteq> [] then logFile else ''/dev/null'') \<or> \<not> se_executable e then (1, [], False)
      else case se_start e of
        None \<Rightarrow> (1, [], False)
      | Some pid \<Rightarrow>
          (let files = (if pidFile \<noteq> [] \<and> se_pidfile e then [(pidFile, nat_digits pid @ [CHR 0x0A])] else []);
               buf = take 64 (se_said e)
           in if buf = [] \<or> \<not> HasPrefix buf ''ok'' then (1, files, True) else (0, files, False)))"

definition isPermissionError :: "string option \<Rightarrow> bool" where
  "isPermissionError err =
     (case err of
        None \<Rightarrow> False
      | Some s \<Rightarrow> Index s ''permission denied'' \<noteq> None \<or> Index s ''operation not permitted'' \<noteq> None \<or> Index s ''CAP_NET_ADMIN'' \<noteq> None)"

definition protoName :: "Proto \<Rightarrow> string" where
  "protoName p = (case p of ProtoTCP \<Rightarrow> ''tcp'' | ProtoUDP \<Rightarrow> ''udp'')"

subsection \<open>The SAML token\<close>

definition max_line :: nat where "max_line = 65536"

definition drop_CR :: "string \<Rightarrow> string" where
  "drop_CR l = (if l \<noteq> [] \<and> last l = CHR 0x0D then butlast l else l)"

datatype token_error = EmptyToken | LineTooLongErr | EOFBeforeToken | AcsFailed | WaitCancelled

definition readTokenFromStdin :: "string \<Rightarrow> (token_error, string) result" where
  "readTokenFromStdin t =
     (case scan_lines t of
        [] \<Rightarrow> Inl EOFBeforeToken
      | l # _ \<Rightarrow> if max_line \<le> length l then Inl LineTooLongErr else if drop_CR l = [] then Inl EmptyToken else Inr (drop_CR l))"

text \<open>The terminal: lines as they are typed, and the moment at which the wait is over.\<close>

datatype tty = TtyLine string | TtyDone

fun watchSAMLTokenInput :: "bool \<Rightarrow> tty list \<Rightarrow> nat \<times> string option" where
  "watchSAMLTokenInput closed [] = (0, None)"
| "watchSAMLTokenInput closed (TtyDone # es) = watchSAMLTokenInput True es"
| "watchSAMLTokenInput closed (TtyLine l # es) =
     (if max_line \<le> length l \<or> closed then (0, None)
      else if drop_CR l = [] then apfst Suc (watchSAMLTokenInput closed es)
      else (0, Some (drop_CR l)))"

datatype saml_input = AcsToken string | AcsError | Typed string | CtxCancel

text \<open>What arrives first: the browser's token, an error of the server, a pasted token, the end of the context.  The terminal is not read again after a line that is too long.
  The result is \<open>None\<close> while the wait goes on; the number counts how often the URL is opened again.\<close>

fun saml_select :: "bool \<Rightarrow> saml_input list \<Rightarrow> nat \<times> (token_error, string) result option" where
  "saml_select reading [] = (0, None)"
| "saml_select reading (AcsToken t # es) = (0, Some (Inr t))"
| "saml_select reading (AcsError # es) = (0, Some (Inl AcsFailed))"
| "saml_select reading (CtxCancel # es) = (0, Some (Inl WaitCancelled))"
| "saml_select reading (Typed l # es) =
     (if \<not> reading \<or> max_line \<le> length l then saml_select False es
      else if drop_CR l = [] then apfst Suc (saml_select reading es)
      else (0, Some (Inr (drop_CR l))))"

definition waitForSAMLToken :: "bool \<Rightarrow> string \<Rightarrow> saml_input list \<Rightarrow> nat \<times> (token_error, string) result option" where
  "waitForSAMLToken acs_ok stdin es = (if acs_ok then saml_select True es else (0, Some (readTokenFromStdin stdin)))"

text \<open>The callback that the client calls, with the token of the command line as its state.\<close>

definition cli_SAMLTokenFn :: "(token_error, string) result \<Rightarrow> string \<Rightarrow> (token_error, string) result \<times> string" where
  "cli_SAMLTokenFn collected preSuppliedToken =
     (if preSuppliedToken \<noteq> [] then (Inr preSuppliedToken, []) else (collected, preSuppliedToken))"

subsection \<open>The loop of the direct mode\<close>

text \<open>One round: a signal comes first, or the client is done with a reason; and what the calls that follow return.\<close>

record cli_round =
  cr_signal :: bool
  cr_reason :: "client_error option"
  cr_ctx :: bool
  cr_reconnect :: "client_error option"
  cr_ctx_after :: bool
  cr_connect :: "client_error option"

datatype cli_action = CallDisconnect | CallWaitForDisconnect | CallReconnect | CallConnect

definition is_ping_exit :: "client_error \<Rightarrow> bool" where
  "is_ping_exit e = (case e of SessionDown (PingExitTimeout _) \<Rightarrow> True | _ \<Rightarrow> False)"

text \<open>The calls, and the exit code when the loop ends.\<close>

fun cli_loop :: "cli_round list \<Rightarrow> cli_action list \<times> nat option" where
  "cli_loop [] = ([], None)"
| "cli_loop (r # rs) =
     (if cr_signal r then ([CallDisconnect, CallWaitForDisconnect], Some 0)
      else case cr_reason r of
        None \<Rightarrow> ([CallWaitForDisconnect], Some 0)
      | Some reason \<Rightarrow>
          if cr_ctx r \<or> is_ping_exit reason then ([CallWaitForDisconnect], Some 0)
          else (case cr_reconnect r of
                  None \<Rightarrow> apfst ((@) [CallWaitForDisconnect, CallReconnect]) (cli_loop rs)
                | Some e \<Rightarrow>
                    if cr_ctx_after r then ([CallWaitForDisconnect, CallReconnect], Some 0)
                    else if e = ErrReauthRequired then
                      (case cr_connect r of
                         None \<Rightarrow> apfst ((@) [CallWaitForDisconnect, CallReconnect, CallConnect]) (cli_loop rs)
                       | Some _ \<Rightarrow> ([CallWaitForDisconnect, CallReconnect, CallConnect], Some 1))
                    else ([CallWaitForDisconnect, CallReconnect], Some 1)))"

subsection \<open>The relay mode\<close>

record relay_mode =
  rm_fallback :: "Profile option"
  rm_debug :: bool
  rm_readyFD :: int
  rm_activeClient :: "Client option"
  rm_serverDisconnect :: bool
  rm_stopped :: bool

datatype phase2_error = BadOvpnConfig profile_error | NoProfile | Phase2Connect client_error

datatype phase2_effect = ReportStatus string string string | NotifyParent string

definition phase2_profile :: "relay_mode \<Rightarrow> Phase2Payload \<Rightarrow> (phase2_error, Profile) result" where
  "phase2_profile m payload =
     (if p2_OvpnConfig payload \<noteq> [] then
        (case ParseFile (p2_OvpnConfig payload) of Inl e \<Rightarrow> Inl (BadOvpnConfig e) | Inr p \<Rightarrow> Inr (debug_verb (rm_debug m) p))
      else case rm_fallback m of Some p \<Rightarrow> Inr (debug_verb (rm_debug m) p) | None \<Rightarrow> Inl NoProfile)"

text \<open>\<open>OnPhase2\<close> up to the tunnel, as one step, and from the end of the tunnel on; \<open>localIP\<close> is the outbound address of the machine.\<close>

definition phase2_connect ::
    "link \<Rightarrow> string \<Rightarrow> Phase2Payload \<Rightarrow> relay_mode \<Rightarrow> phase2_error option \<times> phase2_effect list \<times> relay_mode" where
  "phase2_connect l localIP payload m =
     (case phase2_profile m payload of
        Inl e \<Rightarrow> (Some e, [], m)
      | Inr p \<Rightarrow>
          (case connectPhase2 l (p2_SAMLResponse payload) (SetRelayPhase2 (p2_RemoteIP payload) (p2_StateID payload) (New_Client p)) of
             (Inl e, c) \<Rightarrow> (Some (Phase2Connect e), [], m\<lparr>rm_activeClient := None\<rparr>)
           | (Inr _, c) \<Rightarrow>
               (None, (if rm_readyFD m = 0 then [] else [NotifyParent (notifyReady (rm_readyFD m) localIP)]) @ [ReportStatus (p2_SessionID payload) ''connected'' localIP],
                m\<lparr>rm_activeClient := Some c\<rparr>)))"

definition phase2_done :: "client_error option \<Rightarrow> Phase2Payload \<Rightarrow> relay_mode \<Rightarrow> client_error option \<times> phase2_effect list \<times> relay_mode" where
  "phase2_done err payload m =
     (if rm_serverDisconnect m then None else err, [ReportStatus (p2_SessionID payload) ''standby'' []], m\<lparr>rm_activeClient := None\<rparr>)"

definition OnDisconnect :: "relay_mode \<Rightarrow> relay_mode" where
  "OnDisconnect m =
     (case rm_activeClient m of
        None \<Rightarrow> m\<lparr>rm_stopped := True\<rparr>
      | Some c \<Rightarrow> m\<lparr>rm_serverDisconnect := True, rm_activeClient := Some (disconnect False c), rm_stopped := True\<rparr>)"

subsection \<open>Secrets come from one private source\<close>

lemma read_bounded:
  "readBoundedSecret r maxBytes = Inr secret \<longleftrightarrow>
   (\<exists>data. r = Some data \<and> length data \<le> maxBytes \<and> secret = TrimSpace data \<and> secret \<noteq> [])"
  by (auto simp: readBoundedSecret_def Let_def min_def split: option.splits if_splits)

lemma trim_right_free: "s = [] \<or> \<not> is_space (last s) \<Longrightarrow> trim_right is_space s = s"
  by (cases s rule: rev_cases) (simp_all add: trim_right_def)

text \<open>C38 (secrets).  A secret is returned only from exactly one source.  One that is read from a file comes from a regular file without any permission of group or others,
  no longer than the limit, and is its content without the white space around it, never empty; a warning is printed only for a literal.  Nothing is returned for nothing given.
  And a file that holds the secret followed by a newline gives exactly the secret.\<close>

theorem secret_sources:
  assumes "resolveSecret files fds given path fd maxBytes warn = (warned, Inr secret)"
  shows "(given \<noteq> [] \<and> path = [] \<and> fd < 0 \<and> secret = given \<and> warned = warn \<or>
      given = [] \<and> path \<noteq> [] \<and> fd < 0 \<and> \<not> warned \<and>
        (\<exists>f data. files path = Some f \<and> sf_regular f \<and> sf_perm f AND 0x3F = 0 \<and> sf_data f = Some data \<and> length data \<le> maxBytes \<and>
           secret = TrimSpace data \<and> secret \<noteq> []) \<or>
      given = [] \<and> path = [] \<and> 0 \<le> fd \<and> \<not> warned \<and>
        (\<exists>data. fds fd = Some (Some data) \<and> length data \<le> maxBytes \<and> secret = TrimSpace data \<and> secret \<noteq> []) \<or>
      given = [] \<and> path = [] \<and> fd < 0 \<and> \<not> warned \<and> secret = []) \<and>
    (\<forall>s f. s \<noteq> [] \<longrightarrow> \<not> is_space (hd s) \<longrightarrow> \<not> is_space (last s) \<longrightarrow> length s < maxBytes \<longrightarrow> path' \<noteq> [] \<longrightarrow>
       files path' = Some f \<longrightarrow> sf_stat f \<longrightarrow> sf_regular f \<longrightarrow> sf_perm f AND 0x3F = 0 \<longrightarrow> sf_data f = Some (s @ [CHR 0x0A]) \<longrightarrow>
       resolveSecret files fds [] path' (-1) maxBytes warn = (False, Inr s))"
proof (intro conjI allI impI)
  have one: "given = [] \<or> path = []" "given = [] \<or> fd < 0" "path = [] \<or> fd < 0"
    using assms by (auto simp: resolveSecret_def Let_def split: if_splits)
  consider (lit) "given \<noteq> []" | (path) "given = []" "path \<noteq> []" | (desc) "given = []" "path = []" "0 \<le> fd" | (none) "given = []" "path = []" "fd < 0"
    by linarith
  then show "given \<noteq> [] \<and> path = [] \<and> fd < 0 \<and> secret = given \<and> warned = warn \<or>
      given = [] \<and> path \<noteq> [] \<and> fd < 0 \<and> \<not> warned \<and>
        (\<exists>f data. files path = Some f \<and> sf_regular f \<and> sf_perm f AND 0x3F = 0 \<and> sf_data f = Some data \<and> length data \<le> maxBytes \<and>
           secret = TrimSpace data \<and> secret \<noteq> []) \<or>
      given = [] \<and> path = [] \<and> 0 \<le> fd \<and> \<not> warned \<and>
        (\<exists>data. fds fd = Some (Some data) \<and> length data \<le> maxBytes \<and> secret = TrimSpace data \<and> secret \<noteq> []) \<or>
      given = [] \<and> path = [] \<and> fd < 0 \<and> \<not> warned \<and> secret = []"
  proof cases
    case lit
    then show ?thesis using assms one by (auto simp: resolveSecret_def)
  next
    case path
    then have "fd < 0" using one(3) by simp
    with path show ?thesis using assms by (auto simp: resolveSecret_def read_bounded split: option.splits if_splits)
  next
    case desc
    then show ?thesis using assms by (auto simp: resolveSecret_def read_bounded split: option.splits)
  next
    case none
    then show ?thesis using assms by (simp add: resolveSecret_def)
  qed
next
  fix s f
  assume s: "s \<noteq> []" "\<not> is_space (hd s)" "\<not> is_space (last s)" "length s < maxBytes" "path' \<noteq> []" "files path' = Some f" "sf_stat f" "sf_regular f"
    "sf_perm f AND 0x3F = 0" "sf_data f = Some (s @ [CHR 0x0A])"
  have "TrimSpace (s @ [CHR 0x0A]) = s"
  proof -
    have "dropWhile is_space (s @ [CHR 0x0A]) = s @ [CHR 0x0A]" using s(1,2) by (cases s) simp_all
    moreover have "is_space (CHR 0x0A)" by code_simp
    ultimately show ?thesis using s(1,3) by (cases s rule: rev_cases) (simp_all add: TrimSpace_def trim_right_def)
  qed
  then have "readBoundedSecret (Some (s @ [CHR 0x0A])) maxBytes = Inr s" using s(1,4) by (simp add: read_bounded)
  then show "resolveSecret files fds [] path' (-1) maxBytes warn = (False, Inr s)"
    using s(5-) by (simp add: resolveSecret_def)
qed

definition sample_files :: "string \<Rightarrow> secret_file option" where
  "sample_files path = (if path = ''/run/token'' then Some \<lparr>sf_stat = True, sf_regular = True, sf_perm = 0x180, sf_data = Some (''tok'' @ [CHR 0x0A])\<rparr> else None)"

theorem secret_sources_witness:
  "resolveSecret sample_files (\<lambda>_. None) [] ''/run/token'' (-1) 10 True = (False, Inr ''tok'') \<and>
   (\<exists>f. sample_files ''/run/token'' = Some f \<and> sf_perm f AND 0x3F = 0)"
proof -
  have r: "resolveSecret sample_files (\<lambda>_. None) [] ''/run/token'' (-1) 10 True = (False, Inr ''tok'')"
    by code_simp
  from r secret_sources [OF r, of "''/run/token''"] show ?thesis by auto
qed

subsection \<open>What main decides\<close>

lemma spawn_without_secrets:
  assumes "cli_main fl os = SpawnDaemon"
  shows "fl_daemon fl \<and> fl_samlToken fl = [] \<and> fl_samlTokenFD fl < 0 \<and> fl_relayTokenFD fl < 0 \<and> oe_readyFD os = []"
  using assms by (auto simp: cli_main_def validateDaemonSecretSources_def ready_fd_def relay_plan_def direct_plan_def Let_def split: option.splits if_splits sum.splits)

lemma ready_handshake:
  assumes "readyFD \<noteq> 0" "se_pipe e" "se_log e (if logFile \<noteq> [] then logFile else ''/dev/null'')" "se_executable e" "se_start e = Some pid"
    "se_said e = notifyReady readyFD localIP"
  shows "fst (spawnDaemon e pidFile logFile) = 0"
  using assms by (simp add: spawnDaemon_def notifyReady_def HasPrefix_def)

lemma silent_child_killed:
  assumes "se_pipe e" "se_log e (if logFile \<noteq> [] then logFile else ''/dev/null'')" "se_executable e" "se_start e = Some pid" "se_said e = []"
  shows "fst (spawnDaemon e pidFile logFile) = 1 \<and> snd (snd (spawnDaemon e pidFile logFile))"
  using assms by (simp add: spawnDaemon_def)

subsection \<open>The token from the terminal\<close>

text \<open>The first line that is not empty is the token, every empty line before it opens the URL again, and nothing is taken once the wait is over.\<close>

lemma pasted_token:
  assumes "\<forall>l \<in> set es. drop_CR l = [] \<and> length l < max_line" "length t < max_line" "drop_CR t \<noteq> []"
  shows "watchSAMLTokenInput False (map TtyLine es @ TtyLine t # rest) = (length es, Some (drop_CR t))"
    "saml_select True (map Typed es @ Typed t # later) = (length es, Some (Inr (drop_CR t)))"
    "watchSAMLTokenInput True ins = (0, None)"
proof -
  show "watchSAMLTokenInput False (map TtyLine es @ TtyLine t # rest) = (length es, Some (drop_CR t))"
    using assms by (induction es) auto
  show "saml_select True (map Typed es @ Typed t # later) = (length es, Some (Inr (drop_CR t)))"
    using assms by (induction es) auto
  show "watchSAMLTokenInput True ins = (0, None)"
  proof (induction ins)
    case (Cons x ins)
    then show ?case by (cases x) simp_all
  qed simp
qed

text \<open>The token of the command line is used once: later calls wait for the browser.\<close>

lemma token_used_once:
  "pre \<noteq> [] \<Longrightarrow> cli_SAMLTokenFn r pre = (Inr pre, []) \<and> cli_SAMLTokenFn r' (snd (cli_SAMLTokenFn r pre)) = (r', [])"
  by (simp add: cli_SAMLTokenFn_def)

text \<open>A line of the terminal holds at most 65535 bytes, a token up to 131072: a longer one that is pasted is not read, and the terminal is not watched any more.\<close>

lemma long_token_not_pasted:
  assumes "max_line \<le> length t" "length t \<le> MaxSAMLResponseBytes" "CHR 0x0A \<notin> set t"
  shows "watchSAMLTokenInput False (TtyLine t # rest) = (0, None)" "readTokenFromStdin (t @ [CHR 0x0A]) = Inl LineTooLongErr"
proof -
  show "watchSAMLTokenInput False (TtyLine t # rest) = (0, None)" using assms by simp
  have "scan_lines (t @ [CHR 0x0A]) = [t]"
    using Split_append_sep [OF assms(3), of "[]"] assms(1) by (simp add: scan_lines_def Let_def)
  then show "readTokenFromStdin (t @ [CHR 0x0A]) = Inl LineTooLongErr" using assms(1) by (simp add: readTokenFromStdin_def)
qed

subsection \<open>The loop\<close>

definition recovers :: "cli_round \<Rightarrow> bool" where
  "recovers r \<longleftrightarrow>
     \<not> cr_signal r \<and> \<not> cr_ctx r \<and> (\<exists>reason. cr_reason r = Some reason \<and> \<not> is_ping_exit reason) \<and>
     (cr_reconnect r = None \<or> cr_reconnect r = Some ErrReauthRequired \<and> \<not> cr_ctx_after r \<and> cr_connect r = None)"

text \<open>The loop goes on exactly while every round recovers; a signal, a clean end and ping-exit end it with success and without a reconnection.\<close>

lemma cli_loop_goes_on: "(snd (cli_loop rs) = None) = list_all recovers rs"
  by (induction rs) (auto simp: recovers_def split: option.split)

lemma cli_loop_code:
  assumes "list_all recovers rs" "\<not> recovers r"
  shows "snd (cli_loop (rs @ r # rest)) =
    Some (if cr_signal r \<or> cr_reason r = None \<or> cr_ctx r \<or> is_ping_exit (the (cr_reason r)) \<or> cr_ctx_after r then 0 else 1)"
  using assms by (induction rs) (auto simp: recovers_def split: option.splits)

subsection \<open>The second phase on the agent\<close>

text \<open>C31 (the second phase on the agent).  A payload with a profile and with a state identifier of a SAML challenge, and a server that accepts it: \<open>OnPhase2\<close> brings a tunnel up without a first phase.
  Its client has dialled the payload's address and nothing else, over the only open connection, and has sent one set of credentials, the payload's state identifier and token.  The relay is told that
  the session is connected.  A disconnect of the server then ends that client's connection and the agent's loop, and the error that the tunnel ends with is not reported.\<close>

theorem agent_phase2_connects:
  assumes "p2_OvpnConfig payload \<noteq> []" "ParseFile (p2_OvpnConfig payload) = Inr p" "p2_StateID payload \<noteq> direct_state" "p2_RemoteIP payload \<noteq> []"
    and "answers l raw rest" "lk_dial l = Some (h, ra)" "lk_tls l = Some tls" "HasPrefix raw ''PUSH_REPLY''"
    and "reply_options raw (debug_verb (rm_debug m) p) = Some po" "serves l tls raw po"
  shows "\<exists>c effs. phase2_connect l localIP payload m = (None, effs @ [ReportStatus (p2_SessionID payload) ''connected'' localIP], m\<lparr>rm_activeClient := Some c\<rparr>) \<and>
    cl_state c = stateTunnelUp \<and> cl_conns c = [h] \<and> cl_dialLog c = [JoinHostPort (p2_RemoteIP payload) (Itoa (pf_Port p))] \<and>
    cl_authLog c = [(''N/A'', BuildPhase2Password (p2_StateID payload) (p2_SAMLResponse payload))] \<and>
    (let m' = OnDisconnect (m\<lparr>rm_activeClient := Some c\<rparr>) in
     rm_stopped m' \<and> (\<exists>c'. rm_activeClient m' = Some c' \<and> cl_state c' = stateDisconnecting \<and> cl_conns c' = []) \<and> fst (phase2_done err payload m') = None)"
proof -
  let ?p = "debug_verb (rm_debug m) p" and ?tok = "p2_SAMLResponse payload" and ?ip = "p2_RemoteIP payload" and ?st = "p2_StateID payload"
  let ?ch = "\<lparr>ch_StateID = ?st, ch_SAMLURL = [], ch_RemoteIP = ?ip\<rparr>"
  define c0 where "c0 = SetRelayPhase2 ?ip ?st (New_Client ?p)"
  define c1 where "c1 = c0\<lparr>cl_cachedSAMLToken := ?tok, cl_cachedSAMLExpiry := TokenExpiry ?tok, cl_cachedStateID := ?st, cl_cachedPhase1IP := cl_phase1IP c0\<rparr>"
  have c0: "cl_state c0 = stateConnecting" "cl_challenge c0 = Some ?ch" by (simp_all add: c0_def SetRelayPhase2_def)
  have c1: "conns_ok c1" "cl_prof c1 = ?p" "cl_phase1IP c1 = ?ip" "cl_dialLog c1 = []" "cl_authLog c1 = []"
    by (simp_all add: c1_def c0_def SetRelayPhase2_def New_Client_def conns_ok_def)
  obtain c2 where c2: "crv1_reply l ?ch ?tok c1 = (Inr raw, c2)" "cl_prof c2 = ?p" "cl_tlsConn c2 = Some tls" "cl_conns c2 = [h]" "cl_rawConn c2 = Some h"
      "cl_dialLog c2 = [host_addr c1 ?ip]" "cl_authLog c2 = [(''N/A'', BuildPhase2Password ?st ?tok)]"
    using crv1_reply_answers [OF assms(5-8) c1(1), of ?ch ?tok] c1 assms(4) by auto
  have P2: "connectPhase2 l ?tok c0 = start_tunnel l raw c2"
    using c0 assms(3) c2(1) by (simp add: connectPhase2_def cbind_def modify_def c1_def [symmetric])
  obtain c where c: "start_tunnel l raw c2 = (Inr (), c)" "cl_state c = stateTunnelUp" "same_session c2 c"
    using start_tunnel_serves [OF _ c2(3) assms(10)] assms(9) c2(2) by auto
  have port: "host_addr c1 ?ip = JoinHostPort ?ip (Itoa (pf_Port p))" using c1(2) by (simp add: host_addr_def debug_verb_def)
  have "phase2_connect l localIP payload m =
      (None, (if rm_readyFD m = 0 then [] else [NotifyParent (notifyReady (rm_readyFD m) localIP)]) @ [ReportStatus (p2_SessionID payload) ''connected'' localIP],
       m\<lparr>rm_activeClient := Some c\<rparr>)"
    using P2 c(1) assms(1,2) by (simp add: phase2_connect_def phase2_profile_def c0_def)
  moreover have "cl_conns c = [h]" "cl_dialLog c = [JoinHostPort ?ip (Itoa (pf_Port p))]" "cl_authLog c = [(''N/A'', BuildPhase2Password ?st ?tok)]" "cl_rawConn c = Some h"
    using c(3) c2 port by (simp_all add: same_session_def)
  moreover from this have "cl_state (disconnect False c) = stateDisconnecting" "cl_conns (disconnect False c) = []"
    using c(2) by (simp_all add: disconnect_def Let_def close_raw_def emit_def)
  ultimately show ?thesis
    using c(2) unfolding Let_def by (simp add: OnDisconnect_def phase2_done_def) blast
qed

definition sample_payload :: Phase2Payload where
  "sample_payload = \<lparr>p2_SessionID = ''s1'', p2_StateID = ''state-1'', p2_SAMLResponse = ''dG9rZW4='', p2_RemoteIP = ''192.0.2.9'', p2_OvpnConfig = sample_profile\<rparr>"

definition sample_mode :: relay_mode where
  "sample_mode = \<lparr>rm_fallback = None, rm_debug = False, rm_readyFD = 0, rm_activeClient = None, rm_serverDisconnect = False, rm_stopped = False\<rparr>"

theorem agent_phase2_connects_witness:
  "\<exists>c effs. phase2_connect (demo_link 8 demo_reply) ''10.0.0.2'' sample_payload sample_mode =
      (None, effs @ [ReportStatus ''s1'' ''connected'' ''10.0.0.2''], sample_mode\<lparr>rm_activeClient := Some c\<rparr>) \<and>
    cl_state c = stateTunnelUp \<and> cl_dialLog c = [JoinHostPort ''192.0.2.9'' (Itoa 443)]"
proof -
  have "map_sum id pf_Port (ParseFile sample_profile) = Inr 443" by code_simp
  then obtain p where p: "ParseFile sample_profile = Inr p" "pf_Port p = 443" by (cases "ParseFile sample_profile") auto
  obtain po where po: "reply_options demo_reply (debug_verb (rm_debug sample_mode) p) = Some po" "po_KeyDerivation po = KeyDerivationTLSEKM" "po_Cipher po = []"
    by (rule demo_options)
  have ne: "sample_profile \<noteq> []" "''state-1'' \<noteq> direct_state" "HasPrefix demo_reply ''PUSH_REPLY''" by code_simp+
  moreover have "answers (demo_link 8 demo_reply) demo_reply []" by (rule demo_answers) (simp_all add: demo_free, simp add: demo_reply_def MaxControlMessageBytes_def)
  moreover have "lk_dial (demo_link 8 demo_reply) = Some (8, UDPAddr [192, 0, 2, 1])" "lk_tls (demo_link 8 demo_reply) = Some demo_tls"
    by (simp_all add: demo_link_def)
  ultimately show ?thesis
    using agent_phase2_connects [of sample_payload p "demo_link 8 demo_reply" demo_reply "[]" 8 _ demo_tls sample_mode po "''10.0.0.2''" None] p po demo_serves [OF po(2,3)]
    by (auto simp: sample_payload_def)
qed

end
