(* ===== verification/Mobile.thy ===== *)
theory Mobile
  imports Go_Json Client_Flows
begin

section \<open>The client for mobile platforms\<close>

text \<open>
  \<^verbatim>\<open>client_mobile.go\<close> (the files for iOS and macOS have the same code) and the functions of \<^verbatim>\<open>client.go\<close> that only it uses: \<open>buildIfconfigJSON\<close>, \<open>Stats\<close>.
  The wrapper speaks strings: JSON for structured data, the text of an error otherwise.  The inner client is the one of \<open>Lifecycle\<close>; the callbacks of the platform
  are a record, the texts of errors the parameter \<open>ctext\<close>, and the traffic counters and the clock are arguments of \<open>Stats\<close>.
\<close>

subsection \<open>The network configuration\<close>

definition route_json :: "Route \<Rightarrow> json" where
  "route_json r = JObj [(''network'', JStr (IP_String (rt_Network r))), (''mask'', JStr (IP_String (rt_Mask r)))]"

definition ifconfig6_fields :: "Ifconfig6 option \<Rightarrow> (string \<times> json) list" where
  "ifconfig6_fields x =
     (case x of
        None \<Rightarrow> []
      | Some i \<Rightarrow>
          [(''local6'', JStr (IP_String (ifc6_Local i))), (''prefix6'', JNum (nat_digits (ifc6_Prefix i)))] @
          (if ifc6_Gateway i = [] then [] else [(''gateway6'', JStr (IP_String (ifc6_Gateway i)))]))"

definition ifconfig_fields :: "Topology \<Rightarrow> Ifconfig option \<Rightarrow> (string \<times> json) list" where
  "ifconfig_fields topology x =
     (case x of
        None \<Rightarrow> []
      | Some i \<Rightarrow>
          [(''local'', JStr (IP_String (ifc_Local i)))] @
          (if ifc_Mask i = [] then [] else [(''mask'', JStr (IP_String (ifc_Mask i)))]) @
          (if ifc_Gateway i = [] then []
           else [(if topology = TopologyNet30 then ''peer'' else ''gateway'', JStr (IP_String (ifc_Gateway i)))]))"

definition dns_members :: "dns_Config option \<Rightarrow> (string \<times> json) list" where
  "dns_members x =
     (case x of
        None \<Rightarrow> []
      | Some d \<Rightarrow>
          (if Servers d = [] then [] else [(''dns'', JArr (map (\<lambda>ip. JStr (IP_String ip)) (Servers d)))]) @
          (if SearchDomains d = [] then [] else [(''search_domains'', JArr (map JStr (SearchDomains d)))]) @
          (if RouteDomains d = [] then [] else [(''route_domains'', JArr (map JStr (RouteDomains d)))]))"

definition ifconfig_members :: "PushOptions \<Rightarrow> dns_Config option \<Rightarrow> nat \<Rightarrow> (string \<times> json) list" where
  "ifconfig_members push dnsOpts mtu =
     [(''mtu'', JNum (nat_digits mtu)), (''redirect_gateway'', JBool (po_RedirectGateway push)), (''redirect_gateway6'', JBool (po_RedirectGateway6 push))] @
     ifconfig6_fields (po_Ifconfig6 push) @ ifconfig_fields (po_Topology push) (po_Ifconfig push) @
     (if po_Routes push = [] then [] else [(''routes'', JArr (map route_json (po_Routes push)))]) @ dns_members dnsOpts"

definition buildIfconfigJSON :: "PushOptions \<Rightarrow> dns_Config option \<Rightarrow> nat \<Rightarrow> string" where
  "buildIfconfigJSON push dnsOpts mtu = Marshal (json_map (ifconfig_members push dnsOpts mtu))"

record Stats_snapshot =
  BytesSent :: nat
  BytesRecv :: nat
  Uptime :: int

definition client_Stats :: "nat \<Rightarrow> nat \<Rightarrow> int \<Rightarrow> Client \<Rightarrow> Stats_snapshot" where
  "client_Stats nsent nrecv now c =
     \<lparr>BytesSent = nsent, BytesRecv = nrecv, Uptime = (case cl_connectedAt c of None \<Rightarrow> 0 | Some up \<Rightarrow> now - up)\<rparr>"

subsection \<open>The wrapper\<close>

record MobileCallbacks =
  mb_Protect :: "int \<Rightarrow> bool"
  mb_EstablishTUN :: "string \<Rightarrow> nat \<Rightarrow> int"

record MobileClient =
  mc_inner :: Client
  mc_cancelled :: bool
  mc_cb :: "MobileCallbacks option"

datatype mobile_error = NotProtected int | NotEstablished int

definition NewMobileClient :: "string \<Rightarrow> MobileCallbacks option \<Rightarrow> (profile_error, MobileClient) result" where
  "NewMobileClient profileContent cb =
     (case ParseFile profileContent of
        Inl e \<Rightarrow> Inl e
      | Inr p \<Rightarrow> Inr \<lparr>mc_inner = New_Client p, mc_cancelled = False, mc_cb = cb\<rparr>)"

definition mobile_ProtectFn :: "MobileCallbacks \<Rightarrow> int \<Rightarrow> mobile_error option" where
  "mobile_ProtectFn cb fd = (if mb_Protect cb fd then None else Some (NotProtected fd))"

definition mobile_TUNSetup :: "MobileCallbacks \<Rightarrow> string \<Rightarrow> nat \<Rightarrow> (mobile_error, int) result" where
  "mobile_TUNSetup cb ifconfigJSON mtu =
     (let fd = mb_EstablishTUN cb ifconfigJSON mtu in if fd < 0 then Inl (NotEstablished fd) else Inr fd)"

definition error_text :: "(client_error \<Rightarrow> string) \<Rightarrow> (client_error, 'a) result \<Rightarrow> string" where
  "error_text ctext r = (case r of Inl e \<Rightarrow> ctext e | Inr _ \<Rightarrow> [])"

definition mobile_Connect :: "(client_error \<Rightarrow> string) \<Rightarrow> link \<Rightarrow> link \<Rightarrow> MobileClient \<Rightarrow> string \<times> MobileClient" where
  "mobile_Connect ctext l1 l2 m =
     (case Connect l1 l2 None (mc_inner m) of (r, c) \<Rightarrow> (error_text ctext r, m\<lparr>mc_inner := c\<rparr>))"

definition challenge_json :: "Challenge \<Rightarrow> string \<Rightarrow> json" where
  "challenge_json ch ip = json_map [(''saml_url'', JStr (ch_SAMLURL ch)), (''state_id'', JStr (ch_StateID ch)), (''remote_ip'', JStr ip)]"

definition StartSAMLFlow :: "(client_error \<Rightarrow> string) \<Rightarrow> link \<Rightarrow> MobileClient \<Rightarrow> string \<times> MobileClient" where
  "StartSAMLFlow ctext l m =
     (case connectPhase1 l (mc_inner m) of
        (Inl e, c) \<Rightarrow> (''error: '' @ ctext e, m\<lparr>mc_inner := c\<rparr>)
      | (Inr None, c) \<Rightarrow> (''{}'', m\<lparr>mc_inner := c\<rparr>)
      | (Inr (Some ch), c) \<Rightarrow> (Marshal (challenge_json ch (cl_phase1IP c)), m\<lparr>mc_inner := c\<rparr>))"

definition CompleteSAMLFlow :: "(client_error \<Rightarrow> string) \<Rightarrow> link \<Rightarrow> string \<Rightarrow> MobileClient \<Rightarrow> string \<times> MobileClient" where
  "CompleteSAMLFlow ctext l samlToken m =
     (case connectPhase2 l samlToken (mc_inner m) of (r, c) \<Rightarrow> (error_text ctext r, m\<lparr>mc_inner := c\<rparr>))"

definition mobile_Disconnect :: "MobileClient \<Rightarrow> string \<times> MobileClient" where
  "mobile_Disconnect m = ([], m\<lparr>mc_cancelled := True, mc_inner := disconnect False (mc_inner m)\<rparr>)"

definition mobile_Stats :: "nat \<Rightarrow> nat \<Rightarrow> int \<Rightarrow> MobileClient \<Rightarrow> string" where
  "mobile_Stats nsent nrecv now m =
     (let s = client_Stats nsent nrecv now (mc_inner m) in
      Marshal (json_map [(''bytes_sent'', JNum (nat_digits (BytesSent s))), (''bytes_recv'', JNum (nat_digits (BytesRecv s))),
        (''uptime_sec'', JNum (nat_digits (nat (Uptime s) div 1000000000))), (''local_ip'', JStr (LocalIP (mc_inner m)))]))"

subsection \<open>The texts are ASCII\<close>

abbreviation ascii :: "string \<Rightarrow> bool" where "ascii \<equiv> list_all (\<lambda>c. code c < 128)"

lemma ascii_nat_digits: "ascii (nat_digits n)"
proof -
  have "is_digit c \<Longrightarrow> code c < 128" for c by (simp add: is_digit_def code_def)
  then show ?thesis using nat_digits_wf [of n] by (auto simp: list_all_iff)
qed

lemma ascii_hex_digit: "code (hex_digit n) < 128" if "n < 16"
  using that code_char_of [of "48 + n"] code_char_of [of "87 + n"] by (simp add: hex_digit_def)

lemma ascii_hex_digits: "ascii (hex_digits n)"
  by (induction n rule: hex_digits.induct) (auto simp: hex_digits.simps [of "_"] ascii_hex_digit)

lemma ascii_join: "ascii sep \<Longrightarrow> \<forall>x \<in> set xs. ascii x \<Longrightarrow> ascii (join sep xs)"
  by (induction sep xs rule: join.induct) auto

lemma ascii_IP_String: "ascii (IP_String i)"
proof -
  have dots: "ascii ''.''" "ascii '':''" "ascii ''::''" "ascii ''<nil>''" "ascii ''?''" by code_simp+
  have v4: "ascii (ipv4_string a)" for a
    unfolding ipv4_string_def by (rule ascii_join [OF dots(1)]) (auto simp: ascii_nat_digits)
  have groups: "ascii (join '':'' (map hex_digits g))" for g
    by (rule ascii_join [OF dots(2)]) (auto simp: ascii_hex_digits)
  have v6: "ascii (ipv6_string a)" for a
    using groups dots(3) by (simp add: ipv6_string_def Let_def split: prod.split)
  have bytes: "ascii (concat (map (\<lambda>b. [hex_digit (unat b div 16), hex_digit (unat b mod 16)]) i))" for i :: bytes
  proof (induction i)
    case (Cons b i)
    have "unat b div 16 < 16" using unat_byte [of b] by (simp add: less_mult_imp_div_less)
    then show ?case using Cons by (simp add: ascii_hex_digit)
  qed simp
  show ?thesis
    using v4 v6 bytes dots by (simp add: IP_String_def)
qed

lemma valid_IP_String [simp]: "utf8_valid (IP_String i)"
  by (rule utf8_ascii [OF ascii_IP_String])

lemma valid_keys [simp]:
  "utf8_valid ''network''" "utf8_valid ''mask''" "utf8_valid ''mtu''" "utf8_valid ''redirect_gateway''" "utf8_valid ''redirect_gateway6''" "utf8_valid ''local6''"
  "utf8_valid ''prefix6''" "utf8_valid ''gateway6''" "utf8_valid ''local''" "utf8_valid ''peer''" "utf8_valid ''gateway''" "utf8_valid ''routes''" "utf8_valid ''dns''"
  "utf8_valid ''search_domains''" "utf8_valid ''route_domains''" "utf8_valid ''saml_url''" "utf8_valid ''state_id''" "utf8_valid ''remote_ip''"
  "utf8_valid ''bytes_sent''" "utf8_valid ''bytes_recv''" "utf8_valid ''uptime_sec''" "utf8_valid ''local_ip''"
  by (rule utf8_ascii, code_simp)+

subsection \<open>The configuration is read back\<close>

lemma map_of_sorted: "distinct (map fst ms) \<Longrightarrow> map_of (sort_key fst ms) = map_of (ms :: (string \<times> 'a) list)"
  by (rule map_of_inject_set [THEN iffD2]) (simp_all add: distinct_map inj_on_def)

text \<open>A map is marshalled with its keys in order, so reading the text back gives the map.\<close>

lemma json_map_read_back:
  assumes "distinct (map fst ms)" "list_all (\<lambda>(k, v). utf8_valid k \<and> wf_json (max_depth - 1) v) ms"
  shows "\<exists>ms'. parse_json (Marshal (json_map ms)) = Some (JObj ms') \<and> map_of ms' = map_of ms"
proof -
  have "wf_json max_depth (json_map ms)"
    using assms(2) by (auto simp: json_map_def max_depth_def list_all_iff)
  then show ?thesis
    using parse_json_Marshal map_of_sorted [OF assms(1)] by (auto simp: json_map_def)
qed

definition dns_valid :: "dns_Config option \<Rightarrow> bool" where
  "dns_valid x = (case x of None \<Rightarrow> True | Some d \<Rightarrow> list_all utf8_valid (SearchDomains d) \<and> list_all utf8_valid (RouteDomains d))"

lemma ifconfig_members_valid:
  assumes "dns_valid dnsOpts"
  shows "distinct (map fst (ifconfig_members push dnsOpts mtu))" "list_all (\<lambda>(k, v). utf8_valid k \<and> wf_json (max_depth - 1) v) (ifconfig_members push dnsOpts mtu)"
proof -
  show "distinct (map fst (ifconfig_members push dnsOpts mtu))"
    by (cases "po_Ifconfig6 push"; cases "po_Ifconfig push"; cases dnsOpts)
      (simp_all add: ifconfig_members_def ifconfig6_fields_def ifconfig_fields_def dns_members_def)
  have d: "list_all (\<lambda>(k, v). utf8_valid k \<and> wf_json (max_depth - 1) v) (dns_members dnsOpts)"
    using assms by (cases dnsOpts) (auto simp: dns_members_def dns_valid_def max_depth_def list_all_iff)
  have r: "list_all (\<lambda>(k, v). utf8_valid k \<and> wf_json (max_depth - 1) v) (if po_Routes push = [] then [] else [(''routes'', JArr (map route_json (po_Routes push)))])"
    by (auto simp: route_json_def max_depth_def list_all_iff)
  have i: "list_all (\<lambda>(k, v). utf8_valid k \<and> wf_json (max_depth - 1) v) (ifconfig_fields (po_Topology push) (po_Ifconfig push))"
    "list_all (\<lambda>(k, v). utf8_valid k \<and> wf_json (max_depth - 1) v) (ifconfig6_fields (po_Ifconfig6 push))"
    by (cases "po_Ifconfig push"; simp add: ifconfig_fields_def) (cases "po_Ifconfig6 push"; simp add: ifconfig6_fields_def)
  show "list_all (\<lambda>(k, v). utf8_valid k \<and> wf_json (max_depth - 1) v) (ifconfig_members push dnsOpts mtu)"
    using d r i by (simp add: ifconfig_members_def)
qed


definition sample_push :: PushOptions where
  "sample_push = (projr (ParsePushReply demo_reply))"


text \<open>The pushed IPv6 routes are not part of the text.\<close>

lemma ipv6_routes_left_out: "buildIfconfigJSON (push\<lparr>po_Routes6 := rs\<rparr>) dnsOpts mtu = buildIfconfigJSON push dnsOpts mtu"
  by (simp add: buildIfconfigJSON_def ifconfig_members_def)

subsection \<open>The SAML flow\<close>



end
