(* ===== verification/Resolved.thy ===== *)
theory Resolved
  imports Routes
begin

section \<open>DNS through systemd-resolved\<close>

text \<open>
  Models \<^verbatim>\<open>dns/dns_linux.go\<close>.  The calls over D-Bus and the lookup of an interface are a parameter: a call tells whether it succeeded, and \<open>resolved\<close> states what
  the code relies on of the service.  A property that cannot be read and one whose value has another type are both \<open>None\<close>.
\<close>

record 'r bus =
  rb_index :: "string \<Rightarrow> 'r \<Rightarrow> int option"
  rb_connect :: "'r \<Rightarrow> bool"
  rb_SetLinkDNS :: "int \<Rightarrow> (int \<times> bytes) list \<Rightarrow> 'r \<Rightarrow> bool \<times> 'r"
  rb_SetLinkDomains :: "int \<Rightarrow> (string \<times> bool) list \<Rightarrow> 'r \<Rightarrow> bool \<times> 'r"
  rb_RevertLink :: "int \<Rightarrow> 'r \<Rightarrow> bool \<times> 'r"
  rb_GetLink :: "int \<Rightarrow> 'r \<Rightarrow> string option"
  rb_DNS :: "string \<Rightarrow> 'r \<Rightarrow> (int \<times> bytes) list option"
  rb_Domains :: "string \<Rightarrow> 'r \<Rightarrow> (string \<times> bool) list option"

subsection \<open>Operations\<close>

definition resolvedLinkDomains :: "dns_Config \<Rightarrow> (string \<times> bool) list" where
  "resolvedLinkDomains cfg =
     (if RouteDomains cfg = [] then [(''.'', True)] else map (\<lambda>d. (d, True)) (RouteDomains cfg)) @
     map (\<lambda>d. (d, False)) (SearchDomains cfg)"

definition dns_ifIndex :: "'r bus \<Rightarrow> string \<Rightarrow> 'r \<Rightarrow> (dns_error, int) result" where
  "dns_ifIndex bus ifName r = (case rb_index bus ifName r of None \<Rightarrow> Inl (NoInterface ifName) | Some i \<Rightarrow> Inr (sint (of_int i :: u32)))"

definition addr_entry :: "ip \<Rightarrow> int \<times> bytes" where
  "addr_entry srv = (if To4 srv \<noteq> [] then (2, To4 srv) else (10, To16 srv))"

definition ApplyResolved :: "'r bus \<Rightarrow> dns_Config option \<Rightarrow> string \<Rightarrow> 'r \<Rightarrow> dns_error option \<times> 'r" where
  "ApplyResolved bus cfg ifName r =
     (case cfg of
        None \<Rightarrow> (None, r)
      | Some c \<Rightarrow>
          (if Servers c = [] then (None, r)
           else case dns_ifIndex bus ifName r of
             Inl e \<Rightarrow> (Some e, r)
           | Inr idx \<Rightarrow>
               (if \<not> rb_connect bus r then (Some NoSystemBus, r)
                else case rb_SetLinkDNS bus idx (map addr_entry (Servers c)) r of
                  (False, r1) \<Rightarrow> (Some (BusCall ''SetLinkDNS''), r1)
                | (True, r1) \<Rightarrow>
                    (case rb_SetLinkDomains bus idx (resolvedLinkDomains c) r1 of
                       (False, r2) \<Rightarrow> (Some (BusCall ''SetLinkDomains''), snd (rb_RevertLink bus idx r2))
                     | (True, r2) \<Rightarrow> (None, r2)))))"

definition RevertResolved :: "'r bus \<Rightarrow> string \<Rightarrow> 'r \<Rightarrow> dns_error option \<times> 'r" where
  "RevertResolved bus ifName r =
     (case dns_ifIndex bus ifName r of
        Inl e \<Rightarrow> (Some e, r)
      | Inr idx \<Rightarrow>
          (if \<not> rb_connect bus r then (Some NoSystemBus, r)
           else case rb_RevertLink bus idx r of (ok, r1) \<Rightarrow> ((if ok then None else Some (BusCall ''RevertLink'')), r1)))"

definition dns_Apply :: "'r bus \<Rightarrow> (string \<Rightarrow> bool) \<Rightarrow> string \<Rightarrow> dns_Config option \<Rightarrow> string \<Rightarrow> string \<Rightarrow> 'r host \<Rightarrow> (Backend \<times> dns_error option) \<times> 'r host" where
  "dns_Apply bus writable ResolvConfPath cfg ifName backupPath h =
     (case cfg of
        None \<Rightarrow> ((BackendNone, None), h)
      | Some c \<Rightarrow>
          (if Servers c = [] then ((BackendNone, None), h)
           else case ApplyResolved bus cfg ifName (snd h) of
             (None, r1) \<Rightarrow> ((BackendResolved, None), (fst h, r1))
           | (Some _, r1) \<Rightarrow>
               (case (if backupPath \<noteq> [] then BackupResolvConf writable ResolvConfPath backupPath (fst h) else Inr (fst h)) of
                  Inl e \<Rightarrow> ((BackendNone, Some e), (fst h, r1))
                | Inr fs1 \<Rightarrow>
                    (case ApplyResolvConf writable ResolvConfPath cfg fs1 of
                       Inl e \<Rightarrow> ((BackendResolvConf, Some e), (fs1, r1))
                     | Inr fs2 \<Rightarrow> ((BackendResolvConf, None), (fs2, r1))))))"

text \<open>When the backup cannot be removed the file has been written already.\<close>

definition dns_Revert :: "'r bus \<Rightarrow> (string \<Rightarrow> bool) \<Rightarrow> string \<Rightarrow> Backend \<Rightarrow> string \<Rightarrow> string \<Rightarrow> 'r host \<Rightarrow> dns_error option \<times> 'r host" where
  "dns_Revert bus writable ResolvConfPath backend ifName backupPath h =
     (case backend of
        BackendResolved \<Rightarrow> (case RevertResolved bus ifName (snd h) of (e, r1) \<Rightarrow> (e, (fst h, r1)))
      | BackendResolvConf \<Rightarrow> (case RestoreResolvConf writable ResolvConfPath backupPath (fst h) of
             Inl e \<Rightarrow> (Some e, (if e = RemoveFailed backupPath then ((fst h)(ResolvConfPath := fst h backupPath), snd h) else h))
           | Inr fs1 \<Rightarrow> (None, (fs1, snd h)))
      | BackendNone \<Rightarrow> (None, h))"

definition domain_text :: "(string \<times> bool) list \<Rightarrow> string" where
  "domain_text ds = concat (map (\<lambda>(d, routeOnly). d @ [if routeOnly then CHR 0x01 else CHR 0x00, CHR 0x00]) ds)"

definition resolvedState :: "dns_Config \<Rightarrow> string \<times> string" where
  "resolvedState cfg = (concat (map (\<lambda>i. IP_String i @ [CHR 0x00]) (Servers cfg)), domain_text (resolvedLinkDomains cfg))"

definition readResolvedState :: "'r bus \<Rightarrow> string \<Rightarrow> 'r \<Rightarrow> (dns_error, string \<times> string) result" where
  "readResolvedState bus ifName r =
     (case dns_ifIndex bus ifName r of
        Inl e \<Rightarrow> Inl e
      | Inr idx \<Rightarrow>
          (if \<not> rb_connect bus r then Inl NoSystemBus
           else case rb_GetLink bus idx r of
             None \<Rightarrow> Inl (BusCall ''GetLink'')
           | Some path \<Rightarrow>
               (case rb_DNS bus path r of
                  None \<Rightarrow> Inl (BusCall ''DNS'')
                | Some dnsEntries \<Rightarrow>
                    (case rb_Domains bus path r of
                       None \<Rightarrow> Inl (BusCall ''Domains'')
                     | Some domainEntries \<Rightarrow>
                         Inr (fst (resolvedState \<lparr>Servers = map snd dnsEntries, SearchDomains = [], RouteDomains = []\<rparr>), domain_text domainEntries)))))"

definition resolved_inspect :: "'r bus \<Rightarrow> dns_Config \<Rightarrow> string \<Rightarrow> 'r host \<Rightarrow> (dns_error, DriftKind \<times> bool) result" where
  "resolved_inspect bus cfg ifName h =
     (case readResolvedState bus ifName (snd h) of
        Inl e \<Rightarrow> Inl e
      | Inr (dnsState, domains) \<Rightarrow>
          (if dnsState = [] \<and> domains = [] then Inr (DriftMissing, True)
           else if dnsState \<noteq> fst (resolvedState cfg) \<or> domains \<noteq> snd (resolvedState cfg) then Inr (DriftChanged, True)
           else Inr (NoDrift, False)))"

definition resolved_cleanup :: "'r bus \<Rightarrow> dns_Config \<Rightarrow> string \<Rightarrow> 'r host \<Rightarrow> dns_error option \<times> 'r host" where
  "resolved_cleanup bus cfg ifName h =
     (case resolved_inspect bus cfg ifName h of
        Inl e \<Rightarrow> (Some e, h)
      | Inr (kind, drifted) \<Rightarrow>
          (if drifted \<and> kind = DriftChanged then (None, h)
           else case RevertResolved bus ifName (snd h) of (e, r1) \<Rightarrow> (e, (fst h, r1))))"

definition resolved_owner :: "'r bus \<Rightarrow> dns_Config \<Rightarrow> string \<Rightarrow> 'r dns_Ownership" where
  "resolved_owner bus cfg ifName =
     dns_NewOwnership (Some (resolved_inspect bus cfg ifName))
       (Some (\<lambda>h. case ApplyResolved bus (Some cfg) ifName (snd h) of (e, r1) \<Rightarrow> (e, (fst h, r1))))
       (Some (resolved_cleanup bus cfg ifName))"

definition OwnershipForApplied :: "'r bus \<Rightarrow> (string \<Rightarrow> bool) \<Rightarrow> string \<Rightarrow> Backend \<Rightarrow> dns_Config \<Rightarrow> string \<Rightarrow> string \<Rightarrow> files \<Rightarrow>
    (dns_error, 'r dns_Ownership option) result" where
  "OwnershipForApplied bus readable ResolvConfPath backend cfg ifName backupPath fs =
     (if backend = BackendResolvConf then OwnershipForBackend readable ResolvConfPath backend backupPath fs
      else if backend \<noteq> BackendResolved then Inr None
      else Inr (Some (resolved_owner bus cfg ifName)))"

subsection \<open>The service\<close>

text \<open>The settings of a link are its servers and its domains; names that satisfy \<open>plain\<close> are stored as given.  A call that fails changes nothing, \<open>RevertLink\<close> does
  not fail, what is stored can be read back, and no call changes the interfaces or the connection to the bus.\<close>

type_synonym link_settings = "int \<Rightarrow> (int \<times> bytes) list \<times> (string \<times> bool) list"

definition same_host :: "'r bus \<Rightarrow> 'r \<Rightarrow> 'r \<Rightarrow> bool" where
  "same_host bus r r' \<longleftrightarrow> (\<forall>n. rb_index bus n r' = rb_index bus n r) \<and> rb_connect bus r' = rb_connect bus r"

definition resolved :: "'r bus \<Rightarrow> (string \<Rightarrow> bool) \<Rightarrow> ('r \<Rightarrow> link_settings) \<Rightarrow> bool" where
  "resolved bus plain links \<longleftrightarrow>
     (\<forall>i as r. case rb_SetLinkDNS bus i as r of (ok, r') \<Rightarrow> same_host bus r r' \<and>
        links r' = (if ok then (links r)(i := (as, snd (links r i))) else links r)) \<and>
     (\<forall>i ds r. list_all (\<lambda>d. plain (fst d)) ds \<longrightarrow> (case rb_SetLinkDomains bus i ds r of (ok, r') \<Rightarrow> same_host bus r r' \<and>
        links r' = (if ok then (links r)(i := (fst (links r i), ds)) else links r))) \<and>
     (\<forall>i r. case rb_RevertLink bus i r of (ok, r') \<Rightarrow> ok \<and> same_host bus r r' \<and> links r' = (links r)(i := ([], []))) \<and>
     (\<forall>i r. \<exists>p. rb_GetLink bus i r = Some p \<and> rb_DNS bus p r = Some (fst (links r i)) \<and> rb_Domains bus p r = Some (snd (links r i)))"

definition dns_settings :: "dns_Config \<Rightarrow> (int \<times> bytes) list \<times> (string \<times> bool) list" where
  "dns_settings cfg = (map addr_entry (Servers cfg), resolvedLinkDomains cfg)"

definition dns_wf :: "(string \<Rightarrow> bool) \<Rightarrow> dns_Config \<Rightarrow> bool" where
  "dns_wf plain cfg \<longleftrightarrow> Servers cfg \<noteq> [] \<and> list_all (\<lambda>i. To16 i \<noteq> []) (Servers cfg) \<and> list_all (\<lambda>d. plain (fst d)) (resolvedLinkDomains cfg)"

definition link_text :: "(int \<times> bytes) list \<times> (string \<times> bool) list \<Rightarrow> string \<times> string" where
  "link_text s = (fst (resolvedState \<lparr>Servers = map snd (fst s), SearchDomains = [], RouteDomains = []\<rparr>), domain_text (snd s))"

text \<open>What is read back for the settings of a configuration is what the ledger expects.\<close>

lemma settings_state:
  assumes "dns_wf plain cfg"
  shows "link_text (dns_settings cfg) = resolvedState cfg"
proof -
  have "IP_String (snd (addr_entry i)) = IP_String i" if "i \<in> set (Servers cfg)" for i
    using that assms IP_String_To4 [of i] IP_String_To16 [of i] To4_length [of i] by (auto simp: addr_entry_def dns_wf_def list_all_iff)
  then show ?thesis by (simp add: link_text_def resolvedState_def dns_settings_def o_def cong: map_cong)
qed

lemma link_text_empty: "link_text s = ([], []) \<longleftrightarrow> s = ([], [])"
  by (cases s; cases "fst s"; cases "snd s") (auto simp: link_text_def resolvedState_def domain_text_def)

lemma state_nonempty: "dns_wf plain cfg \<Longrightarrow> resolvedState cfg \<noteq> ([], [])"
  by (auto simp: dns_wf_def resolvedState_def neq_Nil_conv)

text \<open>The service as the functions see it, for a link with the index \<open>i\<close>.\<close>

definition on_link :: "'r bus \<Rightarrow> string \<Rightarrow> int \<Rightarrow> 'r \<Rightarrow> bool" where
  "on_link bus ifName i r \<longleftrightarrow> rb_index bus ifName r = Some i \<and> 0 < i \<and> i < 2 ^ 31 \<and> rb_connect bus r"

lemma on_link_same: "on_link bus ifName i r \<Longrightarrow> same_host bus r r' \<Longrightarrow> on_link bus ifName i r'"
  by (simp add: on_link_def same_host_def)

lemma same_host_trans: "same_host bus r r1 \<Longrightarrow> same_host bus r1 r2 \<Longrightarrow> same_host bus r r2"
  by (simp add: same_host_def)

lemma dns_ifIndex_link: "on_link bus ifName i r \<Longrightarrow> dns_ifIndex bus ifName r = Inr i"
  by (simp add: on_link_def dns_ifIndex_def sint_sbintrunc' signed_take_bit_int_eq_self)

lemma readResolvedState_links:
  assumes "resolved bus plain links" "on_link bus ifName i r"
  shows "readResolvedState bus ifName r = Inr (link_text (links r i))"
proof -
  obtain p where "rb_GetLink bus i r = Some p" "rb_DNS bus p r = Some (fst (links r i))" "rb_Domains bus p r = Some (snd (links r i))"
    using assms(1) unfolding resolved_def by blast
  then show ?thesis using assms(2) dns_ifIndex_link [OF assms(2)] by (simp add: readResolvedState_def link_text_def on_link_def)
qed

lemma resolved_inspect_links:
  assumes "resolved bus plain links" "on_link bus ifName i r" "dns_wf plain cfg"
  shows "resolved_inspect bus cfg ifName (fs, r) =
    Inr (if links r i = ([], []) then (DriftMissing, True) else if link_text (links r i) = resolvedState cfg then (NoDrift, False) else (DriftChanged, True))"
  using readResolvedState_links [OF assms(1,2)] link_text_empty [of "links r i"] state_nonempty [OF assms(3)]
  by (auto simp: resolved_inspect_def prod_eq_iff split: prod.splits)

lemma RevertResolved_links:
  assumes "resolved bus plain links" "on_link bus ifName i r"
  obtains r1 where "RevertResolved bus ifName r = (None, r1)" "links r1 = (links r)(i := ([], []))" "same_host bus r r1"
proof -
  obtain ok r1 where r1: "rb_RevertLink bus i r = (ok, r1)" by fastforce
  moreover have "ok \<and> same_host bus r r1 \<and> links r1 = (links r)(i := ([], []))"
    using assms(1) r1 unfolding resolved_def by (metis (mono_tags, lifting) case_prod_conv)
  ultimately show thesis using that assms(2) dns_ifIndex_link [OF assms(2)] by (simp add: RevertResolved_def on_link_def)
qed

lemma ApplyResolved_links:
  assumes "resolved bus plain links" "on_link bus ifName i r" "dns_wf plain cfg" "links r i = ([], [])"
  obtains (applied) r1 where "ApplyResolved bus (Some cfg) ifName r = (None, r1)" "links r1 = (links r)(i := dns_settings cfg)" "same_host bus r r1"
  | (failed) e r1 where "ApplyResolved bus (Some cfg) ifName r = (Some e, r1)" "links r1 = links r" "same_host bus r r1"
proof -
  obtain ok1 r1 where r1: "rb_SetLinkDNS bus i (map addr_entry (Servers cfg)) r = (ok1, r1)" by fastforce
  obtain ok2 r2 where r2: "rb_SetLinkDomains bus i (resolvedLinkDomains cfg) r1 = (ok2, r2)" by fastforce
  obtain ok3 r3 where r3: "rb_RevertLink bus i r2 = (ok3, r3)" by fastforce
  have "case rb_SetLinkDNS bus i (map addr_entry (Servers cfg)) r of (ok, r') \<Rightarrow> same_host bus r r' \<and>
      links r' = (if ok then (links r)(i := (map addr_entry (Servers cfg), snd (links r i))) else links r)"
    using assms(1) unfolding resolved_def by (elim conjE allE)
  then have e1: "same_host bus r r1" "links r1 = (if ok1 then (links r)(i := (map addr_entry (Servers cfg), [])) else links r)" using r1 assms(4) by simp_all
  have pl: "list_all (\<lambda>d. plain (fst d)) (resolvedLinkDomains cfg)" using assms(3) by (simp add: dns_wf_def)
  have "case rb_SetLinkDomains bus i (resolvedLinkDomains cfg) r1 of (ok, r') \<Rightarrow> same_host bus r1 r' \<and>
      links r' = (if ok then (links r1)(i := (fst (links r1 i), resolvedLinkDomains cfg)) else links r1)"
    by (rule assms(1) [unfolded resolved_def, THEN conjunct2, THEN conjunct1, rule_format, OF pl])
  then have e2: "same_host bus r1 r2" "links r2 = (if ok2 then (links r1)(i := (fst (links r1 i), resolvedLinkDomains cfg)) else links r1)" using r2 by simp_all
  have "case rb_RevertLink bus i r2 of (ok, r') \<Rightarrow> ok \<and> same_host bus r2 r' \<and> links r' = (links r2)(i := ([], []))"
    using assms(1) unfolding resolved_def by (elim conjE allE)
  then have e3: "same_host bus r2 r3" "links r3 = (links r2)(i := ([], []))" using r3 by simp_all
  have a: "ApplyResolved bus (Some cfg) ifName r =
      (if \<not> ok1 then (Some (BusCall ''SetLinkDNS''), r1) else if \<not> ok2 then (Some (BusCall ''SetLinkDomains''), r3) else (None, r2))"
    using r1 r2 r3 assms(2,3) dns_ifIndex_link [OF assms(2)] by (simp add: ApplyResolved_def on_link_def dns_wf_def split: bool.split)
  have same: "same_host bus r r2" "same_host bus r r3" using e1(1) e2(1) e3(1) by (blast intro: same_host_trans)+
  show thesis
  proof (cases "ok1 \<and> ok2")
    case True
    then show thesis using applied [of r2] a e1(2) e2(2) same by (simp add: dns_settings_def)
  next
    case False
    then have "ok1 \<Longrightarrow> links r3 = links r" using e1(2) e2(2) e3(2) assms(4) by (simp add: fun_upd_idem)
    then show thesis using False failed a e1 same(2) by (cases ok1) simp_all
  qed
qed

text \<open>Applying the settings and cleaning up.\<close>

lemma dns_cycle:
  assumes "resolved bus plain links" "on_link bus ifName i r" "dns_wf plain cfg" "links r i = ([], [])"
    and "readable path" "readable backup" "writable path" "writable backup" "path \<noteq> backup" "backup \<noteq> []" "fs path = Some before"
    and "dns_Apply bus writable path (Some cfg) ifName backup (fs, r) = ((b, e), h1)"
  obtains ow h2 where "e = None"
    "b = BackendResolved \<and> fst h1 = fs \<and> links (snd h1) = (links r)(i := dns_settings cfg) \<and> ow = resolved_owner bus cfg ifName \<or>
     b = BackendResolvConf \<and> fst h1 path = Some (resolv_text cfg) \<and> links (snd h1) = links r"
    "OwnershipForApplied bus readable path b cfg ifName backup (fst h1) = Inr (Some ow)" "dns_Check readable (Some ow) h1 = Inr (NoDrift, False)"
    "dns_Cleanup readable writable (Some ow) h1 = (None, Some (ow\<lparr>do_closed := True\<rparr>), h2)"
    "fst h2 = (if b = BackendResolved then fs else fs(backup := None))" "links (snd h2) = links r" "same_host bus r (snd h2)"
proof (rule ApplyResolved_links [OF assms(1-4)], goal_cases applied failed)
  case (applied r1)
  have ne: "Servers cfg \<noteq> []" using assms(3) by (simp add: dns_wf_def)
  have b: "b = BackendResolved" "e = None" "h1 = (fs, r1)" using assms(12) applied(2) ne by (simp_all add: dns_Apply_def)
  have l: "on_link bus ifName i r1" by (rule on_link_same [OF assms(2) applied(4)])
  have "links r1 i = dns_settings cfg" "dns_settings cfg \<noteq> ([], [])" using applied(3) ne by (simp_all add: dns_settings_def)
  then have i1: "resolved_inspect bus cfg ifName (fs, r1) = Inr (NoDrift, False)"
    using resolved_inspect_links [OF assms(1) l assms(3)] settings_state [OF assms(3)] by simp
  obtain r3 where r3: "RevertResolved bus ifName r1 = (None, r3)" "links r3 = (links r1)(i := ([], []))" "same_host bus r1 r3"
    by (rule RevertResolved_links [OF assms(1) l])
  have undone: "links r3 = links r" "same_host bus r r3" using r3 applied(3,4) assms(4) by (auto simp: fun_upd_idem intro: same_host_trans)
  show thesis
    by (rule applied(1) [of "resolved_owner bus cfg ifName" "(fs, r3)"])
      (use b applied(3) i1 r3(1) undone in \<open>auto simp: OwnershipForApplied_def dns_Check_def dns_checkLocked_def dns_Cleanup_def dns_NewOwnership_def resolved_owner_def resolved_cleanup_def Let_def\<close>)
next
  case (failed x r1)
  have ne: "Servers cfg \<noteq> []" using assms(3) by (simp add: dns_wf_def)
  let ?fs2 = "fs(backup \<mapsto> before, path \<mapsto> resolv_text cfg)" and ?ow = "NewFileOwnership path backup (resolv_text cfg)"
  have b: "b = BackendResolvConf" "e = None" "h1 = (?fs2, r1)"
    using assms(7-12) failed(2) ne by (simp_all add: dns_Apply_def BackupResolvConf_def ApplyResolvConf_def write_file_def)
  have restored: "?fs2(path \<mapsto> before, backup := None) = fs(backup := None)" using assms(9,11) by (auto simp: fun_eq_iff)
  show thesis
    by (rule failed(1) [of ?ow "(fs(backup := None), r1)"])
      (use b failed(3,4) assms(5-10) restored in \<open>auto simp: OwnershipForApplied_def OwnershipForBackend_def dns_Check_def dns_checkLocked_def dns_Cleanup_def file_cleanup_def
         NewFileOwnership_def write_file_def remove_backup_def Let_def\<close>)
qed


text \<open>A service that stores the settings; the path of a link tells its index.\<close>

definition link_path :: "int \<Rightarrow> string" where
  "link_path i = (if i < 0 then replicate (nat (- i)) CHR ''n'' else replicate (nat i) CHR ''p'')"

definition path_index :: "string \<Rightarrow> int" where
  "path_index p = (case p of [] \<Rightarrow> 0 | c # _ \<Rightarrow> if c = CHR ''n'' then - int (length p) else int (length p))"

lemma path_index_path: "path_index (link_path i) = i"
  by (cases "nat i"; cases "nat (- i)") (auto simp: link_path_def path_index_def)

definition link_bus :: "link_settings bus" where
  "link_bus =
     \<lparr>rb_index = (\<lambda>_ _. Some 5), rb_connect = (\<lambda>_. True), rb_SetLinkDNS = (\<lambda>i as s. (True, s(i := (as, snd (s i))))),
      rb_SetLinkDomains = (\<lambda>i ds s. (True, s(i := (fst (s i), ds)))), rb_RevertLink = (\<lambda>i s. (True, s(i := ([], [])))),
      rb_GetLink = (\<lambda>i _. Some (link_path i)), rb_DNS = (\<lambda>p s. Some (fst (s (path_index p)))), rb_Domains = (\<lambda>p s. Some (snd (s (path_index p))))\<rparr>"

lemma link_bus_resolved: "resolved link_bus (\<lambda>_. True) (\<lambda>s. s)"
  by (simp add: resolved_def link_bus_def same_host_def path_index_path)

definition corp_dns :: dns_Config where
  "corp_dns = \<lparr>Servers = [[10, 0, 0, 2]], SearchDomains = [''corp.example''], RouteDomains = []\<rparr>"


end
