(* ===== verification/Tun.thy ===== *)
theory Tun
  imports Netlink
begin

unbundle bit_operations_syntax

section \<open>The TUN device\<close>

text \<open>
  Models \<^verbatim>\<open>tun/tun.go\<close>: opening \<^verbatim>\<open>/dev/net/tun\<close>, attaching an interface and configuring it with the socket ioctls.  The system calls are a parameter,
  the structures they get are the bytes of the C layout (40 bytes, in the byte order of a little-endian host), and the state of the kernel is threaded through.
  A read or a write of the device is one call of the file and is not modelled.
\<close>

subsection \<open>Requests\<close>

definition IFNAMSIZ :: nat where "IFNAMSIZ = 16"

text \<open>\<^verbatim>\<open>copy(req.name[:], name)\<close> into a zeroed array\<close>

definition name_field :: "string \<Rightarrow> bytes" where
  "name_field name = take IFNAMSIZ (bytes_of_string name) @ replicate (IFNAMSIZ - length name) 0"

definition ifreqFlags :: "string \<Rightarrow> u16 \<Rightarrow> bytes" where
  "ifreqFlags name flags = name_field name @ le16 flags @ replicate 22 0"

definition ifreqSockAddr :: "string \<Rightarrow> u16 \<Rightarrow> bytes \<Rightarrow> bytes" where
  "ifreqSockAddr name family addr = name_field name @ (le16 family @ le16 0 @ addr @ replicate 8 0) @ replicate 8 0"

definition ifreqInt :: "string \<Rightarrow> u32 \<Rightarrow> bytes" where
  "ifreqInt name val = name_field name @ le32 val @ replicate 20 0"

text \<open>\<^verbatim>\<open>unix.ByteSliceToString\<close>\<close>

definition ByteSliceToString :: "bytes \<Rightarrow> string" where
  "ByteSliceToString b = string_of_bytes (takeWhile (\<lambda>x. x \<noteq> 0) b)"

definition tunSetIFF :: nat where "tunSetIFF = 0x400454ca"
definition iffTUN :: u16 where "iffTUN = 0x0001"
definition iffNoPi :: u16 where "iffNoPi = 0x1000"
definition siocSIFAddr :: nat where "siocSIFAddr = 0x8916"
definition siocSIFDstAddr :: nat where "siocSIFDstAddr = 0x8918"
definition siocSIFNetmask :: nat where "siocSIFNetmask = 0x891c"
definition siocSIFFlags :: nat where "siocSIFFlags = 0x8914"
definition siocSIFMTU :: nat where "siocSIFMTU = 0x8922"
definition siocGIFFlags :: nat where "siocGIFFlags = 0x8913"
definition iffUp :: u16 where "iffUp = 0x1"
definition iffRunning :: u16 where "iffRunning = 0x40"

lemmas request_codes = tunSetIFF_def siocSIFAddr_def siocSIFDstAddr_def siocSIFNetmask_def siocSIFFlags_def siocSIFMTU_def siocGIFFlags_def

record tun_Config =
  tc_LocalIP :: ip
  tc_PeerIP :: ip
  tc_Mask :: ipmask
  tc_MTU :: int

record Device =
  dv_fd :: int
  dv_name :: string

text \<open>The system calls: an error number or the result, and the new state of the kernel.  An \<open>ioctl\<close> gets the structure and returns it as the kernel leaves it.\<close>

record 'k tun_sys =
  ts_open :: "'k \<Rightarrow> (int, int) result \<times> 'k"
  ts_ioctl :: "int \<Rightarrow> nat \<Rightarrow> bytes \<Rightarrow> 'k \<Rightarrow> (int, bytes) result \<times> 'k"
  ts_nonblock :: "int \<Rightarrow> 'k \<Rightarrow> int option \<times> 'k"
  ts_socket :: "'k \<Rightarrow> (int, int) result \<times> 'k"
  ts_close :: "int \<Rightarrow> 'k \<Rightarrow> 'k"

datatype tun_error = OpenFailed int | TunSetIffFailed int | NonblockFailed int | NoFile | SocketFailed int | IoctlFailed nat int | IPv6NotSupported nat ip

subsection \<open>Operations\<close>

definition tun_Open :: "'k tun_sys \<Rightarrow> string \<Rightarrow> 'k \<Rightarrow> (tun_error, Device) result \<times> 'k" where
  "tun_Open ts ifaceName k =
     (case ts_open ts k of
        (Inl e, k1) \<Rightarrow> (Inl (OpenFailed e), k1)
      | (Inr fd, k1) \<Rightarrow>
          (case ts_ioctl ts fd tunSetIFF (ifreqFlags ifaceName (iffTUN OR iffNoPi)) k1 of
             (Inl e, k2) \<Rightarrow> (Inl (TunSetIffFailed e), ts_close ts fd k2)
           | (Inr req, k2) \<Rightarrow>
               (case ts_nonblock ts fd k2 of
                  (Some e, k3) \<Rightarrow> (Inl (NonblockFailed e), ts_close ts fd k3)
                | (None, k3) \<Rightarrow>
                    (if fd < 0 then (Inl NoFile, ts_close ts fd k3)
                     else (Inr \<lparr>dv_fd = fd, dv_name = ByteSliceToString (take IFNAMSIZ req)\<rparr>, k3)))))"

definition tun_Close :: "'k tun_sys \<Rightarrow> Device \<Rightarrow> 'k \<Rightarrow> 'k" where
  "tun_Close ts d = ts_close ts (dv_fd d)"

definition setAddr :: "'k tun_sys \<Rightarrow> Device \<Rightarrow> int \<Rightarrow> nat \<Rightarrow> ip \<Rightarrow> 'k \<Rightarrow> tun_error option \<times> 'k" where
  "setAddr ts d sock ioctlNum i k =
     (if To4 i = [] then (Some (IPv6NotSupported ioctlNum i), k)
      else case ts_ioctl ts sock ioctlNum (ifreqSockAddr (dv_name d) (ucast AF_INET) (To4 i)) k of
        (Inl e, k1) \<Rightarrow> (Some (IoctlFailed ioctlNum e), k1)
      | (Inr _, k1) \<Rightarrow> (None, k1))"

definition setMTU :: "'k tun_sys \<Rightarrow> Device \<Rightarrow> int \<Rightarrow> int \<Rightarrow> 'k \<Rightarrow> tun_error option \<times> 'k" where
  "setMTU ts d sock mtu k =
     (case ts_ioctl ts sock siocSIFMTU (ifreqInt (dv_name d) (of_int mtu)) k of
        (Inl e, k1) \<Rightarrow> (Some (IoctlFailed siocSIFMTU e), k1)
      | (Inr _, k1) \<Rightarrow> (None, k1))"

text \<open>The second request is the structure that the first one returned, with the flags changed.\<close>

definition setFlags :: "'k tun_sys \<Rightarrow> Device \<Rightarrow> int \<Rightarrow> u16 \<Rightarrow> 'k \<Rightarrow> tun_error option \<times> 'k" where
  "setFlags ts d sock extraFlags k =
     (case ts_ioctl ts sock siocGIFFlags (ifreqFlags (dv_name d) 0) k of
        (Inl e, k1) \<Rightarrow> (Some (IoctlFailed siocGIFFlags e), k1)
      | (Inr req, k1) \<Rightarrow>
          (case ts_ioctl ts sock siocSIFFlags (take 16 req @ le16 (LE16 (drop 16 req) OR extraFlags) @ drop 18 req) k1 of
             (Inl e, k2) \<Rightarrow> (Some (IoctlFailed siocSIFFlags e), k2)
           | (Inr _, k2) \<Rightarrow> (None, k2)))"

text \<open>The next step is taken only after success.\<close>

definition and_then :: "('e option \<times> 'k) \<Rightarrow> ('k \<Rightarrow> 'e option \<times> 'k) \<Rightarrow> 'e option \<times> 'k" where
  "and_then r f = (case r of (None, k) \<Rightarrow> f k | (Some e, k) \<Rightarrow> (Some e, k))"

definition configure_steps :: "'k tun_sys \<Rightarrow> Device \<Rightarrow> int \<Rightarrow> tun_Config \<Rightarrow> 'k \<Rightarrow> tun_error option \<times> 'k" where
  "configure_steps ts d sock cfg k =
     and_then (and_then (and_then
       (if tc_LocalIP cfg \<noteq> [] then setAddr ts d sock siocSIFAddr (tc_LocalIP cfg) k else (None, k))
       (\<lambda>k. if tc_Mask cfg \<noteq> [] then setAddr ts d sock siocSIFNetmask (tc_Mask cfg) k
            else if tc_PeerIP cfg \<noteq> [] then setAddr ts d sock siocSIFDstAddr (tc_PeerIP cfg) k else (None, k)))
       (setMTU ts d sock (if tc_MTU cfg = 0 then 1500 else tc_MTU cfg)))
       (setFlags ts d sock (iffUp OR iffRunning))"

definition Configure :: "'k tun_sys \<Rightarrow> tun_Config \<Rightarrow> Device \<Rightarrow> 'k \<Rightarrow> tun_error option \<times> 'k" where
  "Configure ts cfg d k =
     (case ts_socket ts k of
        (Inl e, k1) \<Rightarrow> (Some (SocketFailed e), k1)
      | (Inr sock, k1) \<Rightarrow> (case configure_steps ts d sock cfg k1 of (e, k2) \<Rightarrow> (e, ts_close ts sock k2)))"

subsection \<open>Interfaces\<close>

text \<open>What the code relies on of the kernel: where the fields of a request are, and what each request does to the interface it names.  Setting the local address may
  change the mask and the peer; of the flags that are written the kernel takes those outside \<open>fixed\<close>.  A new interface gets a name of at most 15 characters.\<close>

record iface =
  if_addr :: bytes
  if_mask :: bytes
  if_peer :: bytes
  if_mtu :: u32
  if_flags :: u16

type_synonym ifaces = "string \<rightharpoonup> iface"

definition req_name :: "bytes \<Rightarrow> string" where "req_name req = ByteSliceToString (take 16 req)"

definition if_name :: "string \<Rightarrow> bool" where
  "if_name n \<longleftrightarrow> n \<noteq> [] \<and> length n < 16 \<and> CHR 0x00 \<notin> set n"

text \<open>\<open>changes\<close>: the request names an interface, and it alone is changed, as the relation says.\<close>

definition changes :: "(iface \<Rightarrow> iface \<Rightarrow> bool) \<Rightarrow> bytes \<Rightarrow> ifaces \<Rightarrow> ifaces \<Rightarrow> bool" where
  "changes rel req v v' \<longleftrightarrow> (\<exists>i i'. v (req_name req) = Some i \<and> rel i i' \<and> v' = v(req_name req \<mapsto> i'))"

definition request_effect :: "u16 \<Rightarrow> nat \<Rightarrow> bytes \<Rightarrow> bytes \<Rightarrow> ifaces \<Rightarrow> ifaces \<Rightarrow> bool" where
  "request_effect fixed num req out v v' \<longleftrightarrow>
     (let addr = slice req 20 24 in
      if num = siocSIFAddr then changes (\<lambda>i i'. if_addr i' = addr \<and> if_mtu i' = if_mtu i \<and> if_flags i' = if_flags i) req v v'
      else if num = siocSIFNetmask then changes (\<lambda>i i'. i' = i\<lparr>if_mask := addr\<rparr>) req v v'
      else if num = siocSIFDstAddr then changes (\<lambda>i i'. i' = i\<lparr>if_peer := addr\<rparr>) req v v'
      else if num = siocSIFMTU then changes (\<lambda>i i'. i' = i\<lparr>if_mtu := LE32 (drop 16 req)\<rparr>) req v v'
      else if num = siocGIFFlags then changes (\<lambda>i i'. i' = i \<and> LE16 (drop 16 out) = if_flags i) req v v' \<and> length out = 40 \<and> take 16 out = take 16 req
      else if num = siocSIFFlags then
        changes (\<lambda>i i'. i' = i\<lparr>if_flags := (if_flags i AND fixed) OR (LE16 (drop 16 req) AND NOT fixed)\<rparr>) req v v'
      else num = tunSetIFF \<longrightarrow>
        (\<exists>i. if_name (req_name out) \<and> v (req_name out) = None \<and> v' = v(req_name out \<mapsto> i)))"

definition kernel_ifaces :: "'k tun_sys \<Rightarrow> u16 \<Rightarrow> ('k \<Rightarrow> ifaces) \<Rightarrow> bool" where
  "kernel_ifaces ts fixed view \<longleftrightarrow>
     (\<forall>k. view (snd (ts_open ts k)) = view k \<and> view (snd (ts_socket ts k)) = view k) \<and>
     (\<forall>fd k. view (snd (ts_nonblock ts fd k)) = view k) \<and>
     (\<forall>k sock k1 k2. ts_socket ts k = (Inr sock, k1) \<longrightarrow> view (ts_close ts sock k2) = view k2) \<and>
     (\<forall>fd num req k. length req = 40 \<and> (num \<in> {siocSIFAddr, siocSIFNetmask, siocSIFDstAddr} \<longrightarrow> LE16 (drop 16 req) = ucast AF_INET) \<longrightarrow>
        (case ts_ioctl ts fd num req k of
           (Inl _, k') \<Rightarrow> view k' = view k
         | (Inr out, k') \<Rightarrow> request_effect fixed num req out (view k) (view k')))"

subsection \<open>The layout of the requests\<close>

lemma length_name_field [simp]: "length (name_field n) = 16"
  by (simp add: name_field_def IFNAMSIZ_def)

lemma req_name_field: "if_name n \<Longrightarrow> ByteSliceToString (name_field n) = n"
proof -
  assume n: "if_name n"
  have "x \<noteq> 0" if x: "x \<in> set (bytes_of_string n)" for x
  proof
    assume "x = 0"
    moreover obtain c where c: "c \<in> set n" "x = of_char c" using x by (auto simp: bytes_of_string_def)
    ultimately have "of_char c = (0::nat)" using unat_of_char [of c] by simp
    then have "c = CHR 0x00" by (subst of_char_eq_iff [symmetric, where ?'a = nat]) simp
    then show False using c(1) n by (simp add: if_name_def)
  qed
  then have t: "takeWhile (\<lambda>x. x \<noteq> 0) (bytes_of_string n @ replicate k 0) = bytes_of_string n" for k
    by (induction k) (simp_all add: takeWhile_append2)
  show ?thesis using n t by (simp add: ByteSliceToString_def name_field_def IFNAMSIZ_def if_name_def)
qed

lemma layouts:
  assumes "if_name n" "length a = 4"
  shows "length (ifreqFlags n f) = 40" "req_name (ifreqFlags n f) = n" "LE16 (drop 16 (ifreqFlags n f)) = f"
    "length (ifreqInt n v) = 40" "req_name (ifreqInt n v) = n" "LE32 (drop 16 (ifreqInt n v)) = v"
    "length (ifreqSockAddr n fam a) = 40" "req_name (ifreqSockAddr n fam a) = n" "LE16 (drop 16 (ifreqSockAddr n fam a)) = fam"
    "slice (ifreqSockAddr n fam a) 20 24 = a"
proof -
  have len: "length (le16 w) = 2" "length (le32 x) = 4" for w x by (simp_all add: le16_def le32_def be16_def be32_def)
  show "length (ifreqFlags n f) = 40" "req_name (ifreqFlags n f) = n" "LE16 (drop 16 (ifreqFlags n f)) = f"
    "length (ifreqInt n v) = 40" "req_name (ifreqInt n v) = n" "LE32 (drop 16 (ifreqInt n v)) = v"
    "length (ifreqSockAddr n fam a) = 40" "req_name (ifreqSockAddr n fam a) = n" "LE16 (drop 16 (ifreqSockAddr n fam a)) = fam"
    "slice (ifreqSockAddr n fam a) 20 24 = a"
    using assms req_name_field [OF assms(1)]
    by (simp_all add: ifreqFlags_def ifreqInt_def ifreqSockAddr_def req_name_def slice_def len)
qed

subsection \<open>A device that is opened and configured\<close>

lemma ioctl_effect:
  assumes "kernel_ifaces ts fixed view" "length req = 40" "num \<in> {siocSIFAddr, siocSIFNetmask, siocSIFDstAddr} \<longrightarrow> LE16 (drop 16 req) = ucast AF_INET"
  shows "ts_ioctl ts fd num req k = (Inl e, k') \<Longrightarrow> view k' = view k"
    "ts_ioctl ts fd num req k = (Inr out, k') \<Longrightarrow> request_effect fixed num req out (view k) (view k')"
proof -
  have "case ts_ioctl ts fd num req k of (Inl _, k') \<Rightarrow> view k' = view k | (Inr out, k') \<Rightarrow> request_effect fixed num req out (view k) (view k')"
    by (rule assms(1) [unfolded kernel_ifaces_def, THEN conjunct2, THEN conjunct2, THEN conjunct2, rule_format]) (use assms(2,3) in auto)
  then show "ts_ioctl ts fd num req k = (Inl e, k') \<Longrightarrow> view k' = view k"
    "ts_ioctl ts fd num req k = (Inr out, k') \<Longrightarrow> request_effect fixed num req out (view k) (view k')" by simp_all
qed

lemma setAddr_effect:
  assumes "kernel_ifaces ts fixed view" "if_name (dv_name d)" "setAddr ts d sock num a k = (e, k')" "view k (dv_name d) = Some i"
  shows "e \<noteq> None \<Longrightarrow> view k' = view k"
    "e = None \<Longrightarrow> num = siocSIFAddr \<Longrightarrow> \<exists>i'. view k' = (view k)(dv_name d \<mapsto> i') \<and> if_addr i' = To4 a \<and> if_mtu i' = if_mtu i \<and> if_flags i' = if_flags i"
    "e = None \<Longrightarrow> num = siocSIFNetmask \<Longrightarrow> view k' = (view k)(dv_name d \<mapsto> i\<lparr>if_mask := To4 a\<rparr>)"
    "e = None \<Longrightarrow> num = siocSIFDstAddr \<Longrightarrow> view k' = (view k)(dv_name d \<mapsto> i\<lparr>if_peer := To4 a\<rparr>)"
proof -
  note l = layouts [OF assms(2), of "To4 a"] To4_length [of a]
  have fam: "To4 a \<noteq> [] \<Longrightarrow> LE16 (drop 16 (ifreqSockAddr (dv_name d) (ucast AF_INET) (To4 a))) = ucast AF_INET" using l by simp
  let ?req = "ifreqSockAddr (dv_name d) (ucast AF_INET) (To4 a)"
  have x: "ts_ioctl ts sock num ?req k = (Inl x, k') \<Longrightarrow> view k' = view k"
    "ts_ioctl ts sock num ?req k = (Inr y, k') \<Longrightarrow> request_effect fixed num ?req y (view k) (view k')" if "To4 a \<noteq> []" for x y
    using ioctl_effect [OF assms(1), of ?req num] that l(7,11) fam by blast+
  show "e \<noteq> None \<Longrightarrow> view k' = view k"
    using assms(3) x by (auto simp: setAddr_def split: if_splits prod.splits sum.splits)
  have *: "e = None \<Longrightarrow> \<exists>out. request_effect fixed num ?req out (view k) (view k') \<and> To4 a \<noteq> []"
    using assms(3) x by (auto simp: setAddr_def split: if_splits prod.splits sum.splits)
  show "e = None \<Longrightarrow> num = siocSIFAddr \<Longrightarrow> \<exists>i'. view k' = (view k)(dv_name d \<mapsto> i') \<and> if_addr i' = To4 a \<and> if_mtu i' = if_mtu i \<and> if_flags i' = if_flags i"
    using * l assms(4) by (auto simp: request_effect_def changes_def)
  show "e = None \<Longrightarrow> num = siocSIFNetmask \<Longrightarrow> view k' = (view k)(dv_name d \<mapsto> i\<lparr>if_mask := To4 a\<rparr>)"
    "e = None \<Longrightarrow> num = siocSIFDstAddr \<Longrightarrow> view k' = (view k)(dv_name d \<mapsto> i\<lparr>if_peer := To4 a\<rparr>)"
    using * l assms(4) by (auto simp: request_effect_def changes_def request_codes)
qed

lemma setMTU_effect:
  assumes "kernel_ifaces ts fixed view" "if_name (dv_name d)" "setMTU ts d sock mtu k = (e, k')" "view k (dv_name d) = Some i"
  shows "view k' = (if e = None then (view k)(dv_name d \<mapsto> i\<lparr>if_mtu := of_int mtu\<rparr>) else view k)"
proof -
  note l = layouts [OF assms(2), of "replicate 4 0", simplified]
  have "siocSIFMTU \<notin> {siocSIFAddr, siocSIFNetmask, siocSIFDstAddr}" by (simp add: request_codes)
  then have x: "ts_ioctl ts sock siocSIFMTU (ifreqInt (dv_name d) (of_int mtu)) k = (Inl x, k') \<Longrightarrow> view k' = view k"
    "ts_ioctl ts sock siocSIFMTU (ifreqInt (dv_name d) (of_int mtu)) k = (Inr y, k') \<Longrightarrow>
       request_effect fixed siocSIFMTU (ifreqInt (dv_name d) (of_int mtu)) y (view k) (view k')" for x y
    using ioctl_effect [OF assms(1), of "ifreqInt (dv_name d) (of_int mtu)" siocSIFMTU] l(4) by blast+
  have "request_effect fixed siocSIFMTU (ifreqInt (dv_name d) (of_int mtu)) y (view k) (view k') \<Longrightarrow>
      view k' = (view k)(dv_name d \<mapsto> i\<lparr>if_mtu := of_int mtu\<rparr>)" for y
    using l(5,6) assms(4) by (auto simp: request_effect_def changes_def request_codes)
  then show ?thesis using assms(3) x by (auto simp: setMTU_def split: prod.splits sum.splits)
qed

lemma setFlags_effect:
  assumes "kernel_ifaces ts fixed view" "if_name (dv_name d)" "setFlags ts d sock extra k = (e, k')" "view k (dv_name d) = Some i"
  shows "view k' = (if e = None then (view k)(dv_name d \<mapsto> i\<lparr>if_flags := (if_flags i AND fixed) OR ((if_flags i OR extra) AND NOT fixed)\<rparr>) else view k)"
proof -
  note l = layouts [OF assms(2), of "replicate 4 0", simplified]
  let ?g = "ifreqFlags (dv_name d) 0"
  have n: "siocGIFFlags \<notin> {siocSIFAddr, siocSIFNetmask, siocSIFDstAddr}" "siocSIFFlags \<notin> {siocSIFAddr, siocSIFNetmask, siocSIFDstAddr}"
    by (simp_all add: request_codes)
  obtain r1 k1 where r1: "ts_ioctl ts sock siocGIFFlags ?g k = (r1, k1)" by fastforce
  show ?thesis
  proof (cases r1)
    case (Inl x)
    then show ?thesis using r1 assms(3) ioctl_effect(1) [OF assms(1), of ?g siocGIFFlags sock k x k1] n(1) l(1) by (auto simp: setFlags_def)
  next
    case (Inr out)
    have "request_effect fixed siocGIFFlags ?g out (view k) (view k1)"
      using ioctl_effect(2) [OF assms(1), of ?g siocGIFFlags sock k out k1] r1 Inr n(1) l(1) by blast
    then have out: "view k1 = view k" "LE16 (drop 16 out) = if_flags i" "length out = 40" "take 16 out = take 16 ?g"
      using l(2) assms(4) by (auto simp: request_effect_def changes_def request_codes fun_upd_idem)
    let ?s = "take 16 out @ le16 (LE16 (drop 16 out) OR extra) @ drop 18 out"
    have s: "length ?s = 40" "req_name ?s = dv_name d" "LE16 (drop 16 ?s) = if_flags i OR extra"
    proof -
      have n: "length (take 16 out) = 16" "length (le16 w) = 2" for w using out(3) by (simp_all add: le16_def be16_def)
      show "length ?s = 40" using n out(3) by simp
      have "take 16 ?s = take 16 ?g" using n(1) out(4) by (simp add: take_append)
      then show "req_name ?s = dv_name d" using l(2) by (simp add: req_name_def)
      show "LE16 (drop 16 ?s) = if_flags i OR extra" using n(1) out(2) by (simp add: drop_append del: length_take)
    qed
    have k: "(e, k') = (case ts_ioctl ts sock siocSIFFlags ?s k1 of (Inl e, k2) \<Rightarrow> (Some (IoctlFailed siocSIFFlags e), k2) | (Inr _, k2) \<Rightarrow> (None, k2))"
      using assms(3) r1 Inr by (simp add: setFlags_def)
    have x: "ts_ioctl ts sock siocSIFFlags ?s k1 = (Inl x, k2) \<Longrightarrow> view k2 = view k1"
      "ts_ioctl ts sock siocSIFFlags ?s k1 = (Inr y, k2) \<Longrightarrow> request_effect fixed siocSIFFlags ?s y (view k1) (view k2)" for x y k2
      using ioctl_effect [OF assms(1) s(1), of siocSIFFlags] n(2) by blast+
    have "request_effect fixed siocSIFFlags ?s y (view k1) (view k2) \<Longrightarrow>
        view k2 = (view k)(dv_name d \<mapsto> i\<lparr>if_flags := (if_flags i AND fixed) OR ((if_flags i OR extra) AND NOT fixed)\<rparr>)" for y k2
      unfolding request_effect_def changes_def s(2,3) using out(1) assms(4) by (auto simp: request_codes)
    then show ?thesis using k x out(1) by (auto split: prod.splits sum.splits)
  qed
qed

text \<open>Which of the flags end up set.\<close>

lemma up_flags:
  fixes f fixed :: u16
  assumes "fixed AND iffUp = 0"
  shows "((f AND fixed) OR ((f OR (iffUp OR iffRunning)) AND NOT fixed)) AND iffUp = iffUp"
    "((f AND fixed) OR ((f OR (iffUp OR iffRunning)) AND NOT fixed)) AND NOT (iffUp OR iffRunning) = f AND NOT (iffUp OR iffRunning)"
proof -
  have "\<not> (bit fixed n \<and> bit iffUp n)" for n using arg_cong [OF assms, of "\<lambda>w. bit w n"] by (simp add: bit_and_iff)
  then show "((f AND fixed) OR ((f OR (iffUp OR iffRunning)) AND NOT fixed)) AND iffUp = iffUp"
    by (intro bit_eqI) (auto simp: bit_and_iff bit_or_iff bit_not_iff)
  show "((f AND fixed) OR ((f OR (iffUp OR iffRunning)) AND NOT fixed)) AND NOT (iffUp OR iffRunning) = f AND NOT (iffUp OR iffRunning)"
    by (rule bit_eqI) (auto simp: bit_and_iff bit_or_iff bit_not_iff)
qed

text \<open>\<open>steps n v r Q\<close>: only the interface \<open>n\<close> differs from \<open>v\<close>, and \<open>Q\<close> holds of it after success.\<close>

definition steps :: "('k \<Rightarrow> ifaces) \<Rightarrow> string \<Rightarrow> ifaces \<Rightarrow> 'e option \<times> 'k \<Rightarrow> (iface \<Rightarrow> bool) \<Rightarrow> bool" where
  "steps view n v r Q \<longleftrightarrow> (\<exists>i. view (snd r) = v(n \<mapsto> i) \<and> (fst r = None \<longrightarrow> Q i))"

lemma steps_then:
  "steps view n v r P \<Longrightarrow> (\<And>k i. view k = v(n \<mapsto> i) \<Longrightarrow> P i \<Longrightarrow> steps view n v (f k) Q) \<Longrightarrow> steps view n v (and_then r f) Q"
  by (auto simp: steps_def and_then_def split: prod.split option.split)

lemma steps_done: "view k = v(n \<mapsto> i) \<Longrightarrow> Q i \<Longrightarrow> steps view n v (None, k) Q"
  by (auto simp: steps_def)

lemma steps_intro:
  assumes "view k = v(n \<mapsto> i)" "\<And>e k1. r = (Some e, k1) \<Longrightarrow> view k1 = view k" "\<And>k1. r = (None, k1) \<Longrightarrow> \<exists>i'. view k1 = (view k)(n \<mapsto> i') \<and> Q i'"
  shows "steps view n v r Q"
proof (cases r)
  case (Pair e k1)
  show ?thesis
  proof (cases e)
    case None
    then obtain i' where "view k1 = (view k)(n \<mapsto> i')" "Q i'" using assms(3) Pair by blast
    then show ?thesis unfolding steps_def Pair using assms(1) by (intro exI [of _ i']) simp
  next
    case (Some x)
    then show ?thesis unfolding steps_def Pair using assms(1) assms(2) [of x k1] Pair by (intro exI [of _ i]) simp
  qed
qed

lemma steps_setAddr:
  assumes "kernel_ifaces ts fixed view" "if_name (dv_name d)" "view k = v(dv_name d \<mapsto> i)"
  shows "steps view (dv_name d) v (setAddr ts d sock siocSIFAddr a k) (\<lambda>i'. if_addr i' = To4 a \<and> if_mtu i' = if_mtu i \<and> if_flags i' = if_flags i)"
    "steps view (dv_name d) v (setAddr ts d sock siocSIFNetmask a k) (\<lambda>i'. i' = i\<lparr>if_mask := To4 a\<rparr>)"
    "steps view (dv_name d) v (setAddr ts d sock siocSIFDstAddr a k) (\<lambda>i'. i' = i\<lparr>if_peer := To4 a\<rparr>)"
proof -
  have i: "view k (dv_name d) = Some i" using assms(3) by simp
  note effect = setAddr_effect [OF assms(1,2) _ i]
  show "steps view (dv_name d) v (setAddr ts d sock siocSIFAddr a k) (\<lambda>i'. if_addr i' = To4 a \<and> if_mtu i' = if_mtu i \<and> if_flags i' = if_flags i)"
    by (rule steps_intro [of view k v "dv_name d" i, OF assms(3)]) (use effect(1,2) in blast)+
  show "steps view (dv_name d) v (setAddr ts d sock siocSIFNetmask a k) (\<lambda>i'. i' = i\<lparr>if_mask := To4 a\<rparr>)"
    by (rule steps_intro [of view k v "dv_name d" i, OF assms(3)]) (use effect(1,3) in blast)+
  show "steps view (dv_name d) v (setAddr ts d sock siocSIFDstAddr a k) (\<lambda>i'. i' = i\<lparr>if_peer := To4 a\<rparr>)"
    by (rule steps_intro [of view k v "dv_name d" i, OF assms(3)]) (use effect(1,4) in blast)+
qed

lemma steps_set:
  assumes "kernel_ifaces ts fixed view" "if_name (dv_name d)" "view k = v(dv_name d \<mapsto> i)"
  shows "steps view (dv_name d) v (setMTU ts d sock mtu k) (\<lambda>i'. i' = i\<lparr>if_mtu := of_int mtu\<rparr>)"
    "steps view (dv_name d) v (setFlags ts d sock extra k) (\<lambda>i'. i' = i\<lparr>if_flags := (if_flags i AND fixed) OR ((if_flags i OR extra) AND NOT fixed)\<rparr>)"
proof -
  have i: "view k (dv_name d) = Some i" using assms(3) by simp
  show "steps view (dv_name d) v (setMTU ts d sock mtu k) (\<lambda>i'. i' = i\<lparr>if_mtu := of_int mtu\<rparr>)"
    by (rule steps_intro [of view k v "dv_name d" i, OF assms(3)]) (use setMTU_effect [OF assms(1,2) _ i, of sock mtu] in fastforce)+
  show "steps view (dv_name d) v (setFlags ts d sock extra k) (\<lambda>i'. i' = i\<lparr>if_flags := (if_flags i AND fixed) OR ((if_flags i OR extra) AND NOT fixed)\<rparr>)"
    by (rule steps_intro [of view k v "dv_name d" i, OF assms(3)]) (use setFlags_effect [OF assms(1,2) _ i, of sock extra] in fastforce)+
qed

lemma steps_weaken: "steps view n v r P \<Longrightarrow> (\<And>i. P i \<Longrightarrow> Q i) \<Longrightarrow> steps view n v r Q"
  by (auto simp: steps_def)

definition configured :: "tun_Config \<Rightarrow> iface \<Rightarrow> iface \<Rightarrow> bool" where
  "configured cfg i i' \<longleftrightarrow>
     (tc_LocalIP cfg \<noteq> [] \<longrightarrow> if_addr i' = To4 (tc_LocalIP cfg)) \<and> (tc_Mask cfg \<noteq> [] \<longrightarrow> if_mask i' = To4 (tc_Mask cfg)) \<and>
     (tc_Mask cfg = [] \<and> tc_PeerIP cfg \<noteq> [] \<longrightarrow> if_peer i' = To4 (tc_PeerIP cfg)) \<and>
     if_mtu i' = of_int (if tc_MTU cfg = 0 then 1500 else tc_MTU cfg) \<and> if_flags i' AND iffUp = iffUp \<and>
     if_flags i' AND NOT (iffUp OR iffRunning) = if_flags i AND NOT (iffUp OR iffRunning)"

lemma configure_steps_effect:
  assumes "kernel_ifaces ts fixed view" "fixed AND iffUp = 0" "if_name (dv_name d)" "view k = v(dv_name d \<mapsto> i)"
  shows "steps view (dv_name d) v (configure_steps ts d sock cfg k) (configured cfg i)"
proof -
  note set_addr = steps_setAddr [OF assms(1,3)] and set_rest = steps_set [OF assms(1,3)]
  let ?P = "\<lambda>j. (tc_LocalIP cfg \<noteq> [] \<longrightarrow> if_addr j = To4 (tc_LocalIP cfg)) \<and> if_flags j = if_flags i"
  let ?Q = "\<lambda>j. ?P j \<and> (tc_Mask cfg \<noteq> [] \<longrightarrow> if_mask j = To4 (tc_Mask cfg)) \<and> (tc_Mask cfg = [] \<and> tc_PeerIP cfg \<noteq> [] \<longrightarrow> if_peer j = To4 (tc_PeerIP cfg))"
  let ?R = "\<lambda>j. ?Q j \<and> if_mtu j = of_int (if tc_MTU cfg = 0 then 1500 else tc_MTU cfg)"
  show ?thesis unfolding configure_steps_def
  proof (rule steps_then [where P = ?R], rule steps_then [where P = ?Q], rule steps_then [where P = ?P])
    show "steps view (dv_name d) v (if tc_LocalIP cfg \<noteq> [] then setAddr ts d sock siocSIFAddr (tc_LocalIP cfg) k else (None, k)) ?P"
      using assms(4) by (auto intro: steps_weaken [OF set_addr(1)] steps_done)
  next
    fix k1 j
    assume j: "view k1 = v(dv_name d \<mapsto> j)" "?P j"
    then show "steps view (dv_name d) v (if tc_Mask cfg \<noteq> [] then setAddr ts d sock siocSIFNetmask (tc_Mask cfg) k1
        else if tc_PeerIP cfg \<noteq> [] then setAddr ts d sock siocSIFDstAddr (tc_PeerIP cfg) k1 else (None, k1)) ?Q"
      by (auto intro: steps_weaken [OF set_addr(2) [OF j(1)]] steps_weaken [OF set_addr(3) [OF j(1)]] steps_done)
  next
    fix k1 j
    assume j: "view k1 = v(dv_name d \<mapsto> j)" "?Q j"
    show "steps view (dv_name d) v (setMTU ts d sock (if tc_MTU cfg = 0 then 1500 else tc_MTU cfg) k1) ?R"
      by (rule steps_weaken [OF set_rest(1) [OF j(1)]]) (use j(2) in auto)
  next
    fix k1 j
    assume j: "view k1 = v(dv_name d \<mapsto> j)" "?R j"
    show "steps view (dv_name d) v (setFlags ts d sock (iffUp OR iffRunning) k1) (configured cfg i)"
      by (rule steps_weaken [OF set_rest(2) [OF j(1)]]) (use j(2) up_flags [OF assms(2), of "if_flags i"] in \<open>auto simp: configured_def\<close>)
  qed
qed

text \<open>C29 (the tunnel interface).  When the kernel handles the requests of \<^verbatim>\<open>netdevice(7)\<close> as documented, opening a device creates an interface with a new name; \<open>Configure\<close> changes no
  other interface, whether or not it succeeds, and when it does the interface has the local address, the mask or else the peer, and the MTU (1500 if none is asked for),
  and it is up, with its other flags as they were.  An address that is not an IPv4 address is refused.\<close>

theorem tun_configured:
  assumes "kernel_ifaces ts fixed view" "fixed AND iffUp = 0"
    and "tun_Open ts [] k0 = (Inr d, k)" "Configure ts cfg d k = (e, k')"
  shows "view k0 (dv_name d) = None \<and> (\<forall>n. n \<noteq> dv_name d \<longrightarrow> view k' n = view k0 n) \<and>
    (\<exists>i. view k = (view k0)(dv_name d \<mapsto> i) \<and>
       (e = None \<longrightarrow> (\<exists>i'. view k' (dv_name d) = Some i' \<and> configured cfg i i'))) \<and>
    (tc_LocalIP cfg \<noteq> [] \<and> To4 (tc_LocalIP cfg) = [] \<longrightarrow> e \<noteq> None)"
proof -
  have same: "view (snd (ts_open ts k)) = view k" "view (snd (ts_socket ts k)) = view k" "view (snd (ts_nonblock ts fd k)) = view k" for fd k
    using assms(1) by (simp_all add: kernel_ifaces_def)
  from assms(3) obtain fd k1 req k2 where o: "ts_open ts k0 = (Inr fd, k1)" "ts_ioctl ts fd tunSetIFF (ifreqFlags [] (iffTUN OR iffNoPi)) k1 = (Inr req, k2)"
      "ts_nonblock ts fd k2 = (None, k)" "dv_name d = req_name req"
    by (auto simp: tun_Open_def req_name_def IFNAMSIZ_def split: prod.splits sum.splits option.splits if_splits)
  have "length (ifreqFlags [] (iffTUN OR iffNoPi)) = 40" "tunSetIFF \<notin> {siocSIFAddr, siocSIFNetmask, siocSIFDstAddr}"
    by (simp_all add: ifreqFlags_def le16_def be16_def request_codes)
  then have "request_effect fixed tunSetIFF (ifreqFlags [] (iffTUN OR iffNoPi)) req (view k1) (view k2)"
    using ioctl_effect(2) [OF assms(1) _ _ o(2)] by blast
  then obtain i where i: "if_name (dv_name d)" "view k1 (dv_name d) = None" "view k2 = (view k1)(dv_name d \<mapsto> i)"
    using o(4) by (auto simp: request_effect_def request_codes)
  have v: "view k1 = view k0" "view k2 = view k" using same(1) [of k0] same(3) [of fd k2] o(1,3) by simp_all
  show ?thesis
  proof (cases "fst (ts_socket ts k)")
    case (Inl x)
    then have "e \<noteq> None" "view k' = view k" using assms(4) same(2) [of k] by (auto simp: Configure_def split: prod.splits)
    then show ?thesis using i v by auto
  next
    case (Inr sock)
    then obtain k3 k4 where c: "ts_socket ts k = (Inr sock, k3)" "configure_steps ts d sock cfg k3 = (e, k4)" "k' = ts_close ts sock k4"
      using assms(4) by (auto simp: Configure_def split: prod.splits)
    have "view k' = view k4" using assms(1) c(1,3) unfolding kernel_ifaces_def by blast
    moreover have k3: "view k3 = view k" using same(2) [of k] c(1) by simp
    moreover obtain i' where "view k4 = (view k0)(dv_name d \<mapsto> i') \<and> (e = None \<longrightarrow> configured cfg i i')"
      using configure_steps_effect [OF assms(1,2) i(1), of k3 "view k0" i sock cfg] i(3) v k3 c(2) by (auto simp: steps_def)
    moreover have "tc_LocalIP cfg \<noteq> [] \<and> To4 (tc_LocalIP cfg) = [] \<longrightarrow> e \<noteq> None"
      using c(2) by (auto simp: configure_steps_def setAddr_def and_then_def)
    ultimately show ?thesis using i v by auto
  qed
qed

text \<open>A kernel with a table of interfaces.\<close>

definition table_ioctl :: "int \<Rightarrow> nat \<Rightarrow> bytes \<Rightarrow> ifaces \<Rightarrow> (int, bytes) result \<times> ifaces" where
  "table_ioctl fd num req v =
     (if num = tunSetIFF then
        (if v ''tun0'' = None
         then (Inr (ifreqFlags ''tun0'' 0), v(''tun0'' \<mapsto> \<lparr>if_addr = [], if_mask = [], if_peer = [], if_mtu = 1500, if_flags = 0x10\<rparr>)) else (Inl 16, v))
      else case v (req_name req) of
        None \<Rightarrow> (Inl 19, v)
      | Some i \<Rightarrow>
          if num = siocSIFAddr then (Inr req, v(req_name req \<mapsto> i\<lparr>if_addr := slice req 20 24\<rparr>))
          else if num = siocSIFNetmask then (Inr req, v(req_name req \<mapsto> i\<lparr>if_mask := slice req 20 24\<rparr>))
          else if num = siocSIFDstAddr then (Inr req, v(req_name req \<mapsto> i\<lparr>if_peer := slice req 20 24\<rparr>))
          else if num = siocSIFMTU then (Inr req, v(req_name req \<mapsto> i\<lparr>if_mtu := LE32 (drop 16 req)\<rparr>))
          else if num = siocGIFFlags then (Inr (take 16 req @ le16 (if_flags i) @ drop 18 req), v)
          else if num = siocSIFFlags then (Inr req, v(req_name req \<mapsto> i\<lparr>if_flags := LE16 (drop 16 req)\<rparr>))
          else (Inl 22, v))"

definition table_sys :: "ifaces tun_sys" where
  "table_sys = \<lparr>ts_open = (\<lambda>v. (Inr 3, v)), ts_ioctl = table_ioctl, ts_nonblock = (\<lambda>_ v. (None, v)), ts_socket = (\<lambda>v. (Inr 4, v)), ts_close = (\<lambda>_ v. v)\<rparr>"

lemma changesI: "v (req_name req) = Some i \<Longrightarrow> rel i i' \<Longrightarrow> v' = v(req_name req \<mapsto> i') \<Longrightarrow> changes rel req v v'"
  by (auto simp: changes_def)

lemma changes_nothing: "v (req_name req) = Some i \<Longrightarrow> rel i i \<Longrightarrow> changes rel req v v"
  by (auto simp: changes_def fun_upd_idem)

lemma table_ifaces: "kernel_ifaces table_sys 0 (\<lambda>v. v)"
proof -
  have t: "req_name (ifreqFlags ''tun0'' 0) = ''tun0''" "if_name ''tun0''" by code_simp+
  have l: "length (le16 w) = 2" for w by (simp add: le16_def be16_def)
  have "case table_ioctl fd num req v of (Inl _, v') \<Rightarrow> v' = v | (Inr out, v') \<Rightarrow> request_effect 0 num req out v v'" if "length req = 40" for fd num req v
  proof (cases "num = tunSetIFF")
    case True
    then show ?thesis using t by (auto simp: table_ioctl_def request_effect_def request_codes)
  next
    case False
    have "changes (\<lambda>i i'. if_addr i' = slice req 20 24 \<and> if_mtu i' = if_mtu i \<and> if_flags i' = if_flags i) req v (v(req_name req \<mapsto> i\<lparr>if_addr := slice req 20 24\<rparr>))"
      if "v (req_name req) = Some i" for i using that by (auto intro: changesI [of v req i _ "i\<lparr>if_addr := slice req 20 24\<rparr>"])
    then show ?thesis
      using False that l by (cases "v (req_name req)") (auto simp: table_ioctl_def request_effect_def request_codes Let_def intro: changesI changes_nothing)
  qed
  then show ?thesis by (simp add: kernel_ifaces_def table_sys_def)
qed

definition subnet_config :: tun_Config where
  "subnet_config = \<lparr>tc_LocalIP = [10, 8, 0, 2], tc_PeerIP = [], tc_Mask = [255, 255, 255, 0], tc_MTU = 0\<rparr>"

theorem tun_configured_witness:
  "\<exists>d k i. tun_Open table_sys [] Map.empty = (Inr d, k) \<and> snd (Configure table_sys subnet_config d k) (dv_name d) = Some i \<and>
     if_addr i = [10, 8, 0, 2] \<and> if_mask i = [255, 255, 255, 0] \<and> if_mtu i = 1500 \<and> if_flags i AND iffUp = iffUp"
proof -
  have n: "req_name (ifreqFlags ''tun0'' 0) = ''tun0''" "if_name ''tun0''" by code_simp+
  define d where "d = \<lparr>dv_fd = 3, dv_name = ''tun0''\<rparr>"
  obtain k i where o: "tun_Open table_sys [] Map.empty = (Inr d, k)" "k ''tun0'' = Some i"
    using n(1) by (simp add: tun_Open_def table_sys_def table_ioctl_def d_def req_name_def IFNAMSIZ_def)
  obtain e k' where c: "Configure table_sys subnet_config d k = (e, k')" by fastforce
  have ne: "To4 [10, 8, 0, 2] = [10, 8, 0, 2]" "To4 [255, 255, 255, 0] = [255, 255, 255, 0]" by (simp_all add: To4_def)
  note l = layouts [OF n(2), of "replicate 4 0", simplified] layouts [OF n(2), of "[10, 8, 0, 2]", simplified] layouts [OF n(2), of "[255, 255, 255, 0]", simplified]
  have f: "req_name (take 16 (ifreqFlags ''tun0'' 0) @ xs) = ''tun0''" for xs
  proof -
    have "length (take 16 (ifreqFlags ''tun0'' 0)) = 16" using l(1) by simp
    then have t: "take 16 (take 16 (ifreqFlags ''tun0'' 0) @ xs) = take 16 (ifreqFlags ''tun0'' 0)" by (simp add: take_append)
    show ?thesis using n(1) unfolding req_name_def t .
  qed
  have "e = None"
    using c o(2) ne l f by (simp add: Configure_def table_sys_def configure_steps_def and_then_def setAddr_def setMTU_def setFlags_def table_ioctl_def
        subnet_config_def d_def request_codes)
  moreover have "(0 :: u16) AND iffUp = 0" by simp
  ultimately show ?thesis
    using tun_configured [OF table_ifaces _ o(1) c] o(1) c ne by (auto simp: configured_def subnet_config_def)
qed

end
