(* ===== verification/Native_Tun.thy ===== *)
theory Native_Tun
  imports Resolved Tun
begin

section \<open>Bringing the host's network up and down\<close>

text \<open>
  Models \<^verbatim>\<open>client_tun_linux.go\<close> and \<open>cleanup\<close> of \<^verbatim>\<open>client.go\<close>: the device, the addresses, the bypass route for the server, the pushed routes and the DNS
  settings, and taking all of them back.  The state of the client is the part of its fields that these functions use; the host is its files and the state of the
  kernel and of the resolver, and the system calls, the D-Bus calls and the names of temporary files are a parameter.  The diagnostics on standard error are left out.
\<close>

record 'k platform =
  pl_tun :: "'k tun_sys"
  pl_net :: "'k sys"
  pl_bus :: "'k bus"
  pl_readable :: "string \<Rightarrow> bool"
  pl_writable :: "string \<Rightarrow> bool"
  pl_resolv :: string
  pl_temp :: "files \<Rightarrow> string option"

record 'k native =
  nt_phase1IP :: string
  nt_bypassIP :: ip
  nt_bypassGW :: ip
  nt_bypassOwned :: bool
  nt_routeOwnership :: "('k, nl_error) Ownership option"
  nt_dnsBackup :: string
  nt_dnsBackend :: Backend
  nt_dnsOwnership :: "'k dns_Ownership option"
  nt_tunDev :: "Device option"
  nt_pushOpts :: "PushOptions option"
  nt_dnsOpts :: "dns_Config option"
  nt_dataCh :: bool

subsection \<open>Operations\<close>

definition device_config :: "PushOptions \<Rightarrow> int \<Rightarrow> tun_Config" where
  "device_config po mtu =
     (case po_Ifconfig po of
        None \<Rightarrow> \<lparr>tc_LocalIP = [], tc_PeerIP = [], tc_Mask = [], tc_MTU = mtu\<rparr>
      | Some i \<Rightarrow>
          (if po_Topology po = TopologySubnet
           then \<lparr>tc_LocalIP = ifc_Local i, tc_PeerIP = [], tc_Mask = ifc_Mask i, tc_MTU = mtu\<rparr>
           else \<lparr>tc_LocalIP = ifc_Local i, tc_PeerIP = ifc_Gateway i, tc_Mask = [], tc_MTU = mtu\<rparr>))"

definition add_ipv6 :: "'k platform \<Rightarrow> PushOptions \<Rightarrow> int \<Rightarrow> 'k \<Rightarrow> 'k" where
  "add_ipv6 pl po idx k = (case po_Ifconfig6 po of None \<Rightarrow> k | Some i \<Rightarrow> snd (AddIPv6Addr (pl_net pl) idx (ifc6_Local i) (ifc6_Prefix i) k))"

definition add_bypass :: "'k platform \<Rightarrow> PushOptions \<Rightarrow> 'k native \<Rightarrow> 'k \<Rightarrow> 'k native \<times> 'k" where
  "add_bypass pl po c k =
     (let sip = ParseIP (nt_phase1IP c) in
      if \<not> po_RedirectGateway po \<or> sip = [] then (c, k)
      else case LookupGateway (pl_net pl) sip k of
        Inl _ \<Rightarrow> (c, k)
      | Inr gw \<Rightarrow>
          (if gw = [] then (c, k)
           else case AddBypassRouteOwned (pl_net pl) sip gw k of
             (Inl _, k1) \<Rightarrow> (c, k1)
           | (Inr owned, k1) \<Rightarrow> (c\<lparr>nt_bypassIP := sip, nt_bypassGW := gw, nt_bypassOwned := owned\<rparr>, k1)))"

definition add_routes :: "'k platform \<Rightarrow> PushOptions \<Rightarrow> string \<Rightarrow> 'k native \<Rightarrow> 'k \<Rightarrow> 'k native \<times> 'k" where
  "add_routes pl po name c k =
     (case rb_index (pl_bus pl) name k of
        None \<Rightarrow> (c, k)
      | Some idx \<Rightarrow>
          (case add_bypass pl po c (add_ipv6 pl po idx k) of
             (c1, k1) \<Rightarrow> (case ApplyRoutesOwned (pl_net pl) (Some po) idx k1 of (_, ow, k2) \<Rightarrow> (c1\<lparr>nt_routeOwnership := Some ow\<rparr>, k2))))"

definition make_backup :: "'k platform \<Rightarrow> 'k native \<Rightarrow> files \<Rightarrow> 'k native \<times> files" where
  "make_backup pl c fs = (case pl_temp pl fs of None \<Rightarrow> (c, fs) | Some p \<Rightarrow> (c\<lparr>nt_dnsBackup := p\<rparr>, fs(p \<mapsto> [])))"

definition apply_dns :: "'k platform \<Rightarrow> dns_Config option \<Rightarrow> string \<Rightarrow> 'k native \<Rightarrow> 'k host \<Rightarrow> 'k native \<times> 'k host" where
  "apply_dns pl dnsOpts name c h =
     (case dns_Apply (pl_bus pl) (pl_writable pl) (pl_resolv pl) dnsOpts name (nt_dnsBackup c) h of
        ((b, e), h1) \<Rightarrow>
          (let c1 = c\<lparr>nt_dnsBackend := b\<rparr> in
           if e \<noteq> None then (c1, h1)
           else case dnsOpts of
             None \<Rightarrow> (c1\<lparr>nt_dnsOwnership := None\<rparr>, h1)
           | Some cfg \<Rightarrow>
               (case OwnershipForApplied (pl_bus pl) (pl_readable pl) (pl_resolv pl) b cfg name (nt_dnsBackup c) (fst h1) of
                  Inl _ \<Rightarrow> (c1\<lparr>nt_dnsOwnership := None\<rparr>, h1)
                | Inr ow \<Rightarrow> (c1\<lparr>nt_dnsOwnership := ow\<rparr>, h1))))"

definition openNativeTUN :: "'k platform \<Rightarrow> PushOptions \<Rightarrow> dns_Config option \<Rightarrow> int \<Rightarrow> 'k native \<Rightarrow> 'k host \<Rightarrow> (tun_error, Device) result \<times> 'k native \<times> 'k host" where
  "openNativeTUN pl po dnsOpts mtu c h =
     (case tun_Open (pl_tun pl) [] (snd h) of
        (Inl e, k1) \<Rightarrow> (Inl e, c, (fst h, k1))
      | (Inr d, k1) \<Rightarrow>
          (case Configure (pl_tun pl) (device_config po mtu) d k1 of
             (Some e, k2) \<Rightarrow> (Inl e, c, (fst h, tun_Close (pl_tun pl) d k2))
           | (None, k2) \<Rightarrow>
               (case add_routes pl po (dv_name d) c k2 of
                  (c1, k3) \<Rightarrow>
                    (case make_backup pl c1 (fst h) of
                       (c2, fs1) \<Rightarrow> (case apply_dns pl dnsOpts (dv_name d) c2 (fs1, k3) of (c3, h3) \<Rightarrow> (Inr d, c3, h3))))))"

text \<open>\<open>cleanup\<close>, in its steps; \<open>None\<close> is a panic in the ledger of the routes.\<close>

definition revert_dns :: "'k platform \<Rightarrow> string \<Rightarrow> 'k native \<Rightarrow> 'k host \<Rightarrow> 'k native \<times> 'k host" where
  "revert_dns pl name c h =
     (case nt_dnsOwnership c of
        Some ow \<Rightarrow> (case dns_Cleanup (pl_readable pl) (pl_writable pl) (Some ow) h of (_, _, h1) \<Rightarrow> (c\<lparr>nt_dnsOwnership := None\<rparr>, h1))
      | None \<Rightarrow>
          (if nt_dnsOpts c \<noteq> None then (c, snd (dns_Revert (pl_bus pl) (pl_writable pl) (pl_resolv pl) (nt_dnsBackend c) name (nt_dnsBackup c) h))
           else (c, h)))"

definition remove_bypass :: "'k platform \<Rightarrow> 'k native \<Rightarrow> 'k \<Rightarrow> 'k native \<times> 'k" where
  "remove_bypass pl c k =
     (if nt_bypassIP c \<noteq> [] \<and> nt_bypassOwned c
      then (c\<lparr>nt_bypassIP := [], nt_bypassGW := [], nt_bypassOwned := False\<rparr>, snd (DeleteBypassRoute (pl_net pl) (nt_bypassIP c) (nt_bypassGW c) k))
      else (c, k))"

definition native_cleanup :: "'k platform \<Rightarrow> 'k native \<Rightarrow> 'k host \<Rightarrow> ('k native \<times> 'k host) option" where
  "native_cleanup pl c0 h =
     (let c = c0\<lparr>nt_dataCh := False\<rparr> in
      case nt_tunDev c of
        None \<Rightarrow> Some (c, h)
      | Some d \<Rightarrow>
          (let had = nt_routeOwnership c \<noteq> None;
               ifIndex = (case rb_index (pl_bus pl) (dv_name d) (snd h) of Some i \<Rightarrow> i | None \<Rightarrow> 0);
               (c1, h1) = revert_dns pl (dv_name d) c h
           in case Cleanup (nt_routeOwnership c1) (snd h1) of
                None \<Rightarrow> None
              | Some (_, _, k2) \<Rightarrow>
                  (let k3 = tun_Close (pl_tun pl) d k2;
                       k4 = (if nt_pushOpts c1 \<noteq> None \<and> ifIndex \<noteq> 0 \<and> \<not> had then snd (DeleteRoutes (pl_net pl) (nt_pushOpts c1) ifIndex k3) else k3);
                       (c2, k5) = remove_bypass pl (c1\<lparr>nt_routeOwnership := None, nt_tunDev := None\<rparr>) k4
                   in Some (c2, (fst h1, k5)))))"

subsection \<open>What a request leaves alone\<close>

text \<open>\<open>keeps f sys\<close>: no netlink request changes \<open>f\<close> of the state, so that none of the operations does.\<close>

definition keeps :: "('k \<Rightarrow> 'a) \<Rightarrow> 'k sys \<Rightarrow> bool" where
  "keeps f sys \<longleftrightarrow> (\<forall>req k. f (snd (snd (sy_exchange sys req k))) = f k)"

lemma keeps_send: "keeps f sys \<Longrightarrow> f (snd (sendNetlinkMsg sys t fl p k)) = f k"
  by (auto simp: keeps_def sendNetlinkMsg_def split: prod.split option.split sum.split)
    (metis snd_conv)+

lemma keeps_route: "keeps f sys \<Longrightarrow> f (snd (netlinkRouteMsg sys t fl i d m g k)) = f k" "keeps f sys \<Longrightarrow> f (snd (netlinkRouteMsg6 sys t fl i d p g k)) = f k"
  by (auto simp: netlinkRouteMsg_def netlinkRouteMsg6_def with_socket_def keeps_send split: option.split prod.split)

lemma keeps_op: "keeps f sys \<Longrightarrow> f (snd (op_add sys i op k)) = f k" "keeps f sys \<Longrightarrow> f (snd (op_remove sys i op k)) = f k"
  by (cases op; simp add: op_add_def op_remove_def addRoute_def addRoute6_def delRoute_def delRoute6_def keeps_route)+

lemma keeps_apply_ops: "keeps f sys \<Longrightarrow> apply_ops sys i ops ap k = (e, ap', k') \<Longrightarrow> f k' = f k"
proof (induction ops arbitrary: ap k)
  case (Cons op ops)
  then show ?case using keeps_op(1) [OF Cons.prems(1), of i op k] by (auto simp: Let_def split: prod.splits option.splits if_splits)
qed simp

lemma keeps_cleanup_all: "keeps f sys \<Longrightarrow> cleanup_all (makeOwner sys i ap) es k = Some (errs, k') \<Longrightarrow> f k' = f k"
proof (induction es arbitrary: k errs)
  case (Cons x es)
  have "f (snd (case ap_ops ap (ri_Destination x) of None \<Rightarrow> (Some NlPanic, k) | Some op \<Rightarrow> op_remove sys i op k)) = f k"
    using keeps_op(2) [OF Cons.prems(1)] by (simp split: option.split)
  then show ?case
    using Cons.prems Cons.IH [OF Cons.prems(1)]
    by (auto simp: makeOwner_def NewOwnership_def Let_def split: prod.splits option.splits sum.splits if_splits)
qed simp

lemma keeps_bypass: "keeps f sys \<Longrightarrow> f (snd (AddBypassRouteOwned sys s g k)) = f k" "keeps f sys \<Longrightarrow> f (snd (DeleteBypassRoute sys s g k)) = f k"
  using keeps_route(1) [of f sys] by (auto simp: AddBypassRouteOwned_def DeleteBypassRoute_def split: prod.split option.split) (metis snd_conv)+

lemma keeps_AddIPv6Addr: "keeps f sys \<Longrightarrow> f (snd (AddIPv6Addr sys i l p k)) = f k"
  by (auto simp: AddIPv6Addr_def with_socket_def Let_def keeps_send split: option.split)

text \<open>The calls of the bus do not change the routing table, and neither do the functions that make them.\<close>

definition quiet_bus :: "('k \<Rightarrow> 'a) \<Rightarrow> 'k bus \<Rightarrow> bool" where
  "quiet_bus f bus \<longleftrightarrow> (\<forall>i as k. f (snd (rb_SetLinkDNS bus i as k)) = f k) \<and> (\<forall>i ds k. f (snd (rb_SetLinkDomains bus i ds k)) = f k) \<and>
     (\<forall>i k. f (snd (rb_RevertLink bus i k)) = f k)"

lemma quiet_resolved:
  assumes "quiet_bus f bus"
  shows "f (snd (ApplyResolved bus cfg n k)) = f k" "f (snd (RevertResolved bus n k)) = f k"
proof -
  have q: "rb_SetLinkDNS bus i as k = (ok, k') \<Longrightarrow> f k' = f k" "rb_SetLinkDomains bus i ds k = (ok, k') \<Longrightarrow> f k' = f k"
    "rb_RevertLink bus i k = (ok, k') \<Longrightarrow> f k' = f k" "f (snd (rb_RevertLink bus i k)) = f k" for i as ds k k' ok
    using assms unfolding quiet_bus_def by (metis snd_conv)+
  show "f (snd (ApplyResolved bus cfg n k)) = f k" "f (snd (RevertResolved bus n k)) = f k"
    by (auto simp: ApplyResolved_def RevertResolved_def q(4) dest: q(1-3) split: option.split sum.split prod.split bool.split) (metis q(1,2))+
qed

lemma quiet_Apply: "quiet_bus f bus \<Longrightarrow> dns_Apply bus w path cfg n b h = (r, h1) \<Longrightarrow> f (snd h1) = f (snd h)"
  using quiet_resolved(1) [of f bus cfg n "snd h"] by (auto simp: dns_Apply_def split: option.splits sum.splits prod.splits if_splits)

lemma quiet_Cleanup:
  assumes "quiet_bus f bus" "OwnershipForApplied bus readable path b cfg n backup fs = Inr (Some ow)" "dns_Cleanup readable writable (Some ow) h = (e, o2, h1)"
  shows "f (snd h1) = f (snd h)"
proof (cases "b = BackendResolvConf")
  case True
  then have "do_cleanup ow = None" using assms(2) by (auto simp: OwnershipForApplied_def OwnershipForBackend_def NewFileOwnership_def split: option.splits)
  then show ?thesis using assms(3) by (auto simp: dns_Cleanup_def Let_def split: if_splits prod.splits)
next
  case False
  then have ow: "ow = resolved_owner bus cfg n" using assms(2) by (auto simp: OwnershipForApplied_def split: if_splits)
  have "f (snd (snd (resolved_cleanup bus cfg n h))) = f (snd h)"
    using quiet_resolved(2) [OF assms(1), of n "snd h"] by (auto simp: resolved_cleanup_def split: sum.split prod.split)
  then show ?thesis using assms(3) by (auto simp: ow resolved_owner_def dns_Cleanup_def dns_NewOwnership_def Let_def split: prod.splits)
qed

subsection \<open>The routes\<close>

text \<open>Cleaning up the pushed routes, in any state that lists the same routes.\<close>

lemma routes_cycle:
  assumes "kernel_routes sys idx (route_ops po) dump" "distinct_names idx (route_ops po)" "ApplyRoutesOwned sys (Some po) idx k = (e, ow, k1)"
  shows "dump k' = dump k1 \<Longrightarrow> \<exists>k2. Cleanup (Some ow) k' = Some ([], Some (ow\<lparr>ow_closed := True\<rparr>), k2) \<and> (\<forall>key. key_ok key \<longrightarrow> found dump k2 key = found dump k key) \<and>
      (keeps f sys \<longrightarrow> f k2 = f k')"
    "keeps f sys \<Longrightarrow> f k1 = f k"
proof -
  obtain ap where ap: "apply_ops sys idx (route_ops po) \<lparr>ap_owned = [], ap_ops = Map.empty\<rparr> k = (e, ap, k1)" "ow = makeOwner sys idx ap"
    using assms(3) by (auto simp: ApplyRoutesOwned_def split: prod.splits)
  show "keeps f sys \<Longrightarrow> f k1 = f k" by (rule keeps_apply_ops [OF _ ap(1)])
  have "applied_inv idx (route_ops po) dump k [] \<lparr>ap_owned = [], ap_ops = Map.empty\<rparr> k" by (simp add: applied_inv_def)
  from apply_ops_inv [OF assms(1,2) ap(1) _ this] obtain mine where "applied_inv idx (route_ops po) dump k mine ap k1" by auto
  then have inv: "applied_inv idx (route_ops po) dump k mine ap k'" if "dump k' = dump k1" by (rule applied_inv_dump) (rule that)
  assume "dump k' = dump k1"
  note inv = inv [OF this] and i = inv [OF this, unfolded applied_inv_def]
  obtain k2 where k2: "cleanup_all ow (map (op_identity idx) mine) k' = Some ([], k2)"
    "\<forall>key. key_ok key \<longrightarrow> found dump k2 key = (if key \<in> op_key ` set mine then None else found dump k' key)"
    using cleanup_mine [OF assms(1) ap(2), of mine k'] i by auto
  have "found dump k2 key = found dump k key" if "key_ok key" for key
    using k2(2) that applied_inv_outside [OF inv that] i by (auto simp del: split_paired_All)
  moreover have "Cleanup (Some ow) k' = Some ([], Some (ow\<lparr>ow_closed := True\<rparr>), k2)"
    using k2(1) i ap(2) by (simp add: Cleanup_def makeOwner_def NewOwnership_def)
  ultimately show "\<exists>k2. Cleanup (Some ow) k' = Some ([], Some (ow\<lparr>ow_closed := True\<rparr>), k2) \<and> (\<forall>key. key_ok key \<longrightarrow> found dump k2 key = found dump k key) \<and>
      (keeps f sys \<longrightarrow> f k2 = f k')"
    using k2(1) keeps_cleanup_all [of f sys idx ap "map (op_identity idx) mine" k' "[]" k2] ap(2) by blast
qed

text \<open>The kernel and the bypass route: adding it where the destination has no route makes it appear, through another interface than the tunnel, and it can be deleted.\<close>

definition bypass_op :: "ip \<Rightarrow> ip \<Rightarrow> route_op" where "bypass_op sip gw = V4 sip (CIDRMask 32 32) gw"

definition acked :: "'k sys \<Rightarrow> bytes \<Rightarrow> 'k \<Rightarrow> u32 \<Rightarrow> 'k \<Rightarrow> bool" where
  "acked sys req k errno k' \<longleftrightarrow> (\<exists>meta extra. sy_exchange sys req k = (None, [Inr (enc_raw meta NLMSG_ERROR (le32 errno @ extra))], k') \<and> length extra < 4000)"

definition answers_bypass :: "'k sys \<Rightarrow> ('k \<Rightarrow> byte \<Rightarrow> (RtMsg \<times> attrs) list) \<Rightarrow> int \<Rightarrow> ip \<Rightarrow> ip \<Rightarrow> bool" where
  "answers_bypass sys dump idx sip gw \<longleftrightarrow>
     op_ok (bypass_op sip gw) \<and>
     (\<forall>k. \<exists>errno k'. acked sys (add_request sys 0 (bypass_op sip gw)) k errno k' \<and>
        (if errno = 0 then found dump k (op_key (bypass_op sip gw)) = None \<and>
           (\<exists>i. ri_Gateway i = IP_String gw \<and> ri_Interface i \<noteq> idx \<and>
              (\<forall>key. key_ok key \<longrightarrow> found dump k' key = (if key = op_key (bypass_op sip gw) then Some i else found dump k key)))
         else \<forall>key. key_ok key \<longrightarrow> found dump k' key = found dump k key)) \<and>
     (\<forall>k i. found dump k (op_key (bypass_op sip gw)) = Some i \<and> ri_Gateway i = IP_String gw \<longrightarrow>
        (\<exists>errno k'. acked sys (del_request sys 0 (bypass_op sip gw)) k errno k' \<and>
           (\<forall>key. key_ok key \<longrightarrow> found dump k' key = (if key = op_key (bypass_op sip gw) then None else found dump k key))))"

lemma bypass_message:
  assumes "op_ok (bypass_op sip gw)" "sy_socket sys = None" "sy_bind sys = None"
  shows "acked sys (add_request sys 0 (bypass_op sip gw)) k errno k' \<Longrightarrow>
      netlinkRouteMsg sys RTM_NEWROUTE create_excl 0 sip (CIDRMask 32 32) gw k = (if errno = 0 then None else Some (Kernel (sint (- errno))), k')"
    "acked sys (del_request sys 0 (bypass_op sip gw)) k errno k' \<Longrightarrow>
      netlinkRouteMsg sys RTM_DELROUTE 0 0 sip (CIDRMask 32 32) gw k = (if errno = 0 then None else Some (Kernel (sint (- errno))), k')"
proof -
  have m: "snd (mask_Size (CIDRMask 32 32)) = 32" using assms(1) by (simp add: op_ok_def bypass_op_def)
  then have send: "netlinkRouteMsg sys t fl 0 sip (CIDRMask 32 32) gw k = sendNetlinkMsg sys t fl (op_payload 0 (bypass_op sip gw)) k" for t fl
    using assms(2,3) by (auto simp: netlinkRouteMsg_def with_socket_def op_payload_def bypass_op_def split: prod.split)
  show "acked sys (add_request sys 0 (bypass_op sip gw)) k errno k' \<Longrightarrow>
      netlinkRouteMsg sys RTM_NEWROUTE create_excl 0 sip (CIDRMask 32 32) gw k = (if errno = 0 then None else Some (Kernel (sint (- errno))), k')"
    "acked sys (del_request sys 0 (bypass_op sip gw)) k errno k' \<Longrightarrow>
      netlinkRouteMsg sys RTM_DELROUTE 0 0 sip (CIDRMask 32 32) gw k = (if errno = 0 then None else Some (Kernel (sint (- errno))), k')"
    using ack_errno unfolding send acked_def add_request_def del_request_def by (auto simp: sendNetlinkMsg_def first_answer_def)
qed

subsection \<open>Up and down\<close>

text \<open>Between two states only routes through the tunnel were added.\<close>

definition tun_only :: "int \<Rightarrow> ('k \<Rightarrow> byte \<Rightarrow> (RtMsg \<times> attrs) list) \<Rightarrow> 'k \<Rightarrow> 'k \<Rightarrow> bool" where
  "tun_only idx dump k k' \<longleftrightarrow>
     (\<forall>key. key_ok key \<longrightarrow> found dump k' key = found dump k key \<or> found dump k key = None \<and> (\<exists>i. found dump k' key = Some i \<and> ri_Interface i = idx))"

text \<open>\<open>device_laws\<close>: what the code relies on of the tunnel device and of the separation of the host's parts.  A new interface has the index \<open>idx\<close>, which no route uses and for which the
  resolver has no settings; opening it, configuring it and giving it an IPv6 address add only routes through it; closing it removes the routes through it and no other;
  netlink requests leave the resolver alone, and the resolver the routes.\<close>

definition device_laws :: "'k platform \<Rightarrow> ('k \<Rightarrow> byte \<Rightarrow> (RtMsg \<times> attrs) list) \<Rightarrow> ('k \<Rightarrow> link_settings) \<Rightarrow> int \<Rightarrow> tun_Config \<Rightarrow> 'k \<Rightarrow> bool" where
  "device_laws pl dump links idx cfg k \<longleftrightarrow>
     (\<forall>d k1 k2. tun_Open (pl_tun pl) [] k = (Inr d, k1) \<and> Configure (pl_tun pl) cfg d k1 = (None, k2) \<longrightarrow>
        on_link (pl_bus pl) (dv_name d) idx k2 \<and> links k2 = links k \<and> tun_only idx dump k k2) \<and>
     (\<forall>l p k. tun_only idx dump k (snd (AddIPv6Addr (pl_net pl) idx l p k))) \<and>
     (\<forall>d k key. key_ok key \<longrightarrow> found dump (tun_Close (pl_tun pl) d k) key =
        (case found dump k key of None \<Rightarrow> None | Some i \<Rightarrow> if ri_Interface i = idx then None else Some i)) \<and>
     (\<forall>d k. links k idx = ([], []) \<longrightarrow> links (tun_Close (pl_tun pl) d k) = links k) \<and>
     (\<forall>key i. found dump k key = Some i \<longrightarrow> ri_Interface i \<noteq> idx) \<and> links k idx = ([], []) \<and>
     keeps (\<lambda>k. (links k, \<lambda>n. rb_index (pl_bus pl) n k, rb_connect (pl_bus pl) k)) (pl_net pl) \<and> quiet_bus dump (pl_bus pl)"

lemma tun_only_trans: "tun_only idx dump k k1 \<Longrightarrow> tun_only idx dump k1 k2 \<Longrightarrow> tun_only idx dump k k2"
  unfolding tun_only_def by (metis option.distinct(1))

lemma tun_only_refl: "tun_only idx dump k k"
  by (simp add: tun_only_def)

text \<open>\<open>undoable\<close>: one route, not through the tunnel, was added, and deleting the bypass route takes exactly it away.\<close>

definition undoable :: "'k sys \<Rightarrow> ('k \<Rightarrow> byte \<Rightarrow> (RtMsg \<times> attrs) list) \<Rightarrow> int \<Rightarrow> ip \<Rightarrow> ip \<Rightarrow> 'k \<Rightarrow> 'k \<Rightarrow> bool" where
  "undoable sys dump idx sip gw k k1 \<longleftrightarrow>
     (\<exists>bkey i. found dump k bkey = None \<and> ri_Interface i \<noteq> idx \<and> key_ok bkey \<and>
        (\<forall>key. key_ok key \<longrightarrow> found dump k1 key = (if key = bkey then Some i else found dump k key)) \<and>
        (\<forall>k2 key. found dump k2 bkey = Some i \<and> key_ok key \<longrightarrow>
           found dump (snd (DeleteBypassRoute sys sip gw k2)) key = (if key = bkey then None else found dump k2 key)))"

lemma bypass_added:
  assumes "answers_bypass sys dump idx sip gw" "sy_socket sys = None" "sy_bind sys = None" "gw \<noteq> []" "AddBypassRouteOwned sys sip gw k = (r, k1)"
  shows "r = Inr True \<Longrightarrow> undoable sys dump idx sip gw k k1" "r \<noteq> Inr True \<Longrightarrow> key_ok key \<Longrightarrow> found dump k1 key = found dump k key"
proof -
  let ?op = "bypass_op sip gw"
  have ok: "op_ok ?op" using assms(1) by (simp add: answers_bypass_def)
  note msg = bypass_message [OF ok assms(2,3)]
  obtain errno k' where a: "acked sys (add_request sys 0 ?op) k errno k'"
    "if errno = 0 then found dump k (op_key ?op) = None \<and> (\<exists>i. ri_Gateway i = IP_String gw \<and> ri_Interface i \<noteq> idx \<and>
            (\<forall>key. key_ok key \<longrightarrow> found dump k' key = (if key = op_key ?op then Some i else found dump k key)))
     else \<forall>key. key_ok key \<longrightarrow> found dump k' key = found dump k key"
    using assms(1) unfolding answers_bypass_def by blast
  have k1: "k1 = k'" "r = Inr True \<longleftrightarrow> errno = 0"
    using assms(4,5) msg(1) [OF a(1)] by (auto simp: AddBypassRouteOwned_def split: if_splits)
  show "r \<noteq> Inr True \<Longrightarrow> key_ok key \<Longrightarrow> found dump k1 key = found dump k key" using a(2) k1 by (simp del: split_paired_All)
  assume "r = Inr True"
  then obtain i where i: "found dump k (op_key ?op) = None" "ri_Gateway i = IP_String gw" "ri_Interface i \<noteq> idx"
    "\<forall>key. key_ok key \<longrightarrow> found dump k' key = (if key = op_key ?op then Some i else found dump k key)" using a(2) k1(2) by auto
  have "found dump (snd (DeleteBypassRoute sys sip gw k2)) key = (if key = op_key ?op then None else found dump k2 key)"
    if k2: "found dump k2 (op_key ?op) = Some i" and key: "key_ok key" for k2 key
  proof -
    obtain errno k3 where "acked sys (del_request sys 0 ?op) k2 errno k3"
      "\<forall>key. key_ok key \<longrightarrow> found dump k3 key = (if key = op_key ?op then None else found dump k2 key)"
      using assms(1) k2 i(2) unfolding answers_bypass_def by blast
    moreover from this(1) have "snd (DeleteBypassRoute sys sip gw k2) = k3"
      using msg(2) assms(4) by (simp add: DeleteBypassRoute_def)
    ultimately show ?thesis using key by (simp del: split_paired_All)
  qed
  then show "undoable sys dump idx sip gw k k1"
    unfolding undoable_def using i k1(1) op_key_ok [OF ok] by (intro exI [of _ "op_key ?op"] exI [of _ i]) blast
qed

lemma bypass_cycle:
  assumes "add_bypass pl po c k = (c1, k1)" "sy_socket (pl_net pl) = None" "sy_bind (pl_net pl) = None"
    and "\<forall>gw. po_RedirectGateway po \<and> LookupGateway (pl_net pl) (ParseIP (nt_phase1IP c)) k = Inr gw \<and> gw \<noteq> [] \<longrightarrow>
      answers_bypass (pl_net pl) dump idx (ParseIP (nt_phase1IP c)) gw"
    and "\<not> nt_bypassOwned c"
  shows "c1 = c\<lparr>nt_bypassIP := nt_bypassIP c1, nt_bypassGW := nt_bypassGW c1, nt_bypassOwned := nt_bypassOwned c1\<rparr>"
    "if nt_bypassOwned c1 then nt_bypassIP c1 \<noteq> [] \<and> undoable (pl_net pl) dump idx (nt_bypassIP c1) (nt_bypassGW c1) k k1
     else \<forall>key. key_ok key \<longrightarrow> found dump k1 key = found dump k key"
proof -
  let ?sip = "ParseIP (nt_phase1IP c)"
  show "c1 = c\<lparr>nt_bypassIP := nt_bypassIP c1, nt_bypassGW := nt_bypassGW c1, nt_bypassOwned := nt_bypassOwned c1\<rparr>"
    using assms(1) by (auto simp: add_bypass_def Let_def split: if_splits sum.splits prod.splits)
  consider (none) "c1 = c" "k1 = k" | (tried) gw r where "po_RedirectGateway po" "?sip \<noteq> []" "LookupGateway (pl_net pl) ?sip k = Inr gw" "gw \<noteq> []"
      "AddBypassRouteOwned (pl_net pl) ?sip gw k = (r, k1)" "c1 = (case r of Inl _ \<Rightarrow> c | Inr owned \<Rightarrow> c\<lparr>nt_bypassIP := ?sip, nt_bypassGW := gw, nt_bypassOwned := owned\<rparr>)"
    using assms(1) by (auto simp: add_bypass_def Let_def split: if_splits sum.splits prod.splits)
  then show "if nt_bypassOwned c1 then nt_bypassIP c1 \<noteq> [] \<and> undoable (pl_net pl) dump idx (nt_bypassIP c1) (nt_bypassGW c1) k k1
     else \<forall>key. key_ok key \<longrightarrow> found dump k1 key = found dump k key"
  proof cases
    case none
    then show ?thesis using assms(5) by simp
  next
    case tried
    have "answers_bypass (pl_net pl) dump idx ?sip gw" using assms(4) tried(1,3,4) by blast
    note added = bypass_added [OF this assms(2,3) tried(4,5)]
    show ?thesis using tried(2,6) added assms(5) by (cases r) (auto simp del: split_paired_All)
  qed
qed

text \<open>Bringing the routes up, with what is needed to take them down again.\<close>

lemma add_routes_cycle:
  assumes "add_routes pl po name c k2 = (ca, k3)" "on_link (pl_bus pl) name idx k2" "kernel_routes (pl_net pl) idx (route_ops po) dump" "distinct_names idx (route_ops po)"
    and "\<forall>k' gw. po_RedirectGateway po \<and> LookupGateway (pl_net pl) (ParseIP (nt_phase1IP c)) k' = Inr gw \<and> gw \<noteq> [] \<longrightarrow>
      answers_bypass (pl_net pl) dump idx (ParseIP (nt_phase1IP c)) gw"
    and "\<not> nt_bypassOwned c" "keeps f (pl_net pl)"
  obtains ow kb where "ca = c\<lparr>nt_bypassIP := nt_bypassIP ca, nt_bypassGW := nt_bypassGW ca, nt_bypassOwned := nt_bypassOwned ca, nt_routeOwnership := Some ow\<rparr>"
    "if nt_bypassOwned ca then nt_bypassIP ca \<noteq> [] \<and> undoable (pl_net pl) dump idx (nt_bypassIP ca) (nt_bypassGW ca) (add_ipv6 pl po idx k2) kb
     else \<forall>key. key_ok key \<longrightarrow> found dump kb key = found dump (add_ipv6 pl po idx k2) key"
    "\<forall>k'. dump k' = dump k3 \<longrightarrow> (\<exists>k4. Cleanup (Some ow) k' = Some ([], Some (ow\<lparr>ow_closed := True\<rparr>), k4) \<and> (\<forall>key. key_ok key \<longrightarrow> found dump k4 key = found dump kb key) \<and> f k4 = f k')"
    "f k3 = f k2"
proof -
  obtain cx kb where cx: "add_bypass pl po c (add_ipv6 pl po idx k2) = (cx, kb)" by fastforce
  obtain e ow k3' where r: "ApplyRoutesOwned (pl_net pl) (Some po) idx kb = (e, ow, k3')" by (cases "ApplyRoutesOwned (pl_net pl) (Some po) idx kb") auto
  have ca: "ca = cx\<lparr>nt_routeOwnership := Some ow\<rparr>" "k3 = k3'" using assms(1,2) cx r by (auto simp: add_routes_def on_link_def)
  have s: "sy_socket (pl_net pl) = None" "sy_bind (pl_net pl) = None" using assms(3) by (simp_all add: kernel_routes_def)
  note b = bypass_cycle [OF cx s _ assms(6), of dump idx]
  have "f kb = f (add_ipv6 pl po idx k2)"
    using cx keeps_bypass(1) [OF assms(7)] by (auto simp: add_bypass_def Let_def split: if_splits sum.splits prod.splits) (metis snd_conv)+
  then have "f kb = f k2" using keeps_AddIPv6Addr [OF assms(7)] by (simp add: add_ipv6_def split: option.splits)
  then have f: "f k3 = f k2" using routes_cycle(2) [OF assms(3,4) r assms(7)] ca(2) by simp
  have cy: "\<exists>k4. Cleanup (Some ow) k' = Some ([], Some (ow\<lparr>ow_closed := True\<rparr>), k4) \<and> (\<forall>key. key_ok key \<longrightarrow> found dump k4 key = found dump kb key) \<and> f k4 = f k'"
    if "dump k' = dump k3" for k' using routes_cycle(1) [OF assms(3,4) r, of k' f] that ca(2) assms(7) by blast
  have "cx = c\<lparr>nt_bypassIP := nt_bypassIP cx, nt_bypassGW := nt_bypassGW cx, nt_bypassOwned := nt_bypassOwned cx\<rparr>" by (rule b(1)) (use assms(5) in blast)
  then have c: "ca = c\<lparr>nt_bypassIP := nt_bypassIP ca, nt_bypassGW := nt_bypassGW ca, nt_bypassOwned := nt_bypassOwned ca, nt_routeOwnership := Some ow\<rparr>"
    unfolding ca(1) by (cases c; cases cx) simp
  have "if nt_bypassOwned cx then nt_bypassIP cx \<noteq> [] \<and> undoable (pl_net pl) dump idx (nt_bypassIP cx) (nt_bypassGW cx) (add_ipv6 pl po idx k2) kb
     else \<forall>key. key_ok key \<longrightarrow> found dump kb key = found dump (add_ipv6 pl po idx k2) key" by (rule b(2)) (use assms(5) in blast)
  then have b2: "if nt_bypassOwned ca then nt_bypassIP ca \<noteq> [] \<and> undoable (pl_net pl) dump idx (nt_bypassIP ca) (nt_bypassGW ca) (add_ipv6 pl po idx k2) kb
     else \<forall>key. key_ok key \<longrightarrow> found dump kb key = found dump (add_ipv6 pl po idx k2) key" by (simp add: ca(1) del: split_paired_All)
  show thesis by (rule that [OF c b2 _ f]) (use cy in blast)
qed

text \<open>After the pushed routes are gone, closing the device and deleting the bypass route leave the routes of the host.\<close>

lemma routes_taken_down:
  assumes "device_laws pl dump links idx cfg k" "tun_only idx dump k ka" "\<forall>key. key_ok key \<longrightarrow> found dump k4 key = found dump kb key"
    and "if nt_bypassOwned c then nt_bypassIP c \<noteq> [] \<and> undoable (pl_net pl) dump idx (nt_bypassIP c) (nt_bypassGW c) ka kb
      else \<forall>key. key_ok key \<longrightarrow> found dump kb key = found dump ka key"
    and "remove_bypass pl c (tun_Close (pl_tun pl) d k4) = (c2, k5)" "key_ok key"
  shows "found dump k5 key = found dump k key" "\<not> nt_bypassOwned c2"
proof -
  have close: "found dump (tun_Close (pl_tun pl) d k4) key = (case found dump k4 key of None \<Rightarrow> None | Some i \<Rightarrow> if ri_Interface i = idx then None else Some i)"
    if "key_ok key" for key using assms(1) that unfolding device_laws_def by blast
  have own: "ri_Interface i \<noteq> idx" if "found dump k key = Some i" for key i using assms(1) that unfolding device_laws_def by blast
  have only: "found dump ka key = found dump k key \<or> found dump k key = None \<and> (\<exists>i. found dump ka key = Some i \<and> ri_Interface i = idx)" if "key_ok key" for key
    using assms(2) that unfolding tun_only_def by blast
  have gone: "(case found dump ka key of None \<Rightarrow> None | Some i \<Rightarrow> if ri_Interface i = idx then None else Some i) = found dump k key" if "key_ok key" for key
    using only [OF that] own [of key] by (cases "found dump k key"; cases "found dump ka key") auto
  show "\<not> nt_bypassOwned c2" using assms(4,5) by (auto simp: remove_bypass_def split: if_splits)
  show "found dump k5 key = found dump k key"
  proof (cases "nt_bypassOwned c")
    case False
    then have "k5 = tun_Close (pl_tun pl) d k4" "found dump k4 key = found dump ka key" using assms(3-6) by (simp_all add: remove_bypass_def del: split_paired_All)
    then show ?thesis using close [OF assms(6)] gone [OF assms(6)] by simp
  next
    case True
    then obtain bkey i where b: "found dump ka bkey = None" "ri_Interface i \<noteq> idx" "key_ok bkey"
      "\<And>key. key_ok key \<Longrightarrow> found dump kb key = (if key = bkey then Some i else found dump ka key)"
      "\<And>k2 key. found dump k2 bkey = Some i \<Longrightarrow> key_ok key \<Longrightarrow>
         found dump (snd (DeleteBypassRoute (pl_net pl) (nt_bypassIP c) (nt_bypassGW c) k2)) key = (if key = bkey then None else found dump k2 key)"
      using assms(4) unfolding undoable_def by (simp del: split_paired_All split_paired_Ex) blast
    have k5: "k5 = snd (DeleteBypassRoute (pl_net pl) (nt_bypassIP c) (nt_bypassGW c) (tun_Close (pl_tun pl) d k4))"
      using assms(4,5) True by (auto simp: remove_bypass_def)
    have k4: "found dump k4 key = (if key = bkey then Some i else found dump ka key)" if "key_ok key" for key using assms(3) b(4) that by (simp del: split_paired_All)
    have "found dump (tun_Close (pl_tun pl) d k4) bkey = Some i" using close [OF b(3)] k4 [OF b(3)] b(2) by simp
    from b(5) [OF this assms(6)] show ?thesis
      using k5 close [OF assms(6)] k4 [OF assms(6)] gone [OF assms(6)] b(1) by (auto split: if_splits)
  qed
qed


text \<open>A host with one route and a resolver: the kernel of the routes on the first part of the state, the resolver on the second.\<close>

definition lift_sys :: "'k sys \<Rightarrow> ('k \<times> 's) sys" where
  "lift_sys sys = \<lparr>sy_socket = sy_socket sys, sy_bind = sy_bind sys, sy_pid = sy_pid sys,
     sy_exchange = (\<lambda>req (k, s). case sy_exchange sys req k of (e, as, k') \<Rightarrow> (e, as, (k', s)))\<rparr>"

lemma lift_requests:
  "add_request (lift_sys sys) i op = add_request sys i op" "del_request (lift_sys sys) i op = del_request sys i op" "dump_request (lift_sys sys) f = dump_request sys f"
  by (simp_all add: add_request_def del_request_def dump_request_def nl_request_def lift_sys_def)

lemma lift_found: "found (\<lambda>(k, s). dump k) (k, s) = found dump k"
  by (auto simp: found_def fun_eq_iff)

lemma lift_exchange: "sy_exchange sys req k = (e, as, k') \<Longrightarrow> sy_exchange (lift_sys sys) req (k, s) = (e, as, (k', s))"
  by (simp add: lift_sys_def)

lemma lift_kernel:
  assumes "kernel_routes sys i ops dump"
  shows "kernel_routes (lift_sys sys) i ops (\<lambda>(k, s). dump k)"
proof -
  note k = assms [unfolded kernel_routes_def]
  have d: "answers_dump (lift_sys sys) (\<lambda>(k, s). dump k)"
    unfolding answers_dump_def lift_requests
  proof (intro allI, goal_cases)
    case (1 ks f)
    obtain b s where ks: "ks = (b, s)" by fastforce
    from k obtain meta dgs where "sy_exchange sys (dump_request sys f) b = (None, map (\<lambda>ms. Inr (concat (map (enc_kmsg meta) ms))) dgs, b)"
      "concat dgs = map (\<lambda>(rt, as). KRoute rt as) (dump b f) @ [KDone]" "\<forall>ms\<in>set dgs. list_all kmsg_ok ms \<and> length (concat (map (enc_kmsg meta) ms)) \<le> 65536"
      unfolding answers_dump_def by blast
    then show ?case using ks lift_exchange by (intro exI [of _ meta] exI [of _ dgs]) auto
  qed
  have a: "answers_add (lift_sys sys) i ops (\<lambda>(k, s). dump k)"
    unfolding answers_add_def lift_requests
  proof (intro allI ballI, goal_cases)
    case (1 ks op)
    obtain b s where ks: "ks = (b, s)" by fastforce
    from k 1 obtain meta errno extra b' where x: "sy_exchange sys (add_request sys i op) b = (None, Inr (enc_raw meta NLMSG_ERROR (le32 errno @ extra)) # [], b')" "length extra < 4000"
      "if errno = 0 then found dump b (op_key op) = None \<and> (\<exists>pre r post. dump b (fst (op_key op)) = pre @ post \<and> describes i op r \<and> dump b' = (dump b)(fst (op_key op) := pre @ r # post))
         else dump b' = dump b \<and> (found dump b (op_key op) \<noteq> None \<longleftrightarrow> sint (- errno) = EEXIST)"
      unfolding answers_add_def by blast
    show ?case unfolding ks lift_found prod.case
      by (intro exI [of _ meta] exI [of _ errno] exI [of _ extra] exI [of _ "(b', s)"] conjI) (use x lift_exchange in auto)
  qed
  have r: "answers_del (lift_sys sys) i ops (\<lambda>(k, s). dump k)"
    unfolding answers_del_def lift_requests
  proof (intro allI ballI, goal_cases)
    case (1 ks op)
    obtain b s where ks: "ks = (b, s)" by fastforce
    from k 1 obtain meta errno extra b' where x: "sy_exchange sys (del_request sys i op) b = (None, Inr (enc_raw meta NLMSG_ERROR (le32 errno @ extra)) # [], b')" "length extra < 4000"
      "if errno = 0 then (\<exists>pre r post. dump b (fst (op_key op)) = pre @ r # post \<and> describes i op r \<and> dump b' = (dump b)(fst (op_key op) := pre @ post))
         else dump b' = dump b \<and> (\<forall>r\<in>set (dump b (fst (op_key op))). \<not> describes i op r)"
      unfolding answers_del_def by blast
    show ?case unfolding ks prod.case
      by (intro exI [of _ meta] exI [of _ errno] exI [of _ extra] exI [of _ "(b', s)"] conjI) (use x lift_exchange in auto)
  qed
  have "single_routes (\<lambda>(k, s). dump k)" using k by (auto simp: single_routes_def)
  then show ?thesis using k d a r by (simp add: kernel_routes_def lift_sys_def [of sys])
qed

definition pair_bus :: "('k \<times> link_settings) bus" where
  "pair_bus =
     \<lparr>rb_index = (\<lambda>_ _. Some 5), rb_connect = (\<lambda>_. True), rb_SetLinkDNS = (\<lambda>i as (k, s). (True, (k, s(i := (as, snd (s i)))))),
      rb_SetLinkDomains = (\<lambda>i ds (k, s). (True, (k, s(i := (fst (s i), ds))))), rb_RevertLink = (\<lambda>i (k, s). (True, (k, s(i := ([], []))))),
      rb_GetLink = (\<lambda>i _. Some (link_path i)), rb_DNS = (\<lambda>p (_, s). Some (fst (s (path_index p)))), rb_Domains = (\<lambda>p (_, s). Some (snd (s (path_index p))))\<rparr>"

definition pair_tun :: "(bool \<times> link_settings) tun_sys" where
  "pair_tun = \<lparr>ts_open = (\<lambda>k. (Inr 3, k)), ts_ioctl = (\<lambda>_ _ req k. (Inr req, k)), ts_nonblock = (\<lambda>_ k. (None, k)), ts_socket = (\<lambda>k. (Inr 4, k)),
     ts_close = (\<lambda>_ (_, s). (False, s))\<rparr>"

definition lone_platform :: "(bool \<times> link_settings) platform" where
  "lone_platform = \<lparr>pl_tun = pair_tun, pl_net = lift_sys lone_sys, pl_bus = pair_bus, pl_readable = (\<lambda>_. True), pl_writable = (\<lambda>_. True),
     pl_resolv = ''/etc/resolv.conf'', pl_temp = (\<lambda>_. Some ''/tmp/b'')\<rparr>"

definition lone_client :: "(bool \<times> link_settings) native" where
  "lone_client = \<lparr>nt_phase1IP = [], nt_bypassIP = [], nt_bypassGW = [], nt_bypassOwned = False, nt_routeOwnership = None, nt_dnsBackup = [], nt_dnsBackend = BackendNone,
     nt_dnsOwnership = None, nt_tunDev = None, nt_pushOpts = None, nt_dnsOpts = None, nt_dataCh = True\<rparr>"

definition no_links :: link_settings where "no_links _ = ([], [])"

lemma lone_found: "key_ok key \<Longrightarrow> found lone_dump b key = Some i \<Longrightarrow> ri_Interface i = 5" "found lone_dump False key = None"
proof -
  show "found lone_dump False key = None" by (cases key) (simp add: found_def lone_dump_def)
  obtain f d p where key: "key = (f, d, p)" by (cases key) auto
  assume "key_ok key" "found lone_dump b key = Some i"
  then have "length d = 4" "hit (d, p) lone_route = Some i" unfolding key
    by (auto simp: found_def lone_dump_def key_ok_def AF_INET_def AF_INET6_def split: if_splits option.splits)
  then show "ri_Interface i = 5" using lone_facts(4) by (auto simp: hit_def route_match_def split: if_splits)
qed

lemma lone_other: "length m \<noteq> 52 \<Longrightarrow> snd (snd (sy_exchange (lift_sys lone_sys) m ks)) = ks"
proof -
  assume "length m \<noteq> 52"
  then have "m \<noteq> add_request probe 5 lone_op" "m \<noteq> del_request probe 5 lone_op" using lone_distinct(1,2) by auto
  then have "\<exists>as. sy_exchange lone_sys m (fst ks) = (None, as, fst ks)" by (simp add: lone_sys_def)
  then show ?thesis using lift_exchange [of lone_sys m "fst ks" None _ "fst ks" "snd ks"] by auto
qed

lemma send_state: "snd (sendNetlinkMsg sys t fl p k) = snd (snd (sy_exchange sys (pad4 (nl_request sys t (1 OR 4 OR fl) 1 p)) k))"
  by (simp add: sendNetlinkMsg_def split: prod.split option.split sum.split)

lemma lone_addr: "snd (AddIPv6Addr (lift_sys lone_sys) 5 l p ks) = ks"
proof -
  have "length (To16 l) = 0 \<or> length (To16 l) = 16" by (simp add: To16_def v4InV6Prefix_def)
  then have "length (pad4 (nl_request (lift_sys lone_sys) t f q (marshalIfAddrMsg m @ nlAttr 1 (To16 l) @ nlAttr 2 (To16 l)))) \<noteq> 52" for t f q m
    by (auto simp: nl_request_def length_pad4 length_nlAttr marshalIfAddrMsg_def align4_def)
  then have "snd (sendNetlinkMsg (lift_sys lone_sys) t f (marshalIfAddrMsg m @ nlAttr 1 (To16 l) @ nlAttr 2 (To16 l)) ks) = ks" for t f m
    unfolding send_state by (rule lone_other)
  then show ?thesis by (simp add: AddIPv6Addr_def with_socket_def Let_def split: option.split)
qed

lemma pair_calls [simp]:
  "ts_open pair_tun k = (Inr 3, k)" "ts_ioctl pair_tun fd num req k = (Inr req, k)" "ts_nonblock pair_tun fd k = (None, k)" "ts_socket pair_tun k = (Inr 4, k)"
  "ts_close pair_tun fd (b, s) = (False, s)"
  by (simp_all add: pair_tun_def)

lemma pair_Open: "tun_Open pair_tun [] k = (Inr \<lparr>dv_fd = 3, dv_name = ByteSliceToString (take IFNAMSIZ (ifreqFlags [] (iffTUN OR iffNoPi)))\<rparr>, k)"
  by (simp add: tun_Open_def)

lemma pair_Configure: "snd (Configure pair_tun cfg d (b, s)) = (False, s)"
proof -
  have "snd (configure_steps pair_tun d 4 cfg (b, s)) = (b, s)" by (simp add: configure_steps_def and_then_def setAddr_def setMTU_def setFlags_def)
  then show ?thesis by (cases "configure_steps pair_tun d 4 cfg (b, s)") (simp add: Configure_def)
qed

lemma lone_device: "device_laws lone_platform (\<lambda>(k, s). lone_dump k) snd 5 cfg (False, no_links)"
proof -
  have 1: "tun_only 5 (\<lambda>(k, s). lone_dump k) (b, s) (b', s')" if "b \<longrightarrow> b'" for b b' s s'
    unfolding tun_only_def lift_found
  proof (intro allI impI)
    fix key
    assume "key_ok key"
    then show "found lone_dump b' key = found lone_dump b key \<or> found lone_dump b key = None \<and> (\<exists>i. found lone_dump b' key = Some i \<and> ri_Interface i = 5)"
      using that lone_found(1) [of key b'] lone_found(2) [of key] by (cases b; cases b'; cases "found lone_dump b' key") auto
  qed
  have 2: "fst ks \<longrightarrow> fst (snd (AddIPv6Addr (lift_sys lone_sys) 5 l p ks))" for l p and ks :: "bool \<times> link_settings"
    using lone_addr [of l p ks] by simp
  have 3: "tun_only 5 (\<lambda>(k, s). lone_dump k) ks (snd (AddIPv6Addr (lift_sys lone_sys) 5 l p ks))" for l p and ks :: "bool \<times> link_settings"
    using 1 2 by (metis prod.collapse)
  have 4: "found (\<lambda>(k, s). lone_dump k) (tun_Close pair_tun d ks) key =
      (case found (\<lambda>(k, s). lone_dump k) ks key of None \<Rightarrow> None | Some i \<Rightarrow> if ri_Interface i = 5 then None else Some i)" if "key_ok key" for d ks key
    using lone_found(1) [OF that, of "fst ks"] lone_found(2) [of key]
    by (cases ks) (auto simp: tun_Close_def lift_found split: option.split)
  have 5: "on_link pair_bus n 5 k2 \<and> snd k2 = no_links \<and> tun_only 5 (\<lambda>(k, s). lone_dump k) (False, no_links) k2"
    if "tun_Open pair_tun [] (False, no_links) = (Inr d, k1)" "Configure pair_tun cfg d k1 = (None, k2)" for d k1 k2 n
  proof -
    have "k1 = (False, no_links)" using that(1) by (simp add: pair_Open)
    then have "k2 = (False, no_links)" using pair_Configure [of cfg d False no_links] that(2) by simp
    then show ?thesis by (simp add: on_link_def pair_bus_def tun_only_refl)
  qed
  have 6: "keeps (\<lambda>k. (snd k, \<lambda>n. rb_index pair_bus n k, rb_connect pair_bus k)) (lift_sys lone_sys)"
    by (auto simp: keeps_def lift_sys_def pair_bus_def split: prod.split)
  have 7: "quiet_bus (\<lambda>(k, s). lone_dump k) pair_bus" by (auto simp: quiet_bus_def pair_bus_def split: prod.split)
  show ?thesis
    unfolding device_laws_def using 3 4 5 6 7 lone_found(2)
    by (simp add: lone_platform_def lift_found no_links_def) (auto simp: tun_Close_def)
qed


text \<open>When no temporary file can be created there is no backup, yet \<^verbatim>\<open>resolv.conf\<close> is overwritten; nothing restores it.\<close>

lemma no_backup_never_restored:
  assumes "pl_temp pl fs = None" "nt_dnsBackup c = []" "Servers cfg \<noteq> []" "fst (ApplyResolved (pl_bus pl) (Some cfg) name k) = Some e"
    and "pl_writable pl (pl_resolv pl)" "pl_readable pl (pl_resolv pl)" "make_backup pl c fs = (c1, fs1)" "apply_dns pl (Some cfg) name c1 (fs1, k) = (c2, h2)"
  shows "fst h2 (pl_resolv pl) = Some (resolv_text cfg) \<and> fst (snd (revert_dns pl name c2 h2)) = fst h2"
proof -
  obtain k1 where a: "ApplyResolved (pl_bus pl) (Some cfg) name k = (Some e, k1)" using assms(4) by (metis prod.collapse)
  have m: "c1 = c" "fs1 = fs" using assms(1,7) by (simp_all add: make_backup_def)
  let ?fs2 = "fs(pl_resolv pl \<mapsto> resolv_text cfg)"
  have "dns_Apply (pl_bus pl) (pl_writable pl) (pl_resolv pl) (Some cfg) name [] (fs, k) = ((BackendResolvConf, None), (?fs2, k1))"
    using assms(3,5) a by (simp add: dns_Apply_def ApplyResolvConf_def write_file_def)
  then have "h2 = (?fs2, k1)" "nt_dnsOwnership c2 = Some (NewFileOwnership (pl_resolv pl) [] (resolv_text cfg))"
    using assms(2,6,8) m by (auto simp: apply_dns_def OwnershipForApplied_def OwnershipForBackend_def)
  then show ?thesis by (simp add: revert_dns_def dns_Cleanup_def NewFileOwnership_def file_cleanup_def remove_backup_def Let_def)
qed

end
