(* ===== verification/Spec2Isabelle.thy ===== *)
theory Spec2Isabelle
  imports Framing Reliable Cipher Compress Prf Data_Channel Key_Manager Mssfix Control_Relay Push_Reply Dns Saml Saml_Token Profile Session
    Auth_Exchange Tunnel Client_Reconnect Rekey Ownership Routes Go_Json Web_Socket Relay_Server Relay_Agent Relay_Client Daemon Cli Mobile Native_Tun
begin

text \<open>
  \<^bold>\<open>go-openlawsvpn: a verification development.\<close>

  \<^bold>\<open>The program.\<close>  go-openlawsvpn is an OpenVPN client in Go for servers that authenticate with a browser (SAML), such as AWS Client VPN.  The package in the root directory
  (\<^verbatim>\<open>client.go\<close>) dials a server, opens an OpenVPN control session, runs TLS over it, exchanges credentials, reads the pushed options, derives the keys of the
  data channel, brings up a tunnel interface with its routes and DNS settings, and then moves packets, renews keys, watches the link and the resources it owns, and takes
  everything down again.  \<^verbatim>\<open>internal\<close> holds the packet layers, \<^verbatim>\<open>routing\<close>, \<^verbatim>\<open>dns\<close> and \<^verbatim>\<open>tun\<close> the host's network, \<^verbatim>\<open>auth/saml\<close> the control messages and tokens,
  \<^verbatim>\<open>profile\<close> the configuration file.  Around the client there are a command line, a daemon on the system bus, a relay server with its agent (a machine without a browser gets
  the credentials from one that has it), and a wrapper for mobile platforms.

  \<^bold>\<open>How it is modelled.\<close>  A struct is a record, an enumeration a datatype, a machine integer a word, a byte slice a list of bytes, a Go string a list of characters that
  stand for bytes; a nil slice and an empty one are the same list where the code does not tell them apart.  A function that can fail returns a sum whose left part is the error;
  a panic is the value \<open>None\<close> of an option, and theorems show that it does not occur.  A method changes its receiver: the model returns the new record.  Goroutines are steps of a relation or
  explicit lists of events, and what a mutex protects is one step.  The clock, randomness, the network, the kernel's answers, D-Bus, the file system and \<^verbatim>\<open>crypto/tls\<close> are arguments:
  functions or records of functions (\<open>link\<close>, \<open>sys\<close>, \<open>tun_sys\<close>, \<open>bus\<close>, \<open>http\<close>), and what the code relies on of them is a named hypothesis with a concrete instance in a witness.

  \<^bold>\<open>The theories, from the bottom up.\<close>

  \<^item> \<open>VPN_Prelude\<close>: types and lemmas on words, bytes and lists that the others share, and the interface of a system with an invariant.
    \<open>Go_Strings\<close>, \<open>Go_Net\<close>, \<open>Go_Json\<close> and \<open>Std_Crypto\<close>: what the code uses of the standard library (\<^verbatim>\<open>strings\<close>, \<^verbatim>\<open>strconv\<close>, \<^verbatim>\<open>net\<close>, \<^verbatim>\<open>encoding/json\<close>, AES, GCM, CBC, SHA-256, HMAC), executable.
  \<^item> Packet layers, \<^verbatim>\<open>internal/\<close>: \<open>Framing\<close> (opcodes, TCP and UDP framing), \<open>Reliable\<close> (retransmission queue, receive window), \<open>Cipher\<close> (the two cipher suites), \<open>Compress\<close>, \<open>Prf\<close>,
    \<open>Data_Channel\<close> (packet layout, replay window), \<open>Key_Manager\<close> (key epochs), \<open>Mssfix\<close>, \<open>Ctls\<close> (the connection that TLS runs on).
    The theorems: framing, ciphers and data channel are round trips, from one packet to a stream that two key managers exchange over a path that loses packets; the receive window delivers a gap-free prefix in order and
    in the end everything; the send queue refines the set of unacknowledged packets; at most two key epochs are alive; nonces do not repeat before the counter wraps.
  \<^item> Control channel, \<^verbatim>\<open>client.go\<close>: \<open>Control_Packets\<close> (builders and parsers), \<open>Control_Relay\<close> (the goroutines between the socket and TLS: TLS sees the peer's bytes in order, whatever
    is lost, repeated or reordered), \<open>Auth_Exchange\<close> (reset handshake, credentials in both formats, the answers).
  \<^item> Options: \<open>Push_Reply\<close> (\<^verbatim>\<open>routing/push.go\<close>), \<open>Dns\<close> (\<^verbatim>\<open>dns/dns.go\<close>), \<open>Profile\<close> (\<^verbatim>\<open>profile/profile.go\<close>), \<open>Session\<close> (what profile and push make of a session), \<open>Saml\<close> and \<open>Saml_Token\<close> (\<^verbatim>\<open>auth/saml\<close>).
    The theorems: what a parser accepts is well formed, and messages are read back.
  \<^item> The client: \<open>Lifecycle\<close> (the record of the client, \<open>Connect\<close> in its phases, \<open>Disconnect\<close>, teardown), \<open>Client_Api\<close> (the calls as a relation and the invariant of its reachable states),
    \<open>Client_Flows\<close> (the SAML flow and the direct flow, end to end), \<open>Client_Reconnect\<close> (what a reconnection may do with cached credentials), \<open>Tunnel\<close> (packets between the device and
    the wire, keepalive, inactivity), \<open>Rekey\<close> (key renegotiation composed with the relay and the key manager).
  \<^item> The host's network: \<open>Ownership\<close> (the ledgers of routes and DNS settings, the drift monitor), \<open>Netlink\<close> and \<open>Routes\<close> (\<^verbatim>\<open>routing/netlink.go\<close>, byte by byte), \<open>Resolved\<close> (\<^verbatim>\<open>dns/dns_linux.go\<close>),
    \<open>Tun\<close> (\<^verbatim>\<open>tun/tun.go\<close>), \<open>Native_Tun\<close> (\<^verbatim>\<open>client_tun_linux.go\<close> and \<open>cleanup\<close>, which compose the four).  The theorems: a ledger touches nothing it has not created and gives back what it has; bringing a tunnel
    up and taking it down leaves the routing table, the resolver and \<^verbatim>\<open>resolv.conf\<close> as they were.
  \<^item> The relay: \<open>Web_Socket\<close> (frames), \<open>Relay_Server\<close> (\<^verbatim>\<open>cmd/relay-server\<close>: store, handlers, connections, with an invariant of the reachable states), \<open>Relay_Agent\<close> (\<^verbatim>\<open>relay/relay.go\<close>),
    \<open>Relay_Client\<close> (\<^verbatim>\<open>cmd/daemon/relay_client.go\<close>, composed with server and agent: the credentials arrive once and unchanged).
  \<^item> The programs: \<open>Daemon\<close> (\<^verbatim>\<open>cmd/daemon/service.go\<close>: calls of the bus and goroutines interleaved; one connection at a time), \<open>Cli\<close> (\<^verbatim>\<open>cmd/cli/main.go\<close>: secrets, modes, background start, the agent's callbacks),
    \<open>Mobile\<close> (\<^verbatim>\<open>client_mobile.go\<close>: the SAML flow through strings, and the configuration handed to the platform).

  \<^bold>\<open>Interfaces.\<close>  Where one component relies on another the laws are a locale with the client's lemmas, interpreted on the model: \<open>packet_transport\<close> (TCP and UDP), \<open>data_cipher\<close> (GCM, CBC and the
  suite that chooses between them), \<open>epoch\<close> (one channel and the key manager), \<open>ordered_receiver\<close> (the receive window), \<open>ledger\<close> (routes and DNS), \<open>frame\<close> and \<open>full_frame\<close> (what every step of a connection
  attempt keeps), \<open>invariant_system\<close> (key manager, client, relay server, daemon).

  \<^bold>\<open>Bounds and fuel.\<close>  Recursions end by structure or by a proved measure.  The parser of JSON texts has fuel, which \<open>parse_json\<close> sets to twice the length of the text and one; a lemma
  shows that more gives the same result, and nesting is limited as in the library.  Loops over the network walk through the list of what arrives, so that the end of that list is the moment up to which the
  model looks; theorems of liveness state that enough events lead to the result.  Numbers keep the width of the code where they can overflow: packet ids and counters 32 bits, durations 64 bits, checksums 16 bits.

  \<^bold>\<open>Not modelled.\<close>  The TLS protocol itself (a parameter: its handshake result, its record stream and the keys it exports), the configuration of \<^verbatim>\<open>crypto/tls\<close> and the printing of certificates; log lines; dialling;
  the backends for macOS, iOS and Android, which call command line tools of the platform or take over its file descriptors; registration on the bus; the reads and writes of the device
  file; the Rust desktop interface; the mock server and the test environment.  What a data race outside a mutex can do is modelled only where the code relies on the order of two steps
  (closing channels, \<open>Disconnect\<close> during a connection attempt, rekeying while packets arrive).
\<close>

end
